(* ===== verification/Prelude.thy ===== *)
theory Prelude
  imports Main "HOL-Library.Word"
begin

text \<open>
  Shared vocabulary of the development: the machine integer types of the Rust crate
  (\<^verbatim>\<open>u8\<close> .. \<^verbatim>\<open>u64\<close>, \<^verbatim>\<open>usize\<close> and \<^verbatim>\<open>isize\<close> on the 64-bit targets the crate supports), faults,
  the state-and-fault computations every component is written in, checked arithmetic, and
  the generic facts on lists and words that the component theories use.
\<close>

unbundle bit_operations_syntax

section \<open>Machine integers\<close>

type_synonym u8 = "8 word"
type_synonym u16 = "16 word"
type_synonym u32 = "32 word"
type_synonym u64 = "64 word"
type_synonym usize = "64 word"

text \<open>
  \<^verbatim>\<open>isize\<close> has the same 64 bits as \<^verbatim>\<open>usize\<close>; \<^const>\<open>sint\<close> reads it as two's complement, so the
  cast \<^verbatim>\<open>as usize\<close> is the identity on the bits.
\<close>

type_synonym isize = "64 word"

definition isize_max :: nat where
  "isize_max = 2 ^ 63 - 1"

definition checked_add :: "usize \<Rightarrow> usize \<Rightarrow> usize option" where
  "checked_add a b = (if unat a + unat b < 2 ^ 64 then Some (a + b) else None)"

definition checked_mul :: "usize \<Rightarrow> usize \<Rightarrow> usize option" where
  "checked_mul a b = (if unat a * unat b < 2 ^ 64 then Some (a * b) else None)"

definition checked_sub :: "usize \<Rightarrow> usize \<Rightarrow> usize option" where
  "checked_sub a b = (if b \<le> a then Some (a - b) else None)"

lemma checked_add_eq_Some_iff:
  "checked_add a b = Some c \<longleftrightarrow> unat a + unat b < 2 ^ 64 \<and> c = a + b"
  by (auto simp: checked_add_def)

lemma checked_mul_eq_Some_iff:
  "checked_mul a b = Some c \<longleftrightarrow> unat a * unat b < 2 ^ 64 \<and> c = a * b"
  by (auto simp: checked_mul_def)

lemma checked_sub_eq_Some_iff:
  "checked_sub a b = Some c \<longleftrightarrow> b \<le> a \<and> c = a - b"
  by (auto simp: checked_sub_def)

lemma unat_add_no_wrap: "unat a + unat b < 2 ^ 64 \<Longrightarrow> unat (a + b) = unat a + unat b"
  for a b :: usize
  by (simp add: unat_word_ariths)

lemma unat_mul_no_wrap: "unat a * unat b < 2 ^ 64 \<Longrightarrow> unat (a * b) = unat a * unat b"
  for a b :: usize
  by (simp add: unat_word_ariths)

lemma unat_of_nat_usize [simp]: "n < 2 ^ 64 \<Longrightarrow> unat (of_nat n :: usize) = n"
  by (simp add: unat_of_nat)

lemma unat_usize_lt [simp]: "unat (a :: usize) < 2 ^ 64"
  using unsigned_less [of a] by simp

lemma unat_usize_lt_num [simp]: "unat (a :: usize) < 18446744073709551616"
  using unsigned_less [of a] by simp

lemma of_nat_unat_usize [simp]: "of_nat (unat a) = (a :: usize)"
  by simp

text \<open>The two's complement reading of a 64-bit word, by its unsigned value.\<close>

lemma sint_u64_cases:
  "sint (w :: u64) = (if unat w < 2 ^ 63 then int (unat w) else int (unat w) - 2 ^ 64)"
proof -
  define n where "n = int (unat w)"
  have m: "n = sint w mod 2 ^ 64"
    using uint_sint [of w] by (simp add: n_def take_bit_eq_mod)
  have b: "- (2 ^ 63) \<le> sint w" "sint w < 2 ^ 63"
    using sint_greater_eq [of w] sint_less [of w] by simp_all
  have n: "unat w < 2 ^ 63 \<longleftrightarrow> n < 2 ^ 63"
    unfolding n_def by (metis of_nat_less_iff of_nat_numeral of_nat_power)
  have "sint w = (if n < 2 ^ 63 then n else n - 2 ^ 64)"
  proof (cases "0 \<le> sint w")
    case True
    then have "n = sint w" using b m by simp
    with b show ?thesis by simp
  next
    case False
    have "sint w mod 2 ^ 64 = (sint w + 2 ^ 64) mod 2 ^ 64" by simp
    also have "\<dots> = sint w + 2 ^ 64" using False b by (intro mod_pos_pos_trivial) simp_all
    finally have "n = sint w + 2 ^ 64" using m by simp
    with b show ?thesis by simp
  qed
  then show ?thesis unfolding n n_def .
qed

lemma sint_nonneg_iff: "0 \<le> sint (w :: u64) \<longleftrightarrow> unat w \<le> isize_max"
  using unat_usize_lt [of w] unfolding sint_u64_cases isize_max_def
  by (simp del: unat_usize_lt unat_usize_lt_num of_nat_unat)

lemma sint_less_isize_max: "unat w < isize_max \<Longrightarrow> sint (w :: u64) < int isize_max"
  unfolding sint_u64_cases by (simp add: isize_max_def del: of_nat_unat)

section \<open>Alignment\<close>

text \<open>The least multiple of \<open>a\<close> that is not below \<open>n\<close>.\<close>

definition align_up :: "nat \<Rightarrow> nat \<Rightarrow> nat" where
  "align_up n a = (n + a - 1) div a * a"

lemma align_up_ge:
  assumes "0 < a"
  shows "n \<le> align_up n a"
proof -
  have "(n + a - 1) mod a \<le> a - 1"
    using assms by (metis Suc_pred' less_Suc_eq_le mod_less_divisor)
  then show ?thesis
    using assms by (simp add: align_up_def flip: minus_mod_eq_div_mult)
qed

lemma align_up_dvd: "a dvd align_up n a"
  by (simp add: align_up_def)

lemma align_up_cases:
  assumes "0 < a"
  shows "align_up n a = (if n mod a = 0 then n else n + (a - n mod a))"
proof -
  define q r where "q = n div a" and "r = n mod a"
  have n: "n = q * a + r" and r: "r < a" using assms by (simp_all add: q_def r_def)
  have e: "n + a - 1 = (r + a - 1) + a * q" using n assms by (simp add: mult.commute)
  have "(n + a - 1) div a = q + (r + a - 1) div a"
    unfolding e using assms by (simp only: div_mult_self2)
  moreover have "(r + a - 1) div a = (if r = 0 then 0 else 1)"
  proof (cases "r = 0")
    case False
    then obtain k where k: "r = Suc k" by (cases r) auto
    then have "r + a - 1 = k + a" by simp
    moreover have "(k + a) div a = k div a + 1" using assms by (intro div_add_self2) simp
    ultimately show ?thesis using k r by simp
  qed (use assms in simp)
  ultimately have "align_up n a = (if r = 0 then q * a else q * a + a)"
    by (simp add: align_up_def)
  then show ?thesis using n r by (auto simp: r_def [symmetric])
qed

lemma align_up_less: "0 < a \<Longrightarrow> align_up n a < n + a"
  by (simp add: align_up_cases)

lemma unat_ucast_u32 [simp]: "unat (ucast (x :: u32) :: u64) = unat x"
  by (simp add: unsigned_ucast_eq take_bit_nat_eq_self_iff unsigned_less [of x, THEN less_le_trans])

lemma unat_u32_lt [simp]: "unat (x :: u32) < 4294967296"
  using unsigned_less [of x] by simp

section \<open>Faults and computations\<close>

text \<open>
  A \<^verbatim>\<open>Panic\<close> is a Rust panic with its message (a failed \<^verbatim>\<open>assert!\<close>, \<^verbatim>\<open>expect\<close> or arithmetic check);
  \<^verbatim>\<open>Ub\<close> marks a step whose safety condition does not hold, so that the program has no defined
  behaviour from there on. Theorems about an operation show which of the two can happen.
\<close>

datatype fault = Panic string | Ub string

type_synonym 'a res = "fault + 'a"

text \<open>
  A computation over a state \<open>'s\<close> returns a value or a fault together with the state it leaves:
  a panic unwinds, so what a Rust operation leaves behind on a panic matters.
\<close>

type_synonym ('s, 'a) prog = "'s \<Rightarrow> 'a res \<times> 's"

named_theorems prog_simps "unfolding rules of computations"

definition ret :: "'a \<Rightarrow> ('s, 'a) prog" where
  "ret a = (\<lambda>s. (Inr a, s))"

definition fail :: "fault \<Rightarrow> ('s, 'a) prog" where
  "fail e = (\<lambda>s. (Inl e, s))"

definition bindM :: "('s, 'a) prog \<Rightarrow> ('a \<Rightarrow> ('s, 'b) prog) \<Rightarrow> ('s, 'b) prog" where
  "bindM m k = (\<lambda>s. case m s of (Inl e, s') \<Rightarrow> (Inl e, s') | (Inr a, s') \<Rightarrow> k a s')"

definition getM :: "('s \<Rightarrow> 'a) \<Rightarrow> ('s, 'a) prog" where
  "getM f = (\<lambda>s. (Inr (f s), s))"

definition modifyM :: "('s \<Rightarrow> 's) \<Rightarrow> ('s, unit) prog" where
  "modifyM f = (\<lambda>s. (Inr (), f s))"

definition liftM :: "'a res \<Rightarrow> ('s, 'a) prog" where
  "liftM r = (\<lambda>s. (r, s))"

definition assertM :: "bool \<Rightarrow> string \<Rightarrow> ('s, unit) prog" where
  "assertM b msg = (if b then ret () else fail (Panic msg))"

definition expectM :: "'a option \<Rightarrow> string \<Rightarrow> ('s, 'a) prog" where
  "expectM x msg = (case x of None \<Rightarrow> fail (Panic msg) | Some a \<Rightarrow> ret a)"

text \<open>A step of \<^verbatim>\<open>unsafe\<close> code whose safety condition is \<open>b\<close>.\<close>

definition requireM :: "bool \<Rightarrow> string \<Rightarrow> ('s, unit) prog" where
  "requireM b msg = (if b then ret () else fail (Ub msg))"

text \<open>A \<^verbatim>\<open>for\<close> loop over a list, and the one that collects the results of its body.\<close>

primrec forM :: "'b list \<Rightarrow> ('b \<Rightarrow> ('s, unit) prog) \<Rightarrow> ('s, unit) prog" where
  "forM [] f = ret ()"
| "forM (x # xs) f = bindM (f x) (\<lambda>_. forM xs f)"

primrec mapM :: "('b \<Rightarrow> ('s, 'a) prog) \<Rightarrow> 'b list \<Rightarrow> ('s, 'a list) prog" where
  "mapM f [] = ret []"
| "mapM f (x # xs) = bindM (f x) (\<lambda>y. bindM (mapM f xs) (\<lambda>ys. ret (y # ys)))"

text \<open>
  Running \<open>body\<close> with a drop guard: \<open>cleanup\<close> runs on the way out, whether \<open>body\<close> returned
  or panicked (unwinding drops the guard).
\<close>

definition with_guard :: "('s \<Rightarrow> 's) \<Rightarrow> ('s, 'a) prog \<Rightarrow> ('s, 'a) prog" where
  "with_guard cleanup body = (\<lambda>s. case body s of (r, s') \<Rightarrow> (r, cleanup s'))"

lemma ret_apply [prog_simps]: "ret a s = (Inr a, s)"
  by (simp add: ret_def)

lemma fail_apply [prog_simps]: "fail e s = (Inl e, s)"
  by (simp add: fail_def)

lemma ret_eq_iff [simp]: "ret a s = (r, s') \<longleftrightarrow> r = Inr a \<and> s' = s"
  by (auto simp: ret_def)

lemma fail_eq_iff [simp]: "fail e s = (r, s') \<longleftrightarrow> r = Inl e \<and> s' = s"
  by (auto simp: fail_def)

lemma liftM_eq_iff [simp]: "liftM x s = (r, s') \<longleftrightarrow> r = x \<and> s' = s"
  by (auto simp: liftM_def)

lemma fst_snd_basic [simp]:
  "fst (ret a s) = Inr a" "snd (ret a s) = s" "fst (fail e s) = Inl e" "snd (fail e s) = s"
  "fst (liftM r s) = r" "snd (liftM r s) = s"
  by (simp_all add: ret_def fail_def liftM_def)

lemma getM_apply [prog_simps, simp]: "getM f s = (Inr (f s), s)"
  by (simp add: getM_def)

lemma modifyM_apply [prog_simps, simp]: "modifyM f s = (Inr (), f s)"
  by (simp add: modifyM_def)

lemma liftM_apply [prog_simps]: "liftM r s = (r, s)"
  by (simp add: liftM_def)

lemma bindM_apply [prog_simps]:
  "bindM m k s = (case m s of (Inl e, s') \<Rightarrow> (Inl e, s') | (Inr a, s') \<Rightarrow> k a s')"
  by (simp add: bindM_def)

lemma bindM_Inr [simp]: "m s = (Inr a, s') \<Longrightarrow> bindM m k s = k a s'"
  by (simp add: bindM_def)

lemma bindM_Inl [simp]: "m s = (Inl e, s') \<Longrightarrow> bindM m k s = (Inl e, s')"
  by (simp add: bindM_def)

lemma bindM_ret [simp]: "bindM (ret a) k = k a"
  by (simp add: bindM_def ret_def)

lemma bindM_fail [simp]: "bindM (fail e) k = fail e"
  by (simp add: bindM_def fail_def)

lemma bindM_ret_right [simp]: "bindM m ret = m"
  by (rule ext) (auto simp: bindM_def split: sum.splits prod.splits)

lemma bindM_assoc: "bindM (bindM m k) h = bindM m (\<lambda>a. bindM (k a) h)"
  by (rule ext) (auto simp: bindM_def split: sum.splits prod.splits)

lemma assertM_apply [prog_simps]:
  "assertM b msg s = (if b then (Inr (), s) else (Inl (Panic msg), s))"
  by (simp add: assertM_def)

lemma assertM_True [simp]: "assertM True msg = ret ()"
  by (simp add: assertM_def)

lemma assertM_False [simp]: "assertM False msg = fail (Panic msg)"
  by (simp add: assertM_def)

lemma requireM_apply [prog_simps]:
  "requireM b msg s = (if b then (Inr (), s) else (Inl (Ub msg), s))"
  by (simp add: requireM_def)

lemma requireM_True [simp]: "requireM True msg = ret ()"
  by (simp add: requireM_def)

lemma requireM_False [simp]: "requireM False msg = fail (Ub msg)"
  by (simp add: requireM_def)

lemma expectM_Some [simp]: "expectM (Some a) msg = ret a"
  by (simp add: expectM_def)

lemma expectM_None [simp]: "expectM None msg = fail (Panic msg)"
  by (simp add: expectM_def)

lemma with_guard_apply [prog_simps]:
  "with_guard c m s = (fst (m s), c (snd (m s)))"
  by (simp add: with_guard_def split: prod.splits)

lemma bindM_eq_InrE:
  assumes "bindM m k s = (Inr b, s'')"
  obtains a s' where "m s = (Inr a, s')" "k a s' = (Inr b, s'')"
  using assms by (auto simp: bindM_def split: sum.splits prod.splits)

lemma mapM_append:
  "mapM f (xs @ ys) = bindM (mapM f xs) (\<lambda>us. bindM (mapM f ys) (\<lambda>vs. ret (us @ vs)))"
  by (induction xs) (simp_all add: bindM_assoc)

lemma mapM_length: "mapM f xs s = (Inr ys, s') \<Longrightarrow> length ys = length xs"
  by (induction xs arbitrary: s ys) (auto elim!: bindM_eq_InrE)

text \<open>
  Total correctness of a computation, with a condition for each way out: from a state in \<open>P\<close>
  it returns into \<open>Q\<close> or faults into \<open>E\<close>. \<open>preserves P m\<close> is the special case of an invariant
  kept on both ways out.
\<close>

definition preserves :: "('s \<Rightarrow> bool) \<Rightarrow> ('s, 'a) prog \<Rightarrow> bool" where
  "preserves P m \<longleftrightarrow> (\<forall>s. P s \<longrightarrow> P (snd (m s)))"

lemma preservesI: "(\<And>s. P s \<Longrightarrow> P (snd (m s))) \<Longrightarrow> preserves P m"
  by (simp add: preserves_def)

lemma preservesD: "preserves P m \<Longrightarrow> P s \<Longrightarrow> P (snd (m s))"
  by (simp add: preserves_def)

lemma preserves_basic [intro]:
  "preserves P (ret a)" "preserves P (fail e)" "preserves P (getM f)" "preserves P (liftM r)"
  "preserves P (assertM b msg)" "preserves P (requireM b msg)" "preserves P (expectM x msg)"
  by (auto simp: preserves_def assertM_def requireM_def expectM_def split: option.splits)

lemma preserves_bindM [intro]:
  assumes "preserves P m" and "\<And>a. preserves P (k a)"
  shows "preserves P (bindM m k)"
proof (rule preservesI)
  fix s assume "P s"
  with assms(1) have "P (snd (m s))" by (rule preservesD)
  with assms(2) show "P (snd (bindM m k s))"
    by (auto simp: bindM_def preserves_def split: sum.splits prod.splits)
qed

lemma preserves_cases [intro]:
  "(\<And>a. preserves P (f a)) \<Longrightarrow> (\<And>b. preserves P (g b)) \<Longrightarrow> preserves P (case_sum f g r)"
  "preserves P m \<Longrightarrow> (\<And>b. preserves P (k b)) \<Longrightarrow> preserves P (case_option m k x)"
  "(\<And>a b. preserves P (h a b)) \<Longrightarrow> preserves P (case_prod h y)"
  "preserves P m \<Longrightarrow> preserves P m' \<Longrightarrow> preserves P (if c then m else m')"
  by (auto split: sum.split option.split prod.split)

lemma preserves_forM [intro]:
  "(\<And>x. x \<in> set xs \<Longrightarrow> preserves P (f x)) \<Longrightarrow> preserves P (forM xs f)"
  by (induction xs) auto

lemma preserves_mapM [intro]:
  "(\<And>x. x \<in> set xs \<Longrightarrow> preserves P (f x)) \<Longrightarrow> preserves P (mapM f xs)"
  by (induction xs) auto

end
