(* ===== verification/Layout.thy ===== *)
theory Layout
  imports Prelude
begin

text \<open>
  The memory layout of the types the crate shares with the Odin library (\<^verbatim>\<open>sys.rs\<close>). Every struct and
  union of the file is a value of \<open>ctype\<close>; \<open>size_of\<close>, \<open>align_of\<close> and \<open>offsets\<close> are the
  \<^verbatim>\<open>repr(C)\<close> layout algorithm, with \<^verbatim>\<open>align(n)\<close> and \<^verbatim>\<open>packed(n)\<close>. The file's compile-time assertions
  are tables of expected offsets, sizes and alignments, checked against the algorithm, and the
  algorithm is shown to place the fields of any struct apart, aligned and within the struct.
\<close>

section \<open>The layout algorithm\<close>

datatype attr = Plain | Align nat | Packed nat

datatype ctype = Prim nat | Arr nat ctype | Struct attr fields | Union attr fields
  and fields = No_Fields | Field string ctype fields

text \<open>A raw pointer of the 64-bit targets.\<close>

abbreviation Ptr :: ctype where
  "Ptr \<equiv> Prim 8"

primrec fields_of :: "(string \<times> ctype) list \<Rightarrow> fields" where
  "fields_of [] = No_Fields"
| "fields_of (f # fs) = Field (fst f) (snd f) (fields_of fs)"

text \<open>The alignment of a struct from the largest alignment of its fields, and that of a field in it.\<close>

fun attr_align :: "attr \<Rightarrow> nat \<Rightarrow> nat" where
  "attr_align Plain a = a"
| "attr_align (Align n) a = max n a"
| "attr_align (Packed n) a = min n a"

fun field_align :: "attr \<Rightarrow> nat \<Rightarrow> nat" where
  "field_align (Packed n) a = min n a"
| "field_align _ a = a"

primrec align_of :: "ctype \<Rightarrow> nat" and fields_align :: "fields \<Rightarrow> nat" where
  "align_of (Prim n) = n"
| "align_of (Arr k t) = align_of t"
| "align_of (Struct a fs) = attr_align a (fields_align fs)"
| "align_of (Union a fs) = attr_align a (fields_align fs)"
| "fields_align No_Fields = 1"
| "fields_align (Field f t fs) = max (align_of t) (fields_align fs)"

text \<open>Where the fields end, from their sizes and alignments, starting at an offset.\<close>

fun fields_end :: "attr \<Rightarrow> (nat \<times> nat) list \<Rightarrow> nat \<Rightarrow> nat" where
  "fields_end a [] off = off"
| "fields_end a ((sz, al) # fs) off = fields_end a fs (align_up off (field_align a al) + sz)"

primrec size_of :: "ctype \<Rightarrow> nat" and fields_sizes :: "fields \<Rightarrow> (nat \<times> nat) list" where
  "size_of (Prim n) = n"
| "size_of (Arr k t) = k * size_of t"
| "size_of (Struct a fs) =
     align_up (fields_end a (fields_sizes fs) 0) (attr_align a (fields_align fs))"
| "size_of (Union a fs) =
     align_up (fold max (map fst (fields_sizes fs)) 0) (attr_align a (fields_align fs))"
| "fields_sizes No_Fields = []"
| "fields_sizes (Field f t fs) = (size_of t, align_of t) # fields_sizes fs"

primrec field_offsets :: "fields \<Rightarrow> attr \<Rightarrow> nat \<Rightarrow> (string \<times> nat \<times> ctype) list" where
  "field_offsets No_Fields a off = []"
| "field_offsets (Field f t fs) a off =
     (let o' = align_up off (field_align a (align_of t))
      in (f, o', t) # field_offsets fs a (o' + size_of t))"

primrec union_offsets :: "fields \<Rightarrow> (string \<times> nat \<times> ctype) list" where
  "union_offsets No_Fields = []"
| "union_offsets (Field f t fs) = (f, 0, t) # union_offsets fs"

fun offsets :: "ctype \<Rightarrow> (string \<times> nat \<times> ctype) list" where
  "offsets (Struct a fs) = field_offsets fs a 0"
| "offsets (Union a fs) = union_offsets fs"
| "offsets _ = []"

text \<open>\<^verbatim>\<open>offset_of!\<close>, and the value every \<^verbatim>\<open>Default\<close> instance of the file returns, \<^verbatim>\<open>core::mem::zeroed()\<close>.\<close>

definition offset_of :: "ctype \<Rightarrow> string \<Rightarrow> nat option" where
  "offset_of t f = map_option fst (map_of (offsets t) f)"

definition zeroed :: "ctype \<Rightarrow> u8 list" where
  "zeroed t = replicate (size_of t) 0"

section \<open>Correctness of the algorithm\<close>

text \<open>
  A type is well formed when every primitive in it has a positive size and every attribute a
  positive alignment.
\<close>

fun attr_ok :: "attr \<Rightarrow> bool" where
  "attr_ok Plain = True"
| "attr_ok (Align n) = (0 < n)"
| "attr_ok (Packed n) = (0 < n)"

primrec ctype_ok :: "ctype \<Rightarrow> bool" and fields_ok :: "fields \<Rightarrow> bool" where
  "ctype_ok (Prim n) = (0 < n)"
| "ctype_ok (Arr k t) = ctype_ok t"
| "ctype_ok (Struct a fs) = (attr_ok a \<and> fields_ok fs)"
| "ctype_ok (Union a fs) = (attr_ok a \<and> fields_ok fs)"
| "fields_ok No_Fields = True"
| "fields_ok (Field f t fs) = (ctype_ok t \<and> fields_ok fs)"

lemma align_positive:
  "ctype_ok t \<Longrightarrow> 0 < align_of t"
  "fields_ok fs \<Longrightarrow> 0 < fields_align fs"
proof (induction t and fs)
  case (Struct a fs)
  then show ?case by (cases a) auto
next
  case (Union a fs)
  then show ?case by (cases a) auto
qed auto

lemma field_align_positive: "attr_ok a \<Longrightarrow> 0 < n \<Longrightarrow> 0 < field_align a n"
  by (cases a) auto

lemma align_dvd_size: "ctype_ok t \<Longrightarrow> align_of t dvd size_of t"
proof (induction t rule: ctype.induct [of _ "\<lambda>_. True"])
qed (simp_all add: align_up_dvd)

lemma field_offsets_apart:
  assumes "attr_ok a" "fields_ok fs"
  shows "sorted_wrt (\<lambda>(_, o1, t1) (_, o2, _). o1 + size_of t1 \<le> o2) (field_offsets fs a off) \<and>
    list_all (\<lambda>(_, o1, t1). off \<le> o1 \<and> o1 + size_of t1 \<le> fields_end a (fields_sizes fs) off \<and>
      field_align a (align_of t1) dvd o1) (field_offsets fs a off) \<and>
    off \<le> fields_end a (fields_sizes fs) off"
  using assms(2)
proof (induction fs arbitrary: off rule: fields.induct [of "\<lambda>_. True"])
  case (Field f t fs)
  let ?o = "align_up off (field_align a (align_of t))"
  have "off \<le> ?o"
    using Field.prems assms(1) align_positive(1) [of t] by (intro align_up_ge field_align_positive) auto
  moreover note Field.IH [of "?o + size_of t"]
  ultimately show ?case
    using Field.prems by (auto simp: Let_def align_up_dvd list_all_iff) 
qed auto

lemma struct_fields_placed:
  assumes "ctype_ok (Struct a fs)"
  shows "sorted_wrt (\<lambda>(_, o1, t1) (_, o2, _). o1 + size_of t1 \<le> o2) (offsets (Struct a fs)) \<and>
    list_all (\<lambda>(_, o1, t1). o1 + size_of t1 \<le> size_of (Struct a fs) \<and>
      field_align a (align_of t1) dvd o1) (offsets (Struct a fs))"
proof -
  have ok: "attr_ok a" "fields_ok fs" using assms by auto
  have "fields_end a (fields_sizes fs) 0 \<le> size_of (Struct a fs)"
    using align_positive(1) [OF assms] by (auto intro: align_up_ge)
  then show ?thesis
    using field_offsets_apart [OF ok, of 0] by (auto simp: list_all_iff)
qed

section \<open>The types of the bindings\<close>

definition FixedCapDynArray_ct :: "nat \<Rightarrow> ctype \<Rightarrow> ctype" where
  "FixedCapDynArray_ct LEN t = Struct Plain (fields_of [(''data'', Arr LEN t), (''len'', Prim 8)])"

type_synonym layout_assert = "ctype \<times> (string \<times> nat) list \<times> nat \<times> nat"

definition Slice_ct :: ctype where
  "Slice_ct = Struct Plain (fields_of
     [(''data'', Ptr),
      (''len'', (Prim 8))])"

definition String_ct :: ctype where
  "String_ct = Struct Plain (fields_of
     [(''data'', Ptr),
      (''len'', (Prim 8))])"

definition runtime_Allocator_Proc_ct :: ctype where
  "runtime_Allocator_Proc_ct = Ptr"

definition runtime_Allocator_ct :: ctype where
  "runtime_Allocator_ct = Struct (Align 8) (fields_of
     [(''procedure'', runtime_Allocator_Proc_ct),
      (''data'', Ptr)])"

definition DynamicArray_ct :: ctype where
  "DynamicArray_ct = Struct Plain (fields_of
     [(''data'', Ptr),
      (''len'', (Prim 8)),
      (''cap'', (Prim 8)),
      (''allocator'', runtime_Allocator_ct)])"

definition ssa_Node_Type_ct :: ctype where
  "ssa_Node_Type_ct = Prim 2"

definition arna_Allocator_ct :: ctype where
  "arna_Allocator_ct = Struct (Align 8) (fields_of
     [(''ptr'', Ptr),
      (''pos'', (Prim 8)),
      (''commited'', (Prim 8)),
      (''reserved'', (Prim 8))])"

definition Proc_preserved_ct :: ctype where
  "Proc_preserved_ct = Struct (Align 8) (fields_of
     [(''stats'', Ptr)])"

definition Sloc_ct :: ctype where
  "Sloc_ct = Struct (Align 4) (fields_of
     [(''bytes'', (Arr 8 (Prim 1)))])"

definition Interner_ct :: ctype where
  "Interner_ct = Struct (Align 8) (fields_of
     [(''hash_idx'', (Prim 8)),
      (''node_idx'', (Prim 8)),
      (''len'', (Prim 8)),
      (''cap'', (Prim 8))])"

definition Proc_Meta_config_opt_flags_ct :: ctype where
  "Proc_Meta_config_opt_flags_ct = Prim 1"

definition Proc_Meta_config_ct :: ctype where
  "Proc_Meta_config_ct = Struct (Align 1) (fields_of
     [(''has_dbg'', (Prim 1)),
      (''opt_flags'', Proc_Meta_config_opt_flags_ct)])"

definition Node_ID_ct :: ctype where
  "Node_ID_ct = Prim 4"

definition Proc_Meta_pinned_ct :: ctype where
  "Proc_Meta_pinned_ct = Struct (Align 4) (fields_of
     [(''entry'', Node_ID_ct),
      (''end'', Node_ID_ct)])"

definition Proc_Meta_cached_ct :: ctype where
  "Proc_Meta_cached_ct = Struct (Align 4) (fields_of
     [(''cmem'', Node_ID_ct)])"

definition Proc_Meta_ct :: ctype where
  "Proc_Meta_ct = Struct (Align 8) (fields_of
     [(''last_pass_spec'', Ptr),
      (''interner'', Interner_ct),
      (''weight'', (Prim 8)),
      (''waste'', (Prim 8)),
      (''gvn'', (Prim 4)),
      (''gdn'', (Prim 4)),
      (''stable_id'', (Prim 4)),
      (''min_idepth'', (Prim 4)),
      (''max_idepth'', (Prim 4)),
      (''config'', Proc_Meta_config_ct),
      (''pinned'', Proc_Meta_pinned_ct),
      (''cached'', Proc_Meta_cached_ct)])"

definition Proc_computed_passes_ct :: ctype where
  "Proc_computed_passes_ct = Prim 1"

definition Proc_ct :: ctype where
  "Proc_ct = Struct (Align 8) (fields_of
     [(''node_spec'', Ptr),
      (''preserved'', Proc_preserved_ct),
      (''worklist'', Ptr),
      (''triggers'', Ptr),
      (''mem'', Ptr),
      (''temps'', Ptr),
      (''curret_sloc'', Sloc_ct),
      (''nil_sloc_slot'', Sloc_ct),
      (''meta'', Proc_Meta_ct),
      (''dont_intern'', (Prim 1)),
      (''dont_delete'', (Prim 1)),
      (''computed_passes'', Proc_computed_passes_ct),
      (''lattices'', Slice_ct)])"

definition arna_Temps_ct :: ctype where
  "arna_Temps_ct = Arr 2 arna_Allocator_ct"

definition Codegen_Emit_Buf_ct :: ctype where
  "Codegen_Emit_Buf_ct = Struct (Align 8) (fields_of
     [(''code'', Ptr),
      (''constants'', Ptr),
      (''relocs'', Ptr),
      (''slocs'', Ptr),
      (''cfi'', Ptr),
      (''dbg_locs'', Ptr)])"

definition Lib_Call_ct :: ctype where
  "Lib_Call_ct = Struct (Align 4) (fields_of
     [(''bytes'', (Arr 4 (Prim 1)))])"

definition Lib_Calls_ct :: ctype where
  "Lib_Calls_ct = Struct (Align 4) (fields_of
     [(''copy'', Lib_Call_ct),
      (''set'', Lib_Call_ct)])"

definition Regalloc_Mode_ct :: ctype where
  "Regalloc_Mode_ct = Prim 8"

definition Reg_Kind_ct :: ctype where
  "Reg_Kind_ct = Prim 2"

definition Regalloc_Output_ct :: ctype where
  "Regalloc_Output_ct = Struct (Align 8) (fields_of
     [(''allocs'', Slice_ct),
      (''temp_stack_slot'', Reg_Kind_ct),
      (''computed'', (Prim 1))])"

definition Codegen_Emit_Ctx_ct :: ctype where
  "Codegen_Emit_Ctx_ct = Struct (Align 8) (fields_of
     [(''prc'', Ptr),
      (''schedule'', Ptr),
      (''dbg_data'', Ptr),
      (''abi'', Ptr),
      (''buf'', Codegen_Emit_Buf_ct),
      (''emit_got_imports'', (Prim 1)),
      (''lib_calls'', Lib_Calls_ct),
      (''regalloc_mode'', Regalloc_Mode_ct),
      (''ra_out'', Regalloc_Output_ct),
      (''param_specs'', Slice_ct),
      (''stack_param_offset'', Slice_ct),
      (''spill_slot_base'', Slice_ct),
      (''spill_slot_size'', Slice_ct),
      (''instr_offsets'', Slice_ct),
      (''code_start'', (Prim 8)),
      (''constants_start'', (Prim 8)),
      (''last_off'', (Prim 8)),
      (''sloc'', Sloc_ct)])"

definition Codegen_Emit_Output_ct :: ctype where
  "Codegen_Emit_Output_ct = Struct (Align 1) (fields_of
     [])"

definition Codegen_Output_Bufs_ct :: ctype where
  "Codegen_Output_Bufs_ct = Struct (Align 8) (fields_of
     [(''code'', Slice_ct),
      (''constants'', Slice_ct),
      (''relocs'', Slice_ct),
      (''slocs'', Slice_ct),
      (''cfi'', Slice_ct),
      (''dbg_locs'', Slice_ct)])"

definition Codegen_Output_ct :: ctype where
  "Codegen_Output_ct = Struct (Align 8) (fields_of
     [(''emit'', Codegen_Emit_Output_ct),
      (''bufs'', Codegen_Output_Bufs_ct)])"

definition Opt_Hints_select_types_ct :: ctype where
  "Opt_Hints_select_types_ct = Prim 2"

definition Opt_Hints_ct :: ctype where
  "Opt_Hints_ct = Struct (Align 2) (fields_of
     [(''select_types'', Opt_Hints_select_types_ct)])"

definition Peep_Ctx_ct :: ctype where
  "Peep_Ctx_ct = Struct (Align 8) (fields_of
     [(''prc'', Ptr),
      (''opt_hints'', Opt_Hints_ct)])"

definition Stencil_ct :: ctype where
  "Stencil_ct = Struct (Align 8) (fields_of
     [(''mem'', Slice_ct),
      (''meta'', Proc_Meta_ct)])"

definition Schedule_ct :: ctype where
  "Schedule_ct = Struct (Align 8) (fields_of
     [(''bbs'', DynamicArray_ct)])"

definition Schedule_Mode_ct :: ctype where
  "Schedule_Mode_ct = Prim 8"

definition Dbg_Data_ct :: ctype where
  "Dbg_Data_ct = Struct (Align 8) (fields_of
     [(''syms'', DynamicArray_ct)])"

definition RM_Interner_ct :: ctype where
  "RM_Interner_ct = Struct (Align 8) (fields_of
     [(''slots'', Slice_ct),
      (''lens'', Slice_ct),
      (''mask_len'', (Prim 4))])"

definition Regalloc_ct :: ctype where
  "Regalloc_ct = Struct (Align 8) (fields_of
     [(''spec'', Ptr),
      (''cc'', Ptr),
      (''rms'', RM_Interner_ct),
      (''param_specs'', Slice_ct)])"

definition Node_Datatype_ct :: ctype where
  "Node_Datatype_ct = Prim 1"

definition Codegen_Emit_Buf_Checkpoint_ct :: ctype where
  "Codegen_Emit_Buf_Checkpoint_ct = Struct (Align 8) (fields_of
     [(''code'', (Prim 8)),
      (''constants'', (Prim 8)),
      (''relocs'', (Prim 8)),
      (''slocs'', (Prim 8)),
      (''cfi'', (Prim 8)),
      (''dbg_locs'', (Prim 8))])"

definition Un_Op_ct :: ctype where
  "Un_Op_ct = Prim 2"

definition Lane_Type_ct :: ctype where
  "Lane_Type_ct = Prim 1"

definition Expanded_Node_ct :: ctype where
  "Expanded_Node_ct = Struct (Align 8) (fields_of
     [(''node'', Ptr),
      (''inps'', Slice_ct),
      (''outs'', Slice_ct)])"

definition Node_Type_ct :: ctype where
  "Node_Type_ct = Prim 2"

definition Node_spec_type_ct :: ctype where
  "Node_spec_type_ct = Union (Align 2) (fields_of
     [(''itype'', Node_Type_ct),
      (''rtype'', (Prim 2))])"

definition Node_spec_meta_ct :: ctype where
  "Node_spec_meta_ct = Struct (Align 2) (fields_of
     [(''bytes'', (Arr 2 (Prim 1)))])"

definition Node_spec_ct :: ctype where
  "Node_spec_ct = Struct (Align 4) (fields_of
     [(''type'', Node_spec_type_ct),
      (''meta'', Node_spec_meta_ct)])"

definition Node_gvn_group_ct :: ctype where
  "Node_gvn_group_ct = Struct (Align 4) (fields_of
     [(''bytes'', (Arr 4 (Prim 1)))])"

definition Tag_ct :: ctype where
  "Tag_ct = Struct (Packed 4) (fields_of
     [(''name'', (Arr 1 String_ct)),
      (''stable_id'', (Arr 1 (Prim 4)))])"

definition Node_ct :: ctype where
  "Node_ct = Struct (Align 4) (fields_of
     [(''spec'', Node_spec_ct),
      (''gvn_group'', Node_gvn_group_ct),
      (''input_idx'', (Prim 4)),
      (''input_count'', (Prim 2)),
      (''input_cap'', (Prim 2)),
      (''output_idx'', (Prim 4)),
      (''output_count'', (Prim 2)),
      (''output_cap'', (Prim 2)),
      (''tag'', Tag_ct),
      (''extra'', (Arr 0 (Prim 4)))])"

definition Efficiency_Stat_ct :: ctype where
  "Efficiency_Stat_ct = Struct (Align 8) (fields_of
     [(''total'', (Prim 8)),
      (''ideal'', (Prim 8))])"

definition Stats_ct :: ctype where
  "Stats_ct = Struct (Align 8) (fields_of
     [(''efficiency'', (Arr 20 Efficiency_Stat_ct))])"

definition Efficiency_Stat_Kind_ct :: ctype where
  "Efficiency_Stat_Kind_ct = Prim 8"

definition Sym_Ref_Type_ct :: ctype where
  "Sym_Ref_Type_ct = Prim 4"

definition Sym_Ref_ct :: ctype where
  "Sym_Ref_ct = Struct (Align 4) (fields_of
     [(''type'', Sym_Ref_Type_ct),
      (''id'', (Prim 4)),
      (''node'', Node_ID_ct)])"

definition Cfi_Spec_ct :: ctype where
  "Cfi_Spec_ct = Struct (Align 4) (fields_of
     [(''cfa_reg'', (Prim 1)),
      (''return_addr_reg'', (Prim 1)),
      (''initial_cfa_offset'', (Prim 4)),
      (''code_align'', (Prim 4)),
      (''data_align'', (Prim 4))])"

definition Reg_ct :: ctype where
  "Reg_ct = Struct (Align 2) (fields_of
     [(''bytes'', (Arr 2 (Prim 1)))])"

definition Call_Conv_ct :: ctype where
  "Call_Conv_ct = Struct (Align 8) (fields_of
     [(''callee_saved'', Slice_ct),
      (''caller_saved'', Slice_ct),
      (''args'', Slice_ct),
      (''rets'', Slice_ct),
      (''red_zone_size'', (Prim 4)),
      (''is_syscall'', (Prim 1)),
      (''cfi_spec'', Cfi_Spec_ct),
      (''stack_pointer'', Reg_ct)])"

definition Regalloc_Spec_ct :: ctype where
  "Regalloc_Spec_ct = Struct (Align 8) (fields_of
     [(''datatype_to_reg_kind'', (Arr 11 Reg_Kind_ct)),
      (''spill_boundary'', Slice_ct),
      (''call_clobbers'', Slice_ct),
      (''collect_meta'', Ptr)])"

definition Sccp_Compute_Fn_ct :: ctype where
  "Sccp_Compute_Fn_ct = Ptr"

definition Peep_Fn_ct :: ctype where
  "Peep_Fn_ct = Ptr"

definition PS_Peep_Fn_ct :: ctype where
  "PS_Peep_Fn_ct = Ptr"

definition Pre_Regalloc_Hook_ct :: ctype where
  "Pre_Regalloc_Hook_ct = Ptr"

definition Codegen_Spec_ct :: ctype where
  "Codegen_Spec_ct = Struct (Align 8) (fields_of
     [(''emit_function'', Ptr),
      (''sccp_compute'', Sccp_Compute_Fn_ct),
      (''peep'', Peep_Fn_ct),
      (''post_schedule_peep'', PS_Peep_Fn_ct),
      (''pre_regalloc_hook'', Pre_Regalloc_Hook_ct)])"

definition Node_Spec_ct :: ctype where
  "Node_Spec_ct = Struct (Align 8) (fields_of
     [(''node_extra_sizes'', Slice_ct),
      (''inheritance_table'', Slice_ct),
      (''node_flags'', Slice_ct),
      (''node_extra_types'', Slice_ct),
      (''node_kind'', (Prim 8)),
      (''regalloc'', Regalloc_Spec_ct),
      (''codegen'', Codegen_Spec_ct)])"

definition ssa_Param_Gen_ct :: ctype where
  "ssa_Param_Gen_ct = Struct (Align 8) (fields_of
     [(''vls'', DynamicArray_ct),
      (''spill_start'', (Prim 8))])"

definition Param_Spec_ct :: ctype where
  "Param_Spec_ct = Struct (Align 4) (fields_of
     [(''dt'', Node_Datatype_ct),
      (''size'', (Prim 4))])"

definition ssa_Abi_Param_ct :: ctype where
  "ssa_Abi_Param_ct = Struct (Align 8) (fields_of
     [(''dt'', (FixedCapDynArray_ct 2 Node_Datatype_ct)),
      (''size'', (Prim 8)),
      (''real_size'', (Prim 8)),
      (''spilled'', (Prim 1)),
      (''scalar'', (Prim 1)),
      (''copied'', (Prim 1))])"

definition ssa_Block_State_ct :: ctype where
  "ssa_Block_State_ct = Struct (Align 4) (fields_of
     [(''end_scope'', Node_ID_ct)])"

definition ssa_If_State_branch_ct :: ctype where
  "ssa_If_State_branch_ct = Union (Align 4) (fields_of
     [(''else_scope'', Node_ID_ct),
      (''then_scope'', Node_ID_ct)])"

definition ssa_If_State_ct :: ctype where
  "ssa_If_State_ct = Struct (Align 4) (fields_of
     [(''if_'', Node_ID_ct),
      (''branch'', ssa_If_State_branch_ct)])"

definition Cfg_ct :: ctype where
  "Cfg_ct = Struct (Align 4) (fields_of
     [(''idepth'', (Prim 4))])"

definition Nil_Node_ct :: ctype where
  "Nil_Node_ct = Struct (Align 4) (fields_of
     [(''base'', Node_ct),
      (''cfg'', Cfg_ct)])"

definition Bin_Op_ct :: ctype where
  "Bin_Op_ct = Prim 2"

definition Call_flags_ct :: ctype where
  "Call_flags_ct = Struct (Align 4) (fields_of
     [(''bytes'', (Arr 4 (Prim 1)))])"

definition Call_ct :: ctype where
  "Call_ct = Struct (Align 4) (fields_of
     [(''field_0'', Cfg_ct),
      (''flags'', Call_flags_ct),
      (''cid'', (Prim 4)),
      (''rets'', (Arr 4 Node_Datatype_ct))])"

definition ssa_Loop_State_ct :: ctype where
  "ssa_Loop_State_ct = Struct (Align 4) (fields_of
     [(''scope'', Node_ID_ct),
      (''scopes'', (Arr 2 Node_ID_ct))])"

definition ssa_Loop_Control_ct :: ctype where
  "ssa_Loop_Control_ct = Prim 8"

definition container_queue_Queue__T_Node_ID__ct :: ctype where
  "container_queue_Queue__T_Node_ID__ct = Struct (Align 8) (fields_of
     [(''data'', DynamicArray_ct),
      (''len'', (Prim 8)),
      (''offset'', (Prim 8))])"

definition bit_arr_Bit_Set_ct :: ctype where
  "bit_arr_Bit_Set_ct = Struct (Align 8) (fields_of
     [(''masks'', Ptr),
      (''bit_length'', (Prim 8))])"

definition Worklist_ct :: ctype where
  "Worklist_ct = Struct (Align 8) (fields_of
     [(''queue'', container_queue_Queue__T_Node_ID__ct),
      (''in_queue'', bit_arr_Bit_Set_ct)])"

definition Lattice_meta_ct :: ctype where
  "Lattice_meta_ct = Struct (Align 8) (fields_of
     [(''bytes'', (Arr 8 (Prim 1)))])"

definition Lattice_ct :: ctype where
  "Lattice_ct = Struct (Align 8) (fields_of
     [(''min'', (Prim 8)),
      (''max'', (Prim 8)),
      (''meta'', Lattice_meta_ct)])"

definition Basic_Block_ct :: ctype where
  "Basic_Block_ct = Struct (Align 8) (fields_of
     [(''head'', Node_ID_ct),
      (''tail'', Node_ID_ct),
      (''instrs'', DynamicArray_ct),
      (''offset'', (Prim 4)),
      (''loop_tree'', Ptr)])"

definition Dbg_Sym_ct :: ctype where
  "Dbg_Sym_ct = Struct (Align 8) (fields_of
     [(''name'', String_ct),
      (''type'', (Prim 8))])"

definition Dbg_Data_Sym_ct :: ctype where
  "Dbg_Data_Sym_ct = Struct (Align 8) (fields_of
     [(''inner'', Dbg_Sym_ct),
      (''defs'', DynamicArray_ct)])"

definition Node_Output_ct :: ctype where
  "Node_Output_ct = Struct (Align 4) (fields_of
     [(''bytes'', (Arr 4 (Prim 1)))])"

definition Node_Spec_node_flags_ct :: ctype where
  "Node_Spec_node_flags_ct = Prim 1"

definition Reloc_field_1_ct :: ctype where
  "Reloc_field_1_ct = Struct (Align 4) (fields_of
     [(''bytes'', (Arr 4 (Prim 1)))])"

definition Reloc_ct :: ctype where
  "Reloc_ct = Struct (Align 4) (fields_of
     [(''offset'', (Prim 4)),
      (''field_1'', Reloc_field_1_ct)])"

definition Cfi_Kind_ct :: ctype where
  "Cfi_Kind_ct = Prim 1"

definition Cfi_Op_ct :: ctype where
  "Cfi_Op_ct = Struct (Align 4) (fields_of
     [(''offset'', (Prim 4)),
      (''arg'', (Prim 4)),
      (''kind'', Cfi_Kind_ct),
      (''reg'', (Prim 1))])"

definition Dbg_Location_Kind_ct :: ctype where
  "Dbg_Location_Kind_ct = Prim 1"

definition Dbg_Location_ct :: ctype where
  "Dbg_Location_ct = Struct (Align 8) (fields_of
     [(''sym'', Dbg_Sym_ct),
      (''start'', (Prim 4)),
      (''end'', (Prim 4)),
      (''symbol'', (Prim 4)),
      (''offset'', (Prim 4)),
      (''reg'', Reg_ct),
      (''kind'', Dbg_Location_Kind_ct)])"

definition Loop_Tree_ct :: ctype where
  "Loop_Tree_ct = Struct (Align 8) (fields_of
     [(''parent'', Ptr),
      (''depth'', (Prim 4)),
      (''infinite'', (Prim 1)),
      (''already_always'', (Prim 1))])"

definition Dbg_Data_Def_ct :: ctype where
  "Dbg_Data_Def_ct = Struct (Align 4) (fields_of
     [(''node'', Node_ID_ct)])"

definition RM_Interner_slots_ct :: ctype where
  "RM_Interner_slots_ct = Struct (Align 8) (fields_of
     [(''hash'', Ptr),
      (''id'', Ptr),
      (''___len'', (Prim 8))])"

section \<open>The assertions\<close>

text \<open>
  The compile-time assertions of the file: for each type its field offsets, its size and its alignment.
\<close>

definition layout_asserts_1 :: "layout_assert list" where
  "layout_asserts_1 =
     [(runtime_Allocator_ct, [(''procedure'', 0), (''data'', 8)], 16, 8),
      (arna_Allocator_ct, [(''ptr'', 0), (''pos'', 8), (''commited'', 16), (''reserved'', 24)], 32, 8),
      (Proc_preserved_ct, [(''stats'', 0)], 8, 8),
      (Sloc_ct, [], 8, 4),
      (Interner_ct, [(''hash_idx'', 0), (''node_idx'', 8), (''len'', 16), (''cap'', 24)], 32, 8),
      (Proc_Meta_config_ct, [(''has_dbg'', 0), (''opt_flags'', 1)], 2, 1),
      (Proc_Meta_pinned_ct, [(''entry'', 0), (''end'', 4)], 8, 4),
      (Proc_Meta_cached_ct, [(''cmem'', 0)], 4, 4),
      (Proc_Meta_ct, [(''last_pass_spec'', 0), (''interner'', 8), (''weight'', 40), (''waste'', 48), (''gvn'', 56), (''gdn'', 60), (''stable_id'', 64), (''min_idepth'', 68), (''max_idepth'', 72), (''config'', 76), (''pinned'', 80), (''cached'', 88)], 96, 8),
      (Proc_ct, [(''node_spec'', 0), (''preserved'', 8), (''worklist'', 16), (''triggers'', 24), (''mem'', 32), (''temps'', 40), (''curret_sloc'', 48), (''nil_sloc_slot'', 56), (''meta'', 64), (''dont_intern'', 160), (''dont_delete'', 161), (''computed_passes'', 162), (''lattices'', 168)], 184, 8),
      (Codegen_Emit_Buf_ct, [(''code'', 0), (''constants'', 8), (''relocs'', 16), (''slocs'', 24), (''cfi'', 32), (''dbg_locs'', 40)], 48, 8),
      (Lib_Call_ct, [], 4, 4)]"

definition layout_asserts_2 :: "layout_assert list" where
  "layout_asserts_2 =
     [(Lib_Calls_ct, [(''copy'', 0), (''set'', 4)], 8, 4),
      (Regalloc_Output_ct, [(''allocs'', 0), (''temp_stack_slot'', 16), (''computed'', 18)], 24, 8),
      (Codegen_Emit_Ctx_ct, [(''prc'', 0), (''schedule'', 8), (''dbg_data'', 16), (''abi'', 24), (''buf'', 32), (''emit_got_imports'', 80), (''lib_calls'', 84), (''regalloc_mode'', 96), (''ra_out'', 104), (''param_specs'', 128), (''stack_param_offset'', 144), (''spill_slot_base'', 160), (''spill_slot_size'', 176), (''instr_offsets'', 192), (''code_start'', 208), (''constants_start'', 216), (''last_off'', 224), (''sloc'', 232)], 240, 8),
      (Codegen_Emit_Output_ct, [], 0, 1),
      (Codegen_Output_Bufs_ct, [(''code'', 0), (''constants'', 16), (''relocs'', 32), (''slocs'', 48), (''cfi'', 64), (''dbg_locs'', 80)], 96, 8),
      (Codegen_Output_ct, [(''emit'', 0), (''bufs'', 0)], 96, 8),
      (Opt_Hints_ct, [(''select_types'', 0)], 2, 2),
      (Peep_Ctx_ct, [(''prc'', 0), (''opt_hints'', 8)], 16, 8),
      (Stencil_ct, [(''mem'', 0), (''meta'', 16)], 112, 8),
      (Schedule_ct, [(''bbs'', 0)], 40, 8),
      (Dbg_Data_ct, [(''syms'', 0)], 40, 8),
      (RM_Interner_ct, [(''slots'', 0), (''lens'', 16), (''mask_len'', 32)], 40, 8)]"

definition layout_asserts_3 :: "layout_assert list" where
  "layout_asserts_3 =
     [(Regalloc_ct, [(''spec'', 0), (''cc'', 8), (''rms'', 16), (''param_specs'', 56)], 72, 8),
      (Codegen_Emit_Buf_Checkpoint_ct, [(''code'', 0), (''constants'', 8), (''relocs'', 16), (''slocs'', 24), (''cfi'', 32), (''dbg_locs'', 40)], 48, 8),
      (Expanded_Node_ct, [(''node'', 0), (''inps'', 8), (''outs'', 24)], 40, 8),
      (Node_spec_type_ct, [(''itype'', 0), (''rtype'', 0)], 2, 2),
      (Node_spec_meta_ct, [], 2, 2),
      (Node_spec_ct, [(''type'', 0), (''meta'', 2)], 4, 4),
      (Node_gvn_group_ct, [], 4, 4),
      (Tag_ct, [(''name'', 0), (''stable_id'', 16)], 20, 4),
      (Node_ct, [(''spec'', 0), (''gvn_group'', 4), (''input_idx'', 8), (''input_count'', 12), (''input_cap'', 14), (''output_idx'', 16), (''output_count'', 20), (''output_cap'', 22), (''tag'', 24), (''extra'', 44)], 44, 4),
      (Efficiency_Stat_ct, [(''total'', 0), (''ideal'', 8)], 16, 8),
      (Stats_ct, [(''efficiency'', 0)], 320, 8),
      (Sym_Ref_ct, [(''type'', 0), (''id'', 4), (''node'', 8)], 12, 4)]"

definition layout_asserts_4 :: "layout_assert list" where
  "layout_asserts_4 =
     [(Cfi_Spec_ct, [(''cfa_reg'', 0), (''return_addr_reg'', 1), (''initial_cfa_offset'', 4), (''code_align'', 8), (''data_align'', 12)], 16, 4),
      (Reg_ct, [], 2, 2),
      (Call_Conv_ct, [(''callee_saved'', 0), (''caller_saved'', 16), (''args'', 32), (''rets'', 48), (''red_zone_size'', 64), (''is_syscall'', 68), (''cfi_spec'', 72), (''stack_pointer'', 88)], 96, 8),
      (Regalloc_Spec_ct, [(''datatype_to_reg_kind'', 0), (''spill_boundary'', 24), (''call_clobbers'', 40), (''collect_meta'', 56)], 64, 8),
      (Codegen_Spec_ct, [(''emit_function'', 0), (''sccp_compute'', 8), (''peep'', 16), (''post_schedule_peep'', 24), (''pre_regalloc_hook'', 32)], 40, 8),
      (Node_Spec_ct, [(''node_extra_sizes'', 0), (''inheritance_table'', 16), (''node_flags'', 32), (''node_extra_types'', 48), (''node_kind'', 64), (''regalloc'', 72), (''codegen'', 136)], 176, 8),
      (ssa_Param_Gen_ct, [(''vls'', 0), (''spill_start'', 40)], 48, 8),
      (Param_Spec_ct, [(''dt'', 0), (''size'', 4)], 8, 4),
      (ssa_Abi_Param_ct, [(''dt'', 0), (''size'', 16), (''real_size'', 24), (''spilled'', 32), (''scalar'', 33), (''copied'', 34)], 40, 8),
      (ssa_Block_State_ct, [(''end_scope'', 0)], 4, 4),
      (ssa_If_State_branch_ct, [(''else_scope'', 0), (''then_scope'', 0)], 4, 4),
      (ssa_If_State_ct, [(''if_'', 0), (''branch'', 4)], 8, 4)]"

definition layout_asserts_5 :: "layout_assert list" where
  "layout_asserts_5 =
     [(Cfg_ct, [(''idepth'', 0)], 4, 4),
      (Nil_Node_ct, [(''base'', 0), (''cfg'', 44)], 48, 4),
      (Call_flags_ct, [], 4, 4),
      (Call_ct, [(''field_0'', 0), (''flags'', 4), (''cid'', 8), (''rets'', 12)], 16, 4),
      (ssa_Loop_State_ct, [(''scope'', 0), (''scopes'', 4)], 12, 4),
      (container_queue_Queue__T_Node_ID__ct, [(''data'', 0), (''len'', 40), (''offset'', 48)], 56, 8),
      (bit_arr_Bit_Set_ct, [(''masks'', 0), (''bit_length'', 8)], 16, 8),
      (Worklist_ct, [(''queue'', 0), (''in_queue'', 56)], 72, 8),
      (Lattice_meta_ct, [], 8, 8),
      (Lattice_ct, [(''min'', 0), (''max'', 8), (''meta'', 16)], 24, 8),
      (Basic_Block_ct, [(''head'', 0), (''tail'', 4), (''instrs'', 8), (''offset'', 48), (''loop_tree'', 56)], 64, 8),
      (Dbg_Sym_ct, [(''name'', 0), (''type'', 16)], 24, 8)]"

definition layout_asserts_6 :: "layout_assert list" where
  "layout_asserts_6 =
     [(Dbg_Data_Sym_ct, [(''inner'', 0), (''defs'', 24)], 64, 8),
      (Node_Output_ct, [], 4, 4),
      (Reloc_field_1_ct, [], 4, 4),
      (Reloc_ct, [(''offset'', 0), (''field_1'', 4)], 8, 4),
      (Cfi_Op_ct, [(''offset'', 0), (''arg'', 4), (''kind'', 8), (''reg'', 9)], 12, 4),
      (Dbg_Location_ct, [(''sym'', 0), (''start'', 24), (''end'', 28), (''symbol'', 32), (''offset'', 36), (''reg'', 40), (''kind'', 42)], 48, 8),
      (Loop_Tree_ct, [(''parent'', 0), (''depth'', 8), (''infinite'', 12), (''already_always'', 13)], 16, 8),
      (Dbg_Data_Def_ct, [(''node'', 0)], 4, 4),
      (RM_Interner_slots_ct, [(''hash'', 0), (''id'', 8), (''___len'', 16)], 24, 8)]"

definition layout_asserts_aliases :: "layout_assert list" where
  "layout_asserts_aliases =
     [(runtime_Allocator_Proc_ct, [], 8, 8),
      (ssa_Node_Type_ct, [], 2, 2),
      (Proc_Meta_config_opt_flags_ct, [], 1, 1),
      (Node_ID_ct, [], 4, 4),
      (Proc_computed_passes_ct, [], 1, 1),
      (arna_Temps_ct, [], 64, 8),
      (Regalloc_Mode_ct, [], 8, 8),
      (Reg_Kind_ct, [], 2, 2),
      (Opt_Hints_select_types_ct, [], 2, 2),
      (Schedule_Mode_ct, [], 8, 8),
      (Node_Datatype_ct, [], 1, 1),
      (Un_Op_ct, [], 2, 2),
      (Lane_Type_ct, [], 1, 1),
      (Node_Type_ct, [], 2, 2),
      (Efficiency_Stat_Kind_ct, [], 8, 8),
      (Sym_Ref_Type_ct, [], 4, 4),
      (Sccp_Compute_Fn_ct, [], 8, 8),
      (Peep_Fn_ct, [], 8, 8),
      (PS_Peep_Fn_ct, [], 8, 8),
      (Pre_Regalloc_Hook_ct, [], 8, 8),
      (Bin_Op_ct, [], 2, 2),
      (ssa_Loop_Control_ct, [], 8, 8),
      (Node_Spec_node_flags_ct, [], 1, 1),
      (Cfi_Kind_ct, [], 1, 1),
      (Dbg_Location_Kind_ct, [], 1, 1)]"

definition layout_table :: "layout_assert list" where
  "layout_table = layout_asserts_1 @ layout_asserts_2 @ layout_asserts_3 @ layout_asserts_4 @
     layout_asserts_5 @ layout_asserts_6 @ layout_asserts_aliases"

text \<open>What the compiler checks for a row, and what the crate relies on: disjoint, aligned fields.\<close>

fun assert_holds :: "layout_assert \<Rightarrow> bool" where
  "assert_holds (t, offs, sz, al) \<longleftrightarrow>
     list_all (\<lambda>(f, o'). offset_of t f = Some o') offs \<and> size_of t = sz \<and> align_of t = al"

fun is_struct :: "ctype \<Rightarrow> bool" where
  "is_struct (Struct a fs) = True"
| "is_struct _ = False"

definition fields_apart :: "ctype \<Rightarrow> bool" where
  "fields_apart t \<longleftrightarrow>
     sorted_wrt (\<lambda>(_, o1, t1) (_, o2, _). o1 + size_of t1 \<le> o2) (offsets t)"

definition fields_within :: "ctype \<Rightarrow> bool" where
  "fields_within t \<longleftrightarrow> list_all (\<lambda>(_, o1, t1). o1 + size_of t1 \<le> size_of t) (offsets t)"

lemma fields_apart_struct: "ctype_ok t \<Longrightarrow> is_struct t \<Longrightarrow> fields_apart t"
proof (cases t)
  case (Struct a fs)
  assume "ctype_ok t"
  with struct_fields_placed [of a fs] Struct show ?thesis
    unfolding fields_apart_def Struct list_all_iff by fast
qed auto

lemma fields_within_union:
  "ctype_ok (Union a fs) \<Longrightarrow> (f, o', t) \<in> set (offsets (Union a fs)) \<Longrightarrow>
   o' + size_of t \<le> size_of (Union a fs)"
proof -
  assume ok: "ctype_ok (Union a fs)" and m: "(f, o', t) \<in> set (offsets (Union a fs))"
  have *: "(f, o', t) \<in> set (union_offsets gs) \<Longrightarrow> o' = 0 \<and> size_of t \<in> fst ` set (fields_sizes gs)" for gs
    by (induction gs rule: fields.induct [of "\<lambda>_. True"]) auto
  have "Max (set (0 # map fst (fields_sizes fs))) = fold max (map fst (fields_sizes fs)) 0"
    by (rule Max.set_eq_fold)
  moreover have "size_of t \<in> set (0 # map fst (fields_sizes fs))"
    using * [of fs] m by auto
  ultimately have "size_of t \<le> fold max (map fst (fields_sizes fs)) 0"
    by (metis List.finite_set Max_ge)
  also have "\<dots> \<le> size_of (Union a fs)"
    using align_positive(1) [OF ok] by (auto intro: align_up_ge)
  finally show ?thesis using * [of fs] m by simp
qed

lemma fields_within_ok: "ctype_ok t \<Longrightarrow> fields_within t"
proof (cases t)
  case (Struct a fs)
  assume "ctype_ok t"
  with struct_fields_placed [of a fs] Struct show ?thesis
    unfolding fields_within_def Struct list_all_iff by fast
next
  case (Union a fs)
  assume "ctype_ok t"
  with fields_within_union [of a fs] Union show ?thesis
    unfolding fields_within_def Union list_all_iff by fast
qed (auto simp: fields_within_def)

lemma asserts_hold_1: "list_all assert_holds layout_asserts_1"
  by code_simp

lemma asserts_hold_2: "list_all assert_holds layout_asserts_2"
  by code_simp

lemma asserts_hold_3: "list_all assert_holds layout_asserts_3"
  by code_simp

lemma asserts_hold_4: "list_all assert_holds layout_asserts_4"
  by code_simp

lemma asserts_hold_5: "list_all assert_holds layout_asserts_5"
  by code_simp

lemma asserts_hold_6: "list_all assert_holds layout_asserts_6"
  by code_simp

lemma asserts_hold_aliases: "list_all assert_holds layout_asserts_aliases"
  by code_simp

lemmas asserts_hold = asserts_hold_1 asserts_hold_2 asserts_hold_3 asserts_hold_4 asserts_hold_5
  asserts_hold_6 asserts_hold_aliases

lemma layout_table_ok: "list_all (\<lambda>(t, _). ctype_ok t) layout_table"
  by code_simp

section \<open>The view of a slice of parameters\<close>

text \<open>\<^verbatim>\<open>ParamSpec\<close> of \<^verbatim>\<open>lib.rs\<close>, which a slice of \<^verbatim>\<open>Param_Spec\<close> is viewed as, and the assertions that allow it.\<close>

definition ParamSpec_ct :: ctype where
  "ParamSpec_ct = Struct Plain (fields_of
     [(''datatype'', Node_Datatype_ct),
      (''size'', (Prim 4))])"

definition ParamSpec_asserts :: bool where
  "ParamSpec_asserts \<longleftrightarrow>
     size_of ParamSpec_ct = size_of Param_Spec_ct \<and> align_of ParamSpec_ct = align_of Param_Spec_ct \<and>
     offset_of ParamSpec_ct ''datatype'' = offset_of Param_Spec_ct ''dt'' \<and> offset_of ParamSpec_ct ''size'' = offset_of Param_Spec_ct ''size''"

lemma ParamSpec_asserts_hold: "ParamSpec_asserts"
  by code_simp

section \<open>Properties\<close>

text \<open>
  Every offset, size and alignment that \<^verbatim>\<open>sys.rs\<close> asserts of the types shared with the Odin
  library is the one the \<^verbatim>\<open>repr(C)\<close> layout gives to the fields the file declares, and \<^verbatim>\<open>ParamSpec\<close> of \<^verbatim>\<open>lib.rs\<close> has the
  layout of the type it is a view of.
\<close>

lemma layout_asserts_hold: "list_all assert_holds layout_table \<and> ParamSpec_asserts"
  using asserts_hold ParamSpec_asserts_hold by (simp add: layout_table_def)

text \<open>
  In every struct of the bindings no two fields share a byte, in every struct and union no field
  reaches past the end, and the size is a multiple of the alignment, so that arrays of it keep every
  element aligned; the zeroed default value has exactly the bytes of the type.
\<close>

lemma layout_fields_apart:
  "list_all (\<lambda>(t, offs, sz, al). (is_struct t \<longrightarrow> fields_apart t) \<and> fields_within t \<and> al dvd sz \<and> 0 < al \<and>
     length (zeroed t) = sz) layout_table"
proof -
  have "list_all (\<lambda>r. assert_holds r \<and> ctype_ok (fst r)) layout_table"
    using asserts_hold layout_table_ok by (auto simp: layout_table_def list_all_iff)
  then show ?thesis
  proof (rule list.pred_mono_strong)
    fix r assume "assert_holds r \<and> ctype_ok (fst r)"
    then show "case r of (t, offs, sz, al) \<Rightarrow> (is_struct t \<longrightarrow> fields_apart t) \<and> fields_within t \<and> al dvd sz \<and> 0 < al \<and>
        length (zeroed t) = sz"
      using fields_apart_struct [of "fst r"] fields_within_ok [of "fst r"] align_dvd_size [of "fst r"] align_positive(1) [of "fst r"]
      by (cases r) (auto simp: zeroed_def)
  qed
qed

lemma layout_fields_apart_witness:
  "is_struct Node_ct \<and> fields_apart Node_ct \<and> length (zeroed Node_ct) = 44"
  using layout_fields_apart by (simp add: layout_table_def layout_asserts_3_def Node_ct_def)

end
