(* ===== verification/Memory.thy ===== *)
theory Memory
  imports Prelude
begin

text \<open>
  The memory the crate and the Odin library share: bytes by address, and the raw views over it
  that cross the boundary (\<^verbatim>\<open>sys_ext.rs\<close>): \<^verbatim>\<open>Slice\<close>, \<^verbatim>\<open>String\<close> and \<^verbatim>\<open>DynamicArray\<close> on the Odin side,
  \<^verbatim>\<open>&[T]\<close> and \<^verbatim>\<open>&str\<close> on the Rust side. Each conversion is a definition with its panics and the
  safety conditions of the \<^verbatim>\<open>unsafe\<close> calls in it.
\<close>

section \<open>Bytes by address\<close>

type_synonym bytes = "u64 \<Rightarrow> u8"

definition load_bytes :: "bytes \<Rightarrow> u64 \<Rightarrow> nat \<Rightarrow> u8 list" where
  "load_bytes m p n = map (\<lambda>i. m (p + of_nat i)) [0..<n]"

text \<open>The distance \<open>a - p\<close> wraps, so one test says that \<open>a\<close> is one of the bytes written.\<close>

definition store_bytes :: "bytes \<Rightarrow> u64 \<Rightarrow> u8 list \<Rightarrow> bytes" where
  "store_bytes m p bs = (\<lambda>a. if unat (a - p) < length bs then bs ! unat (a - p) else m a)"

text \<open>A region that does not wrap around the address space, and two regions with no common byte.\<close>

definition region_ok :: "u64 \<Rightarrow> nat \<Rightarrow> bool" where
  "region_ok p n \<longleftrightarrow> unat p + n < 2 ^ 64"

definition apart :: "u64 \<Rightarrow> nat \<Rightarrow> u64 \<Rightarrow> nat \<Rightarrow> bool" where
  "apart p n q k \<longleftrightarrow> unat p + n \<le> unat q \<or> unat q + k \<le> unat p"

definition inside :: "u64 \<Rightarrow> nat \<Rightarrow> u64 \<Rightarrow> nat \<Rightarrow> bool" where
  "inside p n q k \<longleftrightarrow> unat q \<le> unat p \<and> unat p + n \<le> unat q + k"

lemma length_load_bytes [simp]: "length (load_bytes m p n) = n"
  by (simp add: load_bytes_def)

lemma nth_load_bytes [simp]: "i < n \<Longrightarrow> load_bytes m p n ! i = m (p + of_nat i)"
  by (simp add: load_bytes_def)

lemma load_bytes_0 [simp]: "load_bytes m p 0 = []"
  by (simp add: load_bytes_def)

lemma store_bytes_Nil [simp]: "store_bytes m p [] = m"
  by (simp add: store_bytes_def)

lemma take_load_bytes: "k \<le> n \<Longrightarrow> take k (load_bytes m p n) = load_bytes m p k"
  by (simp add: list_eq_iff_nth_eq)

lemma unat_add_offset: "region_ok p n \<Longrightarrow> i \<le> n \<Longrightarrow> unat (p + of_nat i) = unat p + i"
  using unat_add_no_wrap [of p "of_nat i"] by (simp add: region_ok_def)

lemma load_store_same:
  assumes "length bs < 2 ^ 64"
  shows "load_bytes (store_bytes m p bs) p (length bs) = bs"
  using assms by (auto simp: list_eq_iff_nth_eq store_bytes_def)

lemma load_store_prefix:
  assumes "length bs < 2 ^ 64" "k \<le> length bs"
  shows "load_bytes (store_bytes m p bs) p k = take k bs"
  using assms by (metis load_store_same take_load_bytes)

lemma load_store_fill: "load_bytes (store_bytes m p (replicate (unat n) x)) p (unat n) = replicate (unat n) x"
  for n :: usize
  by (simp add: load_store_prefix)

lemma load_store_apart:
  assumes ok: "region_ok p n" "region_ok q (length bs)" and ap: "apart p n q (length bs)"
  shows "load_bytes (store_bytes m q bs) p n = load_bytes m p n"
proof (rule nth_equalityI)
  fix i assume "i < length (load_bytes (store_bytes m q bs) p n)"
  then have i: "i < n" by simp
  have a: "unat (p + of_nat i) = unat p + i" using ok(1) i by (simp add: unat_add_offset)
  have "length bs \<le> unat (p + of_nat i - q)"
  proof (cases "unat q \<le> unat p + i")
    case True
    then have "unat (p + of_nat i - q) = unat p + i - unat q"
      using a by (simp add: unat_sub word_le_nat_alt)
    with True ap i show ?thesis unfolding apart_def by linarith
  next
    case False
    then have "q \<noteq> 0" "unat (p + of_nat i) < unat q" using a by auto
    then have "unat (p + of_nat i - q) = 2 ^ 64 + unat (p + of_nat i) - unat q"
      by (simp add: unat_sub_if')
    with False ap i a ok(2) show ?thesis unfolding apart_def region_ok_def by linarith
  qed
  with i show "load_bytes (store_bytes m q bs) p n ! i = load_bytes m p n ! i"
    by (simp add: store_bytes_def)
qed simp

lemma load_bytes_inside:
  assumes "load_bytes m q k = load_bytes m' q k" "inside p n q k" "region_ok q k"
  shows "load_bytes m p n = load_bytes m' p n"
proof (rule nth_equalityI)
  fix i assume "i < length (load_bytes m p n)"
  then have i: "i < n" by simp
  let ?d = "unat p - unat q"
  have "of_nat ?d = p - q"
    using assms(2) by (simp add: inside_def of_nat_diff)
  then have p: "p + of_nat i = q + of_nat (?d + i)" by simp
  have "?d + i < k" using assms(2) i unfolding inside_def by linarith
  then have "m (q + of_nat (?d + i)) = m' (q + of_nat (?d + i))"
    using assms(1) by (metis nth_load_bytes)
  then have "m (p + of_nat i) = m' (p + of_nat i)" unfolding p .
  with i show "load_bytes m p n ! i = load_bytes m' p n ! i" by simp
qed simp

lemma inside_apart: "inside p n q k \<Longrightarrow> apart q k r j \<Longrightarrow> apart p n r j"
  by (auto simp: inside_def apart_def)

lemma inside_region_ok: "inside p n q k \<Longrightarrow> region_ok q k \<Longrightarrow> region_ok p n"
  by (auto simp: inside_def region_ok_def)

section \<open>Slices across the boundary\<close>

text \<open>
  The Odin slice, string and dynamic array of \<^verbatim>\<open>sys.rs\<close>, and a Rust slice reference: an address and a
  number of elements. The element type is its size \<open>sz\<close> and alignment \<open>al\<close>.
\<close>

record Slice =
  slice_data :: u64
  slice_len :: isize

record String =
  string_data :: u64
  string_len :: isize

record runtime_Allocator =
  allocator_procedure :: u64
  allocator_data :: u64

record DynamicArray =
  dyn_data :: u64
  dyn_len :: isize
  dyn_cap :: isize
  dyn_allocator :: runtime_Allocator

record slice_ref =
  ref_ptr :: u64
  ref_len :: usize

text \<open>\<^verbatim>\<open>&[]\<close> is a well aligned dangling reference of length zero.\<close>

definition empty_ref :: "nat \<Rightarrow> slice_ref" where
  "empty_ref al = \<lparr>ref_ptr = of_nat al, ref_len = 0\<rparr>"

text \<open>
  The safety condition of \<^verbatim>\<open>slice::from_raw_parts\<close> on the pointer and the length; that the bytes are
  initialised and not aliased is the caller's obligation. References made by safe Rust satisfy it.
\<close>

definition from_raw_parts_ok :: "nat \<Rightarrow> nat \<Rightarrow> u64 \<Rightarrow> usize \<Rightarrow> bool" where
  "from_raw_parts_ok sz al p n \<longleftrightarrow> p \<noteq> 0 \<and> al dvd unat p \<and> unat n * sz \<le> isize_max"

definition from_raw_parts :: "nat \<Rightarrow> nat \<Rightarrow> u64 \<Rightarrow> usize \<Rightarrow> slice_ref res" where
  "from_raw_parts sz al p n =
     (if from_raw_parts_ok sz al p n then Inr \<lparr>ref_ptr = p, ref_len = n\<rparr>
      else Inl (Ub ''slice::from_raw_parts''))"

definition slice_ref_ok :: "nat \<Rightarrow> nat \<Rightarrow> slice_ref \<Rightarrow> bool" where
  "slice_ref_ok sz al r \<longleftrightarrow> from_raw_parts_ok sz al (ref_ptr r) (ref_len r)"

text \<open>\<^verbatim>\<open>usize::try_from(isize)\<close> and \<^verbatim>\<open>isize::try_from(usize)\<close>.\<close>

definition usize_try_from :: "isize \<Rightarrow> usize option" where
  "usize_try_from n = (if 0 \<le> sint n then Some n else None)"

definition isize_try_from :: "usize \<Rightarrow> isize option" where
  "isize_try_from n = (if unat n \<le> isize_max then Some n else None)"

definition Slice_as_slice :: "nat \<Rightarrow> nat \<Rightarrow> Slice \<Rightarrow> slice_ref res" where
  "Slice_as_slice sz al s =
     (case usize_try_from (slice_len s) of
        None \<Rightarrow> Inl (Panic ''negative slice length'')
      | Some n \<Rightarrow> if n = 0 then Inr (empty_ref al) else from_raw_parts sz al (slice_data s) n)"

definition Slice_as_mut_slice :: "nat \<Rightarrow> nat \<Rightarrow> Slice \<Rightarrow> slice_ref res" where
  "Slice_as_mut_slice sz al s =
     (case usize_try_from (slice_len s) of
        None \<Rightarrow> Inl (Panic ''negative slice length'')
      | Some n \<Rightarrow> if n = 0 then Inr (empty_ref al) else from_raw_parts sz al (slice_data s) n)"

definition Slice_cast :: "Slice \<Rightarrow> Slice" where
  "Slice_cast s = \<lparr>slice_data = slice_data s, slice_len = slice_len s\<rparr>"

definition Slice_from :: "slice_ref \<Rightarrow> Slice res" where
  "Slice_from r =
     (case isize_try_from (ref_len r) of
        None \<Rightarrow> Inl (Panic ''slice length overflow'')
      | Some n \<Rightarrow> Inr \<lparr>slice_data = ref_ptr r, slice_len = n\<rparr>)"

definition Slice_from_mut :: "slice_ref \<Rightarrow> Slice res" where
  "Slice_from_mut r =
     (case isize_try_from (ref_len r) of
        None \<Rightarrow> Inl (Panic ''slice length overflow'')
      | Some n \<Rightarrow> Inr \<lparr>slice_data = ref_ptr r, slice_len = n\<rparr>)"

definition Slice_default :: Slice where
  "Slice_default = \<lparr>slice_data = 0, slice_len = 0\<rparr>"

definition String_as_bytes :: "String \<Rightarrow> slice_ref res" where
  "String_as_bytes s = Slice_as_slice 1 1 \<lparr>slice_data = string_data s, slice_len = string_len s\<rparr>"

text \<open>
  \<^verbatim>\<open>core::str::from_utf8\<close>: the well-formed byte sequences of UTF-8, without overlong forms, surrogates and
  values above \<open>0x10FFFF\<close>.
\<close>

definition utf8_cont :: "u8 \<Rightarrow> bool" where
  "utf8_cont b \<longleftrightarrow> b AND 0xC0 = 0x80"

fun utf8_ok :: "u8 list \<Rightarrow> bool" where
  "utf8_ok [] = True"
| "utf8_ok (a # bs) =
     (if a < 0x80 then utf8_ok bs
      else if 0xC2 \<le> a \<and> a \<le> 0xDF then
        (case bs of b # cs \<Rightarrow> utf8_cont b \<and> utf8_ok cs | [] \<Rightarrow> False)
      else if 0xE0 \<le> a \<and> a \<le> 0xEF then
        (case bs of b # c # ds \<Rightarrow> utf8_cont b \<and> utf8_cont c \<and>
           (a = 0xE0 \<longrightarrow> 0xA0 \<le> b) \<and> (a = 0xED \<longrightarrow> b \<le> 0x9F) \<and> utf8_ok ds | _ \<Rightarrow> False)
      else if 0xF0 \<le> a \<and> a \<le> 0xF4 then
        (case bs of b # c # d # es \<Rightarrow> utf8_cont b \<and> utf8_cont c \<and> utf8_cont d \<and>
           (a = 0xF0 \<longrightarrow> 0x90 \<le> b) \<and> (a = 0xF4 \<longrightarrow> b \<le> 0x8F) \<and> utf8_ok es | _ \<Rightarrow> False)
      else False)"

definition ref_bytes :: "bytes \<Rightarrow> slice_ref \<Rightarrow> u8 list" where
  "ref_bytes m r = load_bytes m (ref_ptr r) (unat (ref_len r))"

text \<open>\<^verbatim>\<open>as_str\<close> returns \<^verbatim>\<open>Err(Utf8Error)\<close> as \<open>None\<close>.\<close>

definition String_as_str :: "bytes \<Rightarrow> String \<Rightarrow> slice_ref option res" where
  "String_as_str m s =
     (case String_as_bytes s of
        Inl e \<Rightarrow> Inl e
      | Inr r \<Rightarrow> Inr (if utf8_ok (ref_bytes m r) then Some r else None))"

definition String_from :: "slice_ref \<Rightarrow> String res" where
  "String_from r =
     (case isize_try_from (ref_len r) of
        None \<Rightarrow> Inl (Panic ''string length overflow'')
      | Some n \<Rightarrow> Inr \<lparr>string_data = ref_ptr r, string_len = n\<rparr>)"

definition String_default :: String where
  "String_default = \<lparr>string_data = 0, string_len = 0\<rparr>"

definition DynamicArray_as_slice :: "nat \<Rightarrow> nat \<Rightarrow> DynamicArray \<Rightarrow> slice_ref res" where
  "DynamicArray_as_slice sz al d =
     Slice_as_slice sz al \<lparr>slice_data = dyn_data d, slice_len = dyn_len d\<rparr>"

definition DynamicArray_as_mut_slice :: "nat \<Rightarrow> nat \<Rightarrow> DynamicArray \<Rightarrow> slice_ref res" where
  "DynamicArray_as_mut_slice sz al d =
     Slice_as_mut_slice sz al \<lparr>slice_data = dyn_data d, slice_len = dyn_len d\<rparr>"

definition DynamicArray_default :: DynamicArray where
  "DynamicArray_default = \<lparr>dyn_data = 0, dyn_len = 0, dyn_cap = 0,
     dyn_allocator = \<lparr>allocator_procedure = 0, allocator_data = 0\<rparr>\<rparr>"

section \<open>Correctness of the conversions\<close>

lemma usize_try_from_iff: "usize_try_from n = Some k \<longleftrightarrow> unat n \<le> isize_max \<and> k = n"
  by (auto simp: usize_try_from_def sint_nonneg_iff)

lemma usize_try_from_None: "usize_try_from n = None \<longleftrightarrow> isize_max < unat n"
  by (auto simp: usize_try_from_def sint_nonneg_iff)

lemma isize_try_from_iff: "isize_try_from n = Some k \<longleftrightarrow> unat n \<le> isize_max \<and> k = n"
  by (auto simp: isize_try_from_def)

text \<open>A reference to elements of at least one byte has a length that fits in \<^verbatim>\<open>isize\<close>.\<close>

lemma slice_ref_len_bound:
  assumes "slice_ref_ok sz al r" "0 < sz"
  shows "unat (ref_len r) \<le> isize_max"
proof -
  have "unat (ref_len r) \<le> unat (ref_len r) * sz" using assms(2) by simp
  also have "\<dots> \<le> isize_max" using assms(1) by (simp add: slice_ref_ok_def from_raw_parts_ok_def)
  finally show ?thesis .
qed

text \<open>What a slice that came over the boundary can be turned into.\<close>

lemma Slice_as_slice_cases:
  "Slice_as_slice sz al s =
     (if isize_max < unat (slice_len s) then Inl (Panic ''negative slice length'')
      else if slice_len s = 0 then Inr (empty_ref al)
      else if from_raw_parts_ok sz al (slice_data s) (slice_len s)
           then Inr \<lparr>ref_ptr = slice_data s, ref_len = slice_len s\<rparr>
      else Inl (Ub ''slice::from_raw_parts''))"
  by (auto simp: Slice_as_slice_def usize_try_from_def sint_nonneg_iff from_raw_parts_def)

lemma Slice_as_mut_slice_eq: "Slice_as_mut_slice sz al s = Slice_as_slice sz al s"
  by (simp add: Slice_as_slice_def Slice_as_mut_slice_def)

lemma empty_ref_ok: "0 < al \<Longrightarrow> al < 2 ^ 64 \<Longrightarrow> slice_ref_ok sz al (empty_ref al)"
  by (auto simp: slice_ref_ok_def from_raw_parts_ok_def empty_ref_def unat_eq_0 [symmetric])

lemma Slice_from_as_slice:
  assumes "slice_ref_ok sz al r" "0 < sz"
  obtains s where "Slice_from r = Inr s" "slice_data s = ref_ptr r" "slice_len s = ref_len r"
    "Slice_as_slice sz al s = Inr (if ref_len r = 0 then empty_ref al else r)"
proof
  let ?s = "\<lparr>slice_data = ref_ptr r, slice_len = ref_len r\<rparr>"
  have n: "unat (ref_len r) \<le> isize_max" using assms by (rule slice_ref_len_bound)
  then show "Slice_from r = Inr ?s" by (simp add: Slice_from_def isize_try_from_def)
  show "Slice_as_slice sz al ?s = Inr (if ref_len r = 0 then empty_ref al else r)"
    using n assms(1) by (simp add: Slice_as_slice_cases slice_ref_ok_def)
qed simp_all

section \<open>Properties\<close>

text \<open>
  a Rust slice handed to the Odin side as a \<^verbatim>\<open>Slice\<close>, cast, and viewed as a Rust slice again is the
  same bytes at the same address (an empty one stays empty), mutable or not, with no panic and
  no undefined behaviour; and every slice whose length is negative panics instead of being viewed.
\<close>

lemma Slice_round_trip:
  assumes "slice_ref_ok sz al r" "0 < sz" "0 < al" "al < 2 ^ 64"
  shows "(\<exists>s r'. Slice_from r = Inr s \<and> Slice_from_mut r = Inr s \<and>
      Slice_as_slice sz al (Slice_cast s) = Inr r' \<and>
      Slice_as_mut_slice sz al (Slice_cast s) = Inr r' \<and>
      slice_ref_ok sz al r' \<and> ref_bytes m r' = ref_bytes m r \<and> ref_len r' = ref_len r \<and>
      (ref_len r \<noteq> 0 \<longrightarrow> r' = r)) \<and>
    (\<forall>s. sint (slice_len s) < 0 \<longrightarrow>
       Slice_as_slice sz al s = Inl (Panic ''negative slice length''))"
proof -
  have neg: "Slice_as_slice sz al s = Inl (Panic ''negative slice length'')"
    if "sint (slice_len s) < 0" for s
    using that by (simp add: Slice_as_slice_def usize_try_from_def)
  obtain s where s: "Slice_from r = Inr s" "slice_data s = ref_ptr r" "slice_len s = ref_len r"
    "Slice_as_slice sz al s = Inr (if ref_len r = 0 then empty_ref al else r)"
    using Slice_from_as_slice [OF assms(1,2)] .
  let ?r = "if ref_len r = 0 then empty_ref al else r"
  have "Slice_cast s = s" by (simp add: Slice_cast_def)
  moreover have "Slice_from_mut r = Inr s"
    using s by (simp add: Slice_from_mut_def Slice_from_def)
  moreover have "slice_ref_ok sz al ?r"
    using assms empty_ref_ok by simp
  moreover have "ref_bytes m ?r = ref_bytes m r \<and> ref_len ?r = ref_len r"
    by (simp add: ref_bytes_def empty_ref_def)
  ultimately show ?thesis
    using s neg by (auto simp: Slice_as_mut_slice_eq)
qed

lemma Slice_round_trip_witness:
  "\<exists>s. Slice_from \<lparr>ref_ptr = 0x1000, ref_len = 3\<rparr> = Inr s \<and>
     Slice_as_slice 4 4 (Slice_cast s) = Inr \<lparr>ref_ptr = 0x1000, ref_len = 3\<rparr>"
  using Slice_round_trip [of 4 4 "\<lparr>ref_ptr = 0x1000, ref_len = 3\<rparr>"]
  by (auto simp: slice_ref_ok_def from_raw_parts_ok_def isize_max_def)

text \<open>
  A \<^verbatim>\<open>&str\<close> converted to an Odin string is read back by \<^verbatim>\<open>as_str\<close> as the same text, and \<^verbatim>\<open>as_str\<close> of any
  Odin string is a view only of well-formed UTF-8.
\<close>

lemma String_round_trip:
  assumes "slice_ref_ok 1 1 r" "utf8_ok (ref_bytes m r)"
  shows "(\<exists>s r'. String_from r = Inr s \<and> String_as_str m s = Inr (Some r') \<and>
      ref_bytes m r' = ref_bytes m r) \<and>
    (\<forall>s r'. String_as_str m s = Inr (Some r') \<longrightarrow> utf8_ok (ref_bytes m r'))"
proof -
  obtain s where s: "Slice_from r = Inr s" "slice_data s = ref_ptr r" "slice_len s = ref_len r"
    "Slice_as_slice 1 1 s = Inr (if ref_len r = 0 then empty_ref 1 else r)"
    using Slice_from_as_slice [OF assms(1)] by auto
  let ?s = "\<lparr>string_data = slice_data s, string_len = slice_len s\<rparr>"
  have "String_from r = Inr ?s"
    using s(1) by (auto simp: Slice_from_def String_from_def split: option.splits)
  moreover have "String_as_bytes ?s = Inr (if ref_len r = 0 then empty_ref 1 else r)"
  proof -
    have "\<lparr>slice_data = slice_data s, slice_len = slice_len s\<rparr> = s" by simp
    then show ?thesis using s(4) by (simp only: String_as_bytes_def String.simps)
  qed
  moreover have "ref_bytes m (if ref_len r = 0 then empty_ref 1 else r) = ref_bytes m r"
    by (simp add: ref_bytes_def empty_ref_def)
  ultimately have "\<exists>s r'. String_from r = Inr s \<and> String_as_str m s = Inr (Some r') \<and>
      ref_bytes m r' = ref_bytes m r"
    using assms(2) by (auto simp: String_as_str_def)
  then show ?thesis
    by (auto simp: String_as_str_def split: sum.splits if_splits)
qed

end
