(* ===== verification/Machine.thy ===== *)
theory Machine
  imports Memory
begin

text \<open>
  The state that the crate's operations and the Odin library act on: the bytes of memory, the live
  blocks of the global allocator, and the two C structs both sides mutate through pointers,
  \<^verbatim>\<open>arna_Allocator\<close> and \<^verbatim>\<open>Proc\<close>, as typed stores by address. The structs have the fields of \<^verbatim>\<open>sys.rs\<close>
  (their byte layout is the subject of the layout theory).
\<close>

section \<open>The shared structs\<close>

record arna_Allocator =
  arena_ptr :: u64
  arena_pos :: usize
  arena_commited :: usize
  arena_reserved :: usize

definition arna_Allocator_default :: arna_Allocator where
  "arna_Allocator_default = \<lparr>arena_ptr = 0, arena_pos = 0, arena_commited = 0, arena_reserved = 0\<rparr>"

record Interner =
  interner_hash_idx :: usize
  interner_node_idx :: usize
  interner_len :: isize
  interner_cap :: isize

record Proc_Meta_config =
  has_dbg :: bool
  opt_flags :: u8

record Proc_Meta_pinned =
  entry :: u32
  end_node :: u32

record Proc_Meta_cached =
  cmem :: u32

record Proc_Meta =
  last_pass_spec :: u64
  interner :: Interner
  weight :: isize
  waste :: isize
  gvn :: u32
  gdn :: u32
  stable_id :: u32
  min_idepth :: u32
  max_idepth :: u32
  config :: Proc_Meta_config
  pinned :: Proc_Meta_pinned
  cached :: Proc_Meta_cached

record sys_Proc =
  node_spec :: u64
  preserved_stats :: u64
  worklist :: u64
  triggers :: u64
  proc_mem :: u64
  proc_temps :: u64
  curret_sloc :: "u8 list"
  nil_sloc_slot :: "u8 list"
  meta :: Proc_Meta
  dont_intern :: bool
  dont_delete :: bool
  computed_passes :: u8
  lattices :: Slice

definition Proc_Meta_default :: Proc_Meta where
  "Proc_Meta_default = \<lparr>last_pass_spec = 0,
     interner = \<lparr>interner_hash_idx = 0, interner_node_idx = 0, interner_len = 0, interner_cap = 0\<rparr>,
     weight = 0, waste = 0, gvn = 0, gdn = 0, stable_id = 0, min_idepth = 0, max_idepth = 0,
     config = \<lparr>has_dbg = False, opt_flags = 0\<rparr>, pinned = \<lparr>entry = 0, end_node = 0\<rparr>,
     cached = \<lparr>cmem = 0\<rparr>\<rparr>"

definition sys_Proc_default :: sys_Proc where
  "sys_Proc_default = \<lparr>node_spec = 0, preserved_stats = 0, worklist = 0, triggers = 0, proc_mem = 0,
     proc_temps = 0, curret_sloc = replicate 8 0, nil_sloc_slot = replicate 8 0,
     meta = Proc_Meta_default, dont_intern = False, dont_delete = False, computed_passes = 0,
     lattices = Slice_default\<rparr>"

text \<open>\<^verbatim>\<open>sys::Stencil\<close>: a view of the graph's bytes and the metadata that goes with them.\<close>

record sys_Stencil =
  stencil_mem :: Slice
  stencil_meta :: Proc_Meta

section \<open>The machine\<close>

text \<open>\<^verbatim>\<open>core::alloc::Layout\<close>: a size and a power-of-two alignment.\<close>

record alloc_layout =
  layout_size :: usize
  layout_align :: usize

record machine =
  memory :: bytes
  heap :: "(u64 \<times> alloc_layout) list"
  arenas :: "u64 \<Rightarrow> arna_Allocator"
  procs :: "u64 \<Rightarrow> sys_Proc"

type_synonym 'a act = "(machine, 'a) prog"

definition set_arena :: "u64 \<Rightarrow> arna_Allocator \<Rightarrow> machine \<Rightarrow> machine" where
  "set_arena a x m = m\<lparr>arenas := (arenas m)(a := x)\<rparr>"

definition set_proc :: "u64 \<Rightarrow> sys_Proc \<Rightarrow> machine \<Rightarrow> machine" where
  "set_proc p x m = m\<lparr>procs := (procs m)(p := x)\<rparr>"

definition write_bytes :: "u64 \<Rightarrow> u8 list \<Rightarrow> machine \<Rightarrow> machine" where
  "write_bytes p bs m = m\<lparr>memory := store_bytes (memory m) p bs\<rparr>"

text \<open>\<^verbatim>\<open>copy_nonoverlapping\<close>: its safety condition is that source and destination do not overlap.\<close>

definition copy_nonoverlapping :: "u64 \<Rightarrow> u64 \<Rightarrow> nat \<Rightarrow> unit act" where
  "copy_nonoverlapping src dst n =
     bindM (requireM (n = 0 \<or> (src \<noteq> 0 \<and> dst \<noteq> 0 \<and> region_ok src n \<and> region_ok dst n \<and> apart src n dst n))
              ''copy_nonoverlapping'') (\<lambda>_.
     modifyM (\<lambda>m. write_bytes dst (load_bytes (memory m) src n) m))"

lemma set_arena_simps [simp]:
  "arenas (set_arena a x m) = (arenas m)(a := x)" "memory (set_arena a x m) = memory m"
  "heap (set_arena a x m) = heap m" "procs (set_arena a x m) = procs m"
  by (simp_all add: set_arena_def)

lemma set_proc_simps [simp]:
  "procs (set_proc p y m) = (procs m)(p := y)" "memory (set_proc p y m) = memory m"
  "heap (set_proc p y m) = heap m" "arenas (set_proc p y m) = arenas m"
  by (simp_all add: set_proc_def)

lemma write_bytes_simps [simp]:
  "memory (write_bytes p bs m) = store_bytes (memory m) p bs" "heap (write_bytes p bs m) = heap m"
  "arenas (write_bytes p bs m) = arenas m" "procs (write_bytes p bs m) = procs m"
  by (simp_all add: write_bytes_def)

lemma copy_nonoverlapping_ok:
  assumes "n = 0 \<or> (src \<noteq> 0 \<and> dst \<noteq> 0 \<and> region_ok src n \<and> region_ok dst n \<and> apart src n dst n)"
  shows "copy_nonoverlapping src dst n m =
    (Inr (), write_bytes dst (load_bytes (memory m) src n) m)"
  using assms by (simp add: copy_nonoverlapping_def)

text \<open>A small concrete machine, for evaluating operations on: one page-aligned arena of 64 bytes.\<close>

definition sample_arena :: arna_Allocator where
  "sample_arena = \<lparr>arena_ptr = 0x1000, arena_pos = 0, arena_commited = 65, arena_reserved = 64\<rparr>"

definition sample_machine :: machine where
  "sample_machine = \<lparr>memory = (\<lambda>_. 0), heap = [], arenas = (\<lambda>_. sample_arena),
     procs = (\<lambda>_. sys_Proc_default)\<rparr>"

lemma sample_machine_simps [simp]:
  "arenas sample_machine p = sample_arena" "procs sample_machine p = sys_Proc_default"
  "memory sample_machine = (\<lambda>_. 0)" "heap sample_machine = []"
  "arena_ptr sample_arena = 0x1000" "arena_pos sample_arena = 0" "arena_commited sample_arena = 65"
  "arena_reserved sample_arena = 64"
  by (simp_all add: sample_machine_def sample_arena_def)

end
