(* ===== verification/Arna.thy ===== *)
theory Arna
  imports Machine "HOL-Library.Log_Nat"
begin

text \<open>
  The Odin arena allocator (\<^verbatim>\<open>utils/arna/arna.odin\<close>) as the crate meets it: an allocator struct behind a
  pointer, bump allocation with alignment, the runtime's allocator procedure (free, resize,
  free-all), scratch scopes and \<^verbatim>\<open>clone\<close>. The operating system calls of virtual arenas are arguments;
  the arenas of the crate are made from buffers and are shown never to reach them.
\<close>

section \<open>Operations\<close>

datatype Allocator_Error = E_None | Out_Of_Memory | Invalid_Pointer | Invalid_Argument
  | Mode_Not_Implemented

datatype Allocator_Mode = Alloc | Free | Free_All | Resize | Query_Features | Query_Info
  | Alloc_Non_Zeroed | Resize_Non_Zeroed

type_synonym commit_fn = "u64 \<Rightarrow> usize \<Rightarrow> Allocator_Error act"
type_synonym decommit_fn = "u64 \<Rightarrow> usize \<Rightarrow> unit act"

definition PAGE_SIZE :: usize where
  "PAGE_SIZE = 4096"

text \<open>\<^verbatim>\<open>math.is_power_of_two\<close> and \<^verbatim>\<open>mem.align_forward_uint\<close> of Odin's core library.\<close>

definition is_power_of_two :: "usize \<Rightarrow> bool" where
  "is_power_of_two a \<longleftrightarrow> 0 < sint a \<and> a AND (a - 1) = 0"

definition align_forward_uint :: "usize \<Rightarrow> usize \<Rightarrow> usize" where
  "align_forward_uint p a =
     (let modulo = p AND (a - 1) in if modulo \<noteq> 0 then p + (a - modulo) else p)"

definition init_from_buffer :: "Slice \<Rightarrow> arna_Allocator" where
  "init_from_buffer buf = \<lparr>arena_ptr = slice_data buf, arena_pos = 0,
     arena_commited = slice_len buf + 1, arena_reserved = slice_len buf\<rparr>"

definition get_arena :: "u64 \<Rightarrow> arna_Allocator act" where
  "get_arena a = getM (\<lambda>m. arenas m a)"

definition put_arena :: "u64 \<Rightarrow> (arna_Allocator \<Rightarrow> arna_Allocator) \<Rightarrow> unit act" where
  "put_arena a f = modifyM (\<lambda>m. set_arena a (f (arenas m a)) m)"

definition arna_reset :: "decommit_fn \<Rightarrow> u64 \<Rightarrow> bool \<Rightarrow> unit act" where
  "arna_reset decommit a do_decommit =
     bindM (get_arena a) (\<lambda>arena.
     bindM (if arena_commited arena \<le> arena_reserved arena \<and> do_decommit
            then bindM (decommit (arena_ptr arena) (arena_commited arena)) (\<lambda>_.
                 put_arena a (arena_commited_update (\<lambda>_. 0)))
            else ret ()) (\<lambda>_.
     put_arena a (arena_pos_update (\<lambda>_. 0))))"

text \<open>Growing the committed part of a virtual arena; the result is the error to return, if any.\<close>

definition arna_commit :: "commit_fn \<Rightarrow> u64 \<Rightarrow> usize \<Rightarrow> usize \<Rightarrow> Allocator_Error option act" where
  "arna_commit commit a size' end' =
     bindM (get_arena a) (\<lambda>arena.
     let commit_chunk = max (min (1024 * 1024) (arena_reserved arena - arena_commited arena)) size';
         commit_chunk = align_forward_uint commit_chunk PAGE_SIZE;
         commit_pos = arena_ptr arena + arena_commited arena
     in bindM (commit commit_pos commit_chunk) (\<lambda>e.
        if e \<noteq> E_None then ret (Some e)
        else
          bindM (put_arena a (arena_commited_update (\<lambda>c. c + commit_chunk))) (\<lambda>_.
          bindM (get_arena a) (\<lambda>arena.
          bindM (assertM (arena_commited arena \<le> arena_reserved arena)
                   ''arena.commited <= arena.reserved'') (\<lambda>_.
          bindM (assertM (end' \<le> arena_commited arena) ''end <= arena.commited'') (\<lambda>_.
          ret None))))))"

definition arna_alloc ::
  "commit_fn \<Rightarrow> u64 \<Rightarrow> usize \<Rightarrow> usize \<Rightarrow> bool \<Rightarrow> (Allocator_Error + Slice) act" where
  "arna_alloc commit a size' alignemnt zeroed =
     bindM (assertM (is_power_of_two alignemnt) ''math.is_power_of_two(int(alignemnt))'') (\<lambda>_.
     bindM (assertM (alignemnt \<le> PAGE_SIZE) ''alignemnt <= uint(mem.PAGE_SIZE)'') (\<lambda>_.
     bindM (get_arena a) (\<lambda>arena.
     let base = align_forward_uint (arena_pos arena) alignemnt;
         end' = base + size'
     in if arena_reserved arena < end' then ret (Inl Out_Of_Memory)
        else
          bindM (if arena_commited arena < end' then arna_commit commit a size' end' else ret None)
            (\<lambda>err.
          case err of
            Some e \<Rightarrow> ret (Inl e)
          | None \<Rightarrow>
              bindM (put_arena a (arena_pos_update (\<lambda>_. end'))) (\<lambda>_.
              let slc = \<lparr>slice_data = arena_ptr arena + base, slice_len = size'\<rparr>
              in bindM (if zeroed then modifyM (write_bytes (slice_data slc) (replicate (unat size') 0))
                        else ret ()) (\<lambda>_.
                 ret (Inr slc)))))))"

text \<open>
  \<^verbatim>\<open>smake\<close> drops the error: on failure its result is the nil slice. The element type is its size' and
  alignment.
\<close>

definition arna_smake :: "commit_fn \<Rightarrow> u64 \<Rightarrow> usize \<Rightarrow> usize \<Rightarrow> isize \<Rightarrow> bool \<Rightarrow> Slice act" where
  "arna_smake commit a sz al len zeroed =
     bindM (arna_alloc commit a (sz * len) al zeroed) (\<lambda>r.
     case r of
       Inl e \<Rightarrow> ret Slice_default
     | Inr b \<Rightarrow> ret \<lparr>slice_data = slice_data b, slice_len = (if sz = 0 then 0 else slice_len b div sz)\<rparr>)"

definition arna_clone :: "commit_fn \<Rightarrow> u64 \<Rightarrow> usize \<Rightarrow> usize \<Rightarrow> Slice \<Rightarrow> Slice act" where
  "arna_clone commit a sz al slc =
     bindM (arna_smake commit a sz al (slice_len slc) False) (\<lambda>slot.
     bindM (copy_nonoverlapping (slice_data slc) (slice_data slot) (unat (slice_len slc * sz))) (\<lambda>_.
     ret slot))"

text \<open>The two resize cases of the allocator procedure, on the last block and on any other block.\<close>

definition arna_resize ::
  "commit_fn \<Rightarrow> u64 \<Rightarrow> isize \<Rightarrow> isize \<Rightarrow> u64 \<Rightarrow> isize \<Rightarrow> bool \<Rightarrow> bool \<Rightarrow> (Allocator_Error + Slice) act" where
  "arna_resize commit a size' alignment old_memory old_size zeroed is_last =
     (if \<not> is_last then
        bindM (arna_alloc commit a size' alignment zeroed) (\<lambda>r.
        case r of
          Inl e \<Rightarrow> ret (Inl e)
        | Inr b \<Rightarrow>
            bindM (copy_nonoverlapping old_memory (slice_data b)
                     (unat (if sint old_size \<le> sint size' then old_size else size'))) (\<lambda>_.
            ret (Inr b)))
      else if sint size' < sint old_size then
        bindM (put_arena a (arena_pos_update (\<lambda>p. p - (old_size - size')))) (\<lambda>_.
        ret (Inr \<lparr>slice_data = old_memory, slice_len = size'\<rparr>))
      else
        bindM (arna_alloc commit a (size' - old_size) 1 zeroed) (\<lambda>r.
        case r of
          Inl e \<Rightarrow> ret (Inl e)
        | Inr b \<Rightarrow> ret (Inr \<lparr>slice_data = old_memory, slice_len = size'\<rparr>)))"

definition arna_allocator_proc ::
  "commit_fn \<Rightarrow> decommit_fn \<Rightarrow> u64 \<Rightarrow> Allocator_Mode \<Rightarrow> isize \<Rightarrow> isize \<Rightarrow> u64 \<Rightarrow> isize \<Rightarrow>
   (Allocator_Error + Slice) act" where
  "arna_allocator_proc commit decommit a mode size' alignment old_memory old_size =
     bindM (get_arena a) (\<lambda>arena.
     let is_last = (old_memory - arena_ptr arena = arena_pos arena - old_size)
     in case mode of
       Alloc \<Rightarrow> arna_alloc commit a size' alignment True
     | Alloc_Non_Zeroed \<Rightarrow> arna_alloc commit a size' alignment False
     | Free \<Rightarrow>
         bindM (if is_last then put_arena a (arena_pos_update (\<lambda>p. p - old_size)) else ret ()) (\<lambda>_.
         ret (Inr Slice_default))
     | Free_All \<Rightarrow> bindM (arna_reset decommit a False) (\<lambda>_. ret (Inr Slice_default))
     | Resize \<Rightarrow> arna_resize commit a size' alignment old_memory old_size True is_last
     | Resize_Non_Zeroed \<Rightarrow> arna_resize commit a size' alignment old_memory old_size False is_last
     | Query_Features \<Rightarrow> ret (Inl Mode_Not_Implemented)
     | Query_Info \<Rightarrow> ret (Inl Mode_Not_Implemented))"

text \<open>
  Scratch scopes. \<^verbatim>\<open>temps\<close> points to two adjacent allocators; a scope is the pair of the arena it hands
  out and the position to restore when it ends (\<^verbatim>\<open>deferred_out\<close>).
\<close>

definition temps_arena :: "u64 \<Rightarrow> nat \<Rightarrow> u64" where
  "temps_arena temps i = temps + 32 * of_nat i"

definition scrath_temps_no_clobber :: "u64 \<Rightarrow> (u64 \<times> usize) act" where
  "scrath_temps_no_clobber temps =
     getM (\<lambda>m. (temps_arena temps 0, arena_pos (arenas m (temps_arena temps 0))))"

definition scrath_temps_with_clobber :: "u64 \<Rightarrow> u64 \<Rightarrow> (u64 \<times> usize) act" where
  "scrath_temps_with_clobber temps clobber =
     getM (\<lambda>m. if temps_arena temps 0 = clobber
               then (temps_arena temps 1, arena_pos (arenas m (temps_arena temps 1)))
               else (temps_arena temps 0, arena_pos (arenas m (temps_arena temps 0))))"

definition scrath_existing :: "u64 \<Rightarrow> usize act" where
  "scrath_existing a = getM (\<lambda>m. arena_pos (arenas m a))"

definition scrath_end :: "u64 \<Rightarrow> usize \<Rightarrow> unit act" where
  "scrath_end a pos = put_arena a (arena_pos_update (\<lambda>_. pos))"

section \<open>Alignment\<close>

lemma power_of_two_exp:
  assumes "is_power_of_two a"
  obtains k where "k < 64" "a = 2 ^ k"
proof -
  have pos: "0 < unat a" using assms by (cases "a = 0") (auto simp: is_power_of_two_def unat_gt_0)
  define k where "k = floorlog 2 (unat a) - 1"
  have k: "2 ^ k \<le> unat a" "unat a < 2 ^ Suc k"
    using floorlog_bounds [of "unat a" 2] pos unfolding k_def by (auto simp: floorlog_def)
  have k64: "k < 64"
  proof (rule ccontr)
    assume "\<not> k < 64"
    then have "(2 :: nat) ^ 64 \<le> 2 ^ k" by (intro power_increasing) simp_all
    with k(1) unat_usize_lt [of a] show False by linarith
  qed
  have "unat a = 2 ^ k"
  proof (rule ccontr)
    assume "unat a \<noteq> 2 ^ k"
    with k(1) have "2 ^ k \<le> unat a - 1" by linarith
    moreover have m: "unat (a - 1) = unat a - 1" using pos by (metis One_nat_def Suc_leI unat_1 unat_sub word_le_nat_alt)
    ultimately have "unat (a - 1) div 2 ^ k = 1" "unat a div 2 ^ k = 1"
      using k by (auto intro!: div_nat_eqI)
    then have "bit (unat (a - 1)) k" "bit (unat a) k" by (simp_all add: bit_iff_odd)
    then have "bit (a AND (a - 1)) k" using k64 by (simp add: bit_and_iff bit_unsigned_iff)
    with assms show False by (simp add: is_power_of_two_def)
  qed
  then have "a = 2 ^ k" using k64 by (metis of_nat_numeral of_nat_power of_nat_unat_usize)
  with k64 that show ?thesis by blast
qed

lemma unat_exp: "k < 64 \<Longrightarrow> unat (2 ^ k :: usize) = 2 ^ k"
proof -
  assume "k < 64"
  then have "(2 :: nat) ^ k < 2 ^ 64" by (intro power_strict_increasing) simp_all
  then show ?thesis using unat_of_nat_usize [of "2 ^ k"] by simp
qed

lemma align_forward_uint_spec:
  assumes "is_power_of_two a" "unat p + unat a \<le> 2 ^ 64"
  shows "unat (align_forward_uint p a) = align_up (unat p) (unat a)"
proof -
  obtain k where k: "k < 64" "a = 2 ^ k" using power_of_two_exp [OF assms(1)] .
  have m: "p AND (a - 1) = take_bit k p"
    using k by (simp add: take_bit_eq_mask mask_eq_exp_minus_1)
  have um: "unat (take_bit k p) = unat p mod unat a"
    using k unsigned_take_bit_eq [of k p] by (simp only: take_bit_eq_mod unat_exp)
  have lt: "unat p mod unat a < unat a" using k by (simp add: unat_exp)
  have "unat (a - take_bit k p) = unat a - unat p mod unat a"
    using lt um by (simp add: unat_sub word_le_nat_alt)
  moreover have "unat (p + (a - take_bit k p)) = unat p + unat (a - take_bit k p)" if "take_bit k p \<noteq> 0"
    using that assms(2) um calculation unat_eq_0 [of "take_bit k p"] lt
    by (intro unat_add_no_wrap) linarith
  ultimately show ?thesis
    using um lt by (auto simp: align_forward_uint_def align_up_cases m Let_def unat_eq_0 [symmetric])
qed

section \<open>Allocation\<close>

text \<open>
  The arenas of the crate: a page-aligned buffer that does not wrap, a position inside it, and the
  mark of a buffer arena, \<^verbatim>\<open>commited > reserved\<close>.
\<close>

definition arena_ok :: "arna_Allocator \<Rightarrow> bool" where
  "arena_ok x \<longleftrightarrow> arena_ptr x \<noteq> 0 \<and> 4096 dvd unat (arena_ptr x) \<and>
     region_ok (arena_ptr x) (unat (arena_reserved x)) \<and> unat (arena_reserved x) < isize_max \<and>
     arena_pos x \<le> arena_reserved x \<and> arena_reserved x < arena_commited x"

definition align_ok :: "usize \<Rightarrow> bool" where
  "align_ok al \<longleftrightarrow> is_power_of_two al \<and> al \<le> PAGE_SIZE"

lemma align_okD:
  assumes "align_ok al"
  shows "is_power_of_two al" "0 < unat al" "unat al \<le> 4096" "unat al dvd 4096"
proof -
  show p: "is_power_of_two al" using assms by (simp add: align_ok_def)
  then obtain k where k: "k < 64" "al = 2 ^ k" using power_of_two_exp by blast
  then have u: "unat al = 2 ^ k" by (simp add: unat_exp)
  then show "0 < unat al" by simp
  show le: "unat al \<le> 4096" using assms by (simp add: align_ok_def PAGE_SIZE_def word_le_nat_alt)
  have "k \<le> 12"
  proof (rule ccontr)
    assume "\<not> k \<le> 12"
    then have "(2 :: nat) ^ 13 \<le> 2 ^ k" by (intro power_increasing) simp_all
    with le u show False by simp
  qed
  then have "(2 :: nat) ^ k dvd 2 ^ 12" by (rule le_imp_power_dvd)
  then show "unat al dvd 4096" using u by simp
qed

text \<open>Where an allocation of an arena starts.\<close>

definition alloc_base :: "arna_Allocator \<Rightarrow> usize \<Rightarrow> nat" where
  "alloc_base x al = align_up (unat (arena_pos x)) (unat al)"

text \<open>
  Sizes for which \<^verbatim>\<open>base + size\<close> cannot wrap: every size an object can have, up to a page.
\<close>

definition size_ok :: "usize \<Rightarrow> bool" where
  "size_ok sz \<longleftrightarrow> unat sz + 4095 \<le> isize_max"

definition alloc_fits :: "arna_Allocator \<Rightarrow> usize \<Rightarrow> usize \<Rightarrow> bool" where
  "alloc_fits x sz al \<longleftrightarrow> alloc_base x al + unat sz \<le> unat (arena_reserved x)"

definition alloc_slice :: "arna_Allocator \<Rightarrow> usize \<Rightarrow> usize \<Rightarrow> Slice" where
  "alloc_slice x sz al = \<lparr>slice_data = arena_ptr x + of_nat (alloc_base x al), slice_len = sz\<rparr>"

definition alloc_arena :: "arna_Allocator \<Rightarrow> usize \<Rightarrow> usize \<Rightarrow> arna_Allocator" where
  "alloc_arena x sz al = x\<lparr>arena_pos := of_nat (alloc_base x al + unat sz)\<rparr>"

lemma arena_okD:
  assumes "arena_ok x"
  shows "unat (arena_pos x) \<le> unat (arena_reserved x)" "unat (arena_reserved x) < isize_max"
    "unat (arena_reserved x) < unat (arena_commited x)" "unat (arena_reserved x) < 2 ^ 63"
    "unat (arena_ptr x) + unat (arena_reserved x) < 2 ^ 64"
  using assms by (auto simp: arena_ok_def word_le_nat_alt word_less_nat_alt isize_max_def region_ok_def)

lemma alloc_base_word:
  assumes "arena_ok x" "align_ok al"
  shows "align_forward_uint (arena_pos x) al = of_nat (alloc_base x al)"
    "alloc_base x al < unat (arena_reserved x) + 4096"
proof -
  have "unat (arena_pos x) + unat al \<le> 2 ^ 64"
    using arena_okD(1,4) [OF assms(1)] align_okD(3) [OF assms(2)] by simp
  then have "unat (align_forward_uint (arena_pos x) al) = alloc_base x al"
    using align_okD(1) [OF assms(2)] by (simp add: align_forward_uint_spec alloc_base_def)
  then show "align_forward_uint (arena_pos x) al = of_nat (alloc_base x al)"
    by (metis of_nat_unat_usize)
  show "alloc_base x al < unat (arena_reserved x) + 4096"
    using arena_okD(1) [OF assms(1)] align_okD(2,3) [OF assms(2)]
      align_up_less [of "unat al" "unat (arena_pos x)"]
    by (simp add: alloc_base_def)
qed

lemma arna_alloc_eq:
  assumes ok: "arena_ok (arenas m a)" and al: "align_ok al" and sz: "size_ok sz"
  shows "arna_alloc commit a sz al zeroed m =
    (if alloc_fits (arenas m a) sz al
     then (Inr (Inr (alloc_slice (arenas m a) sz al)),
           (if zeroed then write_bytes (slice_data (alloc_slice (arenas m a) sz al)) (replicate (unat sz) 0) else id)
             (set_arena a (alloc_arena (arenas m a) sz al) m))
     else (Inr (Inl Out_Of_Memory), m))"
proof -
  let ?x = "arenas m a"
  let ?b = "alloc_base ?x al"
  have lt: "?b + unat sz < 2 ^ 64"
    using alloc_base_word(2) [OF ok al] arena_okD(4) [OF ok] sz by (simp add: isize_max_def size_ok_def)
  have e: "of_nat ?b + sz = (of_nat (?b + unat sz) :: usize)" by simp
  have u: "unat (of_nat (?b + unat sz) :: usize) = ?b + unat sz"
    using lt by (rule unat_of_nat_usize)
  have fits: "(arena_reserved ?x < of_nat (?b + unat sz)) = (\<not> alloc_fits ?x sz al)"
    by (simp add: word_less_nat_alt u alloc_fits_def not_le del: of_nat_add)
  have com: "\<not> arena_commited ?x < of_nat (?b + unat sz)" if "alloc_fits ?x sz al"
    using that arena_okD(3) [OF ok] by (simp add: word_less_nat_alt u alloc_fits_def del: of_nat_add)
  show ?thesis
    using al com
    by (simp add: arna_alloc_def align_ok_def get_arena_def put_arena_def alloc_base_word(1) [OF ok al]
        Let_def e fits alloc_slice_def alloc_arena_def del: of_nat_add)
qed

lemma alloc_fits_facts:
  assumes ok: "arena_ok x" and al: "align_ok al" and fits: "alloc_fits x sz al"
  shows "unat (arena_pos x) \<le> alloc_base x al"
    "unat (slice_data (alloc_slice x sz al)) = unat (arena_ptr x) + alloc_base x al"
    "unat (arena_pos (alloc_arena x sz al)) = alloc_base x al + unat sz"
    "unat al dvd unat (slice_data (alloc_slice x sz al))"
    "arena_ok (alloc_arena x sz al)"
    "slice_data (alloc_slice x sz al) \<noteq> 0"
    "slice_len (alloc_slice x sz al) = sz"
proof -
  have b: "alloc_base x al + unat sz \<le> unat (arena_reserved x)"
    using fits by (simp add: alloc_fits_def)
  show "unat (arena_pos x) \<le> alloc_base x al"
    using align_okD(2) [OF al] by (simp add: alloc_base_def align_up_ge)
  show d: "unat (slice_data (alloc_slice x sz al)) = unat (arena_ptr x) + alloc_base x al"
    using ok b by (simp add: alloc_slice_def arena_ok_def unat_add_offset [of _ "unat (arena_reserved x)"])
  show p: "unat (arena_pos (alloc_arena x sz al)) = alloc_base x al + unat sz"
    using b arena_okD(4) [OF ok] unfolding alloc_arena_def by (simp del: of_nat_add)
  have "unat al dvd unat (arena_ptr x)"
    using align_okD(4) [OF al] ok by (auto simp: arena_ok_def intro: dvd_trans)
  moreover have "unat al dvd alloc_base x al"
    by (simp add: alloc_base_def align_up_dvd)
  ultimately show "unat al dvd unat (slice_data (alloc_slice x sz al))"
    by (simp add: d)
  show "arena_ok (alloc_arena x sz al)"
    using ok b p by (simp add: arena_ok_def alloc_arena_def word_le_nat_alt)
  show "slice_data (alloc_slice x sz al) \<noteq> 0"
    using ok d by (metis add_is_0 arena_ok_def unat_eq_0)
  show "slice_len (alloc_slice x sz al) = sz" by (simp add: alloc_slice_def)
qed

lemma alloc_arena_simps [simp]:
  "arena_ptr (alloc_arena x sz al) = arena_ptr x" "arena_reserved (alloc_arena x sz al) = arena_reserved x"
  "arena_commited (alloc_arena x sz al) = arena_commited x"
  by (simp_all add: alloc_arena_def)

section \<open>The interface of an allocator\<close>

text \<open>The blocks handed out by a run of requests, in order; failed requests hand out none.\<close>

definition blocks :: "(Allocator_Error + Slice) list \<Rightarrow> Slice list" where
  "blocks rs = concat (map (\<lambda>r. case r of Inl _ \<Rightarrow> [] | Inr b \<Rightarrow> [b]) rs)"

text \<open>
  What the users of an arena rely on: an allocation fails and changes nothing, or hands out an
  aligned block above everything handed out before and inside the buffer, and touches no other byte.
\<close>

locale region_allocator =
  fixes invar :: "'s \<Rightarrow> bool"
    and buf :: "'s \<Rightarrow> u64"
    and cap :: "'s \<Rightarrow> nat"
    and used :: "'s \<Rightarrow> nat"
    and mem_of :: "'s \<Rightarrow> bytes"
    and request_ok :: "usize \<Rightarrow> usize \<Rightarrow> bool"
    and alloc :: "usize \<Rightarrow> usize \<Rightarrow> bool \<Rightarrow> ('s, Allocator_Error + Slice) prog"
  assumes buf_ok: "invar s \<Longrightarrow> region_ok (buf s) (cap s) \<and> used s \<le> cap s"
    and alloc_outcome: "invar s \<Longrightarrow> request_ok sz al \<Longrightarrow> alloc sz al z s = (r, s') \<Longrightarrow>
      (r = Inr (Inl Out_Of_Memory) \<and> s' = s) \<or>
      (\<exists>b. r = Inr (Inr b) \<and> invar s' \<and> buf s' = buf s \<and> cap s' = cap s \<and> slice_len b = sz \<and>
        unat (buf s) + used s \<le> unat (slice_data b) \<and>
        unat (slice_data b) + unat sz = unat (buf s) + used s' \<and>
        unat al dvd unat (slice_data b) \<and>
        mem_of s' = (if z then store_bytes (mem_of s) (slice_data b) (replicate (unat sz) 0) else mem_of s))"
begin

lemma alloc_returns:
  assumes "invar s" "request_ok sz al"
  obtains r s' where "alloc sz al z s = (Inr r, s')" "invar s'" "used s \<le> used s'"
    "buf s' = buf s" "cap s' = cap s"
proof -
  obtain r s' where a: "alloc sz al z s = (r, s')" by (cases "alloc sz al z s")
  from alloc_outcome [OF assms a] a assms(1) show thesis
    by (elim disjE exE conjE) (use that in auto)
qed

lemma allocs_stacked:
  assumes "invar s" "list_all (\<lambda>(sz, al, z). request_ok sz al) reqs"
  shows "\<exists>rs s'. mapM (\<lambda>(sz, al, z). alloc sz al z) reqs s = (Inr rs, s') \<and> invar s' \<and>
    buf s' = buf s \<and> cap s' = cap s \<and> used s \<le> used s' \<and>
    sorted_wrt (\<lambda>b c. unat (slice_data b) + unat (slice_len b) \<le> unat (slice_data c)) (blocks rs) \<and>
    list_all (\<lambda>b. unat (buf s) + used s \<le> unat (slice_data b) \<and>
      unat (slice_data b) + unat (slice_len b) \<le> unat (buf s) + used s') (blocks rs)"
  using assms
proof (induction reqs arbitrary: s)
  case Nil
  then show ?case by (auto simp: blocks_def)
next
  case (Cons req reqs)
  obtain sz al z where req: "req = (sz, al, z)" by (cases req)
  then have rq: "request_ok sz al" and rest: "list_all (\<lambda>(sz, al, z). request_ok sz al) reqs"
    using Cons.prems by auto
  obtain r t where r: "alloc sz al z s = (Inr r, t)" "invar t" "used s \<le> used t" "buf t = buf s" "cap t = cap s"
    using alloc_returns [OF Cons.prems(1) rq] .
  obtain rs s' where rs: "mapM (\<lambda>(sz, al, z). alloc sz al z) reqs t = (Inr rs, s')" "invar s'"
    "buf s' = buf t" "cap s' = cap t" "used t \<le> used s'"
    "sorted_wrt (\<lambda>b c. unat (slice_data b) + unat (slice_len b) \<le> unat (slice_data c)) (blocks rs)"
    "list_all (\<lambda>b. unat (buf t) + used t \<le> unat (slice_data b) \<and>
      unat (slice_data b) + unat (slice_len b) \<le> unat (buf t) + used s') (blocks rs)"
    using Cons.IH [OF r(2) rest] by blast
  have run: "mapM (\<lambda>(sz, al, z). alloc sz al z) (req # reqs) s = (Inr (r # rs), s')"
    using r(1) rs(1) req by simp
  show ?case
  proof (cases r)
    case (Inl e)
    then have "blocks (r # rs) = blocks rs" by (simp add: blocks_def)
    with run rs r show ?thesis by (fastforce simp: list_all_iff)
  next
    case (Inr b)
    then have "blocks (r # rs) = b # blocks rs" by (simp add: blocks_def)
    moreover have "slice_len b = sz" "unat (buf s) + used s \<le> unat (slice_data b)"
      "unat (slice_data b) + unat sz = unat (buf s) + used t"
      using alloc_outcome [OF Cons.prems(1) rq r(1)] Inr by auto
    ultimately show ?thesis
      using run rs r by (fastforce simp: list_all_iff)
  qed
qed

end

interpretation arna: region_allocator
  "\<lambda>m. arena_ok (arenas m a)" "\<lambda>m. arena_ptr (arenas m a)" "\<lambda>m. unat (arena_reserved (arenas m a))"
  "\<lambda>m. unat (arena_pos (arenas m a))" memory "\<lambda>sz al. size_ok sz \<and> align_ok al"
  "arna_alloc commit a" for commit a
proof unfold_locales
  fix m :: machine
  assume "arena_ok (arenas m a)"
  then show "region_ok (arena_ptr (arenas m a)) (unat (arena_reserved (arenas m a))) \<and>
      unat (arena_pos (arenas m a)) \<le> unat (arena_reserved (arenas m a))"
    by (simp add: arena_ok_def word_le_nat_alt)
next
  fix m :: machine and sz al z r m'
  let ?x = "arenas m a"
  assume ok: "arena_ok ?x" and rq: "size_ok sz \<and> align_ok al"
    and run: "arna_alloc commit a sz al z m = (r, m')"
  show "(r = Inr (Inl Out_Of_Memory) \<and> m' = m) \<or>
    (\<exists>b. r = Inr (Inr b) \<and> arena_ok (arenas m' a) \<and> arena_ptr (arenas m' a) = arena_ptr ?x \<and>
      unat (arena_reserved (arenas m' a)) = unat (arena_reserved ?x) \<and> slice_len b = sz \<and>
      unat (arena_ptr ?x) + unat (arena_pos ?x) \<le> unat (slice_data b) \<and>
      unat (slice_data b) + unat sz = unat (arena_ptr ?x) + unat (arena_pos (arenas m' a)) \<and>
      unat al dvd unat (slice_data b) \<and>
      memory m' = (if z then store_bytes (memory m) (slice_data b) (replicate (unat sz) 0) else memory m))"
  proof (cases "alloc_fits ?x sz al")
    case True
    note facts = alloc_fits_facts [OF ok _ True]
    show ?thesis
      using run arna_alloc_eq [OF ok, of al sz commit z] rq True facts
      by (auto split: if_splits)
  next
    case False
    then show ?thesis
      using run arna_alloc_eq [OF ok, of al sz commit z] rq by auto
  qed
qed

end
