(* ===== verification/Arna_Life.thy ===== *)
theory Arna_Life
  imports Arna
begin

text \<open>
  The life of the blocks of an arena: a client allocates, writes, resizes and frees blocks through
  \<^verbatim>\<open>allocator_proc\<close>, in any order, and may reset the arena. The state is the machine and the blocks the
  client holds; the theorems say that held blocks never overlap, never leave the buffer and keep
  their contents, and that no operation reaches undefined behaviour.
\<close>

section \<open>Steps of a client\<close>

type_synonym block = "u64 \<times> nat"

text \<open>Blocks of no bytes are not held: nothing can be read or written through them.\<close>

definition hold :: "u64 \<Rightarrow> nat \<Rightarrow> block list \<Rightarrow> block list" where
  "hold p n bs = (if n = 0 then bs else (p, n) # bs)"

text \<open>
  The requests of a client: a fresh block, giving a held block back, a held block with another size,
  writing all bytes of a held block, and giving all blocks back at once.
\<close>

datatype request = R_alloc bool usize usize | R_free block | R_resize bool block usize usize
  | R_write block "u8 list" | R_free_all

fun request_legal :: "block list \<Rightarrow> request \<Rightarrow> bool" where
  "request_legal bs (R_alloc z sz al) \<longleftrightarrow> size_ok sz \<and> align_ok al"
| "request_legal bs (R_free b) \<longleftrightarrow> b \<in> set bs"
| "request_legal bs (R_resize z b sz al) \<longleftrightarrow> b \<in> set bs \<and> size_ok sz \<and> align_ok al"
| "request_legal bs (R_write b vs) \<longleftrightarrow> b \<in> set bs \<and> length vs = snd b"
| "request_legal bs R_free_all \<longleftrightarrow> True"

text \<open>The call each request makes; writing is done by the client itself.\<close>

fun perform :: "commit_fn \<Rightarrow> decommit_fn \<Rightarrow> u64 \<Rightarrow> request \<Rightarrow> (Allocator_Error + Slice) act" where
  "perform commit decommit a (R_alloc z sz al) =
     arna_allocator_proc commit decommit a (if z then Alloc else Alloc_Non_Zeroed) sz al 0 0"
| "perform commit decommit a (R_free b) =
     arna_allocator_proc commit decommit a Free 0 0 (fst b) (of_nat (snd b))"
| "perform commit decommit a (R_resize z b sz al) =
     arna_allocator_proc commit decommit a (if z then Resize else Resize_Non_Zeroed) sz al
       (fst b) (of_nat (snd b))"
| "perform commit decommit a (R_write b vs) =
     bindM (modifyM (write_bytes (fst b) vs)) (\<lambda>_. ret (Inr Slice_default))"
| "perform commit decommit a R_free_all = arna_allocator_proc commit decommit a Free_All 0 0 0 0"

text \<open>The blocks held afterwards.\<close>

fun held :: "request \<Rightarrow> Allocator_Error + Slice \<Rightarrow> block list \<Rightarrow> block list" where
  "held (R_alloc z sz al) (Inr s) bs = hold (slice_data s) (unat (slice_len s)) bs"
| "held (R_free b) (Inr s) bs = remove1 b bs"
| "held (R_resize z b sz al) (Inr s) bs = hold (slice_data s) (unat (slice_len s)) (remove1 b bs)"
| "held R_free_all (Inr s) bs = []"
| "held _ _ bs = bs"

inductive client_step :: "commit_fn \<Rightarrow> decommit_fn \<Rightarrow> u64 \<Rightarrow> machine \<times> block list \<Rightarrow> machine \<times> block list \<Rightarrow> bool"
  for commit decommit a where
  step: "request_legal bs rq \<Longrightarrow> perform commit decommit a rq m = (Inr r, m') \<Longrightarrow>
    client_step commit decommit a (m, bs) (m', held rq r bs)"

inductive_cases client_stepE: "client_step commit decommit a (m, bs) (m', bs')"

section \<open>The invariant\<close>

definition block_in :: "arna_Allocator \<Rightarrow> block \<Rightarrow> bool" where
  "block_in x b \<longleftrightarrow> 0 < snd b \<and> unat (arena_ptr x) \<le> unat (fst b) \<and>
     unat (fst b) + snd b \<le> unat (arena_ptr x) + unat (arena_pos x)"

definition blocks_apart :: "block list \<Rightarrow> bool" where
  "blocks_apart bs \<longleftrightarrow> sorted_wrt (\<lambda>b c. apart (fst b) (snd b) (fst c) (snd c)) bs"

definition life_ok :: "u64 \<Rightarrow> machine \<times> block list \<Rightarrow> bool" where
  "life_ok a = (\<lambda>(m, bs). arena_ok (arenas m a) \<and> list_all (block_in (arenas m a)) bs \<and> blocks_apart bs)"

lemma apart_sym: "apart p n q k \<Longrightarrow> apart q k p n"
  by (auto simp: apart_def)

lemma blocks_apart_Cons:
  "blocks_apart (b # bs) \<longleftrightarrow> (\<forall>c \<in> set bs. apart (fst b) (snd b) (fst c) (snd c)) \<and> blocks_apart bs"
  by (simp add: blocks_apart_def)

lemma blocks_apart_remove1: "blocks_apart bs \<Longrightarrow> blocks_apart (remove1 b bs)"
  using set_remove1_subset [of b] by (induction bs) (auto simp: blocks_apart_Cons)

lemma remove1_apart:
  "blocks_apart bs \<Longrightarrow> b \<in> set bs \<Longrightarrow> c \<in> set (remove1 b bs) \<Longrightarrow> apart (fst b) (snd b) (fst c) (snd c)"
  by (induction bs) (auto simp: blocks_apart_Cons split: if_splits intro: apart_sym)

lemma block_in_facts:
  assumes "arena_ok x" "block_in x b"
  shows "fst b \<noteq> 0" "region_ok (fst b) (snd b)" "snd b < 2 ^ 63" "snd b \<le> unat (arena_pos x)"
proof -
  have b: "unat (arena_ptr x) \<le> unat (fst b)" "0 < snd b"
    "unat (fst b) + snd b \<le> unat (arena_ptr x) + unat (arena_pos x)"
    using assms(2) by (auto simp: block_in_def)
  have p: "unat (arena_pos x) \<le> unat (arena_reserved x)" "unat (arena_reserved x) < 2 ^ 63"
    "unat (arena_ptr x) + unat (arena_reserved x) < 2 ^ 64" "0 < unat (arena_ptr x)"
    using arena_okD [OF assms(1)] assms(1) by (auto simp: arena_ok_def region_ok_def unat_gt_0)
  show "fst b \<noteq> 0" using b(1) p(4) by (metis leD unat_0)
  show "region_ok (fst b) (snd b)" using b p unfolding region_ok_def by linarith
  show "snd b \<le> unat (arena_pos x)" using b by linarith
  then show "snd b < 2 ^ 63" using p by linarith
qed

text \<open>Allocation: a new block is above all held ones.\<close>

lemma alloc_step:
  assumes ok: "life_ok a (m, bs)" and rq: "size_ok sz" "align_ok al"
    and run: "arna_alloc commit a sz al z m = (r, m')"
  shows "(r = Inr (Inl Out_Of_Memory) \<and> m' = m) \<or>
    (\<exists>s. r = Inr (Inr s) \<and> slice_len s = sz \<and> life_ok a (m', hold (slice_data s) (unat sz) bs) \<and>
      list_all (block_in (arenas m' a)) bs \<and> slice_data s \<noteq> 0 \<and> region_ok (slice_data s) (unat sz) \<and>
      unat (arena_ptr (arenas m a)) + unat (arena_pos (arenas m a)) \<le> unat (slice_data s) \<and>
      (\<forall>c. block_in (arenas m a) c \<longrightarrow> apart (fst c) (snd c) (slice_data s) (unat sz) \<and>
        load_bytes (memory m') (fst c) (snd c) = load_bytes (memory m) (fst c) (snd c)))"
proof -
  let ?x = "arenas m a"
  have ao: "arena_ok ?x" and bi: "list_all (block_in ?x) bs" and ba: "blocks_apart bs"
    using ok by (auto simp: life_ok_def)
  consider "r = Inr (Inl Out_Of_Memory)" "m' = m"
    | s where "r = Inr (Inr s)" "arena_ok (arenas m' a)" "arena_ptr (arenas m' a) = arena_ptr ?x"
      "slice_len s = sz" "unat (arena_ptr ?x) + unat (arena_pos ?x) \<le> unat (slice_data s)"
      "unat (slice_data s) + unat sz = unat (arena_ptr ?x) + unat (arena_pos (arenas m' a))"
      "memory m' = (if z then store_bytes (memory m) (slice_data s) (replicate (unat sz) 0) else memory m)"
    using arna.alloc_outcome [OF ao _ run] rq by blast
  then show ?thesis
  proof cases
    case 2
    have pos: "unat (arena_pos ?x) \<le> unat (arena_pos (arenas m' a))"
      using 2(5,6) by linarith
    have bi': "block_in (arenas m' a) c" if "block_in ?x c" for c
      using that pos 2(3) unfolding block_in_def by simp
    have ap: "apart (fst c) (snd c) (slice_data s) (unat sz)" if "block_in ?x c" for c
      using that 2(5) unfolding block_in_def apart_def by linarith
    have rs: "region_ok (slice_data s) (unat sz)"
      using 2(3,6) arena_okD(1,5) [OF 2(2)] unfolding region_ok_def by simp
    have mem: "load_bytes (memory m') (fst c) (snd c) = load_bytes (memory m) (fst c) (snd c)"
      if "block_in ?x c" for c
      using that ap [OF that] rs 2(7) block_in_facts(2) [OF ao that] by (simp add: load_store_apart)
    have "0 < unat (arena_ptr ?x)" using ao by (auto simp: arena_ok_def unat_gt_0)
    then have "slice_data s \<noteq> 0" using 2(5) by (metis add_leD1 leD unat_0)
    moreover have "block_in (arenas m' a) (slice_data s, unat sz)" if "unat sz \<noteq> 0"
      using that 2(3,5,6) unfolding block_in_def by simp
    then have "life_ok a (m', hold (slice_data s) (unat sz) bs)"
      using bi ba bi' ap 2(2) by (auto simp: life_ok_def hold_def list_all_iff blocks_apart_Cons intro: apart_sym)
    ultimately show ?thesis
      using 2 bi bi' ap mem rs by (auto simp: list_all_iff)
  qed auto
qed

text \<open>Giving back or shrinking the last block moves the position down, never below another held block.\<close>

lemma lower_position:
  assumes ok: "life_ok a (m, bs)" and b: "b \<in> set bs" and k: "k \<le> snd b"
    and last: "unat (fst b) + snd b = unat (arena_ptr (arenas m a)) + unat (arena_pos (arenas m a))"
    and m': "m' = set_arena a (arena_pos_update (\<lambda>p. p - of_nat (snd b - k)) (arenas m a)) m"
  shows "life_ok a (m', hold (fst b) k (remove1 b bs))"
proof -
  let ?x = "arenas m a"
  have ao: "arena_ok ?x" and bi: "list_all (block_in ?x) bs" and ba: "blocks_apart bs"
    using ok by (auto simp: life_ok_def)
  have inb: "block_in ?x b" using bi b by (auto simp: list_all_iff)
  note f = block_in_facts [OF ao inb]
  have u: "unat (of_nat (snd b - k) :: usize) = snd b - k"
    using f(3) by (intro unat_of_nat_usize) simp
  have pos: "unat (arena_pos ?x - of_nat (snd b - k)) = unat (arena_pos ?x) - (snd b - k)"
    using u f(4) by (simp add: unat_sub word_le_nat_alt)
  have "unat (arena_pos ?x) - (snd b - k) \<le> unat (arena_reserved ?x)"
    using arena_okD(1) [OF ao] by linarith
  then have ok': "arena_ok (arenas m' a)"
    using ao pos by (simp add: m' arena_ok_def word_le_nat_alt)
  have x': "arena_ptr (arenas m' a) = arena_ptr ?x"
    "unat (arena_pos (arenas m' a)) = unat (arena_pos ?x) - (snd b - k)"
    unfolding m' by (simp_all add: pos del: of_nat_diff)
  have other: "block_in (arenas m' a) c" if c: "c \<in> set (remove1 b bs)" for c
  proof -
    have "block_in ?x c" using bi set_remove1_subset [of b bs] c by (auto simp: list_all_iff)
    moreover have "apart (fst b) (snd b) (fst c) (snd c)" using remove1_apart [OF ba b c] .
    ultimately show ?thesis
      using last k f(4) inb unfolding block_in_def apart_def x' by linarith
  qed
  have "block_in (arenas m' a) (fst b, k)" if "k \<noteq> 0"
    using that inb last k f(4) unfolding block_in_def x' by simp
  moreover have "apart (fst b) k (fst c) (snd c)" if "c \<in> set (remove1 b bs)" for c
    using remove1_apart [OF ba b that] k unfolding apart_def by linarith
  ultimately show ?thesis
    using ok' other blocks_apart_remove1 [OF ba]
    by (auto simp: life_ok_def hold_def list_all_iff blocks_apart_Cons)
qed

text \<open>The test of \<^verbatim>\<open>allocator_proc\<close> for the last block, on addresses that wrap, is the intended one.\<close>

lemma last_block_test:
  assumes "arena_ok x" "block_in x b"
  shows "(fst b - arena_ptr x = arena_pos x - of_nat (snd b)) \<longleftrightarrow>
    unat (fst b) + snd b = unat (arena_ptr x) + unat (arena_pos x)"
proof -
  note f = block_in_facts [OF assms]
  have u: "unat (of_nat (snd b) :: usize) = snd b" using f(3) by simp
  have "unat (fst b - arena_ptr x) = unat (fst b) - unat (arena_ptr x)"
    using assms(2) by (simp add: block_in_def unat_sub word_le_nat_alt)
  moreover have "unat (arena_pos x - of_nat (snd b)) = unat (arena_pos x) - snd b"
    using f(4) u by (simp add: unat_sub word_le_nat_alt)
  moreover have "v = w \<longleftrightarrow> unat v = unat w" for v w :: u64 by (metis of_nat_unat_usize)
  ultimately have "(fst b - arena_ptr x = arena_pos x - of_nat (snd b)) \<longleftrightarrow>
      unat (fst b) - unat (arena_ptr x) = unat (arena_pos x) - snd b" by metis
  also have "\<dots> \<longleftrightarrow> unat (fst b) + snd b = unat (arena_ptr x) + unat (arena_pos x)"
    using assms(2) f(4) unfolding block_in_def by linarith
  finally show ?thesis .
qed

lemma life_ok_remove: "life_ok a (m, bs) \<Longrightarrow> life_ok a (m, remove1 b bs)"
  using set_remove1_subset [of b bs] by (auto simp: life_ok_def list_all_iff blocks_apart_remove1)

section \<open>Every request keeps the invariant\<close>

text \<open>The block that ends where the free part of the arena starts: it is resized in place.\<close>

definition last_block :: "arna_Allocator \<Rightarrow> block \<Rightarrow> bool" where
  "last_block x b \<longleftrightarrow> unat (fst b) + snd b = unat (arena_ptr x) + unat (arena_pos x)"

text \<open>Whether the free part of the arena is large enough for a request.\<close>

fun has_room :: "arna_Allocator \<Rightarrow> request \<Rightarrow> bool" where
  "has_room x (R_alloc z sz al) \<longleftrightarrow> alloc_fits x sz al"
| "has_room x (R_resize z b sz al) \<longleftrightarrow>
     (if last_block x b then unat sz < snd b \<or> alloc_fits x (sz - of_nat (snd b)) 1 else alloc_fits x sz al)"
| "has_room x _ \<longleftrightarrow> True"

text \<open>
  What a request delivers: a block of the size asked for, aligned and zeroed as asked. A block that is resized carries the old contents over, with the
  rest zeroed as asked; if it is resized in place it stays where it is, and so has the alignment it had.
\<close>

fun delivers :: "arna_Allocator \<Rightarrow> request \<Rightarrow> Slice \<Rightarrow> machine \<Rightarrow> machine \<Rightarrow> bool" where
  "delivers x (R_alloc z sz al) s m m' \<longleftrightarrow>
     slice_len s = sz \<and> unat al dvd unat (slice_data s) \<and>
     (z \<longrightarrow> load_bytes (memory m') (slice_data s) (unat sz) = replicate (unat sz) 0)"
| "delivers x (R_resize z b sz al) s m m' \<longleftrightarrow>
     slice_len s = sz \<and> (if last_block x b then slice_data s = fst b else unat al dvd unat (slice_data s)) \<and>
     load_bytes (memory m') (slice_data s) (min (snd b) (unat sz)) =
       load_bytes (memory m) (fst b) (min (snd b) (unat sz)) \<and>
     (z \<longrightarrow> (\<forall>i. snd b \<le> i \<longrightarrow> i < unat sz \<longrightarrow> memory m' (slice_data s + of_nat i) = 0))"
| "delivers x (R_write b vs) s m m' \<longleftrightarrow> load_bytes (memory m') (fst b) (snd b) = vs"
| "delivers x _ s m m' \<longleftrightarrow> True"

text \<open>Which held blocks keep their contents.\<close>

fun keeps :: "request \<Rightarrow> block \<Rightarrow> bool" where
  "keeps (R_write b vs) c \<longleftrightarrow> c \<noteq> b"
| "keeps _ c \<longleftrightarrow> True"

text \<open>A request fails exactly when there is no room for it, and then changes nothing.\<close>

definition served :: "u64 \<Rightarrow> machine \<Rightarrow> block list \<Rightarrow> request \<Rightarrow> (Allocator_Error + Slice) res \<times> machine \<Rightarrow> bool" where
  "served a m bs rq = (\<lambda>(res, m'). case res of Inl _ \<Rightarrow> False | Inr r \<Rightarrow>
     (case r of
        Inl e \<Rightarrow> e = Out_Of_Memory \<and> \<not> has_room (arenas m a) rq \<and> m' = m
      | Inr s \<Rightarrow> has_room (arenas m a) rq \<and> delivers (arenas m a) rq s m m') \<and>
     life_ok a (m', held rq r bs) \<and>
     (\<forall>c \<in> set bs. keeps rq c \<longrightarrow>
        load_bytes (memory m') (fst c) (snd c) = load_bytes (memory m) (fst c) (snd c)))"

lemma alloc_room:
  assumes "arena_ok (arenas m a)" "size_ok sz" "align_ok al" "arna_alloc commit a sz al z m = (r, m')"
  shows "r = Inr (Inl Out_Of_Memory) \<longleftrightarrow> \<not> alloc_fits (arenas m a) sz al"
    "r = Inr (Inr s) \<Longrightarrow> slice_data s = arena_ptr (arenas m a) + of_nat (alloc_base (arenas m a) al)"
  using arna_alloc_eq [OF assms(1,3,2), of commit z] assms(4) by (auto simp: alloc_slice_def split: if_splits)

lemma alloc_zeroed:
  assumes "arena_ok (arenas m a)" "size_ok sz" "align_ok al" "arna_alloc commit a sz al True m = (Inr (Inr s), m')" "i < unat sz"
  shows "memory m' (slice_data s + of_nat i) = 0"
proof -
  have "memory m' = store_bytes (memory m) (slice_data s) (replicate (unat sz) 0)"
    using arna.alloc_outcome [OF assms(1) _ assms(4)] assms(2,3) by auto
  then have "load_bytes (memory m') (slice_data s) (unat sz) = replicate (unat sz) 0" by (simp add: load_store_fill)
  then have "load_bytes (memory m') (slice_data s) (unat sz) ! i = 0" using assms(5) by simp
  then show ?thesis using assms(5) by (simp add: load_bytes_def)
qed

text \<open>Bytes behind those that are written keep their values.\<close>

lemma store_before:
  assumes "region_ok p n" "length bs \<le> i" "i < n"
  shows "store_bytes mem p bs (p + of_nat i) = mem (p + of_nat i)"
proof -
  have u: "unat (p + of_nat i) = unat p + i" using assms by (intro unat_add_offset) auto
  have "load_bytes (store_bytes mem p bs) (p + of_nat i) 1 = load_bytes mem (p + of_nat i) 1"
    using assms u by (intro load_store_apart) (auto simp: region_ok_def apart_def)
  then show ?thesis by (simp add: load_bytes_def)
qed

lemma life_ok_write [simp]: "life_ok a (write_bytes p vs m, bs) = life_ok a (m, bs)"
  by (simp add: life_ok_def)

lemma life_ok_hold_remove: "life_ok a (m, hold p n bs) \<Longrightarrow> life_ok a (m, hold p n (remove1 b bs))"
  using set_remove1_subset [of b bs]
  by (auto simp: life_ok_def hold_def list_all_iff blocks_apart_Cons blocks_apart_remove1 split: if_splits)

lemma life_okD:
  assumes "life_ok a (m, bs)"
  shows "arena_ok (arenas m a)" "b \<in> set bs \<Longrightarrow> block_in (arenas m a) b" "blocks_apart bs"
  using assms by (auto simp: life_ok_def list_all_iff)

lemma serve_alloc:
  assumes ok: "life_ok a (m, bs)" and rq: "size_ok sz" "align_ok al"
  shows "served a m bs (R_alloc z sz al) (arna_alloc commit a sz al z m)"
proof -
  obtain r m' where run: "arna_alloc commit a sz al z m = (r, m')" by fastforce
  note out = arna.alloc_outcome [OF life_okD(1) [OF ok] conjI [OF rq] run] and room = alloc_room(1) [OF life_okD(1) [OF ok] rq run]
  consider "r = Inr (Inl Out_Of_Memory)" "m' = m" | s where "r = Inr (Inr s)" using out by blast
  then show ?thesis
  proof cases
    case 1
    then show ?thesis using run ok room by (simp add: served_def)
  next
    case 2
    have "z \<longrightarrow> load_bytes (memory m') (slice_data s) (unat sz) = replicate (unat sz) 0"
      using out 2 by (auto simp: load_store_fill)
    moreover have "slice_len s = sz" "unat al dvd unat (slice_data s)" using out 2 by auto
    ultimately show ?thesis
      using alloc_step [OF ok rq run] 2 run room life_okD(2) [OF ok] by (auto simp: served_def)
  qed
qed

lemma serve_free:
  assumes ok: "life_ok a (m, bs)" and b: "b \<in> set bs"
  shows "served a m bs (R_free b) (perform commit decommit a (R_free b) m)"
proof (cases "fst b - arena_ptr (arenas m a) = arena_pos (arenas m a) - of_nat (snd b)")
  case True
  have "unat (fst b) + snd b = unat (arena_ptr (arenas m a)) + unat (arena_pos (arenas m a))"
    using True last_block_test life_okD [OF ok] b by blast
  from lower_position [OF ok b le0 this refl] show ?thesis
    using True by (simp add: arna_allocator_proc_def get_arena_def put_arena_def served_def hold_def ret_apply)
next
  case False
  then show ?thesis
    using life_ok_remove [OF ok] by (simp add: arna_allocator_proc_def get_arena_def served_def ret_apply)
qed

lemma serve_write:
  assumes ok: "life_ok a (m, bs)" and b: "b \<in> set bs" and vs: "length vs = snd b"
  shows "served a m bs (R_write b vs) (perform commit decommit a (R_write b vs) m)"
proof -
  note f = block_in_facts [OF life_okD(1) life_okD(2), OF ok ok]
  have "load_bytes (store_bytes (memory m) (fst b) vs) (fst c) (snd c) = load_bytes (memory m) (fst c) (snd c)"
    if c: "c \<in> set bs" "c \<noteq> b" for c
  proof -
    have "c \<in> set (remove1 b bs)" using c by simp
    from remove1_apart [OF life_okD(3) [OF ok] b this] show ?thesis
      using f(2) [OF b] f(2) [OF c(1)] vs by (simp add: load_store_apart apart_sym)
  qed
  moreover have "load_bytes (store_bytes (memory m) (fst b) vs) (fst b) (snd b) = vs"
    using f(3) [OF b] vs load_store_same [of vs "memory m" "fst b"] by simp
  ultimately show ?thesis using ok by (simp add: served_def ret_apply)
qed

lemma serve_free_all:
  assumes ok: "life_ok a (m, bs)"
  shows "served a m bs R_free_all (perform commit decommit a R_free_all m)"
  using life_okD(1) [OF ok]
  by (simp add: arna_allocator_proc_def arna_reset_def get_arena_def put_arena_def served_def life_ok_def
      arena_ok_def blocks_apart_def ret_apply)

text \<open>Resizing, when the block is not the last one, when it shrinks in place and when it grows in place.\<close>

lemma size_ok_sint: "size_ok sz \<Longrightarrow> sint sz = int (unat sz)"
  unfolding sint_u64_cases by (simp add: size_ok_def isize_max_def del: of_nat_unat)

lemma held_sint: "n < 2 ^ 63 \<Longrightarrow> sint (of_nat n :: isize) = int n"
  unfolding sint_u64_cases by (simp del: of_nat_unat)

lemma sint_sizes:
  assumes "size_ok sz" "n < 2 ^ 63"
  shows "sint sz < sint (of_nat n :: isize) \<longleftrightarrow> unat sz < n"
    "sint (of_nat n :: isize) \<le> sint sz \<longleftrightarrow> n \<le> unat sz"
  unfolding size_ok_sint [OF assms(1)] held_sint [OF assms(2)]
  by (simp_all only: of_nat_less_iff of_nat_le_iff)

lemma serve_resize_move:
  assumes ok: "life_ok a (m, bs)" and b: "b \<in> set bs" and rq: "size_ok sz" "align_ok al"
    and last: "\<not> last_block (arenas m a) b"
  shows "served a m bs (R_resize z b sz al)
    (arna_resize commit a sz al (fst b) (of_nat (snd b)) z False m)"
proof -
  obtain r m' where run: "arna_alloc commit a sz al z m = (r, m')" by fastforce
  note room = alloc_room(1) [OF life_okD(1) [OF ok] rq run]
  have inb: "block_in (arenas m a) b" using life_okD(2) [OF ok b] .
  note f = block_in_facts [OF life_okD(1) [OF ok] inb]
  let ?k = "min (snd b) (unat sz)"
  have k: "unat (if sint (of_nat (snd b) :: isize) \<le> sint sz then of_nat (snd b) else sz) = ?k"
    using f(3) rq(1) by (simp add: sint_sizes min_def)
  consider "r = Inr (Inl Out_Of_Memory)" "m' = m" | s where "r = Inr (Inr s)"
    using alloc_step [OF ok rq run] by blast
  then show ?thesis
  proof cases
    case 1
    then show ?thesis using run ok room last by (simp add: served_def arna_resize_def ret_apply)
  next
    case 2
    have s: "slice_len s = sz" "life_ok a (m', hold (slice_data s) (unat sz) bs)" "slice_data s \<noteq> 0"
      "region_ok (slice_data s) (unat sz)" "unat al dvd unat (slice_data s)"
      and ap: "\<And>c. c \<in> set bs \<Longrightarrow> apart (fst c) (snd c) (slice_data s) (unat sz)"
      and mem: "\<And>c. c \<in> set bs \<Longrightarrow>
        load_bytes (memory m') (fst c) (snd c) = load_bytes (memory m) (fst c) (snd c)"
      using alloc_step [OF ok rq run] arna.alloc_outcome [OF life_okD(1) [OF ok] conjI [OF rq] run] 2 life_okD(2) [OF ok] by auto
    let ?old = "load_bytes (memory m') (fst b) ?k"
    let ?m = "write_bytes (slice_data s) ?old m'"
    have cp: "copy_nonoverlapping (fst b) (slice_data s) ?k m' = (Inr (), ?m)"
      using f(1,2) s(3,4) ap [OF b] by (intro copy_nonoverlapping_ok) (auto simp: region_ok_def apart_def)
    then have res: "arna_resize commit a sz al (fst b) (of_nat (snd b)) z False m = (Inr (Inr s), ?m)"
      using run 2 k by (simp add: arna_resize_def)
    have old: "?old = load_bytes (memory m) (fst b) ?k"
      using mem [OF b] by (metis min.cobounded1 take_load_bytes)
    have "?k < 2 ^ 64" using f(3) by simp
    then have new: "load_bytes (memory ?m) (slice_data s) ?k = ?old"
      using load_store_same [of ?old "memory m'" "slice_data s"] by simp
    have "load_bytes (memory ?m) (fst c) (snd c) = load_bytes (memory m) (fst c) (snd c)"
      if c: "c \<in> set bs" for c
    proof -
      have "region_ok (fst c) (snd c)" "region_ok (slice_data s) ?k" "apart (fst c) (snd c) (slice_data s) ?k"
        using block_in_facts(2) [OF life_okD(1) [OF ok] life_okD(2) [OF ok c]] s(4) ap [OF c]
        by (auto simp: region_ok_def apart_def)
      then show ?thesis using mem [OF c] by (simp add: load_store_apart)
    qed
    moreover have "memory ?m (slice_data s + of_nat i) = 0" if "z" "snd b \<le> i" "i < unat sz" for i
    proof -
      have "arna_alloc commit a sz al True m = (Inr (Inr s), m')" using run 2 that(1) by simp
      then have "memory m' (slice_data s + of_nat i) = 0" by (rule alloc_zeroed [OF life_okD(1) [OF ok] rq _ that(3)])
      then show ?thesis using store_before [OF s(4), of ?old i "memory m'"] that(2,3) by simp
    qed
    ultimately show ?thesis
      using s(1,2,5) new old mem [OF b] room 2 last life_ok_hold_remove by (simp add: served_def res)
  qed
qed

lemma serve_resize_shrink:
  assumes ok: "life_ok a (m, bs)" and b: "b \<in> set bs" and rq: "size_ok sz"
    and last: "last_block (arenas m a) b"
    and lt: "unat sz < snd b"
  shows "served a m bs (R_resize z b sz al)
    (arna_resize commit a sz al (fst b) (of_nat (snd b)) z True m)"
proof -
  note f = block_in_facts [OF life_okD(1) [OF ok] life_okD(2) [OF ok b]]
  have d: "of_nat (snd b) - sz = of_nat (snd b - unat sz)"
    using lt by (simp add: of_nat_diff)
  have "sint sz < sint (of_nat (snd b) :: isize)"
    using f(3) rq lt by (simp add: sint_sizes)
  moreover have "life_ok a (set_arena a (arena_pos_update (\<lambda>p. p - of_nat (snd b - unat sz)) (arenas m a)) m,
      hold (fst b) (unat sz) (remove1 b bs))"
    using lower_position [OF ok b _ last [unfolded last_block_def] refl, of "unat sz"] lt by simp
  ultimately show ?thesis
    using lt last by (simp add: arna_resize_def served_def put_arena_def ret_apply d min_def del: of_nat_diff)
qed

lemma serve_resize_grow:
  assumes ok: "life_ok a (m, bs)" and b: "b \<in> set bs" and rq: "size_ok sz"
    and last_b: "last_block (arenas m a) b"
    and ge: "snd b \<le> unat sz"
  shows "served a m bs (R_resize z b sz al)
    (arna_resize commit a sz al (fst b) (of_nat (snd b)) z True m)"
proof -
  note last = last_b [unfolded last_block_def]
  have inb: "block_in (arenas m a) b" using life_okD(2) [OF ok b] .
  note f = block_in_facts [OF life_okD(1) [OF ok] inb]
  have u: "unat (sz - of_nat (snd b)) = unat sz - snd b"
    using f(3) ge by (simp add: unat_sub word_le_nat_alt)
  have rq': "size_ok (sz - of_nat (snd b))" "align_ok 1"
    using rq u by (auto simp: size_ok_def align_ok_def is_power_of_two_def PAGE_SIZE_def)
  have nlt: "\<not> sint sz < sint (of_nat (snd b) :: isize)"
    using f(3) rq ge by (simp add: sint_sizes)
  obtain r m' where run: "arna_alloc commit a (sz - of_nat (snd b)) 1 z m = (r, m')" by fastforce
  note room = alloc_room [OF life_okD(1) [OF ok] rq' run]
  consider "r = Inr (Inl Out_Of_Memory)" "m' = m" | s where "r = Inr (Inr s)"
    using alloc_step [OF ok rq' run] by blast
  then show ?thesis
  proof cases
    case 1
    then show ?thesis using run nlt ok room(1) last_b ge by (simp add: served_def arna_resize_def ret_apply)
  next
    case 2
    have res: "arna_resize commit a sz al (fst b) (of_nat (snd b)) z True m =
        (Inr (Inr \<lparr>slice_data = fst b, slice_len = sz\<rparr>), m')"
      using run 2 nlt by (simp add: arna_resize_def ret_apply)
    have mem: "load_bytes (memory m') (fst c) (snd c) = load_bytes (memory m) (fst c) (snd c)"
      and bi: "block_in (arenas m' a) c" if "c \<in> set bs" for c
      using alloc_step [OF ok rq' run] 2 life_okD(2) [OF ok that] that by (auto simp: list_all_iff)
    have ao: "arena_ok (arenas m' a)" and top: "unat (fst b) + unat sz \<le> unat (arena_ptr (arenas m' a)) + unat (arena_pos (arenas m' a))"
      using arna.alloc_outcome [OF life_okD(1) [OF ok] _ run] rq' 2 u last ge by auto
    have "apart (fst b) (unat sz) (fst c) (snd c)" if c: "c \<in> set (remove1 b bs)" for c
      using remove1_apart [OF life_okD(3) [OF ok] b c] last ge
        life_okD(2) [OF ok, of c] set_remove1_subset [of b bs] c
      unfolding apart_def block_in_def by fastforce
    moreover have "block_in (arenas m' a) (fst b, unat sz)" if "unat sz \<noteq> 0"
      using that top bi [OF b] by (simp add: block_in_def)
    ultimately have "life_ok a (m', hold (fst b) (unat sz) (remove1 b bs))"
      using ao bi set_remove1_subset [of b bs] blocks_apart_remove1 [OF life_okD(3) [OF ok]]
      by (auto simp: life_ok_def hold_def list_all_iff blocks_apart_Cons)
    moreover have "memory m' (fst b + of_nat i) = 0" if "z" "snd b \<le> i" "i < unat sz" for i
    proof -
      have "arena_ptr (arenas m a) + arena_pos (arenas m a) = fst b + of_nat (snd b)"
        using arg_cong [OF last, of "of_nat :: nat \<Rightarrow> u64"] by simp
      then have at: "slice_data s = fst b + of_nat (snd b)" using room(2) 2 by (simp add: alloc_base_def align_up_def)
      have "memory m' (slice_data s + of_nat (i - snd b)) = 0"
        using run 2 that u by (intro alloc_zeroed [OF life_okD(1) [OF ok] rq', of commit]) simp_all
      then show ?thesis using that(2) by (simp add: at of_nat_diff add.assoc)
    qed
    ultimately show ?thesis
      using mem b ge room(1) 2 last_b by (simp add: served_def res min_def)
  qed
qed

lemma perform_served:
  assumes ok: "life_ok a (m, bs)" and legal: "request_legal bs rq"
  shows "served a m bs rq (perform commit decommit a rq m)"
proof (cases rq)
  case (R_alloc z sz al)
  with legal serve_alloc [OF ok, of sz al z commit] show ?thesis
    by (cases z) (simp_all add: arna_allocator_proc_def get_arena_def)
next
  case (R_resize z b sz al)
  let ?x = "arenas m a"
  have b: "b \<in> set bs" and rq: "size_ok sz" "align_ok al" using R_resize legal by auto
  let ?last = "fst b - arena_ptr ?x = arena_pos ?x - of_nat (snd b)"
  have "perform commit decommit a rq m = arna_resize commit a sz al (fst b) (of_nat (snd b)) z ?last m"
    using R_resize by (cases z) (simp_all add: arna_allocator_proc_def get_arena_def)
  moreover have "?last \<longleftrightarrow> last_block ?x b"
    using last_block_test [OF life_okD(1) [OF ok] life_okD(2) [OF ok b]] unfolding last_block_def .
  ultimately show ?thesis
    using R_resize serve_resize_move [OF ok b rq] serve_resize_shrink [OF ok b rq(1)]
      serve_resize_grow [OF ok b rq(1)]
    by (cases ?last; cases "unat sz < snd b") (simp_all add: not_less)
qed (use legal serve_free serve_write serve_free_all ok in auto)

lemma client_step_life:
  assumes "client_step commit decommit a (m, bs) (m', bs')" "life_ok a (m, bs)"
  shows "life_ok a (m', bs')"
  using assms(1)
proof (rule client_stepE)
  fix rq r
  assume "bs' = held rq r bs" "request_legal bs rq" "perform commit decommit a rq m = (Inr r, m')"
  then show ?thesis
    using perform_served [OF assms(2), of rq commit decommit] by (simp add: served_def)
qed

section \<open>Properties\<close>

text \<open>
  C5: in every state a client reaches from a fresh arena by legal requests, every block it holds lies
  inside the arena's buffer and no two of them share a byte; and every further legal request
  returns, without a panic or undefined behaviour. It fails exactly when the free part of the buffer is too short for it, and then nothing has changed. Otherwise
  it delivers what was asked for: a block of the size, aligned and zeroed as asked; a resized block with its old contents and the rest zeroed
  as asked, where only a block that moves gets the alignment asked for. All other held contents are untouched.
\<close>

theorem arena_blocks_safe:
  assumes "(client_step commit decommit a)\<^sup>*\<^sup>* (m0, []) (m, bs)" "arena_ok (arenas m0 a)"
  shows "list_all (block_in (arenas m a)) bs \<and> blocks_apart bs \<and>
    (\<forall>rq. request_legal bs rq \<longrightarrow> served a m bs rq (perform commit decommit a rq m))"
proof -
  have "life_ok a (m, bs)"
    using assms(1)
  proof (induction rule: rtranclp_induct2)
    case refl
    then show ?case using assms(2) by (simp add: life_ok_def blocks_apart_def)
  next
    case (step m bs m' bs')
    then show ?case by (blast intro: client_step_life)
  qed
  then show ?thesis
    using perform_served by (auto simp: life_ok_def)
qed

theorem arena_blocks_safe_witness:
  "\<exists>m. (client_step (\<lambda>_ _. ret Out_Of_Memory) (\<lambda>_ _. ret ()) 0)\<^sup>*\<^sup>* (sample_machine, []) (m, [(0x1000, 8)]) \<and>
     block_in (arenas m 0) (0x1000, 8) \<and>
     served 0 m [(0x1000, 8)] (R_resize True (0x1000, 8) 16 8)
       (perform (\<lambda>_ _. ret Out_Of_Memory) (\<lambda>_ _. ret ()) 0 (R_resize True (0x1000, 8) 16 8) m)"
proof -
  let ?c = "\<lambda>_ _. ret Out_Of_Memory" and ?d = "\<lambda>_ _. ret ()"
  have ok: "arena_ok (arenas sample_machine 0)"
    by (simp add: arena_ok_def region_ok_def isize_max_def)
  have rq: "size_ok 8" "align_ok 8" "size_ok 16"
    by (simp_all add: size_ok_def align_ok_def is_power_of_two_def PAGE_SIZE_def isize_max_def)
  let ?m = "snd (perform ?c ?d 0 (R_alloc False 8 8) sample_machine)"
  have "perform ?c ?d 0 (R_alloc False 8 8) sample_machine =
      (Inr (Inr \<lparr>slice_data = 0x1000, slice_len = 8\<rparr>), ?m)"
    using rq by (simp add: arna_allocator_proc_def get_arena_def arna_alloc_eq [OF ok] alloc_fits_def
        alloc_slice_def alloc_base_def align_up_def)
  from client_step.step [OF _ this, of "[]"]
  have s: "(client_step ?c ?d 0)\<^sup>*\<^sup>* (sample_machine, []) (?m, [(0x1000, 8)])"
    using rq by (simp add: hold_def)
  have "request_legal [(0x1000, 8)] (R_resize True (0x1000, 8) 16 8)" using rq by simp
  then show ?thesis
    using arena_blocks_safe [OF s ok] s by (intro exI [of _ ?m]) (simp del: perform.simps)
qed

text \<open>
  the end of an allocation is computed with wrap-around: a size near the top of the address space
  passes the capacity test, and the position moves down into blocks that are in use.
\<close>

lemma alloc_size_wraps:
  "\<exists>m'. arna_alloc commit 0 (2 ^ 64 - 8) 1 False (set_arena 0 (sample_arena\<lparr>arena_pos := 16\<rparr>) sample_machine) =
      (Inr (Inr \<lparr>slice_data = 0x1010, slice_len = 2 ^ 64 - 8\<rparr>), m') \<and> arena_pos (arenas m' 0) = 8"
  by (simp add: arna_alloc_def is_power_of_two_def PAGE_SIZE_def get_arena_def put_arena_def align_forward_uint_def
      Let_def ret_apply)

end
