(* ===== verification/Bitfields.thy ===== *)
theory Bitfields
  imports Prelude
begin

text \<open>
  The bit-field structs of \<^verbatim>\<open>sys.rs\<close>: each is a byte array shared with the Odin side and every field
  has a getter and a setter that go through a little-endian 64-bit word. All accessors have one
  shape (\<open>bitfield_get\<close>, \<open>bitfield_set\<close>); the locale \<open>bitfield_struct\<close> states when a
  list of fields is well laid out in a struct of \<open>n\<close> bytes and proves the accessor laws once, and
  every struct of the file interprets it.
\<close>

section \<open>Little-endian words\<close>

primrec from_le_bytes :: "u8 list \<Rightarrow> u64" where
  "from_le_bytes [] = 0"
| "from_le_bytes (b # bs) = ucast b OR push_bit 8 (from_le_bytes bs)"

definition to_le_bytes :: "u64 \<Rightarrow> u8 list" where
  "to_le_bytes x = map (\<lambda>i. ucast (drop_bit (8 * i) x)) [0..<8]"

lemma length_to_le_bytes [simp]: "length (to_le_bytes x) = 8"
  by (simp add: to_le_bytes_def)

lemma bit_from_le_bytes:
  "bit (from_le_bytes bs) k \<longleftrightarrow> k < 64 \<and> k div 8 < length bs \<and> bit (bs ! (k div 8)) (k mod 8)"
proof (induction bs arbitrary: k)
  case Nil
  then show ?case by simp
next
  case (Cons b bs)
  show ?case
  proof (cases "k < 8")
    case True
    then show ?thesis by (simp add: bit_or_iff bit_push_bit_iff bit_ucast_iff)
  next
    case False
    then obtain j where k: "k = j + 8" by (metis add.commute le_add_diff_inverse not_less)
    have b: "\<not> bit (ucast b :: u64) k"
      using False bit_imp_le_length [of b k] by (auto simp: bit_ucast_iff)
    have "k div 8 = Suc (j div 8)" "k mod 8 = j mod 8" using k by simp_all
    then show ?thesis
      using b by (auto simp: bit_or_iff bit_push_bit_iff Cons.IH k)
  qed
qed

lemma bit_to_le_bytes:
  "i < 8 \<Longrightarrow> bit (to_le_bytes x ! i) k \<longleftrightarrow> k < 8 \<and> bit x (8 * i + k)"
  by (auto simp: to_le_bytes_def bit_ucast_iff bit_drop_bit_eq dest: bit_imp_le_length)

text \<open>\<^verbatim>\<open>let mut b = [0; 8]; b[..n].copy_from_slice(&self.bytes)\<close>, on a struct of \<open>n\<close> bytes.\<close>

definition zero_extend8 :: "u8 list \<Rightarrow> u8 list" where
  "zero_extend8 bs = bs @ replicate (8 - length bs) 0"

lemma bit_zero_extend8:
  "length bs \<le> 8 \<Longrightarrow>
   bit (from_le_bytes (zero_extend8 bs)) k \<longleftrightarrow>
     k < 8 * length bs \<and> bit (bs ! (k div 8)) (k mod 8)"
  by (auto simp: bit_from_le_bytes zero_extend8_def nth_append div_less_iff_less_mult
      less_mult_imp_div_less mult.commute)

text \<open>Writing the low \<open>n\<close> bytes of a word and reading them back keeps its low \<open>8 * n\<close> bits.\<close>

lemma bit_truncate_bytes:
  assumes "n \<le> 8"
  shows "bit (from_le_bytes (zero_extend8 (take n (to_le_bytes x)))) k \<longleftrightarrow> k < 8 * n \<and> bit x k"
proof -
  have "k < 8 * n \<Longrightarrow> k div 8 < 8" using assms by auto
  then show ?thesis
    using assms by (auto simp: bit_zero_extend8 bit_to_le_bytes min_def less_mult_imp_div_less mult.commute)
qed

lemma from_to_le_bytes: "from_le_bytes (to_le_bytes x) = x"
proof (rule bit_eqI)
  fix k :: nat
  show "bit (from_le_bytes (to_le_bytes x)) k \<longleftrightarrow> bit x k"
  proof (cases "k < 64")
    case True
    then have "k div 8 < 8" by auto
    with True show ?thesis by (simp add: bit_from_le_bytes bit_to_le_bytes)
  next
    case False
    then show ?thesis by (auto simp: bit_from_le_bytes dest: bit_imp_le_length)
  qed
qed

section \<open>The accessors\<close>

definition bitfield_get :: "nat \<Rightarrow> nat \<Rightarrow> u64 \<Rightarrow> u8 list \<Rightarrow> u64" where
  "bitfield_get n sh m bytes = drop_bit sh (from_le_bytes (zero_extend8 bytes)) AND m"

definition bitfield_set :: "nat \<Rightarrow> nat \<Rightarrow> u64 \<Rightarrow> u8 list \<Rightarrow> u64 \<Rightarrow> u8 list res" where
  "bitfield_set n sh m bytes v =
     (if v \<le> m
      then let bits = (from_le_bytes (zero_extend8 bytes) AND NOT (push_bit sh m)) OR push_bit sh v
           in Inr (take n (to_le_bytes bits))
      else Inl (Panic ''assertion failed: value <= mask''))"

text \<open>A field's largest value, its getter and its setter.\<close>

type_synonym accessor = "u64 \<times> (u8 list \<Rightarrow> u64) \<times> (u8 list \<Rightarrow> u64 \<Rightarrow> u8 list res)"

definition field_accessor :: "nat \<Rightarrow> nat \<times> nat \<Rightarrow> accessor" where
  "field_accessor n = (\<lambda>(sh, w). (mask w, bitfield_get n sh (mask w), bitfield_set n sh (mask w)))"

section \<open>Field layouts\<close>

lemma bit_bitfield_get:
  "bit (bitfield_get n sh (mask w) bytes) k \<longleftrightarrow>
     k < w \<and> bit (from_le_bytes (zero_extend8 bytes)) (sh + k)"
  by (auto simp: bitfield_get_def bit_and_iff bit_drop_bit_eq bit_mask_iff dest: bit_imp_le_length)

lemma bit_le_mask:
  fixes v :: u64
  assumes "v \<le> mask w" "bit v j"
  shows "j < w"
proof -
  have "j < 64" using assms(2) bit_imp_le_length [of v j] by simp
  have "uint v \<le> mask (min 64 w)"
    using assms(1) by (simp add: word_le_def uint_mask_eq)
  then have "uint v < 2 ^ min 64 w" by (simp add: mask_eq_exp_minus_1)
  then have "take_bit (min 64 w) (uint v) = uint v" by (simp add: take_bit_int_eq_self)
  moreover have "bit (uint v) j" using assms(2) \<open>j < 64\<close> by (simp add: bit_unsigned_iff)
  ultimately have "j < min 64 w" by (metis bit_take_bit_iff)
  then show ?thesis by simp
qed

lemma bit_bitfield_set:
  assumes "n \<le> 8" "sh + w \<le> 8 * n" "v \<le> mask w"
    and "bitfield_set n sh (mask w) bytes v = Inr bytes'"
  shows "bit (from_le_bytes (zero_extend8 bytes')) k \<longleftrightarrow>
    k < 8 * n \<and> (if sh \<le> k \<and> k < sh + w then bit v (k - sh)
                else bit (from_le_bytes (zero_extend8 bytes)) k)"
proof -
  have "bytes' = take n (to_le_bytes
    ((from_le_bytes (zero_extend8 bytes) AND NOT (push_bit sh (mask w))) OR push_bit sh v))"
    using assms(3,4) by (simp add: bitfield_set_def Let_def)
  then show ?thesis
    using assms(1,2) bit_le_mask [OF assms(3), of "k - sh"]
    by (auto simp: bit_truncate_bytes bit_or_iff bit_and_iff bit_not_iff bit_push_bit_iff
        bit_mask_iff dest: bit_imp_le_length)
qed

text \<open>
  A struct of \<open>n\<close> bytes whose fields, given by shift and width, are in ascending order, do not
  overlap and end within the struct.
\<close>

locale bitfield_struct =
  fixes n :: nat and fields :: "(nat \<times> nat) list"
  assumes small: "n \<le> 8"
    and fits: "list_all (\<lambda>(sh, w). sh + w \<le> 8 * n) fields"
    and apart: "sorted_wrt (\<lambda>(sh, w) (sh', w'). sh + w \<le> sh') fields"
begin

lemma fields_apart:
  assumes "i < length fields" "j < length fields" "i \<noteq> j"
    and "fields ! i = (sh, w)" "fields ! j = (sh', w')"
  shows "sh + w \<le> sh' \<or> sh' + w' \<le> sh"
  using assms apart sorted_wrt_nth_less [OF apart, of i j] sorted_wrt_nth_less [OF apart, of j i]
  by (cases i j rule: linorder_cases) auto

lemma field_fits: "i < length fields \<Longrightarrow> fields ! i = (sh, w) \<Longrightarrow> sh + w \<le> 8 * n"
  using fits by (auto simp: list_all_length split: prod.splits)

lemma accessor_bound:
  "i < length fields \<Longrightarrow> map (field_accessor n) fields ! i = (m, get, put) \<Longrightarrow> get bytes \<le> m"
  by (auto simp: field_accessor_def bitfield_get_def word_and_le1 split: prod.splits)

lemma accessor_laws:
  assumes i: "i < length fields" and len: "length bytes = n"
    and acc: "map (field_accessor n) fields ! i = (m, get, put)"
  shows "v \<le> m \<longrightarrow> (\<exists>bytes'. put bytes v = Inr bytes' \<and> length bytes' = n \<and> get bytes' = v \<and>
      (\<forall>j < length fields. j \<noteq> i \<longrightarrow>
        fst (snd (map (field_accessor n) fields ! j)) bytes' =
        fst (snd (map (field_accessor n) fields ! j)) bytes))"
    and "\<not> v \<le> m \<longrightarrow> put bytes v = Inl (Panic ''assertion failed: value <= mask'')"
proof -
  obtain sh w where f: "fields ! i = (sh, w)" by force
  then have eq: "m = mask w" "get = bitfield_get n sh (mask w)" "put = bitfield_set n sh (mask w)"
    using acc i by (auto simp: field_accessor_def)
  have fit: "sh + w \<le> 8 * n" using field_fits [OF i f] .
  show "\<not> v \<le> m \<longrightarrow> put bytes v = Inl (Panic ''assertion failed: value <= mask'')"
    by (simp add: eq bitfield_set_def)
  show "v \<le> m \<longrightarrow> (\<exists>bytes'. put bytes v = Inr bytes' \<and> length bytes' = n \<and> get bytes' = v \<and>
      (\<forall>j < length fields. j \<noteq> i \<longrightarrow>
        fst (snd (map (field_accessor n) fields ! j)) bytes' =
        fst (snd (map (field_accessor n) fields ! j)) bytes))"
  proof
    assume v: "v \<le> m"
    then obtain bytes' where s: "put bytes v = Inr bytes'" "length bytes' = n"
      using small by (auto simp: eq bitfield_set_def Let_def)
    note bits = bit_bitfield_set [OF small fit, of v bytes bytes', folded eq, OF v s(1)]
    have "get bytes' = v"
    proof (rule bit_eqI)
      fix k
      have "bit v k \<Longrightarrow> k < w"
        using v bit_le_mask unfolding eq by blast
      then show "bit (get bytes') k \<longleftrightarrow> bit v k"
        using fit bits [of "sh + k"] by (auto simp: eq bit_bitfield_get)
    qed
    moreover have "bitfield_get n sh' (mask w') bytes' = bitfield_get n sh' (mask w') bytes"
      if j: "j < length fields" "j \<noteq> i" "fields ! j = (sh', w')" for j sh' w'
    proof (rule bit_eqI)
      fix k
      have "sh + w \<le> sh' \<or> sh' + w' \<le> sh"
        using fields_apart [OF i j(1) _ f j(3)] j(2) by blast
      moreover have "sh' + w' \<le> 8 * n" using field_fits [OF j(1,3)] .
      ultimately show "bit (bitfield_get n sh' (mask w') bytes') k \<longleftrightarrow>
          bit (bitfield_get n sh' (mask w') bytes) k"
        using bits [of "sh' + k"] by (auto simp: bit_bitfield_get)
    qed
    ultimately show "\<exists>bytes'. put bytes v = Inr bytes' \<and> length bytes' = n \<and> get bytes' = v \<and>
      (\<forall>j < length fields. j \<noteq> i \<longrightarrow>
        fst (snd (map (field_accessor n) fields ! j)) bytes' =
        fst (snd (map (field_accessor n) fields ! j)) bytes)"
      using s by (auto simp: field_accessor_def split: prod.splits)
  qed
qed

end

section \<open>The structs\<close>

subsection \<open>\<^verbatim>\<open>Sloc\<close>\<close>

type_synonym Sloc = "u8 list"

definition Sloc_file :: "Sloc \<Rightarrow> u64" where
  "Sloc_file self = bitfield_get 8 0 1048575 self"

definition Sloc_set_file :: "Sloc \<Rightarrow> u64 \<Rightarrow> Sloc res" where
  "Sloc_set_file self v = bitfield_set 8 0 1048575 self v"

definition Sloc_line :: "Sloc \<Rightarrow> u64" where
  "Sloc_line self = bitfield_get 8 20 1048575 self"

definition Sloc_set_line :: "Sloc \<Rightarrow> u64 \<Rightarrow> Sloc res" where
  "Sloc_set_line self v = bitfield_set 8 20 1048575 self v"

definition Sloc_col :: "Sloc \<Rightarrow> u64" where
  "Sloc_col self = bitfield_get 8 40 65535 self"

definition Sloc_set_col :: "Sloc \<Rightarrow> u64 \<Rightarrow> Sloc res" where
  "Sloc_set_col self v = bitfield_set 8 40 65535 self v"

definition Sloc_range :: "Sloc \<Rightarrow> u64" where
  "Sloc_range self = bitfield_get 8 56 255 self"

definition Sloc_set_range :: "Sloc \<Rightarrow> u64 \<Rightarrow> Sloc res" where
  "Sloc_set_range self v = bitfield_set 8 56 255 self v"

definition Sloc_accessors :: "accessor list" where
  "Sloc_accessors =
     [(1048575, Sloc_file, Sloc_set_file),
      (1048575, Sloc_line, Sloc_set_line),
      (65535, Sloc_col, Sloc_set_col),
      (255, Sloc_range, Sloc_set_range)]"

subsection \<open>\<^verbatim>\<open>Reg\<close>\<close>

type_synonym Reg = "u8 list"

definition Reg_index :: "Reg \<Rightarrow> u64" where
  "Reg_index self = bitfield_get 2 0 4095 self"

definition Reg_set_index :: "Reg \<Rightarrow> u64 \<Rightarrow> Reg res" where
  "Reg_set_index self v = bitfield_set 2 0 4095 self v"

definition Reg_kind :: "Reg \<Rightarrow> u64" where
  "Reg_kind self = bitfield_get 2 12 15 self"

definition Reg_set_kind :: "Reg \<Rightarrow> u64 \<Rightarrow> Reg res" where
  "Reg_set_kind self v = bitfield_set 2 12 15 self v"

definition Reg_accessors :: "accessor list" where
  "Reg_accessors =
     [(4095, Reg_index, Reg_set_index),
      (15, Reg_kind, Reg_set_kind)]"

subsection \<open>\<^verbatim>\<open>Node_Output\<close>\<close>

type_synonym Node_Output = "u8 list"

definition Node_Output_id :: "Node_Output \<Rightarrow> u64" where
  "Node_Output_id self = bitfield_get 4 0 4194303 self"

definition Node_Output_set_id :: "Node_Output \<Rightarrow> u64 \<Rightarrow> Node_Output res" where
  "Node_Output_set_id self v = bitfield_set 4 0 4194303 self v"

definition Node_Output_idx :: "Node_Output \<Rightarrow> u64" where
  "Node_Output_idx self = bitfield_get 4 22 1023 self"

definition Node_Output_set_idx :: "Node_Output \<Rightarrow> u64 \<Rightarrow> Node_Output res" where
  "Node_Output_set_idx self v = bitfield_set 4 22 1023 self v"

definition Node_Output_accessors :: "accessor list" where
  "Node_Output_accessors =
     [(4194303, Node_Output_id, Node_Output_set_id),
      (1023, Node_Output_idx, Node_Output_set_idx)]"

subsection \<open>\<^verbatim>\<open>Node_gvn_group\<close>\<close>

type_synonym Node_gvn_group = "u8 list"

definition Node_gvn_group_gvn :: "Node_gvn_group \<Rightarrow> u64" where
  "Node_gvn_group_gvn self = bitfield_get 4 0 67108863 self"

definition Node_gvn_group_set_gvn :: "Node_gvn_group \<Rightarrow> u64 \<Rightarrow> Node_gvn_group res" where
  "Node_gvn_group_set_gvn self v = bitfield_set 4 0 67108863 self v"

definition Node_gvn_group_extra_dwords :: "Node_gvn_group \<Rightarrow> u64" where
  "Node_gvn_group_extra_dwords self = bitfield_get 4 26 15 self"

definition Node_gvn_group_set_extra_dwords :: "Node_gvn_group \<Rightarrow> u64 \<Rightarrow> Node_gvn_group res" where
  "Node_gvn_group_set_extra_dwords self v = bitfield_set 4 26 15 self v"

definition Node_gvn_group_must_spill :: "Node_gvn_group \<Rightarrow> u64" where
  "Node_gvn_group_must_spill self = bitfield_get 4 30 1 self"

definition Node_gvn_group_set_must_spill :: "Node_gvn_group \<Rightarrow> u64 \<Rightarrow> Node_gvn_group res" where
  "Node_gvn_group_set_must_spill self v = bitfield_set 4 30 1 self v"

definition Node_gvn_group_accessors :: "accessor list" where
  "Node_gvn_group_accessors =
     [(67108863, Node_gvn_group_gvn, Node_gvn_group_set_gvn),
      (15, Node_gvn_group_extra_dwords, Node_gvn_group_set_extra_dwords),
      (1, Node_gvn_group_must_spill, Node_gvn_group_set_must_spill)]"

subsection \<open>\<^verbatim>\<open>Call_flags\<close>\<close>

type_synonym Call_flags = "u8 list"

definition Call_flags_ccid :: "Call_flags \<Rightarrow> u64" where
  "Call_flags_ccid self = bitfield_get 4 0 67108863 self"

definition Call_flags_set_ccid :: "Call_flags \<Rightarrow> u64 \<Rightarrow> Call_flags res" where
  "Call_flags_set_ccid self v = bitfield_set 4 0 67108863 self v"

definition Call_flags_ret_count :: "Call_flags \<Rightarrow> u64" where
  "Call_flags_ret_count self = bitfield_get 4 26 15 self"

definition Call_flags_set_ret_count :: "Call_flags \<Rightarrow> u64 \<Rightarrow> Call_flags res" where
  "Call_flags_set_ret_count self v = bitfield_set 4 26 15 self v"

definition Call_flags_imported :: "Call_flags \<Rightarrow> u64" where
  "Call_flags_imported self = bitfield_get 4 30 1 self"

definition Call_flags_set_imported :: "Call_flags \<Rightarrow> u64 \<Rightarrow> Call_flags res" where
  "Call_flags_set_imported self v = bitfield_set 4 30 1 self v"

definition Call_flags_accessors :: "accessor list" where
  "Call_flags_accessors =
     [(67108863, Call_flags_ccid, Call_flags_set_ccid),
      (15, Call_flags_ret_count, Call_flags_set_ret_count),
      (1, Call_flags_imported, Call_flags_set_imported)]"

subsection \<open>\<^verbatim>\<open>Lattice_meta\<close>\<close>

type_synonym Lattice_meta = "u8 list"

definition Lattice_meta_type :: "Lattice_meta \<Rightarrow> u64" where
  "Lattice_meta_type self = bitfield_get 8 0 15 self"

definition Lattice_meta_set_type :: "Lattice_meta \<Rightarrow> u64 \<Rightarrow> Lattice_meta res" where
  "Lattice_meta_set_type self v = bitfield_set 8 0 15 self v"

definition Lattice_meta_is_not_nan :: "Lattice_meta \<Rightarrow> u64" where
  "Lattice_meta_is_not_nan self = bitfield_get 8 4 1 self"

definition Lattice_meta_set_is_not_nan :: "Lattice_meta \<Rightarrow> u64 \<Rightarrow> Lattice_meta res" where
  "Lattice_meta_set_is_not_nan self v = bitfield_set 8 4 1 self v"

definition Lattice_meta_is_not_ninf :: "Lattice_meta \<Rightarrow> u64" where
  "Lattice_meta_is_not_ninf self = bitfield_get 8 5 1 self"

definition Lattice_meta_set_is_not_ninf :: "Lattice_meta \<Rightarrow> u64 \<Rightarrow> Lattice_meta res" where
  "Lattice_meta_set_is_not_ninf self v = bitfield_set 8 5 1 self v"

definition Lattice_meta_is_not_pinf :: "Lattice_meta \<Rightarrow> u64" where
  "Lattice_meta_is_not_pinf self = bitfield_get 8 6 1 self"

definition Lattice_meta_set_is_not_pinf :: "Lattice_meta \<Rightarrow> u64 \<Rightarrow> Lattice_meta res" where
  "Lattice_meta_set_is_not_pinf self v = bitfield_set 8 6 1 self v"

definition Lattice_meta_is_not_zero :: "Lattice_meta \<Rightarrow> u64" where
  "Lattice_meta_is_not_zero self = bitfield_get 8 7 1 self"

definition Lattice_meta_set_is_not_zero :: "Lattice_meta \<Rightarrow> u64 \<Rightarrow> Lattice_meta res" where
  "Lattice_meta_set_is_not_zero self v = bitfield_set 8 7 1 self v"

definition Lattice_meta_is_nan :: "Lattice_meta \<Rightarrow> u64" where
  "Lattice_meta_is_nan self = bitfield_get 8 8 1 self"

definition Lattice_meta_set_is_nan :: "Lattice_meta \<Rightarrow> u64 \<Rightarrow> Lattice_meta res" where
  "Lattice_meta_set_is_nan self v = bitfield_set 8 8 1 self v"

definition Lattice_meta_dead :: "Lattice_meta \<Rightarrow> u64" where
  "Lattice_meta_dead self = bitfield_get 8 9 1 self"

definition Lattice_meta_set_dead :: "Lattice_meta \<Rightarrow> u64 \<Rightarrow> Lattice_meta res" where
  "Lattice_meta_set_dead self v = bitfield_set 8 9 1 self v"

definition Lattice_meta_widens :: "Lattice_meta \<Rightarrow> u64" where
  "Lattice_meta_widens self = bitfield_get 8 10 7 self"

definition Lattice_meta_set_widens :: "Lattice_meta \<Rightarrow> u64 \<Rightarrow> Lattice_meta res" where
  "Lattice_meta_set_widens self v = bitfield_set 8 10 7 self v"

definition Lattice_meta_accessors :: "accessor list" where
  "Lattice_meta_accessors =
     [(15, Lattice_meta_type, Lattice_meta_set_type),
      (1, Lattice_meta_is_not_nan, Lattice_meta_set_is_not_nan),
      (1, Lattice_meta_is_not_ninf, Lattice_meta_set_is_not_ninf),
      (1, Lattice_meta_is_not_pinf, Lattice_meta_set_is_not_pinf),
      (1, Lattice_meta_is_not_zero, Lattice_meta_set_is_not_zero),
      (1, Lattice_meta_is_nan, Lattice_meta_set_is_nan),
      (1, Lattice_meta_dead, Lattice_meta_set_dead),
      (7, Lattice_meta_widens, Lattice_meta_set_widens)]"

subsection \<open>\<^verbatim>\<open>Lib_Call\<close>\<close>

type_synonym Lib_Call = "u8 list"

definition Lib_Call_id :: "Lib_Call \<Rightarrow> u64" where
  "Lib_Call_id self = bitfield_get 4 0 2147483647 self"

definition Lib_Call_set_id :: "Lib_Call \<Rightarrow> u64 \<Rightarrow> Lib_Call res" where
  "Lib_Call_set_id self v = bitfield_set 4 0 2147483647 self v"

definition Lib_Call_absolute :: "Lib_Call \<Rightarrow> u64" where
  "Lib_Call_absolute self = bitfield_get 4 31 1 self"

definition Lib_Call_set_absolute :: "Lib_Call \<Rightarrow> u64 \<Rightarrow> Lib_Call res" where
  "Lib_Call_set_absolute self v = bitfield_set 4 31 1 self v"

definition Lib_Call_accessors :: "accessor list" where
  "Lib_Call_accessors =
     [(2147483647, Lib_Call_id, Lib_Call_set_id),
      (1, Lib_Call_absolute, Lib_Call_set_absolute)]"

subsection \<open>\<^verbatim>\<open>Node_spec_meta\<close>\<close>

type_synonym Node_spec_meta = "u8 list"

definition Node_spec_meta_dt :: "Node_spec_meta \<Rightarrow> u64" where
  "Node_spec_meta_dt self = bitfield_get 2 0 15 self"

definition Node_spec_meta_set_dt :: "Node_spec_meta \<Rightarrow> u64 \<Rightarrow> Node_spec_meta res" where
  "Node_spec_meta_set_dt self v = bitfield_set 2 0 15 self v"

definition Node_spec_meta_is_store :: "Node_spec_meta \<Rightarrow> u64" where
  "Node_spec_meta_is_store self = bitfield_get 2 4 1 self"

definition Node_spec_meta_set_is_store :: "Node_spec_meta \<Rightarrow> u64 \<Rightarrow> Node_spec_meta res" where
  "Node_spec_meta_set_is_store self v = bitfield_set 2 4 1 self v"

definition Node_spec_meta_is_load :: "Node_spec_meta \<Rightarrow> u64" where
  "Node_spec_meta_is_load self = bitfield_get 2 5 1 self"

definition Node_spec_meta_set_is_load :: "Node_spec_meta \<Rightarrow> u64 \<Rightarrow> Node_spec_meta res" where
  "Node_spec_meta_set_is_load self v = bitfield_set 2 5 1 self v"

definition Node_spec_meta_mem_alignment_pow :: "Node_spec_meta \<Rightarrow> u64" where
  "Node_spec_meta_mem_alignment_pow self = bitfield_get 2 6 7 self"

definition Node_spec_meta_set_mem_alignment_pow :: "Node_spec_meta \<Rightarrow> u64 \<Rightarrow> Node_spec_meta res" where
  "Node_spec_meta_set_mem_alignment_pow self v = bitfield_set 2 6 7 self v"

definition Node_spec_meta_lane :: "Node_spec_meta \<Rightarrow> u64" where
  "Node_spec_meta_lane self = bitfield_get 2 9 7 self"

definition Node_spec_meta_set_lane :: "Node_spec_meta \<Rightarrow> u64 \<Rightarrow> Node_spec_meta res" where
  "Node_spec_meta_set_lane self v = bitfield_set 2 9 7 self v"

definition Node_spec_meta_accessors :: "accessor list" where
  "Node_spec_meta_accessors =
     [(15, Node_spec_meta_dt, Node_spec_meta_set_dt),
      (1, Node_spec_meta_is_store, Node_spec_meta_set_is_store),
      (1, Node_spec_meta_is_load, Node_spec_meta_set_is_load),
      (7, Node_spec_meta_mem_alignment_pow, Node_spec_meta_set_mem_alignment_pow),
      (7, Node_spec_meta_lane, Node_spec_meta_set_lane)]"

subsection \<open>\<^verbatim>\<open>Reloc_field_1\<close>\<close>

type_synonym Reloc_field_1 = "u8 list"

definition Reloc_field_1_kind :: "Reloc_field_1 \<Rightarrow> u64" where
  "Reloc_field_1_kind self = bitfield_get 4 0 3 self"

definition Reloc_field_1_set_kind :: "Reloc_field_1 \<Rightarrow> u64 \<Rightarrow> Reloc_field_1 res" where
  "Reloc_field_1_set_kind self v = bitfield_set 4 0 3 self v"

definition Reloc_field_1_size :: "Reloc_field_1 \<Rightarrow> u64" where
  "Reloc_field_1_size self = bitfield_get 4 2 3 self"

definition Reloc_field_1_set_size :: "Reloc_field_1 \<Rightarrow> u64 \<Rightarrow> Reloc_field_1 res" where
  "Reloc_field_1_set_size self v = bitfield_set 4 2 3 self v"

definition Reloc_field_1_scale_pow :: "Reloc_field_1 \<Rightarrow> u64" where
  "Reloc_field_1_scale_pow self = bitfield_get 4 4 3 self"

definition Reloc_field_1_set_scale_pow :: "Reloc_field_1 \<Rightarrow> u64 \<Rightarrow> Reloc_field_1 res" where
  "Reloc_field_1_set_scale_pow self v = bitfield_set 4 4 3 self v"

definition Reloc_field_1_id :: "Reloc_field_1 \<Rightarrow> u64" where
  "Reloc_field_1_id self = bitfield_get 4 6 67108863 self"

definition Reloc_field_1_set_id :: "Reloc_field_1 \<Rightarrow> u64 \<Rightarrow> Reloc_field_1 res" where
  "Reloc_field_1_set_id self v = bitfield_set 4 6 67108863 self v"

definition Reloc_field_1_accessors :: "accessor list" where
  "Reloc_field_1_accessors =
     [(3, Reloc_field_1_kind, Reloc_field_1_set_kind),
      (3, Reloc_field_1_size, Reloc_field_1_set_size),
      (3, Reloc_field_1_scale_pow, Reloc_field_1_set_scale_pow),
      (67108863, Reloc_field_1_id, Reloc_field_1_set_id)]"

section \<open>Each struct is well laid out\<close>

interpretation sloc: bitfield_struct 8 "[(0, 20), (20, 20), (40, 16), (56, 8)]"
  by unfold_locales simp_all

lemma Sloc_accessors_eq:
  "Sloc_accessors = map (field_accessor 8) [(0, 20), (20, 20), (40, 16), (56, 8)]"
  by (simp add: Sloc_accessors_def field_accessor_def fun_eq_iff mask_eq_exp_minus_1
    Sloc_file_def Sloc_set_file_def Sloc_line_def Sloc_set_line_def Sloc_col_def Sloc_set_col_def Sloc_range_def Sloc_set_range_def)

interpretation reg: bitfield_struct 2 "[(0, 12), (12, 4)]"
  by unfold_locales simp_all

lemma Reg_accessors_eq:
  "Reg_accessors = map (field_accessor 2) [(0, 12), (12, 4)]"
  by (simp add: Reg_accessors_def field_accessor_def fun_eq_iff mask_eq_exp_minus_1
    Reg_index_def Reg_set_index_def Reg_kind_def Reg_set_kind_def)

interpretation node_output: bitfield_struct 4 "[(0, 22), (22, 10)]"
  by unfold_locales simp_all

lemma Node_Output_accessors_eq:
  "Node_Output_accessors = map (field_accessor 4) [(0, 22), (22, 10)]"
  by (simp add: Node_Output_accessors_def field_accessor_def fun_eq_iff mask_eq_exp_minus_1
    Node_Output_id_def Node_Output_set_id_def Node_Output_idx_def Node_Output_set_idx_def)

interpretation node_gvn_group: bitfield_struct 4 "[(0, 26), (26, 4), (30, 1)]"
  by unfold_locales simp_all

lemma Node_gvn_group_accessors_eq:
  "Node_gvn_group_accessors = map (field_accessor 4) [(0, 26), (26, 4), (30, 1)]"
  by (simp add: Node_gvn_group_accessors_def field_accessor_def fun_eq_iff mask_eq_exp_minus_1
    Node_gvn_group_gvn_def Node_gvn_group_set_gvn_def Node_gvn_group_extra_dwords_def Node_gvn_group_set_extra_dwords_def Node_gvn_group_must_spill_def Node_gvn_group_set_must_spill_def)

text \<open>\<^verbatim>\<open>Call_flags\<close> has the layout of \<^verbatim>\<open>Node_gvn_group\<close>.\<close>

lemma Call_flags_accessors_eq:
  "Call_flags_accessors = map (field_accessor 4) [(0, 26), (26, 4), (30, 1)]"
  by (simp add: Call_flags_accessors_def field_accessor_def fun_eq_iff mask_eq_exp_minus_1
    Call_flags_ccid_def Call_flags_set_ccid_def Call_flags_ret_count_def Call_flags_set_ret_count_def Call_flags_imported_def Call_flags_set_imported_def)

interpretation lattice_meta: bitfield_struct 8 "[(0, 4), (4, 1), (5, 1), (6, 1), (7, 1), (8, 1), (9, 1), (10, 3)]"
  by unfold_locales simp_all

lemma Lattice_meta_accessors_eq:
  "Lattice_meta_accessors = map (field_accessor 8) [(0, 4), (4, 1), (5, 1), (6, 1), (7, 1), (8, 1), (9, 1), (10, 3)]"
  by (simp add: Lattice_meta_accessors_def field_accessor_def fun_eq_iff mask_eq_exp_minus_1
    Lattice_meta_type_def Lattice_meta_set_type_def Lattice_meta_is_not_nan_def Lattice_meta_set_is_not_nan_def Lattice_meta_is_not_ninf_def Lattice_meta_set_is_not_ninf_def Lattice_meta_is_not_pinf_def Lattice_meta_set_is_not_pinf_def Lattice_meta_is_not_zero_def Lattice_meta_set_is_not_zero_def Lattice_meta_is_nan_def Lattice_meta_set_is_nan_def Lattice_meta_dead_def Lattice_meta_set_dead_def Lattice_meta_widens_def Lattice_meta_set_widens_def)

interpretation lib_call: bitfield_struct 4 "[(0, 31), (31, 1)]"
  by unfold_locales simp_all

lemma Lib_Call_accessors_eq:
  "Lib_Call_accessors = map (field_accessor 4) [(0, 31), (31, 1)]"
  by (simp add: Lib_Call_accessors_def field_accessor_def fun_eq_iff mask_eq_exp_minus_1
    Lib_Call_id_def Lib_Call_set_id_def Lib_Call_absolute_def Lib_Call_set_absolute_def)

interpretation node_spec_meta: bitfield_struct 2 "[(0, 4), (4, 1), (5, 1), (6, 3), (9, 3)]"
  by unfold_locales simp_all

lemma Node_spec_meta_accessors_eq:
  "Node_spec_meta_accessors = map (field_accessor 2) [(0, 4), (4, 1), (5, 1), (6, 3), (9, 3)]"
  by (simp add: Node_spec_meta_accessors_def field_accessor_def fun_eq_iff mask_eq_exp_minus_1
    Node_spec_meta_dt_def Node_spec_meta_set_dt_def Node_spec_meta_is_store_def Node_spec_meta_set_is_store_def Node_spec_meta_is_load_def Node_spec_meta_set_is_load_def Node_spec_meta_mem_alignment_pow_def Node_spec_meta_set_mem_alignment_pow_def Node_spec_meta_lane_def Node_spec_meta_set_lane_def)

interpretation reloc_field_1: bitfield_struct 4 "[(0, 2), (2, 2), (4, 2), (6, 26)]"
  by unfold_locales simp_all

lemma Reloc_field_1_accessors_eq:
  "Reloc_field_1_accessors = map (field_accessor 4) [(0, 2), (2, 2), (4, 2), (6, 26)]"
  by (simp add: Reloc_field_1_accessors_def field_accessor_def fun_eq_iff mask_eq_exp_minus_1
    Reloc_field_1_kind_def Reloc_field_1_set_kind_def Reloc_field_1_size_def Reloc_field_1_set_size_def Reloc_field_1_scale_pow_def Reloc_field_1_set_scale_pow_def Reloc_field_1_id_def Reloc_field_1_set_id_def)

definition bitfield_structs :: "(string \<times> nat \<times> accessor list) list" where
  "bitfield_structs =
     [(''Sloc'', 8, Sloc_accessors),
      (''Reg'', 2, Reg_accessors),
      (''Node_Output'', 4, Node_Output_accessors),
      (''Node_gvn_group'', 4, Node_gvn_group_accessors),
      (''Call_flags'', 4, Call_flags_accessors),
      (''Lattice_meta'', 8, Lattice_meta_accessors),
      (''Lib_Call'', 4, Lib_Call_accessors),
      (''Node_spec_meta'', 2, Node_spec_meta_accessors),
      (''Reloc_field_1'', 4, Reloc_field_1_accessors)]"


lemmas accessors_eq =
  Sloc_accessors_eq Reg_accessors_eq Node_Output_accessors_eq Node_gvn_group_accessors_eq
  Call_flags_accessors_eq Lattice_meta_accessors_eq Lib_Call_accessors_eq
  Node_spec_meta_accessors_eq Reloc_field_1_accessors_eq

lemmas struct_axioms =
  sloc.bitfield_struct_axioms reg.bitfield_struct_axioms node_output.bitfield_struct_axioms
  node_gvn_group.bitfield_struct_axioms lattice_meta.bitfield_struct_axioms
  lib_call.bitfield_struct_axioms node_spec_meta.bitfield_struct_axioms
  reloc_field_1.bitfield_struct_axioms

lemma bitfield_structs_interpreted:
  "list_all (\<lambda>(name, n, acc). \<exists>fields. acc = map (field_accessor n) fields \<and> bitfield_struct n fields)
     bitfield_structs"
  unfolding bitfield_structs_def accessors_eq list.pred_inject prod.case
  by (intro conjI exI, (rule refl struct_axioms)+) simp

section \<open>Properties\<close>

text \<open>
  C19: for every bit-field struct of the bindings and every field of it, the setter panics exactly
  on a value too large for the field; otherwise the getter returns the value that was set, every
  other field of the struct reads as before, and the struct keeps its size.
\<close>

theorem bitfield_accessors_lawful:
  assumes "(name, n, acc) \<in> set bitfield_structs" and "i < length acc" and "length bytes = n"
    and "acc ! i = (m, get, put)"
  shows "get bytes \<le> m \<and>
    (m < v \<longrightarrow> put bytes v = Inl (Panic ''assertion failed: value <= mask'')) \<and>
    (v \<le> m \<longrightarrow> (\<exists>bytes'. put bytes v = Inr bytes' \<and> length bytes' = n \<and> get bytes' = v \<and>
      (\<forall>j < length acc. j \<noteq> i \<longrightarrow> fst (snd (acc ! j)) bytes' = fst (snd (acc ! j)) bytes)))"
proof -
  obtain fields where f: "bitfield_struct n fields" "acc = map (field_accessor n) fields"
    using assms(1) bitfield_structs_interpreted by (auto simp: list_all_iff)
  note laws = bitfield_struct.accessor_laws [OF f(1), of i bytes m get put v]
  show ?thesis
    using laws bitfield_struct.accessor_bound [OF f(1), of i m get put bytes] assms f(2)
    by (auto simp: not_le)
qed

theorem bitfield_accessors_lawful_witness:
  "\<exists>bytes'. Call_flags_set_ret_count [1, 0, 0, 64] 4 = Inr bytes' \<and> length bytes' = 4 \<and>
    Call_flags_ret_count bytes' = 4 \<and> Call_flags_ccid bytes' = 1 \<and> Call_flags_imported bytes' = 1"
proof -
  have "(''Call_flags'', 4, Call_flags_accessors) \<in> set bitfield_structs"
    by (simp add: bitfield_structs_def)
  from bitfield_accessors_lawful [OF this, of 1 "[1, 0, 0, 64]" 15 Call_flags_ret_count
      Call_flags_set_ret_count 4]
  obtain bytes' where b: "Call_flags_set_ret_count [1, 0, 0, 64] 4 = Inr bytes'" "length bytes' = 4"
      "Call_flags_ret_count bytes' = 4"
    and rest: "\<forall>j < 3. j \<noteq> 1 \<longrightarrow> fst (snd (Call_flags_accessors ! j)) bytes' =
      fst (snd (Call_flags_accessors ! j)) [1, 0, 0, 64]"
    by (auto simp: Call_flags_accessors_def)
  have "Call_flags_ccid bytes' = Call_flags_ccid [1, 0, 0, 64]"
    using rest [rule_format, of 0] by (simp add: Call_flags_accessors_def)
  moreover have "Call_flags_imported bytes' = Call_flags_imported [1, 0, 0, 64]"
    using rest [rule_format, of 2] by (simp add: Call_flags_accessors_def)
  moreover have "Call_flags_ccid [1, 0, 0, 64] = 1" "Call_flags_imported [1, 0, 0, 64] = 1"
    by code_simp+
  ultimately show ?thesis using b by auto
qed

end
