(* ===== verification/Fixed_Cap.thy ===== *)
theory Fixed_Cap
  imports Prelude
begin

text \<open>
  The fixed-capacity array \<^verbatim>\<open>FixedCapDynArray<LEN, T>\<close> of \<^verbatim>\<open>fixed_cap_dyn_array.rs\<close>: \<open>LEN\<close> slots of
  possibly uninitialised memory and a signed length, laid out so that the Odin side can share
  it. A slot is \<open>None\<close> while it is \<^verbatim>\<open>MaybeUninit::uninit()\<close>; reading such a slot as a value is
  \<open>Ub\<close>. The interface \<open>bounded_stack\<close> states what the array promises to its clients
  (\<^verbatim>\<open>From<[T; N]>\<close> here, \<^verbatim>\<open>AbiParam::new\<close> later) and the array is shown to implement it.
\<close>

section \<open>The array\<close>

record 'a FixedCapDynArray =
  fca_data :: "'a option list"
  fca_len :: isize

type_synonym ('a, 'r) fca_prog = "('a FixedCapDynArray, 'r) prog"

text \<open>\<^verbatim>\<open>LEN\<close> is a const generic: an argument of every operation, equal to the number of slots.\<close>

definition FixedCapDynArray_new :: "nat \<Rightarrow> 'a FixedCapDynArray res" where
  "FixedCapDynArray_new LEN =
     (if LEN \<le> isize_max
      then Inr \<lparr>fca_data = replicate LEN None, fca_len = 0\<rparr>
      else Inl (Panic ''assertion failed: LEN <= isize::MAX as usize''))"

definition FixedCapDynArray_len :: "nat \<Rightarrow> ('a, nat) fca_prog" where
  "FixedCapDynArray_len LEN =
     bindM (getM fca_len) (\<lambda>l.
     bindM (assertM (0 \<le> sint l \<and> unat l \<le> LEN)
              ''assertion failed: self.len >= 0 && self.len as usize <= LEN'') (\<lambda>_.
     ret (unat l)))"

definition FixedCapDynArray_is_empty :: "nat \<Rightarrow> ('a, bool) fca_prog" where
  "FixedCapDynArray_is_empty LEN =
     bindM (FixedCapDynArray_len LEN) (\<lambda>n. ret (n = 0))"

definition FixedCapDynArray_push :: "nat \<Rightarrow> 'a \<Rightarrow> ('a, unit) fca_prog" where
  "FixedCapDynArray_push LEN v =
     bindM (FixedCapDynArray_len LEN) (\<lambda>n.
     bindM (assertM (n < LEN) ''fixed-capacity array is full'') (\<lambda>_.
     bindM (modifyM (\<lambda>a. a\<lparr>fca_data := (fca_data a)[n := Some v]\<rparr>)) (\<lambda>_.
     bindM (getM fca_len) (\<lambda>l.
     bindM (assertM (sint l < int isize_max) ''attempt to add with overflow'') (\<lambda>_.
     modifyM (\<lambda>a. a\<lparr>fca_len := l + 1\<rparr>))))))"

definition FixedCapDynArray_pop :: "nat \<Rightarrow> ('a, 'a option) fca_prog" where
  "FixedCapDynArray_pop LEN =
     bindM (FixedCapDynArray_len LEN) (\<lambda>n.
     (if n = 0 then ret None
      else
        bindM (modifyM (\<lambda>a. a\<lparr>fca_len := of_nat (n - 1)\<rparr>)) (\<lambda>_.
        bindM (getM (\<lambda>a. fca_data a ! (n - 1))) (\<lambda>slot.
        (case slot of
           None \<Rightarrow> fail (Ub ''assume_init on an uninitialised slot'')
         | Some v \<Rightarrow> ret (Some v))))))"

definition FixedCapDynArray_clear :: "('a, unit) fca_prog" where
  "FixedCapDynArray_clear = modifyM (\<lambda>a. a\<lparr>fca_len := 0\<rparr>)"

definition FixedCapDynArray_as_slice :: "nat \<Rightarrow> ('a, 'a list) fca_prog" where
  "FixedCapDynArray_as_slice LEN =
     bindM (FixedCapDynArray_len LEN) (\<lambda>n.
     bindM (getM (\<lambda>a. take n (fca_data a))) (\<lambda>slots.
     bindM (requireM (None \<notin> set slots) ''slice over an uninitialised slot'') (\<lambda>_.
     ret (map the slots))))"

text \<open>
  A mutable slice lends the initialised prefix to a borrower. What the borrower leaves in it is
  the argument \<open>g\<close>: element \<open>i\<close> holding \<open>x\<close> ends up holding \<open>g i x\<close>.
\<close>

definition FixedCapDynArray_as_mut_slice :: "nat \<Rightarrow> (nat \<Rightarrow> 'a \<Rightarrow> 'a) \<Rightarrow> ('a, 'a list) fca_prog" where
  "FixedCapDynArray_as_mut_slice LEN g =
     bindM (FixedCapDynArray_as_slice LEN) (\<lambda>xs.
     bindM (modifyM (\<lambda>a. a\<lparr>fca_data :=
        map (\<lambda>i. Some (g i (xs ! i))) [0..<length xs] @ drop (length xs) (fca_data a)\<rparr>)) (\<lambda>_.
     ret xs))"

definition FixedCapDynArray_default :: "nat \<Rightarrow> 'a FixedCapDynArray res" where
  "FixedCapDynArray_default LEN = FixedCapDynArray_new LEN"

definition FixedCapDynArray_from :: "nat \<Rightarrow> 'a list \<Rightarrow> 'a FixedCapDynArray res" where
  "FixedCapDynArray_from LEN vals =
     (if length vals \<le> LEN
      then (case FixedCapDynArray_new LEN of
              Inl e \<Rightarrow> Inl e
            | Inr result \<Rightarrow>
                (case forM vals (FixedCapDynArray_push LEN) result of
                   (Inl e, _) \<Rightarrow> Inl e
                 | (Inr _, result') \<Rightarrow> Inr result'))
      else Inl (Panic ''too many elements for fixed-capacity array''))"

definition FixedCapDynArray_deref :: "nat \<Rightarrow> ('a, 'a list) fca_prog" where
  "FixedCapDynArray_deref LEN = FixedCapDynArray_as_slice LEN"

definition FixedCapDynArray_deref_mut :: "nat \<Rightarrow> (nat \<Rightarrow> 'a \<Rightarrow> 'a) \<Rightarrow> ('a, 'a list) fca_prog" where
  "FixedCapDynArray_deref_mut LEN g = FixedCapDynArray_as_mut_slice LEN g"

section \<open>The interface\<close>

text \<open>
  A stack of bounded capacity, specified over the list of its elements: \<open>view\<close> is the abstract
  contents, \<open>invar\<close> the representation invariant.
\<close>

locale bounded_stack =
  fixes invar :: "'s \<Rightarrow> bool"
    and view :: "'s \<Rightarrow> 'a list"
    and cap :: nat
    and push :: "'a \<Rightarrow> ('s, unit) prog"
    and pop :: "('s, 'a option) prog"
    and full :: fault
  assumes view_bound: "invar s \<Longrightarrow> length (view s) \<le> cap"
    and push_room: "invar s \<Longrightarrow> length (view s) < cap \<Longrightarrow>
      \<exists>s'. push x s = (Inr (), s') \<and> invar s' \<and> view s' = view s @ [x]"
    and push_full: "invar s \<Longrightarrow> length (view s) = cap \<Longrightarrow> push x s = (Inl full, s)"
    and pop_empty: "invar s \<Longrightarrow> view s = [] \<Longrightarrow> pop s = (Inr None, s)"
    and pop_snoc: "invar s \<Longrightarrow> view s = xs @ [x] \<Longrightarrow>
      \<exists>s'. pop s = (Inr (Some x), s') \<and> invar s' \<and> view s' = xs"
begin

lemma push_all_fits:
  "invar s \<Longrightarrow> length (view s) + length xs \<le> cap \<Longrightarrow>
   \<exists>s'. forM xs push s = (Inr (), s') \<and> invar s' \<and> view s' = view s @ xs"
proof (induction xs arbitrary: s)
  case Nil
  then show ?case by simp
next
  case (Cons x xs)
  then obtain t where t: "push x s = (Inr (), t)" "invar t" "view t = view s @ [x]"
    using push_room [of s x] by auto
  with Cons obtain s' where "forM xs push t = (Inr (), s')" "invar s'" "view s' = view t @ xs"
    by (metis add_Suc_right add_Suc_shift length_Cons length_append_singleton)
  with t show ?case by simp
qed

lemma push_all_overflows:
  "invar s \<Longrightarrow> cap < length (view s) + length xs \<Longrightarrow>
   \<exists>s'. forM xs push s = (Inl full, s') \<and> invar s' \<and> view s' = take cap (view s @ xs)"
proof (induction xs arbitrary: s)
  case Nil
  then show ?case using view_bound [of s] by simp
next
  case (Cons x xs)
  show ?case
  proof (cases "length (view s) = cap")
    case True
    with Cons.prems show ?thesis using push_full [of s x] by simp
  next
    case False
    with Cons.prems view_bound [of s]
    obtain t where t: "push x s = (Inr (), t)" "invar t" "view t = view s @ [x]"
      using push_room [of s x] by auto
    with Cons show ?thesis by fastforce
  qed
qed

lemma push_pop:
  "invar s \<Longrightarrow> length (view s) < cap \<Longrightarrow>
   \<exists>s'. bindM (push x) (\<lambda>_. pop) s = (Inr (Some x), s') \<and> invar s' \<and> view s' = view s"
  using push_room [of s x] pop_snoc by fastforce

end

section \<open>Correctness\<close>

text \<open>
  The representation invariant: \<open>LEN\<close> slots, a length between 0 and \<open>LEN\<close>, and initialised slots
  below the length. The contents are the vals in those slots.
\<close>

definition fca_invar :: "nat \<Rightarrow> 'a FixedCapDynArray \<Rightarrow> bool" where
  "fca_invar LEN a \<longleftrightarrow>
     LEN \<le> isize_max \<and> length (fca_data a) = LEN \<and> unat (fca_len a) \<le> LEN \<and>
     None \<notin> set (take (unat (fca_len a)) (fca_data a))"

definition fca_view :: "'a FixedCapDynArray \<Rightarrow> 'a list" where
  "fca_view a = map the (take (unat (fca_len a)) (fca_data a))"

lemma fca_invar_lenD:
  assumes "fca_invar LEN a"
  shows "0 \<le> sint (fca_len a)" "unat (fca_len a) \<le> LEN" "length (fca_view a) = unat (fca_len a)"
  using assms by (auto simp: fca_invar_def fca_view_def sint_nonneg_iff)

lemma fca_slot_initialised:
  assumes "fca_invar LEN a" "i < unat (fca_len a)"
  shows "fca_data a ! i = Some (fca_view a ! i)"
proof -
  let ?p = "take (unat (fca_len a)) (fca_data a)"
  have len: "i < length ?p"
    using assms by (simp add: fca_invar_def)
  then have "?p ! i \<noteq> None"
    using assms by (metis fca_invar_def nth_mem)
  with len assms show ?thesis by (auto simp: fca_view_def)
qed

lemma fca_len_ok [simp]:
  "fca_invar LEN a \<Longrightarrow> FixedCapDynArray_len LEN a = (Inr (length (fca_view a)), a)"
  using fca_invar_lenD [of LEN a] by (simp add: FixedCapDynArray_len_def)

lemma fca_new_ok:
  "LEN \<le> isize_max \<Longrightarrow>
   \<exists>a. FixedCapDynArray_new LEN = Inr a \<and> fca_invar LEN a \<and> fca_view a = []"
  by (simp add: FixedCapDynArray_new_def fca_invar_def fca_view_def)

lemma fca_push_room:
  assumes inv: "fca_invar LEN a" and room: "length (fca_view a) < LEN"
  shows "\<exists>a'. FixedCapDynArray_push LEN x a = (Inr (), a') \<and> fca_invar LEN a' \<and>
    fca_view a' = fca_view a @ [x]"
proof -
  let ?n = "unat (fca_len a)"
  let ?a = "a\<lparr>fca_data := (fca_data a)[?n := Some x], fca_len := fca_len a + 1\<rparr>"
  have n: "length (fca_view a) = ?n" "LEN \<le> isize_max"
    using inv fca_invar_lenD [of LEN a] by (auto simp: fca_invar_def)
  then have lt: "?n < isize_max" using room by simp
  then have u: "unat (fca_len a + 1) = Suc ?n"
    using unat_add_no_wrap [of "fca_len a" 1] by (simp add: isize_max_def)
  have s: "sint (fca_len a) < int isize_max"
    using lt by (rule sint_less_isize_max)
  have t: "take (Suc ?n) ((fca_data a)[?n := Some x]) = take ?n (fca_data a) @ [Some x]"
    using inv room n by (simp add: fca_invar_def take_Suc_conv_app_nth)
  have "FixedCapDynArray_push LEN x a = (Inr (), ?a)"
    using inv room n s by (simp add: FixedCapDynArray_push_def)
  moreover have "fca_invar LEN ?a"
    using inv room n by (simp add: fca_invar_def u t)
  moreover have "fca_view ?a = fca_view a @ [x]"
    by (simp add: fca_view_def u t)
  ultimately show ?thesis by blast
qed

lemma fca_push_full:
  "fca_invar LEN a \<Longrightarrow> length (fca_view a) = LEN \<Longrightarrow>
   FixedCapDynArray_push LEN x a = (Inl (Panic ''fixed-capacity array is full''), a)"
  by (simp add: FixedCapDynArray_push_def)

lemma fca_pop_snoc:
  assumes inv: "fca_invar LEN a" and view: "fca_view a = xs @ [x]"
  shows "\<exists>a'. FixedCapDynArray_pop LEN a = (Inr (Some x), a') \<and> fca_invar LEN a' \<and> fca_view a' = xs"
proof -
  let ?n = "length xs"
  let ?a = "a\<lparr>fca_len := of_nat ?n\<rparr>"
  have n: "unat (fca_len a) = Suc ?n"
    using fca_invar_lenD(3) [OF inv] view by simp
  then have lt: "?n < 2 ^ 64" using unat_usize_lt [of "fca_len a"] by linarith
  have sub: "take ?n (fca_data a) = butlast (take (Suc ?n) (fca_data a))"
    using inv n by (simp add: fca_invar_def butlast_take)
  have slot: "fca_data a ! ?n = Some x"
    using fca_slot_initialised [OF inv, of ?n] n view by simp
  have "FixedCapDynArray_pop LEN a = (Inr (Some x), ?a)"
    using inv view slot by (simp add: FixedCapDynArray_pop_def)
  moreover have "fca_invar LEN ?a"
    using inv n lt set_take_subset_set_take [of ?n "Suc ?n" "fca_data a"]
    by (auto simp: fca_invar_def)
  moreover have "fca_view ?a = xs"
    using view n lt by (simp add: fca_view_def sub map_butlast)
  ultimately show ?thesis by blast
qed

interpretation fca: bounded_stack "fca_invar LEN" fca_view LEN "FixedCapDynArray_push LEN"
  "FixedCapDynArray_pop LEN" "Panic ''fixed-capacity array is full''" for LEN
proof unfold_locales
  show "length (fca_view s) \<le> LEN" if "fca_invar LEN s" for s :: "'a FixedCapDynArray"
    using fca_invar_lenD [OF that] by simp
  show "FixedCapDynArray_pop LEN s = (Inr None, s)"
    if "fca_invar LEN s" "fca_view s = []" for s :: "'a FixedCapDynArray"
    using that by (simp add: FixedCapDynArray_pop_def)
qed (rule fca_push_room fca_push_full fca_pop_snoc; assumption)+

lemma fca_as_slice_ok [simp]:
  assumes "fca_invar LEN a"
  shows "FixedCapDynArray_as_slice LEN a = (Inr (fca_view a), a)"
  using assms fca_invar_lenD(3) [OF assms]
  by (simp add: FixedCapDynArray_as_slice_def fca_invar_def fca_view_def)

lemma fca_as_mut_slice_ok:
  assumes inv: "fca_invar LEN a"
  shows "\<exists>a'. FixedCapDynArray_as_mut_slice LEN g a = (Inr (fca_view a), a') \<and> fca_invar LEN a' \<and>
    fca_view a' = map (\<lambda>i. g i (fca_view a ! i)) [0..<length (fca_view a)]"
  using inv fca_invar_lenD [OF inv]
  by (auto simp: FixedCapDynArray_as_mut_slice_def fca_invar_def fca_view_def)

lemma fca_clear_ok:
  "fca_invar LEN a \<Longrightarrow> \<exists>a'. FixedCapDynArray_clear a = (Inr (), a') \<and> fca_invar LEN a' \<and> fca_view a' = []"
  by (simp add: FixedCapDynArray_clear_def fca_invar_def fca_view_def)

section \<open>Refinement of a bounded list\<close>

text \<open>
  The abstract specification: a list of at most \<open>LEN\<close> elements, with the calls of the public
  interface as its operations and what each call returns as its output.
\<close>

datatype 'a fca_call = Call_push 'a | Call_pop | Call_clear | Call_len | Call_is_empty | Call_slice
  | Call_mut "nat \<Rightarrow> 'a \<Rightarrow> 'a"

datatype 'a fca_out = Out_unit | Out_elem "'a option" | Out_nat nat | Out_bool bool | Out_slice "'a list"

fun list_call :: "nat \<Rightarrow> 'a fca_call \<Rightarrow> ('a list, 'a fca_out) prog" where
  "list_call LEN (Call_push x) xs =
     (if length xs < LEN then (Inr Out_unit, xs @ [x])
      else (Inl (Panic ''fixed-capacity array is full''), xs))"
| "list_call LEN Call_pop xs =
     (if xs = [] then (Inr (Out_elem None), xs) else (Inr (Out_elem (Some (last xs))), butlast xs))"
| "list_call LEN Call_clear xs = (Inr Out_unit, [])"
| "list_call LEN Call_len xs = (Inr (Out_nat (length xs)), xs)"
| "list_call LEN Call_is_empty xs = (Inr (Out_bool (xs = [])), xs)"
| "list_call LEN Call_slice xs = (Inr (Out_slice xs), xs)"
| "list_call LEN (Call_mut g) xs = (Inr (Out_slice xs), map (\<lambda>i. g i (xs ! i)) [0..<length xs])"

fun fca_do :: "nat \<Rightarrow> 'a fca_call \<Rightarrow> ('a, 'a fca_out) fca_prog" where
  "fca_do LEN (Call_push x) = bindM (FixedCapDynArray_push LEN x) (\<lambda>_. ret Out_unit)"
| "fca_do LEN Call_pop = bindM (FixedCapDynArray_pop LEN) (\<lambda>x. ret (Out_elem x))"
| "fca_do LEN Call_clear = bindM FixedCapDynArray_clear (\<lambda>_. ret Out_unit)"
| "fca_do LEN Call_len = bindM (FixedCapDynArray_len LEN) (\<lambda>n. ret (Out_nat n))"
| "fca_do LEN Call_is_empty = bindM (FixedCapDynArray_is_empty LEN) (\<lambda>b. ret (Out_bool b))"
| "fca_do LEN Call_slice = bindM (FixedCapDynArray_deref LEN) (\<lambda>xs. ret (Out_slice xs))"
| "fca_do LEN (Call_mut g) = bindM (FixedCapDynArray_deref_mut LEN g) (\<lambda>xs. ret (Out_slice xs))"

text \<open>
  A client that goes on after a caught panic sees the outputs of all its calls, faults included.
\<close>

fun run_calls :: "('c \<Rightarrow> ('s, 'o) prog) \<Rightarrow> 'c list \<Rightarrow> 's \<Rightarrow> 'o res list \<times> 's" where
  "run_calls step [] s = ([], s)"
| "run_calls step (c # cs) s =
     (let (r, s') = step c s; (rs, s'') = run_calls step cs s' in (r # rs, s''))"

lemma fca_do_simulates:
  assumes inv: "fca_invar LEN a"
  shows "\<exists>a'. fca_do LEN c a = (fst (list_call LEN c (fca_view a)), a') \<and> fca_invar LEN a' \<and>
    fca_view a' = snd (list_call LEN c (fca_view a))"
proof (cases c)
  case (Call_push x)
  show ?thesis
  proof (cases "length (fca_view a) < LEN")
    case True
    with fca.push_room [OF inv True, of x] Call_push show ?thesis by auto
  next
    case False
    then have "length (fca_view a) = LEN" using fca.view_bound [OF inv] by simp
    with fca.push_full [OF inv, of x] Call_push inv show ?thesis by simp
  qed
next
  case Call_pop
  show ?thesis
  proof (cases "fca_view a" rule: rev_cases)
    case Nil
    with fca.pop_empty [OF inv] Call_pop inv show ?thesis by simp
  next
    case (snoc ys y)
    with fca.pop_snoc [OF inv snoc] Call_pop show ?thesis by auto
  qed
next
  case (Call_mut g)
  with fca_as_mut_slice_ok [OF inv, of g] show ?thesis
    by (auto simp: FixedCapDynArray_deref_mut_def)
next
  case Call_clear
  with fca_clear_ok [OF inv] show ?thesis by auto
qed (use inv in \<open>simp_all add: FixedCapDynArray_is_empty_def FixedCapDynArray_deref_def\<close>)

lemma fca_run_simulates:
  "fca_invar LEN a \<Longrightarrow>
   fst (run_calls (fca_do LEN) cs a) = fst (run_calls (list_call LEN) cs (fca_view a)) \<and>
   fca_invar LEN (snd (run_calls (fca_do LEN) cs a)) \<and>
   fca_view (snd (run_calls (fca_do LEN) cs a)) = snd (run_calls (list_call LEN) cs (fca_view a))"
proof (induction cs arbitrary: a)
  case Nil
  then show ?case by simp
next
  case (Cons c cs)
  obtain a' where a': "fca_do LEN c a = (fst (list_call LEN c (fca_view a)), a')"
    "fca_invar LEN a'" "fca_view a' = snd (list_call LEN c (fca_view a))"
    using fca_do_simulates [OF Cons.prems] by blast
  show ?case
    using Cons.IH [OF a'(2)] a' by (simp add: split_beta)
qed

section \<open>Properties\<close>

text \<open>
  \<^verbatim>\<open>FixedCapDynArray::from\<close> panics exactly when it is given more than \<open>LEN\<close> elements; otherwise
  the array it builds is well formed and reads back as the given elements, in order.
\<close>

lemma FixedCapDynArray_from_correct:
  assumes "LEN \<le> isize_max"
  shows "(length vals \<le> LEN \<longrightarrow>
      (\<exists>a. FixedCapDynArray_from LEN vals = Inr a \<and> fca_invar LEN a \<and>
           FixedCapDynArray_as_slice LEN a = (Inr vals, a))) \<and>
    (LEN < length vals \<longrightarrow>
      FixedCapDynArray_from LEN vals =
        Inl (Panic ''too many elements for fixed-capacity array''))"
proof -
  obtain a where a: "FixedCapDynArray_new LEN = Inr (a :: 'a FixedCapDynArray)"
      "fca_invar LEN a" "fca_view a = []"
    using fca_new_ok [OF assms] by blast
  then show ?thesis
    using fca.push_all_fits [of LEN a vals] by (auto simp: FixedCapDynArray_from_def)
qed

text \<open>
  C18: whatever sequence of public calls is made on a new array, the calls return exactly what the
  bounded list returns (the only fault is the panic of a push on a full array, so no
  uninitialised slot is ever read), and the array stays well formed.
\<close>

theorem FixedCapDynArray_refines_list:
  assumes "LEN \<le> isize_max"
  shows "\<exists>a. FixedCapDynArray_new LEN = Inr a \<and>
    fst (run_calls (fca_do LEN) cs a) = fst (run_calls (list_call LEN) cs []) \<and>
    fca_invar LEN (snd (run_calls (fca_do LEN) cs a)) \<and>
    fca_view (snd (run_calls (fca_do LEN) cs a)) = snd (run_calls (list_call LEN) cs [])"
  using fca_new_ok [OF assms] fca_run_simulates by metis

theorem FixedCapDynArray_refines_list_witness:
  "\<exists>a. FixedCapDynArray_new 1 = Inr a \<and>
    fst (run_calls (fca_do 1) [Call_push (3 :: u8), Call_push 4, Call_pop, Call_pop] a) =
      [Inr Out_unit, Inl (Panic ''fixed-capacity array is full''), Inr (Out_elem (Some 3)),
       Inr (Out_elem None)]"
  using FixedCapDynArray_refines_list
    [of 1 "[Call_push (3 :: u8), Call_push 4, Call_pop, Call_pop]"]
  by (auto simp: isize_max_def)

end
