(* ===== verification/Structs.thy ===== *)
theory Structs
  imports Machine Bitfields Fixed_Cap
begin

text \<open>
  The structs of \<^verbatim>\<open>sys.rs\<close> that the crate fills in and passes by value or by reference, field by field:
  the description of a call, of a parameter, the states of the structured control flow and the
  context of a compilation. \<^verbatim>\<open>Call\<close> and \<^verbatim>\<open>AbiParam\<close> have operations of their own in \<^verbatim>\<open>lib.rs\<close>.
\<close>

section \<open>Data\<close>

record Peep_Ctx =
  peep_prc :: u64
  peep_opt_hints :: u16

record ssa_Block_State =
  end_scope :: u32

text \<open>The union \<^verbatim>\<open>ssa_If_State_branch\<close> has two names for one id.\<close>

record ssa_If_State =
  if_node :: u32
  if_branch :: u32

record ssa_Loop_State =
  loop_scope :: u32
  loop_scopes :: "u32 list"

record ssa_Param_Gen =
  vls :: DynamicArray
  spill_start :: isize

record Param_Spec =
  spec_dt :: u8
  spec_size :: u32

record ssa_Abi_Param =
  abi_dt :: "u8 FixedCapDynArray"
  abi_size :: isize
  abi_real_size :: isize
  abi_spilled :: bool
  abi_scalar :: bool
  abi_copied :: bool

record Call =
  call_idepth :: u32
  call_flags :: Call_flags
  call_cid :: u32
  call_rets :: "u8 list"

record Codegen_Emit_Buf =
  buf_code :: u64
  buf_constants :: u64
  buf_relocs :: u64
  buf_slocs :: u64
  buf_cfi :: u64
  buf_dbg_locs :: u64

record Lib_Calls =
  lib_copy :: Lib_Call
  lib_set :: Lib_Call

record Regalloc_Output =
  ra_allocs :: Slice
  ra_temp_stack_slot :: u16
  ra_computed :: bool

record Codegen_Emit_Ctx =
  ctx_prc :: u64
  ctx_schedule :: u64
  ctx_dbg_data :: u64
  ctx_abi :: u64
  ctx_buf :: Codegen_Emit_Buf
  ctx_emit_got_imports :: bool
  ctx_lib_calls :: Lib_Calls
  ctx_regalloc_mode :: isize
  ctx_ra_out :: Regalloc_Output
  ctx_param_specs :: Slice
  ctx_stack_param_offset :: Slice
  ctx_spill_slot_base :: Slice
  ctx_spill_slot_size :: Slice
  ctx_instr_offsets :: Slice
  ctx_code_start :: usize
  ctx_constants_start :: usize
  ctx_last_off :: usize
  ctx_sloc :: Sloc

text \<open>The member \<^verbatim>\<open>bufs\<close> of the union \<^verbatim>\<open>Codegen_Output\<close>, the one the crate reads.\<close>

record Codegen_Output_Bufs =
  out_code :: Slice
  out_constants :: Slice
  out_relocs :: Slice
  out_slocs :: Slice
  out_cfi :: Slice
  out_dbg_locs :: Slice

text \<open>\<^verbatim>\<open>Default\<close> is all zeros for every one of them.\<close>

definition ssa_Block_State_default :: ssa_Block_State where
  "ssa_Block_State_default = \<lparr>end_scope = 0\<rparr>"

definition ssa_If_State_default :: ssa_If_State where
  "ssa_If_State_default = \<lparr>if_node = 0, if_branch = 0\<rparr>"

definition ssa_Loop_State_default :: ssa_Loop_State where
  "ssa_Loop_State_default = \<lparr>loop_scope = 0, loop_scopes = [0, 0]\<rparr>"

definition ssa_Param_Gen_default :: ssa_Param_Gen where
  "ssa_Param_Gen_default = \<lparr>vls = DynamicArray_default, spill_start = 0\<rparr>"

definition Call_default :: Call where
  "Call_default = \<lparr>call_idepth = 0, call_flags = [0, 0, 0, 0], call_cid = 0, call_rets = [0, 0, 0, 0]\<rparr>"

definition Codegen_Emit_Buf_default :: Codegen_Emit_Buf where
  "Codegen_Emit_Buf_default =
     \<lparr>buf_code = 0, buf_constants = 0, buf_relocs = 0, buf_slocs = 0, buf_cfi = 0, buf_dbg_locs = 0\<rparr>"

definition Codegen_Emit_Ctx_default :: Codegen_Emit_Ctx where
  "Codegen_Emit_Ctx_default =
     \<lparr>ctx_prc = 0, ctx_schedule = 0, ctx_dbg_data = 0, ctx_abi = 0, ctx_buf = Codegen_Emit_Buf_default,
      ctx_emit_got_imports = False,
      ctx_lib_calls = \<lparr>lib_copy = [0, 0, 0, 0], lib_set = [0, 0, 0, 0]\<rparr>,
      ctx_regalloc_mode = 0,
      ctx_ra_out = \<lparr>ra_allocs = Slice_default, ra_temp_stack_slot = 0, ra_computed = False\<rparr>,
      ctx_param_specs = Slice_default, ctx_stack_param_offset = Slice_default,
      ctx_spill_slot_base = Slice_default, ctx_spill_slot_size = Slice_default,
      ctx_instr_offsets = Slice_default, ctx_code_start = 0, ctx_constants_start = 0, ctx_last_off = 0,
      ctx_sloc = replicate 8 0\<rparr>"

section \<open>Calls\<close>

text \<open>The loop over the zipped slots and datatypes: it ends with the shorter of the two.\<close>

fun fill_slots :: "'a list \<Rightarrow> 'a list \<Rightarrow> 'a list" where
  "fill_slots (slot # slots) (dt # dts) = dt # fill_slots slots dts"
| "fill_slots slots dts = slots"

definition Call_new :: "u32 \<Rightarrow> u8 list \<Rightarrow> Call res" where
  "Call_new id' returns =
     (if length returns \<le> 4
      then let raw = Call_default\<lparr>call_cid := id'\<rparr>;
               raw = raw\<lparr>call_rets := fill_slots (call_rets raw) returns\<rparr>
           in case Call_flags_set_ret_count (call_flags raw) (of_nat (length returns)) of
                Inl e \<Rightarrow> Inl e
              | Inr flags \<Rightarrow> Inr (raw\<lparr>call_flags := flags\<rparr>)
      else Inl (Panic ''assertion failed: returns.len() <= 4''))"

definition Call_with_call_conv :: "Call \<Rightarrow> u32 \<Rightarrow> Call res" where
  "Call_with_call_conv self id' =
     (case Call_flags_set_ccid (call_flags self) (ucast id') of
        Inl e \<Rightarrow> Inl e
      | Inr flags \<Rightarrow> Inr (self\<lparr>call_flags := flags\<rparr>))"

definition Call_imported :: "Call \<Rightarrow> bool \<Rightarrow> Call res" where
  "Call_imported self imported =
     (case Call_flags_set_imported (call_flags self) (of_bool imported) of
        Inl e \<Rightarrow> Inl e
      | Inr flags \<Rightarrow> Inr (self\<lparr>call_flags := flags\<rparr>))"

section \<open>Parameters\<close>

text \<open>Two slots for datatypes; \<^verbatim>\<open>..Default::default()\<close> leaves the other fields zero.\<close>

definition AbiParam_new :: "u8 list \<Rightarrow> ssa_Abi_Param res" where
  "AbiParam_new dts =
     (case FixedCapDynArray_new 2 of
        Inl e \<Rightarrow> Inl e
      | Inr dt \<Rightarrow>
          (case forM dts (FixedCapDynArray_push 2) dt of
             (Inl e, _) \<Rightarrow> Inl e
           | (Inr _, dt) \<Rightarrow>
               Inr \<lparr>abi_dt = dt, abi_size = 0, abi_real_size = 0, abi_spilled = False,
                    abi_scalar = False, abi_copied = False\<rparr>))"

section \<open>Correctness\<close>

text \<open>The setters of the flags word, from the laws of its fields.\<close>

lemma Call_flags_set_cases:
  assumes "length flags = 4"
  shows "v \<le> 67108863 \<Longrightarrow> \<exists>f. Call_flags_set_ccid flags v = Inr f \<and> length f = 4 \<and> Call_flags_ccid f = v \<and>
      Call_flags_ret_count f = Call_flags_ret_count flags \<and> Call_flags_imported f = Call_flags_imported flags"
    and "\<not> v \<le> 67108863 \<Longrightarrow> Call_flags_set_ccid flags v = Inl (Panic ''assertion failed: value <= mask'')"
    and "v \<le> 15 \<Longrightarrow> \<exists>f. Call_flags_set_ret_count flags v = Inr f \<and> length f = 4 \<and> Call_flags_ret_count f = v \<and>
      Call_flags_ccid f = Call_flags_ccid flags \<and> Call_flags_imported f = Call_flags_imported flags"
    and "v \<le> 1 \<Longrightarrow> \<exists>f. Call_flags_set_imported flags v = Inr f \<and> length f = 4 \<and> Call_flags_imported f = v \<and>
      Call_flags_ccid f = Call_flags_ccid flags \<and> Call_flags_ret_count f = Call_flags_ret_count flags"
proof -
  note laws = node_gvn_group.accessor_laws [OF _ assms, folded Call_flags_accessors_eq]
  have all: "(\<forall>j < length [(0 :: nat, 26 :: nat), (26, 4), (30, 1)]. j \<noteq> i \<longrightarrow> P j) \<longleftrightarrow>
    (0 \<noteq> i \<longrightarrow> P 0) \<and> (1 \<noteq> i \<longrightarrow> P 1) \<and> (2 \<noteq> i \<longrightarrow> P 2)" for i :: nat and P
    by (auto simp: All_less_Suc numeral_eq_Suc)
  note laws' = laws [unfolded all]
  show "v \<le> 67108863 \<Longrightarrow> \<exists>f. Call_flags_set_ccid flags v = Inr f \<and> length f = 4 \<and> Call_flags_ccid f = v \<and>
      Call_flags_ret_count f = Call_flags_ret_count flags \<and> Call_flags_imported f = Call_flags_imported flags"
    using laws'(1) [of 0 67108863 Call_flags_ccid Call_flags_set_ccid v] by (simp add: Call_flags_accessors_def)
  show "\<not> v \<le> 67108863 \<Longrightarrow> Call_flags_set_ccid flags v = Inl (Panic ''assertion failed: value <= mask'')"
    using laws'(2) [of 0 67108863 Call_flags_ccid Call_flags_set_ccid v] by (simp add: Call_flags_accessors_def)
  show "v \<le> 15 \<Longrightarrow> \<exists>f. Call_flags_set_ret_count flags v = Inr f \<and> length f = 4 \<and> Call_flags_ret_count f = v \<and>
      Call_flags_ccid f = Call_flags_ccid flags \<and> Call_flags_imported f = Call_flags_imported flags"
    using laws'(1) [of 1 15 Call_flags_ret_count Call_flags_set_ret_count v] by (simp add: Call_flags_accessors_def)
  show "v \<le> 1 \<Longrightarrow> \<exists>f. Call_flags_set_imported flags v = Inr f \<and> length f = 4 \<and> Call_flags_imported f = v \<and>
      Call_flags_ccid f = Call_flags_ccid flags \<and> Call_flags_ret_count f = Call_flags_ret_count flags"
    using laws'(1) [of 2 1 Call_flags_imported Call_flags_set_imported v] by (simp add: Call_flags_accessors_def)
qed

lemma fill_slots_eq: "length dts \<le> length slots \<Longrightarrow> fill_slots slots dts = dts @ drop (length dts) slots"
  by (induction slots dts rule: fill_slots.induct) auto

lemma Call_flags_default:
  "Call_flags_ccid [0, 0, 0, 0] = 0" "Call_flags_ret_count [0, 0, 0, 0] = 0" "Call_flags_imported [0, 0, 0, 0] = 0"
  by code_simp+

text \<open>
  A description of a call: its id, its return types, the number of them, the calling convention and
  whether it is imported.
\<close>

definition describes :: "Call \<Rightarrow> u32 \<Rightarrow> u8 list \<Rightarrow> u32 \<Rightarrow> bool \<Rightarrow> bool" where
  "describes c id' returns conv imported \<longleftrightarrow>
     call_cid c = id' \<and> length (call_flags c) = 4 \<and> call_rets c = returns @ replicate (4 - length returns) 0 \<and>
     Call_flags_ret_count (call_flags c) = of_nat (length returns) \<and>
     Call_flags_ccid (call_flags c) = ucast conv \<and> Call_flags_imported (call_flags c) = of_bool imported"

lemma Call_new_describes:
  assumes "length returns \<le> 4"
  shows "\<exists>c. Call_new id' returns = Inr c \<and> describes c id' returns 0 False"
proof -
  have "of_nat (length returns) \<le> (15 :: u64)"
    using assms by (simp add: word_le_nat_alt unat_of_nat take_bit_nat_eq_self_iff)
  then obtain f where f: "Call_flags_set_ret_count [0, 0, 0, 0] (of_nat (length returns)) = Inr f" "length f = 4"
    "Call_flags_ret_count f = of_nat (length returns)" "Call_flags_ccid f = 0" "Call_flags_imported f = 0"
    using Call_flags_set_cases(3) [of "[0, 0, 0, 0]"] by (auto simp: Call_flags_default)
  have "fill_slots [0, 0, 0, 0] returns = returns @ replicate (4 - length returns) 0"
  proof -
    have "drop k [0, 0, 0, 0 :: u8] = replicate (4 - k) 0" for k
      using drop_replicate [of k 4 "0 :: u8"] by (simp add: numeral_eq_Suc)
    then show ?thesis using assms by (simp add: fill_slots_eq)
  qed
  then show ?thesis
    using assms f by (simp add: Call_new_def Call_default_def describes_def Let_def)
qed

lemma Call_with_call_conv_describes:
  assumes "describes c id' returns conv imported"
  shows "conv' \<le> 67108863 \<Longrightarrow>
      \<exists>c'. Call_with_call_conv c conv' = Inr c' \<and> describes c' id' returns conv' imported"
    and "\<not> conv' \<le> 67108863 \<Longrightarrow>
      Call_with_call_conv c conv' = Inl (Panic ''assertion failed: value <= mask'')"
proof -
  have len: "length (call_flags c) = 4" using assms by (simp add: describes_def)
  have le: "(ucast conv' :: u64) \<le> 67108863 \<longleftrightarrow> conv' \<le> 67108863"
    by (simp add: word_le_nat_alt)
  show "conv' \<le> 67108863 \<Longrightarrow>
      \<exists>c'. Call_with_call_conv c conv' = Inr c' \<and> describes c' id' returns conv' imported"
    using assms Call_flags_set_cases(1) [OF len, of "ucast conv'"] le
    by (auto simp: Call_with_call_conv_def describes_def)
  show "\<not> conv' \<le> 67108863 \<Longrightarrow>
      Call_with_call_conv c conv' = Inl (Panic ''assertion failed: value <= mask'')"
    using Call_flags_set_cases(2) [OF len, of "ucast conv'"] le by (simp add: Call_with_call_conv_def)
qed

lemma Call_imported_describes:
  assumes "describes c id' returns conv imported"
  shows "\<exists>c'. Call_imported c b = Inr c' \<and> describes c' id' returns conv b"
proof -
  have len: "length (call_flags c) = 4" using assms by (simp add: describes_def)
  show ?thesis
    using assms Call_flags_set_cases(4) [OF len, of "of_bool b"]
    by (cases b) (auto simp: Call_imported_def describes_def)
qed

section \<open>Properties\<close>

text \<open>
  a call built by \<^verbatim>\<open>Call::new\<close>, \<^verbatim>\<open>with_call_conv\<close> and \<^verbatim>\<open>imported\<close> reads back as it was described, whatever
  the order of the last two: id, return types with their number, calling convention and import flag,
  none of which disturbs another. More than four return types panic, and so does a calling
  convention of more than 26 bits.
\<close>

lemma Call_describes_what_was_asked:
  "(4 < length returns \<longrightarrow>
      Call_new id' returns = Inl (Panic ''assertion failed: returns.len() <= 4'')) \<and>
   (length returns \<le> 4 \<longrightarrow> (\<exists>c. Call_new id' returns = Inr c \<and> describes c id' returns 0 False \<and>
      (67108863 < conv \<longrightarrow> Call_with_call_conv c conv = Inl (Panic ''assertion failed: value <= mask'')) \<and>
      (conv \<le> 67108863 \<longrightarrow>
        (\<exists>c1 c2. Call_with_call_conv c conv = Inr c1 \<and> Call_imported c1 b = Inr c2 \<and>
           describes c2 id' returns conv b) \<and>
        (\<exists>c1 c2. Call_imported c b = Inr c1 \<and> Call_with_call_conv c1 conv = Inr c2 \<and>
           describes c2 id' returns conv b))))"
proof (intro conjI impI)
  assume "4 < length returns"
  then show "Call_new id' returns = Inl (Panic ''assertion failed: returns.len() <= 4'')"
    by (simp add: Call_new_def)
next
  assume "length returns \<le> 4"
  then obtain c where c: "Call_new id' returns = Inr c" "describes c id' returns 0 False"
    using Call_new_describes by blast
  obtain ci where ci: "Call_imported c b = Inr ci" "describes ci id' returns 0 b"
    using Call_imported_describes [OF c(2)] by blast
  have "\<exists>c1 c2. Call_with_call_conv c conv = Inr c1 \<and> Call_imported c1 b = Inr c2 \<and> describes c2 id' returns conv b"
    if "conv \<le> 67108863"
    using Call_with_call_conv_describes(1) [OF c(2) that] Call_imported_describes by blast
  moreover have "\<exists>c1 c2. Call_imported c b = Inr c1 \<and> Call_with_call_conv c1 conv = Inr c2 \<and> describes c2 id' returns conv b"
    if "conv \<le> 67108863"
    using Call_with_call_conv_describes(1) [OF ci(2) that] ci(1) by blast
  moreover have "Call_with_call_conv c conv = Inl (Panic ''assertion failed: value <= mask'')" if "67108863 < conv"
    using Call_with_call_conv_describes(2) [OF c(2), of conv] that by simp
  ultimately show "\<exists>c. Call_new id' returns = Inr c \<and> describes c id' returns 0 False \<and>
      (67108863 < conv \<longrightarrow> Call_with_call_conv c conv = Inl (Panic ''assertion failed: value <= mask'')) \<and>
      (conv \<le> 67108863 \<longrightarrow>
        (\<exists>c1 c2. Call_with_call_conv c conv = Inr c1 \<and> Call_imported c1 b = Inr c2 \<and>
           describes c2 id' returns conv b) \<and>
        (\<exists>c1 c2. Call_imported c b = Inr c1 \<and> Call_with_call_conv c1 conv = Inr c2 \<and>
           describes c2 id' returns conv b))"
    using c by - (rule exI [of _ c], blast)
qed

lemma Call_describes_what_was_asked_witness:
  "\<exists>c c1 c2. Call_new 7 [5, 7] = Inr c \<and> Call_with_call_conv c 1 = Inr c1 \<and> Call_imported c1 True = Inr c2 \<and>
     call_rets c2 = [5, 7, 0, 0] \<and> Call_flags_ret_count (call_flags c2) = 2"
proof -
  obtain c c1 c2 where "Call_new 7 [5, 7] = Inr c" "Call_with_call_conv c 1 = Inr c1" "Call_imported c1 True = Inr c2"
    "describes c2 7 [5, 7] 1 True"
    using Call_describes_what_was_asked [of "[5, 7]" 7 1 True] by auto
  then show ?thesis by (auto simp: describes_def numeral_2_eq_2)
qed

text \<open>
  \<^verbatim>\<open>AbiParam::new\<close> keeps up to two datatypes, readable in order, with every other field zero; a
  third one panics.
\<close>

lemma AbiParam_new_keeps_datatypes:
  "(length dts \<le> 2 \<longrightarrow> (\<exists>p. AbiParam_new dts = Inr p \<and>
      fst (FixedCapDynArray_as_slice 2 (abi_dt p)) = Inr dts \<and> abi_size p = 0 \<and> abi_real_size p = 0 \<and>
      \<not> abi_spilled p \<and> \<not> abi_scalar p \<and> \<not> abi_copied p)) \<and>
   (2 < length dts \<longrightarrow> AbiParam_new dts = Inl (Panic ''fixed-capacity array is full''))"
proof -
  obtain dt :: "u8 FixedCapDynArray" where dt: "FixedCapDynArray_new 2 = Inr dt" "fca_invar 2 dt" "fca_view dt = []"
    using fca_new_ok [of 2] by (auto simp: isize_max_def)
  show ?thesis
  proof (intro conjI impI)
    assume "length dts \<le> 2"
    then obtain dt' where "forM dts (FixedCapDynArray_push 2) dt = (Inr (), dt')" "fca_invar 2 dt'"
      "fca_view dt' = dts"
      using fca.push_all_fits [where LEN = 2 and s = dt and xs = dts] dt by (auto simp: isize_max_def)
    then show "\<exists>p. AbiParam_new dts = Inr p \<and>
      fst (FixedCapDynArray_as_slice 2 (abi_dt p)) = Inr dts \<and> abi_size p = 0 \<and> abi_real_size p = 0 \<and>
      \<not> abi_spilled p \<and> \<not> abi_scalar p \<and> \<not> abi_copied p"
      using dt by (simp add: AbiParam_new_def)
  next
    assume "2 < length dts"
    then show "AbiParam_new dts = Inl (Panic ''fixed-capacity array is full'')"
      using fca.push_all_overflows [where LEN = 2 and s = dt and xs = dts] dt by (auto simp: AbiParam_new_def isize_max_def)
  qed
qed

end
