(* ===== verification/Ffi.thy ===== *)
theory Ffi
  imports Structs
begin

text \<open>
  The boundary itself: the values that cross it, the types the \<^verbatim>\<open>extern\<close> block of \<^verbatim>\<open>sys.rs\<close> declares
  for them, and the linked library. A library is what each of its functions does to the machine and
  where its statics are; the crate's theorems hold for every library, or for every library that
  keeps a stated condition.
\<close>

section \<open>Values and types\<close>

text \<open>The C types of the declarations; aliases such as \<^verbatim>\<open>Node_ID\<close> are the types they stand for.\<close>

datatype ctag = T_unit | T_bool | T_u8 | T_u16 | T_u32 | T_i32 | T_u64 | T_i64 | T_isize
  | T_ptr ctag | T_slice ctag | T_struct string

text \<open>
  Values by type. \<open>C_ref v\<close> is \<^verbatim>\<open>&mut\<close> of a Rust local that holds \<open>v\<close>; \<open>C_ptr\<close> is any other pointer.
  A struct has a constructor of its own, with its fields.
\<close>

datatype cval = C_unit | C_bool bool | C_u8 u8 | C_u16 u16 | C_u32 u32 | C_i32 u32 | C_u64 u64
  | C_i64 u64 | C_isize isize | C_ptr ctag u64 | C_ref cval | C_string String | C_slice ctag Slice
  | C_stencil sys_Stencil | C_peep_ctx Peep_Ctx | C_call Call | C_abi_param ssa_Abi_Param
  | C_block_state ssa_Block_State | C_if_state ssa_If_State | C_loop_state ssa_Loop_State
  | C_param_gen ssa_Param_Gen | C_emit_ctx Codegen_Emit_Ctx | C_output Codegen_Output_Bufs

primrec tag_of :: "cval \<Rightarrow> ctag" where
  "tag_of C_unit = T_unit"
| "tag_of (C_bool b) = T_bool"
| "tag_of (C_u8 x) = T_u8"
| "tag_of (C_u16 x) = T_u16"
| "tag_of (C_u32 x) = T_u32"
| "tag_of (C_i32 x) = T_i32"
| "tag_of (C_u64 x) = T_u64"
| "tag_of (C_i64 x) = T_i64"
| "tag_of (C_isize x) = T_isize"
| "tag_of (C_ptr t p) = T_ptr t"
| "tag_of (C_ref v) = T_ptr (tag_of v)"
| "tag_of (C_string s) = T_struct ''String''"
| "tag_of (C_slice t s) = T_slice t"
| "tag_of (C_stencil s) = T_struct ''Stencil''"
| "tag_of (C_peep_ctx c) = T_struct ''Peep_Ctx''"
| "tag_of (C_call c) = T_struct ''Call''"
| "tag_of (C_abi_param p) = T_struct ''ssa_Abi_Param''"
| "tag_of (C_block_state s) = T_struct ''ssa_Block_State''"
| "tag_of (C_if_state s) = T_struct ''ssa_If_State''"
| "tag_of (C_loop_state s) = T_struct ''ssa_Loop_State''"
| "tag_of (C_param_gen g) = T_struct ''ssa_Param_Gen''"
| "tag_of (C_emit_ctx c) = T_struct ''Codegen_Emit_Ctx''"
| "tag_of (C_output b) = T_struct ''Codegen_Output''"

section \<open>The linked library\<close>

text \<open>
  A call gets its arguments and returns its result and what it left in the locals it got
  references to, in order.
\<close>

type_synonym extern_fn = "cval list \<Rightarrow> (cval \<times> cval list) act"

record backend =
  bac_fn :: "string \<Rightarrow> extern_fn"
  bac_static :: "string \<Rightarrow> u64"

type_synonym extern_sig = "string \<times> ctag list \<times> ctag"

text \<open>Reading a result at the declared type; a library that returns another type breaks the ABI.\<close>

definition abi_broken :: "'a res" where
  "abi_broken = Inl (Ub ''result of another type than declared'')"

fun as_u32 :: "cval \<Rightarrow> u32 res" where
  "as_u32 (C_u32 x) = Inr x"
| "as_u32 _ = abi_broken"

fun as_isize :: "cval \<Rightarrow> isize res" where
  "as_isize (C_isize x) = Inr x"
| "as_isize _ = abi_broken"

fun as_bool :: "cval \<Rightarrow> bool res" where
  "as_bool (C_bool x) = Inr x"
| "as_bool _ = abi_broken"

fun as_unit :: "cval \<Rightarrow> unit res" where
  "as_unit C_unit = Inr ()"
| "as_unit _ = abi_broken"

fun as_slice_of :: "ctag \<Rightarrow> cval \<Rightarrow> Slice res" where
  "as_slice_of t (C_slice t' s) = (if t = t' then Inr s else abi_broken)"
| "as_slice_of t _ = abi_broken"

fun out_u32 :: "cval list \<Rightarrow> u32 res" where
  "out_u32 [C_u32 x] = Inr x"
| "out_u32 _ = abi_broken"

definition call :: "backend \<Rightarrow> string \<Rightarrow> cval list \<Rightarrow> (cval \<Rightarrow> 'a res) \<Rightarrow> 'a act" where
  "call bac f args as = bindM (bac_fn bac f args) (\<lambda>(r, outs). liftM (as r))"

definition call_refs :: "backend \<Rightarrow> string \<Rightarrow> cval list \<Rightarrow> (cval list \<Rightarrow> 'o res) \<Rightarrow> (cval \<Rightarrow> 'a res) \<Rightarrow>
    ('o \<times> 'a) act" where
  "call_refs bac f args refs as =
     bindM (bac_fn bac f args) (\<lambda>(r, outs).
     bindM (liftM (refs outs)) (\<lambda>outs.
     bindM (liftM (as r)) (\<lambda>r.
     ret (outs, r))))"

text \<open>The most frequent case: one \<^verbatim>\<open>Node_ID\<close>.\<close>

definition call_out :: "backend \<Rightarrow> string \<Rightarrow> cval list \<Rightarrow> (cval \<Rightarrow> 'a res) \<Rightarrow> (u32 \<times> 'a) act" where
  "call_out bac f args as = call_refs bac f args out_u32 as"

text \<open>
  A library that refuses ill-typed calls: a call of a function that is not declared, or with other
  argument types than declared. What behaves the same against it never makes such a call.
\<close>

definition well_typed_call :: "extern_sig list \<Rightarrow> string \<Rightarrow> cval list \<Rightarrow> bool" where
  "well_typed_call sigs f args \<longleftrightarrow>
     (case map_of sigs f of None \<Rightarrow> False | Some (ts, t) \<Rightarrow> map tag_of args = ts)"

definition typed_backend :: "extern_sig list \<Rightarrow> backend \<Rightarrow> backend" where
  "typed_backend sigs bac = bac\<lparr>bac_fn := (\<lambda>f args.
     if well_typed_call sigs f args then bac_fn bac f args else fail (Ub ''ill-typed extern call''))\<rparr>"

lemma call_typed [simp]:
  "well_typed_call sigs f args \<Longrightarrow> call (typed_backend sigs bac) f args as = call bac f args as"
  by (simp add: call_def typed_backend_def)

lemma call_refs_typed [simp]:
  "well_typed_call sigs f args \<Longrightarrow> call_refs (typed_backend sigs bac) f args refs as = call_refs bac f args refs as"
  by (simp add: call_refs_def typed_backend_def)

lemma call_out_typed [simp]:
  "well_typed_call sigs f args \<Longrightarrow> call_out (typed_backend sigs bac) f args as = call_out bac f args as"
  by (simp add: call_out_def)

lemma typed_backend_static [simp]: "bac_static (typed_backend sigs bac) = bac_static bac"
  by (simp add: typed_backend_def)

end
