(* ===== verification/Externs.thy ===== *)
theory Externs
  imports Ffi
begin

text \<open>
  The declarations of the \<^verbatim>\<open>extern\<close> block of \<^verbatim>\<open>sys.rs\<close>: for every function of the Odin library its name,
  the types of its arguments and the type of its result, and the statics with their types.
\<close>

section \<open>Functions\<close>

definition arna_init_from_buffer_sig :: extern_sig where
  "arna_init_from_buffer_sig = (''arna_init_from_buffer'', [T_slice T_u8], T_struct ''arna_Allocator'')"

definition bac_start_proc_sig :: extern_sig where
  "bac_start_proc_sig = (''bac_start_proc'', [T_ptr (T_struct ''Proc''), T_ptr (T_struct ''arna_Allocator''), T_ptr (T_struct ''arna_Temps'')], T_u32)"

definition bac_push_scope_value_sig :: extern_sig where
  "bac_push_scope_value_sig = (''bac_push_scope_value'', [T_ptr (T_struct ''Proc''), T_u32, T_u32, T_struct ''String'', T_u64], T_isize)"

definition bac_set_scope_value_sig :: extern_sig where
  "bac_set_scope_value_sig = (''bac_set_scope_value'', [T_ptr (T_struct ''Proc''), T_u32, T_isize, T_u32], T_unit)"

definition bac_delete_scope_sig :: extern_sig where
  "bac_delete_scope_sig = (''bac_delete_scope'', [T_ptr (T_struct ''Proc''), T_u32], T_unit)"

definition bac_truncate_scope_sig :: extern_sig where
  "bac_truncate_scope_sig = (''bac_truncate_scope'', [T_ptr (T_struct ''Proc''), T_u32, T_isize], T_unit)"

definition bac_merge_return_sig :: extern_sig where
  "bac_merge_return_sig = (''bac_merge_return'', [T_ptr (T_struct ''Proc''), T_slice T_u32], T_u32)"

definition bac_compile_sig :: extern_sig where
  "bac_compile_sig = (''bac_compile'', [T_struct ''Codegen_Emit_Ctx''], T_struct ''Codegen_Output'')"

definition bac_opt_sig :: extern_sig where
  "bac_opt_sig = (''bac_opt'', [T_struct ''Peep_Ctx''], T_unit)"

definition bac_inline_graph_sig :: extern_sig where
  "bac_inline_graph_sig = (''bac_inline_graph'', [T_ptr (T_struct ''Proc''), T_u32, T_ptr (T_struct ''Proc'')], T_unit)"

definition bac_inline_stencil_sig :: extern_sig where
  "bac_inline_stencil_sig = (''bac_inline_stencil'', [T_ptr (T_struct ''Proc''), T_u32, T_struct ''Stencil''], T_unit)"

definition bac_mount_stencil_sig :: extern_sig where
  "bac_mount_stencil_sig = (''bac_mount_stencil'', [T_ptr (T_struct ''Proc''), T_struct ''Stencil''], T_unit)"

definition bac_apply_peeps_sig :: extern_sig where
  "bac_apply_peeps_sig = (''bac_apply_peeps'', [T_struct ''Peep_Ctx''], T_bool)"

definition bac_get_stencil_sig :: extern_sig where
  "bac_get_stencil_sig = (''bac_get_stencil'', [T_ptr (T_struct ''Proc'')], T_struct ''Stencil'')"

definition bac_loopopt_sig :: extern_sig where
  "bac_loopopt_sig = (''bac_loopopt'', [T_ptr (T_struct ''Proc'')], T_bool)"

definition bac_memopt_sig :: extern_sig where
  "bac_memopt_sig = (''bac_memopt'', [T_ptr (T_struct ''Proc'')], T_bool)"

definition bac_compact_sig :: extern_sig where
  "bac_compact_sig = (''bac_compact'', [T_ptr (T_struct ''Proc'')], T_unit)"

definition bac_compute_latices_sig :: extern_sig where
  "bac_compute_latices_sig = (''bac_compute_latices'', [T_ptr (T_struct ''Proc''), T_struct ''runtime_Allocator''], T_bool)"

definition bac_schedule_graph_sig :: extern_sig where
  "bac_schedule_graph_sig = (''bac_schedule_graph'', [T_ptr (T_struct ''Proc''), T_ptr (T_struct ''Schedule''), T_isize, T_struct ''runtime_Allocator''], T_unit)"

definition bac_take_dbg_data_sig :: extern_sig where
  "bac_take_dbg_data_sig = (''bac_take_dbg_data'', [T_ptr (T_struct ''Proc''), T_ptr (T_struct ''Schedule''), T_ptr (T_struct ''Dbg_Data''), T_struct ''runtime_Allocator''], T_unit)"

definition bac_regalloc_sig :: extern_sig where
  "bac_regalloc_sig = (''bac_regalloc'', [T_ptr (T_struct ''Regalloc''), T_ptr (T_struct ''Proc''), T_ptr (T_struct ''Schedule''), T_isize, T_struct ''runtime_Allocator''], T_struct ''Regalloc_Output'')"

definition bac_add_local_addr_sig :: extern_sig where
  "bac_add_local_addr_sig = (''bac_add_local_addr'', [T_ptr (T_struct ''Proc''), T_struct ''String'', T_u32], T_u32)"

definition bac_add_local_sig :: extern_sig where
  "bac_add_local_sig = (''bac_add_local'', [T_ptr (T_struct ''Proc''), T_struct ''String'', T_u32], T_u32)"

definition bac_add_loop_sig :: extern_sig where
  "bac_add_loop_sig = (''bac_add_loop'', [T_ptr (T_struct ''Proc''), T_struct ''String'', T_u32], T_u32)"

definition bac_add_jump_sig :: extern_sig where
  "bac_add_jump_sig = (''bac_add_jump'', [T_ptr (T_struct ''Proc''), T_struct ''String'', T_u32], T_u32)"

definition bac_add_param_sig :: extern_sig where
  "bac_add_param_sig = (''bac_add_param'', [T_ptr (T_struct ''Proc''), T_struct ''String'', T_u8, T_u32, T_u32], T_u32)"

definition bac_add_phi_sig :: extern_sig where
  "bac_add_phi_sig = (''bac_add_phi'', [T_ptr (T_struct ''Proc''), T_struct ''String'', T_u8, T_u32, T_u32, T_u32], T_u32)"

definition bac_add_poison_sig :: extern_sig where
  "bac_add_poison_sig = (''bac_add_poison'', [T_ptr (T_struct ''Proc''), T_struct ''String''], T_u32)"

definition bac_add_proc_addr_sig :: extern_sig where
  "bac_add_proc_addr_sig = (''bac_add_proc_addr'', [T_ptr (T_struct ''Proc''), T_struct ''String'', T_u32], T_u32)"

definition bac_add_region_sig :: extern_sig where
  "bac_add_region_sig = (''bac_add_region'', [T_ptr (T_struct ''Proc''), T_struct ''String'', T_slice T_u32], T_u32)"

definition bac_add_ret_sig :: extern_sig where
  "bac_add_ret_sig = (''bac_add_ret'', [T_ptr (T_struct ''Proc''), T_struct ''String'', T_u8, T_u32, T_u32], T_u32)"

definition bac_add_return_sig :: extern_sig where
  "bac_add_return_sig = (''bac_add_return'', [T_ptr (T_struct ''Proc''), T_struct ''String'', T_slice T_u32], T_u32)"

definition bac_add_select_sig :: extern_sig where
  "bac_add_select_sig = (''bac_add_select'', [T_ptr (T_struct ''Proc''), T_struct ''String'', T_u8, T_u32, T_u32, T_u32], T_u32)"

definition bac_add_set_sig :: extern_sig where
  "bac_add_set_sig = (''bac_add_set'', [T_ptr (T_struct ''Proc''), T_struct ''String'', T_u32, T_u32, T_u32, T_u32, T_u32], T_u32)"

definition bac_add_split_sig :: extern_sig where
  "bac_add_split_sig = (''bac_add_split'', [T_ptr (T_struct ''Proc''), T_struct ''String'', T_u8, T_u32], T_u32)"

definition bac_add_split_mem_sig :: extern_sig where
  "bac_add_split_mem_sig = (''bac_add_split_mem'', [T_ptr (T_struct ''Proc''), T_struct ''String'', T_u32], T_u32)"

definition bac_add_store_sig :: extern_sig where
  "bac_add_store_sig = (''bac_add_store'', [T_ptr (T_struct ''Proc''), T_struct ''String'', T_u32, T_u32, T_u32, T_u32], T_u32)"

definition bac_add_sym_sig :: extern_sig where
  "bac_add_sym_sig = (''bac_add_sym'', [T_ptr (T_struct ''Proc''), T_struct ''String'', T_u32], T_u32)"

definition bac_add_then_sig :: extern_sig where
  "bac_add_then_sig = (''bac_add_then'', [T_ptr (T_struct ''Proc''), T_struct ''String'', T_u32], T_u32)"

definition bac_add_if_sig :: extern_sig where
  "bac_add_if_sig = (''bac_add_if'', [T_ptr (T_struct ''Proc''), T_struct ''String'', T_u32, T_u32], T_u32)"

definition bac_add_global_addr_sig :: extern_sig where
  "bac_add_global_addr_sig = (''bac_add_global_addr'', [T_ptr (T_struct ''Proc''), T_struct ''String'', T_u32], T_u32)"

definition bac_add_load_sig :: extern_sig where
  "bac_add_load_sig = (''bac_add_load'', [T_ptr (T_struct ''Proc''), T_struct ''String'', T_u8, T_u32, T_u32, T_u32], T_u32)"

definition bac_add_mem_sig :: extern_sig where
  "bac_add_mem_sig = (''bac_add_mem'', [T_ptr (T_struct ''Proc''), T_struct ''String'', T_u32], T_u32)"

definition bac_buf_checkpoint_sig :: extern_sig where
  "bac_buf_checkpoint_sig = (''bac_buf_checkpoint'', [T_ptr (T_struct ''Codegen_Emit_Buf'')], T_struct ''Codegen_Emit_Buf_Checkpoint'')"

definition bac_apply_peep_sig :: extern_sig where
  "bac_apply_peep_sig = (''bac_apply_peep'', [T_ptr (T_struct ''Proc''), T_u32], T_u32)"

definition bac_add_un_op_sig :: extern_sig where
  "bac_add_un_op_sig = (''bac_add_un_op'', [T_ptr (T_struct ''Proc''), T_struct ''String'', T_u16, T_u8, T_u32, T_u8], T_u32)"

definition bac_connect_sig :: extern_sig where
  "bac_connect_sig = (''bac_connect'', [T_ptr (T_struct ''Proc''), T_u32, T_u32], T_isize)"

definition bac_buf_output_sig :: extern_sig where
  "bac_buf_output_sig = (''bac_buf_output'', [T_struct ''Codegen_Emit_Buf'', T_struct ''Codegen_Emit_Buf_Checkpoint''], T_struct ''Codegen_Output'')"

definition bac_delete_node_node_id_sig :: extern_sig where
  "bac_delete_node_node_id_sig = (''bac_delete_node_node_id'', [T_ptr (T_struct ''Proc''), T_u32], T_unit)"

definition bac_expand_node_sig :: extern_sig where
  "bac_expand_node_sig = (''bac_expand_node'', [T_ptr (T_struct ''Proc''), T_u32], T_struct ''Expanded_Node'')"

definition bac_find_node_sig :: extern_sig where
  "bac_find_node_sig = (''bac_find_node'', [T_ptr (T_struct ''Proc''), T_u16, T_u32, T_ptr T_u32], T_bool)"

definition bac_find_or_create_node_sig :: extern_sig where
  "bac_find_or_create_node_sig = (''bac_find_or_create_node'', [T_ptr (T_struct ''Proc''), T_u16], T_u32)"

definition bac_delete_node_node_sig :: extern_sig where
  "bac_delete_node_node_sig = (''bac_delete_node_node'', [T_ptr (T_struct ''Proc''), T_ptr (T_struct ''Node'')], T_unit)"

definition bac_get_inputs_node_sig :: extern_sig where
  "bac_get_inputs_node_sig = (''bac_get_inputs_node'', [T_ptr (T_struct ''Proc''), T_ptr (T_struct ''Node'')], T_slice T_u32)"

definition bac_get_node_sig :: extern_sig where
  "bac_get_node_sig = (''bac_get_node'', [T_ptr (T_struct ''Proc''), T_u32], T_ptr (T_struct ''Node''))"

definition bac_get_inputs_node_id_sig :: extern_sig where
  "bac_get_inputs_node_id_sig = (''bac_get_inputs_node_id'', [T_ptr (T_struct ''Proc''), T_u32], T_slice T_u32)"

definition bac_get_sym_count_sig :: extern_sig where
  "bac_get_sym_count_sig = (''bac_get_sym_count'', [T_ptr (T_struct ''Proc''), T_ptr T_u32], T_isize)"

definition bac_add_end_sig :: extern_sig where
  "bac_add_end_sig = (''bac_add_end'', [T_ptr (T_struct ''Proc''), T_struct ''String'', T_slice T_u32], T_u32)"

definition bac_add_efficiency_stat_sig :: extern_sig where
  "bac_add_efficiency_stat_sig = (''bac_add_efficiency_stat'', [T_ptr (T_struct ''Stats''), T_isize, T_isize, T_isize], T_unit)"

definition bac_add_dbg_sym_update_sig :: extern_sig where
  "bac_add_dbg_sym_update_sig = (''bac_add_dbg_sym_update'', [T_ptr (T_struct ''Proc''), T_struct ''String'', T_u32, T_u32], T_u32)"

definition bac_add_else_sig :: extern_sig where
  "bac_add_else_sig = (''bac_add_else'', [T_ptr (T_struct ''Proc''), T_struct ''String'', T_u32], T_u32)"

definition bac_add_entry_sig :: extern_sig where
  "bac_add_entry_sig = (''bac_add_entry'', [T_ptr (T_struct ''Proc''), T_struct ''String''], T_u32)"

definition bac_add_copy_sig :: extern_sig where
  "bac_add_copy_sig = (''bac_add_copy'', [T_ptr (T_struct ''Proc''), T_struct ''String'', T_u32, T_u32, T_u32, T_u32, T_u32], T_u32)"

definition bac_add_call_end_sig :: extern_sig where
  "bac_add_call_end_sig = (''bac_add_call_end'', [T_ptr (T_struct ''Proc''), T_struct ''String'', T_u32], T_u32)"

definition bac_schedule_peeps_sig :: extern_sig where
  "bac_schedule_peeps_sig = (''bac_schedule_peeps'', [T_ptr (T_struct ''Proc''), T_ptr (T_struct ''Schedule'')], T_unit)"

definition bac_set_input_sig :: extern_sig where
  "bac_set_input_sig = (''bac_set_input'', [T_ptr (T_struct ''Proc''), T_u32, T_isize, T_u32, T_bool], T_u32)"

definition bac_pin_sig :: extern_sig where
  "bac_pin_sig = (''bac_pin'', [T_ptr (T_struct ''Proc''), T_u32], T_unit)"

definition bac_lane_from_dt_sig :: extern_sig where
  "bac_lane_from_dt_sig = (''bac_lane_from_dt'', [T_u8, T_ptr T_u8], T_bool)"

definition bac_sym_iter_next_sig :: extern_sig where
  "bac_sym_iter_next_sig = (''bac_sym_iter_next'', [T_ptr (T_struct ''Proc''), T_u32, T_ptr T_isize, T_ptr (T_struct ''Sym_Ref'')], T_bool)"

definition bac_sloc_scope_sig :: extern_sig where
  "bac_sloc_scope_sig = (''bac_sloc_scope'', [T_ptr (T_struct ''Proc''), T_struct ''Sloc'', T_ptr (T_ptr (T_struct ''Proc''))], T_struct ''Sloc'')"

definition bac_unpin_sig :: extern_sig where
  "bac_unpin_sig = (''bac_unpin'', [T_ptr (T_struct ''Proc''), T_u32, T_bool], T_unit)"

definition bac_set_local_size_sig :: extern_sig where
  "bac_set_local_size_sig = (''bac_set_local_size'', [T_ptr (T_struct ''Proc''), T_u32, T_i32], T_unit)"

definition bac_add_arbitrary_load_sig :: extern_sig where
  "bac_add_arbitrary_load_sig = (''bac_add_arbitrary_load'', [T_ptr (T_struct ''Proc''), T_u32, T_u32, T_u32, T_isize, T_isize, T_u8], T_u32)"

definition bac_add_field_load_sig :: extern_sig where
  "bac_add_field_load_sig = (''bac_add_field_load'', [T_ptr (T_struct ''Proc''), T_struct ''String'', T_u8, T_u32, T_u32, T_u32, T_isize], T_u32)"

definition bac_add_field_store_sig :: extern_sig where
  "bac_add_field_store_sig = (''bac_add_field_store'', [T_ptr (T_struct ''Proc''), T_struct ''String'', T_u32, T_u32, T_u32, T_isize, T_u32], T_u32)"

definition bac_add_arbitrary_store_sig :: extern_sig where
  "bac_add_arbitrary_store_sig = (''bac_add_arbitrary_store'', [T_ptr (T_struct ''Proc''), T_u32, T_u32, T_u32, T_u32, T_isize, T_isize, T_u8], T_u32)"

definition bac_add_scope_sig :: extern_sig where
  "bac_add_scope_sig = (''bac_add_scope'', [T_ptr (T_struct ''Proc''), T_struct ''String'', T_u32], T_u32)"

definition bac_arg_gen_finalize_sig :: extern_sig where
  "bac_arg_gen_finalize_sig = (''bac_arg_gen_finalize'', [T_ptr (T_struct ''Proc''), T_ptr (T_struct ''ssa_Param_Gen'')], T_slice (T_struct ''Param_Spec''))"

definition bac_arg_gen_next_sig :: extern_sig where
  "bac_arg_gen_next_sig = (''bac_arg_gen_next'', [T_ptr (T_struct ''Proc''), T_u32, T_ptr (T_struct ''ssa_Param_Gen''), T_struct ''String'', T_struct ''ssa_Abi_Param'', T_ptr T_u32], T_u32)"

definition bac_add_field_offset_sig :: extern_sig where
  "bac_add_field_offset_sig = (''bac_add_field_offset'', [T_ptr (T_struct ''Proc''), T_u32, T_isize], T_u32)"

definition bac_add_lazy_phi_sig :: extern_sig where
  "bac_add_lazy_phi_sig = (''bac_add_lazy_phi'', [T_ptr (T_struct ''Proc''), T_struct ''String'', T_u8, T_u32, T_u32], T_u32)"

definition bac_break_block_sig :: extern_sig where
  "bac_break_block_sig = (''bac_break_block'', [T_ptr (T_struct ''Proc''), T_ptr T_u32, T_ptr (T_struct ''ssa_Block_State'')], T_unit)"

definition bac_compute_index_offset_sig :: extern_sig where
  "bac_compute_index_offset_sig = (''bac_compute_index_offset'', [T_ptr (T_struct ''Proc''), T_u32, T_u32, T_i64], T_u32)"

definition bac_decl_local_sig :: extern_sig where
  "bac_decl_local_sig = (''bac_decl_local'', [T_ptr (T_struct ''Proc''), T_u32, T_struct ''String'', T_u64], T_unit)"

definition bac_end_block_sig :: extern_sig where
  "bac_end_block_sig = (''bac_end_block'', [T_ptr (T_struct ''Proc''), T_ptr T_u32, T_ptr (T_struct ''ssa_Block_State'')], T_unit)"

definition bac_end_else_sig :: extern_sig where
  "bac_end_else_sig = (''bac_end_else'', [T_ptr (T_struct ''Proc''), T_ptr T_u32, T_ptr (T_struct ''ssa_If_State'')], T_unit)"

definition bac_end_if_sig :: extern_sig where
  "bac_end_if_sig = (''bac_end_if'', [T_ptr (T_struct ''Proc''), T_ptr T_u32, T_ptr (T_struct ''ssa_If_State'')], T_unit)"

definition bac_add_dbg_scope_sig :: extern_sig where
  "bac_add_dbg_scope_sig = (''bac_add_dbg_scope'', [T_ptr (T_struct ''Proc''), T_struct ''String'', T_slice T_u32], T_u32)"

definition bac_add_c_int_sig :: extern_sig where
  "bac_add_c_int_sig = (''bac_add_c_int'', [T_ptr (T_struct ''Proc''), T_struct ''String'', T_u8, T_i64], T_u32)"

definition bac_add_always_sig :: extern_sig where
  "bac_add_always_sig = (''bac_add_always'', [T_ptr (T_struct ''Proc''), T_struct ''String'', T_slice T_u32], T_u32)"

definition bac_add_bin_op_sig :: extern_sig where
  "bac_add_bin_op_sig = (''bac_add_bin_op'', [T_ptr (T_struct ''Proc''), T_struct ''String'', T_u16, T_u8, T_u32, T_u32, T_u8], T_u32)"

definition bac_add_call_sig :: extern_sig where
  "bac_add_call_sig = (''bac_add_call'', [T_ptr (T_struct ''Proc''), T_struct ''String'', T_slice T_u32, T_struct ''Call''], T_u32)"

definition bac_add_dbg_sym_decl_sig :: extern_sig where
  "bac_add_dbg_sym_decl_sig = (''bac_add_dbg_sym_decl'', [T_ptr (T_struct ''Proc''), T_struct ''String''], T_u32)"

definition bac_add_global_sig :: extern_sig where
  "bac_add_global_sig = (''bac_add_global'', [T_ptr (T_struct ''Proc''), T_struct ''String'', T_u32], T_u32)"

definition bac_add_merge_mem_sig :: extern_sig where
  "bac_add_merge_mem_sig = (''bac_add_merge_mem'', [T_ptr (T_struct ''Proc''), T_struct ''String'', T_slice T_u32], T_u32)"

definition bac_add_trap_sig :: extern_sig where
  "bac_add_trap_sig = (''bac_add_trap'', [T_ptr (T_struct ''Proc''), T_struct ''String'', T_slice T_u32], T_u32)"

definition bac_init_custom_fmt_sig :: extern_sig where
  "bac_init_custom_fmt_sig = (''bac_init_custom_fmt'', [], T_unit)"

definition bac_end_loop_sig :: extern_sig where
  "bac_end_loop_sig = (''bac_end_loop'', [T_ptr (T_struct ''Proc''), T_ptr T_u32, T_ptr (T_struct ''ssa_Loop_State'')], T_unit)"

definition bac_start_block_sig :: extern_sig where
  "bac_start_block_sig = (''bac_start_block'', [T_ptr (T_struct ''ssa_Block_State'')], T_unit)"

definition bac_start_else_sig :: extern_sig where
  "bac_start_else_sig = (''bac_start_else'', [T_ptr (T_struct ''Proc''), T_ptr T_u32, T_ptr (T_struct ''ssa_If_State'')], T_unit)"

definition bac_start_if_sig :: extern_sig where
  "bac_start_if_sig = (''bac_start_if'', [T_ptr (T_struct ''Proc''), T_u32, T_ptr (T_struct ''ssa_If_State''), T_u32], T_unit)"

definition bac_make_call_sig :: extern_sig where
  "bac_make_call_sig = (''bac_make_call'', [T_ptr (T_struct ''Proc''), T_slice T_u32, T_struct ''Call'', T_ptr T_u32], T_u32)"

definition bac_loop_control_sig :: extern_sig where
  "bac_loop_control_sig = (''bac_loop_control'', [T_isize, T_ptr (T_struct ''Proc''), T_u32, T_ptr (T_struct ''ssa_Loop_State'')], T_unit)"

definition bac_get_scope_value_sig :: extern_sig where
  "bac_get_scope_value_sig = (''bac_get_scope_value'', [T_ptr (T_struct ''Proc''), T_u32, T_isize], T_u32)"

definition bac_start_loop_sig :: extern_sig where
  "bac_start_loop_sig = (''bac_start_loop'', [T_ptr (T_struct ''Proc''), T_u32, T_ptr (T_struct ''ssa_Loop_State'')], T_unit)"

definition bac_start_loop_increment_sig :: extern_sig where
  "bac_start_loop_increment_sig = (''bac_start_loop_increment'', [T_ptr (T_struct ''Proc''), T_ptr T_u32, T_ptr (T_struct ''ssa_Loop_State'')], T_unit)"

section \<open>The block\<close>

definition extern_sigs :: "extern_sig list" where
  "extern_sigs =
     [arna_init_from_buffer_sig, bac_start_proc_sig, bac_push_scope_value_sig, 
      bac_set_scope_value_sig, bac_delete_scope_sig, bac_truncate_scope_sig, bac_merge_return_sig, 
      bac_compile_sig, bac_opt_sig, bac_inline_graph_sig, bac_inline_stencil_sig, 
      bac_mount_stencil_sig, bac_apply_peeps_sig, bac_get_stencil_sig, bac_loopopt_sig, 
      bac_memopt_sig, bac_compact_sig, bac_compute_latices_sig, bac_schedule_graph_sig, 
      bac_take_dbg_data_sig, bac_regalloc_sig, bac_add_local_addr_sig, bac_add_local_sig, 
      bac_add_loop_sig, bac_add_jump_sig, bac_add_param_sig, bac_add_phi_sig, bac_add_poison_sig, 
      bac_add_proc_addr_sig, bac_add_region_sig, bac_add_ret_sig, bac_add_return_sig, 
      bac_add_select_sig, bac_add_set_sig, bac_add_split_sig, bac_add_split_mem_sig, 
      bac_add_store_sig, bac_add_sym_sig, bac_add_then_sig, bac_add_if_sig, 
      bac_add_global_addr_sig, bac_add_load_sig, bac_add_mem_sig, bac_buf_checkpoint_sig, 
      bac_apply_peep_sig, bac_add_un_op_sig, bac_connect_sig, bac_buf_output_sig, 
      bac_delete_node_node_id_sig, bac_expand_node_sig, bac_find_node_sig, 
      bac_find_or_create_node_sig, bac_delete_node_node_sig, bac_get_inputs_node_sig, 
      bac_get_node_sig, bac_get_inputs_node_id_sig, bac_get_sym_count_sig, bac_add_end_sig, 
      bac_add_efficiency_stat_sig, bac_add_dbg_sym_update_sig, bac_add_else_sig, bac_add_entry_sig, 
      bac_add_copy_sig, bac_add_call_end_sig, bac_schedule_peeps_sig, bac_set_input_sig, 
      bac_pin_sig, bac_lane_from_dt_sig, bac_sym_iter_next_sig, bac_sloc_scope_sig, bac_unpin_sig, 
      bac_set_local_size_sig, bac_add_arbitrary_load_sig, bac_add_field_load_sig, 
      bac_add_field_store_sig, bac_add_arbitrary_store_sig, bac_add_scope_sig, 
      bac_arg_gen_finalize_sig, bac_arg_gen_next_sig, bac_add_field_offset_sig, 
      bac_add_lazy_phi_sig, bac_break_block_sig, bac_compute_index_offset_sig, bac_decl_local_sig, 
      bac_end_block_sig, bac_end_else_sig, bac_end_if_sig, bac_add_dbg_scope_sig, 
      bac_add_c_int_sig, bac_add_always_sig, bac_add_bin_op_sig, bac_add_call_sig, 
      bac_add_dbg_sym_decl_sig, bac_add_global_sig, bac_add_merge_mem_sig, bac_add_trap_sig, 
      bac_init_custom_fmt_sig, bac_end_loop_sig, bac_start_block_sig, bac_start_else_sig, 
      bac_start_if_sig, bac_make_call_sig, bac_loop_control_sig, bac_get_scope_value_sig, 
      bac_start_loop_sig, bac_start_loop_increment_sig]"

text \<open>The statics, with the type of each: a struct, or an array of so many structs.\<close>

definition extern_statics :: "(string \<times> nat option \<times> string) list" where
  "extern_statics =
     [(''bac_amd64_CC_TABLE'', Some 2, ''Call_Conv''),
      (''bac_arm_CC_TABLE'', Some 1, ''Call_Conv''),
      (''bac_amd64_SPEC'', None, ''Node_Spec''),
      (''bac_arm_SPEC'', None, ''Node_Spec''),
      (''bac_arm_OPT_HINTS'', None, ''Opt_Hints''),
      (''bac_intel_xelp_CC_TABLE'', Some 1, ''Call_Conv''),
      (''bac_intel_xelp_SPEC'', None, ''Node_Spec''),
      (''bac_intel_xelp_OPT_HINTS'', None, ''Opt_Hints''),
      (''bac_ssa_SPEC'', None, ''Node_Spec''),
      (''bac_amd64_OPT_HINTS'', None, ''Opt_Hints''),
      (''bac_NIL_NODE'', None, ''Nil_Node''),
      (''bac_wasm_CC_TABLE'', Some 1, ''Call_Conv''),
      (''bac_wasm_OPT_HINTS'', None, ''Opt_Hints''),
      (''bac_wasm_SPEC'', None, ''Node_Spec'')]"

lemmas sig_defs =
  arna_init_from_buffer_sig_def bac_start_proc_sig_def bac_push_scope_value_sig_def
  bac_set_scope_value_sig_def bac_delete_scope_sig_def bac_truncate_scope_sig_def
  bac_merge_return_sig_def bac_compile_sig_def bac_opt_sig_def bac_inline_graph_sig_def
  bac_inline_stencil_sig_def bac_mount_stencil_sig_def bac_apply_peeps_sig_def
  bac_get_stencil_sig_def bac_loopopt_sig_def bac_memopt_sig_def bac_compact_sig_def
  bac_compute_latices_sig_def bac_schedule_graph_sig_def bac_take_dbg_data_sig_def
  bac_regalloc_sig_def bac_add_local_addr_sig_def bac_add_local_sig_def bac_add_loop_sig_def
  bac_add_jump_sig_def bac_add_param_sig_def bac_add_phi_sig_def bac_add_poison_sig_def
  bac_add_proc_addr_sig_def bac_add_region_sig_def bac_add_ret_sig_def bac_add_return_sig_def
  bac_add_select_sig_def bac_add_set_sig_def bac_add_split_sig_def bac_add_split_mem_sig_def
  bac_add_store_sig_def bac_add_sym_sig_def bac_add_then_sig_def bac_add_if_sig_def
  bac_add_global_addr_sig_def bac_add_load_sig_def bac_add_mem_sig_def
  bac_buf_checkpoint_sig_def bac_apply_peep_sig_def bac_add_un_op_sig_def bac_connect_sig_def
  bac_buf_output_sig_def bac_delete_node_node_id_sig_def bac_expand_node_sig_def
  bac_find_node_sig_def bac_find_or_create_node_sig_def bac_delete_node_node_sig_def
  bac_get_inputs_node_sig_def bac_get_node_sig_def bac_get_inputs_node_id_sig_def
  bac_get_sym_count_sig_def bac_add_end_sig_def bac_add_efficiency_stat_sig_def
  bac_add_dbg_sym_update_sig_def bac_add_else_sig_def bac_add_entry_sig_def bac_add_copy_sig_def
  bac_add_call_end_sig_def bac_schedule_peeps_sig_def bac_set_input_sig_def bac_pin_sig_def
  bac_lane_from_dt_sig_def bac_sym_iter_next_sig_def bac_sloc_scope_sig_def bac_unpin_sig_def
  bac_set_local_size_sig_def bac_add_arbitrary_load_sig_def bac_add_field_load_sig_def
  bac_add_field_store_sig_def bac_add_arbitrary_store_sig_def bac_add_scope_sig_def
  bac_arg_gen_finalize_sig_def bac_arg_gen_next_sig_def bac_add_field_offset_sig_def
  bac_add_lazy_phi_sig_def bac_break_block_sig_def bac_compute_index_offset_sig_def
  bac_decl_local_sig_def bac_end_block_sig_def bac_end_else_sig_def bac_end_if_sig_def
  bac_add_dbg_scope_sig_def bac_add_c_int_sig_def bac_add_always_sig_def bac_add_bin_op_sig_def
  bac_add_call_sig_def bac_add_dbg_sym_decl_sig_def bac_add_global_sig_def
  bac_add_merge_mem_sig_def bac_add_trap_sig_def bac_init_custom_fmt_sig_def
  bac_end_loop_sig_def bac_start_block_sig_def bac_start_else_sig_def bac_start_if_sig_def
  bac_make_call_sig_def bac_loop_control_sig_def bac_get_scope_value_sig_def
  bac_start_loop_sig_def bac_start_loop_increment_sig_def

lemma extern_names_distinct: "distinct (map fst extern_sigs)"
  by code_simp

text \<open>What a declaration says of a call of the function it declares.\<close>

lemma well_typed_callI:
  assumes "(f, ts, t) \<in> set extern_sigs" "map tag_of args = ts"
  shows "well_typed_call extern_sigs f args"
  using assms map_of_eq_Some_iff [OF extern_names_distinct, of f "(ts, t)"]
  by (simp add: well_typed_call_def)

end
