(* ===== verification/Arena.thy ===== *)
theory Arena
  imports Arna_Life
begin

text \<open>
  The crate's \<^verbatim>\<open>Arena\<close> (\<^verbatim>\<open>lib.rs\<close>): an Odin allocator over a heap block the crate owns or over a
  borrowed buffer, told apart by the \<^verbatim>\<open>commited\<close> field. The theorems follow an owned arena through its
  life: what \<^verbatim>\<open>new\<close> obtains from the global allocator, what the Odin side may do with it in between,
  and that \<^verbatim>\<open>drop\<close> gives back exactly that block.
\<close>

section \<open>The global allocator\<close>

text \<open>
  \<^verbatim>\<open>alloc_zeroed\<close> and \<^verbatim>\<open>dealloc\<close>: which address the allocator picks is an argument, 0 for failure. A block
  may be given back once, at its address and with the layout it was allocated with.
\<close>

type_synonym global_alloc = "machine \<Rightarrow> alloc_layout \<Rightarrow> u64"

definition alloc_zeroed :: "global_alloc \<Rightarrow> alloc_layout \<Rightarrow> u64 act" where
  "alloc_zeroed ga l =
     bindM (getM (\<lambda>m. ga m l)) (\<lambda>p.
     if p = 0 then ret 0
     else bindM (modifyM (\<lambda>m. (write_bytes p (replicate (unat (layout_size l)) 0) m)
                               \<lparr>heap := (p, l) # heap m\<rparr>)) (\<lambda>_.
          ret p))"

definition dealloc :: "u64 \<Rightarrow> alloc_layout \<Rightarrow> unit act" where
  "dealloc p l =
     bindM (getM heap) (\<lambda>h.
     bindM (requireM ((p, l) \<in> set h) ''dealloc'') (\<lambda>_.
     modifyM (\<lambda>m. m\<lparr>heap := remove1 (p, l) h\<rparr>)))"

text \<open>The documented behaviour of the allocator: a block it hands out is aligned, does not wrap and is free.\<close>

definition global_alloc_ok :: "global_alloc \<Rightarrow> bool" where
  "global_alloc_ok ga \<longleftrightarrow> (\<forall>m l. ga m l \<noteq> 0 \<longrightarrow>
     unat (layout_align l) dvd unat (ga m l) \<and> region_ok (ga m l) (unat (layout_size l)) \<and>
     (\<forall>(p, k) \<in> set (heap m). apart p (unat (layout_size k)) (ga m l) (unat (layout_size l))))"

text \<open>Memory that is in use is not handed out.\<close>

definition in_use :: "global_alloc \<Rightarrow> machine \<Rightarrow> u64 \<Rightarrow> nat \<Rightarrow> bool" where
  "in_use ga m p n \<longleftrightarrow> region_ok p n \<and> (\<forall>l. ga m l \<noteq> 0 \<longrightarrow> apart p n (ga m l) (unat (layout_size l)))"

section \<open>Operations\<close>

definition MIN_ALIGN :: usize where
  "MIN_ALIGN = 4096"

text \<open>\<^verbatim>\<open>Layout::from_size_align\<close> refuses sizes that exceed \<^verbatim>\<open>isize::MAX\<close> when rounded up to the alignment.\<close>

definition Layout_from_size_align :: "usize \<Rightarrow> usize \<Rightarrow> alloc_layout option" where
  "Layout_from_size_align sz al =
     (if is_power_of_two al \<and> unat sz + (unat al - 1) \<le> isize_max
      then Some \<lparr>layout_size = sz, layout_align = al\<rparr> else None)"

definition arena_layout :: "usize \<Rightarrow> alloc_layout act" where
  "arena_layout capacity =
     bindM (assertM (unat capacity < isize_max) ''assertion failed: capacity < isize::MAX as usize'') (\<lambda>_.
     expectM (Layout_from_size_align (max capacity 1) MIN_ALIGN) ''invalid arena capacity'')"

definition arena_raw :: "u64 \<Rightarrow> usize \<Rightarrow> arna_Allocator res" where
  "arena_raw data len =
     (if unat len < isize_max
      then Inr (init_from_buffer \<lparr>slice_data = data, slice_len = len\<rparr>)
      else Inl (Panic ''assertion failed: len < isize::MAX as usize''))"

definition Arena_new :: "global_alloc \<Rightarrow> usize \<Rightarrow> arna_Allocator act" where
  "Arena_new ga capacity =
     bindM (arena_layout capacity) (\<lambda>layout.
     bindM (alloc_zeroed ga layout) (\<lambda>data.
     bindM (if data = 0 then fail (Panic ''handle_alloc_error'') else ret ()) (\<lambda>_.
     bindM (liftM (arena_raw data capacity)) (\<lambda>raw.
     ret (raw\<lparr>arena_commited := capacity + 2\<rparr>)))))"

definition Arena_copy :: "global_alloc \<Rightarrow> slice_ref \<Rightarrow> arna_Allocator act" where
  "Arena_copy ga bs =
     bindM (Arena_new ga (ref_len bs)) (\<lambda>arena.
     bindM (copy_nonoverlapping (ref_ptr bs) (arena_ptr arena) (unat (ref_len bs))) (\<lambda>_.
     ret (arena\<lparr>arena_pos := ref_len bs\<rparr>)))"

definition Arena_from_buffer :: "slice_ref \<Rightarrow> arna_Allocator res" where
  "Arena_from_buffer buffer =
     (if ref_ptr buffer mod MIN_ALIGN = 0
      then arena_raw (ref_ptr buffer) (ref_len buffer)
      else Inl (Panic ''arena buffer must be page aligned''))"

definition Arena_bytes :: "arna_Allocator \<Rightarrow> slice_ref res" where
  "Arena_bytes self =
     (if arena_pos self = 0 then Inr (empty_ref 1)
      else from_raw_parts 1 1 (arena_ptr self) (arena_pos self))"

definition Arena_reset :: "arna_Allocator \<Rightarrow> arna_Allocator" where
  "Arena_reset self = self\<lparr>arena_pos := 0\<rparr>"

definition Arena_default :: arna_Allocator where
  "Arena_default = arna_Allocator_default"

definition Arena_drop :: "arna_Allocator \<Rightarrow> unit act" where
  "Arena_drop self =
     (if arena_commited self = arena_reserved self + 2
      then bindM (arena_layout (arena_reserved self)) (\<lambda>layout. dealloc (arena_ptr self) layout)
      else ret ())"

section \<open>Owned and borrowed arenas\<close>

text \<open>The layout a capacity has, once it is accepted.\<close>

definition layout_for :: "usize \<Rightarrow> alloc_layout" where
  "layout_for capacity = \<lparr>layout_size = max capacity 1, layout_align = MIN_ALIGN\<rparr>"

definition capacity_ok :: "usize \<Rightarrow> bool" where
  "capacity_ok capacity \<longleftrightarrow> unat capacity + 4095 \<le> isize_max"

lemma arena_layout_cases:
  "arena_layout capacity =
     (if capacity_ok capacity then ret (layout_for capacity)
      else if unat capacity < isize_max then fail (Panic ''invalid arena capacity'')
      else fail (Panic ''assertion failed: capacity < isize::MAX as usize''))"
proof -
  have "unat (max capacity 1) = max (unat capacity) 1"
    by (simp add: max_def word_le_nat_alt)
  moreover have "is_power_of_two 4096" by (simp add: is_power_of_two_def)
  ultimately have "Layout_from_size_align (max capacity 1) MIN_ALIGN =
      (if capacity_ok capacity then Some (layout_for capacity) else None)"
    by (auto simp: Layout_from_size_align_def capacity_ok_def layout_for_def MIN_ALIGN_def isize_max_def)
  moreover have "capacity_ok capacity \<Longrightarrow> unat capacity < isize_max"
    by (simp add: capacity_ok_def)
  ultimately show ?thesis by (auto simp: arena_layout_def)
qed

definition owned :: "arna_Allocator \<Rightarrow> bool" where
  "owned x \<longleftrightarrow> arena_commited x = arena_reserved x + 2 \<and> capacity_ok (arena_reserved x)"

lemma Arena_drop_owned:
  assumes "owned x" "(arena_ptr x, layout_for (arena_reserved x)) \<in> set (heap m)"
  shows "Arena_drop x m = (Inr (), m\<lparr>heap := remove1 (arena_ptr x, layout_for (arena_reserved x)) (heap m)\<rparr>)"
  using assms by (simp add: Arena_drop_def owned_def arena_layout_cases dealloc_def)

lemma global_alloc_okD:
  assumes "global_alloc_ok ga" "ga m l \<noteq> 0"
  shows "unat (layout_align l) dvd unat (ga m l)" "region_ok (ga m l) (unat (layout_size l))"
  using assms by (auto simp: global_alloc_ok_def)

lemma layout_for_align [simp]: "layout_align (layout_for capacity) = MIN_ALIGN"
  by (simp add: layout_for_def)

lemma Arena_new_ok:
  assumes ga: "global_alloc_ok ga" and c: "capacity_ok capacity" and p: "ga m (layout_for capacity) \<noteq> 0"
  obtains x m' where "Arena_new ga capacity m = (Inr x, m')" "arena_ok x" "owned x"
    "arena_ptr x = ga m (layout_for capacity)" "arena_reserved x = capacity" "arena_pos x = 0"
    "heap m' = (arena_ptr x, layout_for capacity) # heap m" "arenas m' = arenas m" "procs m' = procs m"
    "memory m' = store_bytes (memory m) (arena_ptr x) (replicate (max (unat capacity) 1) 0)"
proof
  let ?p = "ga m (layout_for capacity)"
  let ?x = "\<lparr>arena_ptr = ?p, arena_pos = 0, arena_commited = capacity + 2, arena_reserved = capacity\<rparr>"
  let ?m = "(write_bytes ?p (replicate (max (unat capacity) 1) 0) m)
      \<lparr>heap := (?p, layout_for capacity) # heap m\<rparr>"
  have sz: "unat (layout_size (layout_for capacity)) = max (unat capacity) 1"
    by (simp add: layout_for_def max_def word_le_nat_alt)
  have lt: "unat capacity < isize_max" using c by (simp add: capacity_ok_def)
  show "Arena_new ga capacity m = (Inr ?x, ?m)"
    using c p lt by (simp add: Arena_new_def arena_layout_cases alloc_zeroed_def arena_raw_def
        init_from_buffer_def liftM_apply ret_apply sz)
  have "unat (MIN_ALIGN) dvd unat ?p" "region_ok ?p (max (unat capacity) 1)"
    using global_alloc_okD [OF ga p] sz by simp_all
  moreover have "capacity < capacity + 2"
    using c unat_add_no_wrap [of capacity 2] by (simp add: capacity_ok_def isize_max_def word_less_nat_alt)
  ultimately show "arena_ok ?x"
    using p lt by (simp add: arena_ok_def MIN_ALIGN_def region_ok_def)
  show "owned ?x" using c by (simp add: owned_def)
qed (simp_all)

lemma Arena_new_inv:
  assumes "Arena_new ga capacity m = (Inr x, m')"
  shows "capacity_ok capacity" "ga m (layout_for capacity) \<noteq> 0"
  using assms by (auto simp: Arena_new_def arena_layout_cases alloc_zeroed_def split: if_splits)

text \<open>
  Whatever the Odin side does with a buffer arena, with any sizes, it only moves the position: the
  buffer, the mark of its owner and the heap stay as they are.
\<close>

definition same_buffer :: "u64 \<Rightarrow> arna_Allocator \<Rightarrow> (u64 \<times> alloc_layout) list \<Rightarrow> machine \<Rightarrow> bool" where
  "same_buffer a x h m \<longleftrightarrow> arena_ptr (arenas m a) = arena_ptr x \<and>
     arena_reserved (arenas m a) = arena_reserved x \<and> arena_commited (arenas m a) = arena_commited x \<and>
     arena_reserved x < arena_commited x \<and> heap m = h"

lemma same_buffer_put_pos [intro]: "preserves (same_buffer a x h) (put_arena a (arena_pos_update f))"
  by (auto simp: preserves_def same_buffer_def put_arena_def)

lemma same_buffer_get [intro]: "preserves (same_buffer a x h) (get_arena a)"
  by (auto simp: get_arena_def)

lemma same_buffer_modify_bytes [intro]: "preserves (same_buffer a x h) (modifyM (write_bytes p bs))"
  by (auto simp: preserves_def same_buffer_def)

lemma same_buffer_copy [intro]: "preserves (same_buffer a x h) (copy_nonoverlapping p q n)"
proof -
  have "preserves (same_buffer a x h) (modifyM (\<lambda>m. write_bytes q (load_bytes (memory m) p n) m))"
    by (auto simp: preserves_def same_buffer_def)
  then show ?thesis by (auto simp: copy_nonoverlapping_def)
qed

lemma same_buffer_alloc [intro]: "preserves (same_buffer a x h) (arna_alloc commit a sz al z)"
proof (rule preservesI)
  fix m assume m: "same_buffer a x h m"
  let ?e = "align_forward_uint (arena_pos (arenas m a)) al + sz"
  show "same_buffer a x h (snd (arna_alloc commit a sz al z m))"
  proof (cases "is_power_of_two al \<and> al \<le> PAGE_SIZE \<and> \<not> arena_reserved x < ?e")
    case True
    with m have "\<not> arena_commited (arenas m a) < ?e" by (auto simp: same_buffer_def)
    with True m show ?thesis
      by (auto simp: same_buffer_def arna_alloc_def Let_def get_arena_def put_arena_def)
  next
    case False
    with m show ?thesis
      by (auto simp: same_buffer_def arna_alloc_def Let_def get_arena_def assertM_def)
  qed
qed

lemma same_buffer_perform: "preserves (same_buffer a x h) (perform commit decommit a rq)"
proof -
  have rs: "preserves (same_buffer a x h) (arna_resize commit a sz al p n z l)" for sz al p n z l
    unfolding arna_resize_def by auto
  have "preserves (same_buffer a x h) (arna_reset decommit a False)"
    unfolding arna_reset_def by auto
  then have "preserves (same_buffer a x h) (arna_allocator_proc commit decommit a mode sz al p n)" for mode sz al p n
    unfolding arna_allocator_proc_def Let_def using rs by (cases mode) auto
  then show ?thesis by (cases rq) auto
qed

lemma same_buffer_steps:
  assumes "(client_step commit decommit a)\<^sup>*\<^sup>* (m0, bs0) (m, bs)" "same_buffer a x h m0"
  shows "same_buffer a x h m"
  using assms(1)
proof (induction rule: rtranclp_induct2)
  case (step m bs m' bs')
  from step.hyps(2) obtain rq r where "perform commit decommit a rq m = (Inr r, m')"
    by (rule client_stepE)
  then show ?case using preservesD [OF same_buffer_perform step.IH, of commit decommit rq] by simp
qed (rule assms(2))

lemma Arena_copy_ok:
  assumes ga: "global_alloc_ok ga" and r: "slice_ref_ok 1 1 r" and c: "capacity_ok (ref_len r)"
    and p: "ga m (layout_for (ref_len r)) \<noteq> 0" and u: "in_use ga m (ref_ptr r) (unat (ref_len r))"
  obtains x m' where "Arena_copy ga r m = (Inr x, m')" "arena_ok x" "owned x"
    "arena_pos x = ref_len r" "arena_reserved x = ref_len r"
    "arena_ptr x = ga m (layout_for (ref_len r))"
    "load_bytes (memory m') (arena_ptr x) (unat (ref_len r)) = ref_bytes (memory m) r"
    "ref_bytes (memory m') r = ref_bytes (memory m) r"
    "heap m' = (arena_ptr x, layout_for (ref_len r)) # heap m" "arenas m' = arenas m" "procs m' = procs m"
proof -
  let ?n = "unat (ref_len r)"
  obtain x m' where x: "Arena_new ga (ref_len r) m = (Inr x, m')" "arena_ok x" "owned x"
    "arena_ptr x = ga m (layout_for (ref_len r))" "arena_reserved x = ref_len r" "arena_pos x = 0"
    "heap m' = (arena_ptr x, layout_for (ref_len r)) # heap m" "arenas m' = arenas m" "procs m' = procs m"
    "memory m' = store_bytes (memory m) (arena_ptr x) (replicate (max ?n 1) 0)"
    using Arena_new_ok [OF ga c p] .
  have sz: "unat (layout_size (layout_for (ref_len r))) = max ?n 1"
    by (simp add: layout_for_def max_def word_le_nat_alt)
  have rs: "region_ok (ref_ptr r) ?n" "region_ok (arena_ptr x) (max ?n 1)"
    using u global_alloc_okD(2) [OF ga p] sz x(4) by (auto simp: in_use_def)
  have ap: "apart (ref_ptr r) ?n (arena_ptr x) (max ?n 1)"
    using u p sz x(4) unfolding in_use_def by metis
  then have ap': "apart (ref_ptr r) ?n (arena_ptr x) ?n" by (auto simp: apart_def)
  have src: "ref_bytes (memory m') r = ref_bytes (memory m) r"
    using rs ap by (simp add: x(10) ref_bytes_def load_store_apart)
  let ?m = "write_bytes (arena_ptr x) (load_bytes (memory m') (ref_ptr r) ?n) m'"
  have rx: "region_ok (arena_ptr x) ?n" using rs(2) by (auto simp: region_ok_def)
  have "copy_nonoverlapping (ref_ptr r) (arena_ptr x) ?n m' = (Inr (), ?m)"
    using r p x(4) rs(1) ap' rx
    by (intro copy_nonoverlapping_ok) (auto simp: slice_ref_ok_def from_raw_parts_ok_def)
  then have run: "Arena_copy ga r m = (Inr (x\<lparr>arena_pos := ref_len r\<rparr>), ?m)"
    using x(1) by (simp add: Arena_copy_def ret_apply)
  moreover have "load_bytes (memory ?m) (arena_ptr x) ?n = ref_bytes (memory m) r"
    using src by (simp add: load_store_prefix ref_bytes_def)
  moreover have "ref_bytes (memory ?m) r = ref_bytes (memory m) r"
    using src rs(1) ap' rx by (simp add: ref_bytes_def load_store_apart)
  ultimately show thesis
    using that [of "x\<lparr>arena_pos := ref_len r\<rparr>" ?m] x by (simp add: arena_ok_def owned_def)
qed

lemma Arena_bytes_ok:
  assumes "arena_ok x"
  shows "\<exists>r. Arena_bytes x = Inr r \<and> slice_ref_ok 1 1 r \<and> ref_len r = arena_pos x \<and>
    (\<forall>m. ref_bytes m r = load_bytes m (arena_ptr x) (unat (arena_pos x))) \<and>
    (arena_pos x \<noteq> 0 \<longrightarrow> ref_ptr r = arena_ptr x)"
proof -
  have "unat (arena_pos x) \<le> isize_max" using arena_okD [OF assms] by simp
  then show ?thesis
    using assms by (auto simp: Arena_bytes_def arena_ok_def from_raw_parts_def from_raw_parts_ok_def
        slice_ref_ok_def ref_bytes_def empty_ref_def isize_max_def)
qed

section \<open>Properties\<close>

text \<open>
  \<^verbatim>\<open>Arena::new\<close> with a working global allocator. A capacity that cannot be laid out panics before
  anything is allocated; otherwise it fails only when the allocator does, and the arena it returns
  is a well-formed, empty, zeroed arena of exactly that capacity over one new block of the heap.
\<close>

lemma Arena_new_correct:
  assumes "global_alloc_ok ga"
  shows "(\<not> capacity_ok capacity \<longrightarrow> (\<exists>msg. Arena_new ga capacity m = (Inl (Panic msg), m))) \<and>
    (capacity_ok capacity \<longrightarrow> ga m (layout_for capacity) = 0 \<longrightarrow>
       Arena_new ga capacity m = (Inl (Panic ''handle_alloc_error''), m)) \<and>
    (capacity_ok capacity \<longrightarrow> ga m (layout_for capacity) \<noteq> 0 \<longrightarrow>
       (\<exists>x m'. Arena_new ga capacity m = (Inr x, m') \<and> arena_ok x \<and> owned x \<and>
          arena_reserved x = capacity \<and> Arena_bytes x = Inr (empty_ref 1) \<and>
          heap m' = (arena_ptr x, layout_for capacity) # heap m \<and>
          load_bytes (memory m') (arena_ptr x) (unat capacity) = replicate (unat capacity) 0))"
proof -
  have "\<exists>msg. Arena_new ga capacity m = (Inl (Panic msg), m)" if "\<not> capacity_ok capacity"
    using that by (auto simp: Arena_new_def arena_layout_cases)
  moreover have "Arena_new ga capacity m = (Inl (Panic ''handle_alloc_error''), m)"
    if "capacity_ok capacity" "ga m (layout_for capacity) = 0"
    using that by (simp add: Arena_new_def arena_layout_cases alloc_zeroed_def)
  moreover have "\<exists>x m'. Arena_new ga capacity m = (Inr x, m') \<and> arena_ok x \<and> owned x \<and>
      arena_reserved x = capacity \<and> Arena_bytes x = Inr (empty_ref 1) \<and>
      heap m' = (arena_ptr x, layout_for capacity) # heap m \<and>
      load_bytes (memory m') (arena_ptr x) (unat capacity) = replicate (unat capacity) 0"
    if "capacity_ok capacity" "ga m (layout_for capacity) \<noteq> 0"
    by (rule Arena_new_ok [OF assms that]) (auto simp: load_store_prefix Arena_bytes_def)
  ultimately show ?thesis by blast
qed

text \<open>A global allocator that serves one block of at most a page, for the concrete instances below.\<close>

definition one_block :: global_alloc where
  "one_block m l = (if heap m = [] \<and> unat (layout_size l) \<le> 4096 \<and> unat (layout_align l) dvd 0x10000
     then 0x10000 else 0)"

lemma one_block_ok: "global_alloc_ok one_block"
  by (simp add: global_alloc_ok_def one_block_def region_ok_def)

text \<open>
  C33: the life of an owned arena. After \<^verbatim>\<open>new\<close>, stored anywhere and used through the Odin allocator by
  any sequence of requests, \<^verbatim>\<open>drop\<close> gives back exactly the block \<^verbatim>\<open>new\<close> obtained, with its layout, and
  nothing else; an arena made from a borrowed buffer frees nothing, ever.
\<close>

theorem Arena_life_cycle:
  assumes "global_alloc_ok ga" "Arena_new ga capacity m = (Inr x, m1)"
    "(client_step commit decommit a)\<^sup>*\<^sup>* (set_arena a x m1, []) (m2, bs)"
    "Arena_from_buffer buffer = Inr y"
    "(client_step commit decommit b)\<^sup>*\<^sup>* (set_arena b y k1, []) (k2, cs)"
  shows "(\<exists>m3. Arena_drop (arenas m2 a) m2 = (Inr (), m3) \<and> heap m3 = heap m) \<and>
    (\<exists>k3. Arena_drop (arenas k2 b) k2 = (Inr (), k3) \<and> heap k3 = heap k1)"
proof
  note c = Arena_new_inv [OF assms(2)]
  obtain x' m1' where n: "Arena_new ga capacity m = (Inr x', m1')" "arena_ok x'" "owned x'"
    "arena_reserved x' = capacity" "heap m1' = (arena_ptr x', layout_for capacity) # heap m"
    using Arena_new_ok [OF assms(1) c] by metis
  then have x: "arena_ok x" "owned x" "arena_reserved x = capacity"
    "heap m1 = (arena_ptr x, layout_for capacity) # heap m"
    using assms(2) by auto
  have "same_buffer a x (heap m1) (set_arena a x m1)"
    using x(1) by (simp add: same_buffer_def arena_ok_def)
  then have "same_buffer a x (heap m1) m2" by (rule same_buffer_steps [OF assms(3)])
  then show "\<exists>m3. Arena_drop (arenas m2 a) m2 = (Inr (), m3) \<and> heap m3 = heap m"
    using x Arena_drop_owned [of "arenas m2 a" m2] by (auto simp: same_buffer_def owned_def)
next
  have y: "arena_commited y = arena_reserved y + 1" "unat (arena_reserved y) < isize_max"
    using assms(4) by (auto simp: Arena_from_buffer_def arena_raw_def init_from_buffer_def split: if_splits)
  have "arena_reserved y < arena_commited y"
    using y unat_add_no_wrap [of "arena_reserved y" 1] by (simp add: word_less_nat_alt isize_max_def)
  then have "same_buffer b y (heap k1) (set_arena b y k1)" by (simp add: same_buffer_def)
  then have "same_buffer b y (heap k1) k2" by (rule same_buffer_steps [OF assms(5)])
  then show "\<exists>k3. Arena_drop (arenas k2 b) k2 = (Inr (), k3) \<and> heap k3 = heap k1"
    using y by (simp add: same_buffer_def Arena_drop_def)
qed

theorem Arena_life_cycle_witness:
  "\<exists>x m1 y m3. Arena_new one_block 64 sample_machine = (Inr x, m1) \<and> heap m1 \<noteq> [] \<and>
     Arena_from_buffer \<lparr>ref_ptr = 0x3000, ref_len = 128\<rparr> = Inr y \<and>
     Arena_drop x (set_arena 0 x m1) = (Inr (), m3) \<and> heap m3 = []"
proof -
  have c: "capacity_ok 64" "one_block sample_machine (layout_for 64) \<noteq> 0"
    by (simp_all add: capacity_ok_def isize_max_def one_block_def layout_for_def MIN_ALIGN_def max_def)
  obtain x m1 where x: "Arena_new one_block 64 sample_machine = (Inr x, m1)"
    "heap m1 = (arena_ptr x, layout_for 64) # heap sample_machine"
    using Arena_new_ok [OF one_block_ok c] by metis
  obtain y where y: "Arena_from_buffer \<lparr>ref_ptr = 0x3000, ref_len = 128\<rparr> = Inr y"
    by (simp add: Arena_from_buffer_def MIN_ALIGN_def arena_raw_def isize_max_def)
  from Arena_life_cycle [OF one_block_ok x(1) rtranclp.rtrancl_refl y rtranclp.rtrancl_refl, of 0 0 sample_machine]
  show ?thesis using x y by auto
qed

text \<open>
  \<^verbatim>\<open>Arena::copy\<close> of bytes that are in use makes an owned arena that reads back as those bytes,
  with its own storage, and leaves the original as it was; it panics only for sizes that cannot be laid out.
\<close>

lemma Arena_copy_round_trip:
  assumes "global_alloc_ok ga" "slice_ref_ok 1 1 r" "capacity_ok (ref_len r)"
    "ga m (layout_for (ref_len r)) \<noteq> 0" "in_use ga m (ref_ptr r) (unat (ref_len r))"
  shows "\<exists>x m' r'. Arena_copy ga r m = (Inr x, m') \<and> arena_ok x \<and> owned x \<and>
    Arena_bytes x = Inr r' \<and> ref_bytes (memory m') r' = ref_bytes (memory m) r \<and>
    ref_bytes (memory m') r = ref_bytes (memory m) r \<and>
    apart (ref_ptr r) (unat (ref_len r)) (arena_ptr x) (unat (ref_len r))"
proof -
  obtain x m' where x: "Arena_copy ga r m = (Inr x, m')" "arena_ok x" "owned x"
    "arena_pos x = ref_len r" "arena_reserved x = ref_len r"
    "arena_ptr x = ga m (layout_for (ref_len r))"
    "load_bytes (memory m') (arena_ptr x) (unat (ref_len r)) = ref_bytes (memory m) r"
    "ref_bytes (memory m') r = ref_bytes (memory m) r"
    using Arena_copy_ok [OF assms] .
  have "unat (ref_len r) \<le> unat (layout_size (layout_for (ref_len r)))"
    by (simp add: layout_for_def max_def word_le_nat_alt)
  then have "apart (ref_ptr r) (unat (ref_len r)) (arena_ptr x) (unat (ref_len r))"
    using assms(4,5) x(6) unfolding in_use_def apart_def by fastforce
  then show ?thesis using x Arena_bytes_ok [OF x(2)] by metis
qed

lemma Arena_copy_round_trip_witness:
  "\<exists>x m' r'. Arena_copy one_block \<lparr>ref_ptr = 0x1000, ref_len = 3\<rparr> (write_bytes 0x1000 [7, 8, 9] sample_machine) =
      (Inr x, m') \<and> Arena_bytes x = Inr r' \<and> ref_bytes (memory m') r' = [7, 8, 9]"
proof -
  let ?r = "\<lparr>ref_ptr = 0x1000 :: u64, ref_len = 3 :: u64\<rparr>"
  let ?m = "write_bytes 0x1000 [7, 8, 9] sample_machine"
  have b: "ref_bytes (memory ?m) ?r = [7, 8, 9]"
    by (simp add: ref_bytes_def load_store_prefix)
  have c: "slice_ref_ok 1 1 ?r" "capacity_ok (ref_len ?r)" "one_block ?m (layout_for (ref_len ?r)) \<noteq> 0"
    "in_use one_block ?m (ref_ptr ?r) (unat (ref_len ?r))"
    by (simp_all add: slice_ref_ok_def from_raw_parts_ok_def isize_max_def capacity_ok_def one_block_def
        layout_for_def MIN_ALIGN_def max_def in_use_def region_ok_def apart_def)
  show ?thesis using Arena_copy_round_trip [OF one_block_ok c] b by auto
qed

end
