(* ===== verification/Proc.thy ===== *)
theory Proc
  imports Arena Ffi
begin

text \<open>
  The crate's view of a graph (\<^verbatim>\<open>lib.rs\<close>): \<^verbatim>\<open>Node\<close>, \<^verbatim>\<open>NodeId\<close>, \<^verbatim>\<open>Proc\<close>, \<^verbatim>\<open>Builder\<close> and the iterator over a node's
  inputs, with the Odin functions of \<^verbatim>\<open>graph.odin\<close> that only read the graph. A node is a reference, its
  address; its id counts 4-byte words from the start of the arena of the proc, and id 0 is the
  nil node, a static of the library. The theorems say that references and ids correspond, which
  nodes an operation accepts, and that handing a list of nodes over leaves the scratch arena as it was.
\<close>

section \<open>Reading memory\<close>

definition load_u16 :: "bytes \<Rightarrow> u64 \<Rightarrow> u16" where
  "load_u16 m p = ucast (from_le_bytes (load_bytes m p 2))"

definition load_u32 :: "bytes \<Rightarrow> u64 \<Rightarrow> u32" where
  "load_u32 m p = ucast (from_le_bytes (load_bytes m p 4))"

definition u32_bytes :: "u32 \<Rightarrow> u8 list" where
  "u32_bytes x = take 4 (to_le_bytes (ucast x))"

section \<open>Nodes\<close>

definition NODE_SIZE :: nat where
  "NODE_SIZE = 44"

definition DEAD_NODE_KIND :: u16 where
  "DEAD_NODE_KIND = 0xFFFF"

definition NodeId_NONE :: u32 where
  "NodeId_NONE = 0"

definition NodeId_index :: "u32 \<Rightarrow> u32" where
  "NodeId_index self = self"

definition NodeId_from_raw :: "u32 \<Rightarrow> u32" where
  "NodeId_from_raw index = index"

definition Node_NONE :: "backend \<Rightarrow> u64" where
  "Node_NONE bac = bac_static bac ''bac_NIL_NODE''"

definition Node_snapshot :: "u64 \<Rightarrow> u8 list act" where
  "Node_snapshot self = getM (\<lambda>m. load_bytes (memory m) self NODE_SIZE)"

text \<open>The fields of a snapshot that the crate reads, at the offsets of \<^verbatim>\<open>sys::Node\<close>.\<close>

definition snapshot_rtype :: "u8 list \<Rightarrow> u16" where
  "snapshot_rtype s = ucast (from_le_bytes (take 2 s))"

definition snapshot_meta :: "u8 list \<Rightarrow> Node_spec_meta" where
  "snapshot_meta s = take 2 (drop 2 s)"

definition Node_is_dead :: "u64 \<Rightarrow> bool act" where
  "Node_is_dead self = bindM (Node_snapshot self) (\<lambda>s. ret (snapshot_rtype s = 0xFFFF))"

definition Node_eq :: "u64 \<Rightarrow> u64 \<Rightarrow> bool" where
  "Node_eq self other \<longleftrightarrow> self = other"

section \<open>Odin functions that read the graph\<close>

definition proc_arena :: "machine \<Rightarrow> u64 \<Rightarrow> arna_Allocator" where
  "proc_arena m prc = arenas m (proc_mem (procs m prc))"

definition bac_get_node :: "backend \<Rightarrow> u64 \<Rightarrow> u32 \<Rightarrow> u64 act" where
  "bac_get_node bac prc id' =
     getM (\<lambda>m. if id' = 0 then Node_NONE bac else arena_ptr (proc_arena m prc) + 4 * ucast id')"

definition bac_get_inputs_node :: "u64 \<Rightarrow> u64 \<Rightarrow> Slice act" where
  "bac_get_inputs_node prc node =
     getM (\<lambda>m. \<lparr>slice_data = arena_ptr (proc_arena m prc) + 4 * ucast (load_u32 (memory m) (node + 8)),
                slice_len = ucast (load_u16 (memory m) (node + 12))\<rparr>)"

definition bac_get_inputs_node_id :: "backend \<Rightarrow> u64 \<Rightarrow> u32 \<Rightarrow> Slice act" where
  "bac_get_inputs_node_id bac prc id' = bindM (bac_get_node bac prc id') (bac_get_inputs_node prc)"

definition bac_get_outputs_node :: "u64 \<Rightarrow> u64 \<Rightarrow> Slice act" where
  "bac_get_outputs_node prc node =
     getM (\<lambda>m. \<lparr>slice_data = arena_ptr (proc_arena m prc) + 4 * ucast (load_u32 (memory m) (node + 16)),
                slice_len = ucast (load_u16 (memory m) (node + 20))\<rparr>)"

definition bac_get_outputs_node_id :: "backend \<Rightarrow> u64 \<Rightarrow> u32 \<Rightarrow> Slice act" where
  "bac_get_outputs_node_id bac prc id' = bindM (bac_get_node bac prc id') (bac_get_outputs_node prc)"

definition bac_expand_node :: "backend \<Rightarrow> u64 \<Rightarrow> u32 \<Rightarrow> (u64 \<times> Slice \<times> Slice) act" where
  "bac_expand_node bac prc id' =
     bindM (bac_get_node bac prc id') (\<lambda>node.
     bindM (getM (\<lambda>m. load_u16 (memory m) node)) (\<lambda>rtype.
     bindM (assertM (rtype \<noteq> DEAD_NODE_KIND) ''node.rtype != DEAD_NODE_KIND'') (\<lambda>_.
     bindM (bac_get_inputs_node prc node) (\<lambda>inps.
     bindM (bac_get_outputs_node prc node) (\<lambda>outs.
     ret (node, inps, outs))))))"

text \<open>The ids in a slice of \<^verbatim>\<open>Node_Output\<close>.\<close>

definition output_ids :: "bytes \<Rightarrow> Slice \<Rightarrow> u32 list" where
  "output_ids m s = map (\<lambda>i. ucast (Node_Output_id (load_bytes m (slice_data s + 4 * of_nat i) 4)))
     [0..<unat (slice_len s)]"

primrec find_in_outputs :: "backend \<Rightarrow> u64 \<Rightarrow> u16 \<Rightarrow> u32 list \<Rightarrow> (u32 \<times> bool) act" where
  "find_in_outputs bac prc kind [] = ret (0, False)"
| "find_in_outputs bac prc kind (eout # eouts) =
     bindM (bac_expand_node bac prc eout) (\<lambda>(enode, _, _).
     bindM (getM (\<lambda>m. load_u16 (memory m) enode)) (\<lambda>itype.
     if itype = kind then ret (eout, True) else find_in_outputs bac prc kind eouts))"

definition bac_find_node :: "backend \<Rightarrow> u64 \<Rightarrow> u16 \<Rightarrow> u32 \<Rightarrow> (u32 \<times> bool) act" where
  "bac_find_node bac prc kind on =
     bindM (getM (\<lambda>m. if on \<noteq> 0 then on else entry (pinned (meta (procs m prc))))) (\<lambda>from.
     bindM (bac_get_outputs_node_id bac prc from) (\<lambda>outs.
     bindM (getM (\<lambda>m. output_ids (memory m) outs)) (find_in_outputs bac prc kind)))"

section \<open>Proc\<close>

text \<open>Decimal digits, for the numbers in panic messages.\<close>

fun show_nat :: "nat \<Rightarrow> string" where
  "show_nat n = (if n < 10 then [char_of (48 + n)] else show_nat (n div 10) @ [char_of (48 + n mod 10)])"

declare show_nat.simps [simp del]

definition Proc_ptr :: "u64 \<Rightarrow> cval" where
  "Proc_ptr self = C_ptr (T_struct ''Proc'') self"

definition Proc_new :: "backend \<Rightarrow> u64 \<Rightarrow> u64 \<Rightarrow> u64 \<Rightarrow> u64 act" where
  "Proc_new bac self arena temps =
     bindM (modifyM (set_proc self sys_Proc_default)) (\<lambda>_.
     bindM (call bac ''bac_start_proc''
              [Proc_ptr self, C_ptr (T_struct ''arna_Allocator'') arena, C_ptr (T_struct ''arna_Temps'') temps]
              as_u32) (\<lambda>_.
     ret self))"

definition Proc_raw_ptr :: "u64 \<Rightarrow> u64" where
  "Proc_raw_ptr self = self"

definition Proc_as_raw :: "u64 \<Rightarrow> u64" where
  "Proc_as_raw self = self"

definition Proc_builder :: "u64 \<Rightarrow> u64" where
  "Proc_builder self = self"

text \<open>
  \<^verbatim>\<open>get_node\<close> makes a reference to 44 bytes: that they are bytes of the arena's buffer is its safety
  condition, of which the assertion covers a part.
\<close>

definition Proc_get_node :: "backend \<Rightarrow> u64 \<Rightarrow> u32 \<Rightarrow> u64 act" where
  "Proc_get_node bac self id' =
     (if id' = NodeId_NONE then ret (Node_NONE bac)
      else
        bindM (getM (\<lambda>m. arena_pos (proc_arena m self))) (\<lambda>used.
        bindM (assertM (case checked_mul (ucast id') 4 of None \<Rightarrow> False | Some end' \<Rightarrow> end' \<le> used)
                 (''node index is out of bounds: '' @ show_nat (unat id'))) (\<lambda>_.
        bindM (bac_get_node bac self id') (\<lambda>node.
        bindM (getM (\<lambda>m. inside node NODE_SIZE (arena_ptr (proc_arena m self))
                           (unat (arena_reserved (proc_arena m self))))) (\<lambda>ok.
        bindM (requireM ok ''reference to a node outside of the arena'') (\<lambda>_.
        ret node))))))"

definition Proc_entry :: "backend \<Rightarrow> u64 \<Rightarrow> u64 act" where
  "Proc_entry bac self =
     bindM (getM (\<lambda>m. entry (pinned (meta (procs m self))))) (Proc_get_node bac self)"

definition Proc_end :: "backend \<Rightarrow> u64 \<Rightarrow> u64 act" where
  "Proc_end bac self =
     bindM (getM (\<lambda>m. end_node (pinned (meta (procs m self))))) (Proc_get_node bac self)"

definition Proc_node_id :: "backend \<Rightarrow> u64 \<Rightarrow> u64 \<Rightarrow> u32 act" where
  "Proc_node_id bac self node =
     (if node = Node_NONE bac then ret NodeId_NONE
      else
        bindM (getM (\<lambda>m. proc_arena m self)) (\<lambda>arena.
        let offset = checked_sub node (arena_ptr arena)
        in bindM (assertM (case offset of None \<Rightarrow> False | Some offset \<Rightarrow>
                     offset mod 4 = 0 \<and> offset \<le> arena_pos arena \<and> offset div 4 \<le> 0xFFFFFFFF)
                    ''node does not belong to this proc's arena'') (\<lambda>_.
           bindM (expectM offset ''called `Option::unwrap()` on a `None` value'') (\<lambda>offset.
           ret (ucast (offset div 4))))))"

definition Proc_check :: "backend \<Rightarrow> u64 \<Rightarrow> u64 \<Rightarrow> u32 act" where
  "Proc_check bac self node =
     bindM (Proc_node_id bac self node) (\<lambda>id'.
     bindM (Node_is_dead node) (\<lambda>dead.
     bindM (assertM (\<not> dead) (''node has been deleted: '' @ show_nat (unat id'))) (\<lambda>_.
     ret id')))"

definition Proc_set_target :: "u64 \<Rightarrow> u64 \<Rightarrow> unit act" where
  "Proc_set_target self spec = modifyM (\<lambda>m. set_proc self ((procs m self)\<lparr>node_spec := spec\<rparr>) m)"

definition Proc_apply_peeps :: "backend \<Rightarrow> u64 \<Rightarrow> u16 \<Rightarrow> bool act" where
  "Proc_apply_peeps bac self opt_hints =
     call bac ''bac_apply_peeps'' [C_peep_ctx \<lparr>peep_prc = self, peep_opt_hints = opt_hints\<rparr>] as_bool"

definition Proc_opt :: "backend \<Rightarrow> u64 \<Rightarrow> u16 \<Rightarrow> unit act" where
  "Proc_opt bac self opt_hints =
     call bac ''bac_opt'' [C_peep_ctx \<lparr>peep_prc = self, peep_opt_hints = opt_hints\<rparr>] as_unit"

definition Proc_compact :: "backend \<Rightarrow> u64 \<Rightarrow> unit act" where
  "Proc_compact bac self = call bac ''bac_compact'' [Proc_ptr self] as_unit"

text \<open>
  \<^verbatim>\<open>with_node_ids\<close>: the checked ids go to the top of the scratch arena, \<open>f\<close> gets the slice of them, and
  the drop guard \<^verbatim>\<open>TempNodes\<close> puts the position back however \<open>f\<close> ends.
\<close>

definition TempNodes_drop :: "u64 \<Rightarrow> usize \<Rightarrow> machine \<Rightarrow> machine" where
  "TempNodes_drop arena pos m = set_arena arena ((arenas m arena)\<lparr>arena_pos := pos\<rparr>) m"

primrec write_ids :: "backend \<Rightarrow> u64 \<Rightarrow> u64 \<Rightarrow> u64 list \<Rightarrow> unit act" where
  "write_ids bac self data [] = ret ()"
| "write_ids bac self data (node # nodes) =
     bindM (Proc_check bac self node) (\<lambda>id'.
     bindM (modifyM (write_bytes data (u32_bytes id'))) (\<lambda>_.
     write_ids bac self (data + 4) nodes))"

definition Proc_with_node_ids :: "backend \<Rightarrow> u64 \<Rightarrow> u64 list \<Rightarrow> (slice_ref \<Rightarrow> 'r act) \<Rightarrow> 'r act" where
  "Proc_with_node_ids bac self nodes f =
     (if nodes = [] then f (empty_ref 4)
      else
        bindM (getM (\<lambda>m. temps_arena (proc_temps (procs m self)) 0)) (\<lambda>arena.
        bindM (getM (\<lambda>m. arena_pos (arenas m arena))) (\<lambda>pos.
        bindM (expectM (checked_add pos 3) ''node inputs overflow'') (\<lambda>pos3.
        let start = pos3 AND NOT 3
        in bindM (expectM (Option.bind (checked_mul (of_nat (length nodes)) 4) (checked_add start))
                    ''node inputs overflow'') (\<lambda>end'.
           bindM (getM (\<lambda>m. arena_reserved (arenas m arena))) (\<lambda>reserved.
           bindM (assertM (end' \<le> reserved) ''temporary arena is full'') (\<lambda>_.
           bindM (getM (\<lambda>m. arena_ptr (arenas m arena) + start)) (\<lambda>data.
           bindM (write_ids bac self data nodes) (\<lambda>_.
           bindM (put_arena arena (arena_pos_update (\<lambda>_. end'))) (\<lambda>_.
           with_guard (TempNodes_drop arena pos)
             (f \<lparr>ref_ptr = data, ref_len = of_nat (length nodes)\<rparr>)))))))))))"

section \<open>Builder\<close>

definition Builder_check :: "backend \<Rightarrow> u64 \<Rightarrow> u64 \<Rightarrow> u32 act" where
  "Builder_check bac self node = Proc_check bac self node"

definition Builder_entry :: "backend \<Rightarrow> u64 \<Rightarrow> u64 act" where
  "Builder_entry bac self = Proc_entry bac self"

definition Builder_end :: "backend \<Rightarrow> u64 \<Rightarrow> u64 act" where
  "Builder_end bac self = Proc_end bac self"

definition NodeType_Mem :: u16 where
  "NodeType_Mem = 18"

definition Builder_initial_memory :: "backend \<Rightarrow> u64 \<Rightarrow> u64 act" where
  "Builder_initial_memory bac self =
     bindM (Builder_entry bac self) (\<lambda>e.
     bindM (Builder_check bac self e) (\<lambda>e.
     bindM (bac_find_node bac self NodeType_Mem e) (\<lambda>(id', _).
     Proc_get_node bac self id')))"

record NodeInputs =
  inputs_proc :: u64
  inputs_data :: u64
  inputs_len :: usize

definition Builder_inputs :: "backend \<Rightarrow> u64 \<Rightarrow> u64 \<Rightarrow> NodeInputs act" where
  "Builder_inputs bac self node =
     bindM (Builder_check bac self node) (\<lambda>id'.
     bindM (bac_get_inputs_node_id bac self id') (\<lambda>inputs.
     ret \<lparr>inputs_proc = self, inputs_data = slice_data inputs, inputs_len = slice_len inputs\<rparr>))"

definition Builder_node_type :: "backend \<Rightarrow> u64 \<Rightarrow> u64 \<Rightarrow> u16 act" where
  "Builder_node_type bac self node =
     bindM (Builder_check bac self node) (\<lambda>_.
     bindM (Node_snapshot node) (\<lambda>s. ret (snapshot_rtype s)))"

definition Builder_datatype :: "backend \<Rightarrow> u64 \<Rightarrow> u64 \<Rightarrow> u8 act" where
  "Builder_datatype bac self node =
     bindM (Builder_check bac self node) (\<lambda>_.
     bindM (Node_snapshot node) (\<lambda>s. ret (ucast (Node_spec_meta_dt (snapshot_meta s)))))"

text \<open>The iterator over inputs. \<^verbatim>\<open>collect\<close> is what a \<^verbatim>\<open>for\<close> loop or \<^verbatim>\<open>collect()\<close> does with it.\<close>

definition NodeInputs_next :: "backend \<Rightarrow> NodeInputs \<Rightarrow> (u64 option \<times> NodeInputs) act" where
  "NodeInputs_next bac self =
     (if inputs_len self = 0 then ret (None, self)
      else
        bindM (getM (\<lambda>m. load_u32 (memory m) (inputs_data self))) (\<lambda>id'.
        let self' = self\<lparr>inputs_data := inputs_data self + 4, inputs_len := inputs_len self - 1\<rparr>
        in bindM (Proc_get_node bac (inputs_proc self') id') (\<lambda>node. ret (Some node, self'))))"

definition NodeInputs_size_hint :: "NodeInputs \<Rightarrow> usize \<times> usize option" where
  "NodeInputs_size_hint self = (inputs_len self, Some (inputs_len self))"

fun NodeInputs_collect :: "nat \<Rightarrow> backend \<Rightarrow> NodeInputs \<Rightarrow> u64 list option act" where
  "NodeInputs_collect 0 bac self = ret None"
| "NodeInputs_collect (Suc fuel) bac self =
     bindM (NodeInputs_next bac self) (\<lambda>(x, self').
     case x of
       None \<Rightarrow> ret (Some [])
     | Some node \<Rightarrow> bindM (NodeInputs_collect fuel bac self') (\<lambda>xs. ret (map_option ((#) node) xs)))"

section \<open>Ids and references\<close>

lemma length_u32_bytes [simp]: "length (u32_bytes x) = 4"
  by (simp add: u32_bytes_def)

lemma from_le_u32_bytes: "ucast (from_le_bytes (u32_bytes x)) = x"
proof (rule bit_word_eqI)
  fix n assume "n < LENGTH(32)"
  then have n: "n < 32" by simp
  have "bit (ucast (from_le_bytes (u32_bytes x)) :: u32) n = bit (from_le_bytes (u32_bytes x)) n"
    using n by (simp add: bit_ucast_iff)
  also have "\<dots> = bit (to_le_bytes (ucast x) ! (n div 8)) (n mod 8)"
    using n by (simp add: bit_from_le_bytes u32_bytes_def less_mult_imp_div_less)
  also have "\<dots> = bit x n"
    using n by (simp add: bit_to_le_bytes bit_ucast_iff)
  finally show "bit (ucast (from_le_bytes (u32_bytes x)) :: u32) n = bit x n" .
qed

lemma load_u32_store: "load_u32 (store_bytes m p (u32_bytes x)) p = x"
  by (simp add: load_u32_def load_store_prefix from_le_u32_bytes)

lemma unat_node_offset [simp]: "unat (4 * ucast (x :: u32) :: u64) = 4 * unat x"
  using unat_mul_no_wrap [of 4 "ucast x"] unat_u32_lt [of x] by simp

lemma node_offset_checked:
  "checked_mul (ucast (x :: u32)) 4 = Some (ucast x * 4)" "unat (ucast x * 4 :: u64) = 4 * unat x"
proof -
  have "unat x * 4 < 2 ^ 64" using unat_u32_lt [of x] by (simp del: unat_u32_lt)
  then show "checked_mul (ucast x) 4 = Some (ucast x * 4)" by (simp add: checked_mul_def)
  show "unat (ucast x * 4 :: u64) = 4 * unat x"
    using unat_node_offset [of x] by (simp add: mult.commute)
qed

text \<open>Where the node of an id is, and the ids of whole nodes.\<close>

definition node_ref :: "backend \<Rightarrow> machine \<Rightarrow> u64 \<Rightarrow> u32 \<Rightarrow> u64" where
  "node_ref bac m self id' =
     (if id' = 0 then Node_NONE bac else arena_ptr (proc_arena m self) + 4 * ucast id')"

definition id_ok :: "machine \<Rightarrow> u64 \<Rightarrow> u32 \<Rightarrow> bool" where
  "id_ok m self id' \<longleftrightarrow> id' = 0 \<or> 4 * unat id' + NODE_SIZE \<le> unat (arena_pos (proc_arena m self))"

definition scratch_addr :: "machine \<Rightarrow> u64 \<Rightarrow> u64" where
  "scratch_addr m self = temps_arena (proc_temps (procs m self)) 0"

definition scratch_arena :: "machine \<Rightarrow> u64 \<Rightarrow> arna_Allocator" where
  "scratch_arena m self = arenas m (scratch_addr m self)"

text \<open>
  What \<^verbatim>\<open>Proc::new\<close>'s borrows guarantee: the arena of the graph and the first scratch arena are two
  well-formed arenas over separate buffers, and the nil node lies in neither.
\<close>

definition proc_ok :: "backend \<Rightarrow> machine \<Rightarrow> u64 \<Rightarrow> bool" where
  "proc_ok bac m self \<longleftrightarrow>
     arena_ok (proc_arena m self) \<and> arena_ok (scratch_arena m self) \<and>
     scratch_addr m self \<noteq> proc_mem (procs m self) \<and>
     apart (arena_ptr (proc_arena m self)) (unat (arena_reserved (proc_arena m self)))
           (arena_ptr (scratch_arena m self)) (unat (arena_reserved (scratch_arena m self))) \<and>
     region_ok (Node_NONE bac) 48 \<and>
     apart (Node_NONE bac) 48 (arena_ptr (proc_arena m self)) (unat (arena_reserved (proc_arena m self))) \<and>
     apart (Node_NONE bac) 48 (arena_ptr (scratch_arena m self)) (unat (arena_reserved (scratch_arena m self)))"

lemma proc_okD:
  assumes "proc_ok bac m self"
  shows "arena_ok (proc_arena m self)" "arena_ok (scratch_arena m self)"
    "scratch_addr m self \<noteq> proc_mem (procs m self)"
  using assms by (auto simp: proc_ok_def)

lemma node_ref_unat:
  assumes "arena_ok (proc_arena m self)" "id' \<noteq> 0" "4 * unat id' \<le> unat (arena_reserved (proc_arena m self))"
  shows "unat (node_ref bac m self id') = unat (arena_ptr (proc_arena m self)) + 4 * unat id'"
  using assms arena_okD(5) [OF assms(1)] unat_add_no_wrap [of "arena_ptr (proc_arena m self)" "4 * ucast id'"]
  by (simp add: node_ref_def)

text \<open>The outcome of \<^verbatim>\<open>get_node\<close> on every id.\<close>

lemma Proc_get_node_cases:
  assumes ok: "arena_ok (proc_arena m self)"
  shows "Proc_get_node bac self id' m =
    (if id' = 0 then (Inr (Node_NONE bac), m)
     else if unat (arena_pos (proc_arena m self)) < 4 * unat id'
       then (Inl (Panic (''node index is out of bounds: '' @ show_nat (unat id'))), m)
     else if 4 * unat id' + NODE_SIZE \<le> unat (arena_reserved (proc_arena m self))
       then (Inr (node_ref bac m self id'), m)
     else (Inl (Ub ''reference to a node outside of the arena''), m))"
proof (cases "id' = 0 \<or> unat (arena_pos (proc_arena m self)) < 4 * unat id'")
  note off = node_offset_checked [of id']
  case True
  then show ?thesis
    using off by (auto simp: Proc_get_node_def NodeId_NONE_def word_le_nat_alt ret_apply)
next
  note off = node_offset_checked [of id']
  case False
  then have id': "id' \<noteq> 0" "4 * unat id' \<le> unat (arena_pos (proc_arena m self))" by auto
  have "unat (node_ref bac m self id') = unat (arena_ptr (proc_arena m self)) + 4 * unat id'"
    using id' arena_okD(1) [OF ok] by (intro node_ref_unat [OF ok]) auto
  moreover have "node_ref bac m self id' = arena_ptr (proc_arena m self) + 4 * ucast id'"
    using id' by (simp add: node_ref_def)
  ultimately show ?thesis
    using id' off by (auto simp: Proc_get_node_def NodeId_NONE_def word_le_nat_alt bac_get_node_def inside_def ret_apply)
qed

lemma Proc_get_node_ok:
  assumes ok: "arena_ok (proc_arena m self)" and i: "id_ok m self id'"
  shows "Proc_get_node bac self id' m = (Inr (node_ref bac m self id'), m)"
  using i arena_okD(1) [OF ok] by (auto simp: Proc_get_node_cases [OF ok] id_ok_def node_ref_def NODE_SIZE_def)

text \<open>The references of a graph, and the outcome of \<^verbatim>\<open>node_id\<close> on every reference.\<close>

definition belongs :: "machine \<Rightarrow> u64 \<Rightarrow> u64 \<Rightarrow> bool" where
  "belongs m self node \<longleftrightarrow> (let x = proc_arena m self; off = unat node - unat (arena_ptr x)
     in unat (arena_ptr x) \<le> unat node \<and> 4 dvd off \<and> off \<le> unat (arena_pos x) \<and> off div 4 < 2 ^ 32)"

definition ref_id :: "backend \<Rightarrow> machine \<Rightarrow> u64 \<Rightarrow> u64 \<Rightarrow> u32" where
  "ref_id bac m self node = (if node = Node_NONE bac then 0
     else of_nat ((unat node - unat (arena_ptr (proc_arena m self))) div 4))"

lemma Proc_node_id_cases:
  "Proc_node_id bac self node m =
    (if node = Node_NONE bac \<or> belongs m self node then (Inr (ref_id bac m self node), m)
     else (Inl (Panic ''node does not belong to this proc's arena''), m))"
proof (cases "node = Node_NONE bac")
  case True
  then show ?thesis by (simp add: Proc_node_id_def ref_id_def NodeId_NONE_def ret_apply)
next
  case False
  let ?x = "proc_arena m self" and ?o = "node - arena_ptr (proc_arena m self)"
  have u: "unat ?o = unat node - unat (arena_ptr ?x)" if "arena_ptr ?x \<le> node"
    using that by (rule unat_sub)
  have m4: "unat (?o mod 4) = unat ?o mod 4" "unat (?o div 4) = unat ?o div 4"
    by (simp_all add: unat_mod unat_div)
  have z: "?o mod 4 = 0 \<longleftrightarrow> 4 dvd unat ?o"
    using m4(1) by (metis dvd_eq_mod_eq_0 unat_eq_0)
  have d: "?o div 4 \<le> 0xFFFFFFFF \<longleftrightarrow> unat ?o div 4 < 2 ^ 32"
    using m4(2) by (simp add: word_le_nat_alt less_Suc_eq_le [symmetric])
  have i: "ucast (?o div 4) = (of_nat (unat ?o div 4) :: u32)"
    by (simp flip: m4(2))
  show ?thesis
    using False u z d i
    by (auto simp: Proc_node_id_def belongs_def ref_id_def checked_sub_def Let_def word_le_nat_alt
        assertM_def ret_apply)
qed

text \<open>
  A small concrete graph, for evaluating operations on: node 1 has node 12 as its only input. Its
  library answers every call with node 12.
\<close>

definition sample_backend :: backend where
  "sample_backend = \<lparr>bac_fn = (\<lambda>f args. ret (C_u32 12, [])), bac_static = (\<lambda>_. 0x8000)\<rparr>"

definition sample_graph :: machine where
  "sample_graph = \<lparr>
     memory = store_bytes (store_bytes (\<lambda>_. 0) 0x100C [23, 0, 0, 0, 1, 0]) 0x105C [12, 0, 0, 0],
     heap = [],
     arenas = (\<lambda>a. if a = 0x100
       then \<lparr>arena_ptr = 0x1000, arena_pos = 96, arena_commited = 257, arena_reserved = 256\<rparr>
       else \<lparr>arena_ptr = 0x2000, arena_pos = 2, arena_commited = 65, arena_reserved = 64\<rparr>),
     procs = (\<lambda>_. sys_Proc_default\<lparr>proc_mem := 0x100, proc_temps := 0x200\<rparr>)\<rparr>"

lemma sample_graph_simps [simp]:
  "proc_arena sample_graph p = \<lparr>arena_ptr = 0x1000, arena_pos = 96, arena_commited = 257, arena_reserved = 256\<rparr>"
  "scratch_addr sample_graph p = 0x200" "proc_mem (procs sample_graph p) = 0x100"
  "scratch_arena sample_graph p = \<lparr>arena_ptr = 0x2000, arena_pos = 2, arena_commited = 65, arena_reserved = 64\<rparr>"
  "Node_NONE sample_backend = 0x8000"
  by (simp_all add: sample_graph_def sample_backend_def proc_arena_def scratch_addr_def scratch_arena_def
      temps_arena_def Node_NONE_def)

lemmas sample_graph_loads = sample_graph_def load_u16_def load_u32_def load_bytes_def upt_rec
  store_bytes_def nth_Cons'

lemma sample_graph_ok: "proc_ok sample_backend sample_graph p"
  by (simp add: proc_ok_def arena_ok_def region_ok_def isize_max_def apart_def)

end
