(* ===== verification/Wrappers.thy ===== *)
theory Wrappers
  imports Externs Proc
begin

text \<open>
  The methods of \<^verbatim>\<open>generated.rs\<close>: \<^verbatim>\<open>impl Proc\<close> calls the library with ids, \<^verbatim>\<open>impl Builder\<close> and the states of
  structured control flow are its safe faces over node references. One definition per method,
  with the arguments of the call in the order of the source.
\<close>

section \<open>Conversions of arguments and results\<close>

text \<open>\<^verbatim>\<open>name.into()\<close> and \<^verbatim>\<open>sys::Slice::from(ids).cast()\<close>.\<close>

definition into_string :: "slice_ref \<Rightarrow> cval act" where
  "into_string s = bindM (liftM (String_from s)) (\<lambda>s. ret (C_string s))"

definition ids_slice :: "slice_ref \<Rightarrow> cval act" where
  "ids_slice ids = bindM (liftM (Slice_from ids)) (\<lambda>s. ret (C_slice T_u32 (Slice_cast s)))"

text \<open>What a call left in the scope and the state it got references to.\<close>

fun as_if_state :: "cval \<Rightarrow> ssa_If_State res" where
  "as_if_state (C_if_state s) = Inr s"
| "as_if_state _ = abi_broken"

fun as_loop_state :: "cval \<Rightarrow> ssa_Loop_State res" where
  "as_loop_state (C_loop_state s) = Inr s"
| "as_loop_state _ = abi_broken"

fun as_block_state :: "cval \<Rightarrow> ssa_Block_State res" where
  "as_block_state (C_block_state s) = Inr s"
| "as_block_state _ = abi_broken"

definition out_state :: "(cval \<Rightarrow> 's res) \<Rightarrow> cval list \<Rightarrow> 's res" where
  "out_state as outs = (case outs of [s] \<Rightarrow> as s | _ \<Rightarrow> abi_broken)"

definition out_scope_state :: "(cval \<Rightarrow> 's res) \<Rightarrow> cval list \<Rightarrow> (u32 \<times> 's) res" where
  "out_scope_state as outs =
     (case outs of
        [x, s] \<Rightarrow>
          (case as_u32 x of
             Inl e \<Rightarrow> Inl e
           | Inr x \<Rightarrow> (case as s of Inl e \<Rightarrow> Inl e | Inr s \<Rightarrow> Inr (x, s)))
      | _ \<Rightarrow> abi_broken)"

section \<open>\<^verbatim>\<open>impl Proc\<close>\<close>

definition Proc_push_scope_value :: "backend \<Rightarrow> u64 \<Rightarrow> u32 \<Rightarrow> u32 \<Rightarrow> slice_ref \<Rightarrow> u64 \<Rightarrow> isize act" where
  "Proc_push_scope_value bac self scope value' name type' =
     bindM (into_string name) (\<lambda>name.
     call bac ''bac_push_scope_value''
       [Proc_ptr self, C_u32 scope, C_u32 value', name, C_u64 type'] as_isize)"

definition Proc_set_scope_value :: "backend \<Rightarrow> u64 \<Rightarrow> u32 \<Rightarrow> isize \<Rightarrow> u32 \<Rightarrow> unit act" where
  "Proc_set_scope_value bac self scope idx value' =
     call bac ''bac_set_scope_value''
       [Proc_ptr self, C_u32 scope, C_isize idx, C_u32 value'] as_unit"

definition Proc_delete_scope :: "backend \<Rightarrow> u64 \<Rightarrow> u32 \<Rightarrow> unit act" where
  "Proc_delete_scope bac self scope =
     call bac ''bac_delete_scope'' [Proc_ptr self, C_u32 scope] as_unit"

definition Proc_truncate_scope :: "backend \<Rightarrow> u64 \<Rightarrow> u32 \<Rightarrow> isize \<Rightarrow> unit act" where
  "Proc_truncate_scope bac self scope to_len =
     call bac ''bac_truncate_scope'' [Proc_ptr self, C_u32 scope, C_isize to_len] as_unit"

definition Proc_merge_return :: "backend \<Rightarrow> u64 \<Rightarrow> slice_ref \<Rightarrow> u32 act" where
  "Proc_merge_return bac self args =
     bindM (ids_slice args) (\<lambda>args.
     call bac ''bac_merge_return'' [Proc_ptr self, args] as_u32)"

definition Proc_loopopt :: "backend \<Rightarrow> u64 \<Rightarrow> bool act" where
  "Proc_loopopt bac self =
     call bac ''bac_loopopt'' [Proc_ptr self] as_bool"

definition Proc_memopt :: "backend \<Rightarrow> u64 \<Rightarrow> bool act" where
  "Proc_memopt bac self =
     call bac ''bac_memopt'' [Proc_ptr self] as_bool"

definition Proc_add_local_addr :: "backend \<Rightarrow> u64 \<Rightarrow> slice_ref \<Rightarrow> u32 \<Rightarrow> u32 act" where
  "Proc_add_local_addr bac self name local =
     bindM (into_string name) (\<lambda>name.
     call bac ''bac_add_local_addr'' [Proc_ptr self, name, C_u32 local] as_u32)"

definition Proc_add_local :: "backend \<Rightarrow> u64 \<Rightarrow> slice_ref \<Rightarrow> u32 \<Rightarrow> u32 act" where
  "Proc_add_local bac self name mem =
     bindM (into_string name) (\<lambda>name.
     call bac ''bac_add_local'' [Proc_ptr self, name, C_u32 mem] as_u32)"

definition Proc_add_loop :: "backend \<Rightarrow> u64 \<Rightarrow> slice_ref \<Rightarrow> u32 \<Rightarrow> u32 act" where
  "Proc_add_loop bac self name ctrl =
     bindM (into_string name) (\<lambda>name.
     call bac ''bac_add_loop'' [Proc_ptr self, name, C_u32 ctrl] as_u32)"

definition Proc_add_jump :: "backend \<Rightarrow> u64 \<Rightarrow> slice_ref \<Rightarrow> u32 \<Rightarrow> u32 act" where
  "Proc_add_jump bac self name ctrl =
     bindM (into_string name) (\<lambda>name.
     call bac ''bac_add_jump'' [Proc_ptr self, name, C_u32 ctrl] as_u32)"

definition Proc_add_param :: "backend \<Rightarrow> u64 \<Rightarrow> slice_ref \<Rightarrow> u8 \<Rightarrow> u32 \<Rightarrow> u32 \<Rightarrow> u32 act" where
  "Proc_add_param bac self name dt entry' idx =
     bindM (into_string name) (\<lambda>name.
     call bac ''bac_add_param'' [Proc_ptr self, name, C_u8 dt, C_u32 entry', C_u32 idx] as_u32)"

definition Proc_add_phi :: "backend \<Rightarrow> u64 \<Rightarrow> slice_ref \<Rightarrow> u8 \<Rightarrow> u32 \<Rightarrow> u32 \<Rightarrow> u32 \<Rightarrow> u32 act" where
  "Proc_add_phi bac self name dt reg lhs rhs =
     bindM (into_string name) (\<lambda>name.
     call bac ''bac_add_phi''
       [Proc_ptr self, name, C_u8 dt, C_u32 reg, C_u32 lhs, C_u32 rhs] as_u32)"

definition Proc_add_poison :: "backend \<Rightarrow> u64 \<Rightarrow> slice_ref \<Rightarrow> u32 act" where
  "Proc_add_poison bac self name =
     bindM (into_string name) (\<lambda>name.
     call bac ''bac_add_poison'' [Proc_ptr self, name] as_u32)"

definition Proc_add_proc_addr :: "backend \<Rightarrow> u64 \<Rightarrow> slice_ref \<Rightarrow> u32 \<Rightarrow> u32 act" where
  "Proc_add_proc_addr bac self name idx =
     bindM (into_string name) (\<lambda>name.
     call bac ''bac_add_proc_addr'' [Proc_ptr self, name, C_u32 idx] as_u32)"

definition Proc_add_region :: "backend \<Rightarrow> u64 \<Rightarrow> slice_ref \<Rightarrow> slice_ref \<Rightarrow> u32 act" where
  "Proc_add_region bac self name inputs =
     bindM (into_string name) (\<lambda>name.
     bindM (ids_slice inputs) (\<lambda>inputs.
     call bac ''bac_add_region'' [Proc_ptr self, name, inputs] as_u32))"

definition Proc_add_ret :: "backend \<Rightarrow> u64 \<Rightarrow> slice_ref \<Rightarrow> u8 \<Rightarrow> u32 \<Rightarrow> u32 \<Rightarrow> u32 act" where
  "Proc_add_ret bac self name dt call_end idx =
     bindM (into_string name) (\<lambda>name.
     call bac ''bac_add_ret'' [Proc_ptr self, name, C_u8 dt, C_u32 call_end, C_u32 idx] as_u32)"

definition Proc_add_return :: "backend \<Rightarrow> u64 \<Rightarrow> slice_ref \<Rightarrow> slice_ref \<Rightarrow> u32 act" where
  "Proc_add_return bac self name inputs =
     bindM (into_string name) (\<lambda>name.
     bindM (ids_slice inputs) (\<lambda>inputs.
     call bac ''bac_add_return'' [Proc_ptr self, name, inputs] as_u32))"

definition Proc_add_select :: "backend \<Rightarrow> u64 \<Rightarrow> slice_ref \<Rightarrow> u8 \<Rightarrow> u32 \<Rightarrow> u32 \<Rightarrow> u32 \<Rightarrow> u32 act" where
  "Proc_add_select bac self name dt on_true on_false condition =
     bindM (into_string name) (\<lambda>name.
     call bac ''bac_add_select''
       [Proc_ptr self, name, C_u8 dt, C_u32 on_true, C_u32 on_false, C_u32 condition] as_u32)"

definition Proc_add_set :: "backend \<Rightarrow> u64 \<Rightarrow> slice_ref \<Rightarrow> u32 \<Rightarrow> u32 \<Rightarrow> u32 \<Rightarrow> u32 \<Rightarrow> u32 \<Rightarrow> u32 act" where
  "Proc_add_set bac self name ctrl mem dst value' size' =
     bindM (into_string name) (\<lambda>name.
     call bac ''bac_add_set''
       [Proc_ptr self, name, C_u32 ctrl, C_u32 mem, C_u32 dst, C_u32 value', C_u32 size'] as_u32)"

definition Proc_add_split :: "backend \<Rightarrow> u64 \<Rightarrow> slice_ref \<Rightarrow> u8 \<Rightarrow> u32 \<Rightarrow> u32 act" where
  "Proc_add_split bac self name dt dest =
     bindM (into_string name) (\<lambda>name.
     call bac ''bac_add_split'' [Proc_ptr self, name, C_u8 dt, C_u32 dest] as_u32)"

definition Proc_add_split_mem :: "backend \<Rightarrow> u64 \<Rightarrow> slice_ref \<Rightarrow> u32 \<Rightarrow> u32 act" where
  "Proc_add_split_mem bac self name mem =
     bindM (into_string name) (\<lambda>name.
     call bac ''bac_add_split_mem'' [Proc_ptr self, name, C_u32 mem] as_u32)"

definition Proc_add_store :: "backend \<Rightarrow> u64 \<Rightarrow> slice_ref \<Rightarrow> u32 \<Rightarrow> u32 \<Rightarrow> u32 \<Rightarrow> u32 \<Rightarrow> u32 act" where
  "Proc_add_store bac self name ctrl mem addr value' =
     bindM (into_string name) (\<lambda>name.
     call bac ''bac_add_store''
       [Proc_ptr self, name, C_u32 ctrl, C_u32 mem, C_u32 addr, C_u32 value'] as_u32)"

definition Proc_add_sym :: "backend \<Rightarrow> u64 \<Rightarrow> slice_ref \<Rightarrow> u32 \<Rightarrow> u32 act" where
  "Proc_add_sym bac self name entry' =
     bindM (into_string name) (\<lambda>name.
     call bac ''bac_add_sym'' [Proc_ptr self, name, C_u32 entry'] as_u32)"

definition Proc_add_then :: "backend \<Rightarrow> u64 \<Rightarrow> slice_ref \<Rightarrow> u32 \<Rightarrow> u32 act" where
  "Proc_add_then bac self name ctrl =
     bindM (into_string name) (\<lambda>name.
     call bac ''bac_add_then'' [Proc_ptr self, name, C_u32 ctrl] as_u32)"

definition Proc_add_if :: "backend \<Rightarrow> u64 \<Rightarrow> slice_ref \<Rightarrow> u32 \<Rightarrow> u32 \<Rightarrow> u32 act" where
  "Proc_add_if bac self name ctrl cond =
     bindM (into_string name) (\<lambda>name.
     call bac ''bac_add_if'' [Proc_ptr self, name, C_u32 ctrl, C_u32 cond] as_u32)"

definition Proc_add_global_addr :: "backend \<Rightarrow> u64 \<Rightarrow> slice_ref \<Rightarrow> u32 \<Rightarrow> u32 act" where
  "Proc_add_global_addr bac self name global =
     bindM (into_string name) (\<lambda>name.
     call bac ''bac_add_global_addr'' [Proc_ptr self, name, C_u32 global] as_u32)"

definition Proc_add_load :: "backend \<Rightarrow> u64 \<Rightarrow> slice_ref \<Rightarrow> u8 \<Rightarrow> u32 \<Rightarrow> u32 \<Rightarrow> u32 \<Rightarrow> u32 act" where
  "Proc_add_load bac self name dt ctrl mem addr =
     bindM (into_string name) (\<lambda>name.
     call bac ''bac_add_load''
       [Proc_ptr self, name, C_u8 dt, C_u32 ctrl, C_u32 mem, C_u32 addr] as_u32)"

definition Proc_add_mem :: "backend \<Rightarrow> u64 \<Rightarrow> slice_ref \<Rightarrow> u32 \<Rightarrow> u32 act" where
  "Proc_add_mem bac self name ctrl =
     bindM (into_string name) (\<lambda>name.
     call bac ''bac_add_mem'' [Proc_ptr self, name, C_u32 ctrl] as_u32)"

definition Proc_apply_peep :: "backend \<Rightarrow> u64 \<Rightarrow> u32 \<Rightarrow> u32 act" where
  "Proc_apply_peep bac self id' =
     call bac ''bac_apply_peep'' [Proc_ptr self, C_u32 id'] as_u32"

definition Proc_add_un_op :: "backend \<Rightarrow> u64 \<Rightarrow> slice_ref \<Rightarrow> u16 \<Rightarrow> u8 \<Rightarrow> u32 \<Rightarrow> u8 \<Rightarrow> u32 act" where
  "Proc_add_un_op bac self name type' dt oprnd lane =
     bindM (into_string name) (\<lambda>name.
     call bac ''bac_add_un_op''
       [Proc_ptr self, name, C_u16 type', C_u8 dt, C_u32 oprnd, C_u8 lane] as_u32)"

definition Proc_connect :: "backend \<Rightarrow> u64 \<Rightarrow> u32 \<Rightarrow> u32 \<Rightarrow> isize act" where
  "Proc_connect bac self use' def' =
     call bac ''bac_connect'' [Proc_ptr self, C_u32 use', C_u32 def'] as_isize"

definition Proc_delete_node_node_id :: "backend \<Rightarrow> u64 \<Rightarrow> u32 \<Rightarrow> unit act" where
  "Proc_delete_node_node_id bac self id' =
     call bac ''bac_delete_node_node_id'' [Proc_ptr self, C_u32 id'] as_unit"

definition Proc_find_node :: "backend \<Rightarrow> u64 \<Rightarrow> u16 \<Rightarrow> u32 \<Rightarrow> (u32 \<times> bool) act" where
  "Proc_find_node bac self kind on =
     call_out bac ''bac_find_node''
       [Proc_ptr self, C_u16 kind, C_u32 on, C_ref (C_u32 0)] as_bool"

definition Proc_find_or_create_node :: "backend \<Rightarrow> u64 \<Rightarrow> u16 \<Rightarrow> u32 act" where
  "Proc_find_or_create_node bac self kind =
     call bac ''bac_find_or_create_node'' [Proc_ptr self, C_u16 kind] as_u32"

definition Proc_get_sym_count :: "backend \<Rightarrow> u64 \<Rightarrow> (u32 \<times> isize) act" where
  "Proc_get_sym_count bac self =
     call_out bac ''bac_get_sym_count'' [Proc_ptr self, C_ref (C_u32 0)] as_isize"

definition Proc_add_end :: "backend \<Rightarrow> u64 \<Rightarrow> slice_ref \<Rightarrow> slice_ref \<Rightarrow> u32 act" where
  "Proc_add_end bac self name inputs =
     bindM (into_string name) (\<lambda>name.
     bindM (ids_slice inputs) (\<lambda>inputs.
     call bac ''bac_add_end'' [Proc_ptr self, name, inputs] as_u32))"

definition Proc_add_dbg_sym_update :: "backend \<Rightarrow> u64 \<Rightarrow> slice_ref \<Rightarrow> u32 \<Rightarrow> u32 \<Rightarrow> u32 act" where
  "Proc_add_dbg_sym_update bac self name new_value prev_update =
     bindM (into_string name) (\<lambda>name.
     call bac ''bac_add_dbg_sym_update''
       [Proc_ptr self, name, C_u32 new_value, C_u32 prev_update] as_u32)"

definition Proc_add_else :: "backend \<Rightarrow> u64 \<Rightarrow> slice_ref \<Rightarrow> u32 \<Rightarrow> u32 act" where
  "Proc_add_else bac self name ctrl =
     bindM (into_string name) (\<lambda>name.
     call bac ''bac_add_else'' [Proc_ptr self, name, C_u32 ctrl] as_u32)"

definition Proc_add_entry :: "backend \<Rightarrow> u64 \<Rightarrow> slice_ref \<Rightarrow> u32 act" where
  "Proc_add_entry bac self name =
     bindM (into_string name) (\<lambda>name.
     call bac ''bac_add_entry'' [Proc_ptr self, name] as_u32)"

definition Proc_add_copy :: "backend \<Rightarrow> u64 \<Rightarrow> slice_ref \<Rightarrow> u32 \<Rightarrow> u32 \<Rightarrow> u32 \<Rightarrow> u32 \<Rightarrow> u32 \<Rightarrow> u32 act" where
  "Proc_add_copy bac self name ctrl mem dst src size' =
     bindM (into_string name) (\<lambda>name.
     call bac ''bac_add_copy''
       [Proc_ptr self, name, C_u32 ctrl, C_u32 mem, C_u32 dst, C_u32 src, C_u32 size'] as_u32)"

definition Proc_add_call_end :: "backend \<Rightarrow> u64 \<Rightarrow> slice_ref \<Rightarrow> u32 \<Rightarrow> u32 act" where
  "Proc_add_call_end bac self name call' =
     bindM (into_string name) (\<lambda>name.
     call bac ''bac_add_call_end'' [Proc_ptr self, name, C_u32 call'] as_u32)"

definition Proc_set_input :: "backend \<Rightarrow> u64 \<Rightarrow> u32 \<Rightarrow> isize \<Rightarrow> u32 \<Rightarrow> bool \<Rightarrow> u32 act" where
  "Proc_set_input bac self id' idx value' subsume_on_intern =
     call bac ''bac_set_input''
       [Proc_ptr self, C_u32 id', C_isize idx, C_u32 value', C_bool subsume_on_intern] as_u32"

definition Proc_pin :: "backend \<Rightarrow> u64 \<Rightarrow> u32 \<Rightarrow> unit act" where
  "Proc_pin bac self id' =
     call bac ''bac_pin'' [Proc_ptr self, C_u32 id'] as_unit"

definition Proc_unpin :: "backend \<Rightarrow> u64 \<Rightarrow> u32 \<Rightarrow> bool \<Rightarrow> unit act" where
  "Proc_unpin bac self id' no_delete =
     call bac ''bac_unpin'' [Proc_ptr self, C_u32 id', C_bool no_delete] as_unit"

definition Proc_set_local_size :: "backend \<Rightarrow> u64 \<Rightarrow> u32 \<Rightarrow> u32 \<Rightarrow> unit act" where
  "Proc_set_local_size bac self loc size' =
     call bac ''bac_set_local_size'' [Proc_ptr self, C_u32 loc, C_i32 size'] as_unit"

definition Proc_add_arbitrary_load :: "backend \<Rightarrow> u64 \<Rightarrow> u32 \<Rightarrow> u32 \<Rightarrow> u32 \<Rightarrow> isize \<Rightarrow> isize \<Rightarrow> u8 \<Rightarrow> u32 act" where
  "Proc_add_arbitrary_load bac self cfg mem addr rsize extra_offset unit =
     call bac ''bac_add_arbitrary_load''
       [Proc_ptr self, C_u32 cfg, C_u32 mem, C_u32 addr, C_isize rsize, C_isize extra_offset, C_u8 unit] as_u32"

definition Proc_add_field_load :: "backend \<Rightarrow> u64 \<Rightarrow> slice_ref \<Rightarrow> u8 \<Rightarrow> u32 \<Rightarrow> u32 \<Rightarrow> u32 \<Rightarrow> isize \<Rightarrow> u32 act" where
  "Proc_add_field_load bac self name dt cfg mem base offset =
     bindM (into_string name) (\<lambda>name.
     call bac ''bac_add_field_load''
       [Proc_ptr self, name, C_u8 dt, C_u32 cfg, C_u32 mem, C_u32 base, C_isize offset] as_u32)"

definition Proc_add_field_store :: "backend \<Rightarrow> u64 \<Rightarrow> slice_ref \<Rightarrow> u32 \<Rightarrow> u32 \<Rightarrow> u32 \<Rightarrow> isize \<Rightarrow> u32 \<Rightarrow> u32 act" where
  "Proc_add_field_store bac self name cfg mem base offset value' =
     bindM (into_string name) (\<lambda>name.
     call bac ''bac_add_field_store''
       [Proc_ptr self, name, C_u32 cfg, C_u32 mem, C_u32 base, C_isize offset, C_u32 value'] as_u32)"

definition Proc_add_arbitrary_store :: "backend \<Rightarrow> u64 \<Rightarrow> u32 \<Rightarrow> u32 \<Rightarrow> u32 \<Rightarrow> u32 \<Rightarrow> isize \<Rightarrow> isize \<Rightarrow> u8 \<Rightarrow> u32 act" where
  "Proc_add_arbitrary_store bac self cfg mem addr rvalue rsize extra_offset unit =
     call bac ''bac_add_arbitrary_store''
       [Proc_ptr self, C_u32 cfg, C_u32 mem, C_u32 addr, C_u32 rvalue, C_isize rsize, C_isize extra_offset, C_u8 unit] as_u32"

definition Proc_add_scope :: "backend \<Rightarrow> u64 \<Rightarrow> slice_ref \<Rightarrow> u32 \<Rightarrow> u32 act" where
  "Proc_add_scope bac self name cfg =
     bindM (into_string name) (\<lambda>name.
     call bac ''bac_add_scope'' [Proc_ptr self, name, C_u32 cfg] as_u32)"

definition Proc_add_field_offset :: "backend \<Rightarrow> u64 \<Rightarrow> u32 \<Rightarrow> isize \<Rightarrow> u32 act" where
  "Proc_add_field_offset bac self base offset =
     call bac ''bac_add_field_offset'' [Proc_ptr self, C_u32 base, C_isize offset] as_u32"

definition Proc_add_lazy_phi :: "backend \<Rightarrow> u64 \<Rightarrow> slice_ref \<Rightarrow> u8 \<Rightarrow> u32 \<Rightarrow> u32 \<Rightarrow> u32 act" where
  "Proc_add_lazy_phi bac self name dt reg lhs =
     bindM (into_string name) (\<lambda>name.
     call bac ''bac_add_lazy_phi'' [Proc_ptr self, name, C_u8 dt, C_u32 reg, C_u32 lhs] as_u32)"

definition Proc_break_block :: "backend \<Rightarrow> u64 \<Rightarrow> u32 \<Rightarrow> ssa_Block_State \<Rightarrow> (u32 \<times> ssa_Block_State) act" where
  "Proc_break_block bac self scope state =
     bindM (call_refs bac ''bac_break_block'' [Proc_ptr self, C_ref (C_u32 scope), C_ref (C_block_state state)]
              (out_scope_state as_block_state) as_unit) (\<lambda>(outs, _).
     ret outs)"

definition Proc_compute_index_offset :: "backend \<Rightarrow> u64 \<Rightarrow> u32 \<Rightarrow> u32 \<Rightarrow> u64 \<Rightarrow> u32 act" where
  "Proc_compute_index_offset bac self base index stride =
     call bac ''bac_compute_index_offset''
       [Proc_ptr self, C_u32 base, C_u32 index, C_i64 stride] as_u32"

definition Proc_decl_local :: "backend \<Rightarrow> u64 \<Rightarrow> u32 \<Rightarrow> slice_ref \<Rightarrow> u64 \<Rightarrow> unit act" where
  "Proc_decl_local bac self loc name type' =
     bindM (into_string name) (\<lambda>name.
     call bac ''bac_decl_local'' [Proc_ptr self, C_u32 loc, name, C_u64 type'] as_unit)"

definition Proc_end_block :: "backend \<Rightarrow> u64 \<Rightarrow> u32 \<Rightarrow> ssa_Block_State \<Rightarrow> (u32 \<times> ssa_Block_State) act" where
  "Proc_end_block bac self scope state =
     bindM (call_refs bac ''bac_end_block'' [Proc_ptr self, C_ref (C_u32 scope), C_ref (C_block_state state)]
              (out_scope_state as_block_state) as_unit) (\<lambda>(outs, _).
     ret outs)"

definition Proc_end_else :: "backend \<Rightarrow> u64 \<Rightarrow> u32 \<Rightarrow> ssa_If_State \<Rightarrow> (u32 \<times> ssa_If_State) act" where
  "Proc_end_else bac self else_scope state =
     bindM (call_refs bac ''bac_end_else'' [Proc_ptr self, C_ref (C_u32 else_scope), C_ref (C_if_state state)]
              (out_scope_state as_if_state) as_unit) (\<lambda>(outs, _).
     ret outs)"

definition Proc_end_if :: "backend \<Rightarrow> u64 \<Rightarrow> u32 \<Rightarrow> ssa_If_State \<Rightarrow> (u32 \<times> ssa_If_State) act" where
  "Proc_end_if bac self then_scope state =
     bindM (call_refs bac ''bac_end_if'' [Proc_ptr self, C_ref (C_u32 then_scope), C_ref (C_if_state state)]
              (out_scope_state as_if_state) as_unit) (\<lambda>(outs, _).
     ret outs)"

definition Proc_add_dbg_scope :: "backend \<Rightarrow> u64 \<Rightarrow> slice_ref \<Rightarrow> slice_ref \<Rightarrow> u32 act" where
  "Proc_add_dbg_scope bac self name inputs =
     bindM (into_string name) (\<lambda>name.
     bindM (ids_slice inputs) (\<lambda>inputs.
     call bac ''bac_add_dbg_scope'' [Proc_ptr self, name, inputs] as_u32))"

definition Proc_add_c_int :: "backend \<Rightarrow> u64 \<Rightarrow> slice_ref \<Rightarrow> u8 \<Rightarrow> u64 \<Rightarrow> u32 act" where
  "Proc_add_c_int bac self name dt value' =
     bindM (into_string name) (\<lambda>name.
     call bac ''bac_add_c_int'' [Proc_ptr self, name, C_u8 dt, C_i64 value'] as_u32)"

definition Proc_add_always :: "backend \<Rightarrow> u64 \<Rightarrow> slice_ref \<Rightarrow> slice_ref \<Rightarrow> u32 act" where
  "Proc_add_always bac self name inputs =
     bindM (into_string name) (\<lambda>name.
     bindM (ids_slice inputs) (\<lambda>inputs.
     call bac ''bac_add_always'' [Proc_ptr self, name, inputs] as_u32))"

definition Proc_add_bin_op :: "backend \<Rightarrow> u64 \<Rightarrow> slice_ref \<Rightarrow> u16 \<Rightarrow> u8 \<Rightarrow> u32 \<Rightarrow> u32 \<Rightarrow> u8 \<Rightarrow> u32 act" where
  "Proc_add_bin_op bac self name type' dt lhs rhs lane =
     bindM (into_string name) (\<lambda>name.
     call bac ''bac_add_bin_op''
       [Proc_ptr self, name, C_u16 type', C_u8 dt, C_u32 lhs, C_u32 rhs, C_u8 lane] as_u32)"

definition Proc_add_call :: "backend \<Rightarrow> u64 \<Rightarrow> slice_ref \<Rightarrow> slice_ref \<Rightarrow> Call \<Rightarrow> u32 act" where
  "Proc_add_call bac self name inputs extra =
     bindM (into_string name) (\<lambda>name.
     bindM (ids_slice inputs) (\<lambda>inputs.
     call bac ''bac_add_call'' [Proc_ptr self, name, inputs, C_call extra] as_u32))"

definition Proc_add_dbg_sym_decl :: "backend \<Rightarrow> u64 \<Rightarrow> slice_ref \<Rightarrow> u32 act" where
  "Proc_add_dbg_sym_decl bac self name =
     bindM (into_string name) (\<lambda>name.
     call bac ''bac_add_dbg_sym_decl'' [Proc_ptr self, name] as_u32)"

definition Proc_add_global :: "backend \<Rightarrow> u64 \<Rightarrow> slice_ref \<Rightarrow> u32 \<Rightarrow> u32 act" where
  "Proc_add_global bac self name idx =
     bindM (into_string name) (\<lambda>name.
     call bac ''bac_add_global'' [Proc_ptr self, name, C_u32 idx] as_u32)"

definition Proc_add_merge_mem :: "backend \<Rightarrow> u64 \<Rightarrow> slice_ref \<Rightarrow> slice_ref \<Rightarrow> u32 act" where
  "Proc_add_merge_mem bac self name inputs =
     bindM (into_string name) (\<lambda>name.
     bindM (ids_slice inputs) (\<lambda>inputs.
     call bac ''bac_add_merge_mem'' [Proc_ptr self, name, inputs] as_u32))"

definition Proc_add_trap :: "backend \<Rightarrow> u64 \<Rightarrow> slice_ref \<Rightarrow> slice_ref \<Rightarrow> u32 act" where
  "Proc_add_trap bac self name inputs =
     bindM (into_string name) (\<lambda>name.
     bindM (ids_slice inputs) (\<lambda>inputs.
     call bac ''bac_add_trap'' [Proc_ptr self, name, inputs] as_u32))"

definition Proc_end_loop :: "backend \<Rightarrow> u64 \<Rightarrow> u32 \<Rightarrow> ssa_Loop_State \<Rightarrow> (u32 \<times> ssa_Loop_State) act" where
  "Proc_end_loop bac self node_scope state =
     bindM (call_refs bac ''bac_end_loop'' [Proc_ptr self, C_ref (C_u32 node_scope), C_ref (C_loop_state state)]
              (out_scope_state as_loop_state) as_unit) (\<lambda>(outs, _).
     ret outs)"

definition Proc_start_else :: "backend \<Rightarrow> u64 \<Rightarrow> u32 \<Rightarrow> ssa_If_State \<Rightarrow> (u32 \<times> ssa_If_State) act" where
  "Proc_start_else bac self then_scope state =
     bindM (call_refs bac ''bac_start_else'' [Proc_ptr self, C_ref (C_u32 then_scope), C_ref (C_if_state state)]
              (out_scope_state as_if_state) as_unit) (\<lambda>(outs, _).
     ret outs)"

definition Proc_start_if :: "backend \<Rightarrow> u64 \<Rightarrow> u32 \<Rightarrow> ssa_If_State \<Rightarrow> u32 \<Rightarrow> ssa_If_State act" where
  "Proc_start_if bac self scope state cond =
     bindM (call_refs bac ''bac_start_if'' [Proc_ptr self, C_u32 scope, C_ref (C_if_state state), C_u32 cond]
              (out_state as_if_state) as_unit) (\<lambda>(outs, _).
     ret outs)"

definition Proc_make_call :: "backend \<Rightarrow> u64 \<Rightarrow> slice_ref \<Rightarrow> Call \<Rightarrow> (u32 \<times> u32) act" where
  "Proc_make_call bac self args extra =
     bindM (ids_slice args) (\<lambda>args.
     call_out bac ''bac_make_call'' [Proc_ptr self, args, C_call extra, C_ref (C_u32 0)] as_u32)"

definition Proc_get_scope_value :: "backend \<Rightarrow> u64 \<Rightarrow> u32 \<Rightarrow> isize \<Rightarrow> u32 act" where
  "Proc_get_scope_value bac self scope idx =
     call bac ''bac_get_scope_value'' [Proc_ptr self, C_u32 scope, C_isize idx] as_u32"

definition Proc_start_loop :: "backend \<Rightarrow> u64 \<Rightarrow> u32 \<Rightarrow> ssa_Loop_State \<Rightarrow> ssa_Loop_State act" where
  "Proc_start_loop bac self scope state =
     bindM (call_refs bac ''bac_start_loop'' [Proc_ptr self, C_u32 scope, C_ref (C_loop_state state)]
              (out_state as_loop_state) as_unit) (\<lambda>(outs, _).
     ret outs)"

definition Proc_start_loop_increment :: "backend \<Rightarrow> u64 \<Rightarrow> u32 \<Rightarrow> ssa_Loop_State \<Rightarrow> (u32 \<times> ssa_Loop_State) act" where
  "Proc_start_loop_increment bac self node_scope state =
     bindM (call_refs bac ''bac_start_loop_increment'' [Proc_ptr self, C_ref (C_u32 node_scope), C_ref (C_loop_state state)]
              (out_scope_state as_loop_state) as_unit) (\<lambda>(outs, _).
     ret outs)"

section \<open>\<^verbatim>\<open>impl Builder\<close>\<close>

text \<open>Nodes are references here: each is checked, its id goes to the \<^verbatim>\<open>Proc\<close> method, and the id that comes back is turned into a reference.\<close>

definition Builder_push_scope_value :: "backend \<Rightarrow> u64 \<Rightarrow> u64 \<Rightarrow> u64 \<Rightarrow> slice_ref \<Rightarrow> u64 \<Rightarrow> isize act" where
  "Builder_push_scope_value bac self scope value' name type' =
     bindM (Builder_check bac self scope) (\<lambda>scope.
     bindM (Builder_check bac self value') (\<lambda>value'.
     Proc_push_scope_value bac self scope value' name type'))"

definition Builder_set_scope_value :: "backend \<Rightarrow> u64 \<Rightarrow> u64 \<Rightarrow> isize \<Rightarrow> u64 \<Rightarrow> unit act" where
  "Builder_set_scope_value bac self scope idx value' =
     bindM (Builder_check bac self scope) (\<lambda>scope.
     bindM (Builder_check bac self value') (\<lambda>value'.
     Proc_set_scope_value bac self scope idx value'))"

definition Builder_delete_scope :: "backend \<Rightarrow> u64 \<Rightarrow> u64 \<Rightarrow> unit act" where
  "Builder_delete_scope bac self scope =
     bindM (Builder_check bac self scope) (\<lambda>scope.
     Proc_delete_scope bac self scope)"

definition Builder_truncate_scope :: "backend \<Rightarrow> u64 \<Rightarrow> u64 \<Rightarrow> isize \<Rightarrow> unit act" where
  "Builder_truncate_scope bac self scope to_len =
     bindM (Builder_check bac self scope) (\<lambda>scope.
     Proc_truncate_scope bac self scope to_len)"

definition Builder_merge_return :: "backend \<Rightarrow> u64 \<Rightarrow> u64 list \<Rightarrow> u64 act" where
  "Builder_merge_return bac self args =
     Proc_with_node_ids bac self args (\<lambda>args.
     bindM (Proc_merge_return bac self args) (\<lambda>result.
     Proc_get_node bac self result))"

definition Builder_loopopt :: "backend \<Rightarrow> u64 \<Rightarrow> bool act" where
  "Builder_loopopt bac self =
     Proc_loopopt bac self"

definition Builder_memopt :: "backend \<Rightarrow> u64 \<Rightarrow> bool act" where
  "Builder_memopt bac self =
     Proc_memopt bac self"

definition Builder_add_local_addr :: "backend \<Rightarrow> u64 \<Rightarrow> slice_ref \<Rightarrow> u64 \<Rightarrow> u64 act" where
  "Builder_add_local_addr bac self name local =
     bindM (Builder_check bac self local) (\<lambda>local.
     bindM (Proc_add_local_addr bac self name local) (\<lambda>result.
     Proc_get_node bac self result))"

definition Builder_add_local :: "backend \<Rightarrow> u64 \<Rightarrow> slice_ref \<Rightarrow> u64 \<Rightarrow> u64 act" where
  "Builder_add_local bac self name mem =
     bindM (Builder_check bac self mem) (\<lambda>mem.
     bindM (Proc_add_local bac self name mem) (\<lambda>result.
     Proc_get_node bac self result))"

definition Builder_add_loop :: "backend \<Rightarrow> u64 \<Rightarrow> slice_ref \<Rightarrow> u64 \<Rightarrow> u64 act" where
  "Builder_add_loop bac self name ctrl =
     bindM (Builder_check bac self ctrl) (\<lambda>ctrl.
     bindM (Proc_add_loop bac self name ctrl) (\<lambda>result.
     Proc_get_node bac self result))"

definition Builder_add_jump :: "backend \<Rightarrow> u64 \<Rightarrow> slice_ref \<Rightarrow> u64 \<Rightarrow> u64 act" where
  "Builder_add_jump bac self name ctrl =
     bindM (Builder_check bac self ctrl) (\<lambda>ctrl.
     bindM (Proc_add_jump bac self name ctrl) (\<lambda>result.
     Proc_get_node bac self result))"

definition Builder_add_param :: "backend \<Rightarrow> u64 \<Rightarrow> slice_ref \<Rightarrow> u8 \<Rightarrow> u64 \<Rightarrow> u32 \<Rightarrow> u64 act" where
  "Builder_add_param bac self name dt entry' idx =
     bindM (Builder_check bac self entry') (\<lambda>entry'.
     bindM (Proc_add_param bac self name dt entry' idx) (\<lambda>result.
     Proc_get_node bac self result))"

definition Builder_add_phi :: "backend \<Rightarrow> u64 \<Rightarrow> slice_ref \<Rightarrow> u8 \<Rightarrow> u64 \<Rightarrow> u64 \<Rightarrow> u64 \<Rightarrow> u64 act" where
  "Builder_add_phi bac self name dt reg lhs rhs =
     bindM (Builder_check bac self reg) (\<lambda>reg.
     bindM (Builder_check bac self lhs) (\<lambda>lhs.
     bindM (Builder_check bac self rhs) (\<lambda>rhs.
     bindM (Proc_add_phi bac self name dt reg lhs rhs) (\<lambda>result.
     Proc_get_node bac self result))))"

definition Builder_add_poison :: "backend \<Rightarrow> u64 \<Rightarrow> slice_ref \<Rightarrow> u64 act" where
  "Builder_add_poison bac self name =
     bindM (Proc_add_poison bac self name) (\<lambda>result.
     Proc_get_node bac self result)"

definition Builder_add_proc_addr :: "backend \<Rightarrow> u64 \<Rightarrow> slice_ref \<Rightarrow> u32 \<Rightarrow> u64 act" where
  "Builder_add_proc_addr bac self name idx =
     bindM (Proc_add_proc_addr bac self name idx) (\<lambda>result.
     Proc_get_node bac self result)"

definition Builder_add_region :: "backend \<Rightarrow> u64 \<Rightarrow> slice_ref \<Rightarrow> u64 list \<Rightarrow> u64 act" where
  "Builder_add_region bac self name inputs =
     Proc_with_node_ids bac self inputs (\<lambda>inputs.
     bindM (Proc_add_region bac self name inputs) (\<lambda>result.
     Proc_get_node bac self result))"

definition Builder_add_ret :: "backend \<Rightarrow> u64 \<Rightarrow> slice_ref \<Rightarrow> u8 \<Rightarrow> u64 \<Rightarrow> u32 \<Rightarrow> u64 act" where
  "Builder_add_ret bac self name dt call_end idx =
     bindM (Builder_check bac self call_end) (\<lambda>call_end.
     bindM (Proc_add_ret bac self name dt call_end idx) (\<lambda>result.
     Proc_get_node bac self result))"

definition Builder_add_return :: "backend \<Rightarrow> u64 \<Rightarrow> slice_ref \<Rightarrow> u64 list \<Rightarrow> u64 act" where
  "Builder_add_return bac self name inputs =
     Proc_with_node_ids bac self inputs (\<lambda>inputs.
     bindM (Proc_add_return bac self name inputs) (\<lambda>result.
     Proc_get_node bac self result))"

definition Builder_add_select :: "backend \<Rightarrow> u64 \<Rightarrow> slice_ref \<Rightarrow> u8 \<Rightarrow> u64 \<Rightarrow> u64 \<Rightarrow> u64 \<Rightarrow> u64 act" where
  "Builder_add_select bac self name dt on_true on_false condition =
     bindM (Builder_check bac self on_true) (\<lambda>on_true.
     bindM (Builder_check bac self on_false) (\<lambda>on_false.
     bindM (Builder_check bac self condition) (\<lambda>condition.
     bindM (Proc_add_select bac self name dt on_true on_false condition) (\<lambda>result.
     Proc_get_node bac self result))))"

definition Builder_add_set :: "backend \<Rightarrow> u64 \<Rightarrow> slice_ref \<Rightarrow> u64 \<Rightarrow> u64 \<Rightarrow> u64 \<Rightarrow> u64 \<Rightarrow> u64 \<Rightarrow> u64 act" where
  "Builder_add_set bac self name ctrl mem dst value' size' =
     bindM (Builder_check bac self ctrl) (\<lambda>ctrl.
     bindM (Builder_check bac self mem) (\<lambda>mem.
     bindM (Builder_check bac self dst) (\<lambda>dst.
     bindM (Builder_check bac self value') (\<lambda>value'.
     bindM (Builder_check bac self size') (\<lambda>size'.
     bindM (Proc_add_set bac self name ctrl mem dst value' size') (\<lambda>result.
     Proc_get_node bac self result))))))"

definition Builder_add_split :: "backend \<Rightarrow> u64 \<Rightarrow> slice_ref \<Rightarrow> u8 \<Rightarrow> u64 \<Rightarrow> u64 act" where
  "Builder_add_split bac self name dt dest =
     bindM (Builder_check bac self dest) (\<lambda>dest.
     bindM (Proc_add_split bac self name dt dest) (\<lambda>result.
     Proc_get_node bac self result))"

definition Builder_add_split_mem :: "backend \<Rightarrow> u64 \<Rightarrow> slice_ref \<Rightarrow> u64 \<Rightarrow> u64 act" where
  "Builder_add_split_mem bac self name mem =
     bindM (Builder_check bac self mem) (\<lambda>mem.
     bindM (Proc_add_split_mem bac self name mem) (\<lambda>result.
     Proc_get_node bac self result))"

definition Builder_add_store :: "backend \<Rightarrow> u64 \<Rightarrow> slice_ref \<Rightarrow> u64 \<Rightarrow> u64 \<Rightarrow> u64 \<Rightarrow> u64 \<Rightarrow> u64 act" where
  "Builder_add_store bac self name ctrl mem addr value' =
     bindM (Builder_check bac self ctrl) (\<lambda>ctrl.
     bindM (Builder_check bac self mem) (\<lambda>mem.
     bindM (Builder_check bac self addr) (\<lambda>addr.
     bindM (Builder_check bac self value') (\<lambda>value'.
     bindM (Proc_add_store bac self name ctrl mem addr value') (\<lambda>result.
     Proc_get_node bac self result)))))"

definition Builder_add_sym :: "backend \<Rightarrow> u64 \<Rightarrow> slice_ref \<Rightarrow> u64 \<Rightarrow> u64 act" where
  "Builder_add_sym bac self name entry' =
     bindM (Builder_check bac self entry') (\<lambda>entry'.
     bindM (Proc_add_sym bac self name entry') (\<lambda>result.
     Proc_get_node bac self result))"

definition Builder_add_then :: "backend \<Rightarrow> u64 \<Rightarrow> slice_ref \<Rightarrow> u64 \<Rightarrow> u64 act" where
  "Builder_add_then bac self name ctrl =
     bindM (Builder_check bac self ctrl) (\<lambda>ctrl.
     bindM (Proc_add_then bac self name ctrl) (\<lambda>result.
     Proc_get_node bac self result))"

definition Builder_add_if :: "backend \<Rightarrow> u64 \<Rightarrow> slice_ref \<Rightarrow> u64 \<Rightarrow> u64 \<Rightarrow> u64 act" where
  "Builder_add_if bac self name ctrl cond =
     bindM (Builder_check bac self ctrl) (\<lambda>ctrl.
     bindM (Builder_check bac self cond) (\<lambda>cond.
     bindM (Proc_add_if bac self name ctrl cond) (\<lambda>result.
     Proc_get_node bac self result)))"

definition Builder_add_global_addr :: "backend \<Rightarrow> u64 \<Rightarrow> slice_ref \<Rightarrow> u64 \<Rightarrow> u64 act" where
  "Builder_add_global_addr bac self name global =
     bindM (Builder_check bac self global) (\<lambda>global.
     bindM (Proc_add_global_addr bac self name global) (\<lambda>result.
     Proc_get_node bac self result))"

definition Builder_add_load :: "backend \<Rightarrow> u64 \<Rightarrow> slice_ref \<Rightarrow> u8 \<Rightarrow> u64 \<Rightarrow> u64 \<Rightarrow> u64 \<Rightarrow> u64 act" where
  "Builder_add_load bac self name dt ctrl mem addr =
     bindM (Builder_check bac self ctrl) (\<lambda>ctrl.
     bindM (Builder_check bac self mem) (\<lambda>mem.
     bindM (Builder_check bac self addr) (\<lambda>addr.
     bindM (Proc_add_load bac self name dt ctrl mem addr) (\<lambda>result.
     Proc_get_node bac self result))))"

definition Builder_add_mem :: "backend \<Rightarrow> u64 \<Rightarrow> slice_ref \<Rightarrow> u64 \<Rightarrow> u64 act" where
  "Builder_add_mem bac self name ctrl =
     bindM (Builder_check bac self ctrl) (\<lambda>ctrl.
     bindM (Proc_add_mem bac self name ctrl) (\<lambda>result.
     Proc_get_node bac self result))"

definition Builder_apply_peep :: "backend \<Rightarrow> u64 \<Rightarrow> u64 \<Rightarrow> u64 act" where
  "Builder_apply_peep bac self id' =
     bindM (Builder_check bac self id') (\<lambda>id'.
     bindM (Proc_apply_peep bac self id') (\<lambda>result.
     Proc_get_node bac self result))"

definition Builder_add_un_op :: "backend \<Rightarrow> u64 \<Rightarrow> slice_ref \<Rightarrow> u16 \<Rightarrow> u8 \<Rightarrow> u64 \<Rightarrow> u8 \<Rightarrow> u64 act" where
  "Builder_add_un_op bac self name type' dt oprnd lane =
     bindM (Builder_check bac self oprnd) (\<lambda>oprnd.
     bindM (Proc_add_un_op bac self name type' dt oprnd lane) (\<lambda>result.
     Proc_get_node bac self result))"

definition Builder_connect :: "backend \<Rightarrow> u64 \<Rightarrow> u64 \<Rightarrow> u64 \<Rightarrow> isize act" where
  "Builder_connect bac self use' def' =
     bindM (Builder_check bac self use') (\<lambda>use'.
     bindM (Builder_check bac self def') (\<lambda>def'.
     Proc_connect bac self use' def'))"

definition Builder_delete_node_node_id :: "backend \<Rightarrow> u64 \<Rightarrow> u64 \<Rightarrow> unit act" where
  "Builder_delete_node_node_id bac self id' =
     bindM (Builder_check bac self id') (\<lambda>id'.
     Proc_delete_node_node_id bac self id')"

definition Builder_find_node :: "backend \<Rightarrow> u64 \<Rightarrow> u16 \<Rightarrow> u64 \<Rightarrow> (u64 \<times> bool) act" where
  "Builder_find_node bac self kind on =
     bindM (Builder_check bac self on) (\<lambda>on.
     bindM (Proc_find_node bac self kind on) (\<lambda>(result0, result1).
     bindM (Proc_get_node bac self result0) (\<lambda>node0.
     ret (node0, result1))))"

definition Builder_find_or_create_node :: "backend \<Rightarrow> u64 \<Rightarrow> u16 \<Rightarrow> u64 act" where
  "Builder_find_or_create_node bac self kind =
     bindM (Proc_find_or_create_node bac self kind) (\<lambda>result.
     Proc_get_node bac self result)"

definition Builder_get_sym_count :: "backend \<Rightarrow> u64 \<Rightarrow> (u64 \<times> isize) act" where
  "Builder_get_sym_count bac self =
     bindM (Proc_get_sym_count bac self) (\<lambda>(result0, result1).
     bindM (Proc_get_node bac self result0) (\<lambda>node0.
     ret (node0, result1)))"

definition Builder_add_end :: "backend \<Rightarrow> u64 \<Rightarrow> slice_ref \<Rightarrow> u64 list \<Rightarrow> u64 act" where
  "Builder_add_end bac self name inputs =
     Proc_with_node_ids bac self inputs (\<lambda>inputs.
     bindM (Proc_add_end bac self name inputs) (\<lambda>result.
     Proc_get_node bac self result))"

definition Builder_add_dbg_sym_update :: "backend \<Rightarrow> u64 \<Rightarrow> slice_ref \<Rightarrow> u64 \<Rightarrow> u64 \<Rightarrow> u64 act" where
  "Builder_add_dbg_sym_update bac self name new_value prev_update =
     bindM (Builder_check bac self new_value) (\<lambda>new_value.
     bindM (Builder_check bac self prev_update) (\<lambda>prev_update.
     bindM (Proc_add_dbg_sym_update bac self name new_value prev_update) (\<lambda>result.
     Proc_get_node bac self result)))"

definition Builder_add_else :: "backend \<Rightarrow> u64 \<Rightarrow> slice_ref \<Rightarrow> u64 \<Rightarrow> u64 act" where
  "Builder_add_else bac self name ctrl =
     bindM (Builder_check bac self ctrl) (\<lambda>ctrl.
     bindM (Proc_add_else bac self name ctrl) (\<lambda>result.
     Proc_get_node bac self result))"

definition Builder_add_entry :: "backend \<Rightarrow> u64 \<Rightarrow> slice_ref \<Rightarrow> u64 act" where
  "Builder_add_entry bac self name =
     bindM (Proc_add_entry bac self name) (\<lambda>result.
     Proc_get_node bac self result)"

definition Builder_add_copy :: "backend \<Rightarrow> u64 \<Rightarrow> slice_ref \<Rightarrow> u64 \<Rightarrow> u64 \<Rightarrow> u64 \<Rightarrow> u64 \<Rightarrow> u64 \<Rightarrow> u64 act" where
  "Builder_add_copy bac self name ctrl mem dst src size' =
     bindM (Builder_check bac self ctrl) (\<lambda>ctrl.
     bindM (Builder_check bac self mem) (\<lambda>mem.
     bindM (Builder_check bac self dst) (\<lambda>dst.
     bindM (Builder_check bac self src) (\<lambda>src.
     bindM (Builder_check bac self size') (\<lambda>size'.
     bindM (Proc_add_copy bac self name ctrl mem dst src size') (\<lambda>result.
     Proc_get_node bac self result))))))"

definition Builder_add_call_end :: "backend \<Rightarrow> u64 \<Rightarrow> slice_ref \<Rightarrow> u64 \<Rightarrow> u64 act" where
  "Builder_add_call_end bac self name call' =
     bindM (Builder_check bac self call') (\<lambda>call'.
     bindM (Proc_add_call_end bac self name call') (\<lambda>result.
     Proc_get_node bac self result))"

definition Builder_set_input :: "backend \<Rightarrow> u64 \<Rightarrow> u64 \<Rightarrow> isize \<Rightarrow> u64 \<Rightarrow> bool \<Rightarrow> u64 act" where
  "Builder_set_input bac self id' idx value' subsume_on_intern =
     bindM (Builder_check bac self id') (\<lambda>id'.
     bindM (Builder_check bac self value') (\<lambda>value'.
     bindM (Proc_set_input bac self id' idx value' subsume_on_intern) (\<lambda>result.
     Proc_get_node bac self result)))"

definition Builder_pin :: "backend \<Rightarrow> u64 \<Rightarrow> u64 \<Rightarrow> unit act" where
  "Builder_pin bac self id' =
     bindM (Builder_check bac self id') (\<lambda>id'.
     Proc_pin bac self id')"

definition Builder_unpin :: "backend \<Rightarrow> u64 \<Rightarrow> u64 \<Rightarrow> bool \<Rightarrow> unit act" where
  "Builder_unpin bac self id' no_delete =
     bindM (Builder_check bac self id') (\<lambda>id'.
     Proc_unpin bac self id' no_delete)"

definition Builder_set_local_size :: "backend \<Rightarrow> u64 \<Rightarrow> u64 \<Rightarrow> u32 \<Rightarrow> unit act" where
  "Builder_set_local_size bac self loc size' =
     bindM (Builder_check bac self loc) (\<lambda>loc.
     Proc_set_local_size bac self loc size')"

definition Builder_add_arbitrary_load :: "backend \<Rightarrow> u64 \<Rightarrow> u64 \<Rightarrow> u64 \<Rightarrow> u64 \<Rightarrow> isize \<Rightarrow> isize \<Rightarrow> u8 \<Rightarrow> u64 act" where
  "Builder_add_arbitrary_load bac self cfg mem addr rsize extra_offset unit =
     bindM (Builder_check bac self cfg) (\<lambda>cfg.
     bindM (Builder_check bac self mem) (\<lambda>mem.
     bindM (Builder_check bac self addr) (\<lambda>addr.
     bindM (Proc_add_arbitrary_load bac self cfg mem addr rsize extra_offset unit) (\<lambda>result.
     Proc_get_node bac self result))))"

definition Builder_add_field_load :: "backend \<Rightarrow> u64 \<Rightarrow> slice_ref \<Rightarrow> u8 \<Rightarrow> u64 \<Rightarrow> u64 \<Rightarrow> u64 \<Rightarrow> isize \<Rightarrow> u64 act" where
  "Builder_add_field_load bac self name dt cfg mem base offset =
     bindM (Builder_check bac self cfg) (\<lambda>cfg.
     bindM (Builder_check bac self mem) (\<lambda>mem.
     bindM (Builder_check bac self base) (\<lambda>base.
     bindM (Proc_add_field_load bac self name dt cfg mem base offset) (\<lambda>result.
     Proc_get_node bac self result))))"

definition Builder_add_field_store :: "backend \<Rightarrow> u64 \<Rightarrow> slice_ref \<Rightarrow> u64 \<Rightarrow> u64 \<Rightarrow> u64 \<Rightarrow> isize \<Rightarrow> u64 \<Rightarrow> u64 act" where
  "Builder_add_field_store bac self name cfg mem base offset value' =
     bindM (Builder_check bac self cfg) (\<lambda>cfg.
     bindM (Builder_check bac self mem) (\<lambda>mem.
     bindM (Builder_check bac self base) (\<lambda>base.
     bindM (Builder_check bac self value') (\<lambda>value'.
     bindM (Proc_add_field_store bac self name cfg mem base offset value') (\<lambda>result.
     Proc_get_node bac self result)))))"

definition Builder_add_arbitrary_store :: "backend \<Rightarrow> u64 \<Rightarrow> u64 \<Rightarrow> u64 \<Rightarrow> u64 \<Rightarrow> u64 \<Rightarrow> isize \<Rightarrow> isize \<Rightarrow> u8 \<Rightarrow> u64 act" where
  "Builder_add_arbitrary_store bac self cfg mem addr rvalue rsize extra_offset unit =
     bindM (Builder_check bac self cfg) (\<lambda>cfg.
     bindM (Builder_check bac self mem) (\<lambda>mem.
     bindM (Builder_check bac self addr) (\<lambda>addr.
     bindM (Builder_check bac self rvalue) (\<lambda>rvalue.
     bindM (Proc_add_arbitrary_store bac self cfg mem addr rvalue rsize extra_offset unit) (\<lambda>result.
     Proc_get_node bac self result)))))"

definition Builder_add_scope :: "backend \<Rightarrow> u64 \<Rightarrow> slice_ref \<Rightarrow> u64 \<Rightarrow> u64 act" where
  "Builder_add_scope bac self name cfg =
     bindM (Builder_check bac self cfg) (\<lambda>cfg.
     bindM (Proc_add_scope bac self name cfg) (\<lambda>result.
     Proc_get_node bac self result))"

definition Builder_add_field_offset :: "backend \<Rightarrow> u64 \<Rightarrow> u64 \<Rightarrow> isize \<Rightarrow> u64 act" where
  "Builder_add_field_offset bac self base offset =
     bindM (Builder_check bac self base) (\<lambda>base.
     bindM (Proc_add_field_offset bac self base offset) (\<lambda>result.
     Proc_get_node bac self result))"

definition Builder_add_lazy_phi :: "backend \<Rightarrow> u64 \<Rightarrow> slice_ref \<Rightarrow> u8 \<Rightarrow> u64 \<Rightarrow> u64 \<Rightarrow> u64 act" where
  "Builder_add_lazy_phi bac self name dt reg lhs =
     bindM (Builder_check bac self reg) (\<lambda>reg.
     bindM (Builder_check bac self lhs) (\<lambda>lhs.
     bindM (Proc_add_lazy_phi bac self name dt reg lhs) (\<lambda>result.
     Proc_get_node bac self result)))"

definition Builder_compute_index_offset :: "backend \<Rightarrow> u64 \<Rightarrow> u64 \<Rightarrow> u64 \<Rightarrow> u64 \<Rightarrow> u64 act" where
  "Builder_compute_index_offset bac self base index stride =
     bindM (Builder_check bac self base) (\<lambda>base.
     bindM (Builder_check bac self index) (\<lambda>index.
     bindM (Proc_compute_index_offset bac self base index stride) (\<lambda>result.
     Proc_get_node bac self result)))"

definition Builder_decl_local :: "backend \<Rightarrow> u64 \<Rightarrow> u64 \<Rightarrow> slice_ref \<Rightarrow> u64 \<Rightarrow> unit act" where
  "Builder_decl_local bac self loc name type' =
     bindM (Builder_check bac self loc) (\<lambda>loc.
     Proc_decl_local bac self loc name type')"

definition Builder_add_dbg_scope :: "backend \<Rightarrow> u64 \<Rightarrow> slice_ref \<Rightarrow> u64 list \<Rightarrow> u64 act" where
  "Builder_add_dbg_scope bac self name inputs =
     Proc_with_node_ids bac self inputs (\<lambda>inputs.
     bindM (Proc_add_dbg_scope bac self name inputs) (\<lambda>result.
     Proc_get_node bac self result))"

definition Builder_add_c_int :: "backend \<Rightarrow> u64 \<Rightarrow> slice_ref \<Rightarrow> u8 \<Rightarrow> u64 \<Rightarrow> u64 act" where
  "Builder_add_c_int bac self name dt value' =
     bindM (Proc_add_c_int bac self name dt value') (\<lambda>result.
     Proc_get_node bac self result)"

definition Builder_add_always :: "backend \<Rightarrow> u64 \<Rightarrow> slice_ref \<Rightarrow> u64 list \<Rightarrow> u64 act" where
  "Builder_add_always bac self name inputs =
     Proc_with_node_ids bac self inputs (\<lambda>inputs.
     bindM (Proc_add_always bac self name inputs) (\<lambda>result.
     Proc_get_node bac self result))"

definition Builder_add_bin_op :: "backend \<Rightarrow> u64 \<Rightarrow> slice_ref \<Rightarrow> u16 \<Rightarrow> u8 \<Rightarrow> u64 \<Rightarrow> u64 \<Rightarrow> u8 \<Rightarrow> u64 act" where
  "Builder_add_bin_op bac self name type' dt lhs rhs lane =
     bindM (Builder_check bac self lhs) (\<lambda>lhs.
     bindM (Builder_check bac self rhs) (\<lambda>rhs.
     bindM (Proc_add_bin_op bac self name type' dt lhs rhs lane) (\<lambda>result.
     Proc_get_node bac self result)))"

definition Builder_add_call :: "backend \<Rightarrow> u64 \<Rightarrow> slice_ref \<Rightarrow> u64 list \<Rightarrow> Call \<Rightarrow> u64 act" where
  "Builder_add_call bac self name inputs extra =
     Proc_with_node_ids bac self inputs (\<lambda>inputs.
     bindM (Proc_add_call bac self name inputs extra) (\<lambda>result.
     Proc_get_node bac self result))"

definition Builder_add_dbg_sym_decl :: "backend \<Rightarrow> u64 \<Rightarrow> slice_ref \<Rightarrow> u64 act" where
  "Builder_add_dbg_sym_decl bac self name =
     bindM (Proc_add_dbg_sym_decl bac self name) (\<lambda>result.
     Proc_get_node bac self result)"

definition Builder_add_global :: "backend \<Rightarrow> u64 \<Rightarrow> slice_ref \<Rightarrow> u32 \<Rightarrow> u64 act" where
  "Builder_add_global bac self name idx =
     bindM (Proc_add_global bac self name idx) (\<lambda>result.
     Proc_get_node bac self result)"

definition Builder_add_merge_mem :: "backend \<Rightarrow> u64 \<Rightarrow> slice_ref \<Rightarrow> u64 list \<Rightarrow> u64 act" where
  "Builder_add_merge_mem bac self name inputs =
     Proc_with_node_ids bac self inputs (\<lambda>inputs.
     bindM (Proc_add_merge_mem bac self name inputs) (\<lambda>result.
     Proc_get_node bac self result))"

definition Builder_add_trap :: "backend \<Rightarrow> u64 \<Rightarrow> slice_ref \<Rightarrow> u64 list \<Rightarrow> u64 act" where
  "Builder_add_trap bac self name inputs =
     Proc_with_node_ids bac self inputs (\<lambda>inputs.
     bindM (Proc_add_trap bac self name inputs) (\<lambda>result.
     Proc_get_node bac self result))"

definition Builder_make_call :: "backend \<Rightarrow> u64 \<Rightarrow> u64 list \<Rightarrow> Call \<Rightarrow> (u64 \<times> u64) act" where
  "Builder_make_call bac self args extra =
     Proc_with_node_ids bac self args (\<lambda>args.
     bindM (Proc_make_call bac self args extra) (\<lambda>(result0, result1).
     bindM (Proc_get_node bac self result0) (\<lambda>node0.
     bindM (Proc_get_node bac self result1) (\<lambda>node1.
     ret (node0, node1)))))"

definition Builder_get_scope_value :: "backend \<Rightarrow> u64 \<Rightarrow> u64 \<Rightarrow> isize \<Rightarrow> u64 act" where
  "Builder_get_scope_value bac self scope idx =
     bindM (Builder_check bac self scope) (\<lambda>scope.
     bindM (Proc_get_scope_value bac self scope idx) (\<lambda>result.
     Proc_get_node bac self result))"

section \<open>Structured control flow\<close>

text \<open>
  \<^verbatim>\<open>IfState\<close>, \<^verbatim>\<open>LoopState\<close> and \<^verbatim>\<open>BlockState\<close>: a borrowed proc and the state that the library keeps between the
  calls of one construct. A scope taken by \<^verbatim>\<open>&mut &Node\<close> is an argument and, as the reference it is
  replaced by, a result; so is the state.
\<close>

record IfState =
  if_proc :: u64
  if_raw :: ssa_If_State

record LoopState =
  loop_proc :: u64
  loop_raw :: ssa_Loop_State

record BlockState =
  block_proc :: u64
  block_raw :: ssa_Block_State

definition IfState_new :: "u64 \<Rightarrow> IfState" where
  "IfState_new prc = \<lparr>if_proc = prc, if_raw = ssa_If_State_default\<rparr>"

definition LoopState_new :: "u64 \<Rightarrow> LoopState" where
  "LoopState_new prc = \<lparr>loop_proc = prc, loop_raw = ssa_Loop_State_default\<rparr>"

definition BlockState_new :: "u64 \<Rightarrow> BlockState" where
  "BlockState_new prc = \<lparr>block_proc = prc, block_raw = ssa_Block_State_default\<rparr>"

definition Proc_loop_control :: "backend \<Rightarrow> u64 \<Rightarrow> isize \<Rightarrow> u32 \<Rightarrow> ssa_Loop_State \<Rightarrow> ssa_Loop_State act" where
  "Proc_loop_control bac self variant scope state =
     bindM (call_refs bac ''bac_loop_control'' [C_isize variant, Proc_ptr self, C_u32 scope, C_ref (C_loop_state state)]
              (out_state as_loop_state) as_unit) (\<lambda>(outs, _).
     ret outs)"

definition LoopState_loop_control :: "backend \<Rightarrow> LoopState \<Rightarrow> isize \<Rightarrow> u64 \<Rightarrow> LoopState act" where
  "LoopState_loop_control bac self variant scope =
     bindM (Proc_check bac (loop_proc self) scope) (\<lambda>scope.
     bindM (Proc_loop_control bac (loop_proc self) variant scope (loop_raw self)) (\<lambda>raw.
     ret (self\<lparr>loop_raw := raw\<rparr>)))"

definition IfState_end_else :: "backend \<Rightarrow> IfState \<Rightarrow> u64 \<Rightarrow> (u64 \<times> IfState) act" where
  "IfState_end_else bac self else_scope =
     bindM (Proc_check bac (if_proc self) else_scope) (\<lambda>else_scope_id.
     bindM (Proc_end_else bac (if_proc self) else_scope_id (if_raw self)) (\<lambda>(else_scope_id, raw).
     bindM (Proc_get_node bac (if_proc self) else_scope_id) (\<lambda>else_scope.
     ret (else_scope, self\<lparr>if_raw := raw\<rparr>))))"

definition IfState_end_if :: "backend \<Rightarrow> IfState \<Rightarrow> u64 \<Rightarrow> (u64 \<times> IfState) act" where
  "IfState_end_if bac self then_scope =
     bindM (Proc_check bac (if_proc self) then_scope) (\<lambda>then_scope_id.
     bindM (Proc_end_if bac (if_proc self) then_scope_id (if_raw self)) (\<lambda>(then_scope_id, raw).
     bindM (Proc_get_node bac (if_proc self) then_scope_id) (\<lambda>then_scope.
     ret (then_scope, self\<lparr>if_raw := raw\<rparr>))))"

definition IfState_start_else :: "backend \<Rightarrow> IfState \<Rightarrow> u64 \<Rightarrow> (u64 \<times> IfState) act" where
  "IfState_start_else bac self then_scope =
     bindM (Proc_check bac (if_proc self) then_scope) (\<lambda>then_scope_id.
     bindM (Proc_start_else bac (if_proc self) then_scope_id (if_raw self)) (\<lambda>(then_scope_id, raw).
     bindM (Proc_get_node bac (if_proc self) then_scope_id) (\<lambda>then_scope.
     ret (then_scope, self\<lparr>if_raw := raw\<rparr>))))"

definition IfState_start_if :: "backend \<Rightarrow> IfState \<Rightarrow> u64 \<Rightarrow> u64 \<Rightarrow> IfState act" where
  "IfState_start_if bac self scope cond =
     bindM (Proc_check bac (if_proc self) scope) (\<lambda>scope.
     bindM (Proc_check bac (if_proc self) cond) (\<lambda>cond.
     bindM (Proc_start_if bac (if_proc self) scope (if_raw self) cond) (\<lambda>raw.
     ret (self\<lparr>if_raw := raw\<rparr>))))"

definition LoopState_end_loop :: "backend \<Rightarrow> LoopState \<Rightarrow> u64 \<Rightarrow> (u64 \<times> LoopState) act" where
  "LoopState_end_loop bac self node_scope =
     bindM (Proc_check bac (loop_proc self) node_scope) (\<lambda>node_scope_id.
     bindM (Proc_end_loop bac (loop_proc self) node_scope_id (loop_raw self)) (\<lambda>(node_scope_id, raw).
     bindM (Proc_get_node bac (loop_proc self) node_scope_id) (\<lambda>node_scope.
     ret (node_scope, self\<lparr>loop_raw := raw\<rparr>))))"

definition LoopState_start_loop :: "backend \<Rightarrow> LoopState \<Rightarrow> u64 \<Rightarrow> LoopState act" where
  "LoopState_start_loop bac self scope =
     bindM (Proc_check bac (loop_proc self) scope) (\<lambda>scope.
     bindM (Proc_start_loop bac (loop_proc self) scope (loop_raw self)) (\<lambda>raw.
     ret (self\<lparr>loop_raw := raw\<rparr>)))"

definition LoopState_start_loop_increment :: "backend \<Rightarrow> LoopState \<Rightarrow> u64 \<Rightarrow> (u64 \<times> LoopState) act" where
  "LoopState_start_loop_increment bac self node_scope =
     bindM (Proc_check bac (loop_proc self) node_scope) (\<lambda>node_scope_id.
     bindM (Proc_start_loop_increment bac (loop_proc self) node_scope_id (loop_raw self)) (\<lambda>(node_scope_id, raw).
     bindM (Proc_get_node bac (loop_proc self) node_scope_id) (\<lambda>node_scope.
     ret (node_scope, self\<lparr>loop_raw := raw\<rparr>))))"

definition BlockState_break_block :: "backend \<Rightarrow> BlockState \<Rightarrow> u64 \<Rightarrow> (u64 \<times> BlockState) act" where
  "BlockState_break_block bac self scope =
     bindM (Proc_check bac (block_proc self) scope) (\<lambda>scope_id.
     bindM (Proc_break_block bac (block_proc self) scope_id (block_raw self)) (\<lambda>(scope_id, raw).
     bindM (Proc_get_node bac (block_proc self) scope_id) (\<lambda>scope.
     ret (scope, self\<lparr>block_raw := raw\<rparr>))))"

definition BlockState_end_block :: "backend \<Rightarrow> BlockState \<Rightarrow> u64 \<Rightarrow> (u64 \<times> BlockState) act" where
  "BlockState_end_block bac self scope =
     bindM (Proc_check bac (block_proc self) scope) (\<lambda>scope_id.
     bindM (Proc_end_block bac (block_proc self) scope_id (block_raw self)) (\<lambda>(scope_id, raw).
     bindM (Proc_get_node bac (block_proc self) scope_id) (\<lambda>scope.
     ret (scope, self\<lparr>block_raw := raw\<rparr>))))"

end
