(* ===== verification/Proc_Laws.thy ===== *)
theory Proc_Laws
  imports Proc
begin

text \<open>
  Correctness of the crate's view of a graph: ids and references correspond, a node is accepted exactly
  when it belongs to the graph and is alive, lists of nodes reach the library as their ids and
  leave the scratch arena as it was, and the iterator over inputs yields the inputs.
\<close>

section \<open>Accepted nodes\<close>

definition check_res :: "backend \<Rightarrow> machine \<Rightarrow> u64 \<Rightarrow> u64 \<Rightarrow> u32 res" where
  "check_res bac m self node =
     (if node = Node_NONE bac \<or> belongs m self node
      then if load_u16 (memory m) node = DEAD_NODE_KIND
           then Inl (Panic (''node has been deleted: '' @ show_nat (unat (ref_id bac m self node))))
           else Inr (ref_id bac m self node)
      else Inl (Panic ''node does not belong to this proc's arena''))"

lemma snapshot_rtype_load: "snapshot_rtype (load_bytes m p NODE_SIZE) = load_u16 m p"
  by (simp add: snapshot_rtype_def load_u16_def take_load_bytes NODE_SIZE_def)

lemma Proc_check_eq: "Proc_check bac self node m = (check_res bac m self node, m)"
  by (simp add: Proc_check_def Proc_node_id_cases check_res_def Node_is_dead_def Node_snapshot_def
      snapshot_rtype_load DEAD_NODE_KIND_def ret_apply assertM_apply)

text \<open>References to whole nodes of a graph, the nil node included, and those that are alive.\<close>

definition node_in :: "backend \<Rightarrow> machine \<Rightarrow> u64 \<Rightarrow> u64 \<Rightarrow> bool" where
  "node_in bac m self node \<longleftrightarrow> node = Node_NONE bac \<or>
     belongs m self node \<and> node \<noteq> arena_ptr (proc_arena m self) \<and> unat node + NODE_SIZE \<le>
       unat (arena_ptr (proc_arena m self)) + unat (arena_pos (proc_arena m self))"

definition live_node :: "backend \<Rightarrow> machine \<Rightarrow> u64 \<Rightarrow> u64 \<Rightarrow> bool" where
  "live_node bac m self node \<longleftrightarrow> node_in bac m self node \<and> load_u16 (memory m) node \<noteq> DEAD_NODE_KIND"

lemma check_live: "live_node bac m self node \<Longrightarrow> check_res bac m self node = Inr (ref_id bac m self node)"
  by (auto simp: live_node_def node_in_def check_res_def)

lemma node_in_region:
  assumes "proc_ok bac m self" "node_in bac m self node"
  shows "region_ok node NODE_SIZE"
    "apart node NODE_SIZE (arena_ptr (scratch_arena m self)) (unat (arena_reserved (scratch_arena m self)))"
proof -
  have n: "node = Node_NONE bac \<or> inside node NODE_SIZE (arena_ptr (proc_arena m self)) (unat (arena_reserved (proc_arena m self)))"
    using assms arena_okD(1) [OF proc_okD(1) [OF assms(1)]]
    by (auto simp: node_in_def belongs_def inside_def Let_def)
  have r: "region_ok (arena_ptr (proc_arena m self)) (unat (arena_reserved (proc_arena m self)))"
    "region_ok (Node_NONE bac) NODE_SIZE"
    using assms(1) by (auto simp: proc_ok_def arena_ok_def region_ok_def NODE_SIZE_def)
  show "region_ok node NODE_SIZE" using n r inside_region_ok by blast
  show "apart node NODE_SIZE (arena_ptr (scratch_arena m self)) (unat (arena_reserved (scratch_arena m self)))"
    using n
  proof
    assume "node = Node_NONE bac"
    then show ?thesis using assms(1) by (auto simp: proc_ok_def apart_def NODE_SIZE_def)
  next
    assume "inside node NODE_SIZE (arena_ptr (proc_arena m self)) (unat (arena_reserved (proc_arena m self)))"
    then show ?thesis by (rule inside_apart) (use assms(1) in \<open>simp add: proc_ok_def\<close>)
  qed
qed

section \<open>Ids and references correspond\<close>

lemma node_ref_nil:
  assumes "proc_ok bac m self" "id_ok m self id'"
  shows "node_ref bac m self id' = Node_NONE bac \<longleftrightarrow> id' = 0"
proof (cases "id' = 0")
  case False
  let ?x = "proc_arena m self"
  have le: "4 * unat id' + NODE_SIZE \<le> unat (arena_reserved ?x)"
    using assms(2) False arena_okD(1) [OF proc_okD(1) [OF assms(1)]] by (simp add: id_ok_def)
  have u: "unat (node_ref bac m self id') = unat (arena_ptr ?x) + 4 * unat id'"
    using le by (intro node_ref_unat [OF proc_okD(1) [OF assms(1)] False]) simp
  have "unat (node_ref bac m self id') \<noteq> unat (Node_NONE bac)"
    using assms(1) u le unfolding proc_ok_def apart_def NODE_SIZE_def by auto
  with False show ?thesis by metis
qed (simp add: node_ref_def)

lemma node_ref_facts:
  assumes ok: "proc_ok bac m self" and i: "id_ok m self id'"
  shows "node_in bac m self (node_ref bac m self id')" "ref_id bac m self (node_ref bac m self id') = id'"
proof -
  let ?x = "proc_arena m self" and ?n = "node_ref bac m self id'"
  have "node_in bac m self ?n \<and> ref_id bac m self ?n = id'"
  proof (cases "id' = 0")
    case False
    have le: "4 * unat id' + NODE_SIZE \<le> unat (arena_pos ?x)"
      using i False by (simp add: id_ok_def)
    have u: "unat ?n = unat (arena_ptr ?x) + 4 * unat id'"
      using le arena_okD(1) [OF proc_okD(1) [OF ok]]
      by (intro node_ref_unat [OF proc_okD(1) [OF ok] False]) simp
    then have "belongs m self ?n" using le by (simp add: belongs_def)
    moreover have "?n \<noteq> arena_ptr ?x" using u False by (metis add_cancel_right_right mult_is_0 unat_eq_0 zero_neq_numeral)
    moreover have "?n \<noteq> Node_NONE bac" using node_ref_nil [OF ok i] False by simp
    ultimately show ?thesis using u le by (simp add: node_in_def ref_id_def)
  qed (simp add: node_ref_def node_in_def ref_id_def)
  then show "node_in bac m self ?n" "ref_id bac m self ?n = id'" by auto
qed

lemma node_in_id:
  assumes ok: "proc_ok bac m self" and n: "node_in bac m self node"
  shows "id_ok m self (ref_id bac m self node)" "node_ref bac m self (ref_id bac m self node) = node"
proof -
  let ?x = "proc_arena m self" and ?i = "ref_id bac m self node"
  have "id_ok m self ?i \<and> node_ref bac m self ?i = node"
  proof (cases "node = Node_NONE bac")
    case False
    then have b: "unat (arena_ptr ?x) \<le> unat node" "4 dvd (unat node - unat (arena_ptr ?x))"
      "(unat node - unat (arena_ptr ?x)) div 4 < 2 ^ 32" "node \<noteq> arena_ptr ?x"
      "unat node + NODE_SIZE \<le> unat (arena_ptr ?x) + unat (arena_pos ?x)"
      using n by (auto simp: node_in_def belongs_def Let_def)
    have "unat ?i = (unat node - unat (arena_ptr ?x)) div 4"
      using False b(3) by (simp add: ref_id_def unat_of_nat)
    then have i4: "4 * unat ?i = unat node - unat (arena_ptr ?x)" using b(2) by simp
    moreover have "unat node \<noteq> unat (arena_ptr ?x)" using b(4) by (metis of_nat_unat_usize)
    ultimately have nz: "?i \<noteq> 0" using b(1) by auto
    have "unat (node_ref bac m self ?i) = unat (arena_ptr ?x) + 4 * unat ?i"
      using i4 b(1,5) arena_okD(1) [OF proc_okD(1) [OF ok]]
      by (intro node_ref_unat [OF proc_okD(1) [OF ok] nz]) simp
    then have "unat (node_ref bac m self ?i) = unat node" using i4 b(1) by simp
    then have "node_ref bac m self ?i = node" by (metis of_nat_unat_usize)
    moreover have "4 * unat ?i + NODE_SIZE \<le> unat (arena_pos ?x)" using i4 b(1,5) by linarith
    ultimately show ?thesis by (simp add: id_ok_def)
  qed (simp add: ref_id_def id_ok_def node_ref_def)
  then show "id_ok m self ?i" "node_ref bac m self ?i = node" by auto
qed

section \<open>Handing lists of nodes over\<close>

lemma store_bytes_append:
  assumes "length xs + length ys < 2 ^ 64"
  shows "store_bytes (store_bytes m p xs) (p + of_nat (length xs)) ys = store_bytes m p (xs @ ys)"
proof (rule ext)
  fix a
  let ?d = "unat (a - p)" and ?n = "length xs"
  have e: "a - (p + of_nat ?n) = (a - p) - of_nat ?n" by simp
  have u: "unat (of_nat ?n :: u64) = ?n" using assms by simp
  show "store_bytes (store_bytes m p xs) (p + of_nat ?n) ys a = store_bytes m p (xs @ ys) a"
  proof (cases "?d < ?n")
    case True
    then have "unat ((a - p) - of_nat ?n) = 2 ^ 64 + ?d - ?n"
      using u by (simp add: unat_sub_if')
    then have "\<not> unat ((a - p) - of_nat ?n) < length ys"
      using assms True by simp
    then show ?thesis using True by (simp add: store_bytes_def e nth_append)
  next
    case False
    then have "unat ((a - p) - of_nat ?n) = ?d - ?n"
      using u by (simp add: unat_sub word_le_nat_alt)
    then show ?thesis using False by (auto simp: store_bytes_def e nth_append)
  qed
qed

lemma write_bytes_append:
  "length xs + length ys < 2 ^ 64 \<Longrightarrow>
   write_bytes (p + of_nat (length xs)) ys (write_bytes p xs m) = write_bytes p (xs @ ys) m"
  by (simp add: write_bytes_def store_bytes_append)

text \<open>Writing into the free part of the scratch arena changes nothing that the graph consists of.\<close>

definition scratch_region :: "machine \<Rightarrow> u64 \<Rightarrow> u64 \<Rightarrow> nat \<Rightarrow> bool" where
  "scratch_region m self p n \<longleftrightarrow>
     inside p n (arena_ptr (scratch_arena m self)) (unat (arena_reserved (scratch_arena m self)))"

lemma graph_views_write [simp]:
  "proc_arena (write_bytes p bs m) self = proc_arena m self"
  "scratch_addr (write_bytes p bs m) self = scratch_addr m self"
  "scratch_arena (write_bytes p bs m) self = scratch_arena m self"
  "proc_ok bac (write_bytes p bs m) self = proc_ok bac m self"
  "belongs (write_bytes p bs m) self n = belongs m self n"
  "ref_id bac (write_bytes p bs m) self n = ref_id bac m self n"
  "node_in bac (write_bytes p bs m) self n = node_in bac m self n"
  "scratch_region (write_bytes p bs m) self q k = scratch_region m self q k"
  by (simp_all add: proc_arena_def scratch_addr_def scratch_arena_def proc_ok_def belongs_def ref_id_def
      node_in_def scratch_region_def)

lemma scratch_regionD:
  assumes "proc_ok bac m self" "scratch_region m self p n"
  shows "region_ok p n" "n < 2 ^ 63"
proof -
  have a: "arena_ok (scratch_arena m self)" using proc_okD(2) [OF assms(1)] .
  show "region_ok p n"
    using assms(2) a inside_region_ok unfolding scratch_region_def arena_ok_def by blast
  show "n < 2 ^ 63"
    using assms(2) arena_okD(4) [OF a] by (simp add: scratch_region_def inside_def)
qed

lemma node_type_write:
  assumes ok: "proc_ok bac m self" and n: "node_in bac m self n" and r: "scratch_region m self p (length bs)"
  shows "load_bytes (memory (write_bytes p bs m)) n NODE_SIZE = load_bytes (memory m) n NODE_SIZE"
proof -
  have "apart n NODE_SIZE p (length bs)"
    using node_in_region(2) [OF ok n] r by (auto simp: scratch_region_def inside_def apart_def)
  then show ?thesis
    using node_in_region(1) [OF ok n] scratch_regionD(1) [OF ok r] by (simp add: load_store_apart)
qed

lemma load_u16_snapshot: "load_u16 m p = ucast (from_le_bytes (take 2 (load_bytes m p NODE_SIZE)))"
  by (simp add: load_u16_def take_load_bytes NODE_SIZE_def)

lemma check_res_write:
  assumes "proc_ok bac m self" "node_in bac m self n \<or> (n \<noteq> Node_NONE bac \<and> \<not> belongs m self n)"
    "scratch_region m self p (length bs)"
  shows "check_res bac (write_bytes p bs m) self n = check_res bac m self n"
  using assms node_type_write [OF assms(1) _ assms(3)]
  by (auto simp: check_res_def load_u16_snapshot simp del: write_bytes_simps(1))

definition id_bytes :: "u32 list \<Rightarrow> u8 list" where
  "id_bytes ids = concat (map u32_bytes ids)"

lemma id_bytes_simps [simp]:
  "id_bytes [] = []" "id_bytes (i # ids) = u32_bytes i @ id_bytes ids" "length (id_bytes ids) = 4 * length ids"
  by (auto simp: id_bytes_def) (induction ids, simp_all)

lemma write_ids_append:
  "write_ids bac self data (xs @ ys) =
     bindM (write_ids bac self data xs) (\<lambda>_. write_ids bac self (data + 4 * of_nat (length xs)) ys)"
  by (induction xs arbitrary: data) (simp_all add: bindM_assoc algebra_simps)

lemma write_ids_live:
  assumes "proc_ok bac m self" "list_all (live_node bac m self) nodes"
    "scratch_region m self data (4 * length nodes)"
  shows "write_ids bac self data nodes m =
    (Inr (), write_bytes data (id_bytes (map (ref_id bac m self) nodes)) m)"
  using assms
proof (induction nodes arbitrary: m data)
  case Nil
  then show ?case by (simp add: write_bytes_def)
next
  case (Cons n nodes)
  let ?m = "write_bytes data (u32_bytes (ref_id bac m self n)) m"
  have r4: "scratch_region m self data (length (u32_bytes (ref_id bac m self n)))"
    using Cons.prems(3) by (auto simp: scratch_region_def inside_def)
  have "unat (data + 4) = unat data + 4"
    using unat_add_offset [OF scratch_regionD(1) [OF Cons.prems(1,3)], of 4] by simp
  then have "scratch_region ?m self (data + 4) (4 * length nodes)"
    using Cons.prems(3) by (auto simp: scratch_region_def inside_def)
  moreover have "list_all (live_node bac ?m self) nodes"
    using Cons.prems(2) node_type_write [OF Cons.prems(1) _ r4]
    by (auto simp: list_all_iff live_node_def load_u16_snapshot simp del: write_bytes_simps(1))
  ultimately have "write_ids bac self (data + 4) nodes ?m =
      (Inr (), write_bytes (data + 4) (id_bytes (map (ref_id bac m self) nodes)) ?m)"
    using Cons.IH [of ?m "data + 4"] Cons.prems(1) by (simp cong: map_cong)
  moreover have "write_bytes (data + 4) (id_bytes (map (ref_id bac m self) nodes)) ?m =
      write_bytes data (id_bytes (map (ref_id bac m self) (n # nodes))) m"
    using write_bytes_append [of "u32_bytes (ref_id bac m self n)" "id_bytes (map (ref_id bac m self) nodes)" data m]
      scratch_regionD(2) [OF Cons.prems(1,3)] by simp
  moreover have "check_res bac m self n = Inr (ref_id bac m self n)"
    using Cons.prems(2) by (simp add: check_live)
  ultimately show ?case by (simp add: Proc_check_eq)
qed

lemma write_ids_bad:
  assumes ok: "proc_ok bac m self" and good: "list_all (live_node bac m self) good"
    and r: "scratch_region m self data (4 * length (good @ bad # rest))"
    and bad: "node_in bac m self bad \<or> (bad \<noteq> Node_NONE bac \<and> \<not> belongs m self bad)"
    and e: "check_res bac m self bad = Inl e"
  shows "write_ids bac self data (good @ bad # rest) m =
    (Inl e, write_bytes data (id_bytes (map (ref_id bac m self) good)) m)"
proof -
  have r': "scratch_region m self data (4 * length good)"
    using r by (auto simp: scratch_region_def inside_def)
  note live = write_ids_live [OF ok good r']
  have "check_res bac (write_bytes data (id_bytes (map (ref_id bac m self) good)) m) self bad = Inl e"
    using check_res_write [OF ok bad] r' e by simp
  then show ?thesis
    unfolding write_ids_append using live by (simp add: Proc_check_eq)
qed

text \<open>The space \<^verbatim>\<open>with_node_ids\<close> takes: the next multiple of 4 and one word for every node.\<close>

definition ids_start :: "usize \<Rightarrow> nat" where
  "ids_start pos = align_up (unat pos) 4"

lemma and_not_3: "unat ((w :: u64) AND NOT 3) = 4 * (unat w div 4)"
proof -
  have "w AND NOT 3 = push_bit 2 (drop_bit 2 w)"
  proof (rule bit_word_eqI)
    fix n assume n: "n < LENGTH(64)"
    have three: "(3 :: u64) = mask 2" by (simp add: mask_eq_exp_minus_1)
    have "\<not> n < 2 \<Longrightarrow> Suc (Suc (n - 2)) = n" by arith
    then show "bit (w AND NOT 3) n = bit (push_bit 2 (drop_bit 2 w)) n"
      using n unfolding three by (auto simp: bit_and_iff bit_not_iff bit_mask_iff bit_push_bit_iff bit_drop_bit_eq)
  qed
  also have "\<dots> = 4 * drop_bit 2 w" by (simp add: push_bit_eq_mult mult.commute)
  finally have e: "w AND NOT 3 = 4 * drop_bit 2 w" .
  have d: "unat (drop_bit 2 w) = unat w div 4"
    by (simp add: drop_bit_eq_div unat_div)
  have "unat w div 4 * 4 \<le> unat w" by simp
  then have "unat (4 :: u64) * unat (drop_bit 2 w) < 2 ^ 64"
    using d unat_usize_lt [of w] by (simp del: unat_usize_lt unat_usize_lt_num)
  from unat_mul_no_wrap [OF this] show ?thesis unfolding e d by simp
qed

lemma ids_start_word:
  assumes "unat pos + 3 < 2 ^ 64"
  shows "unat ((pos + 3) AND NOT 3) = ids_start pos"
proof -
  have "unat (pos + 3) = unat pos + 3" using unat_add_no_wrap [of pos 3] assms by simp
  moreover have "4 * ((n + 3) div 4) = align_up n 4" for n :: nat
    unfolding align_up_def by presburger
  ultimately show ?thesis unfolding and_not_3 ids_start_def by simp
qed

definition ids_fit :: "arna_Allocator \<Rightarrow> nat \<Rightarrow> bool" where
  "ids_fit x n \<longleftrightarrow> ids_start (arena_pos x) + 4 * n \<le> unat (arena_reserved x)"

definition ids_data :: "arna_Allocator \<Rightarrow> u64" where
  "ids_data x = arena_ptr x + of_nat (ids_start (arena_pos x))"

definition ids_arena :: "arna_Allocator \<Rightarrow> nat \<Rightarrow> arna_Allocator" where
  "ids_arena x n = x\<lparr>arena_pos := of_nat (ids_start (arena_pos x) + 4 * n)\<rparr>"

lemma with_node_ids_shape:
  assumes ok: "proc_ok bac m self" and ne: "nodes \<noteq> []" and len: "4 * length nodes < 2 ^ 62"
  shows "Proc_with_node_ids bac self nodes f m =
    (let x = scratch_arena m self; a = scratch_addr m self; n = length nodes
     in if ids_fit x n
        then bindM (write_ids bac self (ids_data x) nodes) (\<lambda>_.
             bindM (put_arena a (arena_pos_update (\<lambda>_. of_nat (ids_start (arena_pos x) + 4 * n)))) (\<lambda>_.
             with_guard (TempNodes_drop a (arena_pos x)) (f \<lparr>ref_ptr = ids_data x, ref_len = of_nat n\<rparr>))) m
        else (Inl (Panic ''temporary arena is full''), m))"
proof -
  let ?x = "scratch_arena m self" and ?n = "length nodes"
  let ?w = "(arena_pos ?x + 3) AND NOT 3"
  have pos: "unat (arena_pos ?x) < 2 ^ 63"
    using arena_okD(1,4) [OF proc_okD(2) [OF ok]] by simp
  then have p3: "checked_add (arena_pos ?x) 3 = Some (arena_pos ?x + 3)"
    by (simp add: checked_add_def)
  have st: "unat ?w = ids_start (arena_pos ?x)" using pos by (intro ids_start_word) simp
  have stlt: "ids_start (arena_pos ?x) < 2 ^ 63 + 4"
    using align_up_less [of 4 "unat (arena_pos ?x)"] pos by (simp add: ids_start_def)
  have w: "?w = of_nat (ids_start (arena_pos ?x))" using st by (metis of_nat_unat_usize)
  have n: "unat (of_nat ?n :: u64) = ?n" using len by simp
  have m4: "checked_mul (of_nat ?n) 4 = Some (of_nat ?n * 4)" using len n by (simp add: checked_mul_def)
  have u4: "unat (of_nat ?n * 4 :: u64) = 4 * ?n"
    using unat_mul_no_wrap [of "of_nat ?n" 4] n len by simp
  have sum: "unat ?w + unat (of_nat ?n * 4 :: u64) < 2 ^ 64" using st u4 stlt len by simp
  have end': "?w + of_nat ?n * 4 = of_nat (ids_start (arena_pos ?x) + 4 * ?n)"
    using w by simp
  have ue: "unat (of_nat (ids_start (arena_pos ?x) + 4 * ?n) :: u64) = ids_start (arena_pos ?x) + 4 * ?n"
    using sum st u4 by (intro unat_of_nat_usize) simp
  have ca: "Option.bind (checked_mul (of_nat ?n) 4) (checked_add ?w) =
      Some (of_nat (ids_start (arena_pos ?x) + 4 * ?n))"
    using m4 sum end' by (simp add: checked_add_def)
  have fit: "(of_nat (ids_start (arena_pos ?x) + 4 * ?n) \<le> arena_reserved ?x) = ids_fit ?x ?n"
    by (simp add: word_le_nat_alt ue ids_fit_def del: of_nat_add of_nat_mult)
  show ?thesis
    using ne p3 ca fit w
    by (simp add: Proc_with_node_ids_def scratch_addr_def [symmetric] scratch_arena_def [symmetric] Let_def
        ids_data_def assertM_def ret_apply del: of_nat_add of_nat_mult)
qed

text \<open>What \<open>f\<close> runs in when every node is accepted.\<close>

definition ids_state :: "backend \<Rightarrow> machine \<Rightarrow> u64 \<Rightarrow> u64 list \<Rightarrow> machine" where
  "ids_state bac m self nodes =
     set_arena (scratch_addr m self) (ids_arena (scratch_arena m self) (length nodes))
       (write_bytes (ids_data (scratch_arena m self)) (id_bytes (map (ref_id bac m self) nodes)) m)"

lemma ids_region:
  assumes ok: "proc_ok bac m self" and fit: "ids_fit (scratch_arena m self) n"
  shows "scratch_region m self (ids_data (scratch_arena m self)) (4 * n)"
    "unat (ids_data (scratch_arena m self)) = unat (arena_ptr (scratch_arena m self)) + ids_start (arena_pos (scratch_arena m self))"
proof -
  let ?x = "scratch_arena m self"
  have a: "arena_ok ?x" using proc_okD(2) [OF ok] .
  have le: "ids_start (arena_pos ?x) + 4 * n \<le> unat (arena_reserved ?x)" using fit by (simp add: ids_fit_def)
  show u: "unat (ids_data ?x) = unat (arena_ptr ?x) + ids_start (arena_pos ?x)"
    using a le unat_add_offset [of "arena_ptr ?x" "unat (arena_reserved ?x)" "ids_start (arena_pos ?x)"]
    by (simp add: ids_data_def arena_ok_def)
  show "scratch_region m self (ids_data ?x) (4 * n)"
    using u le by (simp add: scratch_region_def inside_def)
qed

lemma with_node_ids_live:
  assumes ok: "proc_ok bac m self" and ne: "nodes \<noteq> []" and len: "4 * length nodes < 2 ^ 62"
    and live: "list_all (live_node bac m self) nodes" and fit: "ids_fit (scratch_arena m self) (length nodes)"
  shows "Proc_with_node_ids bac self nodes f m =
    with_guard (TempNodes_drop (scratch_addr m self) (arena_pos (scratch_arena m self)))
      (f \<lparr>ref_ptr = ids_data (scratch_arena m self), ref_len = of_nat (length nodes)\<rparr>) (ids_state bac m self nodes)"
  using write_ids_live [OF ok live ids_region(1) [OF ok fit]] fit
  by (simp add: with_node_ids_shape [OF ok ne len] Let_def put_arena_def ids_state_def ids_arena_def
      scratch_arena_def del: of_nat_add of_nat_mult)

lemma load_u32_ids:
  assumes "region_ok p (4 * length ids)" "i < length ids"
  shows "load_u32 (store_bytes mem p (id_bytes ids)) (p + 4 * of_nat i) = ids ! i"
proof -
  let ?b = "id_bytes ids"
  have lt: "4 * length ids < 2 ^ 64" using assms(1) by (simp add: region_ok_def)
  have sl: "take 4 (drop (4 * i) (id_bytes ids)) = u32_bytes (ids ! i)" if "i < length ids" for i ids
    using that by (induction ids arbitrary: i) (auto simp: nth_Cons split: nat.splits)
  have "load_bytes (store_bytes mem p ?b) (p + 4 * of_nat i) 4 = take 4 (drop (4 * i) ?b)"
  proof (rule nth_equalityI)
    show "length (load_bytes (store_bytes mem p ?b) (p + 4 * of_nat i) 4) = length (take 4 (drop (4 * i) ?b))"
      using assms(2) by simp
    fix j assume "j < length (load_bytes (store_bytes mem p ?b) (p + 4 * of_nat i) 4)"
    then have j: "j < 4" by simp
    have "p + 4 * of_nat i + of_nat j - p = (of_nat (4 * i + j) :: u64)" by simp
    moreover have "unat (of_nat (4 * i + j) :: u64) = 4 * i + j"
      using lt assms(2) j by (intro unat_of_nat_usize) simp
    ultimately show "load_bytes (store_bytes mem p ?b) (p + 4 * of_nat i) 4 ! j = take 4 (drop (4 * i) ?b) ! j"
      using j assms(2) by (simp add: store_bytes_def del: of_nat_add of_nat_mult)
  qed
  then show ?thesis using sl [OF assms(2)] by (simp add: load_u32_def from_le_u32_bytes)
qed

lemma write_ids_frame:
  "arenas (snd (write_ids bac self data nodes m)) = arenas m \<and> procs (snd (write_ids bac self data nodes m)) = procs m"
proof (induction nodes arbitrary: data m)
  case (Cons n nodes)
  then show ?case by (cases "check_res bac m self n") (simp_all add: Proc_check_eq)
qed simp

lemma write_ids_arenas: "write_ids bac self data nodes m = (r, m') \<Longrightarrow> arenas m' = arenas m"
  using write_ids_frame [of bac self data nodes m] by simp

text \<open>What holds when the ids are handed over, and when a node is refused.\<close>

definition nodes_kept :: "backend \<Rightarrow> u64 \<Rightarrow> machine \<Rightarrow> machine \<Rightarrow> bool" where
  "nodes_kept bac self m m1 \<longleftrightarrow> (\<forall>n. node_in bac m self n \<longrightarrow>
     load_bytes (memory m1) n NODE_SIZE = load_bytes (memory m) n NODE_SIZE)"

definition ids_handed :: "backend \<Rightarrow> machine \<Rightarrow> u64 \<Rightarrow> u64 list \<Rightarrow> u64 \<Rightarrow> machine \<Rightarrow> bool" where
  "ids_handed bac m self nodes data m1 \<longleftrightarrow>
     (\<forall>i < length nodes. load_u32 (memory m1) (data + 4 * of_nat i) = ref_id bac m self (nodes ! i)) \<and>
     unat (arena_ptr (scratch_arena m self)) + unat (arena_pos (scratch_arena m self)) \<le> unat data \<and>
     unat data + 4 * length nodes =
       unat (arena_ptr (scratch_arena m self)) + unat (arena_pos (arenas m1 (scratch_addr m self))) \<and>
     unat (arena_pos (arenas m1 (scratch_addr m self))) \<le> unat (arena_reserved (scratch_arena m self)) \<and>
     nodes_kept bac self m m1 \<and> (\<forall>a. a \<noteq> scratch_addr m self \<longrightarrow> arenas m1 a = arenas m a) \<and> procs m1 = procs m"

lemma nodes_kept_write:
  "proc_ok bac m self \<Longrightarrow> scratch_region m self p (length bs) \<Longrightarrow> nodes_kept bac self m (write_bytes p bs m)"
  using node_type_write by (simp add: nodes_kept_def)

lemma ids_state_handed:
  assumes ok: "proc_ok bac m self" and fit: "ids_fit (scratch_arena m self) (length nodes)"
  shows "ids_handed bac m self nodes (ids_data (scratch_arena m self)) (ids_state bac m self nodes)"
proof -
  let ?x = "scratch_arena m self" and ?ids = "map (ref_id bac m self) nodes"
  let ?m = "ids_state bac m self nodes"
  note reg = ids_region [OF ok fit]
  have le: "ids_start (arena_pos ?x) + 4 * length nodes \<le> unat (arena_reserved ?x)"
    using fit by (simp add: ids_fit_def)
  have "unat (arena_pos (arenas ?m (scratch_addr m self))) = ids_start (arena_pos ?x) + 4 * length nodes"
    using le arena_okD(4) [OF proc_okD(2) [OF ok]]
    by (simp add: ids_state_def ids_arena_def del: of_nat_add of_nat_mult)
  moreover have "\<forall>i < length nodes. load_u32 (memory ?m) (ids_data ?x + 4 * of_nat i) = ref_id bac m self (nodes ! i)"
    using load_u32_ids [of "ids_data ?x" ?ids] scratch_regionD(1) [OF ok reg(1)] by (simp add: ids_state_def)
  moreover have "nodes_kept bac self m ?m"
    using nodes_kept_write [OF ok, of "ids_data ?x" "id_bytes ?ids"] reg(1)
    by (simp add: ids_state_def nodes_kept_def)
  moreover have "unat (arena_ptr ?x) + unat (arena_pos ?x) \<le> unat (ids_data ?x)"
    using reg(2) align_up_ge [of 4 "unat (arena_pos ?x)"] by (simp add: ids_start_def)
  moreover have "\<forall>a. a \<noteq> scratch_addr m self \<longrightarrow> arenas ?m a = arenas m a" "procs ?m = procs m"
    by (simp_all add: ids_state_def)
  ultimately show ?thesis using reg(2) le by (simp add: ids_handed_def)
qed

lemma with_node_ids_accepts:
  assumes "proc_ok bac m self" "nodes \<noteq> []" "4 * length nodes < 2 ^ 62"
    "ids_fit (scratch_arena m self) (length nodes)" "list_all (live_node bac m self) nodes"
  shows "\<exists>data m1. ids_handed bac m self nodes data m1 \<and> Proc_with_node_ids bac self nodes f m =
      with_guard (TempNodes_drop (scratch_addr m self) (arena_pos (scratch_arena m self)))
        (f \<lparr>ref_ptr = data, ref_len = of_nat (length nodes)\<rparr>) m1"
  using with_node_ids_live [OF assms(1-3,5,4), of f] ids_state_handed [OF assms(1,4)] by blast

text \<open>The first bad node of a list: the ids of the nodes before it are in the free part of the scratch arena, and that is all.\<close>

definition ids_begun :: "backend \<Rightarrow> machine \<Rightarrow> u64 \<Rightarrow> u64 list \<Rightarrow> machine" where
  "ids_begun bac m self good = write_bytes (ids_data (scratch_arena m self)) (id_bytes (map (ref_id bac m self) good)) m"

lemma with_node_ids_stops:
  assumes "proc_ok bac m self" "nodes \<noteq> []" "4 * length nodes < 2 ^ 62"
    "ids_fit (scratch_arena m self) (length nodes)" "nodes = good @ bad # rest"
    "list_all (live_node bac m self) good" "Proc_check bac self bad m = (Inl e, m)"
    "node_in bac m self bad \<or> (bad \<noteq> Node_NONE bac \<and> \<not> belongs m self bad)"
  shows "Proc_with_node_ids bac self nodes f m = (Inl e, ids_begun bac m self good)" "nodes_kept bac self m (ids_begun bac m self good)"
proof -
  let ?x = "scratch_arena m self"
  note reg = ids_region(1) [OF assms(1,4)]
  have "write_ids bac self (ids_data ?x) nodes m = (Inl e, ids_begun bac m self good)"
    using write_ids_bad [OF assms(1,6) _ assms(8), of "ids_data ?x" rest e] assms(5,7) reg
    by (simp add: Proc_check_eq ids_begun_def)
  then show "Proc_with_node_ids bac self nodes f m = (Inl e, ids_begun bac m self good)"
    using assms(4) unfolding with_node_ids_shape [OF assms(1-3)] Let_def by simp
  have "scratch_region m self (ids_data ?x) (length (id_bytes (map (ref_id bac m self) good)))"
    using reg assms(5) by (auto simp: scratch_region_def inside_def)
  then show "nodes_kept bac self m (ids_begun bac m self good)" using nodes_kept_write [OF assms(1)] by (auto simp: ids_begun_def)
qed

lemma with_node_ids_rejects:
  assumes "proc_ok bac m self" "nodes \<noteq> []" "4 * length nodes < 2 ^ 62"
    "ids_fit (scratch_arena m self) (length nodes)" "nodes = good @ bad # rest"
    "list_all (live_node bac m self) good" "Proc_check bac self bad m = (Inl e, m)"
    "node_in bac m self bad \<or> (bad \<noteq> Node_NONE bac \<and> \<not> belongs m self bad)"
  shows "\<exists>m1. Proc_with_node_ids bac self nodes f m = (Inl e, m1) \<and> arenas m1 = arenas m \<and>
    procs m1 = procs m \<and> nodes_kept bac self m m1"
  using with_node_ids_stops(1) [OF assms, of f] with_node_ids_stops(2) [OF assms] by (simp add: ids_begun_def)

section \<open>Inputs\<close>

lemma NodeInputs_collect_ids:
  assumes "arena_ok (proc_arena m self)" "list_all (id_ok m self) ids" "length ids < 2 ^ 64" "length ids < fuel"
    "\<forall>i < length ids. load_u32 (memory m) (data + 4 * of_nat i) = ids ! i"
  shows "NodeInputs_collect fuel bac \<lparr>inputs_proc = self, inputs_data = data, inputs_len = of_nat (length ids)\<rparr> m =
    (Inr (Some (map (node_ref bac m self) ids)), m)"
  using assms(2-)
proof (induction ids arbitrary: data fuel)
  case Nil
  then show ?case by (cases fuel) (simp_all add: NodeInputs_next_def)
next
  case (Cons i ids)
  obtain k where k: "fuel = Suc k" "length ids < k" using Cons.prems(3) by (cases fuel) auto
  have ne: "(of_nat (length (i # ids)) :: u64) \<noteq> 0"
    using Cons.prems(2) by (metis length_0_conv list.distinct(1) unat_0 unat_of_nat_usize)
  have "load_u32 (memory m) data = i" using Cons.prems(4) by force
  moreover have "\<forall>j < length ids. load_u32 (memory m) (data + 4 + 4 * of_nat j) = ids ! j"
  proof (intro allI impI)
    fix j assume "j < length ids"
    then show "load_u32 (memory m) (data + 4 + 4 * of_nat j) = ids ! j"
      using Cons.prems(4) [rule_format, of "Suc j"] by (simp add: algebra_simps)
  qed
  moreover have "(of_nat (length (i # ids)) :: u64) - 1 = of_nat (length ids)" by simp
  ultimately show ?case
    using Cons.IH [of k "data + 4"] Cons.prems(1,2) k ne Proc_get_node_ok [OF assms(1), of i bac]
    by (simp add: NodeInputs_next_def Let_def ret_apply del: of_nat_Suc length_Cons)
qed

section \<open>Properties\<close>

text \<open>
  C17: ids and references correspond. For every id of a whole node, or 0, \<^verbatim>\<open>get_node\<close> returns a reference and
  \<^verbatim>\<open>node_id\<close> of it is the id again; for every reference to a whole node, \<^verbatim>\<open>node_id\<close> returns an id whose
  \<^verbatim>\<open>get_node\<close> is the reference; and an id past the used part of the arena panics. Nothing is changed.
\<close>

theorem node_ids_correspond:
  assumes "proc_ok bac m self"
  shows "(id_ok m self id' \<longrightarrow>
      (\<exists>node. Proc_get_node bac self id' m = (Inr node, m) \<and> node_in bac m self node \<and>
         Proc_node_id bac self node m = (Inr id', m))) \<and>
    (node_in bac m self node \<longrightarrow>
      (\<exists>i. Proc_node_id bac self node m = (Inr i, m) \<and> id_ok m self i \<and>
         Proc_get_node bac self i m = (Inr node, m))) \<and>
    (unat (arena_pos (proc_arena m self)) < 4 * unat id' \<longrightarrow>
      Proc_get_node bac self id' m =
        (Inl (Panic (''node index is out of bounds: '' @ show_nat (unat id'))), m))"
proof -
  have b: "node = Node_NONE bac \<or> belongs m self node" if "node_in bac m self node" for node
    using that by (auto simp: node_in_def)
  show ?thesis
    using Proc_get_node_ok [OF proc_okD(1) [OF assms]] node_ref_facts [OF assms] node_in_id [OF assms] b
    by (auto simp: Proc_node_id_cases Proc_get_node_cases [OF proc_okD(1) [OF assms]])
qed

theorem node_ids_correspond_witness:
  "\<exists>node. Proc_get_node sample_backend 0 12 sample_graph = (Inr node, sample_graph) \<and>
     Proc_node_id sample_backend 0 node sample_graph = (Inr 12, sample_graph) \<and>
     Proc_get_node sample_backend 0 25 sample_graph =
       (Inl (Panic (''node index is out of bounds: '' @ show_nat 25)), sample_graph)"
  using node_ids_correspond [OF sample_graph_ok, of 0 12 0] node_ids_correspond [OF sample_graph_ok, of 0 25 0]
  by (auto simp: id_ok_def NODE_SIZE_def)

text \<open>
  C2: a node is accepted exactly when it is a live node of this graph. A live node gives the id that
  \<^verbatim>\<open>get_node\<close> maps back to it; a deleted node and a node of another graph panic, each with its own
  message; in no case is anything changed.
\<close>

theorem check_accepts_live_nodes:
  assumes "proc_ok bac m self"
  shows "(live_node bac m self node \<longrightarrow>
      (\<exists>i. Builder_check bac self node m = (Inr i, m) \<and> Proc_get_node bac self i m = (Inr node, m))) \<and>
    (node_in bac m self node \<and> \<not> live_node bac m self node \<longrightarrow>
      (\<exists>msg. Builder_check bac self node m = (Inl (Panic (''node has been deleted: '' @ msg)), m))) \<and>
    (node \<noteq> Node_NONE bac \<and> \<not> belongs m self node \<longrightarrow>
      Builder_check bac self node m = (Inl (Panic ''node does not belong to this proc's arena''), m))"
proof -
  have "\<exists>i. Builder_check bac self node m = (Inr i, m) \<and> Proc_get_node bac self i m = (Inr node, m)"
    if l: "live_node bac m self node"
    using node_in_id [OF assms, of node] l check_live [OF l]
      Proc_get_node_ok [OF proc_okD(1) [OF assms], of "ref_id bac m self node" bac]
    by (simp add: Builder_check_def Proc_check_eq live_node_def)
  then show ?thesis
    by (auto simp: Builder_check_def Proc_check_eq check_res_def live_node_def node_in_def)
qed

theorem check_accepts_live_nodes_witness:
  "(\<exists>i. Builder_check sample_backend 0 0x8000 sample_graph = (Inr i, sample_graph)) \<and>
   Builder_check sample_backend 0 0x1002 sample_graph =
     (Inl (Panic ''node does not belong to this proc's arena''), sample_graph)"
proof -
  have "load_u16 (memory sample_graph) 0x8000 = 0" by (simp add: sample_graph_loads)
  then have "live_node sample_backend sample_graph 0 0x8000"
    by (simp add: live_node_def node_in_def DEAD_NODE_KIND_def)
  moreover have "\<not> belongs sample_graph 0 0x1002" by (simp add: belongs_def)
  ultimately show ?thesis
    using check_accepts_live_nodes [OF sample_graph_ok, of 0 "0x8000"]
      check_accepts_live_nodes [OF sample_graph_ok, of 0 "0x1002"] by auto
qed

text \<open>
  C16: \<^verbatim>\<open>with_node_ids\<close>. Without room in the scratch arena it panics and changes nothing. With room and live
  nodes, the function gets a slice inside the scratch arena, at or above its position and below
  the new position, that holds the ids of the nodes in order, while the graph's bytes and all
  arenas but the scratch one are as before. When a node is not accepted, the panic is the one of the
  first such node, the function is not called, and no arena and no byte of a graph node has changed.
\<close>

theorem with_node_ids_correct:
  assumes "proc_ok bac m self" "nodes \<noteq> []" "4 * length nodes < 2 ^ 62"
  shows "(\<not> ids_fit (scratch_arena m self) (length nodes) \<longrightarrow>
      Proc_with_node_ids bac self nodes f m = (Inl (Panic ''temporary arena is full''), m)) \<and>
    (ids_fit (scratch_arena m self) (length nodes) \<and> list_all (live_node bac m self) nodes \<longrightarrow>
      (\<exists>data m1. ids_handed bac m self nodes data m1 \<and> Proc_with_node_ids bac self nodes f m =
          with_guard (TempNodes_drop (scratch_addr m self) (arena_pos (scratch_arena m self)))
            (f \<lparr>ref_ptr = data, ref_len = of_nat (length nodes)\<rparr>) m1)) \<and>
    (\<forall>good bad rest e. ids_fit (scratch_arena m self) (length nodes) \<and> nodes = good @ bad # rest \<and>
        list_all (live_node bac m self) good \<and> Proc_check bac self bad m = (Inl e, m) \<and>
        (node_in bac m self bad \<or> (bad \<noteq> Node_NONE bac \<and> \<not> belongs m self bad)) \<longrightarrow>
      (\<exists>m1. Proc_with_node_ids bac self nodes f m = (Inl e, m1) \<and> arenas m1 = arenas m \<and> procs m1 = procs m \<and>
        nodes_kept bac self m m1))"
proof (intro conjI allI impI, goal_cases)
  case 1
  then show ?case by (simp add: with_node_ids_shape [OF assms] Let_def)
next
  case 2
  then show ?case using with_node_ids_accepts [OF assms] by blast
next
  case (3 good bad rest e)
  then show ?case using with_node_ids_rejects [OF assms, of good bad rest e f] by blast
qed

theorem with_node_ids_correct_witness:
  "\<exists>data m1. ids_handed sample_backend sample_graph 0 [0x8000, 0x8000] data m1 \<and>
     Proc_with_node_ids sample_backend 0 [0x8000, 0x8000] (\<lambda>r. ret (ref_len r)) sample_graph =
       with_guard (TempNodes_drop 0x200 2) (ret 2) m1"
proof -
  have "load_u16 (memory sample_graph) 0x8000 = 0" by (simp add: sample_graph_loads)
  then have "list_all (live_node sample_backend sample_graph 0) [0x8000, 0x8000]"
    by (simp add: live_node_def node_in_def DEAD_NODE_KIND_def)
  moreover have "ids_fit (scratch_arena sample_graph 0) (length [0x8000 :: u64, 0x8000])"
    by (simp add: ids_fit_def ids_start_def align_up_def)
  ultimately show ?thesis
    using with_node_ids_correct [OF sample_graph_ok, of "[0x8000, 0x8000]" 0 "\<lambda>r. ret (ref_len r)"]
    by simp
qed

text \<open>
  whatever the function given to \<^verbatim>\<open>with_node_ids\<close> does to the machine, and however it ends, the
  scratch arena's position is afterwards what it was before; the same holds on every panic of
  \<^verbatim>\<open>with_node_ids\<close> itself.
\<close>

lemma with_node_ids_restores_position:
  "nodes \<noteq> [] \<Longrightarrow>
   arena_pos (arenas (snd (Proc_with_node_ids bac self nodes f m)) (scratch_addr m self)) =
   arena_pos (scratch_arena m self)"
  by (auto simp: Proc_with_node_ids_def scratch_addr_def scratch_arena_def Let_def bindM_def expectM_def
      assertM_def put_arena_def TempNodes_drop_def with_guard_apply ret_def fail_def
      dest!: write_ids_arenas split: sum.splits prod.splits option.splits if_splits)

text \<open>
  the iterator over the inputs of a live node yields exactly the nodes whose ids its input list
  holds, in order, its size hint is their number, and it ends after them; nothing is changed.
\<close>

lemma inputs_yields_inputs:
  assumes "proc_ok bac m self" "live_node bac m self node"
    "ids = map (\<lambda>i. load_u32 (memory m) (arena_ptr (proc_arena m self) +
        4 * ucast (load_u32 (memory m) (node + 8)) + 4 * of_nat i))
      [0..<unat (load_u16 (memory m) (node + 12))]"
    "list_all (id_ok m self) ids" "length ids < fuel"
  shows "\<exists>it. Builder_inputs bac self node m = (Inr it, m) \<and>
    NodeInputs_size_hint it = (of_nat (length ids), Some (of_nat (length ids))) \<and>
    NodeInputs_collect fuel bac it m = (Inr (Some (map (node_ref bac m self) ids)), m)"
proof -
  let ?data = "arena_ptr (proc_arena m self) + 4 * ucast (load_u32 (memory m) (node + 8))"
  let ?n = "load_u16 (memory m) (node + 12)"
  let ?it = "\<lparr>inputs_proc = self, inputs_data = ?data, inputs_len = of_nat (length ids)\<rparr>"
  have n: "node_in bac m self node" using assms(2) by (simp add: live_node_def)
  have len: "length ids = unat ?n" "unat ?n < 2 ^ 16"
    using assms(3) unsigned_less [of ?n] by auto
  have "node_ref bac m self (ref_id bac m self node) = node"
    using node_in_id(2) [OF assms(1) n] .
  then have "bac_get_node bac self (ref_id bac m self node) m = (Inr node, m)"
    by (simp add: bac_get_node_def node_ref_def)
  then have "Builder_inputs bac self node m = (Inr ?it, m)"
    using check_live [OF assms(2)] len
    by (simp add: Builder_inputs_def Builder_check_def Proc_check_eq bac_get_inputs_node_id_def
        bac_get_inputs_node_def ret_apply)
  moreover have "NodeInputs_collect fuel bac ?it m = (Inr (Some (map (node_ref bac m self) ids)), m)"
    using len assms(3,5) by (intro NodeInputs_collect_ids proc_okD(1) [OF assms(1)] assms(4)) auto
  ultimately show ?thesis by (auto simp: NodeInputs_size_hint_def)
qed

lemma inputs_yields_inputs_witness:
  "\<exists>it. Builder_inputs sample_backend 0 0x1004 sample_graph = (Inr it, sample_graph) \<and>
     NodeInputs_collect 2 sample_backend it sample_graph = (Inr (Some [0x1030]), sample_graph)"
proof -
  have v: "load_u16 (memory sample_graph) 0x1004 = 0" "load_u32 (memory sample_graph) 0x100C = 23"
    "load_u16 (memory sample_graph) 0x1010 = 1" "load_u32 (memory sample_graph) 0x105C = 12"
    by (simp_all add: sample_graph_loads)
  then have "live_node sample_backend sample_graph 0 0x1004"
    by (simp add: live_node_def node_in_def belongs_def NODE_SIZE_def DEAD_NODE_KIND_def)
  from inputs_yields_inputs [OF sample_graph_ok this refl, of 2] show ?thesis
    using v by (simp add: id_ok_def NODE_SIZE_def node_ref_def, blast)
qed

text \<open>
  the bounds assertion of \<^verbatim>\<open>get_node\<close> looks at the first byte of the node only: it lets the id one past the
  last word through, for which the reference can reach past the buffer.
\<close>

lemma get_node_assertion_incomplete:
  "\<exists>m. proc_ok sample_backend m 0 \<and> 4 * unat (24 :: u32) = unat (arena_pos (proc_arena m 0)) \<and>
     Proc_get_node sample_backend 0 24 m = (Inl (Ub ''reference to a node outside of the arena''), m)"
proof -
  let ?x = "\<lparr>arena_ptr = 0x1000 :: u64, arena_pos = 96 :: u64, arena_commited = 97 :: u64, arena_reserved = 96 :: u64\<rparr>"
  let ?m = "set_arena 0x100 ?x sample_graph"
  have x: "proc_arena ?m 0 = ?x" "scratch_arena ?m 0 = scratch_arena sample_graph 0"
    "scratch_addr ?m 0 = scratch_addr sample_graph 0"
    by (simp_all add: proc_arena_def scratch_arena_def scratch_addr_def sample_graph_def temps_arena_def)
  then have "proc_ok sample_backend ?m 0"
    by (simp add: proc_ok_def arena_ok_def region_ok_def isize_max_def apart_def)
  moreover have "arena_ok (proc_arena ?m 0)"
    using x by (simp add: arena_ok_def region_ok_def isize_max_def)
  ultimately show ?thesis
    using x by (intro exI [of _ ?m]) (simp add: Proc_get_node_cases NODE_SIZE_def)
qed

end
