(* ===== verification/Builder_Calls.thy ===== *)
theory Builder_Calls
  imports Wrappers Proc_Laws
begin

text \<open>
  The safe methods of \<^verbatim>\<open>generated.rs\<close> against one specification. Each of the 66 methods of \<^verbatim>\<open>Builder\<close> and the
  10 of the control-flow states is described by a row: the library function, what each argument
  of the call is made from, and what the result is turned into. \<open>perform\<close> says once what any
  row does; the methods are shown to do it, and the properties are proved of \<open>perform\<close>.
\<close>

section \<open>Calls of methods\<close>

text \<open>What the caller gets; a state is what it holds after the call.\<close>

datatype answer = A_unit | A_bool bool | A_isize isize | A_node u64 | A_node_bool u64 bool
  | A_node_isize u64 isize | A_nodes u64 u64 | A_scope_state u64 cval | A_state cval

definition answerM :: "('a \<Rightarrow> answer) \<Rightarrow> 'a act \<Rightarrow> answer act" where
  "answerM f p = bindM p (\<lambda>x. ret (f x))"

text \<open>Methods of \<^verbatim>\<open>Builder\<close>: nodes that compute a value.\<close>

datatype value_call =
    B_add_local_addr slice_ref u64
  | B_add_local slice_ref u64
  | B_add_phi slice_ref u8 u64 u64 u64
  | B_add_poison slice_ref
  | B_add_proc_addr slice_ref u32
  | B_add_select slice_ref u8 u64 u64 u64
  | B_add_global_addr slice_ref u64
  | B_add_un_op slice_ref u16 u8 u64 u8
  | B_add_lazy_phi slice_ref u8 u64 u64
  | B_add_c_int slice_ref u8 u64
  | B_add_bin_op slice_ref u16 u8 u64 u64 u8
  | B_add_global slice_ref u32
  | B_add_sym slice_ref u64
  | B_add_split slice_ref u8 u64
  | B_add_field_offset u64 isize
  | B_compute_index_offset u64 u64 u64
  | B_add_param slice_ref u8 u64 u32
  | B_add_ret slice_ref u8 u64 u32

primrec run_value_call :: "backend \<Rightarrow> u64 \<Rightarrow> value_call \<Rightarrow> answer act" where
  "run_value_call bac self (B_add_local_addr name local) =
     answerM A_node (Builder_add_local_addr bac self name local)"
| "run_value_call bac self (B_add_local name mem) =
     answerM A_node (Builder_add_local bac self name mem)"
| "run_value_call bac self (B_add_phi name dt reg lhs rhs) =
     answerM A_node (Builder_add_phi bac self name dt reg lhs rhs)"
| "run_value_call bac self (B_add_poison name) =
     answerM A_node (Builder_add_poison bac self name)"
| "run_value_call bac self (B_add_proc_addr name idx) =
     answerM A_node (Builder_add_proc_addr bac self name idx)"
| "run_value_call bac self (B_add_select name dt on_true on_false condition) =
     answerM A_node (Builder_add_select bac self name dt on_true on_false condition)"
| "run_value_call bac self (B_add_global_addr name global) =
     answerM A_node (Builder_add_global_addr bac self name global)"
| "run_value_call bac self (B_add_un_op name type' dt oprnd lane) =
     answerM A_node (Builder_add_un_op bac self name type' dt oprnd lane)"
| "run_value_call bac self (B_add_lazy_phi name dt reg lhs) =
     answerM A_node (Builder_add_lazy_phi bac self name dt reg lhs)"
| "run_value_call bac self (B_add_c_int name dt value') =
     answerM A_node (Builder_add_c_int bac self name dt value')"
| "run_value_call bac self (B_add_bin_op name type' dt lhs rhs lane) =
     answerM A_node (Builder_add_bin_op bac self name type' dt lhs rhs lane)"
| "run_value_call bac self (B_add_global name idx) =
     answerM A_node (Builder_add_global bac self name idx)"
| "run_value_call bac self (B_add_sym name entry') =
     answerM A_node (Builder_add_sym bac self name entry')"
| "run_value_call bac self (B_add_split name dt dest) =
     answerM A_node (Builder_add_split bac self name dt dest)"
| "run_value_call bac self (B_add_field_offset base offset) =
     answerM A_node (Builder_add_field_offset bac self base offset)"
| "run_value_call bac self (B_compute_index_offset base index stride) =
     answerM A_node (Builder_compute_index_offset bac self base index stride)"
| "run_value_call bac self (B_add_param name dt entry' idx) =
     answerM A_node (Builder_add_param bac self name dt entry' idx)"
| "run_value_call bac self (B_add_ret name dt call_end idx) =
     answerM A_node (Builder_add_ret bac self name dt call_end idx)"

text \<open>Methods of \<^verbatim>\<open>Builder\<close>: loads, stores and the locals they access.\<close>

datatype memory_call =
    B_add_set slice_ref u64 u64 u64 u64 u64
  | B_add_split_mem slice_ref u64
  | B_add_store slice_ref u64 u64 u64 u64
  | B_add_load slice_ref u8 u64 u64 u64
  | B_add_mem slice_ref u64
  | B_add_copy slice_ref u64 u64 u64 u64 u64
  | B_add_arbitrary_load u64 u64 u64 isize isize u8
  | B_add_field_load slice_ref u8 u64 u64 u64 isize
  | B_add_field_store slice_ref u64 u64 u64 isize u64
  | B_add_arbitrary_store u64 u64 u64 u64 isize isize u8
  | B_set_local_size u64 u32
  | B_decl_local u64 slice_ref u64

primrec run_memory_call :: "backend \<Rightarrow> u64 \<Rightarrow> memory_call \<Rightarrow> answer act" where
  "run_memory_call bac self (B_add_set name ctrl mem dst value' size') =
     answerM A_node (Builder_add_set bac self name ctrl mem dst value' size')"
| "run_memory_call bac self (B_add_split_mem name mem) =
     answerM A_node (Builder_add_split_mem bac self name mem)"
| "run_memory_call bac self (B_add_store name ctrl mem addr value') =
     answerM A_node (Builder_add_store bac self name ctrl mem addr value')"
| "run_memory_call bac self (B_add_load name dt ctrl mem addr) =
     answerM A_node (Builder_add_load bac self name dt ctrl mem addr)"
| "run_memory_call bac self (B_add_mem name ctrl) =
     answerM A_node (Builder_add_mem bac self name ctrl)"
| "run_memory_call bac self (B_add_copy name ctrl mem dst src size') =
     answerM A_node (Builder_add_copy bac self name ctrl mem dst src size')"
| "run_memory_call bac self (B_add_arbitrary_load cfg mem addr rsize extra_offset unit) =
     answerM A_node (Builder_add_arbitrary_load bac self cfg mem addr rsize extra_offset unit)"
| "run_memory_call bac self (B_add_field_load name dt cfg mem base offset) =
     answerM A_node (Builder_add_field_load bac self name dt cfg mem base offset)"
| "run_memory_call bac self (B_add_field_store name cfg mem base offset value') =
     answerM A_node (Builder_add_field_store bac self name cfg mem base offset value')"
| "run_memory_call bac self (B_add_arbitrary_store cfg mem addr rvalue rsize extra_offset unit) =
     answerM A_node (Builder_add_arbitrary_store bac self cfg mem addr rvalue rsize extra_offset unit)"
| "run_memory_call bac self (B_set_local_size loc size') =
     answerM (\<lambda>_. A_unit) (Builder_set_local_size bac self loc size')"
| "run_memory_call bac self (B_decl_local loc name type') =
     answerM (\<lambda>_. A_unit) (Builder_decl_local bac self loc name type')"

text \<open>Methods of \<^verbatim>\<open>Builder\<close>: control flow.\<close>

datatype control_call =
    B_add_loop slice_ref u64
  | B_add_jump slice_ref u64
  | B_add_then slice_ref u64
  | B_add_if slice_ref u64 u64
  | B_add_else slice_ref u64
  | B_add_entry slice_ref
  | B_add_call_end slice_ref u64

primrec run_control_call :: "backend \<Rightarrow> u64 \<Rightarrow> control_call \<Rightarrow> answer act" where
  "run_control_call bac self (B_add_loop name ctrl) =
     answerM A_node (Builder_add_loop bac self name ctrl)"
| "run_control_call bac self (B_add_jump name ctrl) =
     answerM A_node (Builder_add_jump bac self name ctrl)"
| "run_control_call bac self (B_add_then name ctrl) =
     answerM A_node (Builder_add_then bac self name ctrl)"
| "run_control_call bac self (B_add_if name ctrl cond) =
     answerM A_node (Builder_add_if bac self name ctrl cond)"
| "run_control_call bac self (B_add_else name ctrl) =
     answerM A_node (Builder_add_else bac self name ctrl)"
| "run_control_call bac self (B_add_entry name) =
     answerM A_node (Builder_add_entry bac self name)"
| "run_control_call bac self (B_add_call_end name call') =
     answerM A_node (Builder_add_call_end bac self name call')"

text \<open>Methods of \<^verbatim>\<open>Builder\<close>: edges, searches, optimisations and debug symbols.\<close>

datatype graph_call =
    B_apply_peep u64
  | B_connect u64 u64
  | B_delete_node_node_id u64
  | B_find_node u16 u64
  | B_find_or_create_node u16
  | B_get_sym_count
  | B_set_input u64 isize u64 bool
  | B_pin u64
  | B_unpin u64 bool
  | B_loopopt
  | B_memopt
  | B_add_dbg_sym_update slice_ref u64 u64
  | B_add_dbg_sym_decl slice_ref

primrec run_graph_call :: "backend \<Rightarrow> u64 \<Rightarrow> graph_call \<Rightarrow> answer act" where
  "run_graph_call bac self (B_apply_peep id') =
     answerM A_node (Builder_apply_peep bac self id')"
| "run_graph_call bac self (B_connect use' def') =
     answerM A_isize (Builder_connect bac self use' def')"
| "run_graph_call bac self (B_delete_node_node_id id') =
     answerM (\<lambda>_. A_unit) (Builder_delete_node_node_id bac self id')"
| "run_graph_call bac self (B_find_node kind on) =
     answerM (\<lambda>(n, b). A_node_bool n b) (Builder_find_node bac self kind on)"
| "run_graph_call bac self (B_find_or_create_node kind) =
     answerM A_node (Builder_find_or_create_node bac self kind)"
| "run_graph_call bac self B_get_sym_count =
     answerM (\<lambda>(n, i). A_node_isize n i) (Builder_get_sym_count bac self)"
| "run_graph_call bac self (B_set_input id' idx value' subsume_on_intern) =
     answerM A_node (Builder_set_input bac self id' idx value' subsume_on_intern)"
| "run_graph_call bac self (B_pin id') =
     answerM (\<lambda>_. A_unit) (Builder_pin bac self id')"
| "run_graph_call bac self (B_unpin id' no_delete) =
     answerM (\<lambda>_. A_unit) (Builder_unpin bac self id' no_delete)"
| "run_graph_call bac self B_loopopt =
     answerM A_bool (Builder_loopopt bac self)"
| "run_graph_call bac self B_memopt =
     answerM A_bool (Builder_memopt bac self)"
| "run_graph_call bac self (B_add_dbg_sym_update name new_value prev_update) =
     answerM A_node (Builder_add_dbg_sym_update bac self name new_value prev_update)"
| "run_graph_call bac self (B_add_dbg_sym_decl name) =
     answerM A_node (Builder_add_dbg_sym_decl bac self name)"

text \<open>Methods of \<^verbatim>\<open>Builder\<close>: scopes.\<close>

datatype scope_call =
    B_push_scope_value u64 u64 slice_ref u64
  | B_set_scope_value u64 isize u64
  | B_delete_scope u64
  | B_truncate_scope u64 isize
  | B_add_scope slice_ref u64
  | B_get_scope_value u64 isize

primrec run_scope_call :: "backend \<Rightarrow> u64 \<Rightarrow> scope_call \<Rightarrow> answer act" where
  "run_scope_call bac self (B_push_scope_value scope value' name type') =
     answerM A_isize (Builder_push_scope_value bac self scope value' name type')"
| "run_scope_call bac self (B_set_scope_value scope idx value') =
     answerM (\<lambda>_. A_unit) (Builder_set_scope_value bac self scope idx value')"
| "run_scope_call bac self (B_delete_scope scope) =
     answerM (\<lambda>_. A_unit) (Builder_delete_scope bac self scope)"
| "run_scope_call bac self (B_truncate_scope scope to_len) =
     answerM (\<lambda>_. A_unit) (Builder_truncate_scope bac self scope to_len)"
| "run_scope_call bac self (B_add_scope name cfg) =
     answerM A_node (Builder_add_scope bac self name cfg)"
| "run_scope_call bac self (B_get_scope_value scope idx) =
     answerM A_node (Builder_get_scope_value bac self scope idx)"

text \<open>Methods of \<^verbatim>\<open>Builder\<close>: methods that take a list of nodes.\<close>

datatype list_call =
    B_merge_return "u64 list"
  | B_add_region slice_ref "u64 list"
  | B_add_return slice_ref "u64 list"
  | B_add_end slice_ref "u64 list"
  | B_add_dbg_scope slice_ref "u64 list"
  | B_add_always slice_ref "u64 list"
  | B_add_call slice_ref "u64 list" Call
  | B_add_merge_mem slice_ref "u64 list"
  | B_add_trap slice_ref "u64 list"
  | B_make_call "u64 list" Call

primrec run_list_call :: "backend \<Rightarrow> u64 \<Rightarrow> list_call \<Rightarrow> answer act" where
  "run_list_call bac self (B_merge_return args) =
     answerM A_node (Builder_merge_return bac self args)"
| "run_list_call bac self (B_add_region name inputs) =
     answerM A_node (Builder_add_region bac self name inputs)"
| "run_list_call bac self (B_add_return name inputs) =
     answerM A_node (Builder_add_return bac self name inputs)"
| "run_list_call bac self (B_add_end name inputs) =
     answerM A_node (Builder_add_end bac self name inputs)"
| "run_list_call bac self (B_add_dbg_scope name inputs) =
     answerM A_node (Builder_add_dbg_scope bac self name inputs)"
| "run_list_call bac self (B_add_always name inputs) =
     answerM A_node (Builder_add_always bac self name inputs)"
| "run_list_call bac self (B_add_call name inputs extra) =
     answerM A_node (Builder_add_call bac self name inputs extra)"
| "run_list_call bac self (B_add_merge_mem name inputs) =
     answerM A_node (Builder_add_merge_mem bac self name inputs)"
| "run_list_call bac self (B_add_trap name inputs) =
     answerM A_node (Builder_add_trap bac self name inputs)"
| "run_list_call bac self (B_make_call args extra) =
     answerM (\<lambda>(n, n'). A_nodes n n') (Builder_make_call bac self args extra)"

text \<open>A call of any method of \<^verbatim>\<open>Builder\<close>.\<close>

datatype builder_call = Value value_call | Memory memory_call | Control control_call | Graph graph_call | Scope scope_call | Lists list_call

primrec Builder_run :: "backend \<Rightarrow> u64 \<Rightarrow> builder_call \<Rightarrow> answer act" where
  "Builder_run bac self (Value c) = run_value_call bac self c"
| "Builder_run bac self (Memory c) = run_memory_call bac self c"
| "Builder_run bac self (Control c) = run_control_call bac self c"
| "Builder_run bac self (Graph c) = run_graph_call bac self c"
| "Builder_run bac self (Scope c) = run_scope_call bac self c"
| "Builder_run bac self (Lists c) = run_list_call bac self c"

text \<open>A call of a method of \<^verbatim>\<open>IfState\<close>, \<^verbatim>\<open>LoopState\<close> or \<^verbatim>\<open>BlockState\<close>.\<close>

datatype state_call =
    S_end_else IfState u64
  | S_end_if IfState u64
  | S_start_else IfState u64
  | S_start_if IfState u64 u64
  | S_end_loop LoopState u64
  | S_start_loop LoopState u64
  | S_start_loop_increment LoopState u64
  | S_break_block BlockState u64
  | S_end_block BlockState u64
  | S_loop_control LoopState isize u64

primrec State_run :: "backend \<Rightarrow> state_call \<Rightarrow> answer act" where
  "State_run bac (S_end_else state else_scope) =
     answerM (\<lambda>(n, s). A_scope_state n (C_if_state (if_raw s)))
       (IfState_end_else bac state else_scope)"
| "State_run bac (S_end_if state then_scope) =
     answerM (\<lambda>(n, s). A_scope_state n (C_if_state (if_raw s)))
       (IfState_end_if bac state then_scope)"
| "State_run bac (S_start_else state then_scope) =
     answerM (\<lambda>(n, s). A_scope_state n (C_if_state (if_raw s)))
       (IfState_start_else bac state then_scope)"
| "State_run bac (S_start_if state scope cond) =
     answerM (\<lambda>s. A_state (C_if_state (if_raw s)))
       (IfState_start_if bac state scope cond)"
| "State_run bac (S_end_loop state node_scope) =
     answerM (\<lambda>(n, s). A_scope_state n (C_loop_state (loop_raw s)))
       (LoopState_end_loop bac state node_scope)"
| "State_run bac (S_start_loop state scope) =
     answerM (\<lambda>s. A_state (C_loop_state (loop_raw s)))
       (LoopState_start_loop bac state scope)"
| "State_run bac (S_start_loop_increment state node_scope) =
     answerM (\<lambda>(n, s). A_scope_state n (C_loop_state (loop_raw s)))
       (LoopState_start_loop_increment bac state node_scope)"
| "State_run bac (S_break_block state scope) =
     answerM (\<lambda>(n, s). A_scope_state n (C_block_state (block_raw s)))
       (BlockState_break_block bac state scope)"
| "State_run bac (S_end_block state scope) =
     answerM (\<lambda>(n, s). A_scope_state n (C_block_state (block_raw s)))
       (BlockState_end_block bac state scope)"
| "State_run bac (S_loop_control state variant scope) =
     answerM (\<lambda>s. A_state (C_loop_state (loop_raw s)))
       (LoopState_loop_control bac state variant scope)"

section \<open>The specification\<close>

text \<open>
  What an argument of the call is made from: the proc, a node that is checked, a scope that is checked
  and goes by reference, a list of nodes, a name, or a value as it is. And what the result is.
\<close>

datatype operand = O_self | O_node u64 | O_scope u64 | O_ids "u64 list" | O_name slice_ref | O_val cval

datatype result_kind = K_unit | K_bool | K_isize | K_node | K_node_bool | K_node_isize | K_nodes
  | K_scope_state ctag | K_state ctag

type_synonym op_spec = "string \<times> operand list \<times> result_kind"

fun node_operands :: "operand list \<Rightarrow> u64 list" where
  "node_operands [] = []"
| "node_operands (O_node n # ops) = n # node_operands ops"
| "node_operands (O_scope n # ops) = n # node_operands ops"
| "node_operands (_ # ops) = node_operands ops"

fun list_operand :: "operand list \<Rightarrow> u64 list option" where
  "list_operand [] = None"
| "list_operand (O_ids ns # ops) = Some ns"
| "list_operand (_ # ops) = list_operand ops"

fun encode :: "u64 \<Rightarrow> operand list \<Rightarrow> u32 list \<Rightarrow> slice_ref \<Rightarrow> cval list act" where
  "encode self [] ids sl = ret []"
| "encode self (O_self # ops) ids sl = bindM (encode self ops ids sl) (\<lambda>vs. ret (Proc_ptr self # vs))"
| "encode self (O_node _ # ops) ids sl =
     bindM (encode self ops (tl ids) sl) (\<lambda>vs. ret (C_u32 (hd ids) # vs))"
| "encode self (O_scope _ # ops) ids sl =
     bindM (encode self ops (tl ids) sl) (\<lambda>vs. ret (C_ref (C_u32 (hd ids)) # vs))"
| "encode self (O_ids _ # ops) ids sl =
     bindM (ids_slice sl) (\<lambda>v. bindM (encode self ops ids sl) (\<lambda>vs. ret (v # vs)))"
| "encode self (O_name s # ops) ids sl =
     bindM (into_string s) (\<lambda>v. bindM (encode self ops ids sl) (\<lambda>vs. ret (v # vs)))"
| "encode self (O_val v # ops) ids sl = bindM (encode self ops ids sl) (\<lambda>vs. ret (v # vs))"

definition as_tagged :: "ctag \<Rightarrow> cval \<Rightarrow> cval res" where
  "as_tagged t s = (if tag_of s = t then Inr s else abi_broken)"

primrec decode :: "backend \<Rightarrow> u64 \<Rightarrow> result_kind \<Rightarrow> cval \<times> cval list \<Rightarrow> answer act" where
  "decode bac self K_unit = (\<lambda>(r, outs).
     bindM (liftM (as_unit r)) (\<lambda>_. ret A_unit))"
| "decode bac self K_bool = (\<lambda>(r, outs).
     bindM (liftM (as_bool r)) (\<lambda>b. ret (A_bool b)))"
| "decode bac self K_isize = (\<lambda>(r, outs).
     bindM (liftM (as_isize r)) (\<lambda>i. ret (A_isize i)))"
| "decode bac self K_node = (\<lambda>(r, outs).
     bindM (liftM (as_u32 r)) (\<lambda>x. bindM (Proc_get_node bac self x) (\<lambda>n. ret (A_node n))))"
| "decode bac self K_node_bool = (\<lambda>(r, outs).
     bindM (liftM (out_u32 outs)) (\<lambda>x. bindM (liftM (as_bool r)) (\<lambda>b.
     bindM (Proc_get_node bac self x) (\<lambda>n. ret (A_node_bool n b)))))"
| "decode bac self K_node_isize = (\<lambda>(r, outs).
     bindM (liftM (out_u32 outs)) (\<lambda>x. bindM (liftM (as_isize r)) (\<lambda>i.
     bindM (Proc_get_node bac self x) (\<lambda>n. ret (A_node_isize n i)))))"
| "decode bac self K_nodes = (\<lambda>(r, outs).
     bindM (liftM (out_u32 outs)) (\<lambda>x. bindM (liftM (as_u32 r)) (\<lambda>y.
     bindM (Proc_get_node bac self x) (\<lambda>n. bindM (Proc_get_node bac self y) (\<lambda>n'. ret (A_nodes n n'))))))"
| "decode bac self (K_scope_state t) = (\<lambda>(r, outs).
     bindM (liftM (out_scope_state (as_tagged t) outs)) (\<lambda>(x, s). bindM (liftM (as_unit r)) (\<lambda>_.
     bindM (Proc_get_node bac self x) (\<lambda>n. ret (A_scope_state n s)))))"
| "decode bac self (K_state t) = (\<lambda>(r, outs).
     bindM (liftM (out_state (as_tagged t) outs)) (\<lambda>s. bindM (liftM (as_unit r)) (\<lambda>_. ret (A_state s))))"

text \<open>
  What a method does: it checks its nodes in order, hands the list over if it has one, makes the
  arguments, calls the library once, and turns the result into what it returns.
\<close>

definition hand_over :: "backend \<Rightarrow> u64 \<Rightarrow> u64 list option \<Rightarrow> (slice_ref \<Rightarrow> 'r act) \<Rightarrow> 'r act" where
  "hand_over bac self nodes g =
     (case nodes of None \<Rightarrow> g (empty_ref 4) | Some nodes \<Rightarrow> Proc_with_node_ids bac self nodes g)"

fun perform :: "backend \<Rightarrow> u64 \<Rightarrow> op_spec \<Rightarrow> answer act" where
  "perform bac self (f, ops, k) =
     bindM (mapM (Proc_check bac self) (node_operands ops)) (\<lambda>ids.
     hand_over bac self (list_operand ops) (\<lambda>sl.
     bindM (encode self ops ids sl) (\<lambda>args.
     bindM (bac_fn bac f args) (decode bac self k))))"

primrec value_call_spec :: "value_call \<Rightarrow> op_spec" where
  "value_call_spec (B_add_local_addr name local) =
     (''bac_add_local_addr'', [O_self, O_name name, O_node local], K_node)"
| "value_call_spec (B_add_local name mem) =
     (''bac_add_local'', [O_self, O_name name, O_node mem], K_node)"
| "value_call_spec (B_add_phi name dt reg lhs rhs) =
     (''bac_add_phi'',
      [O_self, O_name name, O_val (C_u8 dt), O_node reg, O_node lhs, O_node rhs], K_node)"
| "value_call_spec (B_add_poison name) =
     (''bac_add_poison'', [O_self, O_name name], K_node)"
| "value_call_spec (B_add_proc_addr name idx) =
     (''bac_add_proc_addr'', [O_self, O_name name, O_val (C_u32 idx)], K_node)"
| "value_call_spec (B_add_select name dt on_true on_false condition) =
     (''bac_add_select'',
      [O_self, O_name name, O_val (C_u8 dt), O_node on_true, O_node on_false,
       O_node condition], K_node)"
| "value_call_spec (B_add_global_addr name global) =
     (''bac_add_global_addr'', [O_self, O_name name, O_node global], K_node)"
| "value_call_spec (B_add_un_op name type' dt oprnd lane) =
     (''bac_add_un_op'',
      [O_self, O_name name, O_val (C_u16 type'), O_val (C_u8 dt), O_node oprnd,
       O_val (C_u8 lane)], K_node)"
| "value_call_spec (B_add_lazy_phi name dt reg lhs) =
     (''bac_add_lazy_phi'', [O_self, O_name name, O_val (C_u8 dt), O_node reg, O_node lhs], K_node)"
| "value_call_spec (B_add_c_int name dt value') =
     (''bac_add_c_int'', [O_self, O_name name, O_val (C_u8 dt), O_val (C_i64 value')], K_node)"
| "value_call_spec (B_add_bin_op name type' dt lhs rhs lane) =
     (''bac_add_bin_op'',
      [O_self, O_name name, O_val (C_u16 type'), O_val (C_u8 dt), O_node lhs,
       O_node rhs, O_val (C_u8 lane)], K_node)"
| "value_call_spec (B_add_global name idx) =
     (''bac_add_global'', [O_self, O_name name, O_val (C_u32 idx)], K_node)"
| "value_call_spec (B_add_sym name entry') =
     (''bac_add_sym'', [O_self, O_name name, O_node entry'], K_node)"
| "value_call_spec (B_add_split name dt dest) =
     (''bac_add_split'', [O_self, O_name name, O_val (C_u8 dt), O_node dest], K_node)"
| "value_call_spec (B_add_field_offset base offset) =
     (''bac_add_field_offset'', [O_self, O_node base, O_val (C_isize offset)], K_node)"
| "value_call_spec (B_compute_index_offset base index stride) =
     (''bac_compute_index_offset'',
      [O_self, O_node base, O_node index, O_val (C_i64 stride)], K_node)"
| "value_call_spec (B_add_param name dt entry' idx) =
     (''bac_add_param'',
      [O_self, O_name name, O_val (C_u8 dt), O_node entry', O_val (C_u32 idx)], K_node)"
| "value_call_spec (B_add_ret name dt call_end idx) =
     (''bac_add_ret'',
      [O_self, O_name name, O_val (C_u8 dt), O_node call_end, O_val (C_u32 idx)], K_node)"

primrec memory_call_spec :: "memory_call \<Rightarrow> op_spec" where
  "memory_call_spec (B_add_set name ctrl mem dst value' size') =
     (''bac_add_set'',
      [O_self, O_name name, O_node ctrl, O_node mem, O_node dst, O_node value',
       O_node size'], K_node)"
| "memory_call_spec (B_add_split_mem name mem) =
     (''bac_add_split_mem'', [O_self, O_name name, O_node mem], K_node)"
| "memory_call_spec (B_add_store name ctrl mem addr value') =
     (''bac_add_store'',
      [O_self, O_name name, O_node ctrl, O_node mem, O_node addr, O_node value'], K_node)"
| "memory_call_spec (B_add_load name dt ctrl mem addr) =
     (''bac_add_load'',
      [O_self, O_name name, O_val (C_u8 dt), O_node ctrl, O_node mem, O_node addr], K_node)"
| "memory_call_spec (B_add_mem name ctrl) =
     (''bac_add_mem'', [O_self, O_name name, O_node ctrl], K_node)"
| "memory_call_spec (B_add_copy name ctrl mem dst src size') =
     (''bac_add_copy'',
      [O_self, O_name name, O_node ctrl, O_node mem, O_node dst, O_node src,
       O_node size'], K_node)"
| "memory_call_spec (B_add_arbitrary_load cfg mem addr rsize extra_offset unit) =
     (''bac_add_arbitrary_load'',
      [O_self, O_node cfg, O_node mem, O_node addr, O_val (C_isize rsize),
       O_val (C_isize extra_offset), O_val (C_u8 unit)], K_node)"
| "memory_call_spec (B_add_field_load name dt cfg mem base offset) =
     (''bac_add_field_load'',
      [O_self, O_name name, O_val (C_u8 dt), O_node cfg, O_node mem, O_node base,
       O_val (C_isize offset)], K_node)"
| "memory_call_spec (B_add_field_store name cfg mem base offset value') =
     (''bac_add_field_store'',
      [O_self, O_name name, O_node cfg, O_node mem, O_node base, O_val (C_isize offset),
       O_node value'], K_node)"
| "memory_call_spec (B_add_arbitrary_store cfg mem addr rvalue rsize extra_offset unit) =
     (''bac_add_arbitrary_store'',
      [O_self, O_node cfg, O_node mem, O_node addr, O_node rvalue,
       O_val (C_isize rsize), O_val (C_isize extra_offset), O_val (C_u8 unit)], K_node)"
| "memory_call_spec (B_set_local_size loc size') =
     (''bac_set_local_size'', [O_self, O_node loc, O_val (C_i32 size')], K_unit)"
| "memory_call_spec (B_decl_local loc name type') =
     (''bac_decl_local'', [O_self, O_node loc, O_name name, O_val (C_u64 type')], K_unit)"

primrec control_call_spec :: "control_call \<Rightarrow> op_spec" where
  "control_call_spec (B_add_loop name ctrl) =
     (''bac_add_loop'', [O_self, O_name name, O_node ctrl], K_node)"
| "control_call_spec (B_add_jump name ctrl) =
     (''bac_add_jump'', [O_self, O_name name, O_node ctrl], K_node)"
| "control_call_spec (B_add_then name ctrl) =
     (''bac_add_then'', [O_self, O_name name, O_node ctrl], K_node)"
| "control_call_spec (B_add_if name ctrl cond) =
     (''bac_add_if'', [O_self, O_name name, O_node ctrl, O_node cond], K_node)"
| "control_call_spec (B_add_else name ctrl) =
     (''bac_add_else'', [O_self, O_name name, O_node ctrl], K_node)"
| "control_call_spec (B_add_entry name) =
     (''bac_add_entry'', [O_self, O_name name], K_node)"
| "control_call_spec (B_add_call_end name call') =
     (''bac_add_call_end'', [O_self, O_name name, O_node call'], K_node)"

primrec graph_call_spec :: "graph_call \<Rightarrow> op_spec" where
  "graph_call_spec (B_apply_peep id') =
     (''bac_apply_peep'', [O_self, O_node id'], K_node)"
| "graph_call_spec (B_connect use' def') =
     (''bac_connect'', [O_self, O_node use', O_node def'], K_isize)"
| "graph_call_spec (B_delete_node_node_id id') =
     (''bac_delete_node_node_id'', [O_self, O_node id'], K_unit)"
| "graph_call_spec (B_find_node kind on) =
     (''bac_find_node'',
      [O_self, O_val (C_u16 kind), O_node on, O_val (C_ref (C_u32 0))], K_node_bool)"
| "graph_call_spec (B_find_or_create_node kind) =
     (''bac_find_or_create_node'', [O_self, O_val (C_u16 kind)], K_node)"
| "graph_call_spec B_get_sym_count =
     (''bac_get_sym_count'', [O_self, O_val (C_ref (C_u32 0))], K_node_isize)"
| "graph_call_spec (B_set_input id' idx value' subsume_on_intern) =
     (''bac_set_input'',
      [O_self, O_node id', O_val (C_isize idx), O_node value',
       O_val (C_bool subsume_on_intern)], K_node)"
| "graph_call_spec (B_pin id') =
     (''bac_pin'', [O_self, O_node id'], K_unit)"
| "graph_call_spec (B_unpin id' no_delete) =
     (''bac_unpin'', [O_self, O_node id', O_val (C_bool no_delete)], K_unit)"
| "graph_call_spec B_loopopt =
     (''bac_loopopt'', [O_self], K_bool)"
| "graph_call_spec B_memopt =
     (''bac_memopt'', [O_self], K_bool)"
| "graph_call_spec (B_add_dbg_sym_update name new_value prev_update) =
     (''bac_add_dbg_sym_update'',
      [O_self, O_name name, O_node new_value, O_node prev_update], K_node)"
| "graph_call_spec (B_add_dbg_sym_decl name) =
     (''bac_add_dbg_sym_decl'', [O_self, O_name name], K_node)"

primrec scope_call_spec :: "scope_call \<Rightarrow> op_spec" where
  "scope_call_spec (B_push_scope_value scope value' name type') =
     (''bac_push_scope_value'',
      [O_self, O_node scope, O_node value', O_name name, O_val (C_u64 type')], K_isize)"
| "scope_call_spec (B_set_scope_value scope idx value') =
     (''bac_set_scope_value'', [O_self, O_node scope, O_val (C_isize idx), O_node value'], K_unit)"
| "scope_call_spec (B_delete_scope scope) =
     (''bac_delete_scope'', [O_self, O_node scope], K_unit)"
| "scope_call_spec (B_truncate_scope scope to_len) =
     (''bac_truncate_scope'', [O_self, O_node scope, O_val (C_isize to_len)], K_unit)"
| "scope_call_spec (B_add_scope name cfg) =
     (''bac_add_scope'', [O_self, O_name name, O_node cfg], K_node)"
| "scope_call_spec (B_get_scope_value scope idx) =
     (''bac_get_scope_value'', [O_self, O_node scope, O_val (C_isize idx)], K_node)"

primrec list_call_spec :: "list_call \<Rightarrow> op_spec" where
  "list_call_spec (B_merge_return args) =
     (''bac_merge_return'', [O_self, O_ids args], K_node)"
| "list_call_spec (B_add_region name inputs) =
     (''bac_add_region'', [O_self, O_name name, O_ids inputs], K_node)"
| "list_call_spec (B_add_return name inputs) =
     (''bac_add_return'', [O_self, O_name name, O_ids inputs], K_node)"
| "list_call_spec (B_add_end name inputs) =
     (''bac_add_end'', [O_self, O_name name, O_ids inputs], K_node)"
| "list_call_spec (B_add_dbg_scope name inputs) =
     (''bac_add_dbg_scope'', [O_self, O_name name, O_ids inputs], K_node)"
| "list_call_spec (B_add_always name inputs) =
     (''bac_add_always'', [O_self, O_name name, O_ids inputs], K_node)"
| "list_call_spec (B_add_call name inputs extra) =
     (''bac_add_call'', [O_self, O_name name, O_ids inputs, O_val (C_call extra)], K_node)"
| "list_call_spec (B_add_merge_mem name inputs) =
     (''bac_add_merge_mem'', [O_self, O_name name, O_ids inputs], K_node)"
| "list_call_spec (B_add_trap name inputs) =
     (''bac_add_trap'', [O_self, O_name name, O_ids inputs], K_node)"
| "list_call_spec (B_make_call args extra) =
     (''bac_make_call'',
      [O_self, O_ids args, O_val (C_call extra), O_val (C_ref (C_u32 0))], K_nodes)"

primrec call_spec :: "builder_call \<Rightarrow> op_spec" where
  "call_spec (Value c) = value_call_spec c"
| "call_spec (Memory c) = memory_call_spec c"
| "call_spec (Control c) = control_call_spec c"
| "call_spec (Graph c) = graph_call_spec c"
| "call_spec (Scope c) = scope_call_spec c"
| "call_spec (Lists c) = list_call_spec c"

primrec state_spec :: "state_call \<Rightarrow> u64 \<times> op_spec" where
  "state_spec (S_end_else state else_scope) =
     (if_proc state, ''bac_end_else'',
      [O_self, O_scope else_scope, O_val (C_ref (C_if_state (if_raw state)))], K_scope_state (T_struct ''ssa_If_State''))"
| "state_spec (S_end_if state then_scope) =
     (if_proc state, ''bac_end_if'',
      [O_self, O_scope then_scope, O_val (C_ref (C_if_state (if_raw state)))], K_scope_state (T_struct ''ssa_If_State''))"
| "state_spec (S_start_else state then_scope) =
     (if_proc state, ''bac_start_else'',
      [O_self, O_scope then_scope, O_val (C_ref (C_if_state (if_raw state)))], K_scope_state (T_struct ''ssa_If_State''))"
| "state_spec (S_start_if state scope cond) =
     (if_proc state, ''bac_start_if'',
      [O_self, O_node scope, O_val (C_ref (C_if_state (if_raw state))), O_node cond], K_state (T_struct ''ssa_If_State''))"
| "state_spec (S_end_loop state node_scope) =
     (loop_proc state, ''bac_end_loop'',
      [O_self, O_scope node_scope, O_val (C_ref (C_loop_state (loop_raw state)))], K_scope_state (T_struct ''ssa_Loop_State''))"
| "state_spec (S_start_loop state scope) =
     (loop_proc state, ''bac_start_loop'',
      [O_self, O_node scope, O_val (C_ref (C_loop_state (loop_raw state)))], K_state (T_struct ''ssa_Loop_State''))"
| "state_spec (S_start_loop_increment state node_scope) =
     (loop_proc state, ''bac_start_loop_increment'',
      [O_self, O_scope node_scope, O_val (C_ref (C_loop_state (loop_raw state)))], K_scope_state (T_struct ''ssa_Loop_State''))"
| "state_spec (S_break_block state scope) =
     (block_proc state, ''bac_break_block'',
      [O_self, O_scope scope, O_val (C_ref (C_block_state (block_raw state)))], K_scope_state (T_struct ''ssa_Block_State''))"
| "state_spec (S_end_block state scope) =
     (block_proc state, ''bac_end_block'',
      [O_self, O_scope scope, O_val (C_ref (C_block_state (block_raw state)))], K_scope_state (T_struct ''ssa_Block_State''))"
| "state_spec (S_loop_control state variant scope) =
     (loop_proc state, ''bac_loop_control'',
      [O_val (C_isize variant), O_self, O_node scope, O_val (C_ref (C_loop_state (loop_raw state)))],
      K_state (T_struct ''ssa_Loop_State''))"

section \<open>The methods do what their rows say\<close>

lemmas value_call_defs =
  Builder_add_local_addr_def Proc_add_local_addr_def Builder_add_local_def Proc_add_local_def
  Builder_add_phi_def Proc_add_phi_def Builder_add_poison_def Proc_add_poison_def
  Builder_add_proc_addr_def Proc_add_proc_addr_def Builder_add_select_def Proc_add_select_def
  Builder_add_global_addr_def Proc_add_global_addr_def Builder_add_un_op_def Proc_add_un_op_def
  Builder_add_lazy_phi_def Proc_add_lazy_phi_def Builder_add_c_int_def Proc_add_c_int_def
  Builder_add_bin_op_def Proc_add_bin_op_def Builder_add_global_def Proc_add_global_def
  Builder_add_sym_def Proc_add_sym_def Builder_add_split_def Proc_add_split_def
  Builder_add_field_offset_def Proc_add_field_offset_def Builder_compute_index_offset_def
  Proc_compute_index_offset_def Builder_add_param_def Proc_add_param_def Builder_add_ret_def
  Proc_add_ret_def

lemmas memory_call_defs =
  Builder_add_set_def Proc_add_set_def Builder_add_split_mem_def Proc_add_split_mem_def
  Builder_add_store_def Proc_add_store_def Builder_add_load_def Proc_add_load_def
  Builder_add_mem_def Proc_add_mem_def Builder_add_copy_def Proc_add_copy_def
  Builder_add_arbitrary_load_def Proc_add_arbitrary_load_def Builder_add_field_load_def
  Proc_add_field_load_def Builder_add_field_store_def Proc_add_field_store_def
  Builder_add_arbitrary_store_def Proc_add_arbitrary_store_def Builder_set_local_size_def
  Proc_set_local_size_def Builder_decl_local_def Proc_decl_local_def

lemmas control_call_defs =
  Builder_add_loop_def Proc_add_loop_def Builder_add_jump_def Proc_add_jump_def
  Builder_add_then_def Proc_add_then_def Builder_add_if_def Proc_add_if_def Builder_add_else_def
  Proc_add_else_def Builder_add_entry_def Proc_add_entry_def Builder_add_call_end_def
  Proc_add_call_end_def

lemmas graph_call_defs =
  Builder_apply_peep_def Proc_apply_peep_def Builder_connect_def Proc_connect_def
  Builder_delete_node_node_id_def Proc_delete_node_node_id_def Builder_find_node_def
  Proc_find_node_def Builder_find_or_create_node_def Proc_find_or_create_node_def
  Builder_get_sym_count_def Proc_get_sym_count_def Builder_set_input_def Proc_set_input_def
  Builder_pin_def Proc_pin_def Builder_unpin_def Proc_unpin_def Builder_loopopt_def
  Proc_loopopt_def Builder_memopt_def Proc_memopt_def Builder_add_dbg_sym_update_def
  Proc_add_dbg_sym_update_def Builder_add_dbg_sym_decl_def Proc_add_dbg_sym_decl_def

lemmas scope_call_defs =
  Builder_push_scope_value_def Proc_push_scope_value_def Builder_set_scope_value_def
  Proc_set_scope_value_def Builder_delete_scope_def Proc_delete_scope_def
  Builder_truncate_scope_def Proc_truncate_scope_def Builder_add_scope_def Proc_add_scope_def
  Builder_get_scope_value_def Proc_get_scope_value_def

lemmas list_call_defs =
  Builder_merge_return_def Proc_merge_return_def Builder_add_region_def Proc_add_region_def
  Builder_add_return_def Proc_add_return_def Builder_add_end_def Proc_add_end_def
  Builder_add_dbg_scope_def Proc_add_dbg_scope_def Builder_add_always_def Proc_add_always_def
  Builder_add_call_def Proc_add_call_def Builder_add_merge_mem_def Proc_add_merge_mem_def
  Builder_add_trap_def Proc_add_trap_def Builder_make_call_def Proc_make_call_def

lemmas state_call_defs =
  IfState_end_else_def Proc_end_else_def IfState_end_if_def Proc_end_if_def
  IfState_start_else_def Proc_start_else_def IfState_start_if_def Proc_start_if_def
  LoopState_end_loop_def Proc_end_loop_def LoopState_start_loop_def Proc_start_loop_def
  LoopState_start_loop_increment_def Proc_start_loop_increment_def BlockState_break_block_def
  Proc_break_block_def BlockState_end_block_def Proc_end_block_def LoopState_loop_control_def
  Proc_loop_control_def


lemmas perform_simps = Builder_check_def answerM_def hand_over_def bindM_assoc call_def call_out_def
  call_refs_def split_def

lemma run_value_call_performs: "run_value_call bac self c = perform bac self (value_call_spec c)"
  by (cases c) (simp_all add: value_call_defs perform_simps)

lemma run_memory_call_performs: "run_memory_call bac self c = perform bac self (memory_call_spec c)"
  by (cases c) (simp_all add: memory_call_defs perform_simps)

lemma run_control_call_performs: "run_control_call bac self c = perform bac self (control_call_spec c)"
  by (cases c) (simp_all add: control_call_defs perform_simps)

lemma run_graph_call_performs: "run_graph_call bac self c = perform bac self (graph_call_spec c)"
  by (cases c) (simp_all add: graph_call_defs perform_simps)

lemma run_scope_call_performs: "run_scope_call bac self c = perform bac self (scope_call_spec c)"
  by (cases c) (simp_all add: scope_call_defs perform_simps)

text \<open>Turning a result into an answer commutes with the drop guard of a list of nodes.\<close>

lemma answerM_with_guard: "answerM f (with_guard c p) = with_guard c (answerM f p)"
  by (rule ext) (auto simp: answerM_def with_guard_def bindM_def ret_def split: prod.splits sum.splits)

lemma answerM_bindM: "answerM f (bindM p k) = bindM p (\<lambda>x. answerM f (k x))"
  by (simp add: answerM_def bindM_assoc)

lemma answerM_with_node_ids:
  "answerM f (Proc_with_node_ids bac self nodes g) = Proc_with_node_ids bac self nodes (\<lambda>s. answerM f (g s))"
  by (simp add: Proc_with_node_ids_def answerM_bindM answerM_with_guard Let_def)

lemma run_list_call_performs: "run_list_call bac self c = perform bac self (list_call_spec c)"
  by (cases c) (simp_all add: list_call_defs answerM_with_node_ids hand_over_def answerM_bindM,
    simp_all add: perform_simps)

lemma Builder_run_performs: "Builder_run bac self c = perform bac self (call_spec c)"
  by (cases c) (simp_all add: run_value_call_performs run_memory_call_performs run_control_call_performs
      run_graph_call_performs run_scope_call_performs run_list_call_performs del: perform.simps)

text \<open>The states, read at their tags.\<close>

lemma as_tagged_states:
  "as_tagged (T_struct ''ssa_If_State'') = (\<lambda>s. map_sum id C_if_state (as_if_state s))"
  "as_tagged (T_struct ''ssa_Loop_State'') = (\<lambda>s. map_sum id C_loop_state (as_loop_state s))"
  "as_tagged (T_struct ''ssa_Block_State'') = (\<lambda>s. map_sum id C_block_state (as_block_state s))"
proof -
  show "as_tagged (T_struct ''ssa_If_State'') = (\<lambda>s. map_sum id C_if_state (as_if_state s))"
    by (rule ext, rename_tac s, case_tac s) (simp_all add: as_tagged_def abi_broken_def)
  show "as_tagged (T_struct ''ssa_Loop_State'') = (\<lambda>s. map_sum id C_loop_state (as_loop_state s))"
    by (rule ext, rename_tac s, case_tac s) (simp_all add: as_tagged_def abi_broken_def)
  show "as_tagged (T_struct ''ssa_Block_State'') = (\<lambda>s. map_sum id C_block_state (as_block_state s))"
    by (rule ext, rename_tac s, case_tac s) (simp_all add: as_tagged_def abi_broken_def)
qed

lemma out_state_map: "out_state (\<lambda>s. map_sum id f (as s)) outs = map_sum id f (out_state as outs)"
  by (auto simp: out_state_def abi_broken_def split: list.splits)

lemma out_scope_state_map:
  "out_scope_state (\<lambda>s. map_sum id f (as s)) outs = map_sum id (map_prod id f) (out_scope_state as outs)"
  by (auto simp: out_scope_state_def abi_broken_def split: list.splits sum.splits)

lemma bindM_liftM_map: "bindM (liftM (map_sum id f r)) k = bindM (liftM r) (\<lambda>x. k (f x))"
  by (rule ext) (cases r; simp add: bindM_def liftM_def)

lemma State_run_performs: "State_run bac c = perform bac (fst (state_spec c)) (snd (state_spec c))"
  by (cases c) (simp_all add: state_call_defs perform_simps as_tagged_states out_state_map out_scope_state_map
      bindM_liftM_map)

section \<open>Any method\<close>

datatype method_call = On_builder u64 builder_call | On_state state_call

primrec run_method :: "backend \<Rightarrow> method_call \<Rightarrow> answer act" where
  "run_method bac (On_builder self c) = Builder_run bac self c"
| "run_method bac (On_state c) = State_run bac c"

primrec method_spec :: "method_call \<Rightarrow> u64 \<times> op_spec" where
  "method_spec (On_builder self c) = (self, call_spec c)"
| "method_spec (On_state c) = state_spec c"

text \<open>The proc of a call, the function it calls, its operands, and those that are nodes or a list of nodes.\<close>

definition method_self :: "method_call \<Rightarrow> u64" where
  "method_self c = fst (method_spec c)"

definition method_fn :: "method_call \<Rightarrow> string" where
  "method_fn c = fst (snd (method_spec c))"

definition method_operands :: "method_call \<Rightarrow> operand list" where
  "method_operands c = fst (snd (snd (method_spec c)))"

definition method_kind :: "method_call \<Rightarrow> result_kind" where
  "method_kind c = snd (snd (snd (method_spec c)))"

definition method_nodes :: "method_call \<Rightarrow> u64 list" where
  "method_nodes c = node_operands (method_operands c)"

definition method_list :: "method_call \<Rightarrow> u64 list option" where
  "method_list c = list_operand (method_operands c)"

lemma run_method_performs:
  "run_method bac c = perform bac (method_self c) (method_fn c, method_operands c, method_kind c)"
  by (cases c) (simp_all add: method_self_def method_fn_def method_operands_def method_kind_def
      Builder_run_performs State_run_performs del: perform.simps)

end
