(* ===== verification/Builder_Laws.thy ===== *)
theory Builder_Laws
  imports Builder_Calls
begin

text \<open>
  Properties of every safe method: which nodes it refuses and what it then leaves, what it asks of the
  library otherwise, and that each of its calls has the types of the declaration.
\<close>

section \<open>Refused nodes\<close>

lemma mapM_check_rejects:
  assumes "list_all (\<lambda>n. \<exists>x. check_res bac m self n = Inr x) good" "check_res bac m self bad = Inl e"
  shows "mapM (Proc_check bac self) (good @ bad # rest) m = (Inl e, m)"
  using assms by (induction good) (auto simp: Proc_check_eq)

lemma mapM_check_accepts:
  "list_all (\<lambda>n. check_res bac m self n = Inr (ref_id bac m self n)) nodes \<Longrightarrow>
   mapM (Proc_check bac self) nodes m = (Inr (map (ref_id bac m self) nodes), m)"
  by (induction nodes) (auto simp: Proc_check_eq)

lemma check_res_Inr: "check_res bac m self n = Inr x \<Longrightarrow> x = ref_id bac m self n"
  by (auto simp: check_res_def split: if_splits)

section \<open>Arguments\<close>

text \<open>Names are \<^verbatim>\<open>&str\<close>, no longer than \<^verbatim>\<open>isize::MAX\<close>; then making the arguments cannot fail.\<close>

primrec name_ok :: "operand \<Rightarrow> bool" where
  "name_ok O_self = True"
| "name_ok (O_node n) = True"
| "name_ok (O_scope n) = True"
| "name_ok (O_ids ns) = True"
| "name_ok (O_name s) = (unat (ref_len s) \<le> isize_max)"
| "name_ok (O_val v) = True"

fun arg_values :: "u64 \<Rightarrow> operand list \<Rightarrow> u32 list \<Rightarrow> slice_ref \<Rightarrow> cval list" where
  "arg_values self [] ids sl = []"
| "arg_values self (O_self # ops) ids sl = Proc_ptr self # arg_values self ops ids sl"
| "arg_values self (O_node _ # ops) ids sl = C_u32 (hd ids) # arg_values self ops (tl ids) sl"
| "arg_values self (O_scope _ # ops) ids sl = C_ref (C_u32 (hd ids)) # arg_values self ops (tl ids) sl"
| "arg_values self (O_ids _ # ops) ids sl =
     C_slice T_u32 \<lparr>slice_data = ref_ptr sl, slice_len = ref_len sl\<rparr> # arg_values self ops ids sl"
| "arg_values self (O_name s # ops) ids sl =
     C_string \<lparr>string_data = ref_ptr s, string_len = ref_len s\<rparr> # arg_values self ops ids sl"
| "arg_values self (O_val v # ops) ids sl = v # arg_values self ops ids sl"

lemma into_string_ok:
  "unat (ref_len s) \<le> isize_max \<Longrightarrow>
   into_string s m = (Inr (C_string \<lparr>string_data = ref_ptr s, string_len = ref_len s\<rparr>), m)"
  using isize_try_from_iff [of "ref_len s" "ref_len s"] by (simp add: into_string_def String_from_def ret_apply)

lemma ids_slice_ok:
  "unat (ref_len s) \<le> isize_max \<Longrightarrow>
   ids_slice s m = (Inr (C_slice T_u32 \<lparr>slice_data = ref_ptr s, slice_len = ref_len s\<rparr>), m)"
  using isize_try_from_iff [of "ref_len s" "ref_len s"]
  by (simp add: ids_slice_def Slice_from_def Slice_cast_def ret_apply)

lemma encode_ok:
  "list_all name_ok ops \<Longrightarrow> unat (ref_len sl) \<le> isize_max \<Longrightarrow>
   encode self ops ids sl m = (Inr (arg_values self ops ids sl), m)"
  by (induction self ops ids sl rule: arg_values.induct) (simp_all add: into_string_ok ids_slice_ok ret_apply)

section \<open>Types\<close>

primrec op_tag :: "operand \<Rightarrow> ctag" where
  "op_tag O_self = T_ptr (T_struct ''Proc'')"
| "op_tag (O_node n) = T_u32"
| "op_tag (O_scope n) = T_ptr T_u32"
| "op_tag (O_ids ns) = T_slice T_u32"
| "op_tag (O_name s) = T_struct ''String''"
| "op_tag (O_val v) = tag_of v"

lemma encode_tags:
  "encode self ops ids sl m = (Inr args, m') \<Longrightarrow> map tag_of args = map op_tag ops"
  by (induction self ops ids sl arbitrary: m args m' rule: encode.induct)
    (auto simp: into_string_def ids_slice_def Proc_ptr_def elim!: bindM_eq_InrE)

text \<open>The type of the result of each kind, and the types of the locals the library gets references to.\<close>

primrec kind_tag :: "result_kind \<Rightarrow> ctag" where
  "kind_tag K_unit = T_unit"
| "kind_tag K_bool = T_bool"
| "kind_tag K_isize = T_isize"
| "kind_tag K_node = T_u32"
| "kind_tag K_node_bool = T_bool"
| "kind_tag K_node_isize = T_isize"
| "kind_tag K_nodes = T_u32"
| "kind_tag (K_scope_state t) = T_unit"
| "kind_tag (K_state t) = T_unit"

primrec kind_refs :: "result_kind \<Rightarrow> ctag list" where
  "kind_refs K_unit = []"
| "kind_refs K_bool = []"
| "kind_refs K_isize = []"
| "kind_refs K_node = []"
| "kind_refs K_node_bool = [T_u32]"
| "kind_refs K_node_isize = [T_u32]"
| "kind_refs K_nodes = [T_u32]"
| "kind_refs (K_scope_state t) = [T_u32, t]"
| "kind_refs (K_state t) = [t]"

fun op_refs :: "operand list \<Rightarrow> ctag list" where
  "op_refs [] = []"
| "op_refs (O_scope n # ops) = T_u32 # op_refs ops"
| "op_refs (O_val (C_ref v) # ops) = tag_of v # op_refs ops"
| "op_refs (_ # ops) = op_refs ops"

definition declared :: "op_spec \<Rightarrow> bool" where
  "declared row = (case row of (f, ops, k) \<Rightarrow>
     map_of extern_sigs f = Some (map op_tag ops, kind_tag k) \<and> op_refs ops = kind_refs k)"

text \<open>The table of rows, checked against the declarations.\<close>

lemma value_call_declared: "declared (value_call_spec c)"
  by (cases c; simp add: declared_def; code_simp)

lemma memory_call_declared: "declared (memory_call_spec c)"
  by (cases c; simp add: declared_def; code_simp)

lemma control_call_declared: "declared (control_call_spec c)"
  by (cases c; simp add: declared_def; code_simp)

lemma graph_call_declared: "declared (graph_call_spec c)"
  by (cases c; simp add: declared_def; code_simp)

lemma scope_call_declared: "declared (scope_call_spec c)"
  by (cases c; simp add: declared_def; code_simp)

lemma list_call_declared: "declared (list_call_spec c)"
  by (cases c; simp add: declared_def; code_simp)

lemma state_call_declared: "declared (snd (state_spec c))"
  by (cases c; simp add: declared_def; code_simp)

lemmas calls_declared = value_call_declared memory_call_declared control_call_declared graph_call_declared
  scope_call_declared list_call_declared

lemma call_declared: "declared (call_spec c)"
  by (cases c) (simp_all only: call_spec.simps calls_declared)

lemma method_declared: "declared (method_fn c, method_operands c, method_kind c)"
  by (cases c) (simp_all add: method_fn_def method_operands_def method_kind_def call_declared state_call_declared)

lemma well_typed_declared:
  "declared (f, ops, k) \<Longrightarrow> encode self ops ids sl m = (Inr args, m') \<Longrightarrow> well_typed_call extern_sigs f args"
  by (auto simp: declared_def well_typed_call_def encode_tags)

text \<open>A library that refuses ill-typed calls looks the same to the parts of the crate that only read.\<close>

lemma typed_Node_NONE [simp]: "Node_NONE (typed_backend sigs bac) = Node_NONE bac"
  by (simp add: Node_NONE_def)

lemma typed_check [simp]: "Proc_check (typed_backend sigs bac) = Proc_check bac"
  by (intro ext) (simp only: Proc_check_def Proc_node_id_def typed_Node_NONE)

lemma typed_get_node [simp]: "Proc_get_node (typed_backend sigs bac) = Proc_get_node bac"
  by (intro ext) (simp only: Proc_get_node_def bac_get_node_def typed_Node_NONE)

lemma typed_write_ids [simp]: "write_ids (typed_backend sigs bac) self data nodes = write_ids bac self data nodes"
  by (induction nodes arbitrary: data) simp_all

lemma typed_with_node_ids [simp]:
  "Proc_with_node_ids (typed_backend sigs bac) self nodes f = Proc_with_node_ids bac self nodes f"
  by (simp add: Proc_with_node_ids_def)

lemma typed_decode [simp]: "decode (typed_backend sigs bac) self k = decode bac self k"
  by (cases k) simp_all

lemma bindM_cong_reached:
  assumes "\<And>s a s'. p s = (Inr a, s') \<Longrightarrow> k a s' = k' a s'"
  shows "bindM p k = bindM p k'"
  by (rule ext) (auto simp: bindM_def assms split: prod.splits sum.splits)

lemma perform_typed:
  assumes "declared (f, ops, k)"
  shows "perform (typed_backend extern_sigs bac) self (f, ops, k) = perform bac self (f, ops, k)"
proof -
  have "bindM (encode self ops ids sl) (\<lambda>args. bindM (bac_fn (typed_backend extern_sigs bac) f args) (decode bac self k)) =
    bindM (encode self ops ids sl) (\<lambda>args. bindM (bac_fn bac f args) (decode bac self k))" for ids sl
    by (rule bindM_cong_reached) (simp add: typed_backend_def well_typed_declared [OF assms])
  then show ?thesis by (simp add: hand_over_def cong: option.case_cong)
qed

section \<open>What a method asks of the library\<close>

lemma accepted_ids:
  "list_all (live_node bac m self) nodes \<Longrightarrow>
   mapM (Proc_check bac self) nodes m = (Inr (map (ref_id bac m self) nodes), m)"
  by (rule mapM_check_accepts) (auto simp: list_all_iff check_live)

lemma run_method_live:
  assumes "list_all (live_node bac m (method_self c)) (method_nodes c)"
  shows "run_method bac c m =
    hand_over bac (method_self c) (method_list c) (\<lambda>sl.
      bindM (encode (method_self c) (method_operands c) (map (ref_id bac m (method_self c)) (method_nodes c)) sl)
        (\<lambda>args. bindM (bac_fn bac (method_fn c) args) (decode bac (method_self c) (method_kind c)))) m"
  using accepted_ids [OF assms] by (simp add: run_method_performs method_nodes_def method_list_def)

definition asks_library :: "backend \<Rightarrow> method_call \<Rightarrow> machine \<Rightarrow> slice_ref \<Rightarrow> answer act" where
  "asks_library bac c m sl =
     bindM (bac_fn bac (method_fn c)
        (arg_values (method_self c) (method_operands c)
           (map (ref_id bac m (method_self c)) (method_nodes c)) sl))
       (decode bac (method_self c) (method_kind c))"

lemma encode_asks:
  assumes "list_all name_ok (method_operands c)" "unat (ref_len sl) \<le> isize_max"
  shows "bindM (encode (method_self c) (method_operands c) (map (ref_id bac m (method_self c)) (method_nodes c)) sl)
      (\<lambda>args. bindM (bac_fn bac (method_fn c) args) (decode bac (method_self c) (method_kind c))) =
    asks_library bac c m sl"
  by (rule ext) (simp add: asks_library_def encode_ok [OF assms])

lemma run_method_no_list:
  assumes "list_all (live_node bac m (method_self c)) (method_nodes c)" "list_all name_ok (method_operands c)"
    "method_list c = None \<or> method_list c = Some []"
  shows "run_method bac c m = asks_library bac c m (empty_ref 4) m"
  using assms(3) run_method_live [OF assms(1)] encode_asks [OF assms(2), of "empty_ref 4" bac m]
  by (auto simp: hand_over_def Proc_with_node_ids_def empty_ref_def)

lemma run_method_list:
  assumes "proc_ok bac m (method_self c)" "list_all (live_node bac m (method_self c)) (method_nodes c)"
    "list_all name_ok (method_operands c)" "method_list c = Some nodes" "nodes \<noteq> []" "8 * length nodes \<le> isize_max"
  shows "run_method bac c m = Proc_with_node_ids bac (method_self c) nodes (asks_library bac c m) m"
proof -
  have len: "unat (of_nat (length nodes) :: usize) \<le> isize_max"
    using assms(6) by (simp add: isize_max_def)
  show ?thesis
    unfolding run_method_live [OF assms(2)] assms(4) hand_over_def option.case
    by (simp add: Proc_with_node_ids_def encode_asks [OF assms(3)] len assms(5))
qed

lemma run_method_rejects:
  assumes "method_nodes c = good @ bad # rest" "\<forall>n \<in> set good. live_node bac m (method_self c) n"
    "Proc_check bac (method_self c) bad m = (Inl e, m)"
  shows "run_method bac c m = (Inl e, m)"
proof -
  have "mapM (Proc_check bac (method_self c)) (method_nodes c) m = (Inl e, m)"
    unfolding assms(1) using assms(2,3)
    by (intro mapM_check_rejects) (auto simp: list_all_iff check_live Proc_check_eq)
  then show ?thesis by (simp add: run_method_performs method_nodes_def)
qed

text \<open>Which nodes are refused does not depend on the functions of the library.\<close>

lemma fn_Node_NONE [simp]: "Node_NONE (bac\<lparr>bac_fn := lib\<rparr>) = Node_NONE bac"
  by (simp add: Node_NONE_def)

lemma fn_check [simp]: "Proc_check (bac\<lparr>bac_fn := lib\<rparr>) = Proc_check bac"
  by (intro ext) (simp only: Proc_check_def Proc_node_id_def fn_Node_NONE)

lemma fn_views [simp]:
  "live_node (bac\<lparr>bac_fn := lib\<rparr>) = live_node bac" "node_in (bac\<lparr>bac_fn := lib\<rparr>) = node_in bac" "ref_id (bac\<lparr>bac_fn := lib\<rparr>) = ref_id bac"
  "proc_ok (bac\<lparr>bac_fn := lib\<rparr>) = proc_ok bac"
  by (simp_all add: fun_eq_iff live_node_def node_in_def ref_id_def proc_ok_def)

lemma fn_ids_begun [simp]: "ids_begun (bac\<lparr>bac_fn := lib\<rparr>) = ids_begun bac"
  by (simp add: fun_eq_iff ids_begun_def)

lemma list_method_stops:
  assumes ok: "proc_ok bac m (method_self c)" and live: "list_all (live_node bac m (method_self c)) (method_nodes c)"
    and nodes: "method_list c = Some nodes" "nodes = good @ bad # rest" "8 * length nodes \<le> isize_max"
    and bad: "list_all (live_node bac m (method_self c)) good" "Proc_check bac (method_self c) bad m = (Inl e, m)"
      "node_in bac m (method_self c) bad \<or> bad \<noteq> Node_NONE bac \<and> \<not> belongs m (method_self c) bad"
  shows "run_method bac c m = (if ids_fit (scratch_arena m (method_self c)) (length nodes) then (Inl e, ids_begun bac m (method_self c) good)
      else (Inl (Panic ''temporary arena is full''), m))"
    "ids_fit (scratch_arena m (method_self c)) (length nodes) \<Longrightarrow> nodes_kept bac (method_self c) m (ids_begun bac m (method_self c) good)"
proof -
  have n: "nodes \<noteq> []" "4 * length nodes < 2 ^ 62" using nodes(2,3) by (auto simp: isize_max_def)
  show "ids_fit (scratch_arena m (method_self c)) (length nodes) \<Longrightarrow> nodes_kept bac (method_self c) m (ids_begun bac m (method_self c) good)"
    by (rule with_node_ids_stops(2) [OF ok n _ nodes(2) bad])
  show "run_method bac c m = (if ids_fit (scratch_arena m (method_self c)) (length nodes) then (Inl e, ids_begun bac m (method_self c) good)
      else (Inl (Panic ''temporary arena is full''), m))"
  proof (cases "ids_fit (scratch_arena m (method_self c)) (length nodes)")
    case True
    then show ?thesis
      unfolding run_method_live [OF live] nodes(1) hand_over_def option.case by (simp add: with_node_ids_stops(1) [OF ok n _ nodes(2) bad])
  next
    case False
    then show ?thesis
      unfolding run_method_live [OF live] nodes(1) hand_over_def option.case by (simp add: with_node_ids_shape [OF ok n] Let_def)
  qed
qed

section \<open>Properties\<close>

text \<open>
  C3: a method of the builder, or of a state of it, that gives its nodes to a function of the library, with a node that is dead or belongs to another
  proc, alone or in a list: it fails with the complaint about the first such node, whatever the library is, so that no function of it is called.
  The nodes that are not in a list are looked at first, and then nothing at all has changed. For one in a list there must be room for all the ids in the
  scratch arena, or that is the complaint; then the ids of the nodes before it have been written to the free part of the scratch arena, and nothing else:
  the arenas and all nodes are what they were.
\<close>

theorem method_refuses_bad_node:
  assumes "\<forall>n \<in> set good. live_node bac m (method_self c) n" "Proc_check bac (method_self c) bad m = (Inl e, m)"
  shows "(method_nodes c = good @ bad # rest \<longrightarrow> (\<forall>lib. run_method (bac\<lparr>bac_fn := lib\<rparr>) c m = (Inl e, m))) \<and>
    (\<forall>nodes. proc_ok bac m (method_self c) \<and> (\<forall>n \<in> set (method_nodes c). live_node bac m (method_self c) n) \<and>
        method_list c = Some nodes \<and> nodes = good @ bad # rest \<and> 8 * length nodes \<le> isize_max \<and>
        (node_in bac m (method_self c) bad \<or> bad \<noteq> Node_NONE bac \<and> \<not> belongs m (method_self c) bad) \<longrightarrow>
      (\<forall>lib. run_method (bac\<lparr>bac_fn := lib\<rparr>) c m =
         (if ids_fit (scratch_arena m (method_self c)) (length nodes) then (Inl e, ids_begun bac m (method_self c) good)
          else (Inl (Panic ''temporary arena is full''), m))) \<and>
      (ids_fit (scratch_arena m (method_self c)) (length nodes) \<longrightarrow> nodes_kept bac (method_self c) m (ids_begun bac m (method_self c) good)))"
proof (intro conjI allI impI, goal_cases)
  case (1 lib)
  then show ?case using run_method_rejects [of c good bad rest "bac\<lparr>bac_fn := lib\<rparr>" m e] assms by simp
next
  case (2 nodes lib)
  then show ?case
    using list_method_stops(1) [of "bac\<lparr>bac_fn := lib\<rparr>" m c nodes good bad rest e, unfolded fn_views fn_check fn_Node_NONE fn_ids_begun] assms
    by (auto simp: list_all_iff)
next
  case (3 nodes)
  then show ?case using list_method_stops(2) [of bac m c nodes good bad rest e] assms by (auto simp: list_all_iff)
qed

theorem method_refuses_bad_node_witness:
  "run_method sample_backend (On_builder 0 (Control (B_add_if (empty_ref 1) 0x8000 0x500))) sample_graph =
     (Inl (Panic ''node does not belong to this proc's arena''), sample_graph) \<and>
   run_method sample_backend (On_builder 0 (Lists (B_add_return (empty_ref 1) [0x8000, 0x500]))) sample_graph =
     (Inl (Panic ''node does not belong to this proc's arena''), ids_begun sample_backend sample_graph 0 [0x8000])"
proof -
  let ?c = "On_builder 0 (Control (B_add_if (empty_ref 1) 0x8000 0x500))" and ?d = "On_builder 0 (Lists (B_add_return (empty_ref 1) [0x8000, 0x500]))"
  let ?e = "Panic ''node does not belong to this proc's arena''"
  have c: "method_nodes ?c = [0x8000] @ 0x500 # []" "method_self ?c = 0" "method_self ?d = 0" "method_nodes ?d = []" "method_list ?d = Some [0x8000, 0x500]"
    by (simp_all add: method_nodes_def method_operands_def method_self_def method_list_def)
  have live: "\<forall>n \<in> set [0x8000]. live_node sample_backend sample_graph 0 n"
    by (simp add: live_node_def node_in_def sample_graph_loads DEAD_NODE_KIND_def)
  have bad: "Proc_check sample_backend 0 0x500 sample_graph = (Inl ?e, sample_graph)" by (simp add: Proc_check_eq check_res_def belongs_def)
  have fit: "ids_fit (scratch_arena sample_graph 0) (Suc (Suc 0))" by (simp add: ids_fit_def ids_start_def align_up_def)
  have "\<forall>lib. run_method (sample_backend\<lparr>bac_fn := lib\<rparr>) ?c sample_graph = (Inl ?e, sample_graph)"
    using method_refuses_bad_node [of "[0x8000]" sample_backend sample_graph ?c "0x500" ?e "[]"] live bad unfolding c by blast
  then have one: "run_method (sample_backend\<lparr>bac_fn := bac_fn sample_backend\<rparr>) ?c sample_graph = (Inl ?e, sample_graph)" by (rule spec)
  have "\<forall>n \<in> set [0x8000]. live_node sample_backend sample_graph (method_self ?d) n"
    "Proc_check sample_backend (method_self ?d) 0x500 sample_graph = (Inl ?e, sample_graph)" using live bad c(3) by (simp_all only:)
  note list = conjunct2 [OF method_refuses_bad_node [OF this, of "[]"], THEN spec, of "[0x8000, 0x500]", THEN mp]
  have "proc_ok sample_backend sample_graph (method_self ?d) \<and>
      (\<forall>n \<in> set (method_nodes ?d). live_node sample_backend sample_graph (method_self ?d) n) \<and> method_list ?d = Some [0x8000, 0x500] \<and>
      [0x8000, 0x500] = [0x8000] @ 0x500 # [] \<and> 8 * length [0x8000 :: u64, 0x500] \<le> isize_max \<and>
      (node_in sample_backend sample_graph (method_self ?d) 0x500 \<or> 0x500 \<noteq> Node_NONE sample_backend \<and> \<not> belongs sample_graph (method_self ?d) 0x500)"
    using sample_graph_ok [of 0] unfolding c by (simp add: isize_max_def belongs_def)
  from conjunct1 [OF list [OF this], THEN spec, of "bac_fn sample_backend"]
  have two: "run_method sample_backend ?d sample_graph = (Inl ?e, ids_begun sample_backend sample_graph 0 [0x8000])"
    using fit unfolding c by (simp del: sample_graph_simps)
  show ?thesis using one two by simp
qed

text \<open>
  C4: with live nodes and names, a safe method asks the library exactly once, for its function, with
  the id of each node in the place of the node; a list of nodes arrives as the slice of their ids in
  the scratch arena, whose position is put back afterwards.
\<close>

theorem method_asks_library_once:
  assumes "proc_ok bac m (method_self c)" "\<forall>n \<in> set (method_nodes c). live_node bac m (method_self c) n"
    "list_all name_ok (method_operands c)"
  shows "(method_list c = None \<or> method_list c = Some [] \<longrightarrow> run_method bac c m = asks_library bac c m (empty_ref 4) m) \<and>
    (\<forall>nodes. method_list c = Some nodes \<and> nodes \<noteq> [] \<and> 8 * length nodes \<le> isize_max \<and>
        ids_fit (scratch_arena m (method_self c)) (length nodes) \<and>
        list_all (live_node bac m (method_self c)) nodes \<longrightarrow>
      (\<exists>data m1. ids_handed bac m (method_self c) nodes data m1 \<and>
         run_method bac c m =
           with_guard (TempNodes_drop (scratch_addr m (method_self c)) (arena_pos (scratch_arena m (method_self c))))
             (asks_library bac c m \<lparr>ref_ptr = data, ref_len = of_nat (length nodes)\<rparr>) m1))"
proof (intro conjI allI impI, goal_cases)
  case 1
  then show ?case using assms(2,3) by (intro run_method_no_list) (auto simp: list_all_iff)
next
  case (2 nodes)
  have len: "4 * length nodes < 2 ^ 62" using 2 by (simp add: isize_max_def)
  show ?case
    using 2 with_node_ids_accepts [OF assms(1) _ len, of "asks_library bac c m"]
      run_method_list [OF assms(1) _ assms(3), of nodes] assms(2)
    by (auto simp: list_all_iff)
qed

theorem method_asks_library_once_witness:
  "run_method sample_backend (On_builder 0 (Control (B_add_jump (empty_ref 1) 0x8000))) sample_graph =
     asks_library sample_backend (On_builder 0 (Control (B_add_jump (empty_ref 1) 0x8000))) sample_graph
       (empty_ref 4) sample_graph"
proof -
  let ?c = "On_builder 0 (Control (B_add_jump (empty_ref 1) 0x8000))"
  have c: "method_nodes ?c = [0x8000]" "method_self ?c = 0" "list_all name_ok (method_operands ?c)" "method_list ?c = None"
    by (simp_all add: method_nodes_def method_operands_def method_self_def method_list_def empty_ref_def)
  then have "\<forall>n \<in> set (method_nodes ?c). live_node sample_backend sample_graph (method_self ?c) n"
    by (simp add: live_node_def node_in_def sample_graph_loads DEAD_NODE_KIND_def)
  then show ?thesis
    using method_asks_library_once [of sample_backend sample_graph ?c] sample_graph_ok c by simp
qed

text \<open>
  C20: every call that a safe method makes is a call of a declared function with arguments of the
  declared types, and the result is read at the declared type: against a library that refuses all
  other calls, every method behaves the same.
\<close>

theorem methods_well_typed:
  "run_method (typed_backend extern_sigs bac) c = run_method bac c \<and>
   map_of extern_sigs (method_fn c) = Some (map op_tag (method_operands c), kind_tag (method_kind c))"
  using method_declared [of c]
  by (simp add: run_method_performs perform_typed declared_def del: perform.simps)

end
