(* ===== verification/Sessions.thy ===== *)
theory Sessions
  imports Builder_Laws
begin

text \<open>
  Memory safety of the safe methods, relative to what the library answers. Nothing is assumed of the library as a whole: \<open>served\<close> says
  of one answer that it keeps the arenas where they are, gives no nodes back, and returns values of the declared types whose ids
  are nodes of the graph; an undefined answer is not served. A session is any sequence of calls by a client that uses
  references it was given, or references into other graphs, for as long as the answers were served. In every
  session each reference the client holds is one to a node, every call that the library gets is one for live nodes on
  arenas that are in order, and a method is undefined only when the answer to this call of it was not served.
\<close>

section \<open>What a call of the library keeps\<close>

definition keeps :: "backend \<Rightarrow> u64 \<Rightarrow> machine \<Rightarrow> machine \<Rightarrow> bool" where
  "keeps bac self m m' \<longleftrightarrow>
     proc_ok bac m' self \<and> proc_mem (procs m' self) = proc_mem (procs m self) \<and>
     scratch_addr m' self = scratch_addr m self \<and>
     arena_ptr (proc_arena m' self) = arena_ptr (proc_arena m self) \<and>
     arena_pos (proc_arena m self) \<le> arena_pos (proc_arena m' self) \<and>
     arena_reserved (scratch_arena m' self) = arena_reserved (scratch_arena m self)"

lemma keeps_refl: "proc_ok bac m self \<Longrightarrow> keeps bac self m m"
  by (simp add: keeps_def)

lemma keeps_trans: "keeps bac self m m' \<Longrightarrow> keeps bac self m' m'' \<Longrightarrow> keeps bac self m m''"
  by (auto simp: keeps_def)

lemma keeps_node_in: "keeps bac self m m' \<Longrightarrow> node_in bac m self n \<Longrightarrow> node_in bac m' self n"
  by (auto simp: keeps_def node_in_def belongs_def Let_def word_le_nat_alt)

lemma keeps_ref_id: "keeps bac self m m' \<Longrightarrow> ref_id bac m' self n = ref_id bac m self n"
  by (simp add: keeps_def ref_id_def)

definition served :: "backend \<Rightarrow> u64 \<Rightarrow> result_kind \<Rightarrow> machine \<Rightarrow> (cval \<times> cval list) res \<times> machine \<Rightarrow> bool" where
  "served bac self k m r = (case r of (res, m') \<Rightarrow> keeps bac self m m' \<and>
     (case res of
        Inl (Panic msg) \<Rightarrow> True
      | Inl (Ub msg) \<Rightarrow> False
      | Inr (v, outs) \<Rightarrow> tag_of v = kind_tag k \<and> map tag_of outs = kind_refs k \<and>
          (\<forall>x. C_u32 x \<in> set (v # outs) \<longrightarrow> id_ok m' self x)))"

definition list_given :: "backend \<Rightarrow> machine \<Rightarrow> u64 \<Rightarrow> u64 list option \<Rightarrow> slice_ref \<Rightarrow> bool" where
  "list_given bac m self nodes sl = (case nodes of
     None \<Rightarrow> sl = empty_ref 4
   | Some nodes \<Rightarrow> unat (ref_len sl) = length nodes \<and> list_all (live_node bac m self) nodes \<and>
       (\<forall>i < length nodes. load_u32 (memory m) (ref_ptr sl + 4 * of_nat i) = ref_id bac m self (nodes ! i)))"

text \<open>
  The call of the library that a method makes: the slice of ids that it passes and the state in which it calls. None if a node
  is refused or the ids do not fit into the scratch arena.
\<close>

definition call_made :: "backend \<Rightarrow> method_call \<Rightarrow> machine \<Rightarrow> (slice_ref \<times> machine) option" where
  "call_made bac c m =
     (if \<not> list_all (live_node bac m (method_self c)) (method_nodes c) then None
      else case method_list c of
        None \<Rightarrow> Some (empty_ref 4, m)
      | Some nodes \<Rightarrow>
          if nodes = [] then Some (empty_ref 4, m)
          else if ids_fit (scratch_arena m (method_self c)) (length nodes) \<and> list_all (live_node bac m (method_self c)) nodes
          then Some (\<lparr>ref_ptr = ids_data (scratch_arena m (method_self c)), ref_len = of_nat (length nodes)\<rparr>, ids_state bac m (method_self c) nodes)
          else None)"

text \<open>What the library answers to it.\<close>

definition library_answer :: "backend \<Rightarrow> method_call \<Rightarrow> slice_ref \<Rightarrow> machine \<Rightarrow> (cval \<times> cval list) res \<times> machine" where
  "library_answer bac c sl m1 =
     bac_fn bac (method_fn c)
       (arg_values (method_self c) (method_operands c) (map (ref_id bac m1 (method_self c)) (method_nodes c)) sl) m1"

definition answer_served :: "backend \<Rightarrow> method_call \<Rightarrow> machine \<Rightarrow> bool" where
  "answer_served bac c m = (case call_made bac c m of
     None \<Rightarrow> True
   | Some (sl, m1) \<Rightarrow> served bac (method_self c) (method_kind c) m1 (library_answer bac c sl m1))"

text \<open>The state of a call is one of the graph, with live nodes and the ids of the list in place.\<close>

definition call_in_order :: "backend \<Rightarrow> method_call \<Rightarrow> machine \<Rightarrow> slice_ref \<Rightarrow> machine \<Rightarrow> bool" where
  "call_in_order bac c m sl m1 \<longleftrightarrow> keeps bac (method_self c) m m1 \<and> list_all (live_node bac m1 (method_self c)) (method_nodes c) \<and>
     list_given bac m1 (method_self c) (method_list c) sl"

section \<open>Answers\<close>

primrec answer_nodes :: "answer \<Rightarrow> u64 set" where
  "answer_nodes A_unit = {}"
| "answer_nodes (A_bool b) = {}"
| "answer_nodes (A_isize i) = {}"
| "answer_nodes (A_node n) = {n}"
| "answer_nodes (A_node_bool n b) = {n}"
| "answer_nodes (A_node_isize n i) = {n}"
| "answer_nodes (A_nodes n n') = {n, n'}"
| "answer_nodes (A_scope_state n s) = {n}"
| "answer_nodes (A_state s) = {}"

lemma tag_inversion:
  "tag_of v = T_u32 \<longleftrightarrow> (\<exists>x. v = C_u32 x)" "tag_of v = T_bool \<longleftrightarrow> (\<exists>b. v = C_bool b)"
  "tag_of v = T_isize \<longleftrightarrow> (\<exists>i. v = C_isize i)" "tag_of v = T_unit \<longleftrightarrow> v = C_unit"
  by (cases v; simp)+

lemma decode_served:
  assumes ok: "proc_ok bac m self" and t: "tag_of v = kind_tag k" "map tag_of outs = kind_refs k"
    and ids: "\<forall>x. C_u32 x \<in> set (v # outs) \<longrightarrow> id_ok m self x"
  shows "\<exists>a. decode bac self k (v, outs) m = (Inr a, m) \<and> (\<forall>n \<in> answer_nodes a. node_in bac m self n)"
  using t ids
  by (cases k)
    (auto simp: tag_inversion out_scope_state_def out_state_def as_tagged_def map_eq_Cons_conv
      Proc_get_node_ok [OF proc_okD(1) [OF ok]] node_ref_facts(1) [OF ok] liftM_apply ret_apply)

section \<open>One call\<close>

text \<open>Not undefined, the arenas kept, and every reference that is returned one to a node.\<close>

definition safe_outcome :: "backend \<Rightarrow> u64 \<Rightarrow> machine \<Rightarrow> answer res \<times> machine \<Rightarrow> bool" where
  "safe_outcome bac self m r = (case r of (res, m') \<Rightarrow> keeps bac self m m' \<and>
     (case res of
        Inl (Panic msg) \<Rightarrow> True
      | Inl (Ub msg) \<Rightarrow> False
      | Inr a \<Rightarrow> \<forall>n \<in> answer_nodes a. node_in bac m' self n))"

lemma safe_panic: "keeps bac self m m' \<Longrightarrow> safe_outcome bac self m (Inl (Panic msg), m')"
  by (simp add: safe_outcome_def)

lemma served_safe:
  assumes "served bac self k m (p m)"
  shows "safe_outcome bac self m (bindM p (decode bac self k) m)"
proof (cases "p m")
  case (Pair r m')
  show ?thesis
  proof (cases r)
    case (Inl e)
    then show ?thesis using assms Pair by (cases e) (auto simp: served_def safe_outcome_def)
  next
    case (Inr vo)
    obtain v outs where vo: "vo = (v, outs)" by force
    have s: "keeps bac self m m'" "proc_ok bac m' self" "tag_of v = kind_tag k" "map tag_of outs = kind_refs k"
      "\<forall>x. C_u32 x \<in> set (v # outs) \<longrightarrow> id_ok m' self x"
      using assms Pair Inr vo by (auto simp: served_def keeps_def)
    then obtain a where "decode bac self k (v, outs) m' = (Inr a, m')" "\<forall>n \<in> answer_nodes a. node_in bac m' self n"
      using decode_served by blast
    then show ?thesis using s(1) Pair Inr vo by (simp add: safe_outcome_def)
  qed
qed

text \<open>References that a client may use: nodes of this graph, and nodes of other graphs.\<close>

definition foreign :: "backend \<Rightarrow> machine \<Rightarrow> u64 \<Rightarrow> u64 \<Rightarrow> bool" where
  "foreign bac m self n \<longleftrightarrow> n \<noteq> Node_NONE bac \<and> \<not> belongs m self n"

lemma check_panics:
  assumes "node_in bac m self n \<or> foreign bac m self n" "\<not> live_node bac m self n"
  shows "\<exists>msg. Proc_check bac self n m = (Inl (Panic msg), m)"
  using assms by (auto simp: Proc_check_eq check_res_def live_node_def foreign_def node_in_def)

lemma first_bad:
  assumes "\<not> list_all P xs"
  obtains good bad rest where "xs = good @ bad # rest" "\<forall>x \<in> set good. P x" "\<not> P bad"
  using assms split_list_first_prop [of xs "\<lambda>x. \<not> P x"] by (auto simp: list_all_iff)

text \<open>The state in which the library gets a list of ids.\<close>

lemma ids_state_views:
  assumes ok: "proc_ok bac m self" and fit: "ids_fit (scratch_arena m self) (length nodes)"
  shows "keeps bac self m (ids_state bac m self nodes)"
    "live_node bac m self n \<Longrightarrow> live_node bac (ids_state bac m self nodes) self n"
proof -
  let ?m = "ids_state bac m self nodes"
  have ne: "scratch_addr m self \<noteq> proc_mem (procs m self)" using proc_okD(3) [OF ok] .
  have views: "scratch_addr ?m self = scratch_addr m self" "proc_arena ?m self = proc_arena m self"
    "scratch_arena ?m self = ids_arena (scratch_arena m self) (length nodes)" "procs ?m = procs m"
    using ne by (simp_all add: ids_state_def scratch_addr_def proc_arena_def scratch_arena_def)
  have "unat (arena_pos (ids_arena (scratch_arena m self) (length nodes))) \<le> unat (arena_reserved (scratch_arena m self))"
    using ids_state_handed [OF ok fit] views by (simp add: ids_handed_def scratch_arena_def)
  then have "arena_ok (ids_arena (scratch_arena m self) (length nodes))"
    using proc_okD(2) [OF ok] by (simp add: arena_ok_def ids_arena_def word_le_nat_alt)
  then have "proc_ok bac ?m self"
    using ok unfolding proc_ok_def views by (simp add: ids_arena_def)
  then show "keeps bac self m ?m" by (simp add: keeps_def views ids_arena_def)
  have "node_in bac m self n \<Longrightarrow> load_u16 (memory ?m) n = load_u16 (memory m) n"
    using ids_state_handed [OF ok fit] by (simp add: ids_handed_def nodes_kept_def load_u16_snapshot)
  then show "live_node bac m self n \<Longrightarrow> live_node bac ?m self n"
    by (auto simp: live_node_def node_in_def belongs_def views)
qed

text \<open>Dropping the guard keeps what the library kept.\<close>

lemma keeps_drop:
  assumes "keeps bac self m m'" "proc_ok bac m self"
  shows "keeps bac self m (TempNodes_drop (scratch_addr m self) (arena_pos (scratch_arena m self)) m')"
proof -
  let ?m = "TempNodes_drop (scratch_addr m self) (arena_pos (scratch_arena m self)) m'"
  have k: "proc_ok bac m' self" "scratch_addr m' self = scratch_addr m self"
    "arena_reserved (scratch_arena m' self) = arena_reserved (scratch_arena m self)"
    using assms(1) by (simp_all add: keeps_def)
  have ne: "scratch_addr m self \<noteq> proc_mem (procs m' self)" using proc_okD(3) [OF k(1)] k(2) by simp
  have views: "scratch_addr ?m self = scratch_addr m self" "proc_arena ?m self = proc_arena m' self"
    "scratch_arena ?m self = (scratch_arena m' self)\<lparr>arena_pos := arena_pos (scratch_arena m self)\<rparr>" "procs ?m = procs m'"
    using ne k(2) by (simp_all add: TempNodes_drop_def scratch_addr_def proc_arena_def scratch_arena_def)
  have "arena_pos (scratch_arena m self) \<le> arena_reserved (scratch_arena m' self)"
    using proc_okD(2) [OF assms(2)] k(3) by (simp add: arena_ok_def)
  then have "arena_ok ((scratch_arena m' self)\<lparr>arena_pos := arena_pos (scratch_arena m self)\<rparr>)"
    using proc_okD(2) [OF k(1)] by (simp add: arena_ok_def)
  then have "proc_ok bac ?m self"
    using k(1,2) unfolding proc_ok_def views by simp
  then show ?thesis using assms(1) by (simp add: keeps_def views)
qed

lemma safe_drop:
  assumes "safe_outcome bac self m r" "proc_ok bac m self"
  shows "safe_outcome bac self m (fst r, TempNodes_drop (scratch_addr m self) (arena_pos (scratch_arena m self)) (snd r))"
proof -
  have k: "keeps bac self m (snd r)" using assms(1) by (auto simp: safe_outcome_def split: prod.splits)
  note d = keeps_drop [OF k assms(2)]
  have "proc_arena (TempNodes_drop (scratch_addr m self) (arena_pos (scratch_arena m self)) (snd r)) self =
    proc_arena (snd r) self"
    using k proc_okD(3) [of bac "snd r" self] by (simp add: keeps_def TempNodes_drop_def proc_arena_def)
  then have "node_in bac (TempNodes_drop (scratch_addr m self) (arena_pos (scratch_arena m self)) (snd r)) self n \<longleftrightarrow>
    node_in bac (snd r) self n" for n
    by (simp add: node_in_def belongs_def)
  then show ?thesis
    using assms(1) d by (auto simp: safe_outcome_def split: prod.splits sum.splits fault.splits)
qed

lemma safe_outcome_trans: "keeps bac self m m' \<Longrightarrow> safe_outcome bac self m' r \<Longrightarrow> safe_outcome bac self m r"
  by (auto simp: safe_outcome_def keeps_trans split: prod.splits)

definition usable :: "(u64 \<Rightarrow> bool) \<Rightarrow> u64 \<Rightarrow> method_call \<Rightarrow> bool" where
  "usable P self c \<longleftrightarrow> method_self c = self \<and> list_all P (method_nodes c) \<and> list_all name_ok (method_operands c) \<and>
     (case method_list c of None \<Rightarrow> True | Some nodes \<Rightarrow> list_all P nodes \<and> 8 * length nodes \<le> isize_max)"

lemma asks_answer:
  assumes "keeps bac (method_self c) m m1"
  shows "asks_library bac c m sl m1 = bindM (\<lambda>m. library_answer bac c sl m1) (decode bac (method_self c) (method_kind c)) m1"
proof -
  have "ref_id bac m (method_self c) = ref_id bac m1 (method_self c)" by (rule ext) (simp add: keeps_ref_id [OF assms])
  then show ?thesis by (simp add: asks_library_def library_answer_def bindM_apply)
qed

lemma answer_safe:
  assumes "keeps bac (method_self c) m m1" "served bac (method_self c) (method_kind c) m1 (library_answer bac c sl m1)"
  shows "safe_outcome bac (method_self c) m1 (asks_library bac c m sl m1)"
  unfolding asks_answer [OF assms(1)] using served_safe [where p = "\<lambda>m. library_answer bac c sl m1"] assms(2) by blast

text \<open>A method that makes no call of the library panics.\<close>

lemma no_call_panics:
  assumes ok: "proc_ok bac m self" and use: "usable (\<lambda>n. node_in bac m self n \<or> foreign bac m self n) self c" and none: "call_made bac c m = None"
  shows "\<exists>msg m'. run_method bac c m = (Inl (Panic msg), m') \<and> keeps bac self m m'"
proof -
  have self: "method_self c = self" using use by (simp add: usable_def)
  show ?thesis
  proof (cases "list_all (live_node bac m self) (method_nodes c)")
    case False
    then obtain good bad rest where g: "method_nodes c = good @ bad # rest" "\<forall>n \<in> set good. live_node bac m self n"
      "\<not> live_node bac m self bad"
      by (rule first_bad)
    then have "node_in bac m self bad \<or> foreign bac m self bad" using use by (simp add: usable_def)
    then obtain msg where "Proc_check bac self bad m = (Inl (Panic msg), m)" using check_panics g(3) by blast
    then show ?thesis using run_method_rejects [OF g(1), of bac m "Panic msg"] g(2) self keeps_refl [OF ok] by auto
  next
    case live: True
    then obtain nodes where nodes: "method_list c = Some nodes" "nodes \<noteq> []"
      "\<not> (ids_fit (scratch_arena m self) (length nodes) \<and> list_all (live_node bac m self) nodes)"
      using none self by (auto simp: call_made_def split: option.splits if_splits)
    have small: "8 * length nodes \<le> isize_max" "list_all (\<lambda>n. node_in bac m self n \<or> foreign bac m self n) nodes"
      and names: "list_all name_ok (method_operands c)" using use nodes(1) by (simp_all add: usable_def)
    have len: "4 * length nodes < 2 ^ 62" using small(1) by (simp add: isize_max_def)
    note run = run_method_list [OF ok [folded self] live [folded self] names nodes(1,2) small(1), unfolded self]
    show ?thesis
    proof (cases "ids_fit (scratch_arena m self) (length nodes)")
      case False
      then show ?thesis unfolding run with_node_ids_shape [OF ok nodes(2) len] Let_def using keeps_refl [OF ok] by simp
    next
      case fit: True
      then obtain good bad rest where g: "nodes = good @ bad # rest" "\<forall>n \<in> set good. live_node bac m self n" "\<not> live_node bac m self bad"
        using first_bad [of "live_node bac m self" nodes] nodes(3) by blast
      then have b: "node_in bac m self bad \<or> foreign bac m self bad" using small(2) by simp
      then obtain msg where "Proc_check bac self bad m = (Inl (Panic msg), m)" using check_panics g(3) by blast
      then obtain m1 where m1: "run_method bac c m = (Inl (Panic msg), m1)" "arenas m1 = arenas m" "procs m1 = procs m"
        using with_node_ids_rejects [OF ok nodes(2) len fit g(1), of "Panic msg" "asks_library bac c m"] g(2) b unfolding run
        by (auto simp: list_all_iff foreign_def)
      then have "keeps bac self m m1" using ok by (simp add: keeps_def proc_ok_def proc_arena_def scratch_arena_def scratch_addr_def)
      then show ?thesis using m1(1) by blast
    qed
  qed
qed

text \<open>One that makes a call makes it in order, and answers what the decoded answer of the library is.\<close>

lemma call_answers:
  assumes ok: "proc_ok bac m self" and use: "usable (\<lambda>n. node_in bac m self n \<or> foreign bac m self n) self c" and made: "call_made bac c m = Some (sl, m1)"
  shows "call_in_order bac c m sl m1"
    "served bac self (method_kind c) m1 (library_answer bac c sl m1) \<Longrightarrow> safe_outcome bac self m (run_method bac c m)"
proof -
  have self: "method_self c = self" and names: "list_all name_ok (method_operands c)" using use by (simp_all add: usable_def)
  have live: "list_all (live_node bac m self) (method_nodes c)" using made self by (auto simp: call_made_def split: if_splits)
  have "call_in_order bac c m sl m1 \<and>
    (served bac self (method_kind c) m1 (library_answer bac c sl m1) \<longrightarrow> safe_outcome bac self m (run_method bac c m))"
  proof (cases "method_list c = None \<or> method_list c = Some []")
    case True
    then have eq: "sl = empty_ref 4" "m1 = m" using made live self by (auto simp: call_made_def)
    have "list_given bac m self (method_list c) (empty_ref 4)" using True by (auto simp: list_given_def empty_ref_def)
    moreover have "run_method bac c m = asks_library bac c m (empty_ref 4) m" using run_method_no_list [of bac m c] live names self True by simp
    ultimately show ?thesis
      using answer_safe [of bac c m m "empty_ref 4"] keeps_refl [OF ok] live self by (simp add: call_in_order_def eq)
  next
    case False
    then obtain nodes where nodes: "method_list c = Some nodes" "nodes \<noteq> []" by auto
    then have fit: "ids_fit (scratch_arena m self) (length nodes)" and all: "list_all (live_node bac m self) nodes"
      and eq: "sl = \<lparr>ref_ptr = ids_data (scratch_arena m self), ref_len = of_nat (length nodes)\<rparr>" "m1 = ids_state bac m self nodes"
      using made live self by (auto simp: call_made_def split: if_splits)
    have small: "8 * length nodes \<le> isize_max" using use nodes(1) by (simp add: usable_def)
    have len: "4 * length nodes < 2 ^ 62" using small by (simp add: isize_max_def)
    note views = ids_state_views [OF ok fit, folded eq(2)]
    note run = run_method_list [OF ok [folded self] live [folded self] names nodes small, unfolded self]
    have "list_given bac m1 self (Some nodes) sl"
      using ids_state_handed [OF ok fit] all views len unfolding eq(1) by (auto simp: eq(2) list_given_def ids_handed_def list_all_iff keeps_ref_id [OF views(1) [unfolded eq(2)]])
    then have "call_in_order bac c m sl m1" using views live nodes(1) self by (auto simp: call_in_order_def list_all_iff)
    moreover have "safe_outcome bac self m (run_method bac c m)"
      if "served bac self (method_kind c) m1 (library_answer bac c sl m1)"
    proof -
      have "safe_outcome bac self m1 (asks_library bac c m sl m1)" using answer_safe [of bac c m m1 sl] views(1) that self by simp
      then have "safe_outcome bac self m (asks_library bac c m sl m1)" by (rule safe_outcome_trans [OF views(1)])
      then show ?thesis
        unfolding run with_node_ids_live [OF ok nodes(2) len all fit] with_guard_apply eq by (rule safe_drop [OF _ ok])
    qed
    ultimately show ?thesis by blast
  qed
  then show "call_in_order bac c m sl m1"
    "served bac self (method_kind c) m1 (library_answer bac c sl m1) \<Longrightarrow> safe_outcome bac self m (run_method bac c m)" by blast+
qed

lemma method_safe:
  assumes "proc_ok bac m self" "usable (\<lambda>n. node_in bac m self n \<or> foreign bac m self n) self c" "answer_served bac c m"
  shows "safe_outcome bac self m (run_method bac c m)"
proof (cases "call_made bac c m")
  case None
  then show ?thesis using no_call_panics [OF assms(1,2)] by (auto simp: safe_panic)
next
  case (Some call)
  obtain sl m1 where "call = (sl, m1)" by force
  moreover have "method_self c = self" using assms(2) by (simp add: usable_def)
  ultimately show ?thesis using call_answers(2) [OF assms(1,2)] Some assms(3) by (simp add: answer_served_def)
qed

section \<open>Sessions\<close>

text \<open>
  What a client can reach: it starts with nodes of the graph, calls methods on references it holds or
  that belong to other graphs, and holds what they return. A panic may be caught. So far every answer of the library
  was served.
\<close>

inductive session :: "backend \<Rightarrow> u64 \<Rightarrow> u64 set \<Rightarrow> machine \<Rightarrow> bool" for bac self where
  start: "proc_ok bac m self \<Longrightarrow> (\<And>n. n \<in> R \<Longrightarrow> node_in bac m self n) \<Longrightarrow> session bac self R m"
| returned: "session bac self R m \<Longrightarrow> usable (\<lambda>n. n \<in> R \<or> foreign bac m self n) self c \<Longrightarrow> answer_served bac c m \<Longrightarrow>
    run_method bac c m = (Inr a, m') \<Longrightarrow> session bac self (R \<union> answer_nodes a) m'"
| panicked: "session bac self R m \<Longrightarrow> usable (\<lambda>n. n \<in> R \<or> foreign bac m self n) self c \<Longrightarrow> answer_served bac c m \<Longrightarrow>
    run_method bac c m = (Inl (Panic msg), m') \<Longrightarrow> session bac self R m'"

lemma usable_mono: "usable P self c \<Longrightarrow> (\<And>n. P n \<Longrightarrow> Q n) \<Longrightarrow> usable Q self c"
  by (auto simp: usable_def list_all_iff split: option.splits)

lemma session_invariant:
  assumes "session bac self R m"
  shows "proc_ok bac m self \<and> (\<forall>n \<in> R. node_in bac m self n)"
  using assms
proof (induction rule: session.induct)
  case (start m R)
  then show ?case by blast
next
  case (returned R m c a m')
  then have "usable (\<lambda>n. node_in bac m self n \<or> foreign bac m self n) self c" by (blast intro: usable_mono)
  then have "safe_outcome bac self m (run_method bac c m)" using method_safe returned.IH returned.hyps(3) by blast
  then have "keeps bac self m m'" "\<forall>n \<in> answer_nodes a. node_in bac m' self n"
    using returned.hyps by (auto simp: safe_outcome_def)
  then show ?case using returned.IH keeps_node_in [of bac self m m'] by (auto simp: keeps_def)
next
  case (panicked R m c msg m')
  then have "usable (\<lambda>n. node_in bac m self n \<or> foreign bac m self n) self c" by (blast intro: usable_mono)
  then have "safe_outcome bac self m (run_method bac c m)" using method_safe panicked.IH panicked.hyps(3) by blast
  then have "keeps bac self m m'" using panicked.hyps by (auto simp: safe_outcome_def)
  then show ?case using panicked.IH keeps_node_in [of bac self m m'] by (auto simp: keeps_def)
qed

section \<open>A library\<close>

text \<open>One that takes a new node from the arena for each call, and panics when the arena is full.\<close>

definition bump_library :: "u64 \<Rightarrow> backend" where
  "bump_library self = \<lparr>
     bac_fn = (\<lambda>f args m. let x = proc_arena m self in
       if unat (arena_pos x) + NODE_SIZE \<le> unat (arena_reserved x)
       then (Inr (C_u32 (of_nat (unat (arena_pos x) div 4)), []), set_arena (proc_mem (procs m self)) (x\<lparr>arena_pos := arena_pos x + of_nat NODE_SIZE\<rparr>) m)
       else (Inl (Panic ''out of memory''), m)),
     bac_static = (\<lambda>_. 0x8000)\<rparr>"

section \<open>Properties\<close>

text \<open>
  C1: memory safety of the safe interface, whatever the library does. In every session every reference that the client holds is a
  reference to a node of the graph. The next call of a safe method, on these references or on references into other graphs, either calls no function of the
  library, and panics, or makes its one call on arenas that are in order, with live nodes of the graph and their ids in the slice. If the answer to
  this call is served, the method returns references to nodes or panics; so it can be undefined only by an answer that is not.
\<close>

theorem sessions_are_safe:
  assumes "session bac self R m" "usable (\<lambda>n. n \<in> R \<or> foreign bac m self n) self c"
  shows "proc_ok bac m self \<and> (\<forall>n \<in> R. node_in bac m self n) \<and>
    (case call_made bac c m of
       None \<Rightarrow> \<exists>msg m'. run_method bac c m = (Inl (Panic msg), m') \<and> keeps bac self m m'
     | Some (sl, m1) \<Rightarrow> call_in_order bac c m sl m1 \<and>
         (served bac self (method_kind c) m1 (library_answer bac c sl m1) \<longrightarrow>
          (case run_method bac c m of
             (Inl (Ub msg), m') \<Rightarrow> False
           | (Inl (Panic msg), m') \<Rightarrow> keeps bac self m m'
           | (Inr a, m') \<Rightarrow> keeps bac self m m' \<and> (\<forall>n \<in> answer_nodes a. node_in bac m' self n))))"
proof -
  have inv: "proc_ok bac m self" "\<forall>n \<in> R. node_in bac m self n" using session_invariant [OF assms(1)] by auto
  then have use: "usable (\<lambda>n. node_in bac m self n \<or> foreign bac m self n) self c" using assms(2) by (blast intro: usable_mono)
  show ?thesis
    using inv no_call_panics [OF inv(1) use] call_answers [OF inv(1) use]
    by (auto simp: safe_outcome_def split: option.splits prod.splits sum.splits fault.splits)
qed

definition bump_graph :: machine where
  "bump_graph = set_arena 0x100 \<lparr>arena_ptr = 0x1000, arena_pos = 96 + of_nat NODE_SIZE, arena_commited = 257, arena_reserved = 256\<rparr> sample_graph"

lemma bump_graph_simps [simp]:
  "proc_arena bump_graph p = \<lparr>arena_ptr = 0x1000, arena_pos = 140, arena_commited = 257, arena_reserved = 256\<rparr>"
  "scratch_addr bump_graph p = 0x200" "proc_mem (procs bump_graph p) = 0x100" "scratch_arena bump_graph p = scratch_arena sample_graph p"
  by (simp_all add: bump_graph_def set_arena_def proc_arena_def scratch_addr_def scratch_arena_def sample_graph_def NODE_SIZE_def temps_arena_def sys_Proc_default_def)

lemma bump_none: "Node_NONE (bump_library self) = 0x8000"
  by (simp add: Node_NONE_def bump_library_def)

lemma bump_ok: "proc_ok (bump_library 0) sample_graph 0" "proc_ok (bump_library 0) bump_graph 0"
  using sample_graph_ok [of 0] by (simp_all add: proc_ok_def bump_none arena_ok_def)

theorem sessions_are_safe_witness:
  "\<exists>n. run_method (bump_library 0) (On_builder 0 (Value (B_add_poison (empty_ref 1)))) sample_graph = (Inr (A_node n), bump_graph) \<and>
     session (bump_library 0) 0 {0x8000, n} bump_graph \<and> n \<noteq> 0x8000 \<and> node_in (bump_library 0) bump_graph 0 n \<and>
     (\<exists>msg m'. run_method (bump_library 0) (On_builder 0 (Lists (B_add_return (empty_ref 1) [n, 0x500]))) bump_graph = (Inl (Panic msg), m'))"
proof -
  let ?b = "bump_library 0" and ?n = "0x1060 :: u64"
  define c d where cd: "c = On_builder 0 (Value (B_add_poison (empty_ref 1)))" "d = On_builder 0 (Lists (B_add_return (empty_ref 1) [?n, 0x500]))"
  have c: "method_nodes c = []" "method_self c = 0" "method_list c = None" "list_all name_ok (method_operands c)" "method_kind c = K_node"
    "method_nodes d = []" "method_self d = 0" "method_list d = Some [?n, 0x500]" "list_all name_ok (method_operands d)"
    by (simp_all add: cd method_nodes_def method_operands_def method_self_def method_list_def method_kind_def empty_ref_def isize_max_def)
  have made: "call_made ?b c sample_graph = Some (empty_ref 4, sample_graph)" by (simp add: call_made_def c)
  have ans: "library_answer ?b c (empty_ref 4) sample_graph = (Inr (C_u32 24, []), bump_graph)"
    by (simp add: library_answer_def bump_library_def bump_graph_def NODE_SIZE_def)
  have "keeps ?b 0 sample_graph bump_graph" using bump_ok by (simp add: keeps_def)
  then have served: "answer_served ?b c sample_graph" by (simp add: answer_served_def made ans served_def c id_ok_def NODE_SIZE_def)
  have "run_method ?b c sample_graph = bindM (\<lambda>m. library_answer ?b c (empty_ref 4) sample_graph) (decode ?b 0 K_node) sample_graph"
    using run_method_no_list [of ?b sample_graph c] asks_answer [of ?b c sample_graph sample_graph] keeps_refl [OF bump_ok(1)] c by simp
  then have run: "run_method ?b c sample_graph = (Inr (A_node ?n), bump_graph)" 
    using Proc_get_node_ok [OF proc_okD(1) [OF bump_ok(2)], of 24]
    by (simp add: ans bindM_apply id_ok_def NODE_SIZE_def node_ref_def as_tagged_def liftM_apply)
  have s: "session ?b 0 {0x8000} sample_graph" by (rule session.start [OF bump_ok(1)]) (simp add: node_in_def bump_none)
  have "usable (\<lambda>n. n \<in> {0x8000} \<or> foreign ?b sample_graph 0 n) 0 c" using c by (simp add: usable_def)
  from session.returned [OF s this served run] have s2: "session ?b 0 {0x8000, ?n} bump_graph" by (simp add: insert_commute)
  have far: "foreign ?b bump_graph 0 0x500" by (simp add: foreign_def belongs_def bump_none)
  have use: "usable (\<lambda>n. n \<in> {0x8000, ?n} \<or> foreign ?b bump_graph 0 n) 0 d" using c far by (simp add: usable_def isize_max_def)
  have "\<not> live_node ?b bump_graph 0 0x500" using far by (auto simp: live_node_def node_in_def foreign_def)
  then have none: "call_made ?b d bump_graph = None" using c by (simp add: call_made_def)
  show ?thesis using sessions_are_safe [OF s2 use] run s2 none unfolding cd by (intro exI [of _ ?n]) auto
qed

end
