(* ===== verification/Stencil.thy ===== *)
theory Stencil
  imports Proc_Laws
begin

text \<open>
  Stencils (\<^verbatim>\<open>lib.rs\<close>, \<^verbatim>\<open>graph.odin\<close>): a frozen copy of a graph's bytes and metadata that can be mounted into
  another proc. Ids are relative to the start of the arena, so the copy is the same graph wherever
  it is mounted; the theorems say so, and what happens when the target is too small.
\<close>

section \<open>Operations\<close>

definition bac_get_stencil :: "u64 \<Rightarrow> sys_Stencil act" where
  "bac_get_stencil prc =
     getM (\<lambda>m. \<lparr>stencil_mem = \<lparr>slice_data = arena_ptr (proc_arena m prc), slice_len = arena_pos (proc_arena m prc)\<rparr>,
                stencil_meta = meta (procs m prc)\<rparr>)"

definition bac_mount_stencil :: "commit_fn \<Rightarrow> u64 \<Rightarrow> sys_Stencil \<Rightarrow> unit act" where
  "bac_mount_stencil commit prc stencil =
     bindM (getM (\<lambda>m. proc_mem (procs m prc))) (\<lambda>a.
     bindM (get_arena a) (\<lambda>x.
     bindM (if arena_ptr x = 0
            then put_arena a (\<lambda>_. let x = init_from_buffer (stencil_mem stencil)
                                  in x\<lparr>arena_pos := arena_reserved x\<rparr>)
            else bindM (put_arena a (arena_pos_update (\<lambda>_. 0))) (\<lambda>_.
                 bindM (arna_clone commit a 1 1 (stencil_mem stencil)) (\<lambda>_. ret ()))) (\<lambda>_.
     modifyM (\<lambda>m. set_proc prc ((procs m prc)\<lparr>meta := stencil_meta stencil,
       curret_sloc := replicate 8 0, computed_passes := 0\<rparr>) m))))"

record Stencil =
  st_arena :: arna_Allocator
  st_meta :: Proc_Meta
  st_spec :: u64

definition Proc_stencil :: "global_alloc \<Rightarrow> u64 \<Rightarrow> Stencil act" where
  "Proc_stencil ga self =
     bindM (bac_get_stencil self) (\<lambda>raw.
     bindM (liftM (Slice_as_slice 1 1 (stencil_mem raw))) (\<lambda>bs.
     bindM (Arena_copy ga bs) (\<lambda>arena.
     bindM (getM (\<lambda>m. node_spec (procs m self))) (\<lambda>spec.
     ret \<lparr>st_arena = arena, st_meta = stencil_meta raw, st_spec = spec\<rparr>))))"

definition Stencil_clone :: "global_alloc \<Rightarrow> Stencil \<Rightarrow> Stencil act" where
  "Stencil_clone ga self =
     bindM (liftM (Arena_bytes (st_arena self))) (\<lambda>bs.
     bindM (Arena_copy ga bs) (\<lambda>arena.
     ret \<lparr>st_arena = arena, st_meta = st_meta self, st_spec = st_spec self\<rparr>))"

definition Stencil_len :: "Stencil \<Rightarrow> usize res" where
  "Stencil_len self = (case Arena_bytes (st_arena self) of Inl e \<Rightarrow> Inl e | Inr bs \<Rightarrow> Inr (ref_len bs))"

definition Stencil_is_empty :: "Stencil \<Rightarrow> bool res" where
  "Stencil_is_empty self = (case Arena_bytes (st_arena self) of Inl e \<Rightarrow> Inl e | Inr bs \<Rightarrow> Inr (ref_len bs = 0))"

definition Stencil_raw :: "Stencil \<Rightarrow> sys_Stencil res" where
  "Stencil_raw self =
     (case Arena_bytes (st_arena self) of
        Inl e \<Rightarrow> Inl e
      | Inr bs \<Rightarrow> (case Slice_from bs of
            Inl e \<Rightarrow> Inl e
          | Inr s \<Rightarrow> Inr \<lparr>stencil_mem = s, stencil_meta = st_meta self\<rparr>))"

definition Proc_mount_stencil :: "commit_fn \<Rightarrow> u64 \<Rightarrow> Stencil \<Rightarrow> unit act" where
  "Proc_mount_stencil commit self stencil =
     bindM (modifyM (\<lambda>m. set_proc self ((procs m self)\<lparr>node_spec := st_spec stencil\<rparr>) m)) (\<lambda>_.
     bindM (liftM (Stencil_raw stencil)) (\<lambda>raw.
     bac_mount_stencil commit self raw))"

definition Builder_stencil :: "global_alloc \<Rightarrow> u64 \<Rightarrow> Stencil act" where
  "Builder_stencil ga self = Proc_stencil ga self"

definition Proc_inline_stencil :: "backend \<Rightarrow> u64 \<Rightarrow> u32 \<Rightarrow> Stencil \<Rightarrow> unit act" where
  "Proc_inline_stencil bac self call' from =
     bindM (liftM (Stencil_raw from)) (\<lambda>raw.
     call bac ''bac_inline_stencil'' [Proc_ptr self, C_u32 call', C_stencil raw] as_unit)"

definition Proc_inline_graph :: "backend \<Rightarrow> u64 \<Rightarrow> u32 \<Rightarrow> u64 \<Rightarrow> unit act" where
  "Proc_inline_graph bac self call' from =
     call bac ''bac_inline_graph'' [Proc_ptr self, C_u32 call', Proc_ptr from] as_unit"

definition Builder_inline_stencil :: "backend \<Rightarrow> u64 \<Rightarrow> u64 \<Rightarrow> Stencil \<Rightarrow> unit act" where
  "Builder_inline_stencil bac self call' from =
     bindM (Builder_check bac self call') (\<lambda>call'. Proc_inline_stencil bac self call' from)"

definition Builder_inline_graph :: "backend \<Rightarrow> u64 \<Rightarrow> u64 \<Rightarrow> u64 \<Rightarrow> unit act" where
  "Builder_inline_graph bac self call' from =
     bindM (assertM (self \<noteq> from) ''cannot inline a proc into itself'') (\<lambda>_.
     bindM (Builder_check bac self call') (\<lambda>call'.
     Proc_inline_graph bac self call' from))"

section \<open>Taking and mounting\<close>

text \<open>The bytes of a graph and of a stencil.\<close>

definition graph_bytes :: "machine \<Rightarrow> u64 \<Rightarrow> u8 list" where
  "graph_bytes m self = load_bytes (memory m) (arena_ptr (proc_arena m self)) (unat (arena_pos (proc_arena m self)))"

definition stencil_bytes :: "machine \<Rightarrow> Stencil \<Rightarrow> u8 list" where
  "stencil_bytes m st = load_bytes (memory m) (arena_ptr (st_arena st)) (unat (arena_pos (st_arena st)))"

definition stencil_ok :: "Stencil \<Rightarrow> bool" where
  "stencil_ok st \<longleftrightarrow> arena_ok (st_arena st) \<and> owned (st_arena st) \<and> arena_pos (st_arena st) = arena_reserved (st_arena st)"

lemma Proc_stencil_ok:
  assumes ga: "global_alloc_ok ga" and ok: "arena_ok (proc_arena m self)" "arena_pos (proc_arena m self) \<noteq> 0"
    and c: "capacity_ok (arena_pos (proc_arena m self))" "ga m (layout_for (arena_pos (proc_arena m self))) \<noteq> 0"
    and u: "in_use ga m (arena_ptr (proc_arena m self)) (unat (arena_pos (proc_arena m self)))"
  obtains st m' where "Proc_stencil ga self m = (Inr st, m')" "stencil_ok st"
    "stencil_bytes m' st = graph_bytes m self" "graph_bytes m' self = graph_bytes m self"
    "st_meta st = meta (procs m self)" "st_spec st = node_spec (procs m self)"
    "arenas m' = arenas m" "procs m' = procs m" "length (graph_bytes m self) = unat (arena_pos (st_arena st))"
    "arena_ptr (st_arena st) = ga m (layout_for (arena_pos (proc_arena m self)))"
proof -
  let ?x = "proc_arena m self"
  let ?r = "\<lparr>ref_ptr = arena_ptr ?x, ref_len = arena_pos ?x\<rparr>"
  have lt: "unat (arena_pos ?x) \<le> isize_max" using arena_okD [OF ok(1)] by simp
  have r: "slice_ref_ok 1 1 ?r"
    using ok(1) lt by (simp add: slice_ref_ok_def from_raw_parts_ok_def arena_ok_def)
  have sl: "Slice_as_slice 1 1 \<lparr>slice_data = arena_ptr ?x, slice_len = arena_pos ?x\<rparr> = Inr ?r"
    using r lt ok(2) by (simp add: Slice_as_slice_cases slice_ref_ok_def)
  obtain a m' where a: "Arena_copy ga ?r m = (Inr a, m')" "arena_ok a" "owned a"
    "arena_pos a = ref_len ?r" "arena_reserved a = ref_len ?r" "arena_ptr a = ga m (layout_for (ref_len ?r))"
    "load_bytes (memory m') (arena_ptr a) (unat (ref_len ?r)) = ref_bytes (memory m) ?r"
    "ref_bytes (memory m') ?r = ref_bytes (memory m) ?r" "arenas m' = arenas m" "procs m' = procs m"
    using Arena_copy_ok [OF ga r] c u by (metis slice_ref.select_convs)
  have x: "proc_arena m' self = ?x" using a(9,10) by (simp add: proc_arena_def)
  let ?st = "\<lparr>st_arena = a, st_meta = meta (procs m self), st_spec = node_spec (procs m self)\<rparr>"
  have "Proc_stencil ga self m = (Inr ?st, m')"
    using a(1,10) sl by (simp add: Proc_stencil_def bac_get_stencil_def liftM_apply ret_apply)
  then show thesis
    using that [of ?st m'] a x by (simp add: stencil_ok_def stencil_bytes_def graph_bytes_def ref_bytes_def)
qed

lemma Stencil_raw_ok:
  assumes "stencil_ok st" "arena_pos (st_arena st) \<noteq> 0"
  shows "Stencil_raw st = Inr \<lparr>stencil_mem = \<lparr>slice_data = arena_ptr (st_arena st), slice_len = arena_pos (st_arena st)\<rparr>,
    stencil_meta = st_meta st\<rparr>"
proof -
  have "unat (arena_pos (st_arena st)) \<le> isize_max" "arena_ptr (st_arena st) \<noteq> 0"
    using assms(1) arena_okD(1,2) [of "st_arena st"] by (auto simp: stencil_ok_def arena_ok_def)
  then show ?thesis
    using assms(2) by (simp add: Stencil_raw_def Arena_bytes_def from_raw_parts_def from_raw_parts_ok_def
        Slice_from_def isize_try_from_def)
qed

lemma align_ok_1: "align_ok 1"
  by (simp add: align_ok_def is_power_of_two_def PAGE_SIZE_def)

lemma clone_bytes_ok:
  assumes ok: "arena_ok (arenas m a)" and pos: "arena_pos (arenas m a) = 0"
    and s: "size_ok (slice_len s)" "slice_len s \<noteq> 0" "slice_data s \<noteq> 0" "region_ok (slice_data s) (unat (slice_len s))"
    and fit: "unat (slice_len s) \<le> unat (arena_reserved (arenas m a))"
    and ap: "apart (slice_data s) (unat (slice_len s)) (arena_ptr (arenas m a)) (unat (arena_reserved (arenas m a)))"
  shows "arna_clone commit a 1 1 s m =
    (Inr \<lparr>slice_data = arena_ptr (arenas m a), slice_len = slice_len s\<rparr>,
     write_bytes (arena_ptr (arenas m a)) (load_bytes (memory m) (slice_data s) (unat (slice_len s)))
       (set_arena a ((arenas m a)\<lparr>arena_pos := slice_len s\<rparr>) m))"
proof -
  let ?x = "arenas m a"
  have b: "alloc_base ?x 1 = 0" using pos by (simp add: alloc_base_def align_up_def)
  have f: "alloc_fits ?x (slice_len s) 1" using fit b by (simp add: alloc_fits_def)
  have al: "arna_alloc commit a (slice_len s) 1 False m =
      (Inr (Inr \<lparr>slice_data = arena_ptr ?x, slice_len = slice_len s\<rparr>),
       set_arena a (?x\<lparr>arena_pos := slice_len s\<rparr>) m)"
    using f b by (simp add: arna_alloc_eq [OF ok align_ok_1 s(1)] alloc_slice_def alloc_arena_def)
  have "copy_nonoverlapping (slice_data s) (arena_ptr ?x) (unat (slice_len s)) m' =
      (Inr (), write_bytes (arena_ptr ?x) (load_bytes (memory m') (slice_data s) (unat (slice_len s))) m')" for m'
    using s ok ap fit by (intro copy_nonoverlapping_ok) (auto simp: arena_ok_def region_ok_def apart_def)
  then show ?thesis
    using al by (simp add: arna_clone_def arna_smake_def ret_apply)
qed

lemma mount_stencil_ok:
  assumes ok: "arena_ok (proc_arena m dst)" and st: "stencil_ok st" "arena_pos (st_arena st) \<noteq> 0"
    and fit: "arena_pos (st_arena st) \<le> arena_reserved (proc_arena m dst)"
    and ap: "apart (arena_ptr (st_arena st)) (unat (arena_pos (st_arena st)))
      (arena_ptr (proc_arena m dst)) (unat (arena_reserved (proc_arena m dst)))"
  obtains m' where "Proc_mount_stencil commit dst st m = (Inr (), m')"
    "graph_bytes m' dst = stencil_bytes m st" "meta (procs m' dst) = st_meta st"
    "node_spec (procs m' dst) = st_spec st"
    "proc_arena m' dst = (proc_arena m dst)\<lparr>arena_pos := arena_pos (st_arena st)\<rparr>"
proof -
  let ?y = "st_arena st" and ?x = "proc_arena m dst" and ?a = "proc_mem (procs m dst)"
  let ?s = "\<lparr>slice_data = arena_ptr ?y, slice_len = arena_pos ?y\<rparr>"
  let ?m1 = "set_proc dst ((procs m dst)\<lparr>node_spec := st_spec st\<rparr>) m"
  let ?m2 = "set_arena ?a (?x\<lparr>arena_pos := 0\<rparr>) ?m1"
  let ?m3 = "write_bytes (arena_ptr ?x) (load_bytes (memory m) (arena_ptr ?y) (unat (arena_pos ?y)))
    (set_arena ?a (?x\<lparr>arena_pos := arena_pos ?y\<rparr>) ?m2)"
  let ?m4 = "set_proc dst ((procs ?m3 dst)\<lparr>meta := st_meta st, curret_sloc := replicate 8 0, computed_passes := 0\<rparr>) ?m3"
  have y: "arena_ok ?y" "size_ok (arena_pos ?y)" "arena_ptr ?y \<noteq> 0" "region_ok (arena_ptr ?y) (unat (arena_pos ?y))"
    using st(1) by (auto simp: stencil_ok_def arena_ok_def owned_def capacity_ok_def size_ok_def)
  have x: "arenas ?m1 ?a = ?x" by (simp add: proc_arena_def)
  have okx: "arena_ok (arenas ?m2 ?a)" using ok by (simp add: arena_ok_def)
  have "arna_clone commit ?a 1 1 ?s ?m2 =
      (Inr \<lparr>slice_data = arena_ptr ?x, slice_len = arena_pos ?y\<rparr>, ?m3)"
    using clone_bytes_ok [OF okx, of ?s commit] y st(2) fit ap by (simp add: word_le_nat_alt)
  moreover have "arena_ptr ?x \<noteq> 0" using ok by (simp add: arena_ok_def)
  ultimately have "Proc_mount_stencil commit dst st m = (Inr (), ?m4)"
    using x by (simp add: Proc_mount_stencil_def Stencil_raw_ok [OF st] liftM_apply bac_mount_stencil_def
        get_arena_def put_arena_def)
  moreover have "graph_bytes ?m4 dst = stencil_bytes m st"
    using load_store_prefix [of "load_bytes (memory m) (arena_ptr ?y) (unat (arena_pos ?y))" "unat (arena_pos ?y)" "memory m" "arena_ptr ?x"]
    by (simp add: graph_bytes_def stencil_bytes_def proc_arena_def)
  moreover have "proc_arena ?m4 dst = ?x\<lparr>arena_pos := arena_pos ?y\<rparr>" by (simp add: proc_arena_def)
  ultimately show thesis using that [of ?m4] by simp
qed

lemma load_bytes_slice: "k + n \<le> t \<Longrightarrow> load_bytes m (p + of_nat k) n = take n (drop k (load_bytes m p t))"
  by (rule nth_equalityI) (simp_all add: algebra_simps)

lemma graph_bytes_node:
  assumes "id_ok m self id'" "id' \<noteq> 0"
  shows "load_bytes (memory m) (node_ref bac m self id') NODE_SIZE = take NODE_SIZE (drop (4 * unat id') (graph_bytes m self))"
  using load_bytes_slice [of "4 * unat id'" NODE_SIZE "unat (arena_pos (proc_arena m self))" "memory m"
      "arena_ptr (proc_arena m self)"] assms
  by (simp add: id_ok_def node_ref_def graph_bytes_def)

section \<open>Properties\<close>

text \<open>
  C34: taking a stencil of a graph and mounting it into a proc whose arena has room gives that proc the
  same graph: the same bytes and metadata, and under every id of a node the same node, although
  the arena is elsewhere; the original graph is unchanged.
\<close>

theorem stencil_round_trip:
  assumes "global_alloc_ok ga" "arena_ok (proc_arena m self)" "arena_pos (proc_arena m self) \<noteq> 0"
    "capacity_ok (arena_pos (proc_arena m self))" "ga m (layout_for (arena_pos (proc_arena m self))) \<noteq> 0"
    "in_use ga m (arena_ptr (proc_arena m self)) (unat (arena_pos (proc_arena m self)))"
    "arena_ok (proc_arena m dst)" "arena_pos (proc_arena m self) \<le> arena_reserved (proc_arena m dst)"
    "in_use ga m (arena_ptr (proc_arena m dst)) (unat (arena_reserved (proc_arena m dst)))"
  shows "\<exists>st m1 m2. Proc_stencil ga self m = (Inr st, m1) \<and> stencil_bytes m1 st = graph_bytes m self \<and>
    graph_bytes m1 self = graph_bytes m self \<and> Stencil_len st = Inr (arena_pos (proc_arena m self)) \<and>
    Proc_mount_stencil commit dst st m1 = (Inr (), m2) \<and> graph_bytes m2 dst = graph_bytes m self \<and>
    meta (procs m2 dst) = meta (procs m self) \<and> node_spec (procs m2 dst) = node_spec (procs m self) \<and>
    (\<forall>i. i \<noteq> 0 \<longrightarrow> id_ok m self i \<longrightarrow> id_ok m2 dst i \<and>
       load_bytes (memory m2) (node_ref bac m2 dst i) NODE_SIZE = load_bytes (memory m) (node_ref bac m self i) NODE_SIZE)"
proof -
  let ?x = "proc_arena m self" and ?d = "proc_arena m dst"
  obtain st m1 where st: "Proc_stencil ga self m = (Inr st, m1)" "stencil_ok st"
    "stencil_bytes m1 st = graph_bytes m self" "graph_bytes m1 self = graph_bytes m self"
    "st_meta st = meta (procs m self)" "st_spec st = node_spec (procs m self)"
    "arenas m1 = arenas m" "procs m1 = procs m" "length (graph_bytes m self) = unat (arena_pos (st_arena st))"
    "arena_ptr (st_arena st) = ga m (layout_for (arena_pos ?x))"
    using Proc_stencil_ok [OF assms(1-6)] .
  have p: "arena_pos (st_arena st) = arena_pos ?x"
    using st(9) by (simp add: graph_bytes_def) (metis of_nat_unat_usize)
  have d1: "proc_arena m1 dst = ?d" using st(7,8) by (simp add: proc_arena_def)
  have "unat (arena_pos ?x) \<le> unat (layout_size (layout_for (arena_pos ?x)))"
    by (simp add: layout_for_def max_def word_le_nat_alt)
  then have ap: "apart (arena_ptr (st_arena st)) (unat (arena_pos (st_arena st))) (arena_ptr ?d) (unat (arena_reserved ?d))"
    using assms(5,9) st(10) p unfolding in_use_def apart_def by fastforce
  obtain m2 where m2: "Proc_mount_stencil commit dst st m1 = (Inr (), m2)"
    "graph_bytes m2 dst = stencil_bytes m1 st" "meta (procs m2 dst) = st_meta st"
    "node_spec (procs m2 dst) = st_spec st" "proc_arena m2 dst = ?d\<lparr>arena_pos := arena_pos (st_arena st)\<rparr>"
    using mount_stencil_ok [of m1 dst st commit] assms(3,7,8) st(2) p ap d1 by metis
  have ids: "id_ok m2 dst i = id_ok m self i" for i using m2(5) p by (simp add: id_ok_def)
  have "Stencil_len st = Inr (arena_pos ?x)"
    using Arena_bytes_ok [of "st_arena st"] st(2) p by (auto simp: Stencil_len_def stencil_ok_def)
  then show ?thesis
    using st m2 graph_bytes_node ids by (intro exI [of _ st] exI [of _ m1] exI [of _ m2]) simp
qed

theorem stencil_round_trip_witness:
  "\<exists>st m1 m2. Proc_stencil one_block 0 sample_graph = (Inr st, m1) \<and>
     Proc_mount_stencil (\<lambda>_ _. ret Out_Of_Memory) 0 st m1 = (Inr (), m2) \<and>
     graph_bytes m2 0 = graph_bytes sample_graph 0"
proof -
  have h: "heap sample_graph = []" by (simp add: sample_graph_def)
  have "arena_ok (proc_arena sample_graph 0)" "capacity_ok 96" "one_block sample_graph (layout_for 96) \<noteq> 0"
    "in_use one_block sample_graph 0x1000 96" "in_use one_block sample_graph 0x1000 256"
    using h by (simp_all add: arena_ok_def region_ok_def isize_max_def capacity_ok_def one_block_def layout_for_def
        MIN_ALIGN_def max_def in_use_def apart_def)
  then show ?thesis
    using stencil_round_trip [OF one_block_ok, of sample_graph 0 0 "\<lambda>_ _. ret Out_Of_Memory" sample_backend]
    by (simp, blast)
qed

text \<open>
  Mounting does not check that the arena has room: a stencil larger than the arena is copied to the
  nil slice that \<^verbatim>\<open>smake\<close> returns.
\<close>

lemma mount_stencil_without_room:
  assumes ok: "arena_ok (proc_arena m dst)" and st: "stencil_ok st"
    and big: "arena_reserved (proc_arena m dst) < arena_pos (st_arena st)"
  shows "\<exists>m'. Proc_mount_stencil commit dst st m = (Inl (Ub ''copy_nonoverlapping''), m')"
proof -
  let ?y = "st_arena st" and ?x = "proc_arena m dst" and ?a = "proc_mem (procs m dst)"
  let ?m2 = "set_arena ?a (?x\<lparr>arena_pos := 0\<rparr>) (set_proc dst ((procs m dst)\<lparr>node_spec := st_spec st\<rparr>) m)"
  have ne: "arena_pos ?y \<noteq> 0" using big by auto
  have okx: "arena_ok (arenas ?m2 ?a)" using ok by (simp add: arena_ok_def)
  have "size_ok (arena_pos ?y)"
    using st by (auto simp: stencil_ok_def owned_def capacity_ok_def size_ok_def)
  moreover have "\<not> alloc_fits (arenas ?m2 ?a) (arena_pos ?y) 1"
    using big by (simp add: alloc_fits_def word_less_nat_alt)
  ultimately have "arna_alloc commit ?a (arena_pos ?y) 1 False ?m2 = (Inr (Inl Out_Of_Memory), ?m2)"
    by (simp add: arna_alloc_eq [OF okx align_ok_1])
  moreover have "arena_ptr ?x \<noteq> 0" "unat (arena_pos ?y) \<noteq> 0" using ok ne by (auto simp: arena_ok_def unat_eq_0)
  ultimately show ?thesis
    by (simp add: Proc_mount_stencil_def Stencil_raw_ok [OF st ne] liftM_apply bac_mount_stencil_def
        get_arena_def put_arena_def arna_clone_def arna_smake_def copy_nonoverlapping_def Slice_default_def
        proc_arena_def)
qed

end
