(* ===== verification/Codegen.thy ===== *)
theory Codegen
  imports Builder_Laws Stencil
begin

text \<open>
  The rest of \<^verbatim>\<open>lib.rs\<close>: targets and calling conventions, the context of a compilation, and the
  generator of parameters. A setter changes one field of the context; \<^verbatim>\<open>compile\<close> hands the context to the
  library and returns the buffers it filled.
\<close>

section \<open>Targets\<close>

text \<open>A \<^verbatim>\<open>&'static NodeSpec\<close> or \<^verbatim>\<open>&'static CallConv\<close> is the address of a static of the library.\<close>

definition NodeSpec_as_ptr :: "u64 \<Rightarrow> u64" where
  "NodeSpec_as_ptr self = self"

definition CallConv_as_ptr :: "u64 \<Rightarrow> u64" where
  "CallConv_as_ptr self = self"

definition ssa_spec :: "backend \<Rightarrow> u64" where
  "ssa_spec bac = bac_static bac ''bac_ssa_SPEC''"

definition anal_spec :: "backend \<Rightarrow> u64" where
  "anal_spec bac = bac_static bac ''bac_anal_SPEC''"

definition amd64_spec :: "backend \<Rightarrow> u64" where
  "amd64_spec bac = bac_static bac ''bac_amd64_SPEC''"

definition arm_spec :: "backend \<Rightarrow> u64" where
  "arm_spec bac = bac_static bac ''bac_arm_SPEC''"

definition wasm_spec :: "backend \<Rightarrow> u64" where
  "wasm_spec bac = bac_static bac ''bac_wasm_SPEC''"

text \<open>A static array as a slice: its length is the one of the declared type.\<close>

definition static_array :: "backend \<Rightarrow> string \<Rightarrow> slice_ref" where
  "static_array bac n = \<lparr>ref_ptr = bac_static bac n,
     ref_len = (case map_of extern_statics n of Some (Some len, _) \<Rightarrow> of_nat len | _ \<Rightarrow> 0)\<rparr>"

definition CallConv_from_raw_slice :: "slice_ref \<Rightarrow> slice_ref" where
  "CallConv_from_raw_slice raw = raw"

definition amd64_call_conventions :: "backend \<Rightarrow> slice_ref" where
  "amd64_call_conventions bac = CallConv_from_raw_slice (static_array bac ''bac_amd64_CC_TABLE'')"

definition arm_call_conventions :: "backend \<Rightarrow> slice_ref" where
  "arm_call_conventions bac = CallConv_from_raw_slice (static_array bac ''bac_arm_CC_TABLE'')"

definition wasm_call_conventions :: "backend \<Rightarrow> slice_ref" where
  "wasm_call_conventions bac = CallConv_from_raw_slice (static_array bac ''bac_wasm_CC_TABLE'')"

section \<open>Compilation\<close>

type_synonym CodegenEmitCtx = Codegen_Emit_Ctx

definition CodegenEmitCtx_new :: "u64 \<Rightarrow> u64 \<Rightarrow> CodegenEmitCtx" where
  "CodegenEmitCtx_new prc code =
     Codegen_Emit_Ctx_default\<lparr>ctx_prc := prc, ctx_buf := Codegen_Emit_Buf_default\<lparr>buf_code := code\<rparr>\<rparr>"

definition CodegenEmitCtx_set_call_conv :: "CodegenEmitCtx \<Rightarrow> u64 \<Rightarrow> CodegenEmitCtx" where
  "CodegenEmitCtx_set_call_conv self abi = self\<lparr>ctx_abi := CallConv_as_ptr abi\<rparr>"

definition CodegenEmitCtx_set_regalloc_mode :: "CodegenEmitCtx \<Rightarrow> isize \<Rightarrow> CodegenEmitCtx" where
  "CodegenEmitCtx_set_regalloc_mode self mode = self\<lparr>ctx_regalloc_mode := mode\<rparr>"

definition CodegenEmitCtx_set_params :: "CodegenEmitCtx \<Rightarrow> slice_ref \<Rightarrow> CodegenEmitCtx res" where
  "CodegenEmitCtx_set_params self specs =
     (case Slice_from specs of
        Inl e \<Rightarrow> Inl e
      | Inr s \<Rightarrow> Inr (self\<lparr>ctx_param_specs := Slice_cast s\<rparr>))"

definition CodegenEmitCtx_set_constants :: "CodegenEmitCtx \<Rightarrow> u64 \<Rightarrow> CodegenEmitCtx" where
  "CodegenEmitCtx_set_constants self arena = self\<lparr>ctx_buf := (ctx_buf self)\<lparr>buf_constants := arena\<rparr>\<rparr>"

definition CodegenEmitCtx_set_relocs :: "CodegenEmitCtx \<Rightarrow> u64 \<Rightarrow> CodegenEmitCtx" where
  "CodegenEmitCtx_set_relocs self arena = self\<lparr>ctx_buf := (ctx_buf self)\<lparr>buf_relocs := arena\<rparr>\<rparr>"

definition CodegenEmitCtx_set_slocs :: "CodegenEmitCtx \<Rightarrow> u64 \<Rightarrow> CodegenEmitCtx" where
  "CodegenEmitCtx_set_slocs self arena = self\<lparr>ctx_buf := (ctx_buf self)\<lparr>buf_slocs := arena\<rparr>\<rparr>"

definition CodegenEmitCtx_set_cfi :: "CodegenEmitCtx \<Rightarrow> u64 \<Rightarrow> CodegenEmitCtx" where
  "CodegenEmitCtx_set_cfi self arena = self\<lparr>ctx_buf := (ctx_buf self)\<lparr>buf_cfi := arena\<rparr>\<rparr>"

definition CodegenEmitCtx_set_dbg_locs :: "CodegenEmitCtx \<Rightarrow> u64 \<Rightarrow> CodegenEmitCtx" where
  "CodegenEmitCtx_set_dbg_locs self arena = self\<lparr>ctx_buf := (ctx_buf self)\<lparr>buf_dbg_locs := arena\<rparr>\<rparr>"

record CodegenOutput =
  output_code :: slice_ref
  output_constants :: slice_ref
  output_relocs :: slice_ref
  output_slocs :: slice_ref
  output_cfi :: slice_ref
  output_dbg_locs :: slice_ref

fun as_output :: "cval \<Rightarrow> Codegen_Output_Bufs res" where
  "as_output (C_output b) = Inr b"
| "as_output _ = abi_broken"

text \<open>The sizes and alignments are those of \<^verbatim>\<open>u8\<close>, \<^verbatim>\<open>Reloc\<close>, \<^verbatim>\<open>Sloc\<close>, \<^verbatim>\<open>Cfi_Op\<close> and \<^verbatim>\<open>Dbg_Location\<close>.\<close>

definition CodegenEmitCtx_compile :: "backend \<Rightarrow> CodegenEmitCtx \<Rightarrow> CodegenOutput act" where
  "CodegenEmitCtx_compile bac self =
     bindM (call bac ''bac_compile'' [C_emit_ctx self] as_output) (\<lambda>raw.
     bindM (liftM (Slice_as_slice 1 1 (out_code raw))) (\<lambda>code.
     bindM (liftM (Slice_as_slice 1 1 (out_constants raw))) (\<lambda>constants.
     bindM (liftM (Slice_as_slice 8 4 (out_relocs raw))) (\<lambda>relocs.
     bindM (liftM (Slice_as_slice 8 4 (out_slocs raw))) (\<lambda>slocs.
     bindM (liftM (Slice_as_slice 12 4 (out_cfi raw))) (\<lambda>cfi.
     bindM (liftM (Slice_as_slice 48 8 (out_dbg_locs raw))) (\<lambda>dbg_locs.
     ret \<lparr>output_code = code, output_constants = constants, output_relocs = relocs, output_slocs = slocs,
          output_cfi = cfi, output_dbg_locs = dbg_locs\<rparr>)))))))"

section \<open>Parameters\<close>

fun out_gen_mem :: "cval list \<Rightarrow> (ssa_Param_Gen \<times> u32) res" where
  "out_gen_mem [C_param_gen g, C_u32 mem] = Inr (g, mem)"
| "out_gen_mem _ = abi_broken"

fun out_gen :: "cval list \<Rightarrow> ssa_Param_Gen res" where
  "out_gen [C_param_gen g] = Inr g"
| "out_gen _ = abi_broken"

text \<open>The generator that \<^verbatim>\<open>&mut\<close> leaves, the new memory and the parameter.\<close>

definition Proc_arg_gen_next :: "backend \<Rightarrow> u64 \<Rightarrow> u32 \<Rightarrow> ssa_Param_Gen \<Rightarrow> slice_ref \<Rightarrow> ssa_Abi_Param \<Rightarrow>
    (ssa_Param_Gen \<times> u32 \<times> u32) act" where
  "Proc_arg_gen_next bac self mem generator name abi =
     bindM (into_string name) (\<lambda>name.
     bindM (call_refs bac ''bac_arg_gen_next''
              [Proc_ptr self, C_u32 mem, C_ref (C_param_gen generator), name, C_abi_param abi, C_ref (C_u32 0)]
              out_gen_mem as_u32) (\<lambda>((generator, out_mem), v).
     ret (generator, out_mem, v)))"

definition Proc_arg_gen_finalize :: "backend \<Rightarrow> u64 \<Rightarrow> ssa_Param_Gen \<Rightarrow> (ssa_Param_Gen \<times> slice_ref) act" where
  "Proc_arg_gen_finalize bac self generator =
     bindM (call_refs bac ''bac_arg_gen_finalize'' [Proc_ptr self, C_ref (C_param_gen generator)]
              out_gen (as_slice_of (T_struct ''Param_Spec''))) (\<lambda>(generator, specs).
     bindM (liftM (Slice_as_mut_slice 8 4 (Slice_cast specs))) (\<lambda>specs.
     ret (generator, specs)))"

record ParamGen =
  gen_proc :: u64
  gen_raw :: ssa_Param_Gen

definition Builder_param_gen :: "u64 \<Rightarrow> ParamGen" where
  "Builder_param_gen self = \<lparr>gen_proc = self, gen_raw = ssa_Param_Gen_default\<rparr>"

definition ParamGen_next :: "backend \<Rightarrow> ParamGen \<Rightarrow> u64 \<Rightarrow> slice_ref \<Rightarrow> ssa_Abi_Param \<Rightarrow>
    (ParamGen \<times> u64 \<times> u64) act" where
  "ParamGen_next bac self mem name abi =
     bindM (Proc_check bac (gen_proc self) mem) (\<lambda>id'.
     bindM (Proc_arg_gen_next bac (gen_proc self) id' (gen_raw self) name abi) (\<lambda>(raw, result0, result1).
     bindM (Proc_get_node bac (gen_proc self) result0) (\<lambda>mem.
     bindM (Proc_get_node bac (gen_proc self) result1) (\<lambda>result.
     ret (self\<lparr>gen_raw := raw\<rparr>, mem, result)))))"

definition ParamGen_finalize :: "backend \<Rightarrow> ParamGen \<Rightarrow> slice_ref act" where
  "ParamGen_finalize bac self =
     bindM (Proc_arg_gen_finalize bac (gen_proc self) (gen_raw self)) (\<lambda>(_, specs). ret specs)"

section \<open>Settings\<close>

text \<open>Any sequence of settings, and what it should amount to: for each field the last one that concerns it.\<close>

datatype setting = Set_call_conv u64 | Set_regalloc_mode isize | Set_params slice_ref
  | Set_constants u64 | Set_relocs u64 | Set_slocs u64 | Set_cfi u64 | Set_dbg_locs u64

primrec apply_setting :: "CodegenEmitCtx \<Rightarrow> setting \<Rightarrow> CodegenEmitCtx res" where
  "apply_setting self (Set_call_conv abi) = Inr (CodegenEmitCtx_set_call_conv self abi)"
| "apply_setting self (Set_regalloc_mode mode) = Inr (CodegenEmitCtx_set_regalloc_mode self mode)"
| "apply_setting self (Set_params specs) = CodegenEmitCtx_set_params self specs"
| "apply_setting self (Set_constants a) = Inr (CodegenEmitCtx_set_constants self a)"
| "apply_setting self (Set_relocs a) = Inr (CodegenEmitCtx_set_relocs self a)"
| "apply_setting self (Set_slocs a) = Inr (CodegenEmitCtx_set_slocs self a)"
| "apply_setting self (Set_cfi a) = Inr (CodegenEmitCtx_set_cfi self a)"
| "apply_setting self (Set_dbg_locs a) = Inr (CodegenEmitCtx_set_dbg_locs self a)"

primrec apply_settings :: "CodegenEmitCtx \<Rightarrow> setting list \<Rightarrow> CodegenEmitCtx res" where
  "apply_settings self [] = Inr self"
| "apply_settings self (s # ss) =
     (case apply_setting self s of Inl e \<Rightarrow> Inl e | Inr self \<Rightarrow> apply_settings self ss)"

primrec latest :: "(setting \<Rightarrow> 'a option) \<Rightarrow> 'a \<Rightarrow> setting list \<Rightarrow> 'a" where
  "latest f d [] = d"
| "latest f d (s # ss) = latest f (case f s of None \<Rightarrow> d | Some x \<Rightarrow> x) ss"

definition settings_ctx :: "CodegenEmitCtx \<Rightarrow> setting list \<Rightarrow> CodegenEmitCtx" where
  "settings_ctx c ss = c\<lparr>
     ctx_abi := latest (\<lambda>s. case s of Set_call_conv x \<Rightarrow> Some x | _ \<Rightarrow> None) (ctx_abi c) ss,
     ctx_regalloc_mode := latest (\<lambda>s. case s of Set_regalloc_mode x \<Rightarrow> Some x | _ \<Rightarrow> None) (ctx_regalloc_mode c) ss,
     ctx_param_specs := latest (\<lambda>s. case s of Set_params x \<Rightarrow> Some \<lparr>slice_data = ref_ptr x, slice_len = ref_len x\<rparr>
       | _ \<Rightarrow> None) (ctx_param_specs c) ss,
     ctx_buf := \<lparr>buf_code = buf_code (ctx_buf c),
       buf_constants = latest (\<lambda>s. case s of Set_constants x \<Rightarrow> Some x | _ \<Rightarrow> None) (buf_constants (ctx_buf c)) ss,
       buf_relocs = latest (\<lambda>s. case s of Set_relocs x \<Rightarrow> Some x | _ \<Rightarrow> None) (buf_relocs (ctx_buf c)) ss,
       buf_slocs = latest (\<lambda>s. case s of Set_slocs x \<Rightarrow> Some x | _ \<Rightarrow> None) (buf_slocs (ctx_buf c)) ss,
       buf_cfi = latest (\<lambda>s. case s of Set_cfi x \<Rightarrow> Some x | _ \<Rightarrow> None) (buf_cfi (ctx_buf c)) ss,
       buf_dbg_locs = latest (\<lambda>s. case s of Set_dbg_locs x \<Rightarrow> Some x | _ \<Rightarrow> None) (buf_dbg_locs (ctx_buf c)) ss\<rparr>\<rparr>"

lemmas setter_defs = CodegenEmitCtx_set_call_conv_def CodegenEmitCtx_set_regalloc_mode_def
  CodegenEmitCtx_set_params_def CodegenEmitCtx_set_constants_def CodegenEmitCtx_set_relocs_def
  CodegenEmitCtx_set_slocs_def CodegenEmitCtx_set_cfi_def CodegenEmitCtx_set_dbg_locs_def CallConv_as_ptr_def

lemma Slice_from_ok: "unat (ref_len r) \<le> isize_max \<Longrightarrow> Slice_from r = Inr \<lparr>slice_data = ref_ptr r, slice_len = ref_len r\<rparr>"
  using isize_try_from_iff [of "ref_len r" "ref_len r"] by (simp add: Slice_from_def)

definition params_ok :: "setting \<Rightarrow> bool" where
  "params_ok s = (case s of Set_params r \<Rightarrow> unat (ref_len r) \<le> isize_max | _ \<Rightarrow> True)"

lemma settings_step:
  assumes "params_ok s"
  shows "\<exists>c'. apply_setting c s = Inr c' \<and> settings_ctx c' ss = settings_ctx c (s # ss)"
  using assms by (cases s) (simp_all add: settings_ctx_def setter_defs params_ok_def Slice_from_ok Slice_cast_def)

lemma apply_settings_eq: "list_all params_ok ss \<Longrightarrow> apply_settings c ss = Inr (settings_ctx c ss)"
proof (induction ss arbitrary: c)
  case Nil
  then show ?case by (simp add: settings_ctx_def)
next
  case (Cons s ss)
  then show ?case using settings_step [of s c ss] by auto
qed

section \<open>Properties\<close>

text \<open>
  C35: after any sequence of settings, the library is asked to compile with exactly what was set: each
  field has the value of the last setting that concerns it, the code arena and the proc are those
  given at the start, and every other field is zero. The output has the buffers the library returned.
\<close>

theorem compile_gets_latest_settings:
  assumes "list_all params_ok ss"
  shows "apply_settings (CodegenEmitCtx_new prc code) ss = Inr (settings_ctx (CodegenEmitCtx_new prc code) ss) \<and>
    (\<forall>m raw outs m' o'. bac_fn bac ''bac_compile'' [C_emit_ctx (settings_ctx (CodegenEmitCtx_new prc code) ss)] m =
        (Inr (C_output raw, outs), m') \<and>
      map (\<lambda>(sz, al, s). Slice_as_slice sz al s) [(1, 1, out_code raw), (1, 1, out_constants raw), (8, 4, out_relocs raw),
        (8, 4, out_slocs raw), (12, 4, out_cfi raw), (48, 8, out_dbg_locs raw)] =
      map Inr [output_code o', output_constants o', output_relocs o', output_slocs o', output_cfi o', output_dbg_locs o'] \<longrightarrow>
      CodegenEmitCtx_compile bac (settings_ctx (CodegenEmitCtx_new prc code) ss) m = (Inr o', m'))"
  using apply_settings_eq [OF assms]
  by (auto simp: CodegenEmitCtx_compile_def call_def bindM_apply liftM_apply ret_apply)

theorem compile_gets_latest_settings_witness:
  "apply_settings (CodegenEmitCtx_new 0x10 0x20) [Set_relocs 0x30, Set_regalloc_mode 1, Set_relocs 0x40] =
     Inr (Codegen_Emit_Ctx_default\<lparr>ctx_prc := 0x10, ctx_regalloc_mode := 1,
       ctx_buf := Codegen_Emit_Buf_default\<lparr>buf_code := 0x20, buf_relocs := 0x40\<rparr>\<rparr>)"
proof -
  have "list_all params_ok [Set_relocs 0x30, Set_regalloc_mode 1, Set_relocs 0x40]" by (simp add: params_ok_def)
  from compile_gets_latest_settings [OF this, of "0x10" "0x20" sample_backend] show ?thesis
    by (simp add: settings_ctx_def CodegenEmitCtx_new_def Codegen_Emit_Ctx_default_def Codegen_Emit_Buf_default_def)
qed

text \<open>
  the generator of parameters refuses a dead or foreign memory node without touching anything;
  otherwise it passes the id of the memory, the state it keeps and the description on, and gives back
  the nodes of the two ids that the library answers with, keeping the state the library left.
\<close>

lemma ParamGen_next_correct:
  "(\<forall>e. Proc_check bac (gen_proc self) mem m = (Inl e, m) \<longrightarrow> ParamGen_next bac self mem name abi m = (Inl e, m)) \<and>
   (\<forall>g mem' v m'. live_node bac m (gen_proc self) mem \<and> unat (ref_len name) \<le> isize_max \<and>
      proc_ok bac m' (gen_proc self) \<and> id_ok m' (gen_proc self) mem' \<and> id_ok m' (gen_proc self) v \<and>
      bac_fn bac ''bac_arg_gen_next''
        [Proc_ptr (gen_proc self), C_u32 (ref_id bac m (gen_proc self) mem), C_ref (C_param_gen (gen_raw self)),
         C_string \<lparr>string_data = ref_ptr name, string_len = ref_len name\<rparr>, C_abi_param abi, C_ref (C_u32 0)] m =
        (Inr (C_u32 v, [C_param_gen g, C_u32 mem']), m') \<longrightarrow>
      ParamGen_next bac self mem name abi m =
        (Inr (self\<lparr>gen_raw := g\<rparr>, node_ref bac m' (gen_proc self) mem', node_ref bac m' (gen_proc self) v), m') \<and>
      node_in bac m' (gen_proc self) (node_ref bac m' (gen_proc self) mem') \<and>
      node_in bac m' (gen_proc self) (node_ref bac m' (gen_proc self) v))"
proof (intro conjI allI impI; (elim conjE)?)
  fix e assume "Proc_check bac (gen_proc self) mem m = (Inl e, m)"
  then show "ParamGen_next bac self mem name abi m = (Inl e, m)" by (simp add: ParamGen_next_def)
next
  fix g mem' v m'
  assume live: "live_node bac m (gen_proc self) mem" and name: "unat (ref_len name) \<le> isize_max"
    and ok: "proc_ok bac m' (gen_proc self)" "id_ok m' (gen_proc self) mem'" "id_ok m' (gen_proc self) v"
    and fn: "bac_fn bac ''bac_arg_gen_next''
        [Proc_ptr (gen_proc self), C_u32 (ref_id bac m (gen_proc self) mem), C_ref (C_param_gen (gen_raw self)),
         C_string \<lparr>string_data = ref_ptr name, string_len = ref_len name\<rparr>, C_abi_param abi, C_ref (C_u32 0)] m =
        (Inr (C_u32 v, [C_param_gen g, C_u32 mem']), m')"
  have "Proc_arg_gen_next bac (gen_proc self) (ref_id bac m (gen_proc self) mem) (gen_raw self) name abi m =
    (Inr (g, mem', v), m')"
    using fn by (simp add: Proc_arg_gen_next_def into_string_ok [OF name] call_refs_def ret_apply)
  then show "ParamGen_next bac self mem name abi m =
      (Inr (self\<lparr>gen_raw := g\<rparr>, node_ref bac m' (gen_proc self) mem', node_ref bac m' (gen_proc self) v), m')"
    using Proc_get_node_ok [OF proc_okD(1) [OF ok(1)]] ok(2,3) check_live [OF live]
    by (simp add: ParamGen_next_def Proc_check_eq ret_apply)
  show "node_in bac m' (gen_proc self) (node_ref bac m' (gen_proc self) mem')"
    "node_in bac m' (gen_proc self) (node_ref bac m' (gen_proc self) v)"
    using node_ref_facts(1) [OF ok(1)] ok(2,3) by auto
qed

lemma ParamGen_next_correct_witness:
  "ParamGen_next sample_backend (Builder_param_gen 0) 0x500 (empty_ref 1)
      \<lparr>abi_dt = \<lparr>fca_data = [None, None], fca_len = 0\<rparr>, abi_size = 0, abi_real_size = 0, abi_spilled = False,
       abi_scalar = False, abi_copied = False\<rparr> sample_graph =
     (Inl (Panic ''node does not belong to this proc's arena''), sample_graph)"
proof -
  have "Proc_check sample_backend (gen_proc (Builder_param_gen 0)) 0x500 sample_graph =
      (Inl (Panic ''node does not belong to this proc's arena''), sample_graph)"
    by (simp add: Builder_param_gen_def Proc_check_eq check_res_def belongs_def)
  then show ?thesis using ParamGen_next_correct [of sample_backend "Builder_param_gen 0" "0x500" sample_graph] by blast
qed

lemma hand_calls_declared:
  "map_of extern_sigs ''bac_start_proc'' =
     Some ([T_ptr (T_struct ''Proc''), T_ptr (T_struct ''arna_Allocator''), T_ptr (T_struct ''arna_Temps'')], T_u32)"
  "map_of extern_sigs ''bac_apply_peeps'' = Some ([T_struct ''Peep_Ctx''], T_bool)"
  "map_of extern_sigs ''bac_opt'' = Some ([T_struct ''Peep_Ctx''], T_unit)"
  "map_of extern_sigs ''bac_compact'' = Some ([T_ptr (T_struct ''Proc'')], T_unit)"
  "map_of extern_sigs ''bac_inline_stencil'' = Some ([T_ptr (T_struct ''Proc''), T_u32, T_struct ''Stencil''], T_unit)"
  "map_of extern_sigs ''bac_inline_graph'' = Some ([T_ptr (T_struct ''Proc''), T_u32, T_ptr (T_struct ''Proc'')], T_unit)"
  "map_of extern_sigs ''bac_compile'' = Some ([T_struct ''Codegen_Emit_Ctx''], T_struct ''Codegen_Output'')"
  "map_of extern_sigs ''bac_arg_gen_next'' = Some ([T_ptr (T_struct ''Proc''), T_u32, T_ptr (T_struct ''ssa_Param_Gen''),
     T_struct ''String'', T_struct ''ssa_Abi_Param'', T_ptr T_u32], T_u32)"
  "map_of extern_sigs ''bac_arg_gen_finalize'' = Some ([T_ptr (T_struct ''Proc''), T_ptr (T_struct ''ssa_Param_Gen'')],
     T_slice (T_struct ''Param_Spec''))"
  by code_simp+

lemma into_string_tag: "into_string s m = (Inr v, m') \<Longrightarrow> tag_of v = T_struct ''String''"
  by (auto simp: into_string_def elim!: bindM_eq_InrE)

lemma typed_arg_gen_next: "Proc_arg_gen_next (typed_backend extern_sigs bac) self mem g name abi = Proc_arg_gen_next bac self mem g name abi"
  unfolding Proc_arg_gen_next_def
  by (rule bindM_cong_reached) (simp add: into_string_tag well_typed_call_def hand_calls_declared Proc_ptr_def)

text \<open>
  the calls that \<^verbatim>\<open>lib.rs\<close> makes by hand are well typed too: starting, optimising, compacting and
  compiling a proc, inlining, and the generator of parameters.
\<close>

lemma hand_written_calls_well_typed:
  "Proc_new (typed_backend extern_sigs bac) self arena temps = Proc_new bac self arena temps \<and>
   Proc_apply_peeps (typed_backend extern_sigs bac) self hints = Proc_apply_peeps bac self hints \<and>
   Proc_opt (typed_backend extern_sigs bac) self hints = Proc_opt bac self hints \<and>
   Proc_compact (typed_backend extern_sigs bac) self = Proc_compact bac self \<and>
   Builder_inline_stencil (typed_backend extern_sigs bac) self node stencil = Builder_inline_stencil bac self node stencil \<and>
   Builder_inline_graph (typed_backend extern_sigs bac) self node from' = Builder_inline_graph bac self node from' \<and>
   CodegenEmitCtx_compile (typed_backend extern_sigs bac) ctx = CodegenEmitCtx_compile bac ctx \<and>
   ParamGen_next (typed_backend extern_sigs bac) gen mem name abi = ParamGen_next bac gen mem name abi \<and>
   ParamGen_finalize (typed_backend extern_sigs bac) gen = ParamGen_finalize bac gen"
  by (simp add: Proc_new_def Proc_apply_peeps_def Proc_opt_def Proc_compact_def Builder_inline_stencil_def
      Proc_inline_stencil_def Builder_inline_graph_def Proc_inline_graph_def CodegenEmitCtx_compile_def
      ParamGen_next_def ParamGen_finalize_def Proc_arg_gen_finalize_def typed_arg_gen_next Builder_check_def
      well_typed_call_def hand_calls_declared Proc_ptr_def)

end
