(* ===== verification/Enums.thy ===== *)
theory Enums
  imports Proc
begin

text \<open>
  Enumerations, in three places: the Odin declarations, the constants that \<^verbatim>\<open>sys.rs\<close> gives their members,
  and the newtypes of \<^verbatim>\<open>generated.rs\<close> with the constants of the safe interface. A wrong number here
  would make the crate build other nodes than it was asked for; the theorems say that the three agree.
\<close>

section \<open>Odin enumerations\<close>

text \<open>A member is one more than the one before it, or has the number of a node type.\<close>

datatype enum_member = Next string | Node string string

primrec member_name :: "enum_member \<Rightarrow> string" where
  "member_name (Next n) = n"
| "member_name (Node n m) = n"

primrec enum_values :: "(string \<times> int) list \<Rightarrow> int \<Rightarrow> enum_member list \<Rightarrow> (string \<times> int) list" where
  "enum_values nodes k [] = []"
| "enum_values nodes k (e # es) =
     (case e of
        Next n \<Rightarrow> (n, k) # enum_values nodes (k + 1) es
      | Node n m \<Rightarrow>
          (let v = (case map_of nodes m of None \<Rightarrow> 0 | Some v \<Rightarrow> v) in (n, v) # enum_values nodes (v + 1) es))"

section \<open>Declarations\<close>

definition odin_ssa_Node_Type :: "enum_member list" where
  "odin_ssa_Node_Type =
     [Next ''Nil'', Next ''Entry'', Next ''Then'', Next ''Else'', Next ''Region'', Next ''Loop'',
      Next ''Call_End'', Next ''End'', Next ''Dbg_Sym_Decl'', Next ''Dbg_Sym_Update'',
      Next ''Dbg_Scope'', Next ''If'', Next ''Jump'', Next ''Trap'', Next ''Call'',
      Next ''Always'', Next ''Return'', Next ''Poison'', Next ''Mem'', Next ''Split_Mem'',
      Next ''Merge_Mem'', Next ''Sym'', Next ''Local'', Next ''Global'', Next ''Param'',
      Next ''Ret'', Next ''Phi'', Next ''CInt'', Next ''Add'', Next ''Sub'', Next ''And'',
      Next ''Or'', Next ''Xor'', Next ''Eq'', Next ''Ne'', Next ''Le'', Next ''Lt'', Next ''Gt'',
      Next ''Ge'', Next ''U_Lt'', Next ''U_Gt'', Next ''U_Le'', Next ''U_Ge'', Next ''Shl'',
      Next ''Shr'', Next ''U_Shr'', Next ''Mul'', Next ''Div'', Next ''U_Div'', Next ''Rem'',
      Next ''U_Rem'', Next ''And_Not'', Next ''Split'', Next ''Local_Addr'', Next ''Global_Addr'',
      Next ''Proc_Addr'', Next ''Copy'', Next ''Set'', Next ''Store'', Next ''Load'', Next ''Neg'',
      Next ''Not'', Next ''Cast'', Next ''Conv'', Next ''U_Conv'', Next ''Splat'', Next ''Ctz'',
      Next ''Simd_Extract_Lsbs'', Next ''Simd_Extract_Msbs'', Next ''Simd_Reduce_Add_Bisect'',
      Next ''Select'', Next ''Thread_Id'', Next ''Lane_Id'', Next ''Uniform_Addr'', Next ''Scope'',
      Next ''Lazy_Phi'']"

definition ssa_Node_Type_consts :: "(string \<times> int) list" where
  "ssa_Node_Type_consts =
     [(''ssa_Node_Type_Nil'', 0), (''ssa_Node_Type_Entry'', 1), (''ssa_Node_Type_Then'', 2),
      (''ssa_Node_Type_Else'', 3), (''ssa_Node_Type_Region'', 4), (''ssa_Node_Type_Loop'', 5),
      (''ssa_Node_Type_Call_End'', 6), (''ssa_Node_Type_End'', 7),
      (''ssa_Node_Type_Dbg_Sym_Decl'', 8), (''ssa_Node_Type_Dbg_Sym_Update'', 9),
      (''ssa_Node_Type_Dbg_Scope'', 10), (''ssa_Node_Type_If'', 11), (''ssa_Node_Type_Jump'', 12),
      (''ssa_Node_Type_Trap'', 13), (''ssa_Node_Type_Call'', 14), (''ssa_Node_Type_Always'', 15),
      (''ssa_Node_Type_Return'', 16), (''ssa_Node_Type_Poison'', 17), (''ssa_Node_Type_Mem'', 18),
      (''ssa_Node_Type_Split_Mem'', 19), (''ssa_Node_Type_Merge_Mem'', 20),
      (''ssa_Node_Type_Sym'', 21), (''ssa_Node_Type_Local'', 22), (''ssa_Node_Type_Global'', 23),
      (''ssa_Node_Type_Param'', 24), (''ssa_Node_Type_Ret'', 25), (''ssa_Node_Type_Phi'', 26),
      (''ssa_Node_Type_CInt'', 27), (''ssa_Node_Type_Add'', 28), (''ssa_Node_Type_Sub'', 29),
      (''ssa_Node_Type_And'', 30), (''ssa_Node_Type_Or'', 31), (''ssa_Node_Type_Xor'', 32),
      (''ssa_Node_Type_Eq'', 33), (''ssa_Node_Type_Ne'', 34), (''ssa_Node_Type_Le'', 35),
      (''ssa_Node_Type_Lt'', 36), (''ssa_Node_Type_Gt'', 37), (''ssa_Node_Type_Ge'', 38),
      (''ssa_Node_Type_U_Lt'', 39), (''ssa_Node_Type_U_Gt'', 40), (''ssa_Node_Type_U_Le'', 41),
      (''ssa_Node_Type_U_Ge'', 42), (''ssa_Node_Type_Shl'', 43), (''ssa_Node_Type_Shr'', 44),
      (''ssa_Node_Type_U_Shr'', 45), (''ssa_Node_Type_Mul'', 46), (''ssa_Node_Type_Div'', 47),
      (''ssa_Node_Type_U_Div'', 48), (''ssa_Node_Type_Rem'', 49), (''ssa_Node_Type_U_Rem'', 50),
      (''ssa_Node_Type_And_Not'', 51), (''ssa_Node_Type_Split'', 52),
      (''ssa_Node_Type_Local_Addr'', 53), (''ssa_Node_Type_Global_Addr'', 54),
      (''ssa_Node_Type_Proc_Addr'', 55), (''ssa_Node_Type_Copy'', 56), (''ssa_Node_Type_Set'', 57),
      (''ssa_Node_Type_Store'', 58), (''ssa_Node_Type_Load'', 59), (''ssa_Node_Type_Neg'', 60),
      (''ssa_Node_Type_Not'', 61), (''ssa_Node_Type_Cast'', 62), (''ssa_Node_Type_Conv'', 63),
      (''ssa_Node_Type_U_Conv'', 64), (''ssa_Node_Type_Splat'', 65), (''ssa_Node_Type_Ctz'', 66),
      (''ssa_Node_Type_Simd_Extract_Lsbs'', 67), (''ssa_Node_Type_Simd_Extract_Msbs'', 68),
      (''ssa_Node_Type_Simd_Reduce_Add_Bisect'', 69), (''ssa_Node_Type_Select'', 70),
      (''ssa_Node_Type_Thread_Id'', 71), (''ssa_Node_Type_Lane_Id'', 72),
      (''ssa_Node_Type_Uniform_Addr'', 73), (''ssa_Node_Type_Scope'', 74),
      (''ssa_Node_Type_Lazy_Phi'', 75)]"

definition NodeType_consts :: "(string \<times> string) list" where
  "NodeType_consts =
     [(''Nil'', ''ssa_Node_Type_Nil''), (''Entry'', ''ssa_Node_Type_Entry''),
      (''Then'', ''ssa_Node_Type_Then''), (''Else'', ''ssa_Node_Type_Else''),
      (''Region'', ''ssa_Node_Type_Region''), (''Loop'', ''ssa_Node_Type_Loop''),
      (''Call_End'', ''ssa_Node_Type_Call_End''), (''End'', ''ssa_Node_Type_End''),
      (''Dbg_Sym_Decl'', ''ssa_Node_Type_Dbg_Sym_Decl''),
      (''Dbg_Sym_Update'', ''ssa_Node_Type_Dbg_Sym_Update''),
      (''Dbg_Scope'', ''ssa_Node_Type_Dbg_Scope''), (''If'', ''ssa_Node_Type_If''),
      (''Jump'', ''ssa_Node_Type_Jump''), (''Trap'', ''ssa_Node_Type_Trap''),
      (''Call'', ''ssa_Node_Type_Call''), (''Always'', ''ssa_Node_Type_Always''),
      (''Return'', ''ssa_Node_Type_Return''), (''Poison'', ''ssa_Node_Type_Poison''),
      (''Mem'', ''ssa_Node_Type_Mem''), (''Split_Mem'', ''ssa_Node_Type_Split_Mem''),
      (''Merge_Mem'', ''ssa_Node_Type_Merge_Mem''), (''Sym'', ''ssa_Node_Type_Sym''),
      (''Local'', ''ssa_Node_Type_Local''), (''Global'', ''ssa_Node_Type_Global''),
      (''Param'', ''ssa_Node_Type_Param''), (''Ret'', ''ssa_Node_Type_Ret''),
      (''Phi'', ''ssa_Node_Type_Phi''), (''CInt'', ''ssa_Node_Type_CInt''),
      (''Add'', ''ssa_Node_Type_Add''), (''Sub'', ''ssa_Node_Type_Sub''),
      (''And'', ''ssa_Node_Type_And''), (''Or'', ''ssa_Node_Type_Or''),
      (''Xor'', ''ssa_Node_Type_Xor''), (''Eq'', ''ssa_Node_Type_Eq''),
      (''Ne'', ''ssa_Node_Type_Ne''), (''Le'', ''ssa_Node_Type_Le''),
      (''Lt'', ''ssa_Node_Type_Lt''), (''Gt'', ''ssa_Node_Type_Gt''),
      (''Ge'', ''ssa_Node_Type_Ge''), (''U_Lt'', ''ssa_Node_Type_U_Lt''),
      (''U_Gt'', ''ssa_Node_Type_U_Gt''), (''U_Le'', ''ssa_Node_Type_U_Le''),
      (''U_Ge'', ''ssa_Node_Type_U_Ge''), (''Shl'', ''ssa_Node_Type_Shl''),
      (''Shr'', ''ssa_Node_Type_Shr''), (''U_Shr'', ''ssa_Node_Type_U_Shr''),
      (''Mul'', ''ssa_Node_Type_Mul''), (''Div'', ''ssa_Node_Type_Div''),
      (''U_Div'', ''ssa_Node_Type_U_Div''), (''Rem'', ''ssa_Node_Type_Rem''),
      (''U_Rem'', ''ssa_Node_Type_U_Rem''), (''And_Not'', ''ssa_Node_Type_And_Not''),
      (''Split'', ''ssa_Node_Type_Split''), (''Local_Addr'', ''ssa_Node_Type_Local_Addr''),
      (''Global_Addr'', ''ssa_Node_Type_Global_Addr''),
      (''Proc_Addr'', ''ssa_Node_Type_Proc_Addr''), (''Copy'', ''ssa_Node_Type_Copy''),
      (''Set'', ''ssa_Node_Type_Set''), (''Store'', ''ssa_Node_Type_Store''),
      (''Load'', ''ssa_Node_Type_Load''), (''Neg'', ''ssa_Node_Type_Neg''),
      (''Not'', ''ssa_Node_Type_Not''), (''Cast'', ''ssa_Node_Type_Cast''),
      (''Conv'', ''ssa_Node_Type_Conv''), (''U_Conv'', ''ssa_Node_Type_U_Conv''),
      (''Splat'', ''ssa_Node_Type_Splat''), (''Ctz'', ''ssa_Node_Type_Ctz''),
      (''Simd_Extract_Lsbs'', ''ssa_Node_Type_Simd_Extract_Lsbs''),
      (''Simd_Extract_Msbs'', ''ssa_Node_Type_Simd_Extract_Msbs''),
      (''Simd_Reduce_Add_Bisect'', ''ssa_Node_Type_Simd_Reduce_Add_Bisect''),
      (''Select'', ''ssa_Node_Type_Select''), (''Thread_Id'', ''ssa_Node_Type_Thread_Id''),
      (''Lane_Id'', ''ssa_Node_Type_Lane_Id''), (''Uniform_Addr'', ''ssa_Node_Type_Uniform_Addr''),
      (''Scope'', ''ssa_Node_Type_Scope''), (''Lazy_Phi'', ''ssa_Node_Type_Lazy_Phi'')]"

definition odin_Node_Type :: "enum_member list" where
  "odin_Node_Type =
     [Next ''Nil'', Next ''Entry'', Next ''Then'', Next ''Else'', Next ''Region'', Next ''Loop'',
      Next ''Call_End'', Next ''End'', Next ''Dbg_Sym_Decl'', Next ''Dbg_Sym_Update'',
      Next ''Dbg_Scope'', Next ''If'', Next ''Jump'', Next ''Trap'', Next ''Call'',
      Next ''Always'', Next ''Return'', Next ''Poison'', Next ''Mem'', Next ''Split_Mem'',
      Next ''Merge_Mem'', Next ''Sym'', Next ''Local'', Next ''Global'', Next ''Param'',
      Next ''Ret'', Next ''Phi'', Next ''CInt'', Next ''Add'', Next ''Sub'', Next ''And'',
      Next ''Or'', Next ''Xor'', Next ''Eq'', Next ''Ne'', Next ''Le'', Next ''Lt'', Next ''Gt'',
      Next ''Ge'', Next ''U_Lt'', Next ''U_Gt'', Next ''U_Le'', Next ''U_Ge'', Next ''Shl'',
      Next ''Shr'', Next ''U_Shr'', Next ''Mul'', Next ''Div'', Next ''U_Div'', Next ''Rem'',
      Next ''U_Rem'', Next ''And_Not'', Next ''Split'', Next ''Local_Addr'', Next ''Global_Addr'',
      Next ''Proc_Addr'', Next ''Copy'', Next ''Set'', Next ''Store'', Next ''Load'', Next ''Neg'',
      Next ''Not'', Next ''Cast'', Next ''Conv'', Next ''U_Conv'', Next ''Splat'', Next ''Ctz'',
      Next ''Simd_Extract_Lsbs'', Next ''Simd_Extract_Msbs'', Next ''Simd_Reduce_Add_Bisect'',
      Next ''Select'', Next ''Thread_Id'', Next ''Lane_Id'', Next ''Uniform_Addr'']"

definition Node_Type_consts :: "(string \<times> int) list" where
  "Node_Type_consts =
     [(''Node_Type_Nil'', 0), (''Node_Type_Entry'', 1), (''Node_Type_Then'', 2),
      (''Node_Type_Else'', 3), (''Node_Type_Region'', 4), (''Node_Type_Loop'', 5),
      (''Node_Type_Call_End'', 6), (''Node_Type_End'', 7), (''Node_Type_Dbg_Sym_Decl'', 8),
      (''Node_Type_Dbg_Sym_Update'', 9), (''Node_Type_Dbg_Scope'', 10), (''Node_Type_If'', 11),
      (''Node_Type_Jump'', 12), (''Node_Type_Trap'', 13), (''Node_Type_Call'', 14),
      (''Node_Type_Always'', 15), (''Node_Type_Return'', 16), (''Node_Type_Poison'', 17),
      (''Node_Type_Mem'', 18), (''Node_Type_Split_Mem'', 19), (''Node_Type_Merge_Mem'', 20),
      (''Node_Type_Sym'', 21), (''Node_Type_Local'', 22), (''Node_Type_Global'', 23),
      (''Node_Type_Param'', 24), (''Node_Type_Ret'', 25), (''Node_Type_Phi'', 26),
      (''Node_Type_CInt'', 27), (''Node_Type_Add'', 28), (''Node_Type_Sub'', 29),
      (''Node_Type_And'', 30), (''Node_Type_Or'', 31), (''Node_Type_Xor'', 32),
      (''Node_Type_Eq'', 33), (''Node_Type_Ne'', 34), (''Node_Type_Le'', 35),
      (''Node_Type_Lt'', 36), (''Node_Type_Gt'', 37), (''Node_Type_Ge'', 38),
      (''Node_Type_U_Lt'', 39), (''Node_Type_U_Gt'', 40), (''Node_Type_U_Le'', 41),
      (''Node_Type_U_Ge'', 42), (''Node_Type_Shl'', 43), (''Node_Type_Shr'', 44),
      (''Node_Type_U_Shr'', 45), (''Node_Type_Mul'', 46), (''Node_Type_Div'', 47),
      (''Node_Type_U_Div'', 48), (''Node_Type_Rem'', 49), (''Node_Type_U_Rem'', 50),
      (''Node_Type_And_Not'', 51), (''Node_Type_Split'', 52), (''Node_Type_Local_Addr'', 53),
      (''Node_Type_Global_Addr'', 54), (''Node_Type_Proc_Addr'', 55), (''Node_Type_Copy'', 56),
      (''Node_Type_Set'', 57), (''Node_Type_Store'', 58), (''Node_Type_Load'', 59),
      (''Node_Type_Neg'', 60), (''Node_Type_Not'', 61), (''Node_Type_Cast'', 62),
      (''Node_Type_Conv'', 63), (''Node_Type_U_Conv'', 64), (''Node_Type_Splat'', 65),
      (''Node_Type_Ctz'', 66), (''Node_Type_Simd_Extract_Lsbs'', 67),
      (''Node_Type_Simd_Extract_Msbs'', 68), (''Node_Type_Simd_Reduce_Add_Bisect'', 69),
      (''Node_Type_Select'', 70), (''Node_Type_Thread_Id'', 71), (''Node_Type_Lane_Id'', 72),
      (''Node_Type_Uniform_Addr'', 73)]"

definition odin_Node_Datatype :: "enum_member list" where
  "odin_Node_Datatype =
     [Next ''Void'', Next ''Mem'', Next ''I8'', Next ''I16'', Next ''I32'', Next ''I64'',
      Next ''F32'', Next ''F64'', Next ''V128'', Next ''V256'', Next ''V512'']"

definition Node_Datatype_consts :: "(string \<times> int) list" where
  "Node_Datatype_consts =
     [(''Node_Datatype_Void'', 0), (''Node_Datatype_Mem'', 1), (''Node_Datatype_I8'', 2),
      (''Node_Datatype_I16'', 3), (''Node_Datatype_I32'', 4), (''Node_Datatype_I64'', 5),
      (''Node_Datatype_F32'', 6), (''Node_Datatype_F64'', 7), (''Node_Datatype_V128'', 8),
      (''Node_Datatype_V256'', 9), (''Node_Datatype_V512'', 10)]"

definition Datatype_consts :: "(string \<times> string) list" where
  "Datatype_consts =
     [(''Void'', ''Node_Datatype_Void''), (''Mem'', ''Node_Datatype_Mem''),
      (''I8'', ''Node_Datatype_I8''), (''I16'', ''Node_Datatype_I16''),
      (''I32'', ''Node_Datatype_I32''), (''I64'', ''Node_Datatype_I64''),
      (''F32'', ''Node_Datatype_F32''), (''F64'', ''Node_Datatype_F64''),
      (''V128'', ''Node_Datatype_V128''), (''V256'', ''Node_Datatype_V256''),
      (''V512'', ''Node_Datatype_V512'')]"

definition odin_Bin_Op :: "enum_member list" where
  "odin_Bin_Op =
     [Node ''Add'' ''Add'', Node ''Sub'' ''Sub'', Node ''And'' ''And'', Node ''Or'' ''Or'',
      Node ''Xor'' ''Xor'', Node ''Eq'' ''Eq'', Node ''Ne'' ''Ne'', Node ''Le'' ''Le'',
      Node ''Lt'' ''Lt'', Node ''Gt'' ''Gt'', Node ''Ge'' ''Ge'', Node ''U_Lt'' ''U_Lt'',
      Node ''U_Gt'' ''U_Gt'', Node ''U_Le'' ''U_Le'', Node ''U_Ge'' ''U_Ge'', Node ''Shl'' ''Shl'',
      Node ''Shr'' ''Shr'', Node ''U_Shr'' ''U_Shr'', Node ''Mul'' ''Mul'', Node ''Div'' ''Div'',
      Node ''U_Div'' ''U_Div'', Node ''Rem'' ''Rem'', Node ''U_Rem'' ''U_Rem'',
      Node ''And_Not'' ''And_Not'']"

definition Bin_Op_consts :: "(string \<times> int) list" where
  "Bin_Op_consts =
     [(''Bin_Op_Add'', 28), (''Bin_Op_Sub'', 29), (''Bin_Op_And'', 30), (''Bin_Op_Or'', 31),
      (''Bin_Op_Xor'', 32), (''Bin_Op_Eq'', 33), (''Bin_Op_Ne'', 34), (''Bin_Op_Le'', 35),
      (''Bin_Op_Lt'', 36), (''Bin_Op_Gt'', 37), (''Bin_Op_Ge'', 38), (''Bin_Op_U_Lt'', 39),
      (''Bin_Op_U_Gt'', 40), (''Bin_Op_U_Le'', 41), (''Bin_Op_U_Ge'', 42), (''Bin_Op_Shl'', 43),
      (''Bin_Op_Shr'', 44), (''Bin_Op_U_Shr'', 45), (''Bin_Op_Mul'', 46), (''Bin_Op_Div'', 47),
      (''Bin_Op_U_Div'', 48), (''Bin_Op_Rem'', 49), (''Bin_Op_U_Rem'', 50),
      (''Bin_Op_And_Not'', 51)]"

definition BinOp_consts :: "(string \<times> string) list" where
  "BinOp_consts =
     [(''Add'', ''Bin_Op_Add''), (''Sub'', ''Bin_Op_Sub''), (''And'', ''Bin_Op_And''),
      (''Or'', ''Bin_Op_Or''), (''Xor'', ''Bin_Op_Xor''), (''Eq'', ''Bin_Op_Eq''),
      (''Ne'', ''Bin_Op_Ne''), (''Le'', ''Bin_Op_Le''), (''Lt'', ''Bin_Op_Lt''),
      (''Gt'', ''Bin_Op_Gt''), (''Ge'', ''Bin_Op_Ge''), (''U_Lt'', ''Bin_Op_U_Lt''),
      (''U_Gt'', ''Bin_Op_U_Gt''), (''U_Le'', ''Bin_Op_U_Le''), (''U_Ge'', ''Bin_Op_U_Ge''),
      (''Shl'', ''Bin_Op_Shl''), (''Shr'', ''Bin_Op_Shr''), (''U_Shr'', ''Bin_Op_U_Shr''),
      (''Mul'', ''Bin_Op_Mul''), (''Div'', ''Bin_Op_Div''), (''U_Div'', ''Bin_Op_U_Div''),
      (''Rem'', ''Bin_Op_Rem''), (''U_Rem'', ''Bin_Op_U_Rem''), (''And_Not'', ''Bin_Op_And_Not'')]"

definition odin_Un_Op :: "enum_member list" where
  "odin_Un_Op =
     [Node ''Neg'' ''Neg'', Node ''Not'' ''Not'', Node ''Cast'' ''Cast'', Node ''Conv'' ''Conv'',
      Node ''U_Conv'' ''U_Conv'', Node ''Splat'' ''Splat'', Node ''Ctz'' ''Ctz'',
      Node ''Simd_Extract_Lsbs'' ''Simd_Extract_Lsbs'',
      Node ''Simd_Extract_Msbs'' ''Simd_Extract_Msbs'',
      Node ''Simd_Reduce_Add_Bisect'' ''Simd_Reduce_Add_Bisect'']"

definition Un_Op_consts :: "(string \<times> int) list" where
  "Un_Op_consts =
     [(''Un_Op_Neg'', 60), (''Un_Op_Not'', 61), (''Un_Op_Cast'', 62), (''Un_Op_Conv'', 63),
      (''Un_Op_U_Conv'', 64), (''Un_Op_Splat'', 65), (''Un_Op_Ctz'', 66),
      (''Un_Op_Simd_Extract_Lsbs'', 67), (''Un_Op_Simd_Extract_Msbs'', 68),
      (''Un_Op_Simd_Reduce_Add_Bisect'', 69)]"

definition UnOp_consts :: "(string \<times> string) list" where
  "UnOp_consts =
     [(''Neg'', ''Un_Op_Neg''), (''Not'', ''Un_Op_Not''), (''Cast'', ''Un_Op_Cast''),
      (''Conv'', ''Un_Op_Conv''), (''U_Conv'', ''Un_Op_U_Conv''), (''Splat'', ''Un_Op_Splat''),
      (''Ctz'', ''Un_Op_Ctz''), (''Simd_Extract_Lsbs'', ''Un_Op_Simd_Extract_Lsbs''),
      (''Simd_Extract_Msbs'', ''Un_Op_Simd_Extract_Msbs''),
      (''Simd_Reduce_Add_Bisect'', ''Un_Op_Simd_Reduce_Add_Bisect'')]"

definition odin_Lane_Type :: "enum_member list" where
  "odin_Lane_Type =
     [Next ''I8'', Next ''I16'', Next ''I32'', Next ''I64'', Next ''F32'', Next ''F64'']"

definition Lane_Type_consts :: "(string \<times> int) list" where
  "Lane_Type_consts =
     [(''Lane_Type_I8'', 0), (''Lane_Type_I16'', 1), (''Lane_Type_I32'', 2),
      (''Lane_Type_I64'', 3), (''Lane_Type_F32'', 4), (''Lane_Type_F64'', 5)]"

definition Lane_consts :: "(string \<times> string) list" where
  "Lane_consts =
     [(''I8'', ''Lane_Type_I8''), (''I16'', ''Lane_Type_I16''), (''I32'', ''Lane_Type_I32''),
      (''I64'', ''Lane_Type_I64''), (''F32'', ''Lane_Type_F32''), (''F64'', ''Lane_Type_F64'')]"

definition odin_ssa_Loop_Control :: "enum_member list" where
  "odin_ssa_Loop_Control =
     [Next ''Break'', Next ''Continue'']"

definition ssa_Loop_Control_consts :: "(string \<times> int) list" where
  "ssa_Loop_Control_consts =
     [(''ssa_Loop_Control_Break'', 0), (''ssa_Loop_Control_Continue'', 1)]"

definition LoopControl_consts :: "(string \<times> string) list" where
  "LoopControl_consts =
     [(''Break'', ''ssa_Loop_Control_Break''), (''Continue'', ''ssa_Loop_Control_Continue'')]"

definition odin_Regalloc_Mode :: "enum_member list" where
  "odin_Regalloc_Mode =
     [Next ''with_scan'', Next ''with_coloring'']"

definition Regalloc_Mode_consts :: "(string \<times> int) list" where
  "Regalloc_Mode_consts =
     [(''Regalloc_Mode_with_scan'', 0), (''Regalloc_Mode_with_coloring'', 1)]"

definition RegallocMode_consts :: "(string \<times> string) list" where
  "RegallocMode_consts =
     [(''with_scan'', ''Regalloc_Mode_with_scan''),
      (''with_coloring'', ''Regalloc_Mode_with_coloring'')]"

definition odin_Schedule_Mode :: "enum_member list" where
  "odin_Schedule_Mode =
     [Next ''for_regalloc'', Next ''for_loopopt'', Next ''for_display'']"

definition Schedule_Mode_consts :: "(string \<times> int) list" where
  "Schedule_Mode_consts =
     [(''Schedule_Mode_for_regalloc'', 0), (''Schedule_Mode_for_loopopt'', 1),
      (''Schedule_Mode_for_display'', 2)]"

definition odin_Efficiency_Stat_Kind :: "enum_member list" where
  "odin_Efficiency_Stat_Kind =
     [Next ''graph_waste'', Next ''late_schedule_rounds'', Next ''ifg_rounds'',
      Next ''regalloc_rounds'', Next ''regalloc_memory_overhead'', Next ''regalloc_wasted_lrgs'',
      Next ''peephole_rounds'', Next ''splits_inserted'', Next ''pressure_splits_inserted'',
      Next ''fail_count_ratio'', Next ''kill_splits_inserted'', Next ''conflict_splits_inserted'',
      Next ''clones'', Next ''inlines'', Next ''duplicated_nodes'', Next ''deleted_nodes'',
      Next ''immediate_deletes'', Next ''redundant_peep'', Next ''sroad_locals'',
      Next ''sroa_slot_mismatch'']"

definition Efficiency_Stat_Kind_consts :: "(string \<times> int) list" where
  "Efficiency_Stat_Kind_consts =
     [(''Efficiency_Stat_Kind_graph_waste'', 0),
      (''Efficiency_Stat_Kind_late_schedule_rounds'', 1), (''Efficiency_Stat_Kind_ifg_rounds'', 2),
      (''Efficiency_Stat_Kind_regalloc_rounds'', 3),
      (''Efficiency_Stat_Kind_regalloc_memory_overhead'', 4),
      (''Efficiency_Stat_Kind_regalloc_wasted_lrgs'', 5),
      (''Efficiency_Stat_Kind_peephole_rounds'', 6), (''Efficiency_Stat_Kind_splits_inserted'', 7),
      (''Efficiency_Stat_Kind_pressure_splits_inserted'', 8),
      (''Efficiency_Stat_Kind_fail_count_ratio'', 9),
      (''Efficiency_Stat_Kind_kill_splits_inserted'', 10),
      (''Efficiency_Stat_Kind_conflict_splits_inserted'', 11),
      (''Efficiency_Stat_Kind_clones'', 12), (''Efficiency_Stat_Kind_inlines'', 13),
      (''Efficiency_Stat_Kind_duplicated_nodes'', 14),
      (''Efficiency_Stat_Kind_deleted_nodes'', 15),
      (''Efficiency_Stat_Kind_immediate_deletes'', 16),
      (''Efficiency_Stat_Kind_redundant_peep'', 17), (''Efficiency_Stat_Kind_sroad_locals'', 18),
      (''Efficiency_Stat_Kind_sroa_slot_mismatch'', 19)]"

definition odin_Cfi_Kind :: "enum_member list" where
  "odin_Cfi_Kind =
     [Next ''Def_Cfa_Offset'', Next ''Save_Reg'', Next ''Restore_Reg'', Next ''Remember_State'',
      Next ''Restore_State'']"

definition Cfi_Kind_consts :: "(string \<times> int) list" where
  "Cfi_Kind_consts =
     [(''Cfi_Kind_Def_Cfa_Offset'', 0), (''Cfi_Kind_Save_Reg'', 1), (''Cfi_Kind_Restore_Reg'', 2),
      (''Cfi_Kind_Remember_State'', 3), (''Cfi_Kind_Restore_State'', 4)]"

definition odin_Dbg_Location_Kind :: "enum_member list" where
  "odin_Dbg_Location_Kind =
     [Next ''Register'', Next ''Register_Offset'']"

definition Dbg_Location_Kind_consts :: "(string \<times> int) list" where
  "Dbg_Location_Kind_consts =
     [(''Dbg_Location_Kind_Register'', 0), (''Dbg_Location_Kind_Register_Offset'', 1)]"

definition odin_Sym_Ref_Type :: "enum_member list" where
  "odin_Sym_Ref_Type =
     [Node ''Func'' ''Call'']"

definition Sym_Ref_Type_consts :: "(string \<times> int) list" where
  "Sym_Ref_Type_consts =
     [(''Sym_Ref_Type_Func'', 14)]"

definition enum_table :: "(string \<times> nat \<times> enum_member list \<times> (string \<times> int) list) list" where
  "enum_table =
     [(''ssa_Node_Type_'', 16, odin_ssa_Node_Type, ssa_Node_Type_consts),
      (''Node_Type_'', 16, odin_Node_Type, Node_Type_consts),
      (''Node_Datatype_'', 8, odin_Node_Datatype, Node_Datatype_consts),
      (''Bin_Op_'', 16, odin_Bin_Op, Bin_Op_consts),
      (''Un_Op_'', 16, odin_Un_Op, Un_Op_consts),
      (''Lane_Type_'', 8, odin_Lane_Type, Lane_Type_consts),
      (''ssa_Loop_Control_'', 64, odin_ssa_Loop_Control, ssa_Loop_Control_consts),
      (''Regalloc_Mode_'', 64, odin_Regalloc_Mode, Regalloc_Mode_consts),
      (''Schedule_Mode_'', 64, odin_Schedule_Mode, Schedule_Mode_consts),
      (''Efficiency_Stat_Kind_'', 64, odin_Efficiency_Stat_Kind, Efficiency_Stat_Kind_consts),
      (''Cfi_Kind_'', 8, odin_Cfi_Kind, Cfi_Kind_consts),
      (''Dbg_Location_Kind_'', 8, odin_Dbg_Location_Kind, Dbg_Location_Kind_consts),
      (''Sym_Ref_Type_'', 32, odin_Sym_Ref_Type, Sym_Ref_Type_consts)]"

definition newtype_table :: "(string \<times> enum_member list \<times> (string \<times> string) list \<times> (string \<times> int) list) list" where
  "newtype_table =
     [(''ssa_Node_Type_'', odin_ssa_Node_Type, NodeType_consts, ssa_Node_Type_consts),
      (''Node_Datatype_'', odin_Node_Datatype, Datatype_consts, Node_Datatype_consts),
      (''Bin_Op_'', odin_Bin_Op, BinOp_consts, Bin_Op_consts),
      (''Un_Op_'', odin_Un_Op, UnOp_consts, Un_Op_consts),
      (''Lane_Type_'', odin_Lane_Type, Lane_consts, Lane_Type_consts),
      (''ssa_Loop_Control_'', odin_ssa_Loop_Control, LoopControl_consts, ssa_Loop_Control_consts),
      (''Regalloc_Mode_'', odin_Regalloc_Mode, RegallocMode_consts, Regalloc_Mode_consts)]"

section \<open>Agreement\<close>

definition node_types :: "(string \<times> int) list" where
  "node_types = enum_values [] 0 odin_Node_Type"

definition odin_values :: "enum_member list \<Rightarrow> (string \<times> int) list" where
  "odin_values es = enum_values node_types 0 es"

definition enum_agrees :: "string \<times> nat \<times> enum_member list \<times> (string \<times> int) list \<Rightarrow> bool" where
  "enum_agrees e = (case e of (prefix, width, members, consts) \<Rightarrow>
     consts = map (\<lambda>(n, v). (prefix @ n, v)) (odin_values members) \<and>
     list_all (\<lambda>(n, v). v < 2 ^ width) consts \<and> successively (<) (map snd consts))"

definition newtype_agrees :: "string \<times> enum_member list \<times> (string \<times> string) list \<times> (string \<times> int) list \<Rightarrow> bool" where
  "newtype_agrees e = (case e of (prefix, members, new, consts) \<Rightarrow>
     map snd new = map fst consts \<and> zip (map fst new) (map snd consts) = odin_values members)"

text \<open>The constant of a newtype, as a number.\<close>

definition newtype_value :: "(string \<times> string) list \<Rightarrow> (string \<times> int) list \<Rightarrow> string \<Rightarrow> int option" where
  "newtype_value new consts n = Option.bind (map_of new n) (map_of consts)"

lemma agrees_distinct:
  assumes "enum_agrees (prefix, width, members, consts)"
  shows "distinct (map snd consts)"
proof -
  have "successively (<) (map snd consts)" using assms unfolding enum_agrees_def by blast
  then show ?thesis by (simp only: successively_conv_sorted_wrt [OF transp_on_less] strict_sorted_iff)
qed

lemma enums_agree_each: "list_all enum_agrees enum_table"
  by code_simp

lemma newtypes_agree_each: "list_all newtype_agrees newtype_table"
  by code_simp

section \<open>Properties\<close>

text \<open>
  The constants of \<^verbatim>\<open>sys.rs\<close> are the members of the Odin enumerations, in order, with the numbers
  Odin gives them; each fits the integer it is stored in, and no two members share a number.
\<close>

lemma sys_constants_are_odin_members:
  "list_all enum_agrees enum_table \<and>
   list_all (\<lambda>(prefix, width, members, consts). distinct (map snd consts)) enum_table"
  using enums_agree_each agrees_distinct by (fastforce simp: list_all_iff)

text \<open>
  Every newtype of the safe interface has exactly the members of its Odin enumeration, each with
  Odin's number; and no node type is the mark of a deleted node.
\<close>

lemma newtypes_are_odin_members:
  "list_all newtype_agrees newtype_table \<and>
   newtype_value NodeType_consts ssa_Node_Type_consts ''Mem'' = Some (uint NodeType_Mem) \<and>
   list_all (\<lambda>(n, v). v < uint DEAD_NODE_KIND) ssa_Node_Type_consts"
  by (intro conjI newtypes_agree_each) code_simp+

end
