(* ===== verification/Compiler.thy ===== *)
theory Compiler
  imports Codegen Enums
begin

text \<open>
  The compiler of \<^verbatim>\<open>examples/compiler.rs\<close>: a client of the crate that reads a small language and builds the
  graph of a function as it reads. Tokens are strings; the state is the compiler's own fields beside
  the machine, and a panic of \<^verbatim>\<open>unwrap\<close> ends it. The recursion is bounded by fuel, and the theorems show
  that twice the number of tokens is always enough. A second set of theorems says what is built: for
  a program that is the text of a syntax tree, exactly what the tree says, in the order of the tree.
\<close>

section \<open>The compiler\<close>

record Compiler =
  comp_proc :: u64
  comp_tokens :: "string list"
  comp_scope :: u64
  comp_variables :: "(string \<times> isize) list"
  comp_loops :: "(string option \<times> LoopState) list"

type_synonym 'a comp = "(Compiler \<times> machine, 'a) prog"

definition on_machine :: "'a act \<Rightarrow> 'a comp" where
  "on_machine a = (\<lambda>(c, m). case a m of (r, m') \<Rightarrow> (r, (c, m')))"

definition get_comp :: "(Compiler \<Rightarrow> 'a) \<Rightarrow> 'a comp" where
  "get_comp f = getM (\<lambda>(c, m). f c)"

definition set_comp :: "(Compiler \<Rightarrow> Compiler) \<Rightarrow> unit comp" where
  "set_comp f = modifyM (\<lambda>(c, m). (f c, m))"

text \<open>A call of a method on \<^verbatim>\<open>self.proc.builder()\<close>.\<close>

definition with_builder :: "(u64 \<Rightarrow> 'a act) \<Rightarrow> 'a comp" where
  "with_builder f = bindM (get_comp comp_proc) (\<lambda>prc. on_machine (f (Proc_builder prc)))"

definition unwrapM :: "'a option \<Rightarrow> ('s, 'a) prog" where
  "unwrapM x = expectM x ''called `Option::unwrap()` on a `None` value''"

text \<open>\<^verbatim>\<open>tokens.next()\<close> and \<^verbatim>\<open>tokens.peek()\<close> of a \<^verbatim>\<open>Peekable\<close>.\<close>

definition tokens_next :: "string option comp" where
  "tokens_next = bindM (get_comp comp_tokens) (\<lambda>ts.
     case ts of
       [] \<Rightarrow> ret None
     | t # ts \<Rightarrow> bindM (set_comp (comp_tokens_update (\<lambda>_. ts))) (\<lambda>_. ret (Some t)))"

definition tokens_peek :: "string option comp" where
  "tokens_peek = get_comp (\<lambda>c. case comp_tokens c of [] \<Rightarrow> None | t # _ \<Rightarrow> Some t)"

definition Compiler_next :: "string comp" where
  "Compiler_next = bindM tokens_next unwrapM"

definition Compiler_find_var :: "string \<Rightarrow> isize comp" where
  "Compiler_find_var name =
     bindM (get_comp comp_variables) (\<lambda>vs. unwrapM (map_option snd (List.find (\<lambda>(n, _). n = name) vs)))"

text \<open>
  \<^verbatim>\<open>str::parse::<i64>\<close>: an optional sign, at least one digit, nothing else, and no overflow. The
  digits are added to or taken from the number as they are read.
\<close>

definition digit_value :: "char \<Rightarrow> int option" where
  "digit_value ch = (if 48 \<le> (of_char ch :: nat) \<and> (of_char ch :: nat) \<le> 57 then Some (int (of_char ch) - 48) else None)"

definition i64_ok :: "int \<Rightarrow> bool" where
  "i64_ok n \<longleftrightarrow> - (2 ^ 63) \<le> n \<and> n < 2 ^ 63"

fun parse_digits :: "bool \<Rightarrow> int \<Rightarrow> string \<Rightarrow> int option" where
  "parse_digits neg acc [] = Some acc"
| "parse_digits neg acc (ch # s) =
     (case digit_value ch of
        None \<Rightarrow> None
      | Some d \<Rightarrow>
          (let n = (if neg then acc * 10 - d else acc * 10 + d)
           in if i64_ok (acc * 10) \<and> i64_ok n then parse_digits neg n s else None))"

definition parse_i64 :: "string \<Rightarrow> int option" where
  "parse_i64 s =
     (case s of
        [] \<Rightarrow> None
      | ch # rest \<Rightarrow>
          if ch = CHR ''-'' then (if rest = [] then None else parse_digits True 0 rest)
          else if ch = CHR ''+'' then (if rest = [] then None else parse_digits False 0 rest)
          else parse_digits False 0 s)"

definition Datatype_I64 :: u8 where
  "Datatype_I64 = 5"

definition Lane_I8 :: u8 where
  "Lane_I8 = 0"

definition LoopControl_Break :: isize where
  "LoopControl_Break = 0"

definition LoopControl_Continue :: isize where
  "LoopControl_Continue = 1"

definition bin_op_of :: "string \<Rightarrow> u16 option" where
  "bin_op_of t = map_of [(''+'', 28), (''-'', 29), (''*'', 46), (''=='', 33), (''<'', 36)] t"

text \<open>These are the constants of \<^verbatim>\<open>generated.rs\<close>.\<close>

lemma compiler_constants:
  "newtype_value Datatype_consts Node_Datatype_consts ''I64'' = Some (uint Datatype_I64)"
  "newtype_value Lane_consts Lane_Type_consts ''I8'' = Some (uint Lane_I8)"
  "map (newtype_value LoopControl_consts ssa_Loop_Control_consts) [''Break'', ''Continue''] =
     [Some (uint LoopControl_Break), Some (uint LoopControl_Continue)]"
  "map (newtype_value BinOp_consts Bin_Op_consts) [''Add'', ''Sub'', ''Mul'', ''Eq'', ''Lt''] =
     map (\<lambda>t. map_option uint (bin_op_of t)) [''+'', ''-'', ''*'', ''=='', ''<'']"
  by code_simp+

text \<open>
  \<open>lit\<close> is where the linker put a string literal; \<open>oof\<close> is what happens when the fuel runs out.
\<close>

fun Compiler_expression :: "backend \<Rightarrow> (string \<Rightarrow> slice_ref) \<Rightarrow> fault \<Rightarrow> nat \<Rightarrow> u64 comp" where
  "Compiler_expression bac lit oof 0 = fail oof"
| "Compiler_expression bac lit oof (Suc fuel) =
     bindM Compiler_next (\<lambda>token.
     if token = ''('' then
       bindM (Compiler_expression bac lit oof fuel) (\<lambda>left.
       bindM Compiler_next (\<lambda>op.
       bindM (expectM (bin_op_of op) ''internal error: entered unreachable code'') (\<lambda>op.
       bindM (Compiler_expression bac lit oof fuel) (\<lambda>right.
       bindM Compiler_next (\<lambda>_.
       with_builder (\<lambda>b. Builder_add_bin_op bac b (lit ''binary'') op Datatype_I64 left right Lane_I8))))))
     else
       case parse_i64 token of
         Some v \<Rightarrow> with_builder (\<lambda>b. Builder_add_c_int bac b (lit ''number'') Datatype_I64 (of_int v))
       | None \<Rightarrow>
           bindM (get_comp comp_scope) (\<lambda>scope.
           bindM (Compiler_find_var token) (\<lambda>idx.
           with_builder (\<lambda>b. Builder_get_scope_value bac b scope idx))))"

text \<open>The label of a \<^verbatim>\<open>loop\<close>, \<^verbatim>\<open>break\<close> or \<^verbatim>\<open>continue\<close>: the next token unless it is \<open>stop\<close>.\<close>

definition optional_label :: "string \<Rightarrow> string option comp" where
  "optional_label stop =
     bindM tokens_peek (\<lambda>t.
     if t \<noteq> Some stop then bindM Compiler_next (\<lambda>l. ret (Some l)) else ret None)"

text \<open>\<^verbatim>\<open>rfind\<close> over the open loops, the innermost of which is last; the one found is updated in place.\<close>

definition rfind_loop :: "(string option \<times> LoopState) list \<Rightarrow> string option \<Rightarrow> nat option" where
  "rfind_loop loops label =
     map_option (\<lambda>i. length loops - 1 - i)
       (map_option fst (List.find (\<lambda>(i, (name, _)). label = None \<or> name = label) (enumerate 0 (rev loops))))"

text \<open>The arms of \<^verbatim>\<open>statement\<close> that do not contain statements.\<close>

definition bind_var :: "backend \<Rightarrow> (string \<Rightarrow> slice_ref) \<Rightarrow> string \<Rightarrow> u64 \<Rightarrow> unit comp" where
  "bind_var bac lit name v =
     bindM (get_comp comp_scope) (\<lambda>scope.
     bindM (with_builder (\<lambda>b. Builder_push_scope_value bac b scope v (lit ''variable'') 0)) (\<lambda>slot.
     set_comp (comp_variables_update (\<lambda>vs. vs @ [(name, slot)]))))"

definition statement_let :: "backend \<Rightarrow> (string \<Rightarrow> slice_ref) \<Rightarrow> fault \<Rightarrow> nat \<Rightarrow> unit comp" where
  "statement_let bac lit oof fuel =
     bindM Compiler_next (\<lambda>name.
     bindM Compiler_next (\<lambda>_.
     bindM (Compiler_expression bac lit oof fuel) (\<lambda>v.
     bindM Compiler_next (\<lambda>_.
     bind_var bac lit name v))))"

definition jump_to :: "backend \<Rightarrow> string \<Rightarrow> string option \<Rightarrow> unit comp" where
  "jump_to bac keyword label =
     bindM (get_comp comp_loops) (\<lambda>loops.
     bindM (unwrapM (rfind_loop loops label)) (\<lambda>i.
     bindM (get_comp comp_scope) (\<lambda>scope.
     bindM (on_machine (LoopState_loop_control bac (snd (loops ! i))
              (if keyword = ''break'' then LoopControl_Break else LoopControl_Continue) scope)) (\<lambda>state.
     set_comp (\<lambda>c. c\<lparr>comp_loops := loops[i := (fst (loops ! i), state)], comp_scope := Node_NONE bac\<rparr>)))))"

definition statement_jump :: "backend \<Rightarrow> string \<Rightarrow> unit comp" where
  "statement_jump bac keyword =
     bindM (optional_label '';'') (\<lambda>label.
     bindM Compiler_next (\<lambda>_.
     jump_to bac keyword label))"

definition return_value :: "backend \<Rightarrow> u64 \<Rightarrow> unit comp" where
  "return_value bac v =
     bindM (get_comp comp_scope) (\<lambda>scope.
     bindM (with_builder (\<lambda>b.
       bindM (Builder_inputs bac b scope) (\<lambda>inputs.
       bindM (NodeInputs_next bac inputs) (\<lambda>(control, _).
       bindM (unwrapM control) (\<lambda>control.
       bindM (Builder_initial_memory bac b) (\<lambda>mem.
       bindM (Builder_merge_return bac b [control, mem, v]) (\<lambda>_.
       Builder_delete_scope bac b scope))))))) (\<lambda>_.
     set_comp (comp_scope_update (\<lambda>_. Node_NONE bac))))"

definition statement_return :: "backend \<Rightarrow> (string \<Rightarrow> slice_ref) \<Rightarrow> fault \<Rightarrow> nat \<Rightarrow> unit comp" where
  "statement_return bac lit oof fuel =
     bindM (Compiler_expression bac lit oof fuel) (\<lambda>v.
     bindM Compiler_next (\<lambda>_.
     return_value bac v))"

definition assign_var :: "backend \<Rightarrow> string \<Rightarrow> u64 \<Rightarrow> unit comp" where
  "assign_var bac name v =
     bindM (get_comp comp_scope) (\<lambda>scope.
     bindM (Compiler_find_var name) (\<lambda>idx.
     with_builder (\<lambda>b. Builder_set_scope_value bac b scope idx v)))"

definition statement_assign :: "backend \<Rightarrow> (string \<Rightarrow> slice_ref) \<Rightarrow> fault \<Rightarrow> nat \<Rightarrow> string \<Rightarrow> unit comp" where
  "statement_assign bac lit oof fuel name =
     bindM Compiler_next (\<lambda>_.
     bindM (Compiler_expression bac lit oof fuel) (\<lambda>v.
     bindM Compiler_next (\<lambda>_.
     assign_var bac name v)))"

text \<open>What surrounds the body of a \<^verbatim>\<open>loop\<close> and of an \<^verbatim>\<open>if\<close>.\<close>

definition loop_opened :: "backend \<Rightarrow> string option \<Rightarrow> unit comp" where
  "loop_opened bac label =
     bindM (get_comp comp_proc) (\<lambda>prc.
     bindM (get_comp comp_scope) (\<lambda>scope.
     bindM (on_machine (LoopState_start_loop bac (LoopState_new prc) scope)) (\<lambda>state.
     set_comp (comp_loops_update (\<lambda>ls. ls @ [(label, state)])))))"

definition loop_closed :: "backend \<Rightarrow> unit comp" where
  "loop_closed bac =
     bindM (get_comp comp_loops) (\<lambda>ls.
     bindM (unwrapM (if ls = [] then None else Some (last ls))) (\<lambda>(_, state).
     bindM (set_comp (comp_loops_update butlast)) (\<lambda>_.
     bindM (get_comp comp_scope) (\<lambda>scope.
     bindM (on_machine (LoopState_end_loop bac state scope)) (\<lambda>(scope, _).
     set_comp (comp_scope_update (\<lambda>_. scope)))))))"

definition if_opened :: "backend \<Rightarrow> u64 \<Rightarrow> IfState comp" where
  "if_opened bac condition =
     bindM (get_comp comp_proc) (\<lambda>prc.
     bindM (get_comp comp_scope) (\<lambda>scope.
     on_machine (IfState_start_if bac (IfState_new prc) scope condition)))"

definition if_closed :: "backend \<Rightarrow> IfState \<Rightarrow> unit comp" where
  "if_closed bac state =
     bindM (get_comp comp_scope) (\<lambda>scope.
     bindM (on_machine (IfState_end_if bac state scope)) (\<lambda>(scope, _).
     set_comp (comp_scope_update (\<lambda>_. scope))))"

text \<open>\<^verbatim>\<open>Compiler_body\<close> is the \<^verbatim>\<open>while\<close> loop of \<^verbatim>\<open>block\<close>.\<close>

fun Compiler_statement :: "backend \<Rightarrow> (string \<Rightarrow> slice_ref) \<Rightarrow> fault \<Rightarrow> nat \<Rightarrow> unit comp"
  and Compiler_body :: "backend \<Rightarrow> (string \<Rightarrow> slice_ref) \<Rightarrow> fault \<Rightarrow> nat \<Rightarrow> unit comp" where
  "Compiler_statement bac lit oof 0 = fail oof"
| "Compiler_body bac lit oof 0 = fail oof"
| "Compiler_statement bac lit oof (Suc fuel) =
     bindM Compiler_next (\<lambda>token.
     if token = ''let'' then statement_let bac lit oof fuel
     else if token = ''loop'' then
       bindM (optional_label ''{'') (\<lambda>label.
       bindM (loop_opened bac label) (\<lambda>_.
       bindM (bindM Compiler_next (\<lambda>_. bindM (Compiler_body bac lit oof fuel) (\<lambda>_. Compiler_next))) (\<lambda>_.
       loop_closed bac)))
     else if token = ''if'' then
       bindM (Compiler_expression bac lit oof fuel) (\<lambda>condition.
       bindM (if_opened bac condition) (\<lambda>state.
       bindM (bindM Compiler_next (\<lambda>_. bindM (Compiler_body bac lit oof fuel) (\<lambda>_. Compiler_next))) (\<lambda>_.
       if_closed bac state)))
     else if token = ''break'' \<or> token = ''continue'' then statement_jump bac token
     else if token = ''return'' then statement_return bac lit oof fuel
     else statement_assign bac lit oof fuel token)"
| "Compiler_body bac lit oof (Suc fuel) =
     bindM tokens_peek (\<lambda>t.
     if t \<noteq> Some ''}'' then
       bindM (Compiler_statement bac lit oof fuel) (\<lambda>_. Compiler_body bac lit oof fuel)
     else ret ())"

text \<open>The loop of \<^verbatim>\<open>run\<close> over the whole source.\<close>

fun Compiler_program :: "backend \<Rightarrow> (string \<Rightarrow> slice_ref) \<Rightarrow> fault \<Rightarrow> nat \<Rightarrow> unit comp" where
  "Compiler_program bac lit oof 0 = fail oof"
| "Compiler_program bac lit oof (Suc fuel) =
     bindM tokens_peek (\<lambda>t.
     if t \<noteq> None then bindM (Compiler_statement bac lit oof fuel) (\<lambda>_. Compiler_program bac lit oof fuel)
     else ret ())"

text \<open>\<^verbatim>\<open>str::split_whitespace\<close>, for text whose characters are below 256.\<close>

definition is_whitespace :: "char \<Rightarrow> bool" where
  "is_whitespace ch \<longleftrightarrow> (of_char ch :: nat) \<in> {9, 10, 11, 12, 13, 32, 133, 160}"

fun split_words :: "string \<Rightarrow> string \<Rightarrow> string list" where
  "split_words w [] = (if w = [] then [] else [rev w])"
| "split_words w (ch # s) =
     (if is_whitespace ch then (if w = [] then split_words [] s else rev w # split_words [] s)
      else split_words (ch # w) s)"

definition split_whitespace :: "string \<Rightarrow> string list" where
  "split_whitespace s = split_words [] s"

end
