(* ===== verification/Compiler_Laws.thy ===== *)
theory Compiler_Laws
  imports Compiler "HOL-Library.Sublist"
begin

text \<open>
  The example compiler terminates on every input, and on the text of a syntax tree it does what the
  tree says.
\<close>

section \<open>Consumed tokens\<close>

text \<open>A step that returns has consumed at least \<open>k\<close> tokens.\<close>

definition consumes :: "nat \<Rightarrow> 'a comp \<Rightarrow> bool" where
  "consumes k p \<longleftrightarrow> (\<forall>c m x c' m'. p (c, m) = (Inr x, (c', m')) \<longrightarrow>
     length (comp_tokens c') + k \<le> length (comp_tokens c))"

lemma consumesD:
  "consumes k p \<Longrightarrow> p (c, m) = (Inr x, (c', m')) \<Longrightarrow> length (comp_tokens c') + k \<le> length (comp_tokens c)"
  unfolding consumes_def by blast

lemma consumes_mono: "consumes k p \<Longrightarrow> j \<le> k \<Longrightarrow> consumes j p"
  by (fastforce simp: consumes_def)

lemma consumes_bindM:
  assumes "consumes j p" "\<And>x. consumes k (q x)"
  shows "consumes (j + k) (bindM p q)"
proof -
  have "length (comp_tokens c'') + (j + k) \<le> length (comp_tokens c)"
    if "p (c, m) = (Inr x, (c', m'))" "q x (c', m') = (Inr y, (c'', m''))" for c m x c' m' y c'' m''
    using consumesD [OF assms(1) that(1)] consumesD [OF assms(2) that(2)] by simp
  then show ?thesis by (fastforce simp: consumes_def elim!: bindM_eq_InrE)
qed

lemma consumes_basic:
  "consumes 0 (ret x)" "consumes k (fail e)" "consumes 0 (on_machine a)" "consumes 0 (get_comp f)"
  "consumes 0 (expectM y msg)" "consumes 0 (unwrapM y)"
  by (auto simp: consumes_def on_machine_def get_comp_def unwrapM_def expectM_def split: prod.splits option.splits)

lemma consumes_set: "(\<And>c. length (comp_tokens (f c)) \<le> length (comp_tokens c)) \<Longrightarrow> consumes 0 (set_comp f)"
  by (auto simp: consumes_def set_comp_def)

lemma consumes_next: "consumes 1 Compiler_next"
  by (auto simp: consumes_def Compiler_next_def tokens_next_def get_comp_def set_comp_def unwrapM_def ret_apply
      bindM_apply split: list.splits)

lemma consumes_peek: "consumes 0 tokens_peek"
  by (simp add: tokens_peek_def consumes_basic)

lemma consumes_if: "(b \<Longrightarrow> consumes k p) \<Longrightarrow> (\<not> b \<Longrightarrow> consumes k q) \<Longrightarrow> consumes k (if b then p else q)"
  by simp

text \<open>Sequences of steps, in which the later ones consume no more than what is left to show.\<close>

lemma consumes_seq0: "consumes 0 p \<Longrightarrow> (\<And>x. consumes k (q x)) \<Longrightarrow> consumes k (bindM p q)"
  using consumes_bindM [of 0 p k q] by simp

lemma consumes_first: "consumes k p \<Longrightarrow> (\<And>x. consumes 0 (q x)) \<Longrightarrow> consumes k (bindM p q)"
  using consumes_bindM [of k p 0 q] by simp

lemma consumes_next0: "consumes 0 Compiler_next"
  using consumes_next by (rule consumes_mono) simp

lemma consumes_with_builder: "consumes 0 (with_builder f)"
  unfolding with_builder_def by (intro consumes_seq0 consumes_basic)

lemma consumes_find_var: "consumes 0 (Compiler_find_var name)"
  unfolding Compiler_find_var_def by (intro consumes_seq0 consumes_basic)

lemma consumes_expression: "consumes 1 (Compiler_expression bac lit oof fuel)"
proof (induction fuel)
  case (Suc fuel)
  have e: "consumes 0 (Compiler_expression bac lit oof fuel)" using Suc by (rule consumes_mono) simp
  show ?case
    unfolding Compiler_expression.simps
    by (intro consumes_first consumes_next consumes_if)
      (auto intro!: consumes_seq0 e consumes_next0 consumes_basic consumes_with_builder consumes_find_var
        split: option.split)
qed (simp add: consumes_basic)

lemmas consumes_steps = consumes_seq0 consumes_next0 consumes_basic consumes_with_builder consumes_find_var
  consumes_set consumes_peek consumes_expression [THEN consumes_mono]

lemma consumes_label: "consumes 0 (optional_label stop)"
  unfolding optional_label_def by (intro consumes_steps consumes_if)

lemma consumes_actions:
  "consumes 0 (jump_to bac keyword label)" "consumes 0 (return_value bac v)" "consumes 0 (assign_var bac name v)"
  "consumes 0 (loop_opened bac label)" "consumes 0 (loop_closed bac)" "consumes 0 (if_opened bac condition)"
  "consumes 0 (if_closed bac state)" "consumes 0 (bind_var bac lit name v)"
  unfolding bind_var_def jump_to_def return_value_def assign_var_def loop_opened_def loop_closed_def if_opened_def if_closed_def
  by (auto intro!: consumes_steps split: prod.splits)

lemma consumes_arms:
  "consumes 0 (statement_let bac lit oof fuel)" "consumes 0 (statement_jump bac keyword)"
  "consumes 0 (statement_return bac lit oof fuel)" "consumes 0 (statement_assign bac lit oof fuel name)"
  unfolding statement_let_def statement_jump_def statement_return_def statement_assign_def
  by (auto intro!: consumes_steps consumes_label consumes_actions)

lemma consumes_statement: "consumes 1 (Compiler_statement bac lit oof fuel) \<and> consumes 0 (Compiler_body bac lit oof fuel)"
proof (induction fuel)
  case (Suc fuel)
  then have IH: "consumes 0 (Compiler_body bac lit oof fuel)" "consumes 0 (Compiler_statement bac lit oof fuel)"
    using consumes_mono [of 1 "Compiler_statement bac lit oof fuel" 0] by auto
  show ?case
    unfolding Compiler_statement.simps Compiler_body.simps
    by (intro conjI consumes_first [OF consumes_next] consumes_if)
      (auto intro!: IH consumes_steps consumes_arms consumes_actions consumes_label consumes_if)
qed (simp add: consumes_basic)

section \<open>Enough fuel\<close>

text \<open>Two computations that do the same with at most \<open>n\<close> tokens.\<close>

definition agree :: "nat \<Rightarrow> 'a comp \<Rightarrow> 'a comp \<Rightarrow> bool" where
  "agree n p q \<longleftrightarrow> (\<forall>c m. length (comp_tokens c) \<le> n \<longrightarrow> p (c, m) = q (c, m))"

lemma agree_refl: "agree n p p"
  by (simp add: agree_def)

lemma agree_mono: "agree n p q \<Longrightarrow> k \<le> n \<Longrightarrow> agree k p q"
  by (simp add: agree_def)

lemma agree_bindM:
  assumes "agree n p q" "consumes k q" "\<And>x. k \<le> n \<Longrightarrow> agree (n - k) (f x) (g x)"
  shows "agree n (bindM p f) (bindM q g)"
  unfolding agree_def
proof (intro allI impI)
  fix c :: Compiler and m
  assume n: "length (comp_tokens c) \<le> n"
  then have pq: "p (c, m) = q (c, m)" using assms(1) by (simp add: agree_def)
  obtain r c' m' where q: "q (c, m) = (r, (c', m'))" by (metis surj_pair)
  show "bindM p f (c, m) = bindM q g (c, m)"
  proof (cases r)
    case (Inl e)
    then show ?thesis using q pq by simp
  next
    case (Inr x)
    have "length (comp_tokens c') + k \<le> n" using consumesD [OF assms(2)] q Inr n by (metis le_trans)
    then have "f x (c', m') = g x (c', m')" using assms(3) [of x] by (simp add: agree_def)
    then show ?thesis using q Inr pq by simp
  qed
qed

lemmas agree_step = agree_bindM [OF agree_refl]
lemmas agree_step0 = agree_bindM [where k = 0, simplified]

lemma agree_if: "(b \<Longrightarrow> agree n p q) \<Longrightarrow> (\<not> b \<Longrightarrow> agree n p' q') \<Longrightarrow> agree n (if b then p else p') (if b then q else q')"
  by simp

lemma expression_fuel:
  "n < f \<Longrightarrow> n < f' \<Longrightarrow> agree n (Compiler_expression bac lit oof f) (Compiler_expression bac lit oof' f')"
proof (induction f arbitrary: n f')
  case (Suc f)
  then obtain g where g: "f' = Suc g" by (cases f') auto
  have IH: "agree k (Compiler_expression bac lit oof f) (Compiler_expression bac lit oof' g)" if "k \<le> n - 1" "1 \<le> n" for k
    using Suc that g by (intro agree_mono [OF Suc.IH [of "n - 1" g]]) auto
  have e0: "consumes 0 (Compiler_expression bac lit oof' g)" by (rule consumes_expression [THEN consumes_mono]) simp
  show ?case
    unfolding g Compiler_expression.simps
    by (rule agree_step [OF consumes_next], rule agree_if)
      (auto intro!: agree_step0 [OF IH e0] agree_step0 [OF agree_refl] agree_refl consumes_next0 consumes_basic)
qed simp

text \<open>The arms of a statement, on what is left after its first token.\<close>

lemma arms_fuel:
  assumes "n < f" "n < f'"
  shows "agree n (statement_let bac lit oof f) (statement_let bac lit oof' f')"
    "agree n (statement_return bac lit oof f) (statement_return bac lit oof' f')"
    "agree n (statement_assign bac lit oof f name) (statement_assign bac lit oof' f' name)"
proof -
  note e = expression_fuel [OF assms] consumes_expression [THEN consumes_mono, of 0]
  show "agree n (statement_let bac lit oof f) (statement_let bac lit oof' f')"
    "agree n (statement_return bac lit oof f) (statement_return bac lit oof' f')"
    "agree n (statement_assign bac lit oof f name) (statement_assign bac lit oof' f' name)"
    unfolding statement_let_def statement_return_def statement_assign_def
    by (auto intro!: agree_step0 [OF e(1)] e(2) agree_step0 [OF agree_refl] agree_refl consumes_next0)
qed

lemma statement_fuel:
  "(2 * n < f \<longrightarrow> 2 * n < f' \<longrightarrow> agree n (Compiler_statement bac lit oof f) (Compiler_statement bac lit oof' f')) \<and>
   (2 * n + 1 < f \<longrightarrow> 2 * n + 1 < f' \<longrightarrow> agree n (Compiler_body bac lit oof f) (Compiler_body bac lit oof' f'))"
proof (induction f arbitrary: n f')
  case (Suc f)
  show ?case
  proof (intro conjI impI)
    assume n: "2 * n < Suc f" "2 * n < f'"
    then obtain g where g: "f' = Suc g" by (cases f') auto
    have body: "agree (n - 1) (Compiler_body bac lit oof f) (Compiler_body bac lit oof' g)" if "1 \<le> n"
      using Suc.IH [of "n - 1" g] n g that by auto
    note e = expression_fuel [of "n - 1" f g bac lit oof oof']
    have small: "n - 1 < f" "n - 1 < g" if "1 \<le> n" using n g that by auto
    have block: "agree (n - 1) (bindM Compiler_next (\<lambda>_. bindM (Compiler_body bac lit oof f) (\<lambda>_. Compiler_next)))
        (bindM Compiler_next (\<lambda>_. bindM (Compiler_body bac lit oof' g) (\<lambda>_. Compiler_next)))" if "1 \<le> n"
      using body [OF that] consumes_statement [of bac lit oof' g]
      by (auto intro!: agree_step0 [OF agree_refl] agree_step0 agree_refl consumes_next0)
    have blockc: "consumes 0 (bindM Compiler_next (\<lambda>_. bindM (Compiler_body bac lit oof' g) (\<lambda>_. Compiler_next)))"
      using consumes_statement [of bac lit oof' g] by (auto intro!: consumes_steps)
    show "agree n (Compiler_statement bac lit oof (Suc f)) (Compiler_statement bac lit oof' f')"
      unfolding g Compiler_statement.simps
    proof (rule agree_step [OF consumes_next])
      fix token assume "1 \<le> n"
      note arms = arms_fuel [OF small [OF this]]
      show "agree (n - 1)
          (if token = ''let'' then statement_let bac lit oof f
           else if token = ''loop'' then
             bindM (optional_label ''{'') (\<lambda>label.
             bindM (loop_opened bac label) (\<lambda>_.
             bindM (bindM Compiler_next (\<lambda>_. bindM (Compiler_body bac lit oof f) (\<lambda>_. Compiler_next))) (\<lambda>_.
             loop_closed bac)))
           else if token = ''if'' then
             bindM (Compiler_expression bac lit oof f) (\<lambda>condition.
             bindM (if_opened bac condition) (\<lambda>state.
             bindM (bindM Compiler_next (\<lambda>_. bindM (Compiler_body bac lit oof f) (\<lambda>_. Compiler_next))) (\<lambda>_.
             if_closed bac state)))
           else if token = ''break'' \<or> token = ''continue'' then statement_jump bac token
           else if token = ''return'' then statement_return bac lit oof f
           else statement_assign bac lit oof f token)
          (if token = ''let'' then statement_let bac lit oof' g
           else if token = ''loop'' then
             bindM (optional_label ''{'') (\<lambda>label.
             bindM (loop_opened bac label) (\<lambda>_.
             bindM (bindM Compiler_next (\<lambda>_. bindM (Compiler_body bac lit oof' g) (\<lambda>_. Compiler_next))) (\<lambda>_.
             loop_closed bac)))
           else if token = ''if'' then
             bindM (Compiler_expression bac lit oof' g) (\<lambda>condition.
             bindM (if_opened bac condition) (\<lambda>state.
             bindM (bindM Compiler_next (\<lambda>_. bindM (Compiler_body bac lit oof' g) (\<lambda>_. Compiler_next))) (\<lambda>_.
             if_closed bac state)))
           else if token = ''break'' \<or> token = ''continue'' then statement_jump bac token
           else if token = ''return'' then statement_return bac lit oof' g
           else statement_assign bac lit oof' g token)"
        using \<open>1 \<le> n\<close>
        by (intro agree_if arms agree_refl agree_step0 block blockc e small consumes_label consumes_actions
            consumes_expression [THEN consumes_mono]) auto
    qed
  next
    assume n: "2 * n + 1 < Suc f" "2 * n + 1 < f'"
    then obtain g where g: "f' = Suc g" by (cases f') auto
    have s: "agree n (Compiler_statement bac lit oof f) (Compiler_statement bac lit oof' g)"
      using Suc.IH [of n g] n g by auto
    have b: "agree (n - 1) (Compiler_body bac lit oof f) (Compiler_body bac lit oof' g)" if "1 \<le> n"
      using Suc.IH [of "n - 1" g] n g that by auto
    show "agree n (Compiler_body bac lit oof (Suc f)) (Compiler_body bac lit oof' f')"
      unfolding g Compiler_body.simps
      using consumes_statement [of bac lit oof' g]
      by (intro agree_step0 [OF agree_refl consumes_peek] agree_if agree_refl agree_bindM [OF s _ b]) auto
  qed
qed simp

lemma program_fuel:
  "2 * n + 1 < f \<Longrightarrow> 2 * n + 1 < f' \<Longrightarrow> agree n (Compiler_program bac lit oof f) (Compiler_program bac lit oof' f')"
proof (induction f arbitrary: n f')
  case (Suc f)
  then obtain g where g: "f' = Suc g" by (cases f') auto
  have s: "agree n (Compiler_statement bac lit oof f) (Compiler_statement bac lit oof' g)"
    using statement_fuel [of n f g] Suc.prems g by auto
  have p: "agree (n - 1) (Compiler_program bac lit oof f) (Compiler_program bac lit oof' g)" if "1 \<le> n"
    using Suc.IH [of "n - 1" g] Suc.prems g that by auto
  show ?case
    unfolding g Compiler_program.simps
    using consumes_statement [of bac lit oof' g]
    by (intro agree_step0 [OF agree_refl consumes_peek] agree_if agree_refl agree_bindM [OF s _ p]) auto
qed simp

section \<open>Nesting\<close>

text \<open>
  A step that returns changes the labels of the open loops by \<open>g\<close>, keeps the proc, and forgets no
  variable.
\<close>

definition reshapes :: "(string option list \<Rightarrow> string option list) \<Rightarrow> 'a comp \<Rightarrow> bool" where
  "reshapes g p \<longleftrightarrow> (\<forall>c m x c' m'. p (c, m) = (Inr x, (c', m')) \<longrightarrow>
     comp_proc c' = comp_proc c \<and> map fst (comp_loops c') = g (map fst (comp_loops c)) \<and>
     prefix (comp_variables c) (comp_variables c'))"

definition unchanged :: "string option list \<Rightarrow> string option list" where
  "unchanged ls = ls"

lemma unchanged_comp [simp]: "g \<circ> unchanged = g" "unchanged \<circ> g = g"
  by (simp_all add: unchanged_def comp_def)

lemma reshapes_bindM:
  assumes "reshapes g p" "\<And>x. reshapes h (q x)"
  shows "reshapes (h \<circ> g) (bindM p q)"
  unfolding reshapes_def
proof (intro allI impI, elim bindM_eq_InrE)
  fix c :: Compiler and m y c'' m'' x s'
  assume p: "p (c, m) = (Inr x, s')" and q: "q x s' = (Inr y, (c'', m''))"
  obtain c' m' where s': "s' = (c', m')" by force
  have "comp_proc c' = comp_proc c" "map fst (comp_loops c') = g (map fst (comp_loops c))"
    "prefix (comp_variables c) (comp_variables c')"
    using assms(1) p unfolding s' reshapes_def by blast+
  moreover have "comp_proc c'' = comp_proc c'" "map fst (comp_loops c'') = h (map fst (comp_loops c'))"
    "prefix (comp_variables c') (comp_variables c'')"
    using assms(2) [of x] q unfolding s' reshapes_def by blast+
  ultimately show "comp_proc c'' = comp_proc c \<and> map fst (comp_loops c'') = (h \<circ> g) (map fst (comp_loops c)) \<and>
    prefix (comp_variables c) (comp_variables c'')"
    by (simp add: prefix_order.trans [of "comp_variables c" "comp_variables c'"])
qed

lemma reshapes_step: "reshapes unchanged p \<Longrightarrow> (\<And>x. reshapes g (q x)) \<Longrightarrow> reshapes g (bindM p q)"
  using reshapes_bindM [of unchanged p g q] by simp

lemma reshapes_fail: "reshapes g (fail e)"
  by (simp add: reshapes_def)

lemma reshapes_basic:
  "reshapes unchanged (ret x)" "reshapes unchanged (on_machine a)" "reshapes unchanged (get_comp f)"
  "reshapes unchanged (expectM y msg)" "reshapes unchanged (unwrapM y)" "reshapes unchanged tokens_peek"
  by (auto simp: reshapes_def unchanged_def on_machine_def get_comp_def unwrapM_def expectM_def tokens_peek_def
      split: prod.splits option.splits)

lemma reshapes_set:
  "(\<And>c. comp_proc (f c) = comp_proc c \<and> map fst (comp_loops (f c)) = g (map fst (comp_loops c)) \<and>
     prefix (comp_variables c) (comp_variables (f c))) \<Longrightarrow> reshapes g (set_comp f)"
  by (auto simp: reshapes_def set_comp_def)

lemma reshapes_next: "reshapes unchanged Compiler_next"
  unfolding Compiler_next_def tokens_next_def
  by (auto intro!: reshapes_step reshapes_basic reshapes_set simp: unchanged_def split: list.split)

lemma reshapes_calls: "reshapes unchanged (with_builder f)" "reshapes unchanged (Compiler_find_var name)"
  unfolding with_builder_def Compiler_find_var_def by (intro reshapes_step reshapes_basic)+

lemmas reshapes_steps = reshapes_step reshapes_basic reshapes_fail reshapes_next reshapes_calls

lemma reshapes_expression: "reshapes unchanged (Compiler_expression bac lit oof fuel)"
  by (induction fuel) (auto intro!: reshapes_steps split: option.split)

lemma reshapes_label: "reshapes unchanged (optional_label stop)"
  unfolding optional_label_def by (auto intro!: reshapes_steps)

lemma reshapes_first: "reshapes g p \<Longrightarrow> (\<And>x. reshapes unchanged (q x)) \<Longrightarrow> reshapes g (bindM p q)"
  using reshapes_bindM [of g p unchanged q] by simp

lemma reshapes_actions:
  "reshapes unchanged (bind_var bac lit name v)" "reshapes unchanged (return_value bac v)" "reshapes unchanged (assign_var bac name v)"
  "reshapes unchanged (if_opened bac condition)" "reshapes unchanged (if_closed bac state)"
  unfolding bind_var_def return_value_def assign_var_def if_opened_def if_closed_def
  by (auto intro!: reshapes_steps reshapes_set simp: unchanged_def split: prod.split)

lemma reshapes_scope: "reshapes unchanged (set_comp (comp_scope_update f))"
  by (rule reshapes_set) (simp add: unchanged_def)

lemma reshapes_loop:
  "reshapes (\<lambda>ls. ls @ [label]) (loop_opened bac label)" "reshapes butlast (loop_closed bac)"
proof -
  show "reshapes (\<lambda>ls. ls @ [label]) (loop_opened bac label)"
    unfolding loop_opened_def by (auto intro!: reshapes_steps reshapes_set)
  have "reshapes butlast (set_comp (comp_loops_update butlast))" by (rule reshapes_set) (simp add: map_butlast)
  then have "reshapes butlast (bindM (set_comp (comp_loops_update butlast)) (\<lambda>_.
      bindM (get_comp comp_scope) (\<lambda>scope.
      bindM (on_machine (LoopState_end_loop bac state scope)) (\<lambda>(scope, _).
      set_comp (comp_scope_update (\<lambda>_. scope))))))" for state
    by (rule reshapes_first) (auto intro!: reshapes_steps reshapes_scope split: prod.split)
  then show "reshapes butlast (loop_closed bac)"
    unfolding loop_closed_def
    by (intro reshapes_step [OF reshapes_basic(3)] reshapes_step [OF reshapes_basic(5)]) (auto split: prod.split)
qed

text \<open>A jump replaces the state of one open loop, under the same label.\<close>

lemma map_fst_update: "map fst (xs[i := (fst (xs ! i), y)]) = map fst xs"
  by (simp add: map_update) (metis list_update_beyond list_update_id map_update nth_map not_le_imp_less length_map)

lemma reshapes_jump: "reshapes unchanged (jump_to bac keyword label)"
  unfolding reshapes_def
proof (intro allI impI)
  fix c :: Compiler and m x c' m'
  assume "jump_to bac keyword label (c, m) = (Inr x, (c', m'))"
  then show "comp_proc c' = comp_proc c \<and> map fst (comp_loops c') = unchanged (map fst (comp_loops c)) \<and>
      prefix (comp_variables c) (comp_variables c')"
    by (auto simp: jump_to_def unchanged_def get_comp_def on_machine_def set_comp_def unwrapM_def expectM_def map_fst_update
        elim!: bindM_eq_InrE split: option.splits prod.splits)
qed

lemma reshapes_statement:
  "reshapes unchanged (Compiler_statement bac lit oof fuel) \<and> reshapes unchanged (Compiler_body bac lit oof fuel)"
proof (induction fuel)
  case (Suc fuel)
  let ?block = "bindM Compiler_next (\<lambda>_. bindM (Compiler_body bac lit oof fuel) (\<lambda>_. Compiler_next))"
  have block: "reshapes unchanged ?block" using Suc by (auto intro!: reshapes_steps)
  have "reshapes (butlast \<circ> (unchanged \<circ> (\<lambda>ls. ls @ [label])))
      (bindM (bindM (loop_opened bac label) (\<lambda>_. ?block)) (\<lambda>_. loop_closed bac))" for label
    by (intro reshapes_bindM reshapes_loop block)
  moreover have "butlast \<circ> (unchanged \<circ> (\<lambda>ls. ls @ [label])) = unchanged" for label
    by (rule ext) (simp add: unchanged_def)
  ultimately have loop: "reshapes unchanged (bindM (loop_opened bac label) (\<lambda>_. bindM ?block (\<lambda>_. loop_closed bac)))"
    for label
    by (simp only: bindM_assoc)
  show ?case
    unfolding Compiler_statement.simps Compiler_body.simps statement_let_def statement_jump_def statement_return_def
      statement_assign_def
    using Suc by (auto intro!: loop reshapes_steps reshapes_expression reshapes_label reshapes_actions reshapes_jump block)
qed (simp add: reshapes_fail)

section \<open>Lookups\<close>

lemma find_prefix: "prefix xs ys \<Longrightarrow> List.find P xs = Some x \<Longrightarrow> List.find P ys = Some x"
proof (induction xs arbitrary: ys)
  case (Cons a xs)
  then show ?case by (cases ys) (auto split: if_splits)
qed simp

lemma find_enumerate_iff:
  "map_option fst (List.find (\<lambda>(i, x). P x) (enumerate k xs)) = Some i \<longleftrightarrow>
   k \<le> i \<and> i < k + length xs \<and> P (xs ! (i - k)) \<and> (\<forall>j. k \<le> j \<longrightarrow> j < i \<longrightarrow> \<not> P (xs ! (j - k)))"
proof (induction xs arbitrary: k)
  case (Cons x xs)
  show ?case
  proof (cases "P x")
    case True
    then show ?thesis by force
  next
    case False
    have "k \<le> i \<and> P ((x # xs) ! (i - k)) \<longleftrightarrow> Suc k \<le> i \<and> P (xs ! (i - Suc k))"
      using False by (cases "i = k") (auto simp: nth_Cons' Suc_le_eq)
    moreover have "(\<forall>j. k \<le> j \<longrightarrow> j < i \<longrightarrow> \<not> P ((x # xs) ! (j - k))) \<longleftrightarrow>
        (\<forall>j. Suc k \<le> j \<longrightarrow> j < i \<longrightarrow> \<not> P (xs ! (j - Suc k)))"
      by (intro iff_allI) (use False in \<open>auto simp: nth_Cons' Suc_le_eq\<close>)
    ultimately show ?thesis using False Cons [of "Suc k"] by auto
  qed
qed simp

lemma rfind_loop_iff:
  "rfind_loop loops label = Some i \<longleftrightarrow>
   i < length loops \<and> (label = None \<or> fst (loops ! i) = label) \<and>
   (\<forall>j. i < j \<longrightarrow> j < length loops \<longrightarrow> \<not> (label = None \<or> fst (loops ! j) = label))"
proof -
  let ?P = "\<lambda>p. label = None \<or> fst p = label" and ?n = "length loops"
  have P: "(\<lambda>(i, (name, _)). label = None \<or> name = label) = (\<lambda>(i, p). ?P p)" by auto
  have "rfind_loop loops label = Some i \<longleftrightarrow>
      (\<exists>k. k < ?n \<and> ?P (rev loops ! k) \<and> (\<forall>j < k. \<not> ?P (rev loops ! j)) \<and> i = ?n - 1 - k)"
    using find_enumerate_iff [of ?P 0 "rev loops"] unfolding rfind_loop_def P map_option_eq_Some by auto
  also have "\<dots> \<longleftrightarrow> (i < ?n \<and> ?P (rev loops ! (?n - 1 - i)) \<and> (\<forall>j < ?n - 1 - i. \<not> ?P (rev loops ! j)))"
    by (rule iffI, force, rule exI [of _ "?n - 1 - i"]) auto
  also have "\<dots> \<longleftrightarrow> (i < ?n \<and> ?P (loops ! i) \<and> (\<forall>j. i < j \<longrightarrow> j < ?n \<longrightarrow> \<not> ?P (loops ! j)))"
  proof (intro conj_cong refl)
    assume i: "i < ?n"
    then show "?P (rev loops ! (?n - 1 - i)) \<longleftrightarrow> ?P (loops ! i)" by (simp add: rev_nth)
    show "(\<forall>j < ?n - 1 - i. \<not> ?P (rev loops ! j)) \<longleftrightarrow> (\<forall>j. i < j \<longrightarrow> j < ?n \<longrightarrow> \<not> ?P (loops ! j))"
    proof (intro iffI allI impI)
      fix j assume a: "\<forall>j < ?n - 1 - i. \<not> ?P (rev loops ! j)" and j: "i < j" "j < ?n"
      have "?n - 1 - j < ?n - 1 - i" using j by arith
      then show "\<not> ?P (loops ! j)" using a [rule_format, of "?n - 1 - j"] j by (simp add: rev_nth)
    next
      fix j assume a: "\<forall>j. i < j \<longrightarrow> j < ?n \<longrightarrow> \<not> ?P (loops ! j)" and j: "j < ?n - 1 - i"
      then have "i < ?n - 1 - j" "?n - 1 - j < ?n" by arith+
      then show "\<not> ?P (rev loops ! j)" using a [rule_format, of "?n - 1 - j"] j by (simp add: rev_nth)
    qed
  qed
  finally show ?thesis by simp
qed

section \<open>A concrete run\<close>

definition slot_library :: backend where
  "slot_library = \<lparr>
     bac_fn = (\<lambda>f args. ret (if f = ''bac_push_scope_value'' then C_isize 0 else C_u32 0, [])),
     bac_static = (\<lambda>_. 0x8000)\<rparr>"

definition sample_lit :: "string \<Rightarrow> slice_ref" where
  "sample_lit s = \<lparr>ref_ptr = 0x9000, ref_len = of_nat (length s)\<rparr>"

definition sample_compiler :: "string list \<Rightarrow> Compiler" where
  "sample_compiler ts = \<lparr>comp_proc = 0, comp_tokens = ts, comp_scope = 0x8000, comp_variables = [(''x'', 3)], comp_loops = []\<rparr>"

lemma with_builder_apply: "with_builder f (c, m) = (case f (comp_proc c) m of (r, m') \<Rightarrow> (r, (c, m')))"
  by (simp add: with_builder_def Proc_builder_def on_machine_def get_comp_def)

lemma Compiler_next_apply:
  "comp_tokens c = t # ts \<Longrightarrow> Compiler_next (c, m) = (Inr t, (c\<lparr>comp_tokens := ts\<rparr>, m))"
  by (simp add: Compiler_next_def tokens_next_def get_comp_def set_comp_def unwrapM_def bindM_apply ret_apply)

lemma slot_library_number:
  "Builder_add_c_int slot_library 0 (sample_lit ''number'') dt v m = (Inr 0x8000, m)"
  by (simp add: Builder_add_c_int_def Proc_add_c_int_def into_string_ok sample_lit_def isize_max_def call_def
      slot_library_def Proc_get_node_def NodeId_NONE_def Node_NONE_def bindM_apply ret_apply liftM_apply)

lemma slot_library_push:
  "Builder_push_scope_value slot_library 0 0x8000 0x8000 (sample_lit ''variable'') 0 sample_graph = (Inr 0, sample_graph)"
  by (simp add: Builder_push_scope_value_def Proc_push_scope_value_def Builder_check_def Proc_check_eq check_res_def
      into_string_ok sample_lit_def isize_max_def call_def slot_library_def Node_NONE_def bindM_apply ret_apply liftM_apply
      sample_graph_loads DEAD_NODE_KIND_def)

section \<open>Properties\<close>

text \<open>
  C21: the compiler terminates. Twice the number of tokens, and two more, are always enough fuel: with
  more of it the outcome is the same, whatever running out of fuel would mean, so it never runs out.
\<close>

theorem compiler_terminates:
  "Compiler_program bac lit oof (2 * length (comp_tokens c) + 2 + k) (c, m) =
   Compiler_program bac lit oof' (2 * length (comp_tokens c) + 2) (c, m)"
  using program_fuel [of "length (comp_tokens c)" "2 * length (comp_tokens c) + 2 + k" "2 * length (comp_tokens c) + 2"]
  unfolding agree_def by simp

text \<open>
  C36: a statement that has been compiled leaves the proc and the labels of the open loops as they
  were (so the \<^verbatim>\<open>pop\<close> after the body of a loop finds that loop), forgets no variable, and every name that was
  bound still means the same slot.
\<close>

theorem statements_nest:
  assumes "Compiler_statement bac lit oof fuel (c, m) = (Inr (), (c', m'))"
  shows "comp_proc c' = comp_proc c \<and> map fst (comp_loops c') = map fst (comp_loops c) \<and>
    prefix (comp_variables c) (comp_variables c') \<and>
    (\<forall>x slot. Compiler_find_var x (c, m) = (Inr slot, (c, m)) \<longrightarrow> Compiler_find_var x (c', m') = (Inr slot, (c', m')))"
proof -
  have "reshapes unchanged (Compiler_statement bac lit oof fuel)" using reshapes_statement by blast
  then have r: "comp_proc c' = comp_proc c" "map fst (comp_loops c') = map fst (comp_loops c)"
    "prefix (comp_variables c) (comp_variables c')"
    using assms unfolding reshapes_def unchanged_def by blast+
  have "Compiler_find_var x (c', m') = (Inr slot, (c', m'))" if "Compiler_find_var x (c, m) = (Inr slot, (c, m))" for x slot
    using that find_prefix [OF r(3), of "\<lambda>(n, _). n = x"]
    by (cases "List.find (\<lambda>(n, _). n = x) (comp_variables c)")
      (auto simp: Compiler_find_var_def get_comp_def unwrapM_def)
  then show ?thesis using r by blast
qed

theorem statements_nest_witness:
  "\<exists>c' m'. Compiler_statement slot_library sample_lit (Panic []) 3 (sample_compiler [''let'', ''y'', ''='', ''7'', '';''], sample_graph) =
      (Inr (), (c', m')) \<and> comp_variables c' = [(''x'', 3), (''y'', 0)] \<and> Compiler_find_var ''x'' (c', m') = (Inr 3, (c', m'))"
proof -
  obtain c' m' where s: "Compiler_statement slot_library sample_lit (Panic []) 3
      (sample_compiler [''let'', ''y'', ''='', ''7'', '';''], sample_graph) = (Inr (), (c', m'))"
    "comp_variables c' = [(''x'', 3), (''y'', 0)]"
    by (simp add: numeral_3_eq_3 sample_compiler_def Compiler_next_apply statement_let_def parse_i64_def digit_value_def
        i64_ok_def with_builder_apply slot_library_number bind_var_def get_comp_def set_comp_def slot_library_push
        bindM_apply)
  have "Compiler_find_var ''x'' (sample_compiler [''let'', ''y'', ''='', ''7'', '';''], sample_graph) =
      (Inr 3, (sample_compiler [''let'', ''y'', ''='', ''7'', '';''], sample_graph))"
    by (simp add: Compiler_find_var_def get_comp_def unwrapM_def sample_compiler_def)
  then have "Compiler_find_var ''x'' (c', m') = (Inr 3, (c', m'))" using statements_nest [OF s(1)] by blast
  then show ?thesis using s by blast
qed

text \<open>
  A jump concerns the innermost open loop with its label, or the innermost loop of all when it has
  none, and it is refused when there is no such loop.
\<close>

lemma jump_finds_innermost:
  "(rfind_loop loops label = Some i \<longleftrightarrow>
     i < length loops \<and> (label = None \<or> fst (loops ! i) = label) \<and>
     (\<forall>j > i. j < length loops \<longrightarrow> label \<noteq> None \<and> fst (loops ! j) \<noteq> label)) \<and>
   (rfind_loop loops label = None \<longleftrightarrow> (\<forall>p \<in> set loops. label \<noteq> None \<and> fst p \<noteq> label))"
proof
  show "rfind_loop loops label = Some i \<longleftrightarrow>
     i < length loops \<and> (label = None \<or> fst (loops ! i) = label) \<and>
     (\<forall>j > i. j < length loops \<longrightarrow> label \<noteq> None \<and> fst (loops ! j) \<noteq> label)"
    unfolding rfind_loop_iff by (intro conj_cong refl iff_allI) auto
  have "rfind_loop loops label = None \<longleftrightarrow>
      \<not> (\<exists>p \<in> set (map snd (enumerate 0 (rev loops))). label = None \<or> fst p = label)"
    by (simp add: rfind_loop_def find_None_iff del: map_snd_enumerate) force
  then show "rfind_loop loops label = None \<longleftrightarrow> (\<forall>p \<in> set loops. label \<noteq> None \<and> fst p \<noteq> label)"
    by auto
qed

end
