(* ===== verification/Compiler_Text.thy ===== *)
theory Compiler_Text
  imports Compiler
begin

text \<open>
  The text that the example compiler reads: words between white space, and the numbers among them. A
  number is compiled to the 64-bit word that reads back, as a signed number, as the number written.
\<close>

section \<open>The program of the example\<close>

text \<open>The constant \<^verbatim>\<open>PROGRAM\<close>, by lines.\<close>

definition PROGRAM :: string where
  "PROGRAM = concat (map (\<lambda>l. l @ [CHR 0x0A]) [
     [],
     ''    let i = 0 ;'',
     ''    let j = 0 ;'',
     ''    let total = 0 ;'',
     ''    loop outer {'',
     ''        i = ( i + 1 ) ;'',
     ''        j = 0 ;'',
     ''        loop {'',
     ''            j = ( j + 1 ) ;'',
     ''            if ( i == 5 ) {'',
     ''                break outer ;'',
     ''            }'',
     ''            if ( j == 3 ) {'',
     ''                continue outer ;'',
     ''            }'',
     ''            total = ( total + ( i * j ) ) ;'',
     ''        }'',
     ''    }'',
     ''    return total ;''])"

section \<open>Words\<close>

definition word_ok :: "string \<Rightarrow> bool" where
  "word_ok w \<longleftrightarrow> w \<noteq> [] \<and> list_all (\<lambda>ch. \<not> is_whitespace ch) w"

lemma split_words_word:
  "list_all (\<lambda>ch. \<not> is_whitespace ch) w \<Longrightarrow> split_words a (w @ s) = split_words (rev w @ a) s"
  by (induction w arbitrary: a) auto

lemma split_words_space:
  "list_all is_whitespace sp \<Longrightarrow> split_words [] (sp @ s) = split_words [] s"
  by (induction sp) auto

text \<open>Words with any white space around them, at least one character of it between two of them.\<close>

primrec spaced :: "(string \<times> string) list \<Rightarrow> string" where
  "spaced [] = []"
| "spaced (p # ps) = fst p @ snd p @ spaced ps"

lemma split_words_end:
  "sp \<noteq> [] \<Longrightarrow> list_all is_whitespace sp \<Longrightarrow> w \<noteq> [] \<Longrightarrow> split_words w (sp @ s) = rev w # split_words [] s"
  by (cases sp) (simp_all add: split_words_space)

lemma split_words_spaced:
  "\<forall>p \<in> set ps. word_ok (fst p) \<and> snd p \<noteq> [] \<and> list_all is_whitespace (snd p) \<Longrightarrow>
   split_words [] (spaced ps) = map fst ps"
  by (induction ps) (simp_all add: word_ok_def split_words_word split_words_end)

lemma split_words_words:
  "list_all (\<lambda>ch. \<not> is_whitespace ch) a \<Longrightarrow>
   list_all word_ok (split_words a s) \<and>
   concat (split_words a s) = rev a @ filter (\<lambda>ch. \<not> is_whitespace ch) s"
  by (induction a s rule: split_words.induct) (auto simp: word_ok_def)

text \<open>
  The tokens of a text are its words: in general every token is a non-empty run of characters that are
  not white space, and together they have all of those in order; for words separated by any white
  space they are exactly these words.
\<close>

lemma split_whitespace_words:
  "list_all word_ok (split_whitespace s)" "concat (split_whitespace s) = filter (\<lambda>ch. \<not> is_whitespace ch) s"
  using split_words_words [of "[]" s] by (simp_all add: split_whitespace_def)

lemma split_whitespace_spaced:
  "list_all is_whitespace sp \<Longrightarrow> \<forall>p \<in> set ps. word_ok (fst p) \<and> snd p \<noteq> [] \<and> list_all is_whitespace (snd p) \<Longrightarrow>
   split_whitespace (sp @ spaced ps) = map fst ps"
  by (simp add: split_whitespace_def split_words_space split_words_spaced)

section \<open>Numbers\<close>

definition decimal_int :: "int \<Rightarrow> string" where
  "decimal_int n = (if n < 0 then CHR ''-'' # show_nat (nat (- n)) else show_nat (nat n))"

lemma digit_value_of_nat: "d < 10 \<Longrightarrow> digit_value (char_of (48 + d)) = Some (int d)"
  by (simp add: digit_value_def)

lemma parse_digits_append:
  "parse_digits neg acc (s @ t) =
   (case parse_digits neg acc s of None \<Rightarrow> None | Some a \<Rightarrow> parse_digits neg a t)"
  by (induction s arbitrary: acc) (auto simp: Let_def split: option.split)

lemma i64_ok_smaller: "i64_ok m \<Longrightarrow> \<bar>n\<bar> \<le> \<bar>m\<bar> \<Longrightarrow> n \<le> 0 \<longleftrightarrow> m \<le> 0 \<Longrightarrow> i64_ok n"
  by (auto simp: i64_ok_def abs_if split: if_splits)

lemma parse_decimal:
  "i64_ok (if neg then - int n else int n) \<Longrightarrow>
   parse_digits neg 0 (show_nat n) = Some (if neg then - int n else int n)"
proof (induction n rule: show_nat.induct)
  case (1 n)
  show ?case
  proof (cases "n < 10")
    case True
    then show ?thesis using 1 by (subst show_nat.simps) (auto simp: digit_value_of_nat Let_def i64_ok_def)
  next
    case False
    let ?q = "n div 10" and ?r = "n mod 10"
    have n: "int n = int ?q * 10 + int ?r" by presburger
    have ok: "i64_ok (if neg then - int ?q else int ?q)" "i64_ok (if neg then - int ?q * 10 else int ?q * 10)"
      using "1.prems" n by (auto simp: i64_ok_def split: if_splits)
    have "parse_digits neg (if neg then - int ?q else int ?q) [char_of (48 + ?r)] =
        Some (if neg then - int n else int n)"
      using ok(2) "1.prems" digit_value_of_nat [of ?r] n by (auto simp: Let_def split: if_splits)
    then show ?thesis using "1.IH" [OF False ok(1)] False by (subst show_nat.simps) (simp add: parse_digits_append)
  qed
qed

lemma decimal_head: "\<exists>d s. (d :: nat) < 10 \<and> show_nat n = char_of (48 + d) # s"
proof (induction n rule: show_nat.induct)
  case (1 n)
  show ?case
  proof (cases "n < 10")
    case True
    then show ?thesis by (subst show_nat.simps) auto
  next
    case False
    then obtain d s where "(d :: nat) < 10" "show_nat (n div 10) = char_of (48 + d) # s" using 1 by blast
    then show ?thesis using False by (subst show_nat.simps) (metis append_Cons)
  qed
qed

lemma digit_value_SomeD: "digit_value ch = Some d \<Longrightarrow> ch \<noteq> CHR ''-'' \<and> ch \<noteq> CHR ''+''"
  by (auto simp: digit_value_def)

lemma parse_digits_ok: "parse_digits neg acc s = Some n \<Longrightarrow> i64_ok acc \<Longrightarrow> i64_ok n"
  by (induction neg acc s rule: parse_digits.induct) (auto simp: Let_def split: option.splits if_splits)

lemma parse_i64_digits:
  assumes "(d :: nat) < 10"
  shows "parse_i64 (char_of (48 + d) # s) = parse_digits False 0 (char_of (48 + d) # s)"
  using digit_value_SomeD [OF digit_value_of_nat [OF assms]] by (simp add: parse_i64_def)

lemma parse_decimal_int: "i64_ok n \<Longrightarrow> parse_i64 (decimal_int n) = Some n"
proof (cases "n < 0")
  case True
  assume "i64_ok n"
  then show ?thesis
    using True parse_decimal [of True "nat (- n)"] decimal_head [of "nat (- n)"]
    by (auto simp: decimal_int_def parse_i64_def)
next
  case False
  assume "i64_ok n"
  then show ?thesis
    using False parse_decimal [of False "nat n"] decimal_head [of "nat n"]
    by (auto simp: decimal_int_def parse_i64_digits simp del: parse_digits.simps)
qed

section \<open>Properties\<close>

text \<open>
  Numbers in the text. The decimal notation of every 64-bit signed number is read as that number;
  what is read from any token is a 64-bit signed number, so the word handed to the library reads back
  as it; and a token that overflows is not a number.
\<close>

lemma numbers_read_back:
  "(i64_ok n \<longrightarrow> parse_i64 (decimal_int n) = Some n) \<and>
   (parse_i64 s = Some v \<longrightarrow> i64_ok v \<and> sint (of_int v :: u64) = v)"
proof (intro conjI impI)
  show "parse_i64 (decimal_int n) = Some n" if "i64_ok n" using that by (rule parse_decimal_int)
  have z: "i64_ok 0" by (simp add: i64_ok_def)
  assume "parse_i64 s = Some v"
  then show ok: "i64_ok v"
    by (auto simp: parse_i64_def simp del: parse_digits.simps split: list.splits if_splits dest: parse_digits_ok [OF _ z])
  then have "signed_take_bit 63 v = v" by (intro signed_take_bit_int_eq_self) (simp_all add: i64_ok_def)
  then show "sint (of_int v :: u64) = v" by (simp add: sint_sbintrunc')
qed

end
