(* ===== verification/Compiler_Trees.thy ===== *)
theory Compiler_Trees
  imports Compiler_Laws Compiler_Text
begin

text \<open>
  Programs as trees: their text, and what should be built for them. The example compiler is shown to
  build exactly that, whatever the library does, and to stop at the end of the text.
\<close>

section \<open>Trees\<close>

datatype expr = Atom string | Bin expr string expr

primrec print_expr :: "expr \<Rightarrow> string list" where
  "print_expr (Atom t) = [t]"
| "print_expr (Bin a op b) = ''('' # print_expr a @ op # print_expr b @ ['')'']"

primrec expr_ok :: "expr \<Rightarrow> bool" where
  "expr_ok (Atom t) = (t \<noteq> ''('')"
| "expr_ok (Bin a op b) = (expr_ok a \<and> bin_op_of op \<noteq> None \<and> expr_ok b)"

datatype stmt = Let string expr | Loop "string option" "stmt list" | If expr "stmt list"
  | Jump string "string option" | Return expr | Assign string expr

definition print_label :: "string option \<Rightarrow> string list" where
  "print_label l = (case l of None \<Rightarrow> [] | Some l \<Rightarrow> [l])"

fun print_stmt :: "stmt \<Rightarrow> string list" and print_stmts :: "stmt list \<Rightarrow> string list" where
  "print_stmt (Let x e) = ''let'' # x # ''='' # print_expr e @ ['';'']"
| "print_stmt (Loop l b) = ''loop'' # print_label l @ ''{'' # print_stmts b @ [''}'']"
| "print_stmt (If e b) = ''if'' # print_expr e @ ''{'' # print_stmts b @ [''}'']"
| "print_stmt (Jump k l) = k # print_label l @ ['';'']"
| "print_stmt (Return e) = ''return'' # print_expr e @ ['';'']"
| "print_stmt (Assign x e) = x # ''='' # print_expr e @ ['';'']"
| "print_stmts [] = []"
| "print_stmts (s # ss) = print_stmt s @ print_stmts ss"

fun stmt_ok :: "stmt \<Rightarrow> bool" and stmts_ok :: "stmt list \<Rightarrow> bool" where
  "stmt_ok (Let x e) = expr_ok e"
| "stmt_ok (Loop l b) = (l \<noteq> Some ''{'' \<and> stmts_ok b)"
| "stmt_ok (If e b) = (expr_ok e \<and> stmts_ok b)"
| "stmt_ok (Jump k l) = (k \<in> {''break'', ''continue''} \<and> l \<noteq> Some '';'')"
| "stmt_ok (Return e) = expr_ok e"
| "stmt_ok (Assign x e) =
     (x \<notin> {''let'', ''loop'', ''if'', ''break'', ''continue'', ''return'', ''}''} \<and> expr_ok e)"
| "stmts_ok [] = True"
| "stmts_ok (s # ss) = (stmt_ok s \<and> stmts_ok ss)"

section \<open>What to build\<close>

fun emit_expr :: "backend \<Rightarrow> (string \<Rightarrow> slice_ref) \<Rightarrow> expr \<Rightarrow> u64 comp" where
  "emit_expr bac lit (Atom t) =
     (case parse_i64 t of
        Some v \<Rightarrow> with_builder (\<lambda>b. Builder_add_c_int bac b (lit ''number'') Datatype_I64 (of_int v))
      | None \<Rightarrow>
          bindM (get_comp comp_scope) (\<lambda>scope.
          bindM (Compiler_find_var t) (\<lambda>idx.
          with_builder (\<lambda>b. Builder_get_scope_value bac b scope idx))))"
| "emit_expr bac lit (Bin a op b) =
     bindM (emit_expr bac lit a) (\<lambda>left.
     bindM (emit_expr bac lit b) (\<lambda>right.
     with_builder (\<lambda>b. Builder_add_bin_op bac b (lit ''binary'') (the (bin_op_of op)) Datatype_I64 left right Lane_I8)))"

fun emit_stmt :: "backend \<Rightarrow> (string \<Rightarrow> slice_ref) \<Rightarrow> stmt \<Rightarrow> unit comp"
  and emit_stmts :: "backend \<Rightarrow> (string \<Rightarrow> slice_ref) \<Rightarrow> stmt list \<Rightarrow> unit comp" where
  "emit_stmt bac lit (Let x e) = bindM (emit_expr bac lit e) (bind_var bac lit x)"
| "emit_stmt bac lit (Loop l b) =
     bindM (loop_opened bac l) (\<lambda>_. bindM (emit_stmts bac lit b) (\<lambda>_. loop_closed bac))"
| "emit_stmt bac lit (If e b) =
     bindM (emit_expr bac lit e) (\<lambda>condition. bindM (if_opened bac condition) (\<lambda>state.
     bindM (emit_stmts bac lit b) (\<lambda>_. if_closed bac state)))"
| "emit_stmt bac lit (Jump k l) = jump_to bac k l"
| "emit_stmt bac lit (Return e) = bindM (emit_expr bac lit e) (return_value bac)"
| "emit_stmt bac lit (Assign x e) = bindM (emit_expr bac lit e) (assign_var bac x)"
| "emit_stmts bac lit [] = ret ()"
| "emit_stmts bac lit (s # ss) = bindM (emit_stmt bac lit s) (\<lambda>_. emit_stmts bac lit ss)"

section \<open>Parsing\<close>

text \<open>
  \<open>p\<close> reads exactly \<open>ts\<close> and otherwise does what \<open>q\<close> does; what follows in the text does not matter.
\<close>

abbreviation with_tokens :: "Compiler \<Rightarrow> string list \<Rightarrow> Compiler" where
  "with_tokens c ts \<equiv> c\<lparr>comp_tokens := ts\<rparr>"

definition parses_with :: "string list set \<Rightarrow> 'a comp \<Rightarrow> string list \<Rightarrow> 'a comp \<Rightarrow> bool" where
  "parses_with R p ts q \<longleftrightarrow> (\<forall>c m rest r c' m'. rest \<in> R \<longrightarrow> p (with_tokens c (ts @ rest), m) = (r, (c', m')) \<longrightarrow>
     q (with_tokens c [], m) = (r, (with_tokens c' [], m')) \<and> (\<forall>x. r = Inr x \<longrightarrow> comp_tokens c' = rest))"

abbreviation parses :: "'a comp \<Rightarrow> string list \<Rightarrow> 'a comp \<Rightarrow> bool" where
  "parses \<equiv> parses_with UNIV"

lemma parses_bindM:
  assumes "parses p ts q" "\<And>x. parses_with R (f x) ts' (g x)"
  shows "parses_with R (bindM p f) (ts @ ts') (bindM q g)"
  unfolding parses_with_def
proof (intro allI impI, goal_cases)
  case (1 c m rest r c' m')
  obtain r1 c1 m1 where p: "p (with_tokens c (ts @ ts' @ rest), m) = (r1, (c1, m1))" by (metis surj_pair)
  then have q: "q (with_tokens c [], m) = (r1, (with_tokens c1 [], m1))" "\<And>x. r1 = Inr x \<Longrightarrow> comp_tokens c1 = ts' @ rest"
    using assms(1) unfolding parses_with_def by blast+
  show ?case
  proof (cases r1)
    case (Inl e)
    then show ?thesis using 1 p q(1) by (auto simp: bindM_apply)
  next
    case (Inr x)
    then have c1: "c1 = with_tokens c1 (ts' @ rest)" using q(2) by (metis Compiler.surjective Compiler.update_convs(2))
    have "f x (with_tokens c1 (ts' @ rest), m1) = (r, (c', m'))"
      using 1(2) p Inr c1 by (simp add: bindM_apply)
    then show ?thesis
      using assms(2) [of x] 1(1) q(1) Inr by (simp add: parses_with_def bindM_apply)
  qed
qed

lemma parses_step:
  "parses p [] p \<Longrightarrow> (\<And>x. parses_with R (f x) ts (g x)) \<Longrightarrow> parses_with R (bindM p f) ts (bindM p g)"
  using parses_bindM [of p "[]" p R f ts g] by simp

lemma parses_next: "parses_with R (k t) ts q \<Longrightarrow> parses_with R (bindM Compiler_next k) (t # ts) q"
  by (simp add: parses_with_def Compiler_next_def tokens_next_def get_comp_def set_comp_def unwrapM_def bindM_apply ret_apply)

lemma parses_peek:
  "ts \<noteq> [] \<Longrightarrow> parses_with R (k (Some (hd ts))) ts q \<Longrightarrow> parses_with R (bindM tokens_peek k) ts q"
  by (cases ts) (simp_all add: parses_with_def tokens_peek_def get_comp_def bindM_apply)

lemma parses_ret: "parses (ret x) [] (ret x)"
  by (simp add: parses_with_def)

lemma parses_expect: "parses (expectM y msg) [] (expectM y msg)"
  by (auto simp: parses_with_def expectM_def split: option.splits)

lemma parses_on_machine: "parses (on_machine a) [] (on_machine a)"
  by (auto simp: parses_with_def on_machine_def split: prod.splits)

lemma parses_get: "(\<And>c ts. f (with_tokens c ts) = f c) \<Longrightarrow> parses (get_comp f) [] (get_comp f)"
  by (simp add: parses_with_def get_comp_def)

lemma parses_set:
  "(\<And>c ts. f (with_tokens c ts) = with_tokens (f c) ts) \<Longrightarrow> parses (set_comp f) [] (set_comp f)"
  by (auto simp: parses_with_def set_comp_def)

lemma parses_with_builder: "parses (with_builder f) [] (with_builder f)"
  unfolding with_builder_def by (intro parses_step parses_get parses_on_machine) simp

lemma parses_find_var: "parses (Compiler_find_var x) [] (Compiler_find_var x)"
  unfolding Compiler_find_var_def unwrapM_def by (intro parses_step parses_get parses_expect) simp

text \<open>The actions read nothing.\<close>

lemma parses_actions:
  "parses (bind_var bac lit x v) [] (bind_var bac lit x v)" "parses (jump_to bac k l) [] (jump_to bac k l)"
  "parses (return_value bac v) [] (return_value bac v)" "parses (assign_var bac x v) [] (assign_var bac x v)"
  "parses (loop_opened bac l) [] (loop_opened bac l)" "parses (loop_closed bac) [] (loop_closed bac)"
  "parses (if_opened bac v) [] (if_opened bac v)" "parses (if_closed bac state) [] (if_closed bac state)"
  unfolding bind_var_def jump_to_def return_value_def assign_var_def loop_opened_def loop_closed_def if_opened_def
    if_closed_def unwrapM_def
  by (auto intro!: parses_step parses_get parses_set parses_on_machine parses_with_builder parses_find_var parses_expect
      split: prod.splits)

text \<open>Reading a fixed token after something that reads the tokens before it.\<close>

lemma parses_then_next:
  "parses p ts q \<Longrightarrow> (\<And>x. parses_with R (f x) ts' (g x)) \<Longrightarrow>
   parses_with R (bindM p (\<lambda>x. bindM Compiler_next (\<lambda>_. f x))) (ts @ t # ts') (bindM q g)"
  by (intro parses_bindM parses_next)

lemma parses_expression:
  "expr_ok e \<Longrightarrow> length (print_expr e) \<le> fuel \<Longrightarrow>
   parses (Compiler_expression bac lit oof fuel) (print_expr e) (emit_expr bac lit e)"
proof (induction e arbitrary: fuel)
  case (Atom t)
  then obtain f where f: "fuel = Suc f" by (cases fuel) auto
  show ?case
    using Atom unfolding f Compiler_expression.simps print_expr.simps emit_expr.simps
    by (intro parses_next)
      (auto intro!: parses_step parses_get parses_with_builder parses_find_var split: option.split)
next
  case (Bin a op b)
  then obtain f where f: "fuel = Suc f" by (cases fuel) auto
  obtain o' where o': "bin_op_of op = Some o'" using Bin.prems by auto
  have IH: "parses (Compiler_expression bac lit oof f) (print_expr a) (emit_expr bac lit a)"
    "parses (Compiler_expression bac lit oof f) (print_expr b) (emit_expr bac lit b)"
    using Bin.IH Bin.prems f by simp_all
  have "parses
      (bindM (Compiler_expression bac lit oof f) (\<lambda>left.
       bindM Compiler_next (\<lambda>op.
       bindM (expectM (bin_op_of op) ''internal error: entered unreachable code'') (\<lambda>op.
       bindM (Compiler_expression bac lit oof f) (\<lambda>right.
       bindM Compiler_next (\<lambda>_.
       with_builder (\<lambda>b. Builder_add_bin_op bac b (lit ''binary'') op Datatype_I64 left right Lane_I8)))))))
      (print_expr a @ op # print_expr b @ ['')'']) (emit_expr bac lit (Bin a op b))"
    unfolding emit_expr.simps
    by (intro parses_bindM [OF IH(1)] parses_next)
      (simp add: o', intro parses_then_next [OF IH(2), where ts' = "[]"] parses_with_builder)
  then show ?case
    unfolding f Compiler_expression.simps print_expr.simps by (intro parses_next) simp
qed

lemma parses_label:
  "l \<noteq> Some stop \<Longrightarrow> (\<And>t ts. stop # ts \<noteq> [] \<Longrightarrow> parses_with R (k l) (stop # ts') q) \<Longrightarrow>
   parses_with R (bindM (optional_label stop) k) (print_label l @ stop # ts') q"
  unfolding optional_label_def print_label_def
  by (cases l) (auto simp: bindM_assoc intro!: parses_peek parses_next)

lemma print_stmt_nonempty: "print_stmt s \<noteq> []"
  by (cases s) simp_all

lemma print_stmt_length: "1 \<le> length (print_stmt s)"
  using print_stmt_nonempty [of s] by (cases "print_stmt s") simp_all

lemma print_stmt_hd: "stmt_ok s \<Longrightarrow> hd (print_stmt s) \<noteq> ''}''"
  by (cases s) auto

text \<open>The text of a block, read by the loop of \<^verbatim>\<open>block\<close> up to its closing brace.\<close>

lemma parses_body_step:
  assumes "parses (Compiler_statement bac lit oof f) (print_stmt s) (emit_stmt bac lit s)" "stmt_ok s"
    "parses (bindM (Compiler_body bac lit oof f) (\<lambda>_. Compiler_next)) (print_stmts ss @ [''}''])
       (bindM (emit_stmts bac lit ss) (\<lambda>_. ret ''}''))"
  shows "parses (bindM (Compiler_body bac lit oof (Suc f)) (\<lambda>_. Compiler_next)) (print_stmts (s # ss) @ [''}''])
       (bindM (emit_stmts bac lit (s # ss)) (\<lambda>_. ret ''}''))"
proof -
  have ne: "print_stmts (s # ss) @ [''}''] \<noteq> []" "hd (print_stmts (s # ss) @ [''}'']) \<noteq> ''}''"
    using print_stmt_nonempty [of s] print_stmt_hd [OF assms(2)] by simp_all
  have "parses (bindM (bindM (Compiler_statement bac lit oof f) (\<lambda>_. Compiler_body bac lit oof f)) (\<lambda>_. Compiler_next))
      (print_stmt s @ print_stmts ss @ [''}''])
      (bindM (emit_stmt bac lit s) (\<lambda>_. bindM (emit_stmts bac lit ss) (\<lambda>_. ret ''}'')))"
    unfolding bindM_assoc by (rule parses_bindM [OF assms(1,3)])
  then show ?thesis
    unfolding Compiler_body.simps bindM_assoc
    by (intro parses_peek [OF ne(1)]) (use ne(2) in \<open>simp add: bindM_assoc\<close>)
qed

lemma parses_next_only: "parses Compiler_next [t] (ret t)"
  using parses_next [of UNIV ret t "[]" "ret t"] by (simp add: parses_ret)

lemma parses_body_end:
  "parses (bindM (Compiler_body bac lit oof (Suc f)) (\<lambda>_. Compiler_next)) (print_stmts [] @ [''}''])
     (bindM (emit_stmts bac lit []) (\<lambda>_. ret ''}''))"
  unfolding Compiler_body.simps bindM_assoc
  by (intro parses_peek) (simp_all add: parses_next_only)

text \<open>The arms of a statement.\<close>

lemma parses_block:
  assumes "parses (bindM (Compiler_body bac lit oof f) (\<lambda>_. Compiler_next)) (print_stmts b @ [''}''])
     (bindM (emit_stmts bac lit b) (\<lambda>_. ret ''}''))" "\<And>x. parses (k x) [] k'"
  shows "parses (bindM (bindM Compiler_next (\<lambda>_. bindM (Compiler_body bac lit oof f) (\<lambda>_. Compiler_next))) k)
     (''{'' # print_stmts b @ [''}'']) (bindM (emit_stmts bac lit b) (\<lambda>_. k'))"
proof -
  have "parses (bindM (bindM (Compiler_body bac lit oof f) (\<lambda>_. Compiler_next)) k) ((print_stmts b @ [''}'']) @ [])
     (bindM (bindM (emit_stmts bac lit b) (\<lambda>_. ret ''}'')) (\<lambda>_. k'))"
    by (rule parses_bindM [OF assms])
  then show ?thesis by (simp add: bindM_assoc parses_next)
qed

lemma parses_simple_arms:
  assumes "expr_ok e" "length (print_expr e) \<le> f"
  shows "parses (statement_let bac lit oof f) (x # ''='' # print_expr e @ ['';'']) (emit_stmt bac lit (Let x e))"
    "parses (statement_return bac lit oof f) (print_expr e @ ['';'']) (emit_stmt bac lit (Return e))"
    "parses (statement_assign bac lit oof f x) (''='' # print_expr e @ ['';'']) (emit_stmt bac lit (Assign x e))"
  unfolding statement_let_def statement_return_def statement_assign_def emit_stmt.simps
  by (intro parses_next parses_then_next [OF parses_expression [OF assms], where ts' = "[]"] parses_actions)+

lemma parses_jump:
  "l \<noteq> Some '';'' \<Longrightarrow> parses (statement_jump bac k) (print_label l @ ['';'']) (emit_stmt bac lit (Jump k l))"
  unfolding statement_jump_def emit_stmt.simps by (intro parses_label parses_next parses_actions)

lemma parses_statement:
  "stmt_ok s \<Longrightarrow> 2 * length (print_stmt s) \<le> fuel \<Longrightarrow>
     parses (Compiler_statement bac lit oof fuel) (print_stmt s) (emit_stmt bac lit s)"
  "stmts_ok ss \<Longrightarrow> 2 * length (print_stmts ss) + 1 \<le> fuel \<Longrightarrow>
     parses (bindM (Compiler_body bac lit oof fuel) (\<lambda>_. Compiler_next)) (print_stmts ss @ [''}''])
       (bindM (emit_stmts bac lit ss) (\<lambda>_. ret ''}''))"
proof (induction s and ss arbitrary: fuel and fuel rule: print_stmt_print_stmts.induct)
  case (1 x e)
  then obtain f where "fuel = Suc f" by (cases fuel) auto
  with 1 show ?case by (auto intro!: parses_next parses_simple_arms(1) simp del: emit_stmt.simps)
next
  case (2 l b)
  then obtain f where f: "fuel = Suc f" by (cases fuel) auto
  have b: "parses (bindM (Compiler_body bac lit oof f) (\<lambda>_. Compiler_next)) (print_stmts b @ [''}''])
     (bindM (emit_stmts bac lit b) (\<lambda>_. ret ''}''))"
    using 2 f by (intro "2.IH") auto
  show ?case
    using 2 unfolding f Compiler_statement.simps print_stmt.simps emit_stmt.simps
    by (intro parses_next) (auto intro!: parses_label parses_step parses_actions parses_block [OF b])
next
  case (3 e b)
  then obtain f where f: "fuel = Suc f" by (cases fuel) auto
  have b: "parses (bindM (Compiler_body bac lit oof f) (\<lambda>_. Compiler_next)) (print_stmts b @ [''}''])
     (bindM (emit_stmts bac lit b) (\<lambda>_. ret ''}''))"
    using 3 f by (intro "3.IH") auto
  have e: "parses (Compiler_expression bac lit oof f) (print_expr e) (emit_expr bac lit e)"
    using 3 f by (intro parses_expression) auto
  show ?case
    unfolding f Compiler_statement.simps print_stmt.simps emit_stmt.simps
    by (intro parses_next) (auto intro!: parses_bindM [OF e] parses_step parses_actions parses_block [OF b])
next
  case (4 k l)
  then obtain f where "fuel = Suc f" by (cases fuel) auto
  with 4 show ?case by (auto intro!: parses_next parses_jump simp del: emit_stmt.simps)
next
  case (5 e)
  then obtain f where "fuel = Suc f" by (cases fuel) auto
  with 5 show ?case by (auto intro!: parses_next parses_simple_arms(2) simp del: emit_stmt.simps)
next
  case (6 x e)
  then obtain f where "fuel = Suc f" by (cases fuel) auto
  with 6 show ?case by (auto intro!: parses_next parses_simple_arms(3) simp del: emit_stmt.simps)
next
  case 7
  then obtain f where "fuel = Suc f" by (cases fuel) auto
  then show ?case using parses_body_end by blast
next
  case (8 s ss)
  then obtain f where f: "fuel = Suc f" by (cases fuel) auto
  have fuel: "2 * length (print_stmts ss) + 1 \<le> f" "2 * length (print_stmt s) \<le> f"
    using "8.prems" f print_stmt_length [of s] by simp_all
  show ?case
    unfolding f using "8.prems" fuel by (intro parses_body_step "8.IH") simp_all
qed

section \<open>Whole programs\<close>

lemma parses_program:
  "stmts_ok ss \<Longrightarrow> 2 * length (print_stmts ss) + 1 \<le> fuel \<Longrightarrow>
   parses_with {[]} (Compiler_program bac lit oof fuel) (print_stmts ss) (emit_stmts bac lit ss)"
proof (induction ss arbitrary: fuel)
  case Nil
  then obtain f where "fuel = Suc f" by (cases fuel) auto
  then show ?case by (simp add: parses_with_def tokens_peek_def get_comp_def bindM_apply ret_apply)
next
  case (Cons s ss)
  then obtain f where f: "fuel = Suc f" by (cases fuel) auto
  have fuel: "2 * length (print_stmts ss) + 1 \<le> f" "2 * length (print_stmt s) \<le> f"
    using Cons.prems f print_stmt_length [of s] by simp_all
  then have IH: "parses (Compiler_statement bac lit oof f) (print_stmt s) (emit_stmt bac lit s)"
    "parses_with {[]} (Compiler_program bac lit oof f) (print_stmts ss) (emit_stmts bac lit ss)"
    using Cons.prems by (auto intro!: parses_statement(1) Cons.IH)
  show ?case
    unfolding f Compiler_program.simps print_stmts.simps emit_stmts.simps
    by (intro parses_peek) (use print_stmt_nonempty [of s] in \<open>auto intro!: parses_bindM IH\<close>)
qed

text \<open>
  When the tokens are the text of a well-formed tree, the compiler builds exactly what the tree says:
  the same calls in the same order with the same outcome; and when it succeeds it has read them all.
\<close>

lemma program_follows_tree:
  assumes "comp_tokens c = print_stmts ss" "stmts_ok ss"
    "Compiler_program bac lit oof (2 * length (comp_tokens c) + 2) (c, m) = (r, (c', m'))"
  shows "emit_stmts bac lit ss (c\<lparr>comp_tokens := []\<rparr>, m) = (r, (c'\<lparr>comp_tokens := []\<rparr>, m')) \<and>
    (\<forall>x. r = Inr x \<longrightarrow> comp_tokens c' = [])"
proof -
  have c: "c\<lparr>comp_tokens := print_stmts ss @ []\<rparr> = c" using assms(1) by simp
  have "parses_with {[]} (Compiler_program bac lit oof (2 * length (comp_tokens c) + 2)) (print_stmts ss) (emit_stmts bac lit ss)"
    using assms(1) by (intro parses_program assms(2)) simp
  then show ?thesis using assms(3) c unfolding parses_with_def by (metis singletonI)
qed

section \<open>The tree of the example\<close>

abbreviation op2 :: "string \<Rightarrow> string \<Rightarrow> string \<Rightarrow> expr" where
  "op2 a op b \<equiv> Bin (Atom a) op (Atom b)"

definition PROGRAM_tree :: "stmt list" where
  "PROGRAM_tree = [
     Let ''i'' (Atom ''0''), Let ''j'' (Atom ''0''), Let ''total'' (Atom ''0''),
     Loop (Some ''outer'') [
       Assign ''i'' (op2 ''i'' ''+'' ''1''),
       Assign ''j'' (Atom ''0''),
       Loop None [
         Assign ''j'' (op2 ''j'' ''+'' ''1''),
         If (op2 ''i'' ''=='' ''5'') [Jump ''break'' (Some ''outer'')],
         If (op2 ''j'' ''=='' ''3'') [Jump ''continue'' (Some ''outer'')],
         Assign ''total'' (Bin (Atom ''total'') ''+'' (op2 ''i'' ''*'' ''j''))]],
     Return (Atom ''total'')]"

lemma PROGRAM_tokens: "split_whitespace PROGRAM = print_stmts PROGRAM_tree"
  by code_simp

lemma PROGRAM_ok: "stmts_ok PROGRAM_tree"
  by (simp add: PROGRAM_tree_def bin_op_of_def)

end
