(* ===== verification/Examples.thy ===== *)
theory Examples
  imports Compiler_Trees
begin

text \<open>
  The three programs under \<^verbatim>\<open>examples/\<close> from end to end: arenas over one page-aligned block of buffers, a
  graph, its compilation, and the run of the code in a fresh page. The addresses of the locals are a
  parameter, and so is the operating system: \<^verbatim>\<open>mmap\<close>, \<^verbatim>\<open>mprotect\<close>, \<^verbatim>\<open>munmap\<close> and the run of machine code.
\<close>

section \<open>Buffers and arenas\<close>

record frame =
  frame_buffers :: u64
  frame_temps :: u64
  frame_memory :: u64
  frame_proc :: u64
  frame_code :: u64
  frame_specs :: u64

text \<open>The \<open>i\<close>-th of the four arrays of \<open>n\<close> bytes in \<^verbatim>\<open>MinAligned([[0u8; n]; 4])\<close>.\<close>

definition sub_buffer :: "frame \<Rightarrow> usize \<Rightarrow> nat \<Rightarrow> slice_ref" where
  "sub_buffer fr n i = \<lparr>ref_ptr = frame_buffers fr + of_nat i * n, ref_len = n\<rparr>"

definition place_arena :: "u64 \<Rightarrow> slice_ref \<Rightarrow> unit act" where
  "place_arena a buffer =
     bindM (liftM (Arena_from_buffer buffer)) (\<lambda>arena. modifyM (set_arena a arena))"

definition start_proc :: "backend \<Rightarrow> frame \<Rightarrow> usize \<Rightarrow> u64 act" where
  "start_proc bac fr n =
     bindM (place_arena (temps_arena (frame_temps fr) 0) (sub_buffer fr n 0)) (\<lambda>_.
     bindM (place_arena (temps_arena (frame_temps fr) 1) (sub_buffer fr n 1)) (\<lambda>_.
     bindM (place_arena (frame_memory fr) (sub_buffer fr n 2)) (\<lambda>_.
     Proc_new bac (frame_proc fr) (frame_memory fr) (frame_temps fr))))"

section \<open>Running code\<close>

record os =
  os_mmap :: "u64 \<Rightarrow> usize \<Rightarrow> u32 \<Rightarrow> u32 \<Rightarrow> u32 \<Rightarrow> isize \<Rightarrow> u64 act"
  os_mprotect :: "u64 \<Rightarrow> usize \<Rightarrow> u32 \<Rightarrow> u32 act"
  os_munmap :: "u64 \<Rightarrow> usize \<Rightarrow> u32 act"
  os_call :: "u64 \<Rightarrow> u64 list \<Rightarrow> u64 act"

text \<open>\<open>msg\<close> is the text of the assertion, in which the examples name the code differently.\<close>

definition load_code :: "os \<Rightarrow> string \<Rightarrow> slice_ref \<Rightarrow> u64 act" where
  "load_code os msg output =
     bindM (assertM (ref_len output \<noteq> 0 \<and> ref_len output \<le> 4096) msg) (\<lambda>_.
     bindM (os_mmap os 0 4096 (1 OR 2) (2 OR 0x20) (- 1) 0) (\<lambda>page.
     bindM (assertM (page \<noteq> - 1) ''assertion `left != right` failed'') (\<lambda>_.
     bindM (copy_nonoverlapping (ref_ptr output) page (unat (ref_len output))) (\<lambda>_.
     bindM (os_mprotect os page 4096 (1 OR 4)) (\<lambda>r.
     bindM (assertM (r = 0) ''assertion `left == right` failed'') (\<lambda>_.
     ret page))))))"

definition unload_code :: "os \<Rightarrow> u64 \<Rightarrow> unit act" where
  "unload_code os page =
     bindM (os_munmap os page 4096) (\<lambda>r. assertM (r = 0) ''assertion `left == right` failed'')"

section \<open>compiler.rs\<close>

definition run_statements :: "backend \<Rightarrow> (string \<Rightarrow> slice_ref) \<Rightarrow> fault \<Rightarrow> Compiler \<Rightarrow> unit act" where
  "run_statements bac lit oof c =
     (\<lambda>m. case Compiler_program bac lit oof (2 * length (comp_tokens c) + 2) (c, m) of (r, (c', m')) \<Rightarrow> (r, m'))"

definition run_compile :: "backend \<Rightarrow> frame \<Rightarrow> usize \<Rightarrow> slice_ref option \<Rightarrow> slice_ref act" where
  "run_compile bac fr n specs =
     bindM (place_arena (frame_code fr) (sub_buffer fr n 3)) (\<lambda>_.
     bindM (liftM (case specs of
              None \<Rightarrow> Inr (CodegenEmitCtx_new (frame_proc fr) (frame_code fr))
            | Some specs \<Rightarrow> CodegenEmitCtx_set_params (CodegenEmitCtx_new (frame_proc fr) (frame_code fr)) specs)) (\<lambda>ctx.
     bindM (CodegenEmitCtx_compile bac ctx) (\<lambda>output.
     ret (output_code output))))"

definition compiler_run :: "backend \<Rightarrow> os \<Rightarrow> (string \<Rightarrow> slice_ref) \<Rightarrow> fault \<Rightarrow> frame \<Rightarrow> string \<Rightarrow> u64 act" where
  "compiler_run bac os lit oof fr source =
     bindM (start_proc bac fr (4096 * 4)) (\<lambda>prc.
     bindM (Builder_entry bac (Proc_builder prc)) (\<lambda>entry.
     bindM (Builder_add_scope bac (Proc_builder prc) (lit ''scope'') entry) (\<lambda>scope.
     bindM (run_statements bac lit oof \<lparr>comp_proc = prc, comp_tokens = split_whitespace source,
              comp_scope = scope, comp_variables = [], comp_loops = []\<rparr>) (\<lambda>_.
     bindM (run_compile bac fr (4096 * 4) None) (\<lambda>output.
     bindM (load_code os ''assertion failed: !output.is_empty() && output.len() <= 4096'' output) (\<lambda>page.
     bindM (os_call os page []) (\<lambda>result.
     bindM (unload_code os page) (\<lambda>_.
     ret result))))))))"

definition compiler_main :: "backend \<Rightarrow> os \<Rightarrow> (string \<Rightarrow> slice_ref) \<Rightarrow> fault \<Rightarrow> frame \<Rightarrow> unit act" where
  "compiler_main bac os lit oof fr =
     bindM (compiler_run bac os lit oof fr PROGRAM) (\<lambda>result.
     assertM (result = 30) ''assertion `left == right` failed'')"

section \<open>constant.rs\<close>

definition constant_graph :: "backend \<Rightarrow> (string \<Rightarrow> slice_ref) \<Rightarrow> u64 \<Rightarrow> unit act" where
  "constant_graph bac lit builder =
     bindM (Builder_add_c_int bac builder (lit ''mcnst'') Datatype_I64 69) (\<lambda>v.
     bindM (Builder_entry bac builder) (\<lambda>entry.
     bindM (Builder_initial_memory bac builder) (\<lambda>mem.
     bindM (Builder_merge_return bac builder [entry, mem, v]) (\<lambda>_.
     ret ()))))"

definition constant_main :: "backend \<Rightarrow> os \<Rightarrow> (string \<Rightarrow> slice_ref) \<Rightarrow> frame \<Rightarrow> u32 act" where
  "constant_main bac os lit fr =
     bindM (start_proc bac fr 4096) (\<lambda>prc.
     bindM (constant_graph bac lit (Proc_builder prc)) (\<lambda>_.
     bindM (run_compile bac fr 4096 None) (\<lambda>output.
     bindM (load_code os ''assertion failed: !output.code.is_empty() && output.code.len() <= 4096'' output) (\<lambda>page.
     bindM (os_call os page []) (\<lambda>result.
     bindM (unload_code os page) (\<lambda>_.
     bindM (assertM (result = 69) ''assertion `left == right` failed'') (\<lambda>_.
     ret (ucast result))))))))"

section \<open>sum.rs\<close>

text \<open>\<^verbatim>\<open>copy_from_slice\<close> into the local array of two \<^verbatim>\<open>ParamSpec\<close>s, of 8 bytes each.\<close>

definition copy_specs :: "u64 \<Rightarrow> slice_ref \<Rightarrow> unit act" where
  "copy_specs dst specs =
     bindM (assertM (ref_len specs = 2)
              ''copy_from_slice: source slice length does not match destination slice length'') (\<lambda>_.
     copy_nonoverlapping (ref_ptr specs) dst 16)"

definition sum_graph :: "backend \<Rightarrow> (string \<Rightarrow> slice_ref) \<Rightarrow> frame \<Rightarrow> u64 \<Rightarrow> unit act" where
  "sum_graph bac lit fr builder =
     bindM (Builder_initial_memory bac builder) (\<lambda>mem.
     bindM (liftM (AbiParam_new [Datatype_I64])) (\<lambda>int_spec.
     let int_spec = int_spec\<lparr>abi_scalar := True\<rparr> in
     bindM (ParamGen_next bac (Builder_param_gen builder) mem (lit ''left'') int_spec) (\<lambda>(params, mem, left).
     bindM (ParamGen_next bac params mem (lit ''right'') int_spec) (\<lambda>(params, mem, right).
     bindM (ParamGen_finalize bac params) (\<lambda>specs.
     bindM (copy_specs (frame_specs fr) specs) (\<lambda>_.
     bindM (Builder_add_bin_op bac builder (lit ''sum'') 28 Datatype_I64 left right Lane_I8) (\<lambda>sum.
     bindM (Builder_entry bac builder) (\<lambda>entry.
     bindM (Builder_merge_return bac builder [entry, mem, sum]) (\<lambda>_.
     ret ())))))))))"

definition sum_main :: "backend \<Rightarrow> os \<Rightarrow> (string \<Rightarrow> slice_ref) \<Rightarrow> frame \<Rightarrow> unit act" where
  "sum_main bac os lit fr =
     bindM (start_proc bac fr 4096) (\<lambda>prc.
     bindM (modifyM (write_bytes (frame_specs fr) (replicate 16 0))) (\<lambda>_.
     bindM (sum_graph bac lit fr (Proc_builder prc)) (\<lambda>_.
     bindM (run_compile bac fr 4096 (Some \<lparr>ref_ptr = frame_specs fr, ref_len = 2\<rparr>)) (\<lambda>output.
     bindM (load_code os ''assertion failed: !output.code.is_empty() && output.code.len() <= 4096'' output) (\<lambda>page.
     bindM (forM [(27, 42), (- 10, 3), (0, 0), (push_bit 40 1, 9)] (\<lambda>(left, right).
       bindM (os_call os page [left, right]) (\<lambda>result.
       assertM (result = left + right) ''assertion `left == right` failed''))) (\<lambda>_.
     unload_code os page))))))"

section \<open>The compiler, by trees\<close>

text \<open>What \<^verbatim>\<open>run\<close> should do for a tree: build it in a new graph, compile it, run the code.\<close>

definition build_tree :: "backend \<Rightarrow> (string \<Rightarrow> slice_ref) \<Rightarrow> u64 \<Rightarrow> u64 \<Rightarrow> stmt list \<Rightarrow> unit act" where
  "build_tree bac lit prc scope ss =
     (\<lambda>m. case emit_stmts bac lit ss
        (\<lparr>comp_proc = prc, comp_tokens = [], comp_scope = scope, comp_variables = [], comp_loops = []\<rparr>, m) of
        (r, (c', m')) \<Rightarrow> (r, m'))"

definition tree_run :: "backend \<Rightarrow> os \<Rightarrow> (string \<Rightarrow> slice_ref) \<Rightarrow> frame \<Rightarrow> stmt list \<Rightarrow> u64 act" where
  "tree_run bac os lit fr ss =
     bindM (start_proc bac fr (4096 * 4)) (\<lambda>prc.
     bindM (Builder_entry bac prc) (\<lambda>entry.
     bindM (Builder_add_scope bac prc (lit ''scope'') entry) (\<lambda>scope.
     bindM (build_tree bac lit prc scope ss) (\<lambda>_.
     bindM (run_compile bac fr (4096 * 4) None) (\<lambda>output.
     bindM (load_code os ''assertion failed: !output.is_empty() && output.len() <= 4096'' output) (\<lambda>page.
     bindM (os_call os page []) (\<lambda>result.
     bindM (unload_code os page) (\<lambda>_.
     ret result))))))))"

lemma run_statements_tree:
  assumes "comp_tokens c = print_stmts ss" "stmts_ok ss"
  shows "run_statements bac lit oof c m =
    (case emit_stmts bac lit ss (c\<lparr>comp_tokens := []\<rparr>, m) of (r, (c', m')) \<Rightarrow> (r, m'))"
proof -
  obtain r c' m' where r: "Compiler_program bac lit oof (2 * length (comp_tokens c) + 2) (c, m) = (r, (c', m'))"
    by (metis surj_pair)
  then have "emit_stmts bac lit ss (c\<lparr>comp_tokens := []\<rparr>, m) = (r, (c'\<lparr>comp_tokens := []\<rparr>, m'))"
    by (rule program_follows_tree [OF assms, THEN conjunct1])
  then show ?thesis using r by (simp add: run_statements_def)
qed

section \<open>The buffers\<close>

definition sample_os :: os where
  "sample_os = \<lparr>os_mmap = (\<lambda>_ _ _ _ _ _. ret 0x20000), os_mprotect = (\<lambda>_ _ _. ret 0), os_munmap = (\<lambda>_ _. ret 0),
     os_call = (\<lambda>_ _. ret 69)\<rparr>"

definition sample_frame :: frame where
  "sample_frame = \<lparr>frame_buffers = 0x10000, frame_temps = 0x100, frame_memory = 0x200, frame_proc = 0x300,
     frame_code = 0x400, frame_specs = 0x500\<rparr>"

definition frame_ok :: "frame \<Rightarrow> usize \<Rightarrow> bool" where
  "frame_ok fr n \<longleftrightarrow> frame_buffers fr \<noteq> 0 \<and> 4096 dvd unat (frame_buffers fr) \<and> region_ok (frame_buffers fr) (4 * unat n) \<and>
     distinct [temps_arena (frame_temps fr) 0, temps_arena (frame_temps fr) 1, frame_memory fr]"

lemma sub_buffer_unat:
  assumes "frame_ok fr n" "i < 4"
  shows "unat (ref_ptr (sub_buffer fr n i)) = unat (frame_buffers fr) + i * unat n"
proof -
  have "i * unat n \<le> 3 * unat n" using assms(2) by (intro mult_right_mono) auto
  moreover have "unat (frame_buffers fr) + 4 * unat n < 2 ^ 64" using assms(1) by (simp add: frame_ok_def region_ok_def)
  ultimately have le: "unat (frame_buffers fr) + i * unat n < 2 ^ 64" by linarith
  have "frame_buffers fr + of_nat i * n = of_nat (unat (frame_buffers fr) + i * unat n)" by simp
  then show ?thesis using le by (simp add: sub_buffer_def del: of_nat_add of_nat_mult)
qed

lemma sub_buffers_apart:
  assumes "frame_ok fr n" "i < 4" "j < 4" "i \<noteq> j"
  shows "apart (ref_ptr (sub_buffer fr n i)) (unat n) (ref_ptr (sub_buffer fr n j)) (unat n)"
proof -
  have "i * unat n + unat n \<le> j * unat n \<or> j * unat n + unat n \<le> i * unat n"
    using assms(4) mult_le_mono1 [of "Suc i" j "unat n"] mult_le_mono1 [of "Suc j" i "unat n"] by (simp add: nat_neq_iff) arith
  then show ?thesis using assms by (auto simp: apart_def sub_buffer_unat)
qed

lemma sub_buffer_arena:
  assumes "frame_ok fr n" "i < 4" "n = 4096 \<or> n = 16384"
  shows "\<exists>x. Arena_from_buffer (sub_buffer fr n i) = Inr x \<and> arena_ok x \<and> arena_pos x = 0 \<and> arena_reserved x = n \<and>
    arena_ptr x = ref_ptr (sub_buffer fr n i)"
proof -
  let ?p = "ref_ptr (sub_buffer fr n i)"
  note u = sub_buffer_unat [OF assms(1,2)]
  have d: "4096 dvd unat (frame_buffers fr)" "4096 dvd unat n" using assms by (auto simp: frame_ok_def)
  then have dvd: "4096 dvd unat ?p" unfolding u by simp
  then have "unat (?p mod MIN_ALIGN) = 0" by (simp add: unat_mod MIN_ALIGN_def)
  then have al: "?p mod MIN_ALIGN = 0" by (simp add: unat_eq_0)
  have "i * unat n \<le> 3 * unat n" using assms(2) by (intro mult_right_mono) auto
  moreover have "unat (frame_buffers fr) + 4 * unat n < 2 ^ 64" using assms(1) by (simp add: frame_ok_def region_ok_def)
  ultimately have r: "region_ok ?p (unat n)" unfolding region_ok_def u by linarith
  have nz: "?p \<noteq> 0" using u assms(1) by (metis add_is_0 frame_ok_def unat_eq_0 unat_0)
  have "unat n < isize_max" "n < n + 1" using assms(3) by (auto simp: isize_max_def)
  then show ?thesis
    using al dvd r nz by (auto simp: Arena_from_buffer_def arena_raw_def init_from_buffer_def arena_ok_def sub_buffer_def)
qed

lemma place_arena_ok: "Arena_from_buffer b = Inr x \<Longrightarrow> place_arena a b m = (Inr (), set_arena a x m)"
  by (simp add: place_arena_def)

section \<open>Properties\<close>

text \<open>
  C15: the example compiler from end to end. For a source whose words are those of a well-formed tree, \<^verbatim>\<open>run\<close>
  is the tree's own run: whatever the library and the operating system do, the outcome and the final
  state are the same, and the fuel plays no part.
\<close>

theorem compiler_run_follows_tree:
  assumes "split_whitespace source = print_stmts ss" "stmts_ok ss"
  shows "compiler_run bac os lit oof fr source = tree_run bac os lit fr ss"
proof -
  have "run_statements bac lit oof \<lparr>comp_proc = prc, comp_tokens = split_whitespace source, comp_scope = scope,
      comp_variables = [], comp_loops = []\<rparr> = build_tree bac lit prc scope ss" for prc scope
    by (rule ext) (simp add: run_statements_tree assms build_tree_def)
  then show ?thesis by (simp add: compiler_run_def tree_run_def Proc_builder_def)
qed

theorem compiler_run_follows_tree_witness:
  "compiler_main slot_library sample_os sample_lit (Panic []) sample_frame =
   bindM (tree_run slot_library sample_os sample_lit sample_frame PROGRAM_tree) (\<lambda>result.
     assertM (result = 30) ''assertion `left == right` failed'')"
  unfolding compiler_main_def compiler_run_follows_tree [OF PROGRAM_tokens PROGRAM_ok] by simp

text \<open>
  The buffers of the examples. In a block that is aligned the way \<^verbatim>\<open>MinAligned\<close> says, none of the arenas is
  refused; the library starts the graph with three empty, well-formed arenas over separate buffers of
  the whole size, in a fresh \<^verbatim>\<open>Proc\<close>.
\<close>

lemma examples_start_clean:
  assumes "frame_ok fr n" "n = 4096 \<or> n = 16384"
  shows "\<exists>m1. start_proc bac fr n m =
      bindM (call bac ''bac_start_proc''
              [Proc_ptr (frame_proc fr), C_ptr (T_struct ''arna_Allocator'') (frame_memory fr),
               C_ptr (T_struct ''arna_Temps'') (frame_temps fr)] as_u32) (\<lambda>_. ret (frame_proc fr)) m1 \<and>
    procs m1 (frame_proc fr) = sys_Proc_default \<and> memory m1 = memory m \<and>
    (\<forall>a \<in> {temps_arena (frame_temps fr) 0, temps_arena (frame_temps fr) 1, frame_memory fr}.
      arena_ok (arenas m1 a) \<and> arena_pos (arenas m1 a) = 0 \<and> arena_reserved (arenas m1 a) = n \<and>
      (\<forall>b \<in> {temps_arena (frame_temps fr) 0, temps_arena (frame_temps fr) 1, frame_memory fr} - {a}.
        apart (arena_ptr (arenas m1 a)) (unat n) (arena_ptr (arenas m1 b)) (unat n)))"
proof -
  let ?t0 = "temps_arena (frame_temps fr) 0" and ?t1 = "temps_arena (frame_temps fr) 1" and ?mem = "frame_memory fr"
  obtain x0 where x0: "Arena_from_buffer (sub_buffer fr n 0) = Inr x0" "arena_ok x0" "arena_pos x0 = 0" "arena_reserved x0 = n"
    "arena_ptr x0 = ref_ptr (sub_buffer fr n 0)"
    using sub_buffer_arena [OF assms(1) _ assms(2), of 0] by auto
  obtain x1 where x1: "Arena_from_buffer (sub_buffer fr n 1) = Inr x1" "arena_ok x1" "arena_pos x1 = 0" "arena_reserved x1 = n"
    "arena_ptr x1 = ref_ptr (sub_buffer fr n 1)"
    using sub_buffer_arena [OF assms(1) _ assms(2), of 1] by auto
  obtain x2 where x2: "Arena_from_buffer (sub_buffer fr n 2) = Inr x2" "arena_ok x2" "arena_pos x2 = 0" "arena_reserved x2 = n"
    "arena_ptr x2 = ref_ptr (sub_buffer fr n 2)"
    using sub_buffer_arena [OF assms(1) _ assms(2), of 2] by auto
  have d: "?t0 \<noteq> ?t1" "?t0 \<noteq> ?mem" "?t1 \<noteq> ?mem" using assms(1) by (auto simp: frame_ok_def)
  note ap = sub_buffers_apart [OF assms(1)]
  let ?m = "set_proc (frame_proc fr) sys_Proc_default (set_arena ?mem x2 (set_arena ?t1 x1 (set_arena ?t0 x0 m)))"
  have "start_proc bac fr n m =
      bindM (call bac ''bac_start_proc''
              [Proc_ptr (frame_proc fr), C_ptr (T_struct ''arna_Allocator'') (frame_memory fr),
               C_ptr (T_struct ''arna_Temps'') (frame_temps fr)] as_u32) (\<lambda>_. ret (frame_proc fr)) ?m"
    by (simp add: start_proc_def place_arena_ok [OF x0(1)] place_arena_ok [OF x1(1)] place_arena_ok [OF x2(1)]
        Proc_new_def del: One_nat_def)
  moreover have "arenas ?m ?t0 = x0" "arenas ?m ?t1 = x1" "arenas ?m ?mem = x2" using d by auto
  ultimately show ?thesis
    using d x0 x1 x2 ap [of 0 1] ap [of 0 2] ap [of 1 0] ap [of 1 2] ap [of 2 0] ap [of 2 1]
    by (intro exI [of _ ?m]) auto
qed

text \<open>
  What the manual pages promise: a new mapping is a page of its own or an error, neither it nor a change
  of protection alters other memory, and a change of protection leaves the page's bytes.
\<close>

definition os_ok :: "os \<Rightarrow> u64 \<Rightarrow> nat \<Rightarrow> bool" where
  "os_ok os p n \<longleftrightarrow>
     (\<forall>m. \<exists>page m1. os_mmap os 0 4096 3 0x22 (- 1) 0 m = (Inr page, m1) \<and>
        load_bytes (memory m1) p n = load_bytes (memory m) p n \<and>
        (page \<noteq> - 1 \<longrightarrow> page \<noteq> 0 \<and> region_ok page 4096 \<and> apart page 4096 p n)) \<and>
     (\<forall>page m. \<exists>r m1. os_mprotect os page 4096 5 m = (Inr r, m1) \<and> memory m1 = memory m)"

lemma sample_os_ok: "os_ok sample_os 0x1000 4"
  by (simp add: os_ok_def sample_os_def region_ok_def apart_def ret_apply)

text \<open>
  C37: what is run is what was compiled. If the operating system does what its manual says, loading the
  code is never undefined, and when it returns, the page holds exactly the compiler's output, which
  fits in it, and the output itself is unchanged.
\<close>

theorem loaded_code_is_output:
  assumes "os_ok os (ref_ptr output) (unat (ref_len output))" "ref_ptr output \<noteq> 0"
    "region_ok (ref_ptr output) (unat (ref_len output))" "load_code os msg output m = (r, m')"
  shows "(\<forall>e. r \<noteq> Inl (Ub e)) \<and>
    (\<forall>page. r = Inr page \<longrightarrow> 0 < unat (ref_len output) \<and> unat (ref_len output) \<le> 4096 \<and>
      load_bytes (memory m') page (unat (ref_len output)) = load_bytes (memory m) (ref_ptr output) (unat (ref_len output)) \<and>
      load_bytes (memory m') (ref_ptr output) (unat (ref_len output)) =
        load_bytes (memory m) (ref_ptr output) (unat (ref_len output)))"
proof -
  let ?p = "ref_ptr output" and ?n = "unat (ref_len output)"
  obtain page m1 where mm: "os_mmap os 0 4096 3 0x22 (- 1) 0 m = (Inr page, m1)"
    "load_bytes (memory m1) ?p ?n = load_bytes (memory m) ?p ?n"
    "page \<noteq> - 1 \<Longrightarrow> page \<noteq> 0 \<and> region_ok page 4096 \<and> apart page 4096 ?p ?n"
    using assms(1) unfolding os_ok_def by meson
  let ?m2 = "write_bytes page (load_bytes (memory m1) ?p ?n) m1"
  obtain x m3 where mp: "os_mprotect os page 4096 5 ?m2 = (Inr x, m3)" "memory m3 = memory ?m2"
    using assms(1) unfolding os_ok_def by meson
  have len: "ref_len output \<noteq> 0 \<and> ref_len output \<le> 4096 \<longleftrightarrow> 0 < ?n \<and> ?n \<le> 4096"
    by (auto simp: word_le_nat_alt unat_gt_0)
  show ?thesis
  proof (cases "(0 < ?n \<and> ?n \<le> 4096) \<and> page \<noteq> - 1")
    case False
    then have "\<exists>e. r = Inl (Panic e)"
      using assms(4) mm(1) unfolding load_code_def len
      by (cases "0 < ?n \<and> ?n \<le> 4096") (auto simp: bindM_apply assertM_def fail_apply)
    then show ?thesis by auto
  next
    case True
    then have pg: "page \<noteq> 0" "region_ok page 4096" "apart page 4096 ?p ?n" using mm(3) by auto
    then have ap: "region_ok page ?n" "apart page ?n ?p ?n" "apart ?p ?n page ?n"
      using True by (auto simp: region_ok_def apart_def)
    have "copy_nonoverlapping ?p page ?n m1 = (Inr (), ?m2)"
      using assms(2,3) pg ap by (intro copy_nonoverlapping_ok) auto
    then have lc: "load_code os msg output m = (if x = 0 then Inr page else Inl (Panic ''assertion `left == right` failed''), m3)"
      using True mm(1) mp(1) unfolding load_code_def len by (simp add: assertM_apply ret_apply)
    have "load_bytes (memory ?m2) page ?n = load_bytes (memory m1) ?p ?n"
      using load_store_same [of "load_bytes (memory m1) ?p ?n" "memory m1" page] True by simp
    moreover have "load_bytes (memory ?m2) ?p ?n = load_bytes (memory m1) ?p ?n"
      using ap assms(3) by (simp add: load_store_apart)
    ultimately show ?thesis using lc assms(4) mm(2) mp(2) True by (auto split: if_splits)
  qed
qed

theorem loaded_code_is_output_witness:
  "load_bytes (memory (snd (load_code sample_os [] \<lparr>ref_ptr = 0x1000, ref_len = 4\<rparr> sample_graph))) 0x20000 4 =
     load_bytes (memory sample_graph) 0x1000 4"
proof -
  let ?o = "\<lparr>ref_ptr = 0x1000, ref_len = 4\<rparr> :: slice_ref"
  have h: "os_ok sample_os (ref_ptr ?o) (unat (ref_len ?o))" "ref_ptr ?o \<noteq> 0" "region_ok (ref_ptr ?o) (unat (ref_len ?o))"
    using sample_os_ok by (simp_all add: region_ok_def)
  have "fst (load_code sample_os [] ?o sample_graph) = Inr 0x20000"
    by (simp add: load_code_def sample_os_def copy_nonoverlapping_def region_ok_def apart_def bindM_apply ret_apply
        assertM_apply)
  then obtain m' where "load_code sample_os [] ?o sample_graph = (Inr 0x20000, m')" by (metis prod.collapse)
  with loaded_code_is_output [OF h this] show ?thesis by auto
qed

end
