(* ===== verification/Build.thy ===== *)
theory Build
  imports Prelude
begin

text \<open>
  The build script of the crate (\<^verbatim>\<open>build.rs\<close>): which prebuilt object it links, and what it tells Cargo. The
  environment and the file system are parameters; paths are Unix paths. The names of the objects that
  the project builds are those of \<^verbatim>\<open>prebuild-libs\<close> in \<^verbatim>\<open>script.odin\<close>.
\<close>

section \<open>The script\<close>



definition odin_arch :: "string \<Rightarrow> string" where
  "odin_arch arch =
     (let arch = (if arch = ''x86_64'' then ''amd64'' else arch)
      in if arch = ''aarch64'' then ''arm64'' else arch)"

definition lib_name :: "string \<Rightarrow> string \<Rightarrow> string \<Rightarrow> bool \<Rightarrow> string" where
  "lib_name arch os target_env is_debug =
     (let lib = (if is_debug then ''libdebug'' else ''lib'')
      in if os = ''windows'' \<and> arch = ''amd64'' \<and> target_env = ''gnu''
         then os @ ''_'' @ arch @ ''_gnu_'' @ lib @ ''.o''
         else os @ ''_'' @ arch @ ''_'' @ lib @ ''.o'')"







section \<open>The prebuilt objects\<close>

definition TARGETS :: "string list" where
  "TARGETS = [''windows_amd64'', ''linux_amd64'', ''linux_arm64'', ''darwin_arm64'']"

text \<open>\<open>objcopy\<close>: whether the MinGW tool that makes the objects for the GNU toolchain is installed.\<close>

definition prebuilt :: "bool \<Rightarrow> string list" where
  "prebuilt objcopy =
     concat (map (\<lambda>tar. [tar @ ''_libdebug.o'', tar @ ''_lib.o''] @
       (if objcopy \<and> tar = ''windows_amd64''
        then map (\<lambda>lib. tar @ ''_gnu_'' @ lib @ ''.o'') [''libdebug'', ''lib''] else [])) TARGETS)"

section \<open>Properties\<close>


text \<open>
  The build script finds a prebuilt object, debug and release, for x86-64 and arm64 Linux and for x86-64 Windows (with the MinGW tool also for the
  GNU toolchain), and but for the two of macOS every prebuilt object is one that it looks for. It does not find those of
  macOS: there Rust says \<^verbatim>\<open>macos\<close> where the object's name says \<^verbatim>\<open>darwin\<close>.
\<close>

lemma build_names_match_prebuilt:
  "set (map (\<lambda>(arch, os, target_env, dbg). lib_name (odin_arch arch) os target_env dbg)
      (List.product [''x86_64'', ''aarch64''] (List.product [''linux''] (List.product [''gnu'', ''musl''] [True, False])) @
       List.product [''x86_64''] (List.product [''windows''] (List.product [''gnu'', ''msvc''] [True, False])))) \<subseteq>
     set (prebuilt True) \<and>
   set (prebuilt True) = set (map (\<lambda>(arch, os, target_env, dbg). lib_name (odin_arch arch) os target_env dbg)
      (List.product [''x86_64'', ''aarch64''] (List.product [''linux''] (List.product [''gnu''] [True, False])) @
       List.product [''x86_64''] (List.product [''windows''] (List.product [''gnu'', ''msvc''] [True, False])))) \<union>
     {''darwin_arm64_lib.o'', ''darwin_arm64_libdebug.o''} \<and>
   lib_name (odin_arch ''aarch64'') ''macos'' target_env dbg \<notin> set (prebuilt objcopy)"
proof (intro conjI)
  show "lib_name (odin_arch ''aarch64'') ''macos'' target_env dbg \<notin> set (prebuilt objcopy)"
    by (simp add: lib_name_def odin_arch_def prebuilt_def TARGETS_def)
qed (simp_all add: lib_name_def odin_arch_def prebuilt_def TARGETS_def, auto)




end
