(* ===== verification/Masks.thy ===== *)
theory Masks
  imports Prelude
begin

text \<open>
  Loops over the bits of a mask, lowest first: the lowest bit is found by counting zeros and cleared by \<^verbatim>\<open>mask &= mask - 1\<close>. The
  vector scan of the interner and the bit sets do so, with masks of different widths. What both promise is an
  interface: an iterator that has a list of things yet to visit.
\<close>

definition count_trailing_zeros :: "'a :: len word \<Rightarrow> nat" where
  "count_trailing_zeros m = length (takeWhile (\<lambda>k. \<not> bit m k) [0..<LENGTH('a)])"

section \<open>The lowest bit\<close>

lemma bit_lowest_cleared_int:
  "bit n k \<Longrightarrow> \<forall>j < k. \<not> bit n j \<Longrightarrow> bit (n AND (n - 1)) j \<longleftrightarrow> bit n j \<and> j \<noteq> k" for n :: int
proof (induction k arbitrary: n j)
  case 0
  then obtain a where n: "n = 2 * a + 1" by (auto simp: bit_0 elim: oddE)
  show ?case unfolding bit_and_iff n by (cases j) (simp_all add: bit_0 bit_Suc)
next
  case (Suc k)
  have "\<not> bit n 0" using Suc.prems(2) by blast
  then obtain a where n: "n = 2 * a" by (auto simp: bit_0 elim: evenE)
  have a: "bit a k" "\<forall>j < k. \<not> bit a j" using Suc.prems by (auto simp: n bit_double_iff)
  show ?case
  proof (cases j)
    case 0
    then show ?thesis unfolding bit_and_iff n by (simp add: bit_0)
  next
    case (Suc i)
    moreover have "n div 2 = a" "(n - 1) div 2 = a - 1" unfolding n by presburger+
    ultimately have "bit n j = bit a i" "bit (n - 1) j = bit (a - 1) i" by (simp_all add: bit_Suc)
    then show ?thesis using Suc.IH [OF a, of i] \<open>j = Suc i\<close> unfolding bit_and_iff by auto
  qed
qed

lemma bit_lowest_cleared:
  fixes m :: "'a :: len word"
  assumes "bit m k" "\<forall>j < k. \<not> bit m j"
  shows "bit (m AND (m - 1)) j \<longleftrightarrow> bit m j \<and> j \<noteq> k"
proof -
  have k: "bit (uint m) k" "\<forall>j < k. \<not> bit (uint m) j"
    using assms by (auto simp: bit_uint_iff dest: bit_imp_le_length)
  have "m \<noteq> 0" using assms(1) by auto
  then have "uint (m - 1) = uint m - 1"
    by (metis uint_minus_simple_alt unsigned_1 word_less_1 not_le word_le_def)
  then have "uint (m AND (m - 1)) = uint m AND (uint m - 1)" by (simp add: unsigned_and_eq)
  then have "bit (uint (m AND (m - 1))) j \<longleftrightarrow> bit (uint m) j \<and> j \<noteq> k" using bit_lowest_cleared_int [OF k] by simp
  then show ?thesis by (auto simp: bit_uint_iff dest: bit_imp_le_length)
qed

text \<open>The bits set in a mask, in order.\<close>

definition mask_members :: "'a :: len word \<Rightarrow> nat list" where
  "mask_members m = filter (bit m) [0..<LENGTH('a)]"

lemma mask_members_0: "mask_members 0 = []"
  by (simp add: mask_members_def)

lemma mask_members_Cons:
  fixes m :: "'a :: len word"
  assumes "m \<noteq> 0"
  shows "mask_members m = count_trailing_zeros m # mask_members (m AND (m - 1))"
proof -
  let ?k = "count_trailing_zeros m"
  obtain i where "bit m i" using assms by (auto simp: bit_eq_iff)
  then have i: "bit m i" "i < LENGTH('a)" using bit_imp_le_length [of m i] by auto
  have split: "[0..<LENGTH('a)] = takeWhile (\<lambda>k. \<not> bit m k) [0..<LENGTH('a)] @ dropWhile (\<lambda>k. \<not> bit m k) [0..<LENGTH('a)]" by simp
  have below: "?k < LENGTH('a)"
  proof (rule ccontr)
    assume "\<not> ?k < LENGTH('a)"
    moreover have "?k \<le> LENGTH('a)" unfolding count_trailing_zeros_def by (metis length_takeWhile_le length_upt diff_zero)
    ultimately have "takeWhile (\<lambda>k. \<not> bit m k) [0..<LENGTH('a)] = [0..<LENGTH('a)]"
      unfolding count_trailing_zeros_def by (metis length_upt diff_zero le_antisym not_le split append_eq_conv_conj take_all_iff)
    then show False using i by (metis atLeastLessThan_upt set_upt atLeastLessThan_iff le0 set_takeWhileD)
  qed
  have low: "\<forall>j < ?k. \<not> bit m j"
  proof (intro allI impI)
    fix j assume "j < ?k"
    then have "[0..<LENGTH('a)] ! j = j" "takeWhile (\<lambda>k. \<not> bit m k) [0..<LENGTH('a)] ! j = [0..<LENGTH('a)] ! j"
      using below by (simp_all add: count_trailing_zeros_def takeWhile_nth)
    then show "\<not> bit m j"
      using \<open>j < ?k\<close> by (metis count_trailing_zeros_def nth_mem set_takeWhileD)
  qed
  have at: "bit m ?k"
    using nth_length_takeWhile [of "\<lambda>k. \<not> bit m k" "[0..<LENGTH('a)]"] below by (simp add: count_trailing_zeros_def)
  have at_k: "[0..<LENGTH('a)] = [0..<?k] @ ?k # [Suc ?k..<LENGTH('a)]"
    using below upt_add_eq_append [of 0 ?k "LENGTH('a) - ?k"] by (simp add: upt_conv_Cons)
  have "mask_members m = filter (bit m) [0..<?k] @ ?k # filter (bit m) [Suc ?k..<LENGTH('a)]"
    unfolding mask_members_def at_k using at by simp
  moreover have "mask_members (m AND (m - 1)) = filter (\<lambda>j. bit m j \<and> j \<noteq> ?k) ([0..<?k] @ ?k # [Suc ?k..<LENGTH('a)])"
    unfolding mask_members_def at_k by (rule filter_cong [OF refl]) (rule bit_lowest_cleared [OF at low])
  moreover have "filter (\<lambda>j. bit m j \<and> j \<noteq> ?k) [Suc ?k..<LENGTH('a)] = filter (bit m) [Suc ?k..<LENGTH('a)]"
    by (rule filter_cong) auto
  moreover have "filter (bit m) [0..<?k] = []" "filter (\<lambda>j. bit m j \<and> j \<noteq> ?k) [0..<?k] = []" using low by auto
  ultimately show ?thesis by simp
qed

section \<open>Iterators\<close>

text \<open>The numbers over which a loop \<^verbatim>\<open>for x in next(&it)\<close> runs, at most \<open>fuel\<close> of them.\<close>

primrec iterate :: "('s \<Rightarrow> ('x \<times> 's) option) \<Rightarrow> nat \<Rightarrow> 's \<Rightarrow> 'x list" where
  "iterate nxt 0 s = []"
| "iterate nxt (Suc fuel) s = (case nxt s of None \<Rightarrow> [] | Some (x, s') \<Rightarrow> x # iterate nxt fuel s')"

locale iterator =
  fixes nxt :: "'s \<Rightarrow> ('x \<times> 's) option" and todo :: "'s \<Rightarrow> 'x list \<Rightarrow> bool"
  assumes nxt_none: "todo s [] \<Longrightarrow> nxt s = None"
    and nxt_some: "todo s (x # xs) \<Longrightarrow> \<exists>s'. nxt s = Some (x, s') \<and> todo s' xs"
begin

text \<open>The loop visits what there is to do, in order, and then stops.\<close>

lemma visits: "todo s xs \<Longrightarrow> iterate nxt fuel s = take fuel xs"
proof (induction fuel arbitrary: s xs)
  case (Suc fuel)
  then show ?case using nxt_none nxt_some by (cases xs) fastforce+
qed simp

lemma visits_all: "todo s xs \<Longrightarrow> length xs \<le> fuel \<Longrightarrow> iterate nxt fuel s = xs"
  by (simp add: visits)

lemma nxt_cases: "todo s xs \<Longrightarrow> (case nxt s of None \<Rightarrow> xs = [] | Some (x, s') \<Rightarrow> \<exists>ys. xs = x # ys \<and> todo s' ys)"
  using nxt_none [of s] nxt_some [of s] by (cases xs) fastforce+

end

end
