(* ===== verification/Simd_Scan.thy ===== *)
theory Simd_Scan
  imports Masks
begin

text \<open>
  The search of the interner's hashes in \<^verbatim>\<open>graph.odin\<close>: 16 bytes at a time, with a mask of the lanes that
  are equal to the needle. The iterator visits exactly the positions of the needle, in order.
\<close>

section \<open>The iterator\<close>

record Simd_Iter =
  haystack :: "u8 list list"
  simd_i :: nat
  simd_mask :: u16
  needle :: u8

text \<open>\<^verbatim>\<open>mem.slice_data_cast\<close> to vectors of 16 bytes.\<close>

fun vectors :: "u8 list \<Rightarrow> u8 list list" where
  "vectors bs = (if length bs < 16 then [] else take 16 bs # vectors (drop 16 bs))"

declare vectors.simps [simp del]

definition simd_iter_from :: "u8 list \<Rightarrow> u8 \<Rightarrow> Simd_Iter" where
  "simd_iter_from hay n = \<lparr>haystack = vectors hay, simd_i = 0, simd_mask = 0, needle = n\<rparr>"

text \<open>\<^verbatim>\<open>lanes_eq\<close> and \<^verbatim>\<open>extract_lsbs\<close>: one bit per lane, the first lane in the lowest bit.\<close>

definition lanes_mask :: "u8 list \<Rightarrow> u8 \<Rightarrow> u16" where
  "lanes_mask v n = horner_sum of_bool 2 (map (\<lambda>x. x = n) v)"

function simd_iter_next :: "Simd_Iter \<Rightarrow> (nat \<times> Simd_Iter) option" where
  "simd_iter_next it =
     (if simd_mask it \<noteq> 0 then
        Some ((simd_i it - 1) * 16 + count_trailing_zeros (simd_mask it),
              it\<lparr>simd_mask := simd_mask it AND (simd_mask it - 1)\<rparr>)
      else if simd_i it < length (haystack it) then
        simd_iter_next (it\<lparr>simd_mask := lanes_mask (haystack it ! simd_i it) (needle it), simd_i := Suc (simd_i it)\<rparr>)
      else None)"
  by auto
termination by (relation "measure (\<lambda>it. length (haystack it) - simd_i it)") auto

declare simd_iter_next.simps [simp del]

text \<open>
  The positions that \<^verbatim>\<open>for idx in simd_iter_next(&siter)\<close> runs over. Each round clears a bit of the mask or has
  taken another vector.
\<close>

function simd_positions :: "Simd_Iter \<Rightarrow> nat list" where
  "simd_positions it =
     (case simd_iter_next it of None \<Rightarrow> [] | Some (idx, it') \<Rightarrow> idx # simd_positions it')"
  by auto

section \<open>The positions\<close>

lemma lanes_mask_bit: "length v = 16 \<Longrightarrow> bit (lanes_mask v n) k \<longleftrightarrow> k < 16 \<and> v ! k = n"
  by (auto simp: lanes_mask_def bit_horner_sum_bit_iff)

text \<open>What an iterator has yet to visit: the rest of the vector it is in, then the others.\<close>

definition iter_rest :: "Simd_Iter \<Rightarrow> nat list" where
  "iter_rest it =
     map (\<lambda>k. (simd_i it - 1) * 16 + k) (mask_members (simd_mask it)) @
     concat (map (\<lambda>i. map (\<lambda>k. i * 16 + k) (filter (\<lambda>k. haystack it ! i ! k = needle it) [0..<16]))
       [simd_i it..<length (haystack it)])"

lemma lanes_mask_lanes: "length v = 16 \<Longrightarrow> mask_members (lanes_mask v n) = filter (\<lambda>k. v ! k = n) [0..<16]"
  unfolding mask_members_def by (rule filter_cong) (auto simp: lanes_mask_bit)

lemma simd_iter_next_rest:
  assumes "\<forall>v \<in> set (haystack it). length v = 16"
  shows "case iter_rest it of
      [] \<Rightarrow> simd_iter_next it = None
    | j # js \<Rightarrow> \<exists>it'. simd_iter_next it = Some (j, it') \<and> iter_rest it' = js \<and> haystack it' = haystack it"
  using assms
proof (induction it rule: simd_iter_next.induct)
  case (1 it)
  show ?case
  proof (cases "simd_mask it = 0")
    case False
    let ?it = "it\<lparr>simd_mask := simd_mask it AND (simd_mask it - 1)\<rparr>"
    have "simd_iter_next it = Some ((simd_i it - 1) * 16 + count_trailing_zeros (simd_mask it), ?it)"
      using False by (subst simd_iter_next.simps) simp
    moreover have "iter_rest it = ((simd_i it - 1) * 16 + count_trailing_zeros (simd_mask it)) # iter_rest ?it"
      by (simp add: iter_rest_def mask_members_Cons [OF False])
    ultimately show ?thesis by simp
  next
    case mask: True
    show ?thesis
    proof (cases "simd_i it < length (haystack it)")
      case True
      let ?it = "it\<lparr>simd_mask := lanes_mask (haystack it ! simd_i it) (needle it), simd_i := Suc (simd_i it)\<rparr>"
      have "simd_iter_next it = simd_iter_next ?it" using mask True by (subst simd_iter_next.simps) simp
      moreover have "[simd_i it..<length (haystack it)] = simd_i it # [Suc (simd_i it)..<length (haystack it)]"
        using True by (simp add: upt_conv_Cons)
      then have "iter_rest it = iter_rest ?it"
        using True "1.prems" by (simp add: iter_rest_def mask mask_members_0 lanes_mask_lanes)
      ultimately show ?thesis using "1.IH" [OF _ True] mask "1.prems" by (cases "iter_rest ?it") simp_all
    next
      case False
      then have "simd_iter_next it = None" using mask by (subst simd_iter_next.simps) simp
      then show ?thesis using mask False by (simp add: iter_rest_def mask_members_0)
    qed
  qed
qed

interpretation simd: iterator simd_iter_next "\<lambda>it js. (\<forall>v \<in> set (haystack it). length v = 16) \<and> iter_rest it = js"
proof
  fix it js
  show "simd_iter_next it = None" if "(\<forall>v \<in> set (haystack it). length v = 16) \<and> iter_rest it = []"
    using simd_iter_next_rest [of it] that by simp
  show "\<exists>it'. simd_iter_next it = Some (j, it') \<and> (\<forall>v \<in> set (haystack it'). length v = 16) \<and> iter_rest it' = js"
    if "(\<forall>v \<in> set (haystack it). length v = 16) \<and> iter_rest it = j # js" for j
    using simd_iter_next_rest [of it] that by auto
qed

text \<open>The measure that each round makes smaller: vectors to come, then lanes.\<close>

lemma simd_iter_next_smaller:
  "simd_iter_next it = Some (j, it') \<Longrightarrow>
   (it', it) \<in> measures [\<lambda>it. length (haystack it) - simd_i it, \<lambda>it. unat (simd_mask it)]"
proof (induction it rule: simd_iter_next.induct)
  case (1 it)
  show ?case
  proof (cases "simd_mask it = 0")
    case False
    have "simd_mask it AND (simd_mask it - 1) < simd_mask it"
    proof -
      have "simd_mask it AND (simd_mask it - 1) \<le> simd_mask it - 1" by (simp add: word_and_le1)
      moreover have "simd_mask it - 1 < simd_mask it" using False by (simp add: word_less_nat_alt unat_minus_one unat_gt_0)
      ultimately show ?thesis by (rule le_less_trans)
    qed
    moreover have "it' = it\<lparr>simd_mask := simd_mask it AND (simd_mask it - 1)\<rparr>"
      using False "1.prems" by (subst (asm) simd_iter_next.simps) auto
    ultimately show ?thesis by (auto simp: word_less_nat_alt)
  next
    case True
    show ?thesis
    proof (cases "simd_i it < length (haystack it)")
      case i: True
      let ?it = "it\<lparr>simd_mask := lanes_mask (haystack it ! simd_i it) (needle it), simd_i := Suc (simd_i it)\<rparr>"
      have "simd_iter_next ?it = Some (j, it')" using "1.prems" True i by (subst (asm) simd_iter_next.simps) simp
      from "1.IH" [OF _ i this] True have "length (haystack it') - simd_i it' \<le> length (haystack it) - Suc (simd_i it)" by auto
      then show ?thesis using i by auto
    next
      case False
      then show ?thesis using "1.prems" True by (subst (asm) simd_iter_next.simps) simp
    qed
  qed
qed

termination simd_positions
  by (relation "measures [\<lambda>it. length (haystack it) - simd_i it, \<lambda>it. unat (simd_mask it)]") (auto dest: simd_iter_next_smaller)

declare simd_positions.simps [simp del]

lemma simd_positions_rest: "\<forall>v \<in> set (haystack it). length v = 16 \<Longrightarrow> simd_positions it = iter_rest it"
proof (induction it rule: simd_positions.induct)
  case (1 it)
  then show ?case
    using simd.nxt_cases [of it "iter_rest it"] by (subst simd_positions.simps) (auto split: option.splits)
qed

lemma length_vectors: "v \<in> set (vectors bs) \<Longrightarrow> length v = 16"
  by (induction bs rule: vectors.induct) (subst (asm) vectors.simps, auto split: if_splits)

lemma vectors_nth:
  "16 dvd length bs \<Longrightarrow> length (vectors bs) = length bs div 16 \<and>
   (\<forall>i < length bs div 16. \<forall>k < 16. vectors bs ! i ! k = bs ! (i * 16 + k))"
proof (induction bs rule: vectors.induct)
  case (1 bs)
  show ?case
  proof (cases "length bs < 16")
    case True
    then show ?thesis by (subst (1 2) vectors.simps) simp
  next
    case False
    let ?ds = "drop 16 bs"
    have v: "vectors bs = take 16 bs # vectors ?ds" using False by (subst vectors.simps) simp
    have len: "length bs div 16 = Suc (length ?ds div 16)" using False by (simp add: le_div_geq)
    have "16 dvd length ?ds" using "1.prems" False by (simp add: dvd_minus_self)
    from "1.IH" [OF False this]
    have IH: "length (vectors ?ds) = length ?ds div 16"
      "\<forall>i < length ?ds div 16. \<forall>k < 16. vectors ?ds ! i ! k = ?ds ! (i * 16 + k)" by auto
    have "vectors bs ! i ! k = bs ! (i * 16 + k)" if "i < length bs div 16" "k < 16" for i k
    proof (cases i)
      case 0
      then show ?thesis using v that by simp
    next
      case (Suc j)
      have "16 \<le> length bs" using False by simp
      then show ?thesis using IH(2) that len v Suc by (simp add: add.assoc [symmetric] add.commute)
    qed
    then show ?thesis using IH(1) v len by simp
  qed
qed

lemma concat_blocks:
  "concat (map (\<lambda>i. map (\<lambda>k. i * 16 + k) (filter (\<lambda>k. P (i * 16 + k)) [0..<16])) [0..<n]) = filter P [0..<16 * n]"
proof (induction n)
  case (Suc n)
  have "[0..<16 * Suc n] = [0..<16 * n] @ map (\<lambda>k. n * 16 + k) [0..<16]"
    using upt_add_eq_append [of 0 "16 * n" 16] map_add_upt [of "n * 16" 16] by (simp add: algebra_simps)
  then show ?case using Suc by (simp add: filter_map comp_def)
qed simp

text \<open>A whole walk over the haystack.\<close>

lemma iter_rest_from:
  assumes "16 dvd length bs"
  shows "iter_rest (simd_iter_from bs n) = filter (\<lambda>j. bs ! j = n) [0..<length bs]"
proof -
  have "iter_rest (simd_iter_from bs n) =
      concat (map (\<lambda>i. map (\<lambda>k. i * 16 + k) (filter (\<lambda>k. bs ! (i * 16 + k) = n) [0..<16])) [0..<length bs div 16])"
    unfolding iter_rest_def simd_iter_from_def using vectors_nth [OF assms]
    by (auto simp: mask_members_0 intro!: arg_cong [of _ _ concat] map_cong filter_cong)
  also have "\<dots> = filter (\<lambda>j. bs ! j = n) [0..<16 * (length bs div 16)]" by (rule concat_blocks)
  finally show ?thesis using assms by simp
qed


lemma scan_positions:
  assumes "16 dvd length hay"
  shows "simd_positions (simd_iter_from hay n) = filter (\<lambda>j. hay ! j = n) [0..<length hay]"
proof -
  have "\<forall>v \<in> set (haystack (simd_iter_from hay n)). length v = 16" by (simp add: simd_iter_from_def length_vectors)
  then show ?thesis using simd_positions_rest iter_rest_from [OF assms] by simp
qed

text \<open>
  C30: The vector scan of the interner visits exactly the positions of the bytes that are equal to the needle, each
  once, in order.
\<close>

theorem simd_scan_finds_all:
  assumes "16 dvd length hay"
  shows "simd_positions (simd_iter_from hay n) = filter (\<lambda>j. hay ! j = n) [0..<length hay]"
  by (rule scan_positions [OF assms])

theorem simd_scan_finds_all_witness:
  "simd_positions (simd_iter_from [0, 7, 0, 0, 0, 0, 0, 7, 7, 0, 0, 0, 0, 0, 0, 7] 7) = [1, 7, 8, 15]"
  by (subst simd_scan_finds_all) code_simp+

end
