(* ===== verification/Graph.thy ===== *)
theory Graph
  imports Proc Simd_Scan
begin

text \<open>
  The graph of \<^verbatim>\<open>graph.odin\<close> and its elementary operations: nodes with inputs and outputs, the interner that
  keeps one node per value, and deletion, which takes a node's inputs with it when nothing else
  uses them, and replacement of an input. A node is a record, its arrays are lists; where in the arena they lie is not represented,
  but how much of it they take is. A full arena is undefined behaviour, since the code ignores the
  allocator's error. The worklist and the triggers of the optimizer are nil, as they are while a client
  builds a graph, and assertions are on.
\<close>

section \<open>Nodes\<close>

text \<open>What the tables of a \<^verbatim>\<open>Node_Spec\<close> say about each of the first \<open>type_count\<close> types of nodes.\<close>

record Node_Spec =
  type_count :: nat
  node_extra_sizes :: "u16 \<Rightarrow> u8"
  flag_interned :: "u16 \<Rightarrow> bool"
  flag_store :: "u16 \<Rightarrow> bool"
  flag_load :: "u16 \<Rightarrow> bool"
  inherits_cfg :: "u16 \<Rightarrow> bool"
  inherits_cint :: "u16 \<Rightarrow> bool"

record node =
  node_rtype :: u16
  node_meta :: u16
  node_gvn :: u32
  node_extra_dwords :: nat
  node_inps :: "u32 list"
  node_input_cap :: u16
  node_outs :: "(u32 \<times> nat) list"
  node_output_cap :: u16
  node_extra :: "u32 list"

definition NIL_NODE :: node where
  "NIL_NODE = \<lparr>node_rtype = 0, node_meta = 0, node_gvn = 0, node_extra_dwords = 0, node_inps = [], node_input_cap = 0,
     node_outs = [], node_output_cap = 0, node_extra = []\<rparr>"

definition DEAD_NODE :: node where
  "DEAD_NODE = NIL_NODE\<lparr>node_rtype := DEAD_NODE_KIND\<rparr>"

definition type_Region :: u16 where
  "type_Region = 4"

definition type_End :: u16 where
  "type_End = 7"

definition type_Phi :: u16 where
  "type_Phi = 26"

text \<open>\<^verbatim>\<open>Node_Output\<close>: 22 bits of the user's id and 10 bits of the place among its inputs.\<close>

definition mk_output :: "u32 \<Rightarrow> nat \<Rightarrow> u32 \<times> nat" where
  "mk_output out i = (take_bit 22 out, i mod 1024)"

record graph =
  g_nodes :: "u32 \<Rightarrow> node option"
  g_pos :: nat
  g_reserved :: nat
  g_hashes :: "u8 list"
  g_ids :: "u32 list"
  g_len :: nat
  g_gvn :: u32
  g_waste :: int
  g_has_dbg :: bool
  g_dont_intern :: bool
  g_dont_delete :: bool

type_synonym 'a gact = "(graph, 'a) prog"

section \<open>Access\<close>

definition g_get_node :: "u32 \<Rightarrow> node gact" where
  "g_get_node id' = (\<lambda>g.
     if id' = 0 then (Inr NIL_NODE, g)
     else case g_nodes g id' of None \<Rightarrow> (Inl (Ub ''not a node''), g) | Some n \<Rightarrow> (Inr n, g))"

definition g_put_node :: "u32 \<Rightarrow> (node \<Rightarrow> node) \<Rightarrow> unit gact" where
  "g_put_node id' f = modifyM (\<lambda>g. g\<lparr>g_nodes := (g_nodes g)(id' := map_option f (g_nodes g id'))\<rparr>)"

definition g_expand_node :: "u32 \<Rightarrow> node gact" where
  "g_expand_node id' =
     bindM (g_get_node id') (\<lambda>n.
     bindM (assertM (node_rtype n \<noteq> DEAD_NODE_KIND) ''node.rtype != DEAD_NODE_KIND'') (\<lambda>_.
     ret n))"

text \<open>\<^verbatim>\<open>arna.alloc\<close> on the arena of the graph, with the error dropped.\<close>

definition g_alloc :: "nat \<Rightarrow> nat \<Rightarrow> unit gact" where
  "g_alloc n al =
     bindM (getM (\<lambda>g. align_up (g_pos g) al + n \<le> g_reserved g)) (\<lambda>fits.
     bindM (requireM fits ''the arena is full'') (\<lambda>_.
     modifyM (\<lambda>g. g\<lparr>g_pos := align_up (g_pos g) al + n\<rparr>)))"

definition compute_node_size :: "Node_Spec \<Rightarrow> u16 \<Rightarrow> nat \<Rightarrow> bool \<Rightarrow> nat" where
  "compute_node_size sp ty extra_dwords dbg =
     NODE_SIZE + (unat (node_extra_sizes sp ty) + extra_dwords) * 4 + (if dbg then 8 else 0)"

text \<open>\<^verbatim>\<open>has_flag_node\<close>: the index into a table is checked.\<close>

definition has_flag :: "Node_Spec \<Rightarrow> (u16 \<Rightarrow> bool) \<Rightarrow> node \<Rightarrow> bool gact" where
  "has_flag sp flag n =
     bindM (assertM (unat (node_rtype n) < type_count sp) ''node.rtype < len(node_flags)'') (\<lambda>_.
     ret (flag (node_rtype n)))"

text \<open>The bytes of an array of \<open>cap\<close> ids: the product is a 16-bit number, too.\<close>

definition ids_size :: "u16 \<Rightarrow> nat" where
  "ids_size cap = unat (cap * 4)"

section \<open>The interner\<close>

definition node_spec_word :: "node \<Rightarrow> u32" where
  "node_spec_word n = ucast (node_rtype n) OR push_bit 16 (ucast (node_meta n))"

definition hash_u32 :: "u32 \<Rightarrow> u32" where
  "hash_u32 x =
     (let h = x; h = h XOR drop_bit 16 h; h = h * 0x85ebca6b; h = h XOR drop_bit 13 h; h = h * 0xc2b2ae35
      in h XOR drop_bit 16 h)"

definition node_hash :: "Node_Spec \<Rightarrow> node \<Rightarrow> u8" where
  "node_hash sp n =
     (if flag_interned sp (node_rtype n)
      then max (ucast (hash_u32 (node_spec_word n + sum_list (node_extra n) + sum_list (node_inps n)))) 1
      else 0)"

text \<open>The value of a node: what \<^verbatim>\<open>node_eq\<close> compares.\<close>

definition node_value :: "node \<Rightarrow> u16 \<times> u16 \<times> u32 list \<times> u32 list" where
  "node_value n = (node_rtype n, node_meta n, node_inps n, node_extra n)"

definition node_eq :: "u32 \<Rightarrow> u32 \<Rightarrow> bool gact" where
  "node_eq a b =
     (if a = b then ret True
      else
        bindM (g_get_node a) (\<lambda>an.
        bindM (g_get_node b) (\<lambda>bn.
        ret (node_rtype an = node_rtype bn \<and> node_meta an = node_meta bn \<and> node_inps an = node_inps bn \<and>
             node_extra an = node_extra bn))))"

text \<open>The loop over the positions that the vector iterator visits.\<close>

primrec find_equal :: "u32 \<Rightarrow> nat list \<Rightarrow> nat option gact" where
  "find_equal id' [] = ret None"
| "find_equal id' (idx # idxs) =
     bindM (getM (\<lambda>g. g_ids g ! idx)) (\<lambda>other.
     bindM (node_eq other id') (\<lambda>eq.
     if eq then ret (Some idx) else find_equal id' idxs))"

definition interner_find :: "Node_Spec \<Rightarrow> u32 \<Rightarrow> u8 \<Rightarrow> (nat option \<times> u8) gact" where
  "interner_find sp id' precomputed_hash =
     bindM (assertM (id' \<noteq> 0) ''id != 0'') (\<lambda>_.
     bindM (g_get_node id') (\<lambda>n.
     let needle = (if precomputed_hash = 0 then node_hash sp n else precomputed_hash)
     in bindM (assertM (needle \<noteq> 0) ''needle != 0'') (\<lambda>_.
        bindM (getM g_hashes) (\<lambda>hashes.
        bindM (find_equal id' (simd_positions (simd_iter_from hashes needle))) (\<lambda>idx.
        ret (idx, needle))))))"

definition interner_grow :: "nat \<Rightarrow> unit gact" where
  "interner_grow new_cap =
     (if new_cap = 0 then ret ()
      else
        bindM (g_alloc new_cap 16) (\<lambda>_.
        bindM (g_alloc (new_cap * 4) 4) (\<lambda>_.
        modifyM (\<lambda>g. g\<lparr>g_hashes := g_hashes g @ replicate (new_cap - length (g_hashes g)) 0,
                       g_ids := g_ids g @ replicate (new_cap - length (g_ids g)) 0\<rparr>))))"

definition intern :: "Node_Spec \<Rightarrow> u32 \<Rightarrow> u32 gact" where
  "intern sp id' =
     bindM (g_get_node id') (\<lambda>n.
     bindM (has_flag sp (flag_interned sp) n) (\<lambda>interned.
     bindM (getM g_dont_intern) (\<lambda>dont.
     if \<not> interned \<or> dont then ret id'
     else
       bindM (interner_find sp id' 0) (\<lambda>(idx, hash).
       case idx of
         Some idx \<Rightarrow> getM (\<lambda>g. g_ids g ! idx)
       | None \<Rightarrow>
           bindM (getM (\<lambda>g. (length (g_hashes g), g_len g))) (\<lambda>(cap, len).
           bindM (if cap = len then interner_grow (cap * 2 + 16) else ret ()) (\<lambda>_.
           bindM (modifyM (\<lambda>g. g\<lparr>g_hashes := (g_hashes g)[g_len g := hash], g_ids := (g_ids g)[g_len g := id'],
                    g_len := g_len g + 1\<rparr>)) (\<lambda>_.
           ret id')))))))"

definition unintern :: "Node_Spec \<Rightarrow> u32 \<Rightarrow> u8 \<Rightarrow> unit gact" where
  "unintern sp id' precomputed_hash =
     bindM (g_get_node id') (\<lambda>n.
     bindM (has_flag sp (flag_interned sp) n) (\<lambda>interned.
     bindM (getM g_dont_intern) (\<lambda>dont.
     if \<not> interned \<or> dont then ret ()
     else
       bindM (interner_find sp id' precomputed_hash) (\<lambda>(idx, _).
       case idx of
         None \<Rightarrow> ret ()
       | Some idx \<Rightarrow>
           bindM (getM (\<lambda>g. g_ids g ! idx)) (\<lambda>other.
           if other \<noteq> id' then ret ()
           else
             modifyM (\<lambda>g. let len = g_len g - 1 in
               g\<lparr>g_len := len,
                 g_hashes := (g_hashes g)[idx := g_hashes g ! len, len := 0],
                 g_ids := (g_ids g)[idx := g_ids g ! len, len := 0]\<rparr>))))))"

section \<open>Edges\<close>

definition ensure_available_output_cap :: "u32 \<Rightarrow> u16 \<Rightarrow> unit gact" where
  "ensure_available_output_cap id' available =
     bindM (g_get_node id') (\<lambda>n.
     if node_output_cap n - of_nat (length (node_outs n)) < available
     then
       let new_cap = max (node_output_cap n * 2 + 2) (node_output_cap n + available)
       in bindM (modifyM (\<lambda>g. g\<lparr>g_waste := g_waste g + int (ids_size (node_output_cap n))\<rparr>)) (\<lambda>_.
          bindM (g_alloc (ids_size new_cap) 4) (\<lambda>_.
          g_put_node id' (node_output_cap_update (\<lambda>_. new_cap))))
     else ret ())"

text \<open>
  The count of outputs is a 16-bit number: at the last one it wraps around and the index before it is
  out of range.
\<close>

definition add_output :: "Node_Spec \<Rightarrow> u32 \<Rightarrow> u32 \<Rightarrow> nat \<Rightarrow> unit gact" where
  "add_output sp id' out i =
     (if id' = 0 then ret ()
      else
        bindM (g_get_node id') (\<lambda>n.
        bindM (assertM (node_rtype n \<noteq> DEAD_NODE_KIND) ''node.rtype != DEAD_NODE_KIND'') (\<lambda>_.
        bindM (ensure_available_output_cap id' 1) (\<lambda>_.
        bindM (g_get_node out) (\<lambda>o'.
        bindM (assertM (unat (node_rtype n) < type_count sp) ''node.rtype < len(inheritance_table)'') (\<lambda>_.
        bindM (assertM (\<not> inherits_cfg sp (node_rtype n) \<or> node_rtype o' \<noteq> type_Phi \<or> i = 0) ''phi'') (\<lambda>_.
        bindM (g_get_node id') (\<lambda>n.
        bindM (assertM (i < 256) ''i < 256'') (\<lambda>_.
        bindM (assertM ((of_nat (length (node_outs n)) + 1 :: u16) \<noteq> 0) ''index out of range'') (\<lambda>_.
        bindM (requireM (4 * length (node_outs n) < ids_size (node_output_cap n)) ''write past the outputs'') (\<lambda>_.
        g_put_node id' (node_outs_update (\<lambda>outs. outs @ [mk_output out i])))))))))))))"

definition add_input :: "Node_Spec \<Rightarrow> u32 \<Rightarrow> u32 \<Rightarrow> nat gact" where
  "add_input sp id' inp =
     (if id' = 0 then ret 0
      else
        bindM (g_get_node id') (\<lambda>n.
        let free_idx = length (node_inps n); new_cap = node_input_cap n * 2 + 2
        in bindM (if of_nat free_idx = node_input_cap n
                  then
                    bindM (modifyM (\<lambda>g. g\<lparr>g_waste := g_waste g + int (ids_size (node_input_cap n))\<rparr>)) (\<lambda>_.
                    bindM (g_alloc (ids_size new_cap) 4) (\<lambda>_.
                    bindM (requireM (4 * free_idx < ids_size new_cap) ''the new inputs are too short'') (\<lambda>_.
                    g_put_node id' (node_input_cap_update (\<lambda>_. new_cap)))))
                  else ret ()) (\<lambda>_.
           bindM (unintern sp id' 0) (\<lambda>_.
           bindM (g_get_node id') (\<lambda>n.
           bindM (requireM (free_idx < unat (node_input_cap n)) ''write past the inputs'') (\<lambda>_.
           bindM (g_put_node id' (node_inps_update (\<lambda>inps. inps @ [inp]))) (\<lambda>_.
           bindM (intern sp id') (\<lambda>nid.
           bindM (assertM (nid = id') ''nid == id'') (\<lambda>_.
           ret free_idx)))))))))"

definition g_connect :: "Node_Spec \<Rightarrow> u32 \<Rightarrow> u32 \<Rightarrow> nat gact" where
  "g_connect sp use' def' =
     bindM (add_input sp use' def') (\<lambda>idx.
     bindM (add_output sp def' use' idx) (\<lambda>_.
     ret idx))"

definition g_pin :: "Node_Spec \<Rightarrow> u32 \<Rightarrow> unit gact" where
  "g_pin sp id' = add_output sp id' 0 0"

section \<open>Creation\<close>

text \<open>\<^verbatim>\<open>Add_Raw_Meta\<close>, with values in the range of its fields; the count of inputs is the length of their list.\<close>

record Add_Raw_Meta =
  raw_type :: u16
  raw_dt :: u16
  raw_lane :: u16
  raw_extra_capacity :: nat
  raw_extra_dwords :: nat

definition raw_meta :: "Node_Spec \<Rightarrow> Add_Raw_Meta \<Rightarrow> u16" where
  "raw_meta sp m =
     take_bit 4 (raw_dt m) OR (if flag_store sp (raw_type m) then 0x10 else 0) OR
     (if flag_load sp (raw_type m) then 0x20 else 0) OR push_bit 9 (take_bit 3 (raw_lane m))"

definition raw_extra_len :: "Node_Spec \<Rightarrow> Add_Raw_Meta \<Rightarrow> nat" where
  "raw_extra_len sp m = unat (node_extra_sizes sp (raw_type m)) + raw_extra_dwords m"

definition raw_node :: "Node_Spec \<Rightarrow> u32 list \<Rightarrow> u32 list option \<Rightarrow> Add_Raw_Meta \<Rightarrow> node" where
  "raw_node sp inps extra m =
     \<lparr>node_rtype = raw_type m, node_meta = raw_meta sp m, node_gvn = 0, node_extra_dwords = raw_extra_dwords m,
      node_inps = inps, node_input_cap = of_nat (length inps + raw_extra_capacity m), node_outs = [], node_output_cap = 0,
      node_extra = (case extra of None \<Rightarrow> replicate (raw_extra_len sp m) 0 | Some ws \<Rightarrow> take (raw_extra_len sp m) ws)\<rparr>"

definition init_counts :: "u32 \<Rightarrow> unit gact" where
  "init_counts id' =
     bindM (getM g_gvn) (\<lambda>gvn.
     bindM (g_put_node id' (node_gvn_update (\<lambda>_. take_bit 26 gvn))) (\<lambda>_.
     modifyM (\<lambda>g. g\<lparr>g_gvn := g_gvn g + 1\<rparr>)))"

text \<open>The last steps of \<^verbatim>\<open>add_raw_2\<close>, with the node in place: an equal one is used instead.\<close>

definition settle_node :: "Node_Spec \<Rightarrow> u32 list \<Rightarrow> u32 \<Rightarrow> u32 gact" where
  "settle_node sp inps id' =
     bindM (intern sp id') (\<lambda>inode.
     if inode \<noteq> id'
     then
       bindM (modifyM (\<lambda>g. g\<lparr>g_pos := unat id' * 4, g_nodes := (g_nodes g)(id' := None)\<rparr>)) (\<lambda>_.
       ret inode)
     else
       bindM (forM (enumerate 0 inps) (\<lambda>(i, inp). add_output sp inp id' i)) (\<lambda>_.
       bindM (init_counts id') (\<lambda>_.
       ret id')))"

definition add_raw_2 :: "Node_Spec \<Rightarrow> u32 list \<Rightarrow> u32 list option \<Rightarrow> Add_Raw_Meta \<Rightarrow> u32 gact" where
  "add_raw_2 sp inps extra m =
     bindM (getM (\<lambda>g. of_nat (g_pos g div 4))) (\<lambda>id'.
     bindM (assertM (unat (raw_type m) < type_count sp) ''index out of range'') (\<lambda>_.
     bindM (getM (\<lambda>g. compute_node_size sp (raw_type m) (raw_extra_dwords m) (g_has_dbg g))) (\<lambda>size'.
     bindM (g_alloc size' 4) (\<lambda>_.
     bindM (assertM (node_extra_sizes sp (raw_type m) + of_nat (raw_extra_dwords m) < 16) ''< len(ZEROED)'') (\<lambda>_.
     bindM (requireM (case extra of None \<Rightarrow> True | Some ws \<Rightarrow> raw_extra_len sp m \<le> length ws) ''read past the extra'') (\<lambda>_.
     bindM (g_alloc (4 * (length inps + raw_extra_capacity m)) 4) (\<lambda>_.
     bindM (modifyM (\<lambda>g. g\<lparr>g_nodes := (g_nodes g)(id' \<mapsto> raw_node sp inps extra m)\<rparr>)) (\<lambda>_.
     settle_node sp inps id'))))))))"

section \<open>Deletion\<close>

text \<open>\<^verbatim>\<open>slice.linear_search\<close>, and the removal that moves the last element to the place of the one removed.\<close>

definition swap_remove :: "'a list \<Rightarrow> nat \<Rightarrow> 'a list" where
  "swap_remove xs k = butlast (xs[k := last xs])"

definition linear_search :: "'a list \<Rightarrow> 'a \<Rightarrow> nat option" where
  "linear_search xs x = List.find (\<lambda>k. xs ! k = x) [0..<length xs]"

text \<open>The end of \<^verbatim>\<open>delete\<close>: the node leaves the interner, its memory is waste.\<close>

definition retire_node :: "Node_Spec \<Rightarrow> u32 \<Rightarrow> unit gact" where
  "retire_node sp id' =
     bindM (unintern sp id' 0) (\<lambda>_.
     bindM (g_get_node id') (\<lambda>n.
     modifyM (\<lambda>g. g\<lparr>g_waste := g_waste g + int (ids_size (node_input_cap n)) + int (ids_size (node_output_cap n)) +
                 int (compute_node_size sp (node_rtype n) (node_extra_dwords n) (g_has_dbg g)),
               g_nodes := (g_nodes g)(id' \<mapsto> DEAD_NODE)\<rparr>)))"

text \<open>\<^verbatim>\<open>remove_output\<close>, which deletes a node that has lost its last output by \<open>del\<close>.\<close>

definition remove_output_by :: "(u32 \<Rightarrow> unit gact) \<Rightarrow> u32 \<Rightarrow> u32 \<times> nat \<Rightarrow> bool \<Rightarrow> unit gact" where
  "remove_output_by del id' out no_delete =
     (if id' = 0 then ret ()
      else
        bindM (g_get_node id') (\<lambda>n.
        bindM (expectM (linear_search (node_outs n) out) ''output not found'') (\<lambda>k.
        bindM (g_put_node id' (node_outs_update (\<lambda>outs. swap_remove outs k))) (\<lambda>_.
        if no_delete then ret ()
        else del id'))))"

text \<open>
  \<open>oof\<close> is what happens when the fuel runs out; the number of edges of the graph, and one more, is enough.
\<close>

primrec delete_node :: "Node_Spec \<Rightarrow> fault \<Rightarrow> nat \<Rightarrow> u32 \<Rightarrow> unit gact" where
  "delete_node sp oof 0 = (\<lambda>id'. fail oof)"
| "delete_node sp oof (Suc fuel) = (\<lambda>id'.
     bindM (g_get_node id') (\<lambda>n.
     bindM (getM g_dont_delete) (\<lambda>dont.
     if node_outs n \<noteq> [] \<or> id' = 0 \<or> dont \<or> node_rtype n = DEAD_NODE_KIND then ret ()
     else
       bindM (assertM (node_rtype n \<noteq> type_End) ''node.itype != .End'') (\<lambda>_.
       bindM (forM (enumerate 0 (node_inps n)) (\<lambda>(i, inp). remove_output_by (delete_node sp oof fuel) inp (mk_output id' i) False)) (\<lambda>_.
       retire_node sp id')))))"

definition remove_output :: "Node_Spec \<Rightarrow> fault \<Rightarrow> nat \<Rightarrow> u32 \<Rightarrow> u32 \<times> nat \<Rightarrow> bool \<Rightarrow> unit gact" where
  "remove_output sp oof fuel = remove_output_by (delete_node sp oof fuel)"

lemma remove_output_eq:
  "remove_output sp oof fuel id' out no_delete =
     (if id' = 0 then ret ()
      else
        bindM (g_get_node id') (\<lambda>n.
        bindM (expectM (linear_search (node_outs n) out) ''output not found'') (\<lambda>k.
        bindM (g_put_node id' (node_outs_update (\<lambda>outs. swap_remove outs k))) (\<lambda>_.
        if no_delete then ret ()
        else delete_node sp oof fuel id'))))"
  by (simp add: remove_output_def remove_output_by_def)

lemma delete_node_eqs:
  "delete_node sp oof 0 id' = fail oof"
  "delete_node sp oof (Suc fuel) id' =
     bindM (g_get_node id') (\<lambda>n.
     bindM (getM g_dont_delete) (\<lambda>dont.
     if node_outs n \<noteq> [] \<or> id' = 0 \<or> dont \<or> node_rtype n = DEAD_NODE_KIND then ret ()
     else
       bindM (assertM (node_rtype n \<noteq> type_End) ''node.itype != .End'') (\<lambda>_.
       bindM (forM (enumerate 0 (node_inps n)) (\<lambda>(i, inp). remove_output sp oof fuel inp (mk_output id' i) False)) (\<lambda>_.
       retire_node sp id'))))"
  unfolding delete_node.simps remove_output_def by (rule refl)+

declare delete_node.simps [simp del]

definition g_unpin :: "Node_Spec \<Rightarrow> fault \<Rightarrow> nat \<Rightarrow> u32 \<Rightarrow> bool \<Rightarrow> unit gact" where
  "g_unpin sp oof fuel id' no_delete = remove_output sp oof fuel id' (mk_output 0 0) no_delete"

section \<open>Replacement of an input\<close>

text \<open>A write through the slice of a node's inputs; that of a dead node is memory nobody reads.\<close>

definition put_input :: "u32 \<Rightarrow> nat \<Rightarrow> u32 \<Rightarrow> unit gact" where
  "put_input id' idx v = g_put_node id' (node_inps_update (\<lambda>inps. inps[idx := v]))"

text \<open>
  While the previous input is deleted the node has its new input already, but the interner knows it by the previous one; before it
  leaves the interner the previous one is put back. \<open>settle\<close> is what happens with the answer of the interner.
\<close>

definition set_input_by :: "Node_Spec \<Rightarrow> fault \<Rightarrow> nat \<Rightarrow> (u32 \<Rightarrow> unit gact) \<Rightarrow> u32 \<Rightarrow> int \<Rightarrow> u32 \<Rightarrow> u32 gact" where
  "set_input_by sp oof fuel settle id' idx v =
     bindM (g_expand_node id') (\<lambda>n.
     bindM (assertM (idx < int (length (node_inps n))) ''idx < len(node.inps)'') (\<lambda>_.
     bindM (assertM (0 \<le> idx) ''index out of range'') (\<lambda>_.
     let i = nat idx; prev = node_inps n ! i in
     if prev = v then ret id'
     else
       bindM (add_output sp v id' i) (\<lambda>_.
       bindM (put_input id' i v) (\<lambda>_.
       bindM (remove_output sp oof fuel prev (mk_output id' i) False) (\<lambda>_.
       bindM (put_input id' i prev) (\<lambda>_.
       bindM (g_get_node id') (\<lambda>n.
       if node_rtype n \<noteq> DEAD_NODE_KIND
       then
         bindM (unintern sp id' 0) (\<lambda>_.
         bindM (put_input id' i v) (\<lambda>_.
         bindM (intern sp id') (\<lambda>nid.
         bindM (settle nid) (\<lambda>_.
         ret nid))))
       else ret id'))))))))"

text \<open>\<^verbatim>\<open>set_input\<close> with \<^verbatim>\<open>subsume_on_intern\<close> off, as is its default.\<close>

definition set_input :: "Node_Spec \<Rightarrow> fault \<Rightarrow> nat \<Rightarrow> u32 \<Rightarrow> int \<Rightarrow> u32 \<Rightarrow> u32 gact" where
  "set_input sp oof fuel id' = set_input_by sp oof fuel (\<lambda>nid. assertM (nid = id') ''nid == id'') id'"

end
