(* ===== verification/Graph_Views.thy ===== *)
theory Graph_Views
  imports Graph "HOL-Library.Multiset"
begin

text \<open>
  What a graph means: its nodes as values, its edges seen from both ends, the table of the interner as a
  list of nodes. The invariants of the graph are stated over these views, and the laws of the interner
  are proved: it holds every interned node once, and finds the node of a given value when there is one.
\<close>

section \<open>Views\<close>

definition live :: "graph \<Rightarrow> u32 \<Rightarrow> bool" where
  "live g n \<longleftrightarrow> (case g_nodes g n of None \<Rightarrow> False | Some x \<Rightarrow> node_rtype x \<noteq> DEAD_NODE_KIND)"

definition ins :: "graph \<Rightarrow> u32 \<Rightarrow> u32 list" where
  "ins g n = (case g_nodes g n of None \<Rightarrow> [] | Some x \<Rightarrow> node_inps x)"

definition outs :: "graph \<Rightarrow> u32 \<Rightarrow> (u32 \<times> nat) list" where
  "outs g n = (case g_nodes g n of None \<Rightarrow> [] | Some x \<Rightarrow> node_outs x)"

text \<open>The type, the other fixed fields and the extra words of a node.\<close>

definition kind_of :: "graph \<Rightarrow> u32 \<Rightarrow> u16 \<times> u16 \<times> u32 list" where
  "kind_of g n = (case g_nodes g n of None \<Rightarrow> (0, 0, []) | Some x \<Rightarrow> (node_rtype x, node_meta x, node_extra x))"

type_synonym nvalue = "(u16 \<times> u16 \<times> u32 list) \<times> u32 list"

definition value_of :: "graph \<Rightarrow> u32 \<Rightarrow> nvalue" where
  "value_of g n = (kind_of g n, ins g n)"

definition interned :: "Node_Spec \<Rightarrow> graph \<Rightarrow> u32 \<Rightarrow> bool" where
  "interned sp g n \<longleftrightarrow> live g n \<and> flag_interned sp (fst (kind_of g n))"

definition value_hash :: "Node_Spec \<Rightarrow> nvalue \<Rightarrow> u8" where
  "value_hash sp v = (case v of ((ty, m, ex), is) \<Rightarrow>
     node_hash sp (NIL_NODE\<lparr>node_rtype := ty, node_meta := m, node_extra := ex, node_inps := is\<rparr>))"

lemma value_hash_node: "g_nodes g n = Some x \<Longrightarrow> node_hash sp x = value_hash sp (value_of g n)"
  by (simp add: value_hash_def value_of_def kind_of_def ins_def node_hash_def node_spec_word_def)

section \<open>Invariants\<close>

text \<open>
  The inputs and outputs of the graph are two views of the same edges, except for the edges in \<open>E\<close>: they
  are among the inputs of a node that is about to be deleted, or has just been made. An output of the nil
  node is a pin.
\<close>

definition edges_match :: "(u32 \<times> nat) set \<Rightarrow> graph \<Rightarrow> bool" where
  "edges_match E g \<longleftrightarrow>
     (\<forall>n. g_nodes g n \<noteq> None \<longrightarrow> n \<noteq> 0 \<and> unat n < 2 ^ 22) \<and>
     (\<forall>n. \<not> live g n \<longrightarrow> outs g n = []) \<and>
     (\<forall>n i. live g n \<longrightarrow> i < length (ins g n) \<longrightarrow> ins g n ! i \<noteq> 0 \<longrightarrow> (n, i) \<notin> E \<longrightarrow> (n, i) \<in> set (outs g (ins g n ! i))) \<and>
     (\<forall>d u i. (u, i) \<in> set (outs g d) \<longrightarrow> u \<noteq> 0 \<longrightarrow>
        live g u \<and> i < length (ins g u) \<and> i < 256 \<and> ins g u ! i = d \<and> (u, i) \<notin> E \<and> count_list (outs g d) (u, i) = 1)"

definition edges_agree :: "(u32 \<times> nat) set \<Rightarrow> graph \<Rightarrow> bool" where
  "edges_agree E g \<longleftrightarrow> edges_match E g \<and> (\<forall>(n, i) \<in> E. live g n \<and> outs g n = [])"

lemma edges_matchD:
  assumes "edges_match E g"
  shows "g_nodes g n \<noteq> None \<Longrightarrow> n \<noteq> 0 \<and> unat n < 2 ^ 22"
    "\<not> live g n \<Longrightarrow> outs g n = []"
    "live g n \<Longrightarrow> i < length (ins g n) \<Longrightarrow> ins g n ! i \<noteq> 0 \<Longrightarrow> (n, i) \<notin> E \<Longrightarrow> (n, i) \<in> set (outs g (ins g n ! i))"
    "(u, i) \<in> set (outs g d) \<Longrightarrow> u \<noteq> 0 \<Longrightarrow>
       live g u \<and> i < length (ins g u) \<and> i < 256 \<and> ins g u ! i = d \<and> (u, i) \<notin> E \<and> count_list (outs g d) (u, i) = 1"
  using assms unfolding edges_match_def by blast+

lemma edges_agreeD:
  assumes "edges_agree E g"
  shows "g_nodes g n \<noteq> None \<Longrightarrow> n \<noteq> 0 \<and> unat n < 2 ^ 22"
    "\<not> live g n \<Longrightarrow> outs g n = []"
    "live g n \<Longrightarrow> i < length (ins g n) \<Longrightarrow> ins g n ! i \<noteq> 0 \<Longrightarrow> (n, i) \<notin> E \<Longrightarrow> (n, i) \<in> set (outs g (ins g n ! i))"
    "(u, i) \<in> set (outs g d) \<Longrightarrow> u \<noteq> 0 \<Longrightarrow>
       live g u \<and> i < length (ins g u) \<and> i < 256 \<and> ins g u ! i = d \<and> (u, i) \<notin> E \<and> count_list (outs g d) (u, i) = 1"
    "(n, i) \<in> E \<Longrightarrow> live g n \<and> outs g n = []"
  using assms edges_matchD [of E g] unfolding edges_agree_def by blast+

lemma nil_no_node: "edges_agree E g \<Longrightarrow> g_nodes g 0 = None"
  using edges_agreeD(1) [of E g 0] by blast

text \<open>
  The table of the interner. Its rows hold a hash and a node; nodes that have died may still stand in it. Of the others
  each stands there once, under the hash of its value, and no two have the same value. The nodes in \<open>X\<close> have not been
  entered yet, or no more; those that \<open>Y\<close> maps to a value are registered with that value, because an input is being replaced.
\<close>

definition rows :: "graph \<Rightarrow> (u8 \<times> u32) list" where
  "rows g = zip (take (g_len g) (g_hashes g)) (take (g_len g) (g_ids g))"

definition entries :: "graph \<Rightarrow> u32 set" where
  "entries g = {n \<in> snd ` set (rows g). live g n}"

definition registered :: "(u32 \<rightharpoonup> nvalue) \<Rightarrow> graph \<Rightarrow> u32 \<Rightarrow> nvalue" where
  "registered Y g n = (case Y n of None \<Rightarrow> value_of g n | Some v \<Rightarrow> v)"

definition shape_ok :: "graph \<Rightarrow> bool" where
  "shape_ok g \<longleftrightarrow> length (g_ids g) = length (g_hashes g) \<and> 16 dvd length (g_hashes g) \<and> g_len g \<le> length (g_hashes g) \<and>
     (\<forall>j < length (g_hashes g). g_len g \<le> j \<longrightarrow> g_hashes g ! j = 0 \<and> g_ids g ! j = 0)"

definition rows_ok :: "Node_Spec \<Rightarrow> u32 set \<Rightarrow> (u32 \<rightharpoonup> nvalue) \<Rightarrow> graph \<Rightarrow> bool" where
  "rows_ok sp X Y g \<longleftrightarrow>
     (\<forall>(h, n) \<in> set (rows g). g_nodes g n \<noteq> None \<and> (live g n \<longrightarrow> interned sp g n \<and> h = value_hash sp (registered Y g n))) \<and>
     distinct (filter (live g) (map snd (rows g))) \<and> inj_on (registered Y g) (entries g) \<and> entries g = {n. interned sp g n} - X"

definition table_ok :: "Node_Spec \<Rightarrow> u32 set \<Rightarrow> (u32 \<rightharpoonup> nvalue) \<Rightarrow> graph \<Rightarrow> bool" where
  "table_ok sp X Y g \<longleftrightarrow> shape_ok g \<and> rows_ok sp X Y g"

lemma rows_okD:
  assumes "rows_ok sp X Y g"
  shows "(h, n) \<in> set (rows g) \<Longrightarrow> g_nodes g n \<noteq> None" "(h, n) \<in> set (rows g) \<Longrightarrow> live g n \<Longrightarrow> interned sp g n"
    "(h, n) \<in> set (rows g) \<Longrightarrow> live g n \<Longrightarrow> h = value_hash sp (registered Y g n)"
    "distinct (filter (live g) (map snd (rows g)))" "inj_on (registered Y g) (entries g)" "entries g = {n. interned sp g n} - X"
  using assms unfolding rows_ok_def by auto

lemma registered_empty [simp]: "registered Map.empty = value_of"
  by (simp add: registered_def fun_eq_iff)

text \<open>The arrays of a node are as long as their capacity says, and types of nodes are known.\<close>

definition node_ok :: "Node_Spec \<Rightarrow> node \<Rightarrow> bool" where
  "node_ok sp x \<longleftrightarrow> length (node_inps x) \<le> unat (node_input_cap x) \<and> length (node_outs x) \<le> unat (node_output_cap x) \<and>
     unat (node_output_cap x) < 2 ^ 14 \<and> (node_rtype x \<noteq> DEAD_NODE_KIND \<longrightarrow> unat (node_rtype x) < type_count sp)"

definition nodes_ok :: "Node_Spec \<Rightarrow> graph \<Rightarrow> bool" where
  "nodes_ok sp g \<longleftrightarrow> (\<forall>n x. g_nodes g n = Some x \<longrightarrow> node_ok sp x \<and> 4 * unat n < g_pos g) \<and> 4 dvd g_pos g \<and> 0 < g_pos g \<and>
     type_count sp < 2 ^ 16"

definition graph_inv :: "Node_Spec \<Rightarrow> (u32 \<times> nat) set \<Rightarrow> u32 set \<Rightarrow> (u32 \<rightharpoonup> nvalue) \<Rightarrow> graph \<Rightarrow> bool" where
  "graph_inv sp E X Y g \<longleftrightarrow> edges_agree E g \<and> table_ok sp X Y g \<and> nodes_ok sp g \<and> \<not> g_dont_delete g \<and> \<not> g_dont_intern g"

definition graph_ok :: "Node_Spec \<Rightarrow> graph \<Rightarrow> bool" where
  "graph_ok sp g \<longleftrightarrow> graph_inv sp {} {} Map.empty g"

lemma graph_invD:
  assumes "graph_inv sp E X Y g"
  shows "edges_agree E g" "table_ok sp X Y g" "nodes_ok sp g" "\<not> g_dont_delete g" "\<not> g_dont_intern g"
  using assms by (auto simp: graph_inv_def)

lemmas graph_okD = graph_invD [of _ "{}" "{}" Map.empty, folded graph_ok_def]

lemma graph_inv_domain: "graph_inv sp E X Y g \<Longrightarrow> live g n \<Longrightarrow> n \<noteq> 0 \<and> g_nodes g n \<noteq> None \<and> unat n < 2 ^ 22"
  using edges_agreeD(1) [of E g n] by (auto simp: graph_inv_def live_def split: option.splits)

lemmas graph_ok_domain = graph_inv_domain [of _ "{}" "{}" Map.empty, folded graph_ok_def]

section \<open>Small steps\<close>

lemma live_node: "live g n \<Longrightarrow> \<exists>x. g_nodes g n = Some x \<and> node_rtype x \<noteq> DEAD_NODE_KIND"
  by (auto simp: live_def split: option.splits)

lemma g_get_node_some: "n \<noteq> 0 \<Longrightarrow> g_nodes g n = Some x \<Longrightarrow> g_get_node n g = (Inr x, g)"
  by (simp add: g_get_node_def)

lemma g_get_node_state: "g_get_node n g = (r, g') \<Longrightarrow> g' = g"
  by (auto simp: g_get_node_def split: if_splits option.splits)

text \<open>Changes of the outputs of one node only.\<close>

definition with_outs :: "u32 \<Rightarrow> (u32 \<times> nat) list \<Rightarrow> graph \<Rightarrow> graph" where
  "with_outs d os g = g\<lparr>g_nodes := (g_nodes g)(d := map_option (node_outs_update (\<lambda>_. os)) (g_nodes g d))\<rparr>"

lemma with_outs_views [simp]:
  "live (with_outs d os g) = live g" "ins (with_outs d os g) = ins g" "kind_of (with_outs d os g) = kind_of g"
  "g_nodes (with_outs d os g) n = None \<longleftrightarrow> g_nodes g n = None"
  "value_of (with_outs d os g) = value_of g" "interned sp (with_outs d os g) = interned sp g"
  "g_pos (with_outs d os g) = g_pos g" "g_reserved (with_outs d os g) = g_reserved g"
  "g_dont_delete (with_outs d os g) = g_dont_delete g" "g_dont_intern (with_outs d os g) = g_dont_intern g"
  "g_hashes (with_outs d os g) = g_hashes g" "g_ids (with_outs d os g) = g_ids g" "g_len (with_outs d os g) = g_len g"
  by (auto simp: with_outs_def live_def ins_def kind_of_def value_of_def interned_def fun_eq_iff split: option.splits)

lemma outs_with_outs [simp]:
  "outs (with_outs d os g) n = (if n = d \<and> g_nodes g d \<noteq> None then os else outs g n)"
  by (auto simp: with_outs_def outs_def split: option.splits)

lemma put_outs: "g_put_node d (node_outs_update f) g = (Inr (), with_outs d (f (outs g d)) g)"
  by (auto simp: g_put_node_def with_outs_def outs_def fun_eq_iff split: option.splits intro!: arg_cong [of _ _ "\<lambda>x. g\<lparr>g_nodes := x\<rparr>"])

text \<open>A change that the table need not know of.\<close>

lemma table_ok_frame:
  assumes g: "table_ok sp X Y g"
    and m: "\<And>m. m \<in> snd ` set (rows g) \<Longrightarrow> g_nodes g' m \<noteq> None \<and> live g' m = live g m \<and> (live g m \<longrightarrow> registered Y' g' m = registered Y g m)"
    and i: "{n. interned sp g' n} - X' = {n. interned sp g n} - X"
    and tab: "g_hashes g' = g_hashes g" "g_ids g' = g_ids g" "g_len g' = g_len g"
  shows "table_ok sp X' Y' g'"
proof -
  have shape: "shape_ok g" and r: "rows_ok sp X Y g" using g by (simp_all add: table_ok_def)
  have rows: "rows g' = rows g" by (simp add: rows_def tab)
  have ent: "entries g' = entries g" using m by (auto simp: entries_def rows)
  have row: "g_nodes g' n \<noteq> None" "live g' n = live g n" "live g n \<Longrightarrow> registered Y' g' n = registered Y g n" if "(h, n) \<in> set (rows g)" for h n
    using that m [of n] by (force simp: image_iff)+
  have int: "entries g = {n. interned sp g' n} - X'" using rows_okD(6) [OF r] i by simp
  have "interned sp g' n" if "(h, n) \<in> set (rows g)" "live g n" for h n
  proof -
    have "n \<in> entries g" using that by (force simp: entries_def image_iff)
    then show ?thesis using int by blast
  qed
  then have "\<forall>(h, n) \<in> set (rows g'). g_nodes g' n \<noteq> None \<and> (live g' n \<longrightarrow> interned sp g' n \<and> h = value_hash sp (registered Y' g' n))"
    using row rows_okD(3) [OF r] by (auto simp: rows)
  moreover have "filter (live g') (map snd (rows g')) = filter (live g) (map snd (rows g))"
    unfolding rows by (rule filter_cong) (use m in auto)
  moreover have "inj_on (registered Y' g') (entries g')"
    using rows_okD(5) [OF r] m by (auto simp: inj_on_def ent) (auto simp: entries_def)
  moreover have "shape_ok g'" using shape by (simp add: shape_ok_def tab)
  ultimately show ?thesis using rows_okD(4) [OF r] ent int by (simp add: table_ok_def rows_ok_def)
qed

lemma table_views:
  assumes "live g' = live g" "value_of g' = value_of g" "interned sp g' = interned sp g" "\<And>n. g_nodes g' n = None \<longleftrightarrow> g_nodes g n = None"
    "g_hashes g' = g_hashes g" "g_ids g' = g_ids g" "g_len g' = g_len g"
  shows "table_ok sp X Y g' = table_ok sp X Y g"
proof -
  have r: "rows g' = rows g" "entries g' = entries g" "registered Y g' = registered Y g"
    by (auto simp: rows_def entries_def registered_def fun_eq_iff assms split: option.split)
  show ?thesis unfolding table_ok_def shape_ok_def rows_ok_def r assms ..
qed

text \<open>A node that does not stand in the table may change.\<close>

lemma table_ok_other:
  assumes g: "table_ok sp X Y g" and u: "u \<notin> snd ` set (rows g)"
    and same: "\<And>m. m \<noteq> u \<Longrightarrow> (g_nodes g' m = None \<longleftrightarrow> g_nodes g m = None) \<and> live g' m = live g m \<and> value_of g' m = value_of g m"
    and tab: "g_hashes g' = g_hashes g" "g_ids g' = g_ids g" "g_len g' = g_len g"
  shows "table_ok sp (insert u X) Y g'"
proof (rule table_ok_frame [OF g _ _ tab])
  fix m assume m: "m \<in> snd ` set (rows g)"
  then have "m \<noteq> u" "g_nodes g m \<noteq> None" using u g by (auto simp: table_ok_def rows_ok_def)
  then show "g_nodes g' m \<noteq> None \<and> live g' m = live g m \<and> (live g m \<longrightarrow> registered Y g' m = registered Y g m)"
    using same [of m] by (simp add: registered_def split: option.split)
next
  have "interned sp g' m = interned sp g m" if "m \<noteq> u" for m using same [OF that] by (simp add: interned_def value_of_def)
  moreover have "\<not> (u \<in> {n. interned sp g n} - X)"
  proof
    assume "u \<in> {n. interned sp g n} - X"
    then have "u \<in> entries g" using g by (simp add: table_ok_def rows_ok_def)
    then show False using u by (simp add: entries_def)
  qed
  ultimately show "{n. interned sp g' n} - insert u X = {n. interned sp g n} - X" by (auto, metis, metis)
qed

lemma not_in_rows:
  assumes "table_ok sp X Y g" "g_nodes g u = None \<or> live g u \<and> u \<in> X"
  shows "u \<notin> snd ` set (rows g)"
proof
  assume u: "u \<in> snd ` set (rows g)"
  then have "g_nodes g u \<noteq> None" using assms(1) by (auto simp: table_ok_def rows_ok_def)
  then have "u \<in> entries g" "u \<in> X" using u assms(2) by (auto simp: entries_def)
  then show False using assms(1) by (simp add: table_ok_def rows_ok_def)
qed

lemma table_ok_with_outs [simp]: "table_ok sp X Y (with_outs d os g) = table_ok sp X Y g"
  by (rule table_views) simp_all

lemma node_eq_views:
  "g_nodes g' n = g_nodes g n \<Longrightarrow>
   live g' n = live g n \<and> ins g' n = ins g n \<and> outs g' n = outs g n \<and> kind_of g' n = kind_of g n \<and> value_of g' n = value_of g n"
  by (simp add: live_def ins_def outs_def kind_of_def value_of_def)

section \<open>Removal from a list\<close>

lemma linear_search_Some: "linear_search xs x = Some k \<Longrightarrow> k < length xs \<and> xs ! k = x"
  by (auto simp: linear_search_def find_Some_iff)

lemma linear_search_None: "linear_search xs x = None \<longleftrightarrow> x \<notin> set xs"
  by (auto simp: linear_search_def find_None_iff in_set_conv_nth)

lemma mset_swap_remove:
  assumes "k < length xs"
  shows "mset xs = add_mset (xs ! k) (mset (swap_remove xs k))"
proof -
  obtain ys l where xs: "xs = ys @ [l]" using assms by (cases xs rule: rev_cases) auto
  show ?thesis
  proof (cases "k = length ys")
    case True
    then show ?thesis by (simp add: swap_remove_def xs)
  next
    case False
    then have k: "k < length ys" using assms xs by simp
    then have "swap_remove xs k = ys[k := l]" by (simp add: swap_remove_def xs list_update_append)
    then show ?thesis using k by (simp add: xs nth_append mset_update)
  qed
qed

lemma swap_remove_facts:
  assumes "linear_search xs x = Some k"
  shows "count_list xs y = count_list (swap_remove xs k) y + (if y = x then 1 else 0)"
    "length xs = Suc (length (swap_remove xs k))" "set (swap_remove xs k) \<subseteq> set xs"
proof -
  have k: "k < length xs" "xs ! k = x" using linear_search_Some [OF assms] by auto
  note m = mset_swap_remove [OF k(1), unfolded k(2)]
  show "count_list xs y = count_list (swap_remove xs k) y + (if y = x then 1 else 0)"
    using arg_cong [OF m, of "\<lambda>M. count M y"] by (simp add: count_mset)
  show "length xs = Suc (length (swap_remove xs k))" using arg_cong [OF m, of size] by simp
  show "set (swap_remove xs k) \<subseteq> set xs" using arg_cong [OF m, of set_mset] by auto
qed

section \<open>Search\<close>

lemma node_hash_pos: "flag_interned sp (node_rtype n) \<Longrightarrow> node_hash sp n \<noteq> 0"
  by (simp add: node_hash_def max_def) (metis linorder_not_le word_le_0_iff word_zero_le)

lemma node_eq_value:
  assumes "a \<noteq> 0" "b \<noteq> 0" "g_nodes g a \<noteq> None" "g_nodes g b \<noteq> None"
  shows "node_eq a b g = (Inr (value_of g a = value_of g b), g)"
  using assms by (auto simp: node_eq_def g_get_node_def value_of_def kind_of_def ins_def bindM_apply ret_apply)

text \<open>The first of some positions whose node has the value of \<open>id'\<close>.\<close>

lemma find_equal_value:
  assumes "id' \<noteq> 0" "g_nodes g id' \<noteq> None" "\<forall>j \<in> set idxs. g_ids g ! j \<noteq> 0 \<and> g_nodes g (g_ids g ! j) \<noteq> None"
  shows "find_equal id' idxs g =
    (Inr (List.find (\<lambda>j. value_of g (g_ids g ! j) = value_of g id') idxs), g)"
  using assms(3)
proof (induction idxs)
  case (Cons j js)
  have "node_eq (g_ids g ! j) id' g =
    (Inr (value_of g (g_ids g ! j) = value_of g id'), g)"
    using Cons.prems assms by (intro node_eq_value) auto
  then show ?case using Cons by (simp add: ret_apply)
qed (simp add: ret_apply)

text \<open>The position that the interner finds.\<close>

definition find_pos :: "graph \<Rightarrow> u32 \<Rightarrow> u8 \<Rightarrow> nat option" where
  "find_pos g id' h = List.find (\<lambda>j. value_of g (g_ids g ! j) = value_of g id')
     (filter (\<lambda>j. g_hashes g ! j = h) [0..<length (g_hashes g)])"

lemma row_nth:
  assumes "shape_ok g" "j < g_len g"
  shows "j < length (rows g)" "rows g ! j = (g_hashes g ! j, g_ids g ! j)" "(g_hashes g ! j, g_ids g ! j) \<in> set (rows g)"
proof -
  show j: "j < length (rows g)" "rows g ! j = (g_hashes g ! j, g_ids g ! j)" using assms by (simp_all add: shape_ok_def rows_def)
  then show "(g_hashes g ! j, g_ids g ! j) \<in> set (rows g)" by (metis nth_mem)
qed

lemma length_rows: "shape_ok g \<Longrightarrow> length (rows g) = g_len g"
  by (simp add: shape_ok_def rows_def)

lemma row_at:
  assumes "shape_ok g" "(h, n) \<in> set (rows g)"
  shows "\<exists>j. j < g_len g \<and> j < length (g_hashes g) \<and> g_hashes g ! j = h \<and> g_ids g ! j = n"
proof -
  obtain j where "j < length (rows g)" "rows g ! j = (h, n)" using assms(2) by (metis in_set_conv_nth)
  then show ?thesis using assms(1) by (intro exI [of _ j]) (auto simp: rows_def shape_ok_def)
qed

lemma row_hash: "shape_ok g \<Longrightarrow> j < length (g_hashes g) \<Longrightarrow> g_hashes g ! j \<noteq> 0 \<Longrightarrow> j < g_len g"
  by (metis leI shape_ok_def)

lemma interned_hash: "interned sp g n \<Longrightarrow> value_hash sp (value_of g n) \<noteq> 0"
  using node_hash_pos value_hash_node by (fastforce simp: interned_def live_def kind_of_def split: option.splits)

lemma live_by_value: "g_nodes g m \<noteq> None \<Longrightarrow> live g n \<Longrightarrow> value_of g m = value_of g n \<Longrightarrow> live g m"
  by (auto simp: value_of_def kind_of_def live_def split: option.splits)

text \<open>What is found is an entry of that value, and if nothing is, no entry under its own hash has the value.\<close>

lemma find_pos_Some:
  assumes "table_ok sp X Y g" "interned sp g n" "find_pos g n (value_hash sp (value_of g n)) = Some j"
  shows "j < g_len g" "g_ids g ! j \<in> entries g" "value_of g (g_ids g ! j) = value_of g n"
proof -
  let ?h = "value_hash sp (value_of g n)"
  have shape: "shape_ok g" and r: "rows_ok sp X Y g" using assms(1) by (simp_all add: table_ok_def)
  have "j \<in> set (filter (\<lambda>j. g_hashes g ! j = ?h) [0..<length (g_hashes g)])" "value_of g (g_ids g ! j) = value_of g n"
    using assms(3) unfolding find_pos_def find_Some_iff by (metis (no_types, lifting) nth_mem, blast)
  then have j: "j < length (g_hashes g)" "g_hashes g ! j \<noteq> 0" and v: "value_of g (g_ids g ! j) = value_of g n"
    using interned_hash [OF assms(2)] by auto
  then show jl: "j < g_len g" "value_of g (g_ids g ! j) = value_of g n" using row_hash [OF shape] by auto
  note row = row_nth(3) [OF shape jl(1)]
  have "live g (g_ids g ! j)" using live_by_value [OF rows_okD(1) [OF r row] _ v] assms(2) by (simp add: interned_def)
  then show "g_ids g ! j \<in> entries g" using row by (force simp: entries_def)
qed

lemma find_pos_None:
  assumes "table_ok sp X Y g" "find_pos g n (value_hash sp (value_of g n)) = None" "m \<in> entries g" "Y m = None"
  shows "value_of g m \<noteq> value_of g n"
proof
  assume eq: "value_of g m = value_of g n"
  have shape: "shape_ok g" and r: "rows_ok sp X Y g" using assms(1) by (simp_all add: table_ok_def)
  obtain h where h: "(h, m) \<in> set (rows g)" "live g m" using assms(3) by (auto simp: entries_def)
  then have "h = value_hash sp (value_of g n)" using rows_okD(3) [OF r h] assms(4) eq by (simp add: registered_def)
  moreover obtain j where "j < length (g_hashes g)" "g_hashes g ! j = h" "g_ids g ! j = m" using row_at [OF shape h(1)] by blast
  ultimately have "j \<in> set (filter (\<lambda>j. g_hashes g ! j = value_hash sp (value_of g n)) [0..<length (g_hashes g)])"
    "value_of g (g_ids g ! j) = value_of g n" using eq by simp_all
  then show False using assms(2) unfolding find_pos_def find_None_iff by blast
qed

lemma interner_find_returns:
  assumes g: "table_ok sp X Y g" and n: "interned sp g n" and zero: "g_nodes g 0 = None"
  shows "interner_find sp n 0 g = (Inr (find_pos g n (value_hash sp (value_of g n)), value_hash sp (value_of g n)), g)"
proof -
  let ?h = "value_hash sp (value_of g n)"
  let ?is = "simd_positions (simd_iter_from (g_hashes g) ?h)"
  have shape: "shape_ok g" and r: "rows_ok sp X Y g" using g by (simp_all add: table_ok_def)
  obtain x where x: "g_nodes g n = Some x" using n live_node by (auto simp: interned_def)
  have n0: "n \<noteq> 0" using x zero by auto
  have h: "node_hash sp x = ?h" "?h \<noteq> 0" using value_hash_node [OF x] interned_hash [OF n] by simp_all
  have is': "?is = filter (\<lambda>j. g_hashes g ! j = ?h) [0..<length (g_hashes g)]"
    using scan_positions shape by (simp add: shape_ok_def)
  have "g_ids g ! j \<noteq> 0 \<and> g_nodes g (g_ids g ! j) \<noteq> None" if "j \<in> set ?is" for j
  proof -
    have "j < g_len g" using that row_hash [OF shape] h(2) unfolding is' by auto
    then have "g_nodes g (g_ids g ! j) \<noteq> None" using rows_okD(1) [OF r] row_nth(3) [OF shape] by blast
    then show ?thesis using zero by auto
  qed
  then have "find_equal n ?is g = (Inr (find_pos g n ?h), g)"
    using n0 x find_equal_value [of n g ?is] unfolding find_pos_def is' by blast
  then show ?thesis using n0 h g_get_node_some [OF _ x] by (simp add: interner_find_def Let_def ret_apply)
qed

end
