(* ===== verification/Graph_Interner.thy ===== *)
theory Graph_Interner
  imports Graph_Views
begin

text \<open>
  What \<^verbatim>\<open>intern\<close> and \<^verbatim>\<open>unintern\<close> do to the table, and that they do nothing to the nodes.
\<close>

section \<open>Everything but the table\<close>

definition same_graph :: "graph \<Rightarrow> graph \<Rightarrow> bool" where
  "same_graph g g' \<longleftrightarrow> g_nodes g' = g_nodes g \<and> g_dont_delete g' = g_dont_delete g \<and> g_dont_intern g' = g_dont_intern g \<and>
     g_reserved g' = g_reserved g"

lemma same_nodes_views:
  assumes "g_nodes g' = g_nodes g"
  shows "live g' = live g" "ins g' = ins g" "outs g' = outs g" "kind_of g' = kind_of g" "value_of g' = value_of g"
    "interned sp g' = interned sp g" "edges_match E g' = edges_match E g" "edges_agree E g' = edges_agree E g"
    "registered Y g' = registered Y g"
proof -
  show v: "live g' = live g" "ins g' = ins g" "outs g' = outs g" "kind_of g' = kind_of g"
    using assms by (auto simp: live_def ins_def outs_def kind_of_def fun_eq_iff)
  then show w: "value_of g' = value_of g" "interned sp g' = interned sp g" by (auto simp: value_of_def interned_def fun_eq_iff)
  show m: "edges_match E g' = edges_match E g" using assms unfolding edges_match_def v by simp
  show "edges_agree E g' = edges_agree E g" using m unfolding edges_agree_def v by simp
  show "registered Y g' = registered Y g" using w(1) by (auto simp: registered_def fun_eq_iff split: option.split)
qed

lemma nodes_ok_mono: "nodes_ok sp g \<Longrightarrow> g_nodes g' = g_nodes g \<Longrightarrow> g_pos g \<le> g_pos g' \<Longrightarrow> 4 dvd g_pos g' \<Longrightarrow> nodes_ok sp g'"
  unfolding nodes_ok_def by force

lemma known_type: "nodes_ok sp g \<Longrightarrow> g_nodes g n = Some x \<Longrightarrow> node_rtype x \<noteq> DEAD_NODE_KIND \<Longrightarrow> unat (node_rtype x) < type_count sp"
  by (auto simp: nodes_ok_def node_ok_def)

lemma has_flag_returns:
  assumes "nodes_ok sp g" "g_nodes g n = Some x" "live g n"
  shows "has_flag sp (flag_interned sp) x g' = (Inr (interned sp g n), g')"
  using assms known_type [OF assms(1,2)] by (simp add: has_flag_def live_def interned_def kind_of_def ret_apply)

section \<open>Leaving the table\<close>

lemma swap_remove_take:
  assumes "j < k" "k \<le> length xs"
  shows "swap_remove (take k xs) j = take (k - 1) (xs[j := xs ! (k - 1), k - 1 := y])"
proof -
  have l: "length (take k xs) = k" using assms by simp
  have "last (take k xs) = xs ! (k - 1)" using assms l by (subst last_conv_nth) auto
  then show ?thesis
    using assms by (auto simp: swap_remove_def butlast_conv_take take_update_swap intro!: nth_equalityI simp: nth_list_update)
qed

lemma swap_remove_zip:
  assumes "length xs = length ys" "k < length xs"
  shows "swap_remove (zip xs ys) k = zip (swap_remove xs k) (swap_remove ys k)"
proof -
  have ne: "zip xs ys \<noteq> []" "xs \<noteq> []" "ys \<noteq> []" using assms by auto
  then have "last (zip xs ys) = (last xs, last ys)" using assms by (simp add: last_conv_nth)
  then show ?thesis using assms by (simp add: swap_remove_def update_zip butlast_conv_take take_zip)
qed

text \<open>The state without the row \<open>j\<close>: the last row has taken its place.\<close>

definition row_removed :: "nat \<Rightarrow> graph \<Rightarrow> graph" where
  "row_removed j g = g\<lparr>g_len := g_len g - 1, g_hashes := (g_hashes g)[j := g_hashes g ! (g_len g - 1), g_len g - 1 := 0],
     g_ids := (g_ids g)[j := g_ids g ! (g_len g - 1), g_len g - 1 := 0]\<rparr>"

lemma rows_removed:
  assumes "shape_ok g" "j < g_len g"
  shows "shape_ok (row_removed j g)" "rows (row_removed j g) = swap_remove (rows g) j"
    "mset (rows g) = add_mset (g_hashes g ! j, g_ids g ! j) (mset (rows (row_removed j g)))"
proof -
  have l: "g_len g \<le> length (g_hashes g)" "length (g_ids g) = length (g_hashes g)" using assms(1) by (auto simp: shape_ok_def)
  show r: "rows (row_removed j g) = swap_remove (rows g) j"
    using swap_remove_zip [of "take (g_len g) (g_hashes g)" "take (g_len g) (g_ids g)" j] l assms(2)
      swap_remove_take [OF assms(2), of "g_hashes g" 0] swap_remove_take [OF assms(2), of "g_ids g" 0]
    by (simp add: rows_def row_removed_def)
  show "mset (rows g) = add_mset (g_hashes g ! j, g_ids g ! j) (mset (rows (row_removed j g)))"
    unfolding r using mset_swap_remove [OF row_nth(1) [OF assms]] row_nth(2) [OF assms] by simp
  have z: "\<forall>k < length (g_hashes g). g_len g \<le> k \<longrightarrow> g_hashes g ! k = 0 \<and> g_ids g ! k = 0" "16 dvd length (g_hashes g)"
    using assms(1) by (auto simp: shape_ok_def)
  have spare: "xs[j := v, g_len g - 1 := 0] ! k = 0"
    if "length xs = length (g_hashes g)" "\<forall>k < length (g_hashes g). g_len g \<le> k \<longrightarrow> xs ! k = 0" "k < length (g_hashes g)" "g_len g - 1 \<le> k"
    for k v and xs :: "'z :: zero list"
    using that assms(2) by (cases "k = g_len g - 1") (auto simp: nth_list_update)
  show "shape_ok (row_removed j g)"
    using spare [of "g_hashes g"] spare [of "g_ids g"] z l by (auto simp: shape_ok_def row_removed_def)
qed

lemma row_removed_nodes: "g_nodes (row_removed j g) = g_nodes g"
  by (simp add: row_removed_def)

lemma table_ok_removed:
  assumes g: "table_ok sp X Y g" and j: "j < g_len g" "live g (g_ids g ! j)"
  shows "table_ok sp (insert (g_ids g ! j) X) Y (row_removed j g)"
proof -
  let ?g = "row_removed j g" and ?n = "g_ids g ! j"
  have shape: "shape_ok g" and r: "rows_ok sp X Y g" using g by (simp_all add: table_ok_def)
  note m = rows_removed(3) [OF shape j(1)] and v = same_nodes_views [OF row_removed_nodes [of j g]]
  have sub: "set (rows g) = insert (g_hashes g ! j, ?n) (set (rows ?g))" using arg_cong [OF m, of set_mset] by simp
  have "mset (filter (live g) (map snd (rows g))) = add_mset ?n (mset (filter (live g) (map snd (rows ?g))))"
    using arg_cong [OF m, of "\<lambda>M. filter_mset (live g) (image_mset snd M)"] j(2) by (simp add: mset_filter)
  then have "mset (filter (live g) (map snd (rows g))) = mset (?n # filter (live g) (map snd (rows ?g)))" by simp
  then have d: "distinct (?n # filter (live g) (map snd (rows ?g)))" using mset_eq_imp_distinct_iff rows_okD(4) [OF r] by blast
  have ent: "entries g = insert ?n (entries ?g)" "?n \<notin> entries ?g"
    using sub j(2) d by (auto simp: entries_def v(1))
  have "entries ?g = {n. interned sp ?g n} - insert ?n X" using ent rows_okD(6) [OF r] unfolding v(6) by blast
  moreover have "inj_on (registered Y ?g) (entries ?g)" using rows_okD(5) [OF r] ent(1) unfolding v(9) by (auto intro: inj_on_subset)
  moreover have "\<forall>(h, n) \<in> set (rows ?g). g_nodes ?g n \<noteq> None \<and> (live ?g n \<longrightarrow> interned sp ?g n \<and> h = value_hash sp (registered Y ?g n))"
    using r sub unfolding rows_ok_def v row_removed_nodes by blast
  moreover have "distinct (filter (live ?g) (map snd (rows ?g)))" using d unfolding v(1) by simp
  ultimately show ?thesis unfolding table_ok_def rows_ok_def using rows_removed(1) [OF shape j(1)] by blast
qed

text \<open>The row of a node is gone, or the node may stay where it is because it will be dead.\<close>

definition forgotten :: "Node_Spec \<Rightarrow> u32 set \<Rightarrow> (u32 \<rightharpoonup> nvalue) \<Rightarrow> u32 \<Rightarrow> graph \<Rightarrow> bool" where
  "forgotten sp X Y n g \<longleftrightarrow> table_ok sp X Y g \<or> table_ok sp (insert n X) Y g"

lemma unintern_cases:
  assumes g: "table_ok sp X Y g" "nodes_ok sp g" "\<not> g_dont_intern g" and n: "live g n" and zero: "g_nodes g 0 = None"
  shows "\<exists>g'. unintern sp n 0 g = (Inr (), g') \<and> same_graph g g' \<and> g_pos g' = g_pos g \<and> length (g_hashes g') = length (g_hashes g) \<and>
    forgotten sp X Y n g' \<and> (Y = Map.empty \<longrightarrow> table_ok sp (insert n X) Y g')"
proof -
  obtain x where x: "g_nodes g n = Some x" using live_node [OF n] by blast
  have n0: "n \<noteq> 0" using zero x by auto
  have shape: "shape_ok g" and r: "rows_ok sp X Y g" using g(1) by (simp_all add: table_ok_def)
  note get = g_get_node_some [OF n0 x] and flag = has_flag_returns [OF g(2) x n]
  have ins: "table_ok sp (insert n X) Y g" if "n \<notin> entries g"
    using that g(1) rows_okD(6) [OF r] unfolding table_ok_def rows_ok_def by auto
  show ?thesis
  proof (cases "interned sp g n")
    case False
    then have "unintern sp n 0 g = (Inr (), g)" using get flag by (simp add: unintern_def ret_apply)
    moreover have "n \<notin> entries g" using False rows_okD(6) [OF r] by auto
    ultimately show ?thesis using g(1) ins by (auto simp: same_graph_def forgotten_def)
  next
    case True
    let ?h = "value_hash sp (value_of g n)"
    note find = interner_find_returns [OF g(1) True zero]
    show ?thesis
    proof (cases "\<exists>j. find_pos g n ?h = Some j \<and> g_ids g ! j = n")
      case True
      then obtain j where j: "find_pos g n ?h = Some j" "g_ids g ! j = n" by blast
      note f = find_pos_Some [OF g(1) \<open>interned sp g n\<close> j(1)]
      have "unintern sp n 0 g = (Inr (), row_removed j g)"
        using get flag \<open>interned sp g n\<close> g(3) find j by (simp add: unintern_def Let_def row_removed_def)
      moreover have "table_ok sp (insert n X) Y (row_removed j g)" using table_ok_removed [OF g(1) f(1)] n j(2) by simp
      ultimately show ?thesis by (auto simp: same_graph_def row_removed_def forgotten_def)
    next
      case no: False
      then have run: "unintern sp n 0 g = (Inr (), g)"
        using get flag True g(3) find by (cases "find_pos g n ?h") (auto simp: unintern_def ret_apply)
      moreover have "n \<notin> entries g" if empty: "Y = Map.empty"
      proof
        assume e: "n \<in> entries g"
        then obtain j where j: "find_pos g n ?h = Some j" using find_pos_None [OF g(1) _ e] empty by fastforce
        note f = find_pos_Some [OF g(1) True j]
        then have "g_ids g ! j = n" using rows_okD(5) [OF r] e empty by (auto simp: inj_on_def)
        then show False using no j by blast
      qed
      ultimately show ?thesis using g(1) ins by (auto simp: same_graph_def forgotten_def)
    qed
  qed
qed

lemma unintern_returns:
  assumes g: "table_ok sp X Map.empty g" "nodes_ok sp g" "\<not> g_dont_intern g" and n: "live g n" and zero: "g_nodes g 0 = None"
  shows "\<exists>g'. unintern sp n 0 g = (Inr (), g') \<and> same_graph g g' \<and> g_pos g' = g_pos g \<and> table_ok sp (insert n X) Map.empty g' \<and>
    length (g_hashes g') = length (g_hashes g)"
  using unintern_cases [OF g n zero] by blast

section \<open>Entering the table\<close>

text \<open>What the interner may need of the arena.\<close>

definition intern_room :: "graph \<Rightarrow> nat" where
  "intern_room g = 5 * (length (g_hashes g) * 2 + 16) + 16"

lemma align_up_4: "4 dvd p \<Longrightarrow> align_up p 4 = p"
  by (auto simp: align_up_def)

lemma align_up_16: "align_up p 16 \<le> p + 16" "p \<le> align_up p 16" "4 dvd align_up p 16"
proof -
  show "align_up p 16 \<le> p + 16" "p \<le> align_up p 16" using align_up_less [of 16 p] align_up_ge [of 16 p] by simp_all
  have "16 dvd align_up p 16" by (rule align_up_dvd)
  then show "4 dvd align_up p 16" by (rule dvd_trans [rotated]) simp
qed


text \<open>The state after the tables have been moved to larger ones.\<close>

definition grown :: "graph \<Rightarrow> graph" where
  "grown g = (let cap = length (g_hashes g) * 2 + 16; m = length (g_hashes g) + 16 in
     g\<lparr>g_pos := align_up (g_pos g) 16 + 5 * cap, g_hashes := g_hashes g @ replicate m 0, g_ids := g_ids g @ replicate m 0\<rparr>)"

lemma grow_returns:
  assumes "shape_ok g"
  shows "interner_grow (length (g_hashes g) * 2 + 16) g = (Inr (), grown g) \<or>
    (\<exists>g'. interner_grow (length (g_hashes g) * 2 + 16) g = (Inl (Ub ''the arena is full''), g')) \<and> g_reserved g < g_pos g + intern_room g"
proof -
  let ?c = "length (g_hashes g) * 2 + 16"
  let ?g = "g\<lparr>g_pos := align_up (g_pos g) 16 + ?c\<rparr>"
  have "4 dvd ?c" using assms by (auto simp: shape_ok_def elim!: dvdE)
  then have a: "align_up (align_up (g_pos g) 16 + ?c) 4 = align_up (g_pos g) 16 + ?c" by (rule align_up_4 [OF dvd_add [OF align_up_16(3)]])
  have m: "?c - length (g_hashes g) = length (g_hashes g) + 16" by simp
  have room: "align_up (g_pos g) 16 + 5 * ?c \<le> g_pos g + intern_room g" using align_up_16(1) [of "g_pos g"] by (simp add: intern_room_def)
  have one: "g_alloc ?c 16 g = (if align_up (g_pos g) 16 + ?c \<le> g_reserved g then (Inr (), ?g) else (Inl (Ub ''the arena is full''), g))"
    by (simp add: g_alloc_def requireM_def fail_apply)
  have two: "g_alloc (?c * 4) 4 ?g = (if align_up (g_pos g) 16 + 5 * ?c \<le> g_reserved g
      then (Inr (), g\<lparr>g_pos := align_up (g_pos g) 16 + 5 * ?c\<rparr>) else (Inl (Ub ''the arena is full''), ?g))"
    using a by (simp add: g_alloc_def requireM_def fail_apply)
  show ?thesis
  proof (cases "align_up (g_pos g) 16 + 5 * ?c \<le> g_reserved g")
    case True
    then show ?thesis using one two m assms by (simp add: interner_grow_def grown_def Let_def shape_ok_def)
  next
    case False
    then have "\<exists>g'. interner_grow ?c g = (Inl (Ub ''the arena is full''), g')" using one two
      by (cases "align_up (g_pos g) 16 + ?c \<le> g_reserved g") (simp_all add: interner_grow_def)
    then show ?thesis using False room by auto
  qed
qed

lemma table_ok_grown:
  assumes "table_ok sp X Y g"
  shows "table_ok sp X Y (grown g)" "g_len g < length (g_hashes (grown g))"
proof -
  let ?g = "grown g"
  have shape: "shape_ok g" and r: "rows_ok sp X Y g" using assms by (simp_all add: table_ok_def)
  have nodes: "g_nodes ?g = g_nodes g" by (simp add: grown_def Let_def)
  note v = same_nodes_views [OF nodes]
  have f: "g_len ?g = g_len g" "g_hashes ?g = g_hashes g @ replicate (length (g_hashes g) + 16) 0"
    "g_ids ?g = g_ids g @ replicate (length (g_hashes g) + 16) 0"
    by (simp_all add: grown_def Let_def)
  have rows: "rows ?g = rows g" using shape by (simp add: rows_def f shape_ok_def)
  have "shape_ok ?g" using shape by (auto simp: shape_ok_def f nth_append elim!: dvdE)
  moreover have "rows_ok sp X Y ?g" using r unfolding rows_ok_def rows entries_def v nodes .
  ultimately show "table_ok sp X Y ?g" by (simp add: table_ok_def)
  show "g_len g < length (g_hashes ?g)" using shape by (simp add: f shape_ok_def)
qed

definition entered :: "Node_Spec \<Rightarrow> u32 \<Rightarrow> graph \<Rightarrow> graph" where
  "entered sp n g = g\<lparr>g_hashes := (g_hashes g)[g_len g := value_hash sp (value_of g n)], g_ids := (g_ids g)[g_len g := n],
     g_len := g_len g + 1\<rparr>"

lemma table_ok_entered:
  assumes g: "table_ok sp X Map.empty g" and n: "interned sp g n" "\<forall>m \<in> entries g. value_of g m \<noteq> value_of g n"
    and room: "g_len g < length (g_hashes g)"
  shows "table_ok sp (X - {n}) Map.empty (entered sp n g)"
proof -
  let ?g = "entered sp n g" and ?row = "(value_hash sp (value_of g n), n)"
  have shape: "shape_ok g" and r: "rows_ok sp X Map.empty g" using g by (simp_all add: table_ok_def)
  have nodes: "g_nodes ?g = g_nodes g" by (simp add: entered_def)
  note v = same_nodes_views [OF nodes]
  have rows: "rows ?g = rows g @ [?row]"
    using shape room by (simp add: rows_def entered_def take_Suc_conv_app_nth shape_ok_def)
  have l: "live g n" "g_nodes g n \<noteq> None" using n(1) live_node by (auto simp: interned_def)
  have ent: "entries ?g = insert n (entries g)" unfolding entries_def rows v using l(1) by auto
  have nn: "n \<notin> entries g" using n(2) by blast
  have "shape_ok ?g" using shape room by (auto simp: shape_ok_def entered_def)
  moreover have "\<forall>(h, m) \<in> set (rows ?g). g_nodes ?g m \<noteq> None \<and> (live ?g m \<longrightarrow> interned sp ?g m \<and> h = value_hash sp (registered Map.empty ?g m))"
    unfolding rows v nodes using r n(1) l by (auto simp: rows_ok_def)
  moreover have "distinct (filter (live ?g) (map snd (rows ?g)))"
    unfolding rows v using rows_okD(4) [OF r] nn l(1) by (auto simp: entries_def)
  moreover have "inj_on (registered Map.empty ?g) (entries ?g)"
    unfolding ent v using rows_okD(5) [OF r] n(2) by (auto simp: inj_on_insert)
  moreover have "entries ?g = {m. interned sp ?g m} - (X - {n})" unfolding ent v using rows_okD(6) [OF r] n(1) by auto
  ultimately show ?thesis by (simp only: table_ok_def rows_ok_def)
qed

lemma grow_if:
  "p g = (Inr (), g') \<or> (\<exists>g''. p g = (Inl e, g'')) \<and> R \<Longrightarrow>
   (if b then p else ret ()) g = (Inr (), if b then g' else g) \<or> b \<and> (\<exists>g''. p g = (Inl e, g'')) \<and> R"
  by (cases b) (auto simp: ret_apply)

text \<open>A node whose value is not in the table enters it.\<close>

lemma intern_new:
  assumes g: "table_ok sp X Map.empty g" "nodes_ok sp g" "\<not> g_dont_intern g" and n: "interned sp g n" and zero: "g_nodes g 0 = None"
    and none: "find_pos g n (value_hash sp (value_of g n)) = None"
  shows "(\<exists>g'. intern sp n g = (Inr n, g') \<and> same_graph g g' \<and> table_ok sp (X - {n}) Map.empty g' \<and> g_pos g \<le> g_pos g' \<and> 4 dvd g_pos g' \<and>
       g_pos g' \<le> g_pos g + intern_room g) \<or>
    (\<exists>g'. intern sp n g = (Inl (Ub ''the arena is full''), g')) \<and> g_reserved g < g_pos g + intern_room g"
proof -
  have live: "live g n" using n by (simp add: interned_def)
  then obtain x where x: "g_nodes g n = Some x" using live_node by blast
  have n0: "n \<noteq> 0" using zero x by auto
  have shape: "shape_ok g" and r: "rows_ok sp X Map.empty g" using g(1) by (simp_all add: table_ok_def)
  have p4: "4 dvd g_pos g" using g(2) by (simp add: nodes_ok_def)
  note get = g_get_node_some [OF n0 x] and flag = has_flag_returns [OF g(2) x live] and find = interner_find_returns [OF g(1) n zero]
  have no: "\<forall>m \<in> entries g. value_of g m \<noteq> value_of g n" using find_pos_None [OF g(1) none] by simp
  let ?g = "if length (g_hashes g) = g_len g then grown g else g"
  consider "(if length (g_hashes g) = g_len g then interner_grow (length (g_hashes g) * 2 + 16) else ret ()) g = (Inr (), ?g)"
    | "length (g_hashes g) = g_len g" "\<exists>g'. interner_grow (length (g_hashes g) * 2 + 16) g = (Inl (Ub ''the arena is full''), g')"
      "g_reserved g < g_pos g + intern_room g"
    using grow_if [where p = "interner_grow (length (g_hashes g) * 2 + 16)" and g = g, OF grow_returns [OF shape]] by blast
  then show ?thesis
  proof cases
    case grow: 1
    have nodes: "g_nodes ?g = g_nodes g" "g_dont_delete ?g = g_dont_delete g" "g_dont_intern ?g = g_dont_intern g"
      "g_reserved ?g = g_reserved g" "g_len ?g = g_len g" by (simp_all add: grown_def Let_def)
    note v = same_nodes_views [OF nodes(1)]
    have ok: "table_ok sp X Map.empty ?g" "g_len ?g < length (g_hashes ?g)" "entries ?g = entries g"
      using g(1) table_ok_grown [OF g(1)] shape nodes(5) rows_okD(6) [OF r] v(6) rows_okD(6) [of sp X Map.empty ?g]
      by (auto simp: shape_ok_def table_ok_def split: if_splits)
    have "intern sp n g = (Inr n, entered sp n ?g)" using get flag find n g(3) none grow v(5) by (simp add: intern_def entered_def)
    moreover have "table_ok sp (X - {n}) Map.empty (entered sp n ?g)"
      using n no ok(2,3) unfolding v by (intro table_ok_entered ok(1)) (simp_all only: v ok(3))
    moreover have "same_graph g (entered sp n ?g)" using nodes by (simp add: same_graph_def entered_def)
    moreover have "g_pos g \<le> g_pos ?g" "4 dvd g_pos ?g" "g_pos ?g \<le> g_pos g + intern_room g"
      using p4 align_up_16 [of "g_pos g"] shape by (auto simp: grown_def Let_def intern_room_def shape_ok_def elim!: dvdE)
    ultimately show ?thesis by (intro disjI1 exI [of _ "entered sp n ?g"]) (simp add: entered_def)
  next
    case 2
    then have "\<exists>g'. intern sp n g = (Inl (Ub ''the arena is full''), g')" using get flag find n g(3) none by (auto simp: intern_def)
    then show ?thesis using 2(3) by blast
  qed
qed

text \<open>A node is in the table already, or there is an equal one, or it enters.\<close>

lemma intern_returns:
  assumes g: "table_ok sp X Map.empty g" "nodes_ok sp g" "\<not> g_dont_intern g" and n: "live g n" and zero: "g_nodes g 0 = None"
  shows "(\<exists>m. intern sp n g = (Inr m, g) \<and> m \<noteq> n \<and> n \<in> X \<and> m \<in> entries g \<and> value_of g m = value_of g n) \<or>
    (\<exists>g'. intern sp n g = (Inr n, g') \<and> same_graph g g' \<and> table_ok sp (X - {n}) Map.empty g' \<and> g_pos g \<le> g_pos g' \<and> 4 dvd g_pos g' \<and>
       g_pos g' \<le> g_pos g + intern_room g \<and> (\<forall>m \<in> entries g. value_of g m = value_of g n \<longrightarrow> m = n)) \<or>
    (\<exists>g'. intern sp n g = (Inl (Ub ''the arena is full''), g')) \<and> g_reserved g < g_pos g + intern_room g"
proof -
  obtain x where x: "g_nodes g n = Some x" using live_node [OF n] by blast
  have n0: "n \<noteq> 0" using zero x by auto
  have r: "rows_ok sp X Map.empty g" using g(1) by (simp add: table_ok_def)
  note get = g_get_node_some [OF n0 x] and flag = has_flag_returns [OF g(2) x n]
  have same: "same_graph g g" "4 dvd g_pos g" using g(2) by (simp_all add: same_graph_def nodes_ok_def)
  show ?thesis
  proof (cases "interned sp g n")
    case False
    then have "intern sp n g = (Inr n, g)" using get flag by (simp add: intern_def ret_apply)
    moreover have "table_ok sp (X - {n}) Map.empty g" using g(1) False unfolding table_ok_def rows_ok_def by auto
    moreover have "\<forall>m \<in> entries g. value_of g m = value_of g n \<longrightarrow> m = n"
    proof (intro ballI impI)
      fix m assume "m \<in> entries g" "value_of g m = value_of g n"
      then have "interned sp g m" "kind_of g m = kind_of g n" by (auto simp: rows_okD(6) [OF r] value_of_def)
      then show "m = n" using False n by (simp add: interned_def)
    qed
    ultimately show ?thesis using same by (intro disjI2 disjI1 exI [of _ g]) simp
  next
    case True
    show ?thesis
    proof (cases "find_pos g n (value_hash sp (value_of g n))")
      case (Some j)
      note f = find_pos_Some [OF g(1) True Some]
      have run: "intern sp n g = (Inr (g_ids g ! j), g)"
        using get flag interner_find_returns [OF g(1) True zero] True g(3) Some by (simp add: intern_def)
      show ?thesis
      proof (cases "n \<in> X")
        case x: True
        then have "g_ids g ! j \<noteq> n" using f(2) rows_okD(6) [OF r] by auto
        then show ?thesis using run f x by blast
      next
        case False
        then have "n \<in> entries g" using True rows_okD(6) [OF r] by auto
        then have "\<forall>m \<in> entries g. value_of g m = value_of g n \<longrightarrow> m = n" "g_ids g ! j = n"
          using rows_okD(5) [OF r] f by (auto simp: inj_on_def)
        moreover have "table_ok sp (X - {n}) Map.empty g" using g(1) False by (simp add: Diff_triv)
        ultimately show ?thesis using run same by (intro disjI2 disjI1 exI [of _ g]) simp
      qed
    next
      case None
      have "\<forall>m \<in> entries g. value_of g m \<noteq> value_of g n" using find_pos_None [OF g(1) None] by simp
      then show ?thesis using intern_new [OF g True zero None] by blast
    qed
  qed
qed

end
