(* ===== verification/Graph_Delete.thy ===== *)
theory Graph_Delete
  imports Graph_Interner
begin

text \<open>
  Deletion: it stops, it keeps the invariants, and it takes with a node exactly the nodes that have lost
  their last user by it.
\<close>

section \<open>Deletion stops\<close>

definition edge_count :: "graph \<Rightarrow> nat" where
  "edge_count g = (\<Sum>n \<in> UNIV. length (outs g n))"

lemma edge_count_upd:
  assumes "outs g' = (outs g)(d := os)"
  shows "edge_count g' + length (outs g d) = edge_count g + length os"
proof -
  let ?f = "\<lambda>n. length (outs g' n)" and ?h = "\<lambda>n. length (outs g n)"
  have "(\<Sum>n \<in> UNIV. ?f n) = ?f d + (\<Sum>n \<in> UNIV - {d}. ?f n)" "(\<Sum>n \<in> UNIV. ?h n) = ?h d + (\<Sum>n \<in> UNIV - {d}. ?h n)"
    by (rule sum.remove; simp)+
  moreover have "(\<Sum>n \<in> UNIV - {d}. ?f n) = (\<Sum>n \<in> UNIV - {d}. ?h n)" by (rule sum.cong) (auto simp: assms)
  ultimately show ?thesis by (simp add: edge_count_def assms)
qed

lemma edge_count_with_outs: "g_nodes g d \<noteq> None \<Longrightarrow> edge_count (with_outs d os g) + length (outs g d) = edge_count g + length os"
  by (rule edge_count_upd) (simp add: fun_eq_iff)

lemma edge_count_less:
  assumes "\<And>n. length (outs g' n) \<le> length (outs g n)"
  shows "edge_count g' \<le> edge_count g"
  unfolding edge_count_def by (intro sum_mono assms)

text \<open>Steps that add no edge.\<close>

definition shrinks :: "'a gact \<Rightarrow> bool" where
  "shrinks p \<longleftrightarrow> (\<forall>g. edge_count (snd (p g)) \<le> edge_count g)"

lemma shrinks_bindM: "shrinks p \<Longrightarrow> (\<And>x. shrinks (q x)) \<Longrightarrow> shrinks (bindM p q)"
  unfolding shrinks_def
proof (intro allI)
  fix g
  assume p: "\<forall>g. edge_count (snd (p g)) \<le> edge_count g" and q: "\<And>x. \<forall>g. edge_count (snd (q x g)) \<le> edge_count g"
  obtain r g' where r: "p g = (r, g')" by force
  then have "edge_count g' \<le> edge_count g" using p by (metis snd_conv)
  then show "edge_count (snd (bindM p q g)) \<le> edge_count g"
    using r q by (cases r) (auto intro: order_trans)
qed

lemma shrinks_basic:
  "shrinks (ret x)" "shrinks (fail e)" "shrinks (getM f)" "shrinks (assertM b msg)" "shrinks (requireM b msg)"
  "shrinks (expectM y msg)"
  by (auto simp: shrinks_def assertM_def requireM_def expectM_def split: option.splits)

lemma shrinks_get: "shrinks (g_get_node n)"
  by (auto simp: shrinks_def g_get_node_def split: option.split)

lemma shrinks_same: "(\<And>g. g_nodes (f g) = g_nodes g) \<Longrightarrow> shrinks (modifyM f)"
  by (auto simp: shrinks_def outs_def intro!: edge_count_less)

lemma shrinks_forM: "(\<And>x. shrinks (f x)) \<Longrightarrow> shrinks (forM xs f)"
  by (induction xs) (auto intro: shrinks_basic shrinks_bindM)

lemma shrinks_if: "(b \<Longrightarrow> shrinks p) \<Longrightarrow> (\<not> b \<Longrightarrow> shrinks q) \<Longrightarrow> shrinks (if b then p else q)"
  by simp

lemma shrinks_cases:
  "shrinks p \<Longrightarrow> (\<And>y. shrinks (q y)) \<Longrightarrow> shrinks (case_option p q x)" "(\<And>y z. shrinks (h y z)) \<Longrightarrow> shrinks (case_prod h w)"
  by (simp_all split: option.split prod.split)

lemmas shrinks_intros = shrinks_bindM shrinks_basic shrinks_get shrinks_if shrinks_cases

lemma shrinks_find: "shrinks (find_equal id' idxs)"
proof (induction idxs)
  case (Cons j js)
  then show ?case unfolding find_equal.simps node_eq_def by (intro shrinks_intros)
qed (simp add: shrinks_basic)

lemma shrinks_unintern: "shrinks (unintern sp id' h)"
  unfolding unintern_def interner_find_def has_flag_def Let_def
  by (intro shrinks_intros shrinks_find shrinks_same) simp

lemma shrinks_put_outs: "(\<And>os. length (f os) \<le> length os) \<Longrightarrow> shrinks (g_put_node d (node_outs_update f))"
  unfolding shrinks_def put_outs by (auto intro!: edge_count_less)

lemma swap_remove_length: "length (swap_remove xs k) \<le> length xs"
  by (simp add: swap_remove_def)

lemma shrinks_dead: "shrinks (modifyM (\<lambda>g. g\<lparr>g_waste := w g, g_nodes := (g_nodes g)(id' \<mapsto> DEAD_NODE)\<rparr>))"
  by (auto simp: shrinks_def outs_def DEAD_NODE_def NIL_NODE_def intro!: edge_count_less split: option.splits)

lemma shrinks_retire: "shrinks (retire_node sp id')"
  unfolding retire_node_def by (intro shrinks_intros shrinks_unintern shrinks_dead)

lemma shrinks_delete:
  "shrinks (delete_node sp oof f id')" "shrinks (remove_output sp oof f id' out no_delete)"
proof (induction f arbitrary: id' out no_delete)
  case 0
  {
    case 1
    then show ?case by (simp add: delete_node_eqs shrinks_basic)
  next
    case 2
    then show ?case
      unfolding remove_output_eq delete_node_eqs by (intro shrinks_intros shrinks_put_outs swap_remove_length)
  }
next
  case (Suc f)
  have del: "shrinks (delete_node sp oof (Suc f) id')" for id'
    unfolding delete_node_eqs
    by (intro shrinks_intros shrinks_forM shrinks_retire Suc)
  {
    case 1
    then show ?case by (rule del)
  next
    case 2
    then show ?case
      unfolding remove_output_eq by (intro shrinks_intros shrinks_put_outs swap_remove_length del)
  }
qed

lemma shrinksD: "shrinks p \<Longrightarrow> p g = (r, g') \<Longrightarrow> edge_count g' \<le> edge_count g"
  unfolding shrinks_def by (metis snd_conv)

text \<open>Two computations that do the same on graphs with at most \<open>k\<close> edges.\<close>

definition same_upto :: "nat \<Rightarrow> 'a gact \<Rightarrow> 'a gact \<Rightarrow> bool" where
  "same_upto k p q \<longleftrightarrow> (\<forall>g. edge_count g \<le> k \<longrightarrow> p g = q g)"

lemma same_upto_refl: "same_upto k p p"
  by (simp add: same_upto_def)

lemma same_upto_bindM:
  assumes "same_upto k p q" "shrinks q" "\<And>x. same_upto k (f x) (h x)"
  shows "same_upto k (bindM p f) (bindM q h)"
  unfolding same_upto_def
proof (intro allI impI)
  fix g assume g: "edge_count g \<le> k"
  obtain r g' where q: "q g = (r, g')" by force
  have "p g = q g" "edge_count g' \<le> k" using assms(1) g shrinksD [OF assms(2) q] by (auto simp: same_upto_def)
  then show "bindM p f g = bindM q h g" using q assms(3) by (cases r) (auto simp: same_upto_def)
qed

lemma same_upto_forM:
  "(\<And>x. same_upto k (f x) (h x)) \<Longrightarrow> (\<And>x. shrinks (h x)) \<Longrightarrow> same_upto k (forM xs f) (forM xs h)"
  by (induction xs) (auto intro: same_upto_refl same_upto_bindM)

lemma same_upto_if:
  "(b \<Longrightarrow> same_upto k p q) \<Longrightarrow> (\<not> b \<Longrightarrow> same_upto k p' q') \<Longrightarrow> same_upto k (if b then p else p') (if b then q else q')"
  by simp

lemma remove_fuel:
  assumes "\<And>g. edge_count g < k \<Longrightarrow> delete_node sp oof f id' g = delete_node sp oof' f' id' g"
  shows "same_upto k (remove_output sp oof f id' out nd) (remove_output sp oof' f' id' out nd)"
  unfolding same_upto_def
proof (intro allI impI)
  fix g assume g: "edge_count g \<le> k"
  show "remove_output sp oof f id' out nd g = remove_output sp oof' f' id' out nd g"
  proof (cases "id' \<noteq> 0 \<and> (\<exists>n j. g_nodes g id' = Some n \<and> linear_search (node_outs n) out = Some j)")
    case True
    then obtain n j where n: "id' \<noteq> 0" "g_nodes g id' = Some n" "linear_search (node_outs n) out = Some j" by blast
    then have o: "outs g id' = node_outs n" by (simp add: outs_def)
    let ?g = "with_outs id' (swap_remove (outs g id') j) g"
    have "edge_count ?g < edge_count g"
      using edge_count_with_outs [of g id' "swap_remove (outs g id') j"] n swap_remove_facts(2) [OF n(3)] o by simp
    then have "delete_node sp oof f id' ?g = delete_node sp oof' f' id' ?g" using assms g by simp
    then show ?thesis using n o by (simp add: remove_output_eq g_get_node_some put_outs)
  next
    case False
    then show ?thesis
      by (auto simp: remove_output_eq g_get_node_def bindM_apply expectM_def fail_apply split: option.split)
  qed
qed

lemma delete_fuel: "k < f \<Longrightarrow> k < f' \<Longrightarrow> same_upto k (delete_node sp oof f id') (delete_node sp oof' f' id')"
proof (induction f arbitrary: k f' id')
  case (Suc f)
  then obtain f1 where f': "f' = Suc f1" by (cases f') auto
  have r: "same_upto k (remove_output sp oof f i out nd) (remove_output sp oof' f1 i out nd)" for i out nd
  proof (rule remove_fuel)
    fix g assume "edge_count g < k"
    then show "delete_node sp oof f i g = delete_node sp oof' f1 i g"
      using Suc.IH [of "k - 1" f1 i] Suc.prems f' by (auto simp: same_upto_def)
  qed
  show ?case
    unfolding f' delete_node_eqs
    by (intro same_upto_bindM same_upto_if same_upto_forM same_upto_refl shrinks_intros shrinks_forM shrinks_delete)
      (auto split: prod.split intro: r)
qed simp

section \<open>What deletion keeps\<close>

text \<open>
  Nodes only die: what is alive has its value, and of its outputs some part, but not none if there were
  any; a node without outputs stays as it is.
\<close>

definition same_flags :: "graph \<Rightarrow> graph \<Rightarrow> bool" where
  "same_flags g g' \<longleftrightarrow> g_dont_delete g' = g_dont_delete g \<and> g_dont_intern g' = g_dont_intern g \<and> g_pos g' = g_pos g \<and>
     g_reserved g' = g_reserved g \<and> length (g_hashes g') = length (g_hashes g)"

definition dies_to :: "graph \<Rightarrow> graph \<Rightarrow> bool" where
  "dies_to g g' \<longleftrightarrow>
     (\<forall>n. g_nodes g' n = None \<longleftrightarrow> g_nodes g n = None) \<and>
     (\<forall>n. live g' n \<longrightarrow> live g n \<and> ins g' n = ins g n \<and> kind_of g' n = kind_of g n \<and> set (outs g' n) \<subseteq> set (outs g n)) \<and>
     (\<forall>n. live g n \<longrightarrow> outs g n = [] \<longrightarrow> g_nodes g' n = g_nodes g n) \<and>
     (\<forall>n. live g' n \<longrightarrow> outs g n \<noteq> [] \<longrightarrow> outs g' n \<noteq> []) \<and>
     same_flags g g' \<and>
     (\<forall>n i. count_list (outs g' n) (0, i) = count_list (outs g n) (0, i))"

lemma dies_to_refl: "dies_to g g"
  by (simp add: dies_to_def same_flags_def)

lemma dies_toD:
  assumes "dies_to g g'"
  shows "g_nodes g' n = None \<longleftrightarrow> g_nodes g n = None"
    "live g' n \<Longrightarrow> live g n \<and> ins g' n = ins g n \<and> kind_of g' n = kind_of g n \<and> set (outs g' n) \<subseteq> set (outs g n)"
    "live g n \<Longrightarrow> outs g n = [] \<Longrightarrow> g_nodes g' n = g_nodes g n"
    "live g' n \<Longrightarrow> outs g n \<noteq> [] \<Longrightarrow> outs g' n \<noteq> []"
    "same_flags g g'" "count_list (outs g' n) (0, i) = count_list (outs g n) (0, i)"
  using assms unfolding dies_to_def by blast+

lemma dies_to_trans:
  assumes "dies_to g g1" "dies_to g1 g2"
  shows "dies_to g g2"
proof -
  note a = dies_toD [OF assms(1)] and b = dies_toD [OF assms(2)]
  have "g_nodes g2 n = g_nodes g n" if "live g n" "outs g n = []" for n
    using a(3) [OF that] b(3) [of n] that node_eq_views [OF a(3) [OF that]] by simp
  moreover have "ins g2 n = ins g n \<and> kind_of g2 n = kind_of g n \<and> set (outs g2 n) \<subseteq> set (outs g n) \<and> live g n"
    if "live g2 n" for n
    using a(2) [of n] b(2) [OF that] by auto
  moreover have "outs g2 n \<noteq> []" if "live g2 n" "outs g n \<noteq> []" for n
    using a(4) [of n] b(4) [OF that(1)] b(2) [OF that(1)] that by blast
  ultimately show ?thesis using a(1,5,6) b(1,5,6) unfolding dies_to_def by (simp add: same_flags_def)
qed

lemma in_set_count: "x \<in> set xs \<longleftrightarrow> 0 < count_list xs x"
  by (induction xs) auto

text \<open>An edge taken out of the outputs, by the deletion of its user.\<close>

lemma remove_edge:
  assumes g: "edges_agree E g" and e: "(u, i) \<in> set (outs g d)" "u \<noteq> 0" "linear_search (outs g d) (u, i) = Some k"
    and u: "outs g u = []"
  shows "edges_agree (insert (u, i) E) (with_outs d (swap_remove (outs g d) k) g)"
proof -
  let ?g = "with_outs d (swap_remove (outs g d) k) g"
  note ag = edges_agreeD [OF g] and sr = swap_remove_facts [OF e(3)]
  have ne: "outs g d \<noteq> []" using e(1) by auto
  then have dn: "g_nodes g d \<noteq> None" "u \<noteq> d" using u by (auto simp: outs_def split: option.splits)
  have lu: "live g u" "count_list (outs g d) (u, i) = 1" using ag(4) [OF e(1,2)] by auto
  have out: "(n, j) \<in> set (outs ?g x) \<longleftrightarrow> (n, j) \<in> set (outs g x) \<and> (n, j) \<noteq> (u, i)" if "n \<noteq> 0" for n j x
  proof (cases "x = d")
    case True
    have "(n, j) \<in> set (outs ?g x) \<longleftrightarrow> 0 < count_list (swap_remove (outs g d) k) (n, j)"
      using True dn(1) by (simp add: in_set_count)
    moreover have "(n, j) \<in> set (outs g x) \<longleftrightarrow> 0 < count_list (outs g d) (n, j)" using True by (simp add: in_set_count)
    ultimately show ?thesis using sr(1) [of "(n, j)"] lu(2) by (cases "(n, j) = (u, i)") auto
  next
    case False
    then show ?thesis using ag(4) [of u i d] ag(4) [of n j x] e(1,2) that by auto
  qed
  have cnt: "count_list (outs ?g x) (n, j) = count_list (outs g x) (n, j)" if "(n, j) \<noteq> (u, i)" for n j x
    using sr(1) [of "(n, j)"] that dn by auto
  show ?thesis
    unfolding edges_agree_def edges_match_def
  proof (intro conjI allI impI ballI)
    fix n assume "\<not> live ?g n"
    then show "outs ?g n = []" using ag(2) [of n] ag(2) [of d] ne by (auto split: if_splits)
  next
    fix x n j assume a: "(n, j) \<in> set (outs ?g x)" "n \<noteq> 0"
    then have b: "(n, j) \<in> set (outs g x)" "(n, j) \<noteq> (u, i)" using out by blast+
    note ag(4) [OF b(1) a(2)]
    then show "live ?g n" "j < length (ins ?g n)" "j < 256" "ins ?g n ! j = x" "(n, j) \<notin> insert (u, i) E"
      "count_list (outs ?g x) (n, j) = 1"
      using b(2) cnt [OF b(2)] by auto
  next
    fix n j assume "live ?g n" "j < length (ins ?g n)" "ins ?g n ! j \<noteq> 0" "(n, j) \<notin> insert (u, i) E"
    then have "(n, j) \<in> set (outs g (ins g n ! j))" "(n, j) \<noteq> (u, i)" "n \<noteq> 0"
      using ag(3) [of n j] ag(1) [of n] by (auto simp: live_def split: option.splits)
    then show "(n, j) \<in> set (outs ?g (ins ?g n ! j))" using out by (simp only: with_outs_views) simp
  next
    fix p assume "p \<in> insert (u, i) E"
    then show "case p of (n, j) \<Rightarrow> live ?g n \<and> outs ?g n = []"
      using lu(1) u dn ne ag(5) by (auto split: prod.splits if_splits)
  qed (use ag(1) in auto)
qed

text \<open>A nil input has no output to be taken out of.\<close>

lemma remove_nil_edge:
  assumes g: "edges_agree E g" and u: "live g u" "outs g u = []" "ins g u ! i = 0"
  shows "edges_agree (insert (u, i) E) g"
proof -
  note ag = edges_agreeD [OF g]
  have z: "outs g 0 = []" using ag(1) [of 0] by (auto simp: outs_def split: option.splits)
  have "(u, i) \<notin> set (outs g d)" for d
    using ag(4) [of u i d] ag(1) [of u] u z by (auto simp: live_def split: option.splits)
  then have no: "(x, j) \<noteq> (u, i)" if "(x, j) \<in> set (outs g d)" for x j d using that by blast
  show ?thesis
    unfolding edges_agree_def edges_match_def
  proof (intro conjI allI impI ballI)
    fix x v j assume a: "(v, j) \<in> set (outs g x)" "v \<noteq> 0"
    show "live g v" "j < length (ins g v)" "j < 256" "ins g v ! j = x" "(v, j) \<notin> insert (u, i) E" "count_list (outs g x) (v, j) = 1"
      using ag(4) [OF a] no [OF a(1)] by auto
  next
    fix p assume "p \<in> insert (u, i) E"
    then show "case p of (n, j) \<Rightarrow> live g n \<and> outs g n = []" using u ag(5) by (cases p) auto
  next
    fix n j assume "live g n" "j < length (ins g n)" "ins g n ! j \<noteq> 0" "(n, j) \<notin> insert (u, i) E"
    then show "(n, j) \<in> set (outs g (ins g n ! j))" using ag(3) by blast
  qed (use ag(1,2) in auto)
qed

text \<open>The end of a deletion.\<close>

lemma kill_node:
  assumes g: "edges_agree (E \<union> {(n, i) | i. i < length (ins g n)}) g" and n: "live g n" "outs g n = []" "\<forall>i. (n, i) \<notin> E"
    and g': "g_nodes g' = (g_nodes g)(n \<mapsto> DEAD_NODE)"
  shows "edges_agree E g' \<and> \<not> live g' n"
proof -
  note ag = edges_agreeD [OF g]
  have v: "live g' x = (x \<noteq> n \<and> live g x)" "x \<noteq> n \<Longrightarrow> ins g' x = ins g x" "outs g' x = outs g x" for x
    using n(2) by (auto simp: g' live_def ins_def outs_def DEAD_NODE_def NIL_NODE_def)
  have d: "g_nodes g' x \<noteq> None \<longleftrightarrow> g_nodes g x \<noteq> None" for x using n(1) by (auto simp: g' live_def split: option.splits)
  have no: "(n, i) \<notin> set (outs g x)" for i x
    using ag(4) [of n i x] ag(1) [of n] n(1) by (auto simp: live_def split: option.splits)
  have "edges_agree E g'"
    unfolding edges_agree_def edges_match_def
  proof (intro conjI allI impI ballI)
    fix x assume "\<not> live g' x"
    then show "outs g' x = []" using v n(2) ag(2) by auto
  next
    fix x u i assume "(u, i) \<in> set (outs g' x)" "u \<noteq> 0"
    then have e: "(u, i) \<in> set (outs g x)" "u \<noteq> 0" "u \<noteq> n" using v no by auto
    then show "live g' u" "i < length (ins g' u)" "i < 256" "ins g' u ! i = x" "(u, i) \<notin> E" "count_list (outs g' x) (u, i) = 1"
      using ag(4) [OF e(1,2)] v by auto
  next
    fix u i assume a: "live g' u" "i < length (ins g' u)" "ins g' u ! i \<noteq> 0" "(u, i) \<notin> E"
    then have "(u, i) \<in> set (outs g (ins g u ! i))" using ag(3) [of u i] v by auto
    then show "(u, i) \<in> set (outs g' (ins g' u ! i))" using a v by auto
  next
    fix p assume "p \<in> E"
    then show "case p of (x, j) \<Rightarrow> live g' x \<and> outs g' x = []" using ag(5) v n(3) by (auto split: prod.splits)
  qed (use ag(1) d in auto)
  then show ?thesis using v by simp
qed

text \<open>The outcome of the deletion of \<open>n\<close>: nothing, or \<open>n\<close> is dead and so are those only it used.\<close>

definition deleted :: "u32 \<Rightarrow> graph \<Rightarrow> graph \<Rightarrow> bool" where
  "deleted n g g' \<longleftrightarrow>
     (if outs g n \<noteq> [] \<or> \<not> live g n then g' = g
      else \<exists>g1. dies_to g g1 \<and> g_nodes g' = (g_nodes g1)(n \<mapsto> DEAD_NODE) \<and> same_flags g g')"

text \<open>What is left of a node's outputs once one of them, not a pin, is removed.\<close>

lemma removed_views:
  assumes d: "g_nodes g d = Some x" "linear_search (outs g d) e = Some k" "fst e \<noteq> 0"
    and g1: "g1 = with_outs d (swap_remove (outs g d) k) g"
  shows "n \<noteq> d \<Longrightarrow> g_nodes g1 n = g_nodes g n" "n \<noteq> d \<Longrightarrow> outs g1 n = outs g n"
    "count_list (outs g1 n) (0, i) = count_list (outs g n) (0, i)" "set (outs g1 n) \<subseteq> set (outs g n)"
proof -
  show other: "n \<noteq> d \<Longrightarrow> g_nodes g1 n = g_nodes g n" "n \<noteq> d \<Longrightarrow> outs g1 n = outs g n" by (simp_all add: g1 with_outs_def outs_def)
  show "count_list (outs g1 n) (0, i) = count_list (outs g n) (0, i)"
    using other(2) swap_remove_facts(1) [OF d(2), of "(0, i)"] d(1,3) by (cases "n = d") (auto simp: g1 split: if_splits)
  show "set (outs g1 n) \<subseteq> set (outs g n)" using other(2) swap_remove_facts(3) [OF d(2)] d(1) by (cases "n = d") (auto simp: g1)
qed

lemma dies_to_kept:
  assumes d: "g_nodes g d = Some x" "outs g d \<noteq> []" "linear_search (outs g d) e = Some k" "fst e \<noteq> 0"
    and g1: "g1 = with_outs d (swap_remove (outs g d) k) g" and ne: "outs g1 d \<noteq> []"
  shows "dies_to g g1"
  unfolding dies_to_def
proof (intro conjI allI impI)
  note view = removed_views [OF d(1,3,4) g1]
  fix n assume n: "live g n" "outs g n = []"
  then show "g_nodes g1 n = g_nodes g n" using view(1) [of n] d(2) by (cases "n = d") auto
next
  note view = removed_views [OF d(1,3,4) g1]
  fix n assume n: "live g1 n" "outs g n \<noteq> []"
  then show "outs g1 n \<noteq> []" using ne view(2) [of n] by (cases "n = d") auto
next
  note view = removed_views [OF d(1,3,4) g1]
  fix n show "set (outs g1 n) \<subseteq> set (outs g n)" by (rule view(4))
  show "count_list (outs g1 n) (0, i) = count_list (outs g n) (0, i)" for i by (rule view(3))
qed (use d(1) g1 in \<open>simp_all add: same_flags_def\<close>)

lemma dies_to_gone:
  assumes d: "g_nodes g d = Some x" "outs g d \<noteq> []" "linear_search (outs g d) e = Some k" "fst e \<noteq> 0"
    and r: "r = with_outs d (swap_remove (outs g d) k) g" "outs r d = []"
    and g1: "dies_to r g1" "g_nodes g' = (g_nodes g1)(d \<mapsto> DEAD_NODE)" "same_flags r g'"
  shows "dies_to g g'"
proof -
  note other = removed_views(1,2) [OF d(1,3,4) r(1)] and pins = removed_views(3) [OF d(1,3,4) r(1)] and a = dies_toD [OF g1(1)]
  have v: "live g' n = (n \<noteq> d \<and> live g1 n)" for n by (auto simp: g1(2) live_def DEAD_NODE_def NIL_NODE_def)
  have same: "g_nodes g' n = g_nodes g1 n" if "n \<noteq> d" for n using that by (simp add: g1(2))
  show ?thesis
    unfolding dies_to_def
  proof (intro conjI allI impI)
    fix n show "g_nodes g' n = None \<longleftrightarrow> g_nodes g n = None" using a(1) d(1) by (auto simp: g1(2) r(1))
  next
    fix n assume "live g' n"
    then have n: "n \<noteq> d" "live g1 n" using v by auto
    note n2 = a(2) [OF n(2)] and eq = node_eq_views [OF same [OF n(1)]]
    show "live g n" "ins g' n = ins g n" "kind_of g' n = kind_of g n" "set (outs g' n) \<subseteq> set (outs g n)"
      using n2 eq other(2) [OF n(1)] d(1) by (auto simp: r(1))
  next
    fix n assume n: "live g n" "outs g n = []"
    then have "n \<noteq> d" using d(2) by auto
    then show "g_nodes g' n = g_nodes g n" using a(3) [of n] n other [of n] same [of n] d(1) by (simp add: r(1))
  next
    fix n assume n: "live g' n" "outs g n \<noteq> []"
    then have "n \<noteq> d" "live g1 n" using v by auto
    then show "outs g' n \<noteq> []" using a(4) [of n] n(2) other(2) [of n] node_eq_views [OF same [of n]] by simp
  next
    fix n i
    have "outs g' d = []" by (simp add: outs_def g1(2) DEAD_NODE_def NIL_NODE_def)
    then show "count_list (outs g' n) (0, i) = count_list (outs g n) (0, i)"
      using a(6) [of n i] pins [of n i] r(2) node_eq_views [OF same [of n]] by (cases "n = d") simp_all
  qed (use g1 r in \<open>auto simp: same_flags_def\<close>)
qed

lemma dies_to_removed:
  assumes d: "g_nodes g d = Some x" "outs g d \<noteq> []" "linear_search (outs g d) e = Some k" "fst e \<noteq> 0" and g_live: "live g d"
    and g': "deleted d (with_outs d (swap_remove (outs g d) k) g) g'"
  shows "dies_to g g'"
proof (cases "outs (with_outs d (swap_remove (outs g d) k) g) d = []")
  case True
  have "live (with_outs d (swap_remove (outs g d) k) g) d" using d(1) g_live by simp
  then show ?thesis using g' True dies_to_gone [OF d refl True] unfolding deleted_def by auto
next
  case False
  then have "g' = with_outs d (swap_remove (outs g d) k) g" using g' by (simp add: deleted_def)
  then show ?thesis using dies_to_kept [OF d _ False] by simp
qed

section \<open>The whole deletion\<close>

text \<open>Deletion may run out of fuel, refuse the end of the graph if \<open>P\<close>, or else \<open>Q\<close> holds.\<close>

definition outcome_ok :: "fault \<Rightarrow> bool \<Rightarrow> (graph \<Rightarrow> bool) \<Rightarrow> unit res \<times> graph \<Rightarrow> bool" where
  "outcome_ok oof P Q rg = (case rg of (r, g') \<Rightarrow>
     (case r of Inl e \<Rightarrow> e = oof \<or> e = Panic ''node.itype != .End'' \<and> P | Inr _ \<Rightarrow> Q g'))"

text \<open>
  The end of the graph is pinned, as \<^verbatim>\<open>ssa.odin\<close> does when it starts a function: \<^verbatim>\<open>delete_node\<close> refuses an end that nothing uses. Deletion
  takes no pin away.
\<close>

definition ends_pinned :: "graph \<Rightarrow> bool" where
  "ends_pinned g \<longleftrightarrow> (\<forall>m. live g m \<longrightarrow> fst (kind_of g m) = type_End \<longrightarrow> (0, 0) \<in> set (outs g m))"

lemma ends_pinned_dies: "ends_pinned g \<Longrightarrow> dies_to g g' \<Longrightarrow> ends_pinned g'"
  unfolding ends_pinned_def in_set_count using dies_toD(2) [of g g'] dies_toD(6) [of g g' _ 0] by metis

lemma ends_pinned_removed:
  assumes "ends_pinned g" "g_nodes g d = Some x" "linear_search (outs g d) e = Some k" "fst e \<noteq> 0"
  shows "ends_pinned (with_outs d (swap_remove (outs g d) k) g)"
  using assms(1) removed_views(3) [OF assms(2-4) refl, of _ 0] unfolding ends_pinned_def in_set_count by simp

lemma mk_output_id: "unat n < 2 ^ 22 \<Longrightarrow> i < 256 \<Longrightarrow> mk_output n i = (n, i)"
  using take_bit_nat_eq_self [of "unat n" 22] by (simp add: mk_output_def word_unat_eq_iff unsigned_take_bit_eq)

lemma nodes_ok_with_outs: "nodes_ok sp g \<Longrightarrow> length os \<le> length (outs g d) \<Longrightarrow> nodes_ok sp (with_outs d os g)"
  unfolding nodes_ok_def with_outs_def outs_def node_ok_def by (auto split: option.splits intro: order_trans)

text \<open>One round of the loop over the inputs of \<open>u\<close>, given what deletion does with less fuel.\<close>

lemma remove_round:
  assumes del: "\<And>E n g. graph_inv sp E X Y g \<Longrightarrow> g_nodes g n \<noteq> None \<Longrightarrow> \<forall>i. (n, i) \<notin> E \<Longrightarrow>
      outcome_ok oof (\<not> ends_pinned g) (\<lambda>g'. graph_inv sp E X Y g' \<and> deleted n g g') (delete_node sp oof f n g)"
    and g: "graph_inv sp E X Y g" and u: "live g u" "outs g u = []" "i < length (ins g u)" "(u, i) \<notin> E"
  shows "outcome_ok oof (\<not> ends_pinned g) (\<lambda>g'. graph_inv sp (insert (u, i) E) X Y g' \<and> dies_to g g')
    (remove_output sp oof f (ins g u ! i) (mk_output u i) False g)"
proof (cases "ins g u ! i = 0")
  case True
  then show ?thesis
    using g u remove_nil_edge [of E g u i]
    by (simp add: remove_output_eq outcome_ok_def ret_apply graph_inv_def dies_to_refl)
next
  case False
  let ?d = "ins g u ! i"
  note ag = edges_agreeD [of E g] and gu = graph_inv_domain [OF g u(1)]
  have e: "(u, i) \<in> set (outs g ?d)" using ag(3) [of u i] g u False by (simp add: graph_inv_def)
  then have i: "i < 256" "u \<noteq> 0" using ag(4) [of u i ?d] g gu by (auto simp: graph_inv_def)
  obtain x where x: "g_nodes g ?d = Some x" using e by (cases "g_nodes g ?d") (auto simp: outs_def)
  obtain k where k: "linear_search (outs g ?d) (u, i) = Some k"
    using e linear_search_None by fastforce
  let ?g = "with_outs ?d (swap_remove (outs g ?d) k) g"
  have "edges_agree (insert (u, i) E) ?g" using remove_edge [OF _ e i(2) k u(2)] g by (simp add: graph_inv_def)
  then have g1: "graph_inv sp (insert (u, i) E) X Y ?g" using g nodes_ok_with_outs [OF _ swap_remove_length] by (simp add: graph_inv_def)
  have ne: "outs g ?d \<noteq> []" "u \<noteq> ?d" using e u(2) by auto
  have ld: "live g ?d" using ag(2) [of ?d] g ne(1) by (auto simp: graph_inv_def)
  have notE: "\<forall>j. (?d, j) \<notin> insert (u, i) E" using ag(5) [of ?d] g ne by (auto simp: graph_inv_def)
  have "remove_output sp oof f ?d (mk_output u i) False g = delete_node sp oof f ?d ?g"
    using False x k gu i by (simp add: remove_output_eq g_get_node_some put_outs mk_output_id outs_def)
  moreover have "outcome_ok oof (\<not> ends_pinned ?g) (\<lambda>g'. graph_inv sp (insert (u, i) E) X Y g' \<and> deleted ?d ?g g') (delete_node sp oof f ?d ?g)"
    using g1 notE x by (intro del) auto
  moreover have "dies_to g g'" if "deleted ?d ?g g'" for g'
    using x ne(1) k _ ld that by (rule dies_to_removed) (simp add: i(2))
  moreover have "ends_pinned g \<Longrightarrow> ends_pinned ?g" by (rule ends_pinned_removed [OF _ x k]) (simp_all add: i(2))
  ultimately show ?thesis by (auto simp: outcome_ok_def split: prod.splits sum.splits)
qed

lemma outcome_bind:
  assumes "outcome_ok oof P Q (p g)" "\<And>x g'. p g = (Inr x, g') \<Longrightarrow> Q g' \<Longrightarrow> outcome_ok oof P R (q x g')"
  shows "outcome_ok oof P R (bindM p q g)"
proof (cases "p g")
  case (Pair r g')
  then show ?thesis using assms by (cases r) (auto simp: outcome_ok_def)
qed

lemma remove_loop:
  assumes del: "\<And>E n g. graph_inv sp E X Y g \<Longrightarrow> g_nodes g n \<noteq> None \<Longrightarrow> \<forall>i. (n, i) \<notin> E \<Longrightarrow>
      outcome_ok oof (\<not> ends_pinned g) (\<lambda>g'. graph_inv sp E X Y g' \<and> deleted n g g') (delete_node sp oof f n g)"
    and u: "\<forall>i. (u, i) \<notin> E"
  shows "graph_inv sp (E \<union> {(u, i) | i. i < k}) X Y g \<Longrightarrow> live g u \<Longrightarrow> outs g u = [] \<Longrightarrow> ins g u = ys @ xs \<Longrightarrow> length ys = k \<Longrightarrow>
    outcome_ok oof (\<not> ends_pinned g) (\<lambda>g'. graph_inv sp (E \<union> {(u, i) | i. i < length (ins g u)}) X Y g' \<and> dies_to g g')
      (forM (enumerate k xs) (\<lambda>(i, inp). remove_output sp oof f inp (mk_output u i) False) g)"
proof (induction xs arbitrary: k g ys)
  case Nil
  then show ?case by (simp add: outcome_ok_def ret_apply dies_to_refl)
next
  case (Cons x xs)
  have x: "ins g u ! k = x" "k < length (ins g u)" using Cons.prems(4,5) by auto
  have "(u, k) \<notin> E \<union> {(u, i) | i. i < k}" using u by auto
  from remove_round [OF del Cons.prems(1-3) x(2) this]
  have first: "outcome_ok oof (\<not> ends_pinned g) (\<lambda>g'. graph_inv sp (insert (u, k) (E \<union> {(u, i) | i. i < k})) X Y g' \<and> dies_to g g')
      (remove_output sp oof f x (mk_output u k) False g)"
    unfolding x(1) by blast
  have set_eq: "insert (u, k) (E \<union> {(u, i) | i. i < k}) = E \<union> {(u, i) | i. i < Suc k}" by (auto simp: less_Suc_eq)
  have rest: "outcome_ok oof (\<not> ends_pinned g) (\<lambda>g''. graph_inv sp (E \<union> {(u, i) | i. i < length (ins g u)}) X Y g'' \<and> dies_to g g'')
      (forM (enumerate (Suc k) xs) (\<lambda>(i, inp). remove_output sp oof f inp (mk_output u i) False) g')"
    if g': "graph_inv sp (E \<union> {(u, i) | i. i < Suc k}) X Y g'" "dies_to g g'" for g'
  proof -
    have same: "g_nodes g' u = g_nodes g u" by (rule dies_toD(3) [OF g'(2) Cons.prems(2,3)])
    note v = node_eq_views [OF same]
    have "outcome_ok oof (\<not> ends_pinned g') (\<lambda>g''. graph_inv sp (E \<union> {(u, i) | i. i < length (ins g' u)}) X Y g'' \<and> dies_to g' g'')
        (forM (enumerate (Suc k) xs) (\<lambda>(i, inp). remove_output sp oof f inp (mk_output u i) False) g')"
      using Cons.prems v by (intro Cons.IH [OF g'(1), where ys = "ys @ [x]"]) auto
    then show ?thesis
      using v dies_to_trans [OF g'(2)] ends_pinned_dies [OF _ g'(2)] by (auto simp: outcome_ok_def split: prod.splits sum.splits)
  qed
  show ?case
    unfolding enumerate_simps forM.simps prod.case
    by (rule outcome_bind [where p = "remove_output sp oof f x (mk_output u k) False" and g = g, OF first]) (use rest in \<open>simp add: set_eq\<close>)
qed

lemma table_ok_killed:
  assumes g: "forgotten sp X Y n g" and g': "g_nodes g' = (g_nodes g)(n \<mapsto> DEAD_NODE)" "g_hashes g' = g_hashes g" "g_ids g' = g_ids g"
    "g_len g' = g_len g"
  shows "table_ok sp X Y g'"
proof -
  obtain X' where t: "table_ok sp X' Y g" "X' = X \<or> X' = insert n X" using g by (auto simp: forgotten_def)
  then have shape: "shape_ok g" and r: "rows_ok sp X' Y g" by (simp_all add: table_ok_def)
  have v: "live g' m \<longleftrightarrow> m \<noteq> n \<and> live g m" "interned sp g' m \<longleftrightarrow> m \<noteq> n \<and> interned sp g m"
    "m \<noteq> n \<Longrightarrow> registered Y g' m = registered Y g m" for m
    by (simp_all add: g'(1) registered_def value_of_def kind_of_def ins_def interned_def live_def DEAD_NODE_def NIL_NODE_def split: option.split)
  have rows: "rows g' = rows g" by (simp add: rows_def g')
  have ent: "entries g' = entries g - {n}" by (auto simp: entries_def rows v(1))
  have "shape_ok g'" using shape by (simp add: shape_ok_def g')
  moreover have "\<forall>(h, m) \<in> set (rows g'). g_nodes g' m \<noteq> None \<and> (live g' m \<longrightarrow> interned sp g' m \<and> h = value_hash sp (registered Y g' m))"
    using rows_okD(1-3) [OF r] by (auto simp: rows g'(1) v)
  moreover have "filter (live g') (map snd (rows g')) = filter (\<lambda>m. m \<noteq> n) (filter (live g) (map snd (rows g)))"
    by (auto simp: rows v(1) intro: filter_cong)
  then have "distinct (filter (live g') (map snd (rows g')))" using rows_okD(4) [OF r] by (simp only: distinct_filter)
  moreover have "inj_on (registered Y g') (entries g')"
    using rows_okD(5) [OF r] unfolding ent by (auto simp: inj_on_def v(3))
  moreover have "entries g' = {m. interned sp g' m} - X" unfolding ent rows_okD(6) [OF r] v(2) using t(2) by auto
  ultimately show ?thesis by (simp only: table_ok_def rows_ok_def)
qed

lemma retire_ok:
  assumes g1: "graph_inv sp (E \<union> {(n, i) | i. i < length (ins g n)}) X Y g1" "dies_to g g1" and l: "live g n" "outs g n = []"
    and E: "\<forall>i. (n, i) \<notin> E"
  shows "outcome_ok oof P (\<lambda>g'. graph_inv sp E X Y g' \<and> deleted n g g') (retire_node sp n g1)"
proof -
  note ok = graph_invD [OF g1(1)]
  obtain x where x: "g_nodes g n = Some x" using live_node [OF l(1)] by blast
  have same: "g_nodes g1 n = g_nodes g n" by (rule dies_toD(3) [OF g1(2) l])
  have l1: "live g1 n" using node_eq_views [OF same] l(1) by blast
  have n0: "n \<noteq> 0" "g_nodes g1 0 = None" using graph_inv_domain [OF g1(1) l1] edges_agreeD(1) [OF ok(1), of 0] by blast+
  obtain g2 where g2: "unintern sp n 0 g1 = (Inr (), g2)" "same_graph g1 g2" "g_pos g2 = g_pos g1" "forgotten sp X Y n g2" "length (g_hashes g2) = length (g_hashes g1)"
    using unintern_cases [OF ok(2,3,5) l1 n0(2)] by blast
  have nodes: "g_nodes g2 = g_nodes g1" using g2(2) by (simp add: same_graph_def)
  have x2: "g_nodes g2 n = Some x" using nodes same x by simp
  let ?w = "g_waste g2 + int (ids_size (node_input_cap x)) + int (ids_size (node_output_cap x)) +
    int (compute_node_size sp (node_rtype x) (node_extra_dwords x) (g_has_dbg g2))"
  define g3 where "g3 = g2\<lparr>g_waste := ?w, g_nodes := (g_nodes g2)(n \<mapsto> DEAD_NODE)\<rparr>"
  have ret: "retire_node sp n g1 = (Inr (), g3)"
    using g2(1) g_get_node_some [OF n0(1) x2] unfolding retire_node_def g3_def by simp
  have g3: "g_nodes g3 = (g_nodes g2)(n \<mapsto> DEAD_NODE)" "same_flags g2 g3" "g_hashes g3 = g_hashes g2" "g_ids g3 = g_ids g2"
    "g_len g3 = g_len g2"
    by (simp_all add: g3_def same_flags_def)
  have v: "live g2 n" "outs g2 n = []" "ins g2 n = ins g n"
    using node_eq_views [of g2 n g] l x x2 by auto
  have "edges_agree (E \<union> {(n, i) | i. i < length (ins g2 n)}) g2" using ok(1) same_nodes_views(8) [OF nodes] v(3) by simp
  then have "edges_agree E g3" using kill_node [OF _ v(1,2) E g3(1)] by blast
  moreover have "table_ok sp X Y g3" by (rule table_ok_killed [OF g2(4) g3(1,3-5)])
  moreover have "nodes_ok sp g3"
    using ok(3) g2(3) x2 unfolding nodes_ok_def g3(1) nodes by (auto simp: g3_def node_ok_def DEAD_NODE_def NIL_NODE_def)
  moreover have flags: "same_flags g g3"
    using g2(2,3,5) g3(2) dies_toD(5) [OF g1(2)] by (simp add: same_flags_def same_graph_def)
  moreover have "deleted n g g3" using l g1(2) nodes g3(1) flags by (auto simp: deleted_def)
  moreover have "\<not> g_dont_delete g3" "\<not> g_dont_intern g3" using ok(4,5) g2(2) g3(2) by (simp_all add: same_flags_def same_graph_def)
  ultimately show ?thesis by (simp add: outcome_ok_def graph_inv_def ret)
qed

lemma delete_ok:
  "graph_inv sp E X Y g \<Longrightarrow> g_nodes g n \<noteq> None \<Longrightarrow> \<forall>i. (n, i) \<notin> E \<Longrightarrow>
   outcome_ok oof (\<not> ends_pinned g) (\<lambda>g'. graph_inv sp E X Y g' \<and> deleted n g g') (delete_node sp oof f n g)"
proof (induction f arbitrary: E g n)
  case 0
  then show ?case by (simp add: delete_node_eqs outcome_ok_def fail_apply)
next
  case (Suc f)
  obtain x where x: "g_nodes g n = Some x" using Suc.prems(2) by auto
  have n0: "n \<noteq> 0" using edges_agreeD(1) [of E g n] Suc.prems(2) graph_invD(1) [OF Suc.prems(1)] by auto
  have ox: "outs g n = node_outs x" "ins g n = node_inps x" "live g n \<longleftrightarrow> node_rtype x \<noteq> DEAD_NODE_KIND"
    using x by (simp_all add: outs_def ins_def live_def)
  have dd: "\<not> g_dont_delete g" using Suc.prems(1) by (simp add: graph_inv_def)
  show ?case
  proof (cases "outs g n \<noteq> [] \<or> \<not> live g n")
    case True
    then have "delete_node sp oof (Suc f) n g = (Inr (), g)"
      using ox n0 by (auto simp: delete_node_eqs g_get_node_some [OF n0 x] ret_apply)
    then show ?thesis using True Suc.prems(1) by (simp add: outcome_ok_def deleted_def)
  next
    case False
    then have l: "outs g n = []" "live g n" by auto
    let ?E = "E \<union> {(n, i) | i. i < length (ins g n)}"
    show ?thesis
    proof (cases "node_rtype x = type_End")
      case True
      then have "delete_node sp oof (Suc f) n g = (Inl (Panic ''node.itype != .End''), g)"
        using ox n0 l dd by (auto simp: delete_node_eqs g_get_node_some [OF n0 x] fail_apply)
      moreover have "\<not> ends_pinned g" using True l x by (auto simp: ends_pinned_def kind_of_def)
      ultimately show ?thesis by (auto simp: outcome_ok_def)
    next
      case no_end: False
      let ?loop = "forM (enumerate 0 (node_inps x)) (\<lambda>(i, inp). remove_output sp oof f inp (mk_output n i) False)"
      have eq: "delete_node sp oof (Suc f) n g = bindM ?loop (\<lambda>_. retire_node sp n) g"
        using ox n0 l dd no_end by (simp add: delete_node_eqs g_get_node_some [OF n0 x])
      have empty: "E \<union> {(n, i) | i. i < (0::nat)} = E" "ins g n = [] @ node_inps x" using ox by auto
      have "outcome_ok oof (\<not> ends_pinned g) (\<lambda>g'. graph_inv sp ?E X Y g' \<and> dies_to g g') (?loop g)"
        by (rule remove_loop [OF Suc.IH Suc.prems(3) _ l(2,1) empty(2)]) (unfold empty(1), auto intro: Suc.prems(1))
      then show ?thesis
        unfolding eq by (rule outcome_bind [where p = ?loop and g = g]) (use retire_ok [OF _ _ l(2,1) Suc.prems(3)] in blast)
    qed
  qed
qed

lemma delete_stops:
  assumes g: "graph_inv sp {} X Y g" "g_nodes g n \<noteq> None" "edge_count g < fuel"
  shows "(\<exists>g'. delete_node sp oof fuel n g = (Inr (), g') \<and> graph_inv sp {} X Y g' \<and> deleted n g g') \<or>
    (\<exists>g'. delete_node sp oof fuel n g = (Inl (Panic ''node.itype != .End''), g')) \<and> \<not> ends_pinned g"
proof -
  have out: "outcome_ok e (\<not> ends_pinned g) (\<lambda>g'. graph_inv sp {} X Y g' \<and> deleted n g g') (delete_node sp oof fuel n g)" for e
  proof -
    have "delete_node sp oof fuel n g = delete_node sp e fuel n g"
      using delete_fuel [of "edge_count g" fuel fuel sp oof n e] g(3) by (simp add: same_upto_def)
    then show ?thesis using delete_ok [OF g(1,2), of e fuel] by simp
  qed
  obtain r g' where "delete_node sp oof fuel n g = (r, g')" by force
  then show ?thesis using out [of "Ub ''a''"] out [of "Ub ''b''"] by (cases r) (auto simp: outcome_ok_def)
qed

lemma delete_done:
  assumes g: "graph_inv sp {} X Y g" "g_nodes g n \<noteq> None" "ends_pinned g" "edge_count g < fuel"
  shows "\<exists>g'. delete_node sp oof fuel n g = (Inr (), g') \<and> graph_inv sp {} X Y g' \<and> deleted n g g'"
  using delete_stops [OF g(1,2,4)] g(3) by blast

lemma deleted_outs:
  assumes "deleted n g g'" "live g n"
  shows "count_list (outs g' m) (0, i) = count_list (outs g m) (0, i)" "set (outs g' m) \<subseteq> set (outs g m) \<or> \<not> live g' m"
proof -
  have "count_list (outs g' m) (0, i) = count_list (outs g m) (0, i) \<and> (set (outs g' m) \<subseteq> set (outs g m) \<or> \<not> live g' m)"
  proof (cases "outs g n \<noteq> []")
    case True
    then show ?thesis using assms by (simp add: deleted_def)
  next
    case False
    then obtain g1 where g1: "dies_to g g1" "g_nodes g' = (g_nodes g1)(n \<mapsto> DEAD_NODE)" using assms by (auto simp: deleted_def)
    have "m \<noteq> n \<Longrightarrow> g_nodes g' m = g_nodes g1 m" "outs g' n = []" using g1(2) by (simp_all add: outs_def DEAD_NODE_def NIL_NODE_def)
    then show ?thesis
      using node_eq_views [of g' m g1] dies_toD(2,6) [OF g1(1), of m] False by (cases "m = n") auto
  qed
  then show "count_list (outs g' m) (0, i) = count_list (outs g m) (0, i)" "set (outs g' m) \<subseteq> set (outs g m) \<or> \<not> live g' m" by auto
qed

lemma deleted_effect:
  assumes "deleted n g g'" "graph_inv sp {} X Y g" "graph_inv sp {} X Y g'" "live g n"
  shows "live g' n \<longleftrightarrow> outs g n \<noteq> []"
    "live g' m \<Longrightarrow> live g m \<and> value_of g' m = value_of g m \<and> (outs g m \<noteq> [] \<longrightarrow> outs g' m \<noteq> [])"
    "live g m \<Longrightarrow> \<not> live g' m \<Longrightarrow> (u, i) \<in> set (outs g m) \<Longrightarrow> u \<noteq> 0 \<and> live g u \<and> \<not> live g' u"
proof -
  show n: "live g' n \<longleftrightarrow> outs g n \<noteq> []"
    using assms(1,4) by (auto simp: deleted_def live_def DEAD_NODE_def NIL_NODE_def split: if_splits)
  have val: "live g m \<and> value_of g' m = value_of g m \<and> (outs g m \<noteq> [] \<longrightarrow> outs g' m \<noteq> []) \<and> ins g' m = ins g m" if m: "live g' m" for m
  proof (cases "outs g n \<noteq> []")
    case True
    then show ?thesis using assms(1) m by (simp add: deleted_def)
  next
    case False
    then obtain g1 where g1: "dies_to g g1" "g_nodes g' = (g_nodes g1)(n \<mapsto> DEAD_NODE)" using assms(1,4) by (auto simp: deleted_def)
    have "m \<noteq> n" using n m False by auto
    then have "g_nodes g' m = g_nodes g1 m" using g1(2) by simp
    note v = node_eq_views [OF this]
    then show ?thesis using dies_toD(2,4) [OF g1(1), of m] m by (auto simp: value_of_def)
  qed
  then show "live g' m \<Longrightarrow> live g m \<and> value_of g' m = value_of g m \<and> (outs g m \<noteq> [] \<longrightarrow> outs g' m \<noteq> [])" by blast
  assume m: "live g m" "\<not> live g' m" "(u, i) \<in> set (outs g m)"
  then have gone: "outs g n = []" using assms(1) by (auto simp: deleted_def split: if_splits)
  then obtain g1 where g1: "dies_to g g1" "g_nodes g' = (g_nodes g1)(n \<mapsto> DEAD_NODE)" using assms(1,4) by (auto simp: deleted_def)
  have "m \<noteq> n" using gone m(3) by auto
  then have o: "outs g' m = outs g1 m" using g1(2) by (simp add: outs_def)
  have empty: "outs g' m = []" using edges_agreeD(2) [OF graph_invD(1) [OF assms(3)]] m(2) by blast
  then have u: "u \<noteq> 0" using dies_toD(6) [OF g1(1), of m i] m(3) o by (auto simp: in_set_count)
  note e = edges_agreeD(4) [OF graph_invD(1) [OF assms(2)] m(3) u]
  have "\<not> live g' u"
  proof
    assume l: "live g' u"
    then have i: "i < length (ins g' u)" "ins g' u ! i = m" using val [OF l] e by auto
    moreover have "m \<noteq> 0" using graph_inv_domain [OF assms(2) m(1)] by blast
    ultimately have "(u, i) \<in> set (outs g' m)" using edges_agreeD(3) [OF graph_invD(1) [OF assms(3)] l, of i] by auto
    then show False using empty by simp
  qed
  then show "u \<noteq> 0 \<and> live g u \<and> \<not> live g' u" using u e by blast
qed

end
