(* ===== verification/Bit_Arr.thy ===== *)
theory Bit_Arr
  imports Prelude
begin

text \<open>
  The bit sets of \<^verbatim>\<open>bit_arr.odin\<close>, arrays of 64-bit masks that are indexed without a check, and that each operation does to
  the set of numbers what its name says. Indices and lengths are not negative.
\<close>

section \<open>Operations\<close>

definition MASK_SIZE :: nat where
  "MASK_SIZE = 64"

record Bit_Set =
  bs_masks :: "u64 list"
  bit_length :: nat

definition mask_len :: "nat \<Rightarrow> nat" where
  "mask_len len = (len + MASK_SIZE - 1) div MASK_SIZE"

definition bit_init :: "nat \<Rightarrow> Bit_Set" where
  "bit_init len = \<lparr>bs_masks = replicate (mask_len len) 0, bit_length = min len (mask_len len * MASK_SIZE)\<rparr>"

definition bit_resize :: "nat \<Rightarrow> (Bit_Set, unit) prog" where
  "bit_resize size' = modifyM (\<lambda>b.
     let new = bit_init size'; src = take (mask_len (bit_length b)) (bs_masks b); n = min (mask_len (bit_length new)) (length src)
     in new\<lparr>bs_masks := take n src @ drop n (bs_masks new)\<rparr>)"

definition bit_set_all :: "bool \<Rightarrow> (Bit_Set, unit) prog" where
  "bit_set_all v = modifyM (\<lambda>b. b\<lparr>bs_masks :=
     replicate (mask_len (bit_length b)) (if v then - 1 else 0) @ drop (mask_len (bit_length b)) (bs_masks b)\<rparr>)"

text \<open>A mask, read or written through a pointer without a length.\<close>

definition read_mask :: "nat \<Rightarrow> (Bit_Set, u64) prog" where
  "read_mask k =
     bindM (getM bs_masks) (\<lambda>ms.
     bindM (requireM (k < length ms) ''mask out of range'') (\<lambda>_.
     ret (ms ! k)))"

definition write_mask :: "nat \<Rightarrow> u64 \<Rightarrow> (Bit_Set, unit) prog" where
  "write_mask k m =
     bindM (getM bs_masks) (\<lambda>ms.
     bindM (requireM (k < length ms) ''mask out of range'') (\<lambda>_.
     modifyM (\<lambda>b. b\<lparr>bs_masks := (bs_masks b)[k := m]\<rparr>)))"

definition bit_set :: "nat \<Rightarrow> bool \<Rightarrow> (Bit_Set, bool) prog" where
  "bit_set i v =
     bindM (getM bit_length) (\<lambda>len.
     bindM (assertM (i < len) ''index < bset.bit_length'') (\<lambda>_.
     bindM (read_mask (i div MASK_SIZE)) (\<lambda>m.
     let m' = (if v then m OR push_bit (i mod MASK_SIZE) 1 else m AND NOT (push_bit (i mod MASK_SIZE) 1))
     in bindM (write_mask (i div MASK_SIZE) m') (\<lambda>_.
        ret (m \<noteq> m')))))"

definition bit_contains :: "nat \<Rightarrow> (Bit_Set, bool) prog" where
  "bit_contains i =
     bindM (getM bit_length) (\<lambda>len.
     bindM (assertM (i < len) ''index < bset.bit_length'') (\<lambda>_.
     bindM (if len mod MASK_SIZE = 0 then ret True
            else bindM (read_mask (len div MASK_SIZE)) (\<lambda>m. ret (m AND push_bit (len mod MASK_SIZE) 1 = 0))) (\<lambda>clear.
     bindM (assertM clear ''a bit past the length'') (\<lambda>_.
     bindM (read_mask (i div MASK_SIZE)) (\<lambda>m.
     ret (m AND push_bit (i mod MASK_SIZE) 1 \<noteq> 0))))))"

text \<open>\<^verbatim>\<open>set_range\<close> of the numbers from \<open>start\<close> to before \<open>end'\<close>; a shift by 64 gives 0.\<close>

definition bit_set_range :: "nat \<Rightarrow> nat \<Rightarrow> (Bit_Set, unit) prog" where
  "bit_set_range start end' =
     bindM (assertM (start \<le> end') ''start <= end'') (\<lambda>_.
     bindM (getM bit_length) (\<lambda>len.
     bindM (assertM (end' \<le> len) ''end <= bset.bit_length'') (\<lambda>_.
     let prefix = push_bit (start mod MASK_SIZE) (- 1);
         suffix = drop_bit (MASK_SIZE - end' mod MASK_SIZE) (- 1);
         suffix = (if suffix = 0 then - 1 else suffix);
         start_bound = start div MASK_SIZE;
         end_bound = (end' + MASK_SIZE - 1) div MASK_SIZE
     in bindM (forM [start_bound + 1..<end_bound - 1] (\<lambda>i. write_mask i (- 1))) (\<lambda>_.
        if start \<noteq> end'
        then
          let (prefix, suffix) = (if start_bound = end_bound - 1 then (prefix AND suffix, prefix AND suffix) else (prefix, suffix))
          in bindM (read_mask start_bound) (\<lambda>m.
             bindM (write_mask start_bound (m OR prefix)) (\<lambda>_.
             bindM (read_mask (end_bound - 1)) (\<lambda>m.
             write_mask (end_bound - 1) (m OR suffix))))
        else ret ()))))"

section \<open>Sets of numbers\<close>

definition bits :: "Bit_Set \<Rightarrow> nat set" where
  "bits b = {i. i div 64 < length (bs_masks b) \<and> bit (bs_masks b ! (i div 64)) (i mod 64)}"

definition bits_ok :: "Bit_Set \<Rightarrow> bool" where
  "bits_ok b \<longleftrightarrow> length (bs_masks b) = mask_len (bit_length b) \<and> bits b \<subseteq> {..<bit_length b}"

lemma mask_len_range: "i < n \<Longrightarrow> i div 64 < mask_len n" "mask_len n * 64 < n + 64" "n \<le> mask_len n * 64"
proof -
  have e: "mask_len n * 64 + (n + 63) mod 64 = n + 63" using div_mult_mod_eq [of "n + 63" 64] by (simp add: mask_len_def MASK_SIZE_def add.commute)
  moreover have "(n + 63) mod 64 < 64" by simp
  ultimately show "mask_len n * 64 < n + 64" "n \<le> mask_len n * 64" by linarith+
  then show "i < n \<Longrightarrow> i div 64 < mask_len n" by (intro less_mult_imp_div_less) linarith
qed

lemma bit_init_facts: "bits (bit_init n) = {}" "bit_length (bit_init n) = n" "bits_ok (bit_init n)"
proof -
  show l: "bit_length (bit_init n) = n" using mask_len_range(3) [of n] by (simp add: bit_init_def MASK_SIZE_def)
  show b: "bits (bit_init n) = {}" by (simp add: bits_def bit_init_def)
  show "bits_ok (bit_init n)" unfolding bits_ok_def b l by (simp add: bit_init_def)
qed

lemma read_mask_returns: "k < length (bs_masks b) \<Longrightarrow> read_mask k b = (Inr (bs_masks b ! k), b)"
  by (simp add: read_mask_def ret_apply)

lemma write_mask_returns: "k < length (bs_masks b) \<Longrightarrow> write_mask k m b = (Inr (), b\<lparr>bs_masks := (bs_masks b)[k := m]\<rparr>)"
  by (simp add: write_mask_def)

lemma bits_write:
  "k < length (bs_masks b) \<Longrightarrow> i \<in> bits (b\<lparr>bs_masks := (bs_masks b)[k := m]\<rparr>) \<longleftrightarrow> (if i div 64 = k then bit m (i mod 64) else i \<in> bits b)"
  by (auto simp: bits_def)

lemma index_split: "j = i \<longleftrightarrow> j div 64 = i div 64 \<and> j mod 64 = i mod 64" for i j :: nat
  by (metis div_mult_mod_eq)

lemma bit_set_returns:
  assumes b: "bits_ok b" "i < bit_length b"
  shows "\<exists>b'. bit_set i v b = (Inr ((i \<in> bits b) \<noteq> v), b') \<and> bits b' = (if v then insert i (bits b) else bits b - {i}) \<and>
    bit_length b' = bit_length b \<and> bits_ok b'"
proof -
  let ?k = "i div 64" and ?m = "bs_masks b ! (i div 64)"
  define m' where "m' = (if v then ?m OR push_bit (i mod 64) 1 else ?m AND NOT (push_bit (i mod 64) 1))"
  let ?b = "b\<lparr>bs_masks := (bs_masks b)[?k := m']\<rparr>"
  have k: "?k < length (bs_masks b)" using b mask_len_range(1) [OF b(2)] by (simp add: bits_ok_def)
  have bit: "bit m' j \<longleftrightarrow> (if j = i mod 64 then v else bit ?m j)" if "j < 64" for j
    using that by (auto simp: m'_def bit_or_iff bit_and_iff bit_not_iff bit_exp_iff)
  have run: "bit_set i v b = (Inr (?m \<noteq> m'), ?b)"
    using b(2) k by (simp add: bit_set_def MASK_SIZE_def read_mask_returns write_mask_returns Let_def ret_apply m'_def)
  have set_eq: "bits ?b = (if v then insert i (bits b) else bits b - {i})"
  proof (rule set_eqI)
    fix j
    show "j \<in> bits ?b \<longleftrightarrow> j \<in> (if v then insert i (bits b) else bits b - {i})"
      unfolding bits_write [OF k] using bit [of "j mod 64"] k index_split [of j i] by (auto simp: bits_def)
  qed
  have i: "i \<in> bits b \<longleftrightarrow> bit ?m (i mod 64)" using k by (simp add: bits_def)
  have "?m = m'" if "bit ?m (i mod 64) = v"
    by (rule bit_word_eqI) (use bit that in auto)
  moreover have "bit m' (i mod 64) = v" using bit [of "i mod 64"] by simp
  ultimately have changed: "(?m \<noteq> m') = ((i \<in> bits b) \<noteq> v)" unfolding i by metis
  have "bits_ok ?b" using b set_eq by (auto simp: bits_ok_def split: if_splits)
  then show ?thesis using run set_eq unfolding changed by (intro exI [of _ ?b]) simp
qed

lemma bit_contains_returns:
  assumes b: "bits_ok b" "i < bit_length b"
  shows "bit_contains i b = (Inr (i \<in> bits b), b)"
proof -
  let ?n = "bit_length b"
  have test: "m AND push_bit j 1 = 0 \<longleftrightarrow> \<not> bit m j" for m :: u64 and j using bit_iff_and_push_bit_not_eq_0 [of m j] by blast
  have k: "i div 64 < length (bs_masks b)" using b mask_len_range(1) [OF b(2)] by (simp add: bits_ok_def)
  have "(if ?n mod 64 = 0 then ret True else bindM (read_mask (?n div 64)) (\<lambda>m. ret (m AND push_bit (?n mod 64) 1 = 0))) b = (Inr True, b)"
  proof (cases "?n mod 64 = 0")
    case False
    have "?n \<noteq> mask_len ?n * 64" using False by (metis mod_mult_self2_is_0)
    then have "?n div 64 < mask_len ?n" using mask_len_range(3) [of ?n] by (intro less_mult_imp_div_less) linarith
    then have n: "?n div 64 < length (bs_masks b)" using b by (simp add: bits_ok_def)
    moreover have "?n \<notin> bits b" using b by (auto simp: bits_ok_def)
    ultimately show ?thesis using False test [of _ "?n mod 64"] by (simp add: read_mask_returns bits_def ret_apply)
  qed (simp add: ret_apply)
  then show ?thesis
    using b(2) k test [of _ "i mod 64"]
    by (cases "?n mod 64 = 0") (simp_all add: bit_contains_def MASK_SIZE_def read_mask_returns bits_def ret_apply del: push_bit_of_1)
qed

lemma bit_resize_returns:
  assumes b: "bits_ok b" "bit_length b \<le> n"
  shows "\<exists>b'. bit_resize n b = (Inr (), b') \<and> bits b' = bits b \<and> bit_length b' = n \<and> bits_ok b'"
proof -
  let ?l = "mask_len (bit_length b)"
  have l: "?l \<le> mask_len n" using b(2) by (auto simp: mask_len_def intro: div_le_mono)
  let ?b = "(bit_init n)\<lparr>bs_masks := bs_masks b @ drop ?l (bs_masks (bit_init n))\<rparr>"
  have "bit_resize n b = (Inr (), ?b)"
    using b l bit_init_facts(2) [of n] by (simp add: bit_resize_def Let_def bits_ok_def)
  moreover have s: "bits ?b = bits b" using b(1) by (auto simp: bits_def bit_init_def nth_append bits_ok_def split: if_splits)
  moreover have "bits_ok ?b" using b l s bit_init_facts(2) [of n] by (auto simp: bits_ok_def) (simp add: bit_init_def)
  ultimately show ?thesis using bit_init_facts(2) [of n] by (intro exI [of _ ?b]) simp
qed

lemma bit_set_all_returns:
  assumes "bits_ok b"
  shows "\<exists>b'. bit_set_all False b = (Inr (), b') \<and> bits b' = {} \<and> bit_length b' = bit_length b \<and> bits_ok b'"
  using assms by (auto simp: bit_set_all_def bits_ok_def bits_def)

section \<open>Ranges\<close>

lemma write_masks:
  assumes "\<forall>k \<in> set ks. k < length (bs_masks b)"
  shows "\<exists>b'. forM ks (\<lambda>k. write_mask k (- 1)) b = (Inr (), b') \<and> bits b' = bits b \<union> {i. i div 64 \<in> set ks} \<and>
    bit_length b' = bit_length b \<and> length (bs_masks b') = length (bs_masks b)"
  using assms
proof (induction ks arbitrary: b)
  case (Cons k ks)
  let ?b = "b\<lparr>bs_masks := (bs_masks b)[k := - 1]\<rparr>"
  have k: "k < length (bs_masks b)" using Cons.prems by simp
  obtain b' where b': "forM ks (\<lambda>k. write_mask k (- 1)) ?b = (Inr (), b')" "bits b' = bits ?b \<union> {i. i div 64 \<in> set ks}"
    "bit_length b' = bit_length ?b" "length (bs_masks b') = length (bs_masks ?b)"
    using Cons.IH [of ?b] Cons.prems by auto
  have "bits ?b = bits b \<union> {i. i div 64 = k}" using bits_write [OF k] by (auto split: if_splits)
  then show ?case using b' write_mask_returns [OF k] by auto
qed (simp add: ret_apply)

lemma or_mask:
  assumes "k < length (bs_masks b)"
  shows "\<exists>b'. bindM (read_mask k) (\<lambda>m. write_mask k (m OR w)) b = (Inr (), b') \<and> bits b' = bits b \<union> {i. i div 64 = k \<and> bit w (i mod 64)} \<and>
    bit_length b' = bit_length b \<and> length (bs_masks b') = length (bs_masks b)"
proof -
  let ?b = "b\<lparr>bs_masks := (bs_masks b)[k := (bs_masks b ! k) OR w]\<rparr>"
  have "bits ?b = bits b \<union> {i. i div 64 = k \<and> bit w (i mod 64)}"
    using bits_write [OF assms] assms by (auto simp: bit_or_iff bits_def)
  then show ?thesis using assms by (intro exI [of _ ?b]) (simp add: read_mask_returns write_mask_returns)
qed

lemma prefix_bit: "j < 64 \<Longrightarrow> bit (push_bit s (- 1) :: u64) j \<longleftrightarrow> s \<le> j"
  by (auto simp: bit_not_iff bit_mask_iff)

lemma suffix_bit:
  assumes "e < 64" "j < 64"
  shows "bit (if drop_bit (64 - e) (- 1 :: u64) = 0 then - 1 else drop_bit (64 - e) (- 1 :: u64)) j \<longleftrightarrow> e = 0 \<or> j < e"
proof -
  have b: "bit (drop_bit (64 - e) (- 1 :: u64)) k \<longleftrightarrow> k < e" for k using assms(1) by (auto simp: bit_mask_iff)
  show ?thesis
  proof (cases "e = 0")
    case True
    then have "drop_bit (64 - e) (- 1 :: u64) = 0" by (intro bit_word_eqI) (simp add: b)
    then show ?thesis using True assms(2) by simp
  next
    case False
    then have "drop_bit (64 - e) (- 1 :: u64) \<noteq> 0" using b [of 0] by auto
    then show ?thesis using False b by simp
  qed
qed

text \<open>A range, cut at the masks: \<open>l\<close> is the last mask it reaches into.\<close>

lemma range_split:
  fixes i :: nat
  assumes "start < end'" and s: "sb = start div 64" and l: "l = (end' + 63) div 64 - 1"
  shows "start \<le> i \<and> i < end' \<longleftrightarrow>
    sb < i div 64 \<and> i div 64 < l \<or>
    i div 64 = sb \<and> start mod 64 \<le> i mod 64 \<and> (sb = l \<longrightarrow> end' mod 64 = 0 \<or> i mod 64 < end' mod 64) \<or>
    i div 64 = l \<and> (end' mod 64 = 0 \<or> i mod 64 < end' mod 64) \<and> (sb = l \<longrightarrow> start mod 64 \<le> i mod 64)"
proof -
  define k j where kj: "k = i div 64" "j = i mod 64"
  have i: "i = 64 * k + j" "j < 64" by (simp_all add: kj)
  define s0 where "s0 = start mod 64"
  have st: "start = 64 * sb + s0" "s0 < 64" by (simp_all add: s s0_def)
  define e where "e = end' mod 64"
  define e1 where "e1 = (if e = 0 then 64 else e)"
  obtain q where q: "end' = 64 * q + e" "e < 64" using that [of "end' div 64"] by (simp add: e_def)
  have "end' = 64 * l + e1"
  proof (cases "e = 0")
    case True
    then have "0 < q" using q assms(1) by simp
    moreover have "l = q - 1" using True by (simp add: l q(1))
    ultimately show ?thesis using True q by (simp add: e1_def algebra_simps)
  next
    case False
    then have "(end' + 63) div 64 = q + 1" using q by simp
    then show ?thesis using False q l by (simp add: e1_def)
  qed
  moreover have "j < e1 \<longleftrightarrow> e = 0 \<or> j < e" "1 \<le> e1" "e1 \<le> 64" using i(2) q(2) by (auto simp: e1_def)
  moreover have "sb = l \<or> sb < l" using calculation(1,4) st assms(1) by linarith
  ultimately have "start \<le> i \<and> i < end' \<longleftrightarrow> sb < k \<and> k < l \<or> k = sb \<and> s0 \<le> j \<and> (sb = l \<longrightarrow> j < e1) \<or> k = l \<and> j < e1 \<and> (sb = l \<longrightarrow> s0 \<le> j)"
    using i st assms(1) by (elim disjE; cases "k < sb"; cases "k = sb"; cases "k < l"; cases "k = l") auto
  then show ?thesis unfolding kj(1) [symmetric] kj(2) [symmetric] s0_def [symmetric] e_def [symmetric]
    using \<open>j < e1 \<longleftrightarrow> e = 0 \<or> j < e\<close> by simp
qed

text \<open>The two ends of the range: masks \<open>sb\<close> and \<open>l\<close>, which may be one.\<close>

lemma or_masks:
  assumes "sb < length (bs_masks b)" "l < length (bs_masks b)"
  obtains b' where "bindM (bindM (read_mask sb) (\<lambda>m. write_mask sb (m OR pre))) (\<lambda>_. bindM (read_mask l) (\<lambda>m. write_mask l (m OR suf))) b = (Inr (), b')"
    "bits b' = bits b \<union> {i. i div 64 = sb \<and> bit pre (i mod 64)} \<union> {i. i div 64 = l \<and> bit suf (i mod 64)}"
    "bit_length b' = bit_length b" "length (bs_masks b') = length (bs_masks b)"
proof -
  obtain b1 where b1: "bindM (read_mask sb) (\<lambda>m. write_mask sb (m OR pre)) b = (Inr (), b1)"
    "bits b1 = bits b \<union> {i. i div 64 = sb \<and> bit pre (i mod 64)}" "bit_length b1 = bit_length b" "length (bs_masks b1) = length (bs_masks b)"
    using or_mask [of sb b pre] assms(1) by auto
  obtain b2 where "bindM (read_mask l) (\<lambda>m. write_mask l (m OR suf)) b1 = (Inr (), b2)"
    "bits b2 = bits b1 \<union> {i. i div 64 = l \<and> bit suf (i mod 64)}" "bit_length b2 = bit_length b1" "length (bs_masks b2) = length (bs_masks b1)"
    using or_mask [of l b1 suf] assms(2) b1(4) by auto
  then show thesis using that [of b2] b1 by simp
qed

lemma bit_set_range_returns:
  assumes "bits_ok b" "start \<le> end'" "end' \<le> bit_length b"
  shows "\<exists>b'. bit_set_range start end' b = (Inr (), b') \<and> bits b' = bits b \<union> {start..<end'} \<and> bit_length b' = bit_length b \<and> bits_ok b'"
proof -
  define sb eb where sb_def: "sb = start div 64" and eb_def: "eb = (end' + 63) div 64"
  define p s where p_def: "p = (push_bit (start mod 64) (- 1) :: u64)"
    and s_def: "s = (if drop_bit (64 - end' mod 64) (- 1 :: u64) = 0 then - 1 else drop_bit (64 - end' mod 64) (- 1 :: u64))"
  define pre suf where "pre = (if sb = eb - 1 then p AND s else p)" and "suf = (if sb = eb - 1 then p AND s else s)"
  have len: "length (bs_masks b) = mask_len (bit_length b)" using assms(1) by (simp add: bits_ok_def)
  have eb: "eb \<le> length (bs_masks b)" using assms(3) by (auto simp: len mask_len_def MASK_SIZE_def eb_def intro: div_le_mono)
  obtain b1 where b1: "forM [sb + 1..<eb - 1] (\<lambda>i. write_mask i (- 1)) b = (Inr (), b1)"
    "bits b1 = bits b \<union> {i. i div 64 \<in> set [sb + 1..<eb - 1]}" "bit_length b1 = bit_length b" "length (bs_masks b1) = length (bs_masks b)"
    using write_masks [of "[sb + 1..<eb - 1]" b] eb by force
  have bound: "end' + 64 - 1 = end' + 63" by simp
  have run: "bit_set_range start end' b =
      (if start = end' then (Inr (), b1)
       else bindM (bindM (read_mask sb) (\<lambda>m. write_mask sb (m OR pre))) (\<lambda>_. bindM (read_mask (eb - 1)) (\<lambda>m. write_mask (eb - 1) (m OR suf))) b1)"
    unfolding bit_set_range_def MASK_SIZE_def Let_def bound sb_def [symmetric] eb_def [symmetric] p_def [symmetric] s_def [symmetric] pre_def suf_def bindM_assoc
    using assms(2,3) b1(1) by (cases "sb = eb - 1"; cases "start = end'") (simp_all add: ret_apply)
  have "\<exists>b'. bit_set_range start end' b = (Inr (), b') \<and> bits b' = bits b \<union> {start..<end'} \<and> bit_length b' = bit_length b \<and>
      length (bs_masks b') = length (bs_masks b)"
  proof (cases "start = end'")
    case True
    have "eb \<le> sb + 1" using div_le_mono [of "end' + 63" "start + 64" 64] True by (simp add: sb_def eb_def)
    then have "bits b1 = bits b" using b1(2) by simp
    then show ?thesis using run True b1 by simp
  next
    case False
    then have less: "start < end'" using assms(2) by simp
    have sb: "sb < length (bs_masks b)" using mask_len_range(1) [of start "bit_length b"] less assms(3) len by (simp add: sb_def)
    then have in1: "sb < length (bs_masks b1)" "eb - 1 < length (bs_masks b1)" using eb b1(4) by linarith+
    obtain b2 where b2: "bit_set_range start end' b = (Inr (), b2)"
      "bits b2 = bits b1 \<union> {i. i div 64 = sb \<and> bit pre (i mod 64)} \<union> {i. i div 64 = eb - 1 \<and> bit suf (i mod 64)}"
      "bit_length b2 = bit_length b1" "length (bs_masks b2) = length (bs_masks b1)"
      using or_masks [OF in1, of pre suf] False unfolding run by auto
    have ends: "bit p (i mod 64) \<longleftrightarrow> start mod 64 \<le> i mod 64" "bit s (i mod 64) \<longleftrightarrow> end' mod 64 = 0 \<or> i mod 64 < end' mod 64" for i
      unfolding p_def s_def by (rule prefix_bit, simp) (rule suffix_bit, simp_all)
    have "i \<in> bits b2 \<longleftrightarrow> i \<in> bits b \<or> start \<le> i \<and> i < end'" for i
      unfolding range_split [OF less sb_def eb_def [THEN arg_cong [of _ _ "\<lambda>x. x - 1"]]] b2(2) b1(2) pre_def suf_def
      by (cases "sb = eb - 1") (auto simp: bit_and_iff ends)
    then have "bits b2 = bits b \<union> {start..<end'}" by (intro set_eqI) (simp only: Un_iff atLeastLessThan_iff)
    then show ?thesis using b2 b1 by simp
  qed
  then show ?thesis using assms(1,3) by (fastforce simp: bits_ok_def)
qed

end
