(* ===== verification/Worklist.thy ===== *)
theory Worklist
  imports Graph_Delete Bit_Arr
begin

text \<open>
  The worklist of the optimizer in \<^verbatim>\<open>graph.odin\<close>: a queue of nodes with a bit per node that says whether it is queued, and the
  collection of all nodes of a graph with it. A queue that is filled from empty is a list; the ring it lies in is the container of
  the Odin library. Memory for it comes from a scratch arena and is not counted.
\<close>

section \<open>The worklist\<close>

record Worklist =
  wl_queue :: "u32 list"
  in_queue :: Bit_Set

definition worklist_init :: "nat \<Rightarrow> Worklist" where
  "worklist_init cap = \<lparr>wl_queue = [], in_queue = bit_init cap\<rparr>"

definition on_bits :: "(Bit_Set, 'a) prog \<Rightarrow> (Worklist, 'a) prog" where
  "on_bits p = (\<lambda>w. case p (in_queue w) of (r, b) \<Rightarrow> (r, w\<lparr>in_queue := b\<rparr>))"

text \<open>\<^verbatim>\<open>get_node\<close>, from an operation that changes the worklist only.\<close>

definition wl_node :: "graph \<Rightarrow> u32 \<Rightarrow> (Worklist, node) prog" where
  "wl_node g id' = liftM (fst (g_get_node id' g))"

definition worklist_add :: "graph \<Rightarrow> u32 \<Rightarrow> (Worklist, unit) prog" where
  "worklist_add g id' =
     bindM (wl_node g id') (\<lambda>n.
     if node_rtype n = DEAD_NODE_KIND then ret ()
     else
       bindM (getM (\<lambda>w. bit_length (in_queue w))) (\<lambda>len.
       bindM (if len \<le> unat (node_gvn n) then on_bits (bit_resize (unat ((node_gvn n + 1) * 2))) else ret ()) (\<lambda>_.
       bindM (on_bits (bit_set (unat (node_gvn n)) True)) (\<lambda>changed.
       if \<not> changed then ret ()
       else modifyM (\<lambda>w. w\<lparr>wl_queue := wl_queue w @ [id']\<rparr>)))))"

text \<open>\<^verbatim>\<open>worklist_next\<close>: nodes that have died are passed over.\<close>

primrec worklist_pop :: "graph \<Rightarrow> u32 list \<Rightarrow> (Worklist, u32 option) prog" where
  "worklist_pop g [] = ret None"
| "worklist_pop g (id' # ids) =
     bindM (modifyM (\<lambda>w. w\<lparr>wl_queue := ids\<rparr>)) (\<lambda>_.
     bindM (wl_node g id') (\<lambda>n.
     if node_rtype n = DEAD_NODE_KIND then worklist_pop g ids
     else
       bindM (on_bits (bit_set (unat (node_gvn n)) False)) (\<lambda>_.
       ret (Some id'))))"

definition worklist_next :: "graph \<Rightarrow> (Worklist, u32 option) prog" where
  "worklist_next g = bindM (getM wl_queue) (worklist_pop g)"

section \<open>All nodes of a graph\<close>

text \<open>The loop of \<^verbatim>\<open>collect_nodes\<close>; the number of live nodes and two more is enough fuel.\<close>

primrec collect_loop :: "graph \<Rightarrow> fault \<Rightarrow> nat \<Rightarrow> nat \<Rightarrow> (Worklist, unit) prog" where
  "collect_loop g oof 0 = (\<lambda>i. fail oof)"
| "collect_loop g oof (Suc fuel) = (\<lambda>i.
     bindM (getM wl_queue) (\<lambda>queue.
     if i < length queue
     then
       bindM (wl_node g (queue ! i)) (\<lambda>n.
       bindM (assertM (node_rtype n \<noteq> DEAD_NODE_KIND) ''node.rtype != DEAD_NODE_KIND'') (\<lambda>_.
       bindM (forM (node_inps n) (worklist_add g)) (\<lambda>_.
       bindM (forM (node_outs n) (\<lambda>out. worklist_add g (fst out))) (\<lambda>_.
       collect_loop g oof fuel (i + 1)))))
     else ret ()))"

definition on_worklist :: "(graph \<Rightarrow> (Worklist, 'a) prog) \<Rightarrow> (graph \<times> Worklist, 'a) prog" where
  "on_worklist p = (\<lambda>(g, w). case p g w of (r, w') \<Rightarrow> (r, (g, w')))"

definition on_graph :: "'a gact \<Rightarrow> (graph \<times> Worklist, 'a) prog" where
  "on_graph p = (\<lambda>(g, w). case p g of (r, g') \<Rightarrow> (r, (g', w)))"

definition type_Entry :: u16 where
  "type_Entry = 1"

definition assert_live_pins :: "u32 \<Rightarrow> u32 \<Rightarrow> unit gact" where
  "assert_live_pins entry' end' =
     forM [(type_Entry, entry'), (type_End, end')] (\<lambda>(expected, n).
     bindM (g_get_node n) (\<lambda>x.
     bindM (assertM (node_rtype x \<noteq> DEAD_NODE_KIND) ''pinned node is dead'') (\<lambda>_.
     assertM (node_rtype x = expected) ''pinned node is of another type'')))"

text \<open>The block that gives the nodes their numbers anew.\<close>

definition renumber_nodes :: "(graph \<times> Worklist, unit) prog" where
  "renumber_nodes =
     bindM (getM (\<lambda>(g, w). wl_queue w)) (\<lambda>queue.
     bindM (on_graph (modifyM (\<lambda>g. g\<lparr>g_gvn := of_nat (length queue)\<rparr>))) (\<lambda>_.
     bindM (on_worklist (\<lambda>_. on_bits (bit_set_all False))) (\<lambda>_.
     bindM (on_worklist (\<lambda>g. on_bits (bit_set_range 0 (unat (g_gvn g))))) (\<lambda>_.
     bindM (assertM (queue ! 0 = 0) ''worklist.data[0] == 0'') (\<lambda>_.
     bindM (forM (enumerate 1 (tl queue)) (\<lambda>(i, n). on_graph (g_put_node n (node_gvn_update (\<lambda>_. take_bit 26 (of_nat i)))))) (\<lambda>_.
     forM (tl queue) (\<lambda>n.
       bindM (on_graph (g_get_node n)) (\<lambda>x.
       bindM (on_worklist (\<lambda>_. on_bits (bit_contains (unat (node_gvn x))))) (\<lambda>c.
       assertM c ''contains(worklist.in_queue, gvn)'')))))))))"

text \<open>The check at the end that no two nodes have the same number.\<close>

definition check_numbers :: "graph \<Rightarrow> u32 list \<Rightarrow> (Bit_Set, unit) prog" where
  "check_numbers g queue = forM queue (\<lambda>n.
     bindM (liftM (fst (g_get_node n g))) (\<lambda>x.
     bindM (bit_set (unat (node_gvn x)) True) (\<lambda>changed.
     assertM changed ''set(seen, node.gvn)'')))"

definition collect_nodes :: "fault \<Rightarrow> nat \<Rightarrow> u32 \<Rightarrow> u32 \<Rightarrow> bool \<Rightarrow> (graph \<times> Worklist, unit) prog" where
  "collect_nodes oof fuel entry' end' renumber =
     bindM (getM (\<lambda>(g, w). wl_queue w)) (\<lambda>queue.
     bindM (assertM (queue = []) ''worklist.len == 0'') (\<lambda>_.
     bindM (on_worklist (\<lambda>g. worklist_add g 0)) (\<lambda>_.
     bindM (on_worklist (\<lambda>g. worklist_add g entry')) (\<lambda>_.
     bindM (on_worklist (\<lambda>g. worklist_add g end')) (\<lambda>_.
     bindM (getM (\<lambda>(g, w). wl_queue w)) (\<lambda>queue.
     bindM (assertM (queue \<noteq> []) ''worklist.len != 0'') (\<lambda>_.
     bindM (on_worklist (\<lambda>g. collect_loop g oof fuel 1)) (\<lambda>_.
     bindM (if renumber then renumber_nodes else ret ()) (\<lambda>_.
     bindM (getM (\<lambda>(g, w). (g, wl_queue w))) (\<lambda>(g, queue).
     bindM (liftM (fst (check_numbers g queue (bit_init (unat (g_gvn g)))))) (\<lambda>_.
     on_graph (assert_live_pins entry' end'))))))))))))"

end
