(* ===== verification/Graph_Build.thy ===== *)
theory Graph_Build
  imports Graph_Delete
begin

text \<open>
  The operations that make a graph larger keep it well-formed: a new output, a new input, a connection, a pin,
  a new node. Each returns when the arena has room and the limits of the representation are kept, and
  a node whose value is in the graph already is not made again.
\<close>

section \<open>Outputs\<close>

text \<open>The state \<open>g'\<close> is \<open>g\<close> with the output \<open>e\<close> of \<open>d\<close>.\<close>

definition out_added :: "u32 \<Rightarrow> u32 \<times> nat \<Rightarrow> graph \<Rightarrow> graph \<Rightarrow> bool" where
  "out_added d e g g' \<longleftrightarrow>
     (\<exists>x cap. g_nodes g d = Some x \<and>
        g_nodes g' = (g_nodes g)(d \<mapsto> x\<lparr>node_outs := node_outs x @ [e], node_output_cap := cap\<rparr>) \<and>
        length (node_outs x) < unat cap \<and> unat cap < 2 ^ 14) \<and>
     g_hashes g' = g_hashes g \<and> g_ids g' = g_ids g \<and> g_len g' = g_len g \<and> g_dont_delete g' = g_dont_delete g \<and>
     g_dont_intern g' = g_dont_intern g \<and> g_reserved g' = g_reserved g \<and>
     g_pos g \<le> g_pos g' \<and> g_pos g' \<le> g_pos g + 2 ^ 16 \<and> 4 dvd g_pos g'"

text \<open>The array of outputs has a free place, or a larger one can be had.\<close>

definition out_room :: "graph \<Rightarrow> u32 \<Rightarrow> bool" where
  "out_room g d = (case g_nodes g d of None \<Rightarrow> False | Some x \<Rightarrow>
     length (node_outs x) < unat (node_output_cap x) \<or>
     unat (node_output_cap x) < 2 ^ 13 - 1 \<and> g_pos g + ids_size (node_output_cap x * 2 + 2) \<le> g_reserved g)"

lemma ids_size_small: "unat c < 2 ^ 14 \<Longrightarrow> ids_size c = 4 * unat c"
  using unat_mult_lem [of c 4] by (simp add: ids_size_def)

lemma new_cap_small: "unat (c :: u16) < 2 ^ 14 \<Longrightarrow> unat (c * 2 + 2) = 2 * unat c + 2"
  by (subst unat_add_lem [THEN iffD1] | subst unat_mult_lem [THEN iffD1] | simp)+

lemma g_alloc_4: "4 dvd g_pos g \<Longrightarrow>
  g_alloc n 4 g = (if g_pos g + n \<le> g_reserved g then (Inr (), g\<lparr>g_pos := g_pos g + n\<rparr>) else (Inl (Ub ''the arena is full''), g))"
  by (simp add: g_alloc_def align_up_4 requireM_def fail_apply)

lemma ensure_cap:
  assumes x: "g_nodes g d = Some x" "d \<noteq> 0" "node_ok sp x" and p: "4 dvd g_pos g"
  shows "ensure_available_output_cap d 1 g =
    (if length (node_outs x) < unat (node_output_cap x) then (Inr (), g)
     else if g_pos g + ids_size (node_output_cap x * 2 + 2) \<le> g_reserved g
     then (Inr (), g\<lparr>g_waste := g_waste g + int (ids_size (node_output_cap x)), g_pos := g_pos g + ids_size (node_output_cap x * 2 + 2),
       g_nodes := (g_nodes g)(d \<mapsto> x\<lparr>node_output_cap := node_output_cap x * 2 + 2\<rparr>)\<rparr>)
     else (Inl (Ub ''the arena is full''), g\<lparr>g_waste := g_waste g + int (ids_size (node_output_cap x))\<rparr>))"
proof -
  let ?c = "node_output_cap x" and ?l = "length (node_outs x)"
  have c: "?l \<le> unat ?c" "unat ?c < 2 ^ 14" using x(3) by (auto simp: node_ok_def)
  have l: "unat (of_nat ?l :: u16) = ?l" using c by (simp add: unat_of_nat)
  have less: "?c - of_nat ?l < 1 \<longleftrightarrow> \<not> ?l < unat ?c"
  proof -
    have "?c - of_nat ?l < 1 \<longleftrightarrow> ?c - of_nat ?l = 0" by (simp add: word_less_nat_alt unat_eq_0)
    also have "\<dots> \<longleftrightarrow> ?c = of_nat ?l" by simp
    also have "\<dots> \<longleftrightarrow> unat ?c = ?l" unfolding word_unat_eq_iff l ..
    finally show ?thesis using c(1) by linarith
  qed
  have max: "max (?c * 2 + 2) (?c + 1) = ?c * 2 + 2"
  proof (rule max_absorb1)
    have "unat (?c + 1) = unat ?c + 1" using c(2) by (subst unat_add_lem [THEN iffD1]) auto
    then show "?c + 1 \<le> ?c * 2 + 2" using new_cap_small [OF c(2)] by (simp add: word_le_nat_alt)
  qed
  have p': "4 dvd g_pos (g\<lparr>g_waste := w\<rparr>)" for w using p by simp
  show ?thesis
    using less max x(1) by (simp add: ensure_available_output_cap_def g_get_node_some [OF x(2,1)] Let_def ret_apply
      g_alloc_4 [OF p'] g_put_node_def)
qed

text \<open>What \<^verbatim>\<open>add_output\<close> asserts of the user and the index.\<close>

definition out_fits :: "Node_Spec \<Rightarrow> graph \<Rightarrow> u32 \<Rightarrow> u32 \<Rightarrow> nat \<Rightarrow> bool" where
  "out_fits sp g d u i \<longleftrightarrow> i < 256 \<and> (inherits_cfg sp (fst (kind_of g d)) \<longrightarrow> u \<noteq> 0 \<longrightarrow> fst (kind_of g u) = type_Phi \<longrightarrow> i = 0)"

lemma grown_cap:
  assumes "unat (c :: u16) < 2 ^ 14" "4 * unat c < ids_size (c * 2 + 2)"
  shows "unat c < 2 ^ 13 - 1" "unat (c * 2 + 2) = 2 * unat c + 2"
proof -
  show n: "unat (c * 2 + 2) = 2 * unat c + 2" by (rule new_cap_small [OF assms(1)])
  have m: "ids_size (c * 2 + 2) = (2 * unat c + 2) * 4 mod 2 ^ 16"
    unfolding ids_size_def unat_word_ariths(2) [of "c * 2 + 2" 4] n by simp
  show "unat c < 2 ^ 13 - 1"
  proof (rule ccontr)
    assume "\<not> unat c < 2 ^ 13 - 1"
    then obtain k where k: "unat c = 2 ^ 13 - 1 + k" using le_Suc_ex not_less by metis
    then have e: "(2 * unat c + 2) * 4 = 8 * k + 2 ^ 16" by simp
    have "8 * k mod 2 ^ 16 \<le> 4 * unat c"
    proof (cases "k < 2 ^ 13")
      case True
      then show ?thesis using k by simp
    next
      case False
      then have "k = 2 ^ 13" using k assms(1) by simp
      then show ?thesis by simp
    qed
    then show False using assms(2) m e by (simp only: mod_add_self2 not_le)
  qed
qed

text \<open>The rest of \<^verbatim>\<open>add_output\<close>, once there is an array for it.\<close>

lemma add_output_run:
  assumes x: "g_nodes g d = Some x" "d \<noteq> 0" "live g d" "nodes_ok sp g" and y: "g_get_node u g1 = (Inr y, g1)"
    and e: "ensure_available_output_cap d 1 g = (Inr (), g1)" "g_nodes g1 = (g_nodes g)(d \<mapsto> x\<lparr>node_output_cap := c\<rparr>)"
  shows "add_output sp d u i g = bindM (assertM (\<not> inherits_cfg sp (node_rtype x) \<or> node_rtype y \<noteq> type_Phi \<or> i = 0) ''phi'') (\<lambda>_.
      bindM (assertM (i < 256) ''i < 256'') (\<lambda>_.
      bindM (requireM (4 * length (node_outs x) < ids_size c) ''write past the outputs'') (\<lambda>_.
      g_put_node d (node_outs_update (\<lambda>outs. outs @ [mk_output u i]))))) g1"
    (is "_ = bindM (assertM ?P _) ?k g1")
proof -
  have live: "node_rtype x \<noteq> DEAD_NODE_KIND" "unat (node_rtype x) < type_count sp"
    using x known_type [OF x(4,1)] by (auto simp: live_def)
  have "node_ok sp x" using x(1,4) by (simp add: nodes_ok_def)
  then have "unat (of_nat (Suc (length (node_outs x))) :: u16) = Suc (length (node_outs x))"
    by (simp add: node_ok_def unat_of_nat del: of_nat_Suc)
  then have cnt: "(of_nat (length (node_outs x)) + 1 :: u16) \<noteq> 0" by (metis add.commute nat.distinct(1) of_nat_Suc unat_0)
  have g1d: "g_get_node d g1 = (Inr (x\<lparr>node_output_cap := c\<rparr>), g1)" using g_get_node_some [OF x(2), of g1] e(2) by simp
  have start: "add_output sp d u i g = bindM (assertM ?P ''phi'') (\<lambda>_. bindM (g_get_node d) (\<lambda>n.
      bindM (assertM (i < 256) ''i < 256'') (\<lambda>_.
      bindM (assertM ((of_nat (length (node_outs n)) + 1 :: u16) \<noteq> 0) ''index out of range'') (\<lambda>_.
      bindM (requireM (4 * length (node_outs n) < ids_size (node_output_cap n)) ''write past the outputs'') (\<lambda>_.
      g_put_node d (node_outs_update (\<lambda>outs. outs @ [mk_output u i]))))))) g1"
    using x(2) e(1) live y by (simp add: add_output_def g_get_node_some [OF x(2,1)])
  show ?thesis
  proof (cases ?P)
    case True
    then show ?thesis using g1d cnt unfolding start by (cases "i < 256") simp_all
  next
    case False
    then show ?thesis unfolding start by simp
  qed
qed

lemma add_output_write:
  assumes x: "g_nodes g d = Some x" "d \<noteq> 0" "live g d" "nodes_ok sp g" and u: "u = 0 \<or> g_nodes g u \<noteq> None"
    and e: "ensure_available_output_cap d 1 g = (Inr (), g1)" "g_nodes g1 = (g_nodes g)(d \<mapsto> x\<lparr>node_output_cap := c\<rparr>)"
  shows "out_fits sp g d u i \<and> 4 * length (node_outs x) < ids_size c \<Longrightarrow> add_output sp d u i g =
      (Inr (), g1\<lparr>g_nodes := (g_nodes g1)(d \<mapsto> x\<lparr>node_output_cap := c, node_outs := node_outs x @ [mk_output u i]\<rparr>)\<rparr>)"
    "\<not> (out_fits sp g d u i \<and> 4 * length (node_outs x) < ids_size c) \<Longrightarrow> \<exists>msg. add_output sp d u i g = (Inl msg, g1)"
    "out_fits sp g d u i \<Longrightarrow> ids_size c \<le> 4 * length (node_outs x) \<Longrightarrow> add_output sp d u i g = (Inl (Ub ''write past the outputs''), g1)"
proof -
  obtain y where y: "g_get_node u g1 = (Inr y, g1)" "u = 0 \<and> node_rtype y = 0 \<or> u \<noteq> 0 \<and> node_rtype y = fst (kind_of g u)"
  proof (cases "u = 0")
    case True
    then show ?thesis using that [of NIL_NODE] by (simp add: g_get_node_def NIL_NODE_def)
  next
    case False
    then obtain z where "g_nodes g u = Some z" using u by auto
    then show ?thesis
      using that [of "x\<lparr>node_output_cap := c\<rparr>"] that [of z] x(1) e(2) False by (cases "u = d") (auto simp: g_get_node_def kind_of_def)
  qed
  note run = add_output_run [OF x y(1) e]
  have upd: "node_outs_update f (x\<lparr>node_output_cap := c\<rparr>) = x\<lparr>node_output_cap := c, node_outs := f (node_outs x)\<rparr>" for f
    by (cases x) simp
  have fits: "out_fits sp g d u i \<longleftrightarrow> (\<not> inherits_cfg sp (node_rtype x) \<or> node_rtype y \<noteq> type_Phi \<or> i = 0) \<and> i < 256"
    using y(2) x(1) by (auto simp: out_fits_def kind_of_def type_Phi_def)
  show "out_fits sp g d u i \<and> 4 * length (node_outs x) < ids_size c \<Longrightarrow> add_output sp d u i g =
      (Inr (), g1\<lparr>g_nodes := (g_nodes g1)(d \<mapsto> x\<lparr>node_output_cap := c, node_outs := node_outs x @ [mk_output u i]\<rparr>)\<rparr>)"
    unfolding run fits by (simp add: g_put_node_def e(2)) (subst upd, rule refl)
  show "\<not> (out_fits sp g d u i \<and> 4 * length (node_outs x) < ids_size c) \<Longrightarrow> \<exists>msg. add_output sp d u i g = (Inl msg, g1)"
    unfolding run fits by (auto simp: assertM_def requireM_def fail_apply)
  show "out_fits sp g d u i \<Longrightarrow> ids_size c \<le> 4 * length (node_outs x) \<Longrightarrow> add_output sp d u i g = (Inl (Ub ''write past the outputs''), g1)"
    unfolding run fits by (simp add: requireM_def fail_apply)
qed

text \<open>Growth: the node has room for one more output, or an array twice as big and two longer is allocated.\<close>

definition out_grown :: "u32 \<Rightarrow> node \<Rightarrow> graph \<Rightarrow> graph" where
  "out_grown d x g = g\<lparr>g_waste := g_waste g + int (ids_size (node_output_cap x)), g_pos := g_pos g + ids_size (node_output_cap x * 2 + 2),
     g_nodes := (g_nodes g)(d \<mapsto> x\<lparr>node_output_cap := node_output_cap x * 2 + 2\<rparr>)\<rparr>"

lemma add_output_room:
  assumes g: "nodes_ok sp g" and d: "d \<noteq> 0" "g_nodes g d = Some x" "live g d" and u: "u = 0 \<or> g_nodes g u \<noteq> None"
    and l: "length (node_outs x) < unat (node_output_cap x)"
  shows "out_fits sp g d u i \<Longrightarrow>
      add_output sp d u i g = (Inr (), g\<lparr>g_nodes := (g_nodes g)(d \<mapsto> x\<lparr>node_outs := node_outs x @ [mk_output u i]\<rparr>)\<rparr>)"
    "\<not> out_fits sp g d u i \<Longrightarrow> \<exists>msg g'. add_output sp d u i g = (Inl msg, g')"
proof -
  have ok: "node_ok sp x" "4 dvd g_pos g" using g d(2) by (auto simp: nodes_ok_def)
  then have c: "4 * length (node_outs x) < ids_size (node_output_cap x)" using l ids_size_small [of "node_output_cap x"] by (simp add: node_ok_def)
  have e: "ensure_available_output_cap d 1 g = (Inr (), g)" using ensure_cap [OF d(2,1) ok] l by simp
  have self: "g_nodes g = (g_nodes g)(d \<mapsto> x\<lparr>node_output_cap := node_output_cap x\<rparr>)" using d(2) by (simp add: fun_eq_iff)
  note w = add_output_write [OF d(2,1,3) g u e self]
  show "out_fits sp g d u i \<Longrightarrow>
      add_output sp d u i g = (Inr (), g\<lparr>g_nodes := (g_nodes g)(d \<mapsto> x\<lparr>node_outs := node_outs x @ [mk_output u i]\<rparr>)\<rparr>)"
    using w(1) [of i] c by simp
  show "\<not> out_fits sp g d u i \<Longrightarrow> \<exists>msg g'. add_output sp d u i g = (Inl msg, g')" using w(2) [of i] by blast
qed

lemma add_output_full:
  assumes g: "nodes_ok sp g" and d: "d \<noteq> 0" "g_nodes g d = Some x" "live g d" and u: "u = 0 \<or> g_nodes g u \<noteq> None"
    and l: "\<not> length (node_outs x) < unat (node_output_cap x)"
  shows "out_fits sp g d u i \<Longrightarrow> out_room g d \<Longrightarrow> add_output sp d u i g =
      (Inr (), g\<lparr>g_waste := g_waste (out_grown d x g), g_pos := g_pos (out_grown d x g),
         g_nodes := (g_nodes g)(d \<mapsto> x\<lparr>node_output_cap := node_output_cap x * 2 + 2, node_outs := node_outs x @ [mk_output u i]\<rparr>)\<rparr>)"
    "\<not> (out_fits sp g d u i \<and> out_room g d) \<Longrightarrow> \<exists>msg g'. add_output sp d u i g = (Inl msg, g')"
proof -
  let ?c = "node_output_cap x"
  have ok: "node_ok sp x" "4 dvd g_pos g" using g d(2) by (auto simp: nodes_ok_def)
  then have c: "unat ?c < 2 ^ 14" "length (node_outs x) = unat ?c" using l by (auto simp: node_ok_def)
  note ens = ensure_cap [OF d(2,1) ok]
  have room: "out_room g d \<longleftrightarrow> unat ?c < 2 ^ 13 - 1 \<and> g_pos g + ids_size (?c * 2 + 2) \<le> g_reserved g"
    using d(2) c(2) by (auto simp: out_room_def)
  have e: "ensure_available_output_cap d 1 g = (Inr (), out_grown d x g)" if "g_pos g + ids_size (?c * 2 + 2) \<le> g_reserved g"
    using ens l that by (simp add: out_grown_def)
  have nodes: "g_nodes (out_grown d x g) = (g_nodes g)(d \<mapsto> x\<lparr>node_output_cap := ?c * 2 + 2\<rparr>)" by (simp add: out_grown_def)
  note w = add_output_write [OF d(2,1,3) g u e nodes]
  show "\<not> (out_fits sp g d u i \<and> out_room g d) \<Longrightarrow> \<exists>msg g'. add_output sp d u i g = (Inl msg, g')"
  proof (cases "g_pos g + ids_size (?c * 2 + 2) \<le> g_reserved g")
    case True
    assume "\<not> (out_fits sp g d u i \<and> out_room g d)"
    then have "\<not> (out_fits sp g d u i \<and> 4 * length (node_outs x) < ids_size (?c * 2 + 2))"
      using grown_cap(1) [OF c(1)] True room c(2) by auto
    then show ?thesis using w(2) [OF True] by blast
  next
    case False
    then show ?thesis using ens l d by (auto simp: add_output_def g_get_node_some [OF d(1,2)] live_def)
  qed
  assume a: "out_fits sp g d u i" "out_room g d"
  then have r: "unat ?c < 2 ^ 13 - 1" "g_pos g + ids_size (?c * 2 + 2) \<le> g_reserved g" using room by auto
  then have "4 * length (node_outs x) < ids_size (?c * 2 + 2)"
    using new_cap_small [OF c(1)] ids_size_small [of "?c * 2 + 2"] c(2) by simp
  then show "add_output sp d u i g = (Inr (), g\<lparr>g_waste := g_waste (out_grown d x g), g_pos := g_pos (out_grown d x g),
         g_nodes := (g_nodes g)(d \<mapsto> x\<lparr>node_output_cap := ?c * 2 + 2, node_outs := node_outs x @ [mk_output u i]\<rparr>)\<rparr>)"
    using w(1) [OF r(2)] a(1) by (simp add: out_grown_def)
qed

lemma add_output_cases:
  assumes g: "nodes_ok sp g" and d: "d \<noteq> 0" "g_nodes g d \<noteq> None" and u: "u = 0 \<or> g_nodes g u \<noteq> None"
  shows "live g d \<and> out_fits sp g d u i \<and> out_room g d \<Longrightarrow> \<exists>g'. add_output sp d u i g = (Inr (), g') \<and> out_added d (mk_output u i) g g'"
    "\<not> (live g d \<and> out_fits sp g d u i \<and> out_room g d) \<Longrightarrow> \<exists>msg g'. add_output sp d u i g = (Inl msg, g')"
proof -
  obtain x where x: "g_nodes g d = Some x" using d(2) by auto
  have ok: "node_ok sp x" "4 dvd g_pos g" using g x by (auto simp: nodes_ok_def)
  let ?c = "node_output_cap x" and ?l = "length (node_outs x)"
  have c: "unat ?c < 2 ^ 14" "?l \<le> unat ?c" using ok(1) by (auto simp: node_ok_def)
  {
    assume a: "live g d \<and> out_fits sp g d u i \<and> out_room g d"
    show "\<exists>g'. add_output sp d u i g = (Inr (), g') \<and> out_added d (mk_output u i) g g'"
    proof (cases "?l < unat ?c")
      case True
      have cap: "x\<lparr>node_outs := os, node_output_cap := ?c\<rparr> = x\<lparr>node_outs := os\<rparr>" for os by (cases x) simp
      show ?thesis
        using add_output_room(1) [OF g d(1) x _ u True] a True c(1) ok(2) x unfolding out_added_def by (auto simp: cap intro!: exI [of _ ?c])
    next
      case False
      then have r: "unat ?c < 2 ^ 13 - 1" "g_pos g + ids_size (?c * 2 + 2) \<le> g_reserved g" "?l = unat ?c"
        using a x c(2) by (auto simp: out_room_def)
      note n = new_cap_small [OF c(1)]
      then have sz: "ids_size (?c * 2 + 2) = 4 * (2 * unat ?c + 2)" using r(1) ids_size_small [of "?c * 2 + 2"] by simp
      show ?thesis
        using add_output_full(1) [OF g d(1) x _ u False] a r sz n ok(2) x unfolding out_added_def
        by (auto simp: out_grown_def intro!: exI [of _ "?c * 2 + 2"])
    qed
  }
  assume a: "\<not> (live g d \<and> out_fits sp g d u i \<and> out_room g d)"
  show "\<exists>msg g'. add_output sp d u i g = (Inl msg, g')"
  proof (cases "live g d")
    case False
    then show ?thesis using d(1) x by (auto simp: add_output_def g_get_node_some [OF d(1) x] live_def assertM_def fail_apply)
  next
    case live: True
    show ?thesis
    proof (cases "?l < unat ?c")
      case True
      then show ?thesis using add_output_room(2) [OF g d(1) x live u True, of i] a live x by (auto simp: out_room_def)
    next
      case False
      then show ?thesis using add_output_full(2) [OF g d(1) x live u False, of i] a live by blast
    qed
  qed
qed

text \<open>Of the user's id only 22 bits are kept: two users can be recorded as one.\<close>

lemma outputs_alias: "mk_output (n + 2 ^ 22) i = mk_output n i"
proof -
  have "take_bit 22 (n + 2 ^ 22 :: u32) = take_bit 22 n" by transfer (simp add: take_bit_eq_mod mod_mod_cancel)
  then show ?thesis by (simp add: mk_output_def)
qed

section \<open>Edges\<close>

lemma out_added_views:
  assumes "out_added d e g g'"
  shows "live g' = live g" "ins g' = ins g" "kind_of g' = kind_of g" "value_of g' = value_of g" "interned sp g' = interned sp g"
    "outs g' = (outs g)(d := outs g d @ [e])" "g_nodes g' n = None \<longleftrightarrow> g_nodes g n = None"
proof -
  obtain x c where x: "g_nodes g d = Some x" "g_nodes g' = (g_nodes g)(d \<mapsto> x\<lparr>node_outs := node_outs x @ [e], node_output_cap := c\<rparr>)"
    using assms by (auto simp: out_added_def)
  have "live g' n = live g n \<and> ins g' n = ins g n \<and> kind_of g' n = kind_of g n \<and> outs g' n = ((outs g)(d := outs g d @ [e])) n" for n
    by (cases "n = d") (simp_all add: x live_def ins_def kind_of_def outs_def)
  then show v: "live g' = live g" "ins g' = ins g" "kind_of g' = kind_of g" "outs g' = (outs g)(d := outs g d @ [e])"
    by (simp_all add: fun_eq_iff)
  then show "value_of g' = value_of g" "interned sp g' = interned sp g" by (simp_all add: value_of_def interned_def fun_eq_iff)
  show "g_nodes g' n = None \<longleftrightarrow> g_nodes g n = None" using x by simp
qed

lemma out_added_ok:
  assumes "out_added d e g g'"
  shows "table_ok sp X Y g \<Longrightarrow> table_ok sp X Y g'" "nodes_ok sp g \<Longrightarrow> nodes_ok sp g'"
proof -
  have t: "g_hashes g' = g_hashes g" "g_ids g' = g_ids g" "g_len g' = g_len g" using assms by (simp_all add: out_added_def)
  show "table_ok sp X Y g \<Longrightarrow> table_ok sp X Y g'" using table_views [OF out_added_views(1,4,5,7) [OF assms] t] by blast
  assume g: "nodes_ok sp g"
  obtain x c where x: "g_nodes g d = Some x" "g_nodes g' = (g_nodes g)(d \<mapsto> x\<lparr>node_outs := node_outs x @ [e], node_output_cap := c\<rparr>)"
    "length (node_outs x) < unat c" "unat c < 2 ^ 14" "g_pos g \<le> g_pos g'" "4 dvd g_pos g'"
    using assms by (auto simp: out_added_def)
  have "node_ok sp x \<Longrightarrow> node_ok sp (x\<lparr>node_outs := node_outs x @ [e], node_output_cap := c\<rparr>)" using x(3,4) by (simp add: node_ok_def)
  then show "nodes_ok sp g'" using g x(1,5,6) unfolding nodes_ok_def x(2) by (auto intro: less_le_trans)
qed

text \<open>An edge becomes complete by its output.\<close>

lemma add_edge:
  assumes g: "edges_match (insert (u, i) E) g" "(u, i) \<notin> E"
    and e: "live g u" "i < length (ins g u)" "i < 256" "ins g u ! i = d" "live g d"
    and g': "live g' = live g" "ins g' = ins g" "outs g' = (outs g)(d := outs g d @ [(u, i)])" "\<And>n. g_nodes g' n = None \<longleftrightarrow> g_nodes g n = None"
  shows "edges_match E g'"
proof -
  note ag = edges_matchD [OF g(1)]
  have out: "u \<noteq> 0 \<Longrightarrow> (u, i) \<notin> set (outs g x)" for x using ag(4) [of u i x] by blast
  have u0: "u \<noteq> 0" using ag(1) [of u] e(1) by (auto simp: live_def split: option.splits)
  show ?thesis
    unfolding edges_match_def g'(1,2)
  proof (intro conjI allI impI)
    fix n assume "\<not> live g n"
    then show "outs g' n = []" using ag(2) e(5) by (auto simp: g'(3))
  next
    fix x v j assume a: "(v, j) \<in> set (outs g' x)" "v \<noteq> 0"
    have "live g v \<and> j < length (ins g v) \<and> j < 256 \<and> ins g v ! j = x \<and> (v, j) \<notin> E \<and> count_list (outs g' x) (v, j) = 1"
    proof (cases "(v, j) = (u, i)")
      case True
      then have "x = d" using a(1) out [OF u0, of x] by (auto simp: g'(3) split: if_splits)
      moreover have "count_list (outs g d) (u, i) = 0" using out [OF u0] by (simp add: count_list_0_iff)
      ultimately show ?thesis using True e g(2) by (simp add: g'(3))
    next
      case False
      then have "(v, j) \<in> set (outs g x)" using a(1) by (auto simp: g'(3) split: if_splits)
      note ag(4) [OF this a(2)]
      then show ?thesis using False by (auto simp: g'(3))
    qed
    then show "live g v" "j < length (ins g v)" "j < 256" "ins g v ! j = x" "(v, j) \<notin> E" "count_list (outs g' x) (v, j) = 1" by blast+
  next
    fix n j assume "live g n" "j < length (ins g n)" "ins g n ! j \<noteq> 0" "(n, j) \<notin> E"
    then show "(n, j) \<in> set (outs g' (ins g n ! j))" using ag(3) [of n j] e(4) by (cases "(n, j) = (u, i)") (auto simp: g'(3))
  qed (use ag(1) g'(4) in auto)
qed

lemma add_nil_edge:
  assumes "edges_match (insert (u, i) E) g" "ins g u ! i = 0"
  shows "edges_match E g"
  unfolding edges_match_def
proof (intro conjI allI impI)
  note ag = edges_matchD [OF assms(1)]
  fix n j assume a: "live g n" "j < length (ins g n)" "ins g n ! j \<noteq> 0" "(n, j) \<notin> E"
  then have "(n, j) \<noteq> (u, i)" using assms(2) by auto
  then show "(n, j) \<in> set (outs g (ins g n ! j))" using ag(3) a by blast
qed (use edges_matchD [OF assms(1)] in blast)+

lemma add_pin:
  assumes g: "edges_match E g" "live g d"
    and g': "live g' = live g" "ins g' = ins g" "outs g' = (outs g)(d := outs g d @ [(0, k)])" "\<And>n. g_nodes g' n = None \<longleftrightarrow> g_nodes g n = None"
  shows "edges_match E g'"
proof -
  note ag = edges_matchD [OF g(1)]
  have c: "count_list (outs g' x) (v, j) = count_list (outs g x) (v, j)" "(v, j) \<in> set (outs g' x) \<longleftrightarrow> (v, j) \<in> set (outs g x)"
    if "v \<noteq> 0" for x v j using that by (auto simp: g'(3))
  show ?thesis
    unfolding edges_match_def g'(1,2)
  proof (intro conjI allI impI)
    fix n assume "\<not> live g n"
    then show "outs g' n = []" using ag(2) g(2) by (auto simp: g'(3))
  next
    fix x v j assume a: "(v, j) \<in> set (outs g' x)" "v \<noteq> 0"
    then have "(v, j) \<in> set (outs g x)" using c by simp
    note ag(4) [OF this a(2)]
    then show "live g v" "j < length (ins g v)" "j < 256" "ins g v ! j = x" "(v, j) \<notin> E" "count_list (outs g' x) (v, j) = 1"
      using c(1) [OF a(2)] by auto
  next
    fix n j assume a: "live g n" "j < length (ins g n)" "ins g n ! j \<noteq> 0" "(n, j) \<notin> E"
    then have "(n, j) \<in> set (outs g (ins g n ! j))" using ag(3) by blast
    then show "(n, j) \<in> set (outs g' (ins g n ! j))" by (auto simp: g'(3))
  qed (use ag(1) g'(4) in auto)
qed

section \<open>All outputs of a new node\<close>

text \<open>Nothing has changed but outputs, which were added and are no pins, and the use of the arena.\<close>

definition only_outs :: "graph \<Rightarrow> graph \<Rightarrow> bool" where
  "only_outs g g' \<longleftrightarrow> live g' = live g \<and> ins g' = ins g \<and> kind_of g' = kind_of g \<and> (\<forall>n. g_nodes g' n = None \<longleftrightarrow> g_nodes g n = None) \<and>
     (\<forall>n. \<exists>es. outs g' n = outs g n @ es \<and> (\<forall>i. (0, i) \<notin> set es)) \<and> g_dont_delete g' = g_dont_delete g \<and> g_dont_intern g' = g_dont_intern g \<and>
     g_reserved g' = g_reserved g"

lemma only_outs_refl: "only_outs g g"
  by (simp add: only_outs_def)

lemma only_outs_trans:
  assumes "only_outs g g1" "only_outs g1 g2"
  shows "only_outs g g2"
proof -
  have "\<exists>es. outs g2 n = outs g n @ es \<and> (\<forall>i. (0, i) \<notin> set es)" for n
  proof -
    obtain es es' where "outs g1 n = outs g n @ es" "outs g2 n = outs g1 n @ es'" "\<forall>i. (0, i) \<notin> set es" "\<forall>i. (0, i) \<notin> set es'"
      using assms unfolding only_outs_def by blast
    then show ?thesis by (intro exI [of _ "es @ es'"]) auto
  qed
  then show ?thesis using assms by (simp add: only_outs_def)
qed

lemma only_outs_views: "only_outs g g' \<Longrightarrow> value_of g' = value_of g \<and> interned sp g' = interned sp g"
  by (simp add: only_outs_def value_of_def interned_def fun_eq_iff)

lemma out_added_only: "out_added d e g g' \<Longrightarrow> fst e \<noteq> 0 \<Longrightarrow> only_outs g g'"
  using out_added_views [of d e g g'] unfolding only_outs_def by (auto simp: out_added_def)

text \<open>Enough for all the outputs of the node \<open>n\<close> to the nodes \<open>xs\<close>, from its input \<open>k\<close> on.\<close>

definition outs_can :: "Node_Spec \<Rightarrow> graph \<Rightarrow> u32 \<Rightarrow> nat \<Rightarrow> u32 list \<Rightarrow> bool" where
  "outs_can sp g n k xs \<longleftrightarrow>
     (\<forall>j < length xs. xs ! j \<noteq> 0 \<longrightarrow> live g (xs ! j) \<and> out_fits sp g (xs ! j) n (k + j) \<and> length (outs g (xs ! j)) + length xs < 2 ^ 13) \<and>
     g_pos g + length xs * 2 ^ 16 \<le> g_reserved g"

lemma out_room_enough:
  assumes "nodes_ok sp g" "live g d" "length (outs g d) < 2 ^ 13 - 1" "g_pos g + 2 ^ 16 \<le> g_reserved g"
  shows "out_room g d"
proof -
  obtain x where x: "g_nodes g d = Some x" using live_node [OF assms(2)] by blast
  then have "node_ok sp x" "outs g d = node_outs x" using assms(1) by (auto simp: nodes_ok_def outs_def)
  moreover have "ids_size (node_output_cap x * 2 + 2) < 2 ^ 16" unfolding ids_size_def using unsigned_less [of "(node_output_cap x * 2 + 2) * 4"] by simp
  ultimately show ?thesis using assms(3,4) x by (auto simp: out_room_def node_ok_def)
qed

lemma outs_can_step:
  assumes "outs_can sp g n k (x # xs)" "only_outs g g'" "g_pos g' \<le> g_pos g + 2 ^ 16" "\<And>d. length (outs g' d) \<le> Suc (length (outs g d))"
  shows "outs_can sp g' n (Suc k) xs"
  unfolding outs_can_def
proof (intro conjI allI impI)
  note o = assms(2) [unfolded only_outs_def]
  fix j assume j: "j < length xs" "xs ! j \<noteq> 0"
  then have a: "live g (xs ! j)" "out_fits sp g (xs ! j) n (Suc k + j)" "length (outs g (xs ! j)) + length (x # xs) < 2 ^ 13"
    using assms(1) unfolding outs_can_def by (auto dest: spec [of _ "Suc j"])
  then show "live g' (xs ! j)" "out_fits sp g' (xs ! j) n (Suc k + j)" using o by (simp_all add: out_fits_def)
  show "length (outs g' (xs ! j)) + length xs < 2 ^ 13" using a(3) assms(4) [of "xs ! j"] by simp
next
  show "g_pos g' + length xs * 2 ^ 16 \<le> g_reserved g'" using assms(1-3) by (simp add: outs_can_def only_outs_def)
qed

text \<open>One output of the new node, if there is room for it.\<close>

definition out_can :: "Node_Spec \<Rightarrow> graph \<Rightarrow> u32 \<Rightarrow> nat \<Rightarrow> u32 \<Rightarrow> bool" where
  "out_can sp g n k x \<longleftrightarrow> live g x \<and> out_fits sp g x n k \<and> length (outs g x) < 2 ^ 13 - 1 \<and> g_pos g + 2 ^ 16 \<le> g_reserved g"

lemma outs_can_first: "outs_can sp g n k (x # xs) \<Longrightarrow> x \<noteq> 0 \<Longrightarrow> out_can sp g n k x"
  unfolding outs_can_def out_can_def by (auto dest: spec [of _ 0])

lemma output_step:
  assumes g: "edges_match (insert (n, k) E) g" "(n, k) \<notin> E" "nodes_ok sp g" "table_ok sp X Y g"
    and n: "live g n" "ins g n ! k = x" "k < length (ins g n)"
  shows "(\<exists>g'. add_output sp x n k g = (Inr (), g') \<and> edges_match E g' \<and> nodes_ok sp g' \<and> table_ok sp X Y g' \<and> only_outs g g' \<and>
       g_pos g' \<le> g_pos g + 2 ^ 16 \<and> (\<forall>d. length (outs g' d) \<le> Suc (length (outs g d)))) \<or>
    (\<exists>e g'. add_output sp x n k g = (Inl e, g')) \<and> x \<noteq> 0 \<and> \<not> out_can sp g n k x"
proof -
  have dom: "g_nodes g n \<noteq> None" "unat n < 2 ^ 22" "n \<noteq> 0" using live_node [OF n(1)] edges_matchD(1) [OF g(1), of n] by auto
  consider "x = 0" | "x \<noteq> 0" "g_nodes g x = None" | "x \<noteq> 0" "g_nodes g x \<noteq> None" "live g x \<and> out_fits sp g x n k \<and> out_room g x"
    | "x \<noteq> 0" "g_nodes g x \<noteq> None" "\<not> (live g x \<and> out_fits sp g x n k \<and> out_room g x)" by blast
  then show ?thesis
  proof cases
    case 1
    then have "add_output sp x n k g = (Inr (), g)" by (simp add: add_output_def ret_apply)
    then show ?thesis using add_nil_edge [OF g(1)] n(2) 1 g(3,4) only_outs_refl by auto
  next
    case 2
    then have "\<exists>e. add_output sp x n k g = (Inl e, g)" by (simp add: add_output_def g_get_node_def)
    moreover have "\<not> out_can sp g n k x" using 2 by (auto simp: out_can_def live_def)
    ultimately show ?thesis using 2(1) by blast
  next
    case 3
    then obtain g1 where g1: "add_output sp x n k g = (Inr (), g1)" "out_added x (mk_output n k) g g1"
      using add_output_cases(1) [OF g(3) 3(1,2), of n k] dom(1) by blast
    have "mk_output n k = (n, k)" using mk_output_id dom(2) 3(3) by (simp add: out_fits_def)
    then have added: "out_added x (n, k) g g1" using g1(2) by simp
    note v = out_added_views [OF added]
    have "edges_match E g1" using 3(3) n v by (intro add_edge [OF g(1,2)]) (auto simp: out_fits_def)
    moreover have "g_pos g1 \<le> g_pos g + 2 ^ 16" "\<forall>d. length (outs g1 d) \<le> Suc (length (outs g d))" using added v(6) by (auto simp: out_added_def)
    ultimately show ?thesis using g1(1) out_added_ok [OF added] g(3,4) out_added_only [OF added] dom(3) by auto
  next
    case 4
    then obtain e g1 where "add_output sp x n k g = (Inl e, g1)" using add_output_cases(2) [OF g(3) 4(1,2), of n k] dom(1) by blast
    moreover have "\<not> out_can sp g n k x" using 4(3) out_room_enough [OF g(3)] by (auto simp: out_can_def)
    ultimately show ?thesis using 4(1) by blast
  qed
qed

lemma outputs_loop:
  assumes "edges_match {(n, j) | j. k \<le> j \<and> j < k + length xs} g" "live g n" "ins g n = ys @ xs" "length ys = k"
    "nodes_ok sp g" "table_ok sp {} Map.empty g"
  shows "(\<exists>g'. forM (enumerate k xs) (\<lambda>(i, inp). add_output sp inp n i) g = (Inr (), g') \<and>
       edges_match {} g' \<and> nodes_ok sp g' \<and> table_ok sp {} Map.empty g' \<and> only_outs g g') \<or>
    (\<exists>e g'. forM (enumerate k xs) (\<lambda>(i, inp). add_output sp inp n i) g = (Inl e, g')) \<and> \<not> outs_can sp g n k xs"
  using assms
proof (induction xs arbitrary: k g ys)
  case Nil
  have "{(n, j) | j. k \<le> j \<and> j < k + length ([] :: u32 list)} = {}" by auto
  then have "edges_match {} g" using Nil(1) by metis
  then show ?case using Nil(5,6) by (simp add: ret_apply only_outs_refl)
next
  case (Cons x xs)
  let ?E = "{(n, j) | j. Suc k \<le> j \<and> j < Suc k + length xs}"
  have E: "{(n, j) | j. k \<le> j \<and> j < k + length (x # xs)} = insert (n, k) ?E" "(n, k) \<notin> ?E" by (auto simp: le_less)
  have nk: "ins g n ! k = x" "k < length (ins g n)" using Cons.prems(3,4) by auto
  have g_match: "edges_match (insert (n, k) ?E) g" using Cons.prems(1) E(1) by simp
  consider g1 where "add_output sp x n k g = (Inr (), g1)" "edges_match ?E g1" "nodes_ok sp g1" "table_ok sp {} Map.empty g1" "only_outs g g1"
      "g_pos g1 \<le> g_pos g + 2 ^ 16" "\<And>d. length (outs g1 d) \<le> Suc (length (outs g d))"
    | e g1 where "add_output sp x n k g = (Inl e, g1)" "x \<noteq> 0" "\<not> out_can sp g n k x"
    using output_step [OF g_match E(2) Cons.prems(5,6,2) nk] by blast
  then show ?case
  proof cases
    case 1
    have v: "live g1 n" "ins g1 n = (ys @ [x]) @ xs" "length (ys @ [x]) = Suc k" using 1(5) Cons.prems(2-4) by (simp_all add: only_outs_def)
    have eq: "forM (enumerate k (x # xs)) (\<lambda>(i, inp). add_output sp inp n i) g = forM (enumerate (Suc k) xs) (\<lambda>(i, inp). add_output sp inp n i) g1"
      using 1(1) by simp
    from Cons.IH [OF 1(2) v 1(3,4)] show ?thesis
      unfolding eq using only_outs_trans [OF 1(5)] outs_can_step [OF _ 1(5-7)] by blast
  next
    case 2
    then show ?thesis using outs_can_first by auto
  qed
qed

end
