(* ===== verification/Graph_Make.thy ===== *)
theory Graph_Make
  imports Graph_Build
begin

text \<open>
  The creation of nodes: a node of a type that is interned is made once for each value. The contract is that of a
  table that hands out one name per key, stated as a locale and interpreted on \<^verbatim>\<open>add_raw_2\<close>.
\<close>

section \<open>Requests\<close>

definition raw_value :: "Node_Spec \<Rightarrow> u32 list \<Rightarrow> u32 list option \<Rightarrow> Add_Raw_Meta \<Rightarrow> nvalue" where
  "raw_value sp inps extra m = ((raw_type m, raw_meta sp m, node_extra (raw_node sp inps extra m)), inps)"

text \<open>What the fields of \<^verbatim>\<open>Add_Raw_Meta\<close> can hold.\<close>

definition raw_in_range :: "u32 list \<Rightarrow> Add_Raw_Meta \<Rightarrow> bool" where
  "raw_in_range inps m \<longleftrightarrow> length inps < 2 ^ 15 \<and> raw_extra_capacity m < 4"

text \<open>The type is known and its extra words are given, a request that can be met.\<close>

definition raw_accepted :: "Node_Spec \<Rightarrow> u32 list option \<Rightarrow> Add_Raw_Meta \<Rightarrow> bool" where
  "raw_accepted sp extra m \<longleftrightarrow>
     unat (raw_type m) < type_count sp \<and> node_extra_sizes sp (raw_type m) + of_nat (raw_extra_dwords m) < 16 \<and>
      (case extra of None \<Rightarrow> True | Some ws \<Rightarrow> raw_extra_len sp m \<le> length ws)"

definition raw_can :: "Node_Spec \<Rightarrow> graph \<Rightarrow> u32 list \<Rightarrow> u32 list option \<Rightarrow> Add_Raw_Meta \<Rightarrow> bool" where
  "raw_can sp g inps extra m \<longleftrightarrow>
     raw_accepted sp extra m \<and>
     (\<forall>j < length inps. inps ! j \<noteq> 0 \<longrightarrow> live g (inps ! j) \<and> j < 256 \<and> length (outs g (inps ! j)) + length inps < 2 ^ 13 \<and>
        (inherits_cfg sp (fst (kind_of g (inps ! j))) \<longrightarrow> raw_type m = type_Phi \<longrightarrow> j = 0)) \<and>
     g_pos g + compute_node_size sp (raw_type m) (raw_extra_dwords m) (g_has_dbg g) + 4 * (length inps + raw_extra_capacity m) +
       intern_room g + length inps * 2 ^ 16 \<le> g_reserved g"

text \<open>The state with a node in place at the position of the arena, which is now \<open>p\<close>; that of \<^verbatim>\<open>add_raw_2\<close> before it is interned.\<close>

definition node_placed :: "node \<Rightarrow> nat \<Rightarrow> graph \<Rightarrow> graph" where
  "node_placed x p g = g\<lparr>g_pos := p, g_nodes := (g_nodes g)(of_nat (g_pos g div 4) \<mapsto> x)\<rparr>"

definition placed :: "Node_Spec \<Rightarrow> u32 list \<Rightarrow> u32 list option \<Rightarrow> Add_Raw_Meta \<Rightarrow> graph \<Rightarrow> graph" where
  "placed sp inps extra m g =
     node_placed (raw_node sp inps extra m)
       (g_pos g + compute_node_size sp (raw_type m) (raw_extra_dwords m) (g_has_dbg g) + 4 * (length inps + raw_extra_capacity m)) g"

lemma add_raw_place:
  assumes p: "4 dvd g_pos g" and g1_def: "g1 = placed sp inps extra m g"
  shows "raw_accepted sp extra m \<and> g_pos g1 \<le> g_reserved g \<Longrightarrow>
      add_raw_2 sp inps extra m g = settle_node sp inps (of_nat (g_pos g div 4)) g1"
    "\<not> (raw_accepted sp extra m \<and> g_pos g1 \<le> g_reserved g) \<Longrightarrow>
      \<exists>e g'. add_raw_2 sp inps extra m g = (Inl e, g')"
proof -
  let ?s = "compute_node_size sp (raw_type m) (raw_extra_dwords m) (g_has_dbg g)"
  let ?n = "4 * (length inps + raw_extra_capacity m)"
  have s4: "4 dvd ?s" by (simp add: compute_node_size_def NODE_SIZE_def)
  let ?ga = "g\<lparr>g_pos := g_pos g + ?s\<rparr>"
  have p1: "4 dvd g_pos ?ga" using p s4 by simp
  note a1 = g_alloc_4 [OF p, of ?s] and a2 = g_alloc_4 [OF p1, of ?n]
  have pos: "g_pos g1 = g_pos g + ?s + ?n" by (simp add: g1_def placed_def node_placed_def)
  show "add_raw_2 sp inps extra m g = settle_node sp inps (of_nat (g_pos g div 4)) g1"
    if ok: "raw_accepted sp extra m \<and> g_pos g1 \<le> g_reserved g"
  proof -
    have "g_alloc ?s 4 g = (Inr (), ?ga)" "g_alloc ?n 4 ?ga = (Inr (), ?ga\<lparr>g_pos := g_pos g + ?s + ?n\<rparr>)"
      using ok a1 a2 unfolding pos by simp_all
    then show ?thesis using ok by (simp add: add_raw_2_def g1_def placed_def node_placed_def raw_accepted_def)
  qed
  show "\<exists>e g'. add_raw_2 sp inps extra m g = (Inl e, g')"
    if no: "\<not> (raw_accepted sp extra m \<and> g_pos g1 \<le> g_reserved g)"
    using no a1 a2 unfolding pos raw_accepted_def
    by (cases "unat (raw_type m) < type_count sp"; cases "g_pos g + ?s \<le> g_reserved g";
        cases "node_extra_sizes sp (raw_type m) + of_nat (raw_extra_dwords m) < 16";
        cases "case extra of None \<Rightarrow> True | Some ws \<Rightarrow> raw_extra_len sp m \<le> length ws")
      (simp_all add: add_raw_2_def fail_apply)
qed

lemma fresh_id:
  assumes "nodes_ok sp g" "g_pos g < 2 ^ 24"
  defines "n \<equiv> of_nat (g_pos g div 4) :: u32"
  shows "unat n = g_pos g div 4" "g_nodes g n = None" "n \<noteq> 0" "unat n < 2 ^ 22"
proof -
  have p: "4 dvd g_pos g" "0 < g_pos g" using assms(1) by (auto simp: nodes_ok_def)
  show u: "unat n = g_pos g div 4" using assms(2) unfolding n_def by (simp add: unat_of_nat)
  then have "4 * unat n = g_pos g" using p(1) by simp
  then have "\<not> 4 * unat n < g_pos g" "n \<noteq> 0" using p(2) by auto
  then show "g_nodes g n = None" "n \<noteq> 0" using assms(1) by (cases "g_nodes g n"; auto simp: nodes_ok_def)+
  show "unat n < 2 ^ 22" using u assms(2) by simp
qed

lemma node_placed_views:
  assumes "g1 = node_placed x p g" "n = of_nat (g_pos g div 4)" "g_nodes g n = None" "node_rtype x \<noteq> DEAD_NODE_KIND" "node_outs x = []"
  shows "live g1 = (live g)(n := True)" "ins g1 = (ins g)(n := node_inps x)" "outs g1 = outs g"
    "kind_of g1 = (kind_of g)(n := (node_rtype x, node_meta x, node_extra x))" "g_nodes g1 = (g_nodes g)(n \<mapsto> x)"
  using assms by (auto simp: node_placed_def live_def ins_def outs_def kind_of_def fun_eq_iff)

lemma node_placed_ok:
  assumes g: "graph_ok sp g" "g_pos g < 2 ^ 24" and x: "node_ok sp x" "node_rtype x \<noteq> DEAD_NODE_KIND" "node_outs x = []"
    and p: "4 dvd p" "g_pos g < p" and g1: "g1 = node_placed x p g" "n = of_nat (g_pos g div 4)"
  shows "edges_match {(n, j) | j. j < length (node_inps x)} g1" "table_ok sp {n} Map.empty g1" "nodes_ok sp g1"
proof -
  note ok = graph_okD [OF g(1)]
  note f = fresh_id [OF ok(3) g(2), folded g1(2)]
  note v = node_placed_views [OF g1 f(2) x(2,3)] and ag = edges_agreeD [OF ok(1)]
  have no_out: "(n, j) \<notin> set (outs g d)" "outs g n = []" "\<not> live g n" for j d
    using ag(4) [of n j d] f(2,3) by (auto simp: live_def outs_def)
  show "edges_match {(n, j) | j. j < length (node_inps x)} g1"
    unfolding edges_match_def v(3)
  proof (intro conjI allI impI)
    fix d u i assume a: "(u, i) \<in> set (outs g d)" "u \<noteq> 0"
    then have "u \<noteq> n" using no_out(1) by auto
    then show "live g1 u" "i < length (ins g1 u)" "i < 256" "ins g1 u ! i = d" "(u, i) \<notin> {(n, j) | j. j < length (node_inps x)}"
      "count_list (outs g d) (u, i) = 1"
      using ag(4) [OF a] by (auto simp: v)
  next
    fix y i assume "live g1 y" "i < length (ins g1 y)" "ins g1 y ! i \<noteq> 0" "(y, i) \<notin> {(n, j) | j. j < length (node_inps x)}"
    then show "(y, i) \<in> set (outs g (ins g1 y ! i))" using ag(3) [of y i] by (auto simp: v split: if_splits)
  next
    fix y assume "g_nodes g1 y \<noteq> None"
    then show "y \<noteq> 0" "unat y < 2 ^ 22" using ag(1) [of y] f(3,4) by (auto simp: v(5) split: if_splits)
  qed (use ag(2) no_out in \<open>auto simp: v(1) split: if_splits\<close>)
  show "table_ok sp {n} Map.empty g1"
    by (rule table_ok_other [OF ok(2) not_in_rows [OF ok(2)]])
      (use f(2) in \<open>simp_all add: v value_of_def\<close>, simp_all add: g1(1) node_placed_def)
  have "4 * unat n = g_pos g" "g_pos g1 = p" using f(1) ok(3) g1(1) by (simp_all add: nodes_ok_def node_placed_def)
  then show "nodes_ok sp g1" using ok(3) x(1) p unfolding nodes_ok_def v(5) by (auto intro: less_trans)
qed

lemma placed_views:
  assumes "g1 = placed sp inps extra m g" "n = of_nat (g_pos g div 4)" "g_nodes g n = None" "raw_type m \<noteq> DEAD_NODE_KIND"
  shows "live g1 = (live g)(n := True)" "ins g1 = (ins g)(n := inps)" "outs g1 = outs g"
    "value_of g1 = (value_of g)(n := raw_value sp inps extra m)" "kind_of g1 x = (if x = n then fst (raw_value sp inps extra m) else kind_of g x)"
proof -
  note v = node_placed_views [OF assms(1) [unfolded placed_def] assms(2,3), unfolded raw_node_def node.simps, OF assms(4) refl, folded raw_node_def]
  show "live g1 = (live g)(n := True)" "ins g1 = (ins g)(n := inps)" "outs g1 = outs g" by (fact v)+
  show "value_of g1 = (value_of g)(n := raw_value sp inps extra m)" "kind_of g1 x = (if x = n then fst (raw_value sp inps extra m) else kind_of g x)"
    by (simp_all add: v value_of_def fun_eq_iff raw_value_def raw_node_def)
qed

lemma placed_ok:
  assumes g: "graph_ok sp g" "g_pos g < 2 ^ 24" and m: "raw_in_range inps m" "raw_accepted sp extra m"
    and g1: "g1 = placed sp inps extra m g" "n = of_nat (g_pos g div 4)"
  shows "edges_match {(n, j) | j. j < length inps} g1" "table_ok sp {n} Map.empty g1" "nodes_ok sp g1"
proof -
  let ?x = "raw_node sp inps extra m"
  have cnt: "type_count sp < 2 ^ 16" "4 dvd g_pos g" using graph_okD(3) [OF g(1)] by (auto simp: nodes_ok_def)
  have ty: "unat (raw_type m) < type_count sp" using m(2) by (simp add: raw_accepted_def)
  have "unat (of_nat (length inps + raw_extra_capacity m) :: u16) = length inps + raw_extra_capacity m"
    using m(1) by (simp add: raw_in_range_def unat_of_nat del: of_nat_add)
  then have x: "node_ok sp ?x" "node_rtype ?x \<noteq> DEAD_NODE_KIND" "node_outs ?x = []" "node_inps ?x = inps"
    using ty cnt(1) by (auto simp: node_ok_def raw_node_def DEAD_NODE_KIND_def)
  have "4 dvd g_pos g1" "g_pos g < g_pos g1" "g1 = node_placed ?x (g_pos g1) g"
    using g1(1) cnt(2) by (auto simp: placed_def node_placed_def compute_node_size_def NODE_SIZE_def)
  note ok = node_placed_ok [OF g x(1-3) this g1(2)]
  show "edges_match {(n, j) | j. j < length inps} g1" "table_ok sp {n} Map.empty g1" "nodes_ok sp g1" using ok by (simp_all add: x(4))
qed

section \<open>The last steps\<close>

lemma init_counts_returns:
  assumes "g_nodes g n \<noteq> None"
  shows "\<exists>g'. init_counts n g = (Inr (), g') \<and> only_outs g g' \<and> outs g' = outs g \<and>
    (\<forall>E sp. edges_match E g' = edges_match E g \<and> (nodes_ok sp g \<longrightarrow> nodes_ok sp g') \<and> (table_ok sp {} Map.empty g \<longrightarrow> table_ok sp {} Map.empty g'))"
proof -
  obtain x where x: "g_nodes g n = Some x" using assms by auto
  let ?g = "g\<lparr>g_nodes := (g_nodes g)(n \<mapsto> x\<lparr>node_gvn := take_bit 26 (g_gvn g)\<rparr>), g_gvn := g_gvn g + 1\<rparr>"
  have run: "init_counts n g = (Inr (), ?g)" using x by (simp add: init_counts_def g_put_node_def)
  have "live ?g y = live g y \<and> ins ?g y = ins g y \<and> kind_of ?g y = kind_of g y \<and> outs ?g y = outs g y" for y
    using x by (cases "y = n") (simp_all add: live_def ins_def kind_of_def outs_def)
  then have v: "live ?g = live g" "ins ?g = ins g" "kind_of ?g = kind_of g" "outs ?g = outs g" by (simp_all add: fun_eq_iff)
  have dom: "g_nodes ?g y = None \<longleftrightarrow> g_nodes g y = None" for y using x by simp
  have only: "only_outs g ?g" unfolding only_outs_def v using dom by simp
  have "table_ok sp {} Map.empty ?g" if "table_ok sp {} Map.empty g" for sp
    using that table_views [OF v(1) _ _ dom, of sp] only_outs_views [OF only] by simp
  moreover have "nodes_ok sp ?g" if "nodes_ok sp g" for sp using that x unfolding nodes_ok_def by (auto simp: node_ok_def)
  moreover have "edges_match E ?g = edges_match E g" for E unfolding edges_match_def v dom ..
  ultimately show ?thesis using run only v(4) by blast
qed

lemma outs_can_mono:
  assumes "outs_can sp (g\<lparr>g_pos := p\<rparr>) n k xs" "g_nodes g' = g_nodes g" "g_reserved g' = g_reserved g" "g_pos g' \<le> p"
  shows "outs_can sp g' n k xs"
proof -
  have v: "live (g\<lparr>g_pos := p\<rparr>) = live g'" "outs (g\<lparr>g_pos := p\<rparr>) = outs g'" "kind_of (g\<lparr>g_pos := p\<rparr>) = kind_of g'"
    using same_nodes_views [of "g\<lparr>g_pos := p\<rparr>" g'] assms(2) by simp_all
  show ?thesis using assms(1,3,4) unfolding outs_can_def out_fits_def v by simp
qed

text \<open>The end of \<^verbatim>\<open>add_raw_2\<close>, once the new node \<open>n\<close> is interned: its inputs learn of it, or one of them refuses.\<close>

lemma settle_outputs:
  assumes g: "edges_match {(n, j) | j. j < length inps} g" "table_ok sp {} Map.empty g" "nodes_ok sp g" "\<not> g_dont_intern g" "\<not> g_dont_delete g"
    and n: "live g n" "ins g n = inps" and run: "intern sp n g0 = (Inr n, g)"
  shows "(\<exists>g'. settle_node sp inps n g0 = (Inr n, g') \<and> graph_ok sp g' \<and> only_outs g g') \<or>
    (\<exists>e g'. settle_node sp inps n g0 = (Inl e, g')) \<and> \<not> outs_can sp g n 0 inps"
proof -
  let ?loop = "forM (enumerate 0 inps) (\<lambda>(i, inp). add_output sp inp n i)"
  have "{(n, j) | j. 0 \<le> j \<and> j < 0 + length inps} = {(n, j) | j. j < length inps}" by simp
  then consider g3 where "?loop g = (Inr (), g3)" "edges_match {} g3" "nodes_ok sp g3" "table_ok sp {} Map.empty g3" "only_outs g g3"
    | e g3 where "?loop g = (Inl e, g3)" "\<not> outs_can sp g n 0 inps"
    using outputs_loop [of n 0 inps g "[]" sp] g(1-3) n by fastforce
  then show ?thesis
  proof cases
    case 1
    have "g_nodes g3 n \<noteq> None" using live_node [OF n(1)] 1(5) unfolding only_outs_def by force
    then obtain g4 where g4: "init_counts n g3 = (Inr (), g4)" "only_outs g3 g4" "edges_match {} g4" "nodes_ok sp g4" "table_ok sp {} Map.empty g4"
      using init_counts_returns [of g3 n] 1(2-4) by blast
    have "settle_node sp inps n g0 = (Inr n, g4)" using run 1(1) g4(1) by (simp add: settle_node_def ret_apply)
    moreover have only: "only_outs g g4" using only_outs_trans 1(5) g4(2) by blast
    moreover have "graph_ok sp g4" using only g4(3-5) g(4,5) by (simp add: graph_ok_def graph_inv_def edges_agree_def only_outs_def)
    ultimately show ?thesis by blast
  next
    case 2
    then show ?thesis using run by (simp add: settle_node_def)
  qed
qed

lemma settle_returns:
  assumes g: "edges_match {(n, j) | j. j < length inps} g" "table_ok sp {n} Map.empty g" "nodes_ok sp g" "\<not> g_dont_intern g" "\<not> g_dont_delete g"
    and n: "live g n" "ins g n = inps" and zero: "g_nodes g 0 = None"
  shows "(\<exists>m. settle_node sp inps n g = (Inr m, g\<lparr>g_pos := unat n * 4, g_nodes := (g_nodes g)(n := None)\<rparr>) \<and> m \<noteq> n \<and>
       m \<in> entries g \<and> value_of g m = value_of g n) \<or>
    (\<exists>g'. settle_node sp inps n g = (Inr n, g') \<and> graph_ok sp g' \<and> only_outs g g' \<and>
       (\<forall>m \<in> entries g. value_of g m = value_of g n \<longrightarrow> m = n)) \<or>
    (\<exists>e g'. settle_node sp inps n g = (Inl e, g')) \<and> \<not> outs_can sp (g\<lparr>g_pos := g_pos g + intern_room g\<rparr>) n 0 inps"
proof -
  consider m where "intern sp n g = (Inr m, g)" "m \<noteq> n" "m \<in> entries g" "value_of g m = value_of g n"
    | g2 where "intern sp n g = (Inr n, g2)" "same_graph g g2" "table_ok sp {} Map.empty g2" "g_pos g \<le> g_pos g2" "4 dvd g_pos g2"
      "g_pos g2 \<le> g_pos g + intern_room g" "\<forall>m \<in> entries g. value_of g m = value_of g n \<longrightarrow> m = n"
    | e g2 where "intern sp n g = (Inl e, g2)" "g_reserved g < g_pos g + intern_room g"
    using intern_returns [OF g(2-4) n(1) zero] unfolding Diff_cancel by blast
  then show ?thesis
  proof cases
    case 1
    then show ?thesis by (auto simp: settle_node_def)
  next
    case 3
    then have "\<not> outs_can sp (g\<lparr>g_pos := g_pos g + intern_room g\<rparr>) n 0 inps" by (auto simp: outs_can_def)
    then show ?thesis using 3(1) by (simp add: settle_node_def)
  next
    case 2
    have nodes: "g_nodes g2 = g_nodes g" using 2(2) by (simp add: same_graph_def)
    note v = same_nodes_views [OF nodes]
    have pre: "edges_match {(n, j) | j. j < length inps} g2" "nodes_ok sp g2" "\<not> g_dont_intern g2" "\<not> g_dont_delete g2" "live g2 n" "ins g2 n = inps"
      using g(1,4,5) n v(1,2,7) nodes_ok_mono [OF g(3) nodes 2(4,5)] 2(2) by (simp_all add: same_graph_def)
    have first: "only_outs g g2" using v 2(2) nodes by (simp add: only_outs_def same_graph_def)
    have can: "outs_can sp g2 n 0 inps" if "outs_can sp (g\<lparr>g_pos := g_pos g + intern_room g\<rparr>) n 0 inps"
      using outs_can_mono [OF that nodes _ 2(6)] 2(2) by (auto simp: same_graph_def)
    show ?thesis
      using settle_outputs [OF pre(1) 2(3) pre(2-6) 2(1)]
    proof
      assume "\<exists>g'. settle_node sp inps n g = (Inr n, g') \<and> graph_ok sp g' \<and> only_outs g2 g'"
      then show ?thesis using only_outs_trans first 2(7) by blast
    next
      assume "(\<exists>e g'. settle_node sp inps n g = (Inl e, g')) \<and> \<not> outs_can sp g2 n 0 inps"
      then show ?thesis using can by blast
    qed
  qed
qed

section \<open>Creation\<close>

text \<open>All but the node \<open>n\<close> have kept their values and their outputs, and may have more outputs, which are no pins.\<close>

definition rest_kept :: "u32 \<Rightarrow> graph \<Rightarrow> graph \<Rightarrow> bool" where
  "rest_kept n g g' \<longleftrightarrow> (\<forall>x. x \<noteq> n \<longrightarrow> live g' x = live g x \<and> value_of g' x = value_of g x) \<and>
     (\<forall>x. \<exists>es. outs g' x = outs g x @ es \<and> (\<forall>i. (0, i) \<notin> set es)) \<and> g_reserved g' = g_reserved g"

lemma raw_can_placed:
  assumes can: "raw_can sp g inps extra m" and g1: "g1 = placed sp inps extra m g" "n = of_nat (g_pos g div 4)"
    and n: "g_nodes g n = None" "raw_type m \<noteq> DEAD_NODE_KIND"
  shows "g_pos g1 \<le> g_reserved g" "outs_can sp (g1\<lparr>g_pos := g_pos g1 + intern_room g1\<rparr>) n 0 inps"
proof -
  have pos: "g_pos g1 + intern_room g1 + length inps * 2 ^ 16 \<le> g_reserved g" "g_reserved g1 = g_reserved g"
    using can g1(1) by (simp_all add: raw_can_def placed_def node_placed_def intern_room_def)
  then show "g_pos g1 \<le> g_reserved g" by linarith
  note v = placed_views [OF g1 n]
  let ?g = "g1\<lparr>g_pos := g_pos g1 + intern_room g1\<rparr>"
  have v': "live ?g = live g1" "outs ?g = outs g" "kind_of ?g = kind_of g1" using same_nodes_views [of ?g g1] v(3) by simp_all
  have "inps ! j \<noteq> 0 \<longrightarrow> live ?g (inps ! j) \<and> out_fits sp ?g (inps ! j) n (0 + j) \<and> length (outs ?g (inps ! j)) + length inps < 2 ^ 13"
    if j: "j < length inps" for j
  proof
    assume "inps ! j \<noteq> 0"
    then have a: "live g (inps ! j)" "j < 256" "length (outs g (inps ! j)) + length inps < 2 ^ 13"
      "inherits_cfg sp (fst (kind_of g (inps ! j))) \<longrightarrow> raw_type m = type_Phi \<longrightarrow> j = 0"
      using can j by (auto simp: raw_can_def)
    then have "inps ! j \<noteq> n" using n(1) by (auto simp: live_def)
    then show "live ?g (inps ! j) \<and> out_fits sp ?g (inps ! j) n (0 + j) \<and> length (outs ?g (inps ! j)) + length inps < 2 ^ 13"
      using a v(5) by (simp add: out_fits_def v' v(1) raw_value_def)
  qed
  then show "outs_can sp ?g n 0 inps" using pos by (auto simp: outs_can_def)
qed

lemma add_raw_returns:
  assumes g: "graph_ok sp g" "g_reserved g \<le> 2 ^ 24" and m: "raw_in_range inps m" and n_def: "n = of_nat (g_pos g div 4)"
  shows "(\<exists>x. add_raw_2 sp inps extra m g = (Inr x, g) \<and> interned sp g x \<and> value_of g x = raw_value sp inps extra m) \<or>
    (\<exists>g'. add_raw_2 sp inps extra m g = (Inr n, g') \<and> g_nodes g n = None \<and> graph_ok sp g' \<and> live g' n \<and>
       value_of g' n = raw_value sp inps extra m \<and> rest_kept n g g' \<and> (\<forall>x. interned sp g x \<longrightarrow> value_of g x \<noteq> raw_value sp inps extra m)) \<or>
    (\<exists>e g'. add_raw_2 sp inps extra m g = (Inl e, g')) \<and> \<not> raw_can sp g inps extra m"
proof (cases "raw_accepted sp extra m \<and> g_pos (placed sp inps extra m g) \<le> g_reserved g")
  case False
  have "4 dvd g_pos g" using graph_okD(3) [OF g(1)] by (simp add: nodes_ok_def)
  then have "\<exists>e g'. add_raw_2 sp inps extra m g = (Inl e, g')" by (rule add_raw_place(2) [OF _ refl False])
  moreover have "\<not> raw_can sp g inps extra m" using False by (auto simp: raw_can_def placed_def node_placed_def)
  ultimately show ?thesis by blast
next
  case True
  note ok = graph_okD [OF g(1)]
  let ?g1 = "placed sp inps extra m g" and ?v = "raw_value sp inps extra m"
  have p: "4 dvd g_pos g" "type_count sp < 2 ^ 16" using ok(3) by (auto simp: nodes_ok_def)
  have "g_pos g < g_pos ?g1" by (simp add: placed_def node_placed_def compute_node_size_def NODE_SIZE_def)
  then have small: "g_pos g < 2 ^ 24" using True g(2) by linarith
  note f = fresh_id [OF ok(3) small, folded n_def]
  have alive: "raw_type m \<noteq> DEAD_NODE_KIND" using True p(2) by (auto simp: raw_accepted_def DEAD_NODE_KIND_def)
  note v = placed_views [OF refl n_def f(2) alive, of sp inps extra] and pl = placed_ok [OF g(1) small m conjunct1 [OF True] refl n_def]
  have run: "add_raw_2 sp inps extra m g = settle_node sp inps n ?g1" using add_raw_place(1) [OF p(1) refl True] n_def by simp
  have flags: "\<not> g_dont_intern ?g1" "\<not> g_dont_delete ?g1" "g_nodes ?g1 0 = None"
    using ok(4,5) f(3) nil_no_node [OF ok(1)] n_def by (auto simp: placed_def node_placed_def)
  have old: "interned sp ?g1 x = interned sp g x" "value_of ?g1 x = value_of g x" "live ?g1 x = live g x" if "x \<noteq> n" for x
    using that v(1,4,5) by (auto simp: interned_def)
  have ent: "entries ?g1 = {x. interned sp ?g1 x} - {n}" using pl(2) by (simp add: table_ok_def rows_ok_def)
  have ni: "\<not> interned sp g n" using f(2) by (simp add: interned_def live_def)
  have undone: "?g1\<lparr>g_pos := unat n * 4, g_nodes := (g_nodes ?g1)(n := None)\<rparr> = g"
  proof -
    have "(g_nodes g)(n := None) = g_nodes g" "unat n * 4 = g_pos g" using f(1,2) p(1) by (auto simp: fun_eq_iff)
    then show ?thesis using n_def by (simp add: placed_def node_placed_def)
  qed
  from settle_returns [OF pl flags(1,2) _ _ flags(3)] v(1,2)
  consider x where "add_raw_2 sp inps extra m g = (Inr x, g)" "x \<noteq> n" "x \<in> entries ?g1" "value_of ?g1 x = ?v"
    | g' where "add_raw_2 sp inps extra m g = (Inr n, g')" "graph_ok sp g'" "only_outs ?g1 g'"
      "\<forall>x \<in> entries ?g1. value_of ?g1 x = ?v \<longrightarrow> x = n"
    | e g' where "add_raw_2 sp inps extra m g = (Inl e, g')" "\<not> outs_can sp (?g1\<lparr>g_pos := g_pos ?g1 + intern_room ?g1\<rparr>) n 0 inps"
    unfolding run undone v(4) by (auto simp: v)
  then show ?thesis
  proof cases
    case 1
    then show ?thesis using old [OF 1(2)] ent by auto
  next
    case 2
    have o: "live g' = live ?g1" "value_of g' = value_of ?g1" "\<And>x. \<exists>es. outs g' x = outs ?g1 x @ es \<and> (\<forall>i. (0, i) \<notin> set es)" "g_reserved g' = g_reserved ?g1"
      using 2(3) only_outs_views [OF 2(3)] by (simp_all add: only_outs_def)
    have "rest_kept n g g'" unfolding rest_kept_def using o old v(3) by (auto simp: placed_def node_placed_def)
    moreover have "value_of g x \<noteq> ?v" if "interned sp g x" for x using 2(4) old [of x] that ni unfolding ent by force
    ultimately show ?thesis using 2(1,2) f(2) o v by auto
  next
    case 3
    then show ?thesis using raw_can_placed(2) [OF _ refl n_def f(2) alive] by blast
  qed
qed

section \<open>One name per value\<close>

text \<open>A run of requests, each answered with a name.\<close>

primrec requests :: "('a \<Rightarrow> 's \<Rightarrow> 'n \<Rightarrow> 's \<Rightarrow> bool) \<Rightarrow> 'a list \<Rightarrow> 's \<Rightarrow> 'n list \<Rightarrow> 's \<Rightarrow> bool" where
  "requests makes [] s ns s' \<longleftrightarrow> ns = [] \<and> s' = s"
| "requests makes (a # as) s ns s' \<longleftrightarrow> (\<exists>n s1 ns'. makes a s n s1 \<and> requests makes as s1 ns' s' \<and> ns = n # ns')"

lemma requests_mapM:
  "mapM f as s = (Inr ns, s') \<Longrightarrow> requests (\<lambda>a s n s'. f a s = (Inr n, s')) as s ns s'"
proof (induction as arbitrary: s ns)
  case (Cons a as)
  then obtain n s1 ns1 where "f a s = (Inr n, s1)" "mapM f as s1 = (Inr ns1, s')" "ns = n # ns1"
    by (auto elim!: bindM_eq_InrE)
  then show ?case using Cons.IH by auto
qed simp

text \<open>A table that answers each request with the one name of its key.\<close>

locale naming =
  fixes ok :: "'s \<Rightarrow> bool" and wf :: "'a \<Rightarrow> bool" and key :: "'a \<Rightarrow> 'k" and named :: "'s \<Rightarrow> 'n \<Rightarrow> 'k option"
    and makes :: "'a \<Rightarrow> 's \<Rightarrow> 'n \<Rightarrow> 's \<Rightarrow> bool"
  assumes makes_ok: "ok s \<Longrightarrow> wf a \<Longrightarrow> makes a s n s' \<Longrightarrow> ok s'"
    and makes_named: "ok s \<Longrightarrow> wf a \<Longrightarrow> makes a s n s' \<Longrightarrow> named s' n = Some (key a)"
    and makes_keeps: "ok s \<Longrightarrow> wf a \<Longrightarrow> makes a s n s' \<Longrightarrow> named s x = Some k \<Longrightarrow> named s' x = Some k"
    and one_name: "ok s \<Longrightarrow> named s x = Some k \<Longrightarrow> named s y = Some k \<Longrightarrow> x = y"
begin

lemma requests_keep:
  "requests makes as s ns s' \<Longrightarrow> ok s \<Longrightarrow> \<forall>a \<in> set as. wf a \<Longrightarrow> named s x = Some k \<Longrightarrow> ok s' \<and> named s' x = Some k"
  by (induction as arbitrary: s ns) (auto dest: makes_ok makes_keeps)

lemma requests_named:
  "requests makes as s ns s' \<Longrightarrow> ok s \<Longrightarrow> \<forall>a \<in> set as. wf a \<Longrightarrow>
   ok s' \<and> length ns = length as \<and> (\<forall>i < length as. named s' (ns ! i) = Some (key (as ! i)))"
proof (induction as arbitrary: s ns)
  case (Cons a as)
  then obtain n s1 ns1 where r: "makes a s n s1" "requests makes as s1 ns1 s'" "ns = n # ns1" by auto
  have s1: "ok s1" "named s1 n = Some (key a)" using makes_ok makes_named r(1) Cons.prems(2,3) by auto
  show ?case
    using Cons.IH [OF r(2) s1(1)] requests_keep [OF r(2) s1(1) _ s1(2)] Cons.prems(3) r(3) by (auto simp: nth_Cons split: nat.splits)
qed simp

lemma names_are_keys:
  assumes "requests makes as s ns s'" "ok s" "\<forall>a \<in> set as. wf a" "i < length as" "j < length as"
  shows "ns ! i = ns ! j \<longleftrightarrow> key (as ! i) = key (as ! j)"
  using requests_named [OF assms(1-3)] assms(4,5) one_name by (metis option.inject)

end

definition naming_ok :: "Node_Spec \<Rightarrow> graph \<Rightarrow> bool" where
  "naming_ok sp g \<longleftrightarrow> graph_ok sp g \<and> g_reserved g \<le> 2 ^ 24"

definition request_ok :: "Node_Spec \<Rightarrow> u32 list \<times> u32 list option \<times> Add_Raw_Meta \<Rightarrow> bool" where
  "request_ok sp r = (case r of (inps, extra, m) \<Rightarrow> raw_in_range inps m \<and> flag_interned sp (raw_type m))"

definition request_value :: "Node_Spec \<Rightarrow> u32 list \<times> u32 list option \<times> Add_Raw_Meta \<Rightarrow> nvalue" where
  "request_value sp r = (case r of (inps, extra, m) \<Rightarrow> raw_value sp inps extra m)"

definition interned_value :: "Node_Spec \<Rightarrow> graph \<Rightarrow> u32 \<Rightarrow> nvalue option" where
  "interned_value sp g n = (if interned sp g n then Some (value_of g n) else None)"

definition add_request :: "Node_Spec \<Rightarrow> u32 list \<times> u32 list option \<times> Add_Raw_Meta \<Rightarrow> u32 gact" where
  "add_request sp r = (case r of (inps, extra, m) \<Rightarrow> add_raw_2 sp inps extra m)"

lemma interned_unique:
  assumes "graph_ok sp g" "interned sp g x" "interned sp g y" "value_of g x = value_of g y"
  shows "x = y"
proof -
  have r: "rows_ok sp {} Map.empty g" using graph_okD(2) [OF assms(1)] by (simp add: table_ok_def)
  have "x \<in> entries g" "y \<in> entries g" using assms(2,3) rows_okD(6) [OF r] by auto
  then show ?thesis using rows_okD(5) [OF r] assms(4) by (auto simp: inj_on_def)
qed

lemma rest_interned:
  assumes "rest_kept n g g'" "g_nodes g n = None" "interned sp g x"
  shows "interned sp g' x \<and> value_of g' x = value_of g x"
proof -
  have "x \<noteq> n" using assms(2,3) by (auto simp: interned_def live_def)
  then have "live g' x = live g x" "value_of g' x = value_of g x" using assms(1) by (auto simp: rest_kept_def)
  then show ?thesis using assms(3) by (simp add: interned_def value_of_def)
qed

lemma add_request_cases:
  assumes "naming_ok sp g" "request_ok sp r" "add_request sp r g = (Inr n, g')"
  shows "g' = g \<and> interned sp g n \<and> value_of g n = request_value sp r \<or>
    g_nodes g n = None \<and> graph_ok sp g' \<and> interned sp g' n \<and> value_of g' n = request_value sp r \<and> rest_kept n g g'"
proof -
  obtain inps extra m where r: "r = (inps, extra, m)" by (cases r) auto
  have "interned sp g' n" if "live g' n" "value_of g' n = raw_value sp inps extra m"
    using that assms(2) by (auto simp: interned_def value_of_def raw_value_def request_ok_def r)
  then show ?thesis
    using add_raw_returns [of sp g inps m _ extra, OF _ _ _ refl] assms
    by (auto simp: naming_ok_def request_ok_def add_request_def request_value_def r)
qed

interpretation gvn: naming "naming_ok sp" "request_ok sp" "request_value sp" "interned_value sp"
  "\<lambda>r g n g'. add_request sp r g = (Inr n, g')" for sp
proof (unfold_locales, goal_cases)
  case (1 g r n g')
  then show ?case using add_request_cases [OF 1] by (auto simp: naming_ok_def rest_kept_def)
next
  case (2 g r n g')
  then show ?case using add_request_cases [OF 2] by (auto simp: interned_value_def)
next
  case (3 g r n g' x k)
  then show ?case using add_request_cases [OF 3(1-3)] rest_interned [of n g g' sp x] by (auto simp: interned_value_def split: if_splits)
next
  case (4 g x k y)
  then show ?case using interned_unique [of sp g x y] by (auto simp: naming_ok_def interned_value_def split: if_splits)
qed

end
