(* ===== verification/Graph_Connect.thy ===== *)
theory Graph_Connect
  imports Graph_Make
begin

text \<open>
  Connections: \<^verbatim>\<open>add_input\<close> and \<^verbatim>\<open>connect\<close> append an input and the output it belongs to, and pins keep a node alive.
\<close>

section \<open>A new input\<close>

text \<open>A larger array of inputs.\<close>

definition inputs_grown :: "u32 \<Rightarrow> node \<Rightarrow> graph \<Rightarrow> graph" where
  "inputs_grown u x g = (if of_nat (length (node_inps x)) = node_input_cap x
     then g\<lparr>g_waste := g_waste g + int (ids_size (node_input_cap x)), g_pos := g_pos g + ids_size (node_input_cap x * 2 + 2),
       g_nodes := (g_nodes g)(u \<mapsto> x\<lparr>node_input_cap := node_input_cap x * 2 + 2\<rparr>)\<rparr>
     else g)"

lemma inputs_grown_facts:
  assumes g: "table_ok sp {} Map.empty g" "nodes_ok sp g" and x: "g_nodes g u = Some x" "length (node_inps x) < 256"
  defines "g1 \<equiv> inputs_grown u x g"
  shows "live g1 = live g" "ins g1 = ins g" "outs g1 = outs g" "kind_of g1 = kind_of g" "table_ok sp {} Map.empty g1" "nodes_ok sp g1"
    "\<exists>c. g_nodes g1 u = Some (x\<lparr>node_input_cap := c\<rparr>) \<and> length (node_inps x) < unat c"
    "\<And>n. g_nodes g1 n = None \<longleftrightarrow> g_nodes g n = None"
    "g_pos g \<le> g_pos g1" "g_pos g1 \<le> g_pos g + 2056" "g_reserved g1 = g_reserved g" "g_hashes g1 = g_hashes g"
    "g_dont_intern g1 = g_dont_intern g" "g_dont_delete g1 = g_dont_delete g"
proof -
  let ?c = "node_input_cap x" and ?l = "length (node_inps x)"
  have ok: "?l \<le> unat ?c" using g(2) x(1) by (auto simp: nodes_ok_def node_ok_def)
  have l: "unat (of_nat ?l :: u16) = ?l" using x(2) by (simp add: unat_of_nat)
  have full: "of_nat ?l = ?c \<Longrightarrow> unat (?c * 2 + 2) = 2 * ?l + 2 \<and> ids_size (?c * 2 + 2) = 4 * (2 * ?l + 2)"
  proof -
    assume "of_nat ?l = ?c"
    then have c: "unat ?c = ?l" using l by simp
    then have "unat (?c * 2 + 2) = 2 * ?l + 2" using new_cap_small [of ?c] x(2) by simp
    then show ?thesis using ids_size_small [of "?c * 2 + 2"] x(2) by simp
  qed
  have free: "of_nat ?l \<noteq> ?c \<Longrightarrow> ?l < unat ?c" using ok l by (metis le_neq_implies_less word_unat_eq_iff)
  obtain c where c: "g_nodes g1 = (g_nodes g)(u \<mapsto> x\<lparr>node_input_cap := c\<rparr>)" "?l < unat c"
  proof (cases "of_nat ?l = ?c")
    case True
    then show ?thesis using that [of "?c * 2 + 2"] full by (simp add: g1_def inputs_grown_def)
  next
    case False
    then show ?thesis using that [of ?c] free x(1) by (simp add: g1_def inputs_grown_def fun_upd_idem)
  qed
  have "live g1 n = live g n \<and> ins g1 n = ins g n \<and> outs g1 n = outs g n \<and> kind_of g1 n = kind_of g n" for n
    using x(1) by (cases "n = u") (simp_all add: c live_def ins_def outs_def kind_of_def)
  then show v: "live g1 = live g" "ins g1 = ins g" "outs g1 = outs g" "kind_of g1 = kind_of g" by (simp_all add: fun_eq_iff)
  show f: "g_hashes g1 = g_hashes g" "g_dont_intern g1 = g_dont_intern g" "g_dont_delete g1 = g_dont_delete g" "g_reserved g1 = g_reserved g"
    by (simp_all add: g1_def inputs_grown_def)
  have tab: "g_ids g1 = g_ids g" "g_len g1 = g_len g" by (simp_all add: g1_def inputs_grown_def)
  have v2: "value_of g1 = value_of g" "interned sp g1 = interned sp g" using v by (simp_all add: value_of_def interned_def fun_eq_iff)
  show p: "g_pos g \<le> g_pos g1" "g_pos g1 \<le> g_pos g + 2056" using full x(2) by (auto simp: g1_def inputs_grown_def)
  have p4: "4 dvd g_pos g1" using full g(2) by (auto simp: g1_def inputs_grown_def nodes_ok_def)
  show "\<exists>c. g_nodes g1 u = Some (x\<lparr>node_input_cap := c\<rparr>) \<and> ?l < unat c" using c by auto
  show dom: "\<And>n. g_nodes g1 n = None \<longleftrightarrow> g_nodes g n = None" using c(1) x(1) by simp
  show "table_ok sp {} Map.empty g1" using g(1) table_views [OF v(1) v2 dom f(1) tab] by blast
  show "nodes_ok sp g1"
    using g(2) x(1) c(2) p(1) p4 unfolding nodes_ok_def c(1) by (auto simp: node_ok_def intro: less_le_trans)
qed

text \<open>The state \<open>g'\<close> is \<open>g\<close> with the input \<open>d\<close> of \<open>u\<close>, and otherwise well-formed.\<close>

definition input_added :: "Node_Spec \<Rightarrow> u32 \<Rightarrow> u32 \<Rightarrow> graph \<Rightarrow> graph \<Rightarrow> bool" where
  "input_added sp u d g g' \<longleftrightarrow>
     live g' = live g \<and> ins g' = (ins g)(u := ins g u @ [d]) \<and> outs g' = outs g \<and> kind_of g' = kind_of g \<and>
     (\<forall>n. g_nodes g' n = None \<longleftrightarrow> g_nodes g n = None) \<and> table_ok sp {} Map.empty g' \<and> nodes_ok sp g' \<and>
     g_reserved g' = g_reserved g \<and> g_dont_intern g' = g_dont_intern g \<and> g_dont_delete g' = g_dont_delete g \<and>
     g_pos g' \<le> g_pos g + 2056 + intern_room g"

lemma grow_inputs_returns:
  assumes "nodes_ok sp g" "g_nodes g u = Some x" "length (node_inps x) < 256" "g_pos g + 2056 \<le> g_reserved g"
  shows "(if of_nat (length (node_inps x)) = node_input_cap x
      then bindM (modifyM (\<lambda>g. g\<lparr>g_waste := g_waste g + int (ids_size (node_input_cap x))\<rparr>)) (\<lambda>_.
           bindM (g_alloc (ids_size (node_input_cap x * 2 + 2)) 4) (\<lambda>_.
           bindM (requireM (4 * length (node_inps x) < ids_size (node_input_cap x * 2 + 2)) msg) (\<lambda>_.
           g_put_node u (node_input_cap_update (\<lambda>_. node_input_cap x * 2 + 2)))))
      else ret ()) g = (Inr (), inputs_grown u x g)"
proof (cases "of_nat (length (node_inps x)) = node_input_cap x")
  case True
  let ?c = "node_input_cap x"
  have "unat (of_nat (length (node_inps x)) :: u16) = length (node_inps x)" using assms(3) by (simp add: unat_of_nat)
  then have c: "unat ?c = length (node_inps x)" using True by simp
  then have s: "ids_size (?c * 2 + 2) = 4 * (2 * length (node_inps x) + 2)"
    using new_cap_small [of ?c] ids_size_small [of "?c * 2 + 2"] assms(3) by simp
  have p: "4 dvd g_pos (g\<lparr>g_waste := w\<rparr>)" for w using assms(1) by (simp add: nodes_ok_def)
  have "g_pos g + ids_size (?c * 2 + 2) \<le> g_reserved g" "4 * length (node_inps x) < ids_size (?c * 2 + 2)" using s assms(3,4) by simp_all
  then show ?thesis using True assms(2) g_alloc_4 [OF p] by (simp add: inputs_grown_def g_put_node_def)
qed (simp add: inputs_grown_def ret_apply)

lemma input_appended:
  assumes x: "g_nodes g u = Some x" "g_nodes g2 u = Some (x\<lparr>node_input_cap := c\<rparr>)" "length (node_inps x) < unat c"
    and v: "live g2 = live g" "ins g2 = ins g" "outs g2 = outs g" "kind_of g2 = kind_of g"
    and g2: "table_ok sp {u} Map.empty g2" "nodes_ok sp g2" and live: "live g u"
    and g3_def: "g3 = g2\<lparr>g_nodes := (g_nodes g2)(u \<mapsto> x\<lparr>node_input_cap := c, node_inps := node_inps x @ [d]\<rparr>)\<rparr>"
  shows "live g3 = live g" "ins g3 = (ins g)(u := ins g u @ [d])" "outs g3 = outs g" "kind_of g3 = kind_of g"
    "table_ok sp {u} Map.empty g3" "nodes_ok sp g3"
proof -
  have "live g3 n = live g n \<and> ins g3 n = ((ins g)(u := ins g u @ [d])) n \<and> outs g3 n = outs g n \<and> kind_of g3 n = kind_of g n" for n
  proof (cases "n = u")
    case True
    then show ?thesis using x(1) by (simp add: g3_def live_def ins_def outs_def kind_of_def)
  next
    case False
    then have "g_nodes g3 n = g_nodes g2 n" by (simp add: g3_def)
    then show ?thesis using node_eq_views [of g3 n g2] v False by simp
  qed
  then show v3: "live g3 = live g" "ins g3 = (ins g)(u := ins g u @ [d])" "outs g3 = outs g" "kind_of g3 = kind_of g"
    by (simp_all add: fun_eq_iff)
  show "table_ok sp {u} Map.empty g3"
    using table_ok_other [OF g2(1) not_in_rows [OF g2(1)], of u g3] v(1) live by (simp add: value_of_def v3 v) (simp add: g3_def)
  have "node_ok sp (x\<lparr>node_input_cap := c\<rparr>)" "4 * unat u < g_pos g2" using g2(2) x(2) by (auto simp: nodes_ok_def)
  then have "node_ok sp (x\<lparr>node_input_cap := c, node_inps := node_inps x @ [d]\<rparr>)" "4 * unat u < g_pos g2"
    using x(3) by (simp_all add: node_ok_def)
  then show "nodes_ok sp g3" using g2(2) unfolding nodes_ok_def by (auto simp: g3_def)
qed

lemma add_input_returns:
  assumes g: "graph_ok sp g" and u: "live g u" "length (ins g u) < 256"
    and new: "\<forall>m. interned sp g m \<longrightarrow> value_of g m \<noteq> (kind_of g u, ins g u @ [d])"
    and room: "g_pos g + 2056 + intern_room g \<le> g_reserved g"
  shows "\<exists>g'. add_input sp u d g = (Inr (length (ins g u)), g') \<and> input_added sp u d g g'"
proof -
  note ok = graph_okD [OF g] and zero = nil_no_node [OF graph_okD(1) [OF g]]
  obtain x where x: "g_nodes g u = Some x" using live_node [OF u(1)] by blast
  then have l: "ins g u = node_inps x" and u0: "u \<noteq> 0" using zero by (auto simp: ins_def)
  let ?g1 = "inputs_grown u x g"
  note f = inputs_grown_facts [OF ok(2,3) x u(2) [unfolded l]]
  obtain c where c: "g_nodes ?g1 u = Some (x\<lparr>node_input_cap := c\<rparr>)" "length (node_inps x) < unat c" using f(7) by blast
  have pre: "\<not> g_dont_intern ?g1" "live ?g1 u" "g_nodes ?g1 0 = None" using ok(5) u(1) zero f(1,8,13) by auto
  obtain g2 where g2: "unintern sp u 0 ?g1 = (Inr (), g2)" "same_graph ?g1 g2" "g_pos g2 = g_pos ?g1" "table_ok sp {u} Map.empty g2"
    "length (g_hashes g2) = length (g_hashes ?g1)"
    using unintern_returns [OF f(5,6) pre] by blast
  have n2: "g_nodes g2 = g_nodes ?g1" using g2(2) by (simp add: same_graph_def)
  note v2 = same_nodes_views [OF n2]
  define g3 where "g3 = g2\<lparr>g_nodes := (g_nodes g2)(u \<mapsto> x\<lparr>node_input_cap := c, node_inps := node_inps x @ [d]\<rparr>)\<rparr>"
  have n2u: "g_nodes g2 u = Some (x\<lparr>node_input_cap := c\<rparr>)" using n2 c(1) by simp
  have ok2: "nodes_ok sp g2" using f(6) n2 g2(3) by (simp add: nodes_ok_def)
  have views2: "live g2 = live g" "ins g2 = ins g" "outs g2 = outs g" "kind_of g2 = kind_of g" using v2(1-4) f(1-4) by simp_all
  note a = input_appended [OF x n2u c(2) views2 g2(4) ok2 u(1) g3_def]
  note v3 = a(1-4) and t3 = a(5) and nodes3 = a(6)
  have pos3: "g_pos g3 = g_pos ?g1" "g_hashes g3 = g_hashes g2" "g_reserved g3 = g_reserved g" "\<not> g_dont_intern g3" "g_dont_delete g3 = g_dont_delete g"
    using g2(2,3) f(11,13,14) ok(5) by (simp_all add: g3_def same_graph_def)
  note hl = g2(5)
  have room3: "\<not> g_reserved g3 < g_pos g3 + intern_room g3"
    using room pos3 f(10,12) hl by (simp add: intern_room_def)
  have dom3: "g_nodes g3 n = None \<longleftrightarrow> g_nodes g n = None" for n using f(8) [of n] n2 x by (simp add: g3_def)
  have live3: "live g3 u" "g_nodes g3 0 = None" using v3(1) u(1) dom3 zero by auto
  have no: "m = u" if "m \<in> entries g3" "value_of g3 m = value_of g3 u" for m
  proof (rule ccontr)
    assume "m \<noteq> u"
    moreover have "interned sp g3 m" using that(1) t3 by (simp add: table_ok_def rows_ok_def)
    ultimately have "interned sp g m" "value_of g m = (kind_of g u, ins g u @ [d])" using that by (auto simp: interned_def value_of_def v3)
    then show False using new by blast
  qed
  obtain g4 where g4: "intern sp u g3 = (Inr u, g4)" "same_graph g3 g4" "table_ok sp {} Map.empty g4" "g_pos g3 \<le> g_pos g4" "4 dvd g_pos g4"
    "g_pos g4 \<le> g_pos g3 + intern_room g3"
    using intern_returns [OF t3 nodes3 pos3(4) live3] no room3 unfolding Diff_cancel by blast
  have n4: "g_nodes g4 = g_nodes g3" using g4(2) by (simp add: same_graph_def)
  have "input_added sp u d g g4"
    unfolding input_added_def same_nodes_views(1-4) [OF n4] v3
    using n4 dom3 g4 nodes_ok_mono [OF nodes3 n4 g4(4,5)] pos3 f(10,12) hl ok(5) by (auto simp: same_graph_def intern_room_def)
  moreover have "add_input sp u d g = (Inr (length (ins g u)), g4)"
  proof -
    have get: "g_get_node u g2 = (Inr (x\<lparr>node_input_cap := c\<rparr>), g2)" using g_get_node_some [OF u0] c(1) n2 by simp
    have put: "g_put_node u (node_inps_update (\<lambda>inps. inps @ [d])) g2 = (Inr (), g3)"
      using c(1) n2 by (cases x) (simp add: g_put_node_def g3_def)
    have grow: "g_pos g + 2056 \<le> g_reserved g" using room by simp
    show ?thesis
      using u0 g_get_node_some [OF u0 x] grow_inputs_returns [OF ok(3) x u(2) [unfolded l] grow] g2(1) get put g4(1) c(2) l
      by (simp add: add_input_def Let_def ret_apply)
  qed
  ultimately show ?thesis by blast
qed

section \<open>Connections\<close>

lemma connect_edges:
  assumes g: "edges_match {} g" and u: "live g u" "i = length (ins g u)"
    and g': "live g' = live g" "ins g' = (ins g)(u := ins g u @ [d])" "outs g' = outs g" "\<And>n. g_nodes g' n = None \<longleftrightarrow> g_nodes g n = None"
  shows "edges_match {(u, i)} g'"
proof -
  note ag = edges_matchD [OF g]
  show ?thesis
    unfolding edges_match_def g'(1,3)
  proof (intro conjI allI impI)
    fix x v j assume a: "(v, j) \<in> set (outs g x)" "v \<noteq> 0"
    note b = ag(4) [OF a]
    then show "live g v" "j < length (ins g' v)" "j < 256" "ins g' v ! j = x" "(v, j) \<notin> {(u, i)}" "count_list (outs g x) (v, j) = 1"
      by (auto simp: g'(2) u(2) nth_append)
  next
    fix n j assume "live g n" "j < length (ins g' n)" "ins g' n ! j \<noteq> 0" "(n, j) \<notin> {(u, i)}"
    then show "(n, j) \<in> set (outs g (ins g' n ! j))" using ag(3) [of n j] by (auto simp: g'(2) u(2) nth_append less_Suc_eq split: if_splits)
  qed (use ag(1,2) g'(4) in auto)
qed

lemma connect_returns:
  assumes g: "graph_ok sp g" and u: "live g u" "length (ins g u) < 256" and d: "live g d" "length (outs g d) < 2 ^ 13 - 1"
    and new: "\<forall>m. interned sp g m \<longrightarrow> value_of g m \<noteq> (kind_of g u, ins g u @ [d])"
    and phi: "inherits_cfg sp (fst (kind_of g d)) \<longrightarrow> fst (kind_of g u) = type_Phi \<longrightarrow> ins g u = []"
    and room: "g_pos g + 2056 + intern_room g + 2 ^ 16 \<le> g_reserved g"
  shows "\<exists>g'. g_connect sp u d g = (Inr (length (ins g u)), g') \<and> graph_ok sp g' \<and>
    live g' = live g \<and> kind_of g' = kind_of g \<and> ins g' = (ins g)(u := ins g u @ [d]) \<and>
    outs g' = (outs g)(d := outs g d @ [(u, length (ins g u))]) \<and> g_reserved g' = g_reserved g"
proof -
  let ?i = "length (ins g u)"
  note ok = graph_okD [OF g]
  obtain g1 where g1: "add_input sp u d g = (Inr ?i, g1)" "input_added sp u d g g1"
    using add_input_returns [OF g u new] room by auto
  note a = g1(2) [unfolded input_added_def]
  have v: "live g1 = live g" "ins g1 = (ins g)(u := ins g u @ [d])" "outs g1 = outs g" "kind_of g1 = kind_of g" "nodes_ok sp g1"
    "\<And>n. g_nodes g1 n = None \<longleftrightarrow> g_nodes g n = None" "g_pos g1 + 2 ^ 16 \<le> g_reserved g1" "table_ok sp {} Map.empty g1"
    "\<not> g_dont_delete g1" "\<not> g_dont_intern g1"
    using a room ok(4,5) by auto
  have dn: "d \<noteq> 0" "g_nodes g1 d \<noteq> None" "g_nodes g1 u \<noteq> None" "unat u < 2 ^ 22"
    using graph_ok_domain [OF g d(1)] graph_ok_domain [OF g u(1)] v(6) by auto
  have "out_room g1 d" using d v by (intro out_room_enough [OF v(5)]) auto
  moreover have "out_fits sp g1 d u ?i" using u(2) phi v(4) by (auto simp: out_fits_def)
  ultimately obtain g2 where g2: "add_output sp d u ?i g1 = (Inr (), g2)" "out_added d (mk_output u ?i) g1 g2"
    using add_output_cases(1) [OF v(5) dn(1,2), of u ?i] dn(3) d(1) v(1) by auto
  have added: "out_added d (u, ?i) g1 g2" using g2(2) mk_output_id [OF dn(4) u(2)] by simp
  note w = out_added_views [OF added]
  have m1: "edges_match {(u, ?i)} g1" using ok(1) v u(1) by (intro connect_edges [of g]) (auto simp: edges_agree_def)
  have "edges_match {} g2" by (rule add_edge [OF m1 _ _ _ u(2) _ _ w(1,2,6,7)]) (use u(1) d(1) v(1,2) in auto)
  then have "graph_ok sp g2"
    using out_added_ok [OF added] v(5,8-10) added by (auto simp: graph_ok_def graph_inv_def edges_agree_def out_added_def)
  moreover have "g_connect sp u d g = (Inr ?i, g2)" using g1(1) g2(1) by (simp add: g_connect_def ret_apply)
  moreover have "g_reserved g2 = g_reserved g" using added a by (simp add: out_added_def)
  ultimately show ?thesis using w(1-3,6) v(1-4) by auto
qed

section \<open>Pins\<close>

lemma pin_returns:
  assumes g: "graph_ok sp g" and d: "live g d" "length (outs g d) < 2 ^ 13 - 1" and room: "g_pos g + 2 ^ 16 \<le> g_reserved g"
  shows "\<exists>g'. g_pin sp d g = (Inr (), g') \<and> graph_ok sp g' \<and> live g' = live g \<and> value_of g' = value_of g \<and>
    outs g' = (outs g)(d := outs g d @ [(0, 0)]) \<and> g_reserved g' = g_reserved g"
proof -
  note ok = graph_okD [OF g]
  have dn: "d \<noteq> 0" "g_nodes g d \<noteq> None" using graph_ok_domain [OF g d(1)] by auto
  have "out_room g d" by (rule out_room_enough [OF ok(3) d room])
  then obtain g2 where g2: "add_output sp d 0 0 g = (Inr (), g2)" "out_added d (mk_output 0 0) g g2"
    using add_output_cases(1) [OF ok(3) dn, of 0 0] d(1) by (auto simp: out_fits_def)
  have added: "out_added d (0, 0) g g2" using g2(2) by (simp add: mk_output_def)
  note w = out_added_views [OF added]
  have "edges_match {} g" using ok(1) by (simp add: edges_agree_def)
  then have "edges_match {} g2" by (rule add_pin [OF _ d(1) w(1,2,6,7)])
  then have "graph_ok sp g2"
    using out_added_ok [OF added] ok added by (auto simp: graph_ok_def graph_inv_def edges_agree_def out_added_def)
  then show ?thesis using g2(1) w(1,4,6) added by (auto simp: g_pin_def out_added_def)
qed

end
