(* ===== verification/Graph_Replace.thy ===== *)
theory Graph_Replace
  imports Graph_Connect
begin

text \<open>
  The replacement of an input. Between its steps the node stands in the table of the interner under a value it no longer has;
  what is deleted meanwhile may miss its row there. At the end the graph is well-formed again.
\<close>

section \<open>Writes to inputs\<close>

definition with_input :: "u32 \<Rightarrow> nat \<Rightarrow> u32 \<Rightarrow> graph \<Rightarrow> graph" where
  "with_input u i v g = g\<lparr>g_nodes := (g_nodes g)(u := map_option (node_inps_update (\<lambda>inps. inps[i := v])) (g_nodes g u))\<rparr>"

lemma put_input_returns: "put_input u i v g = (Inr (), with_input u i v g)"
  by (simp add: put_input_def g_put_node_def with_input_def)

lemma with_input_views [simp]:
  "live (with_input u i v g) = live g" "outs (with_input u i v g) = outs g" "kind_of (with_input u i v g) = kind_of g"
  "ins (with_input u i v g) = (ins g)(u := (ins g u)[i := v])" "interned sp (with_input u i v g) = interned sp g"
  "g_nodes (with_input u i v g) n = None \<longleftrightarrow> g_nodes g n = None"
  "g_pos (with_input u i v g) = g_pos g" "g_reserved (with_input u i v g) = g_reserved g"
  "g_dont_delete (with_input u i v g) = g_dont_delete g" "g_dont_intern (with_input u i v g) = g_dont_intern g"
  "g_hashes (with_input u i v g) = g_hashes g" "g_ids (with_input u i v g) = g_ids g" "g_len (with_input u i v g) = g_len g"
  by (auto simp: with_input_def live_def ins_def outs_def kind_of_def interned_def fun_eq_iff split: option.splits)

lemma with_input_other: "m \<noteq> u \<Longrightarrow> value_of (with_input u i v g) m = value_of g m"
  by (simp add: value_of_def)

lemma with_input_nodes_ok: "nodes_ok sp g \<Longrightarrow> nodes_ok sp (with_input u i v g)"
  unfolding nodes_ok_def with_input_def node_ok_def by (auto split: option.splits)

lemma with_input_same: "ins g u ! i = v \<Longrightarrow> g_nodes (with_input u i v g) = g_nodes g"
  by (auto simp: with_input_def ins_def fun_eq_iff list_update_same_conv option.expand split: option.splits)

section \<open>Edges by their counts\<close>

text \<open>A node stands once among the outputs of each of its inputs, and nowhere else.\<close>

definition edge_at :: "graph \<Rightarrow> u32 \<Rightarrow> nat \<Rightarrow> u32 \<Rightarrow> bool" where
  "edge_at g n i d \<longleftrightarrow> d \<noteq> 0 \<and> live g n \<and> i < length (ins g n) \<and> ins g n ! i = d"

lemma edges_counted:
  assumes "edges_match {} g" "n \<noteq> 0"
  shows "count_list (outs g d) (n, i) = (if edge_at g n i d then 1 else 0)"
proof (cases "edge_at g n i d")
  case True
  then have "(n, i) \<in> set (outs g d)" using edges_matchD(3) [OF assms(1), of n i] by (simp add: edge_at_def)
  then show ?thesis using True edges_matchD(4) [OF assms(1) _ assms(2)] by simp
next
  case False
  have "g_nodes g 0 = None" using edges_matchD(1) [OF assms(1), of 0] by blast
  then have "(n, i) \<notin> set (outs g d)" using False edges_matchD(4) [OF assms(1) _ assms(2), of i d] by (auto simp: edge_at_def outs_def)
  then show ?thesis using False by (simp add: count_list_0_iff)
qed

lemma edge_bound: "edges_match {} g \<Longrightarrow> edge_at g n i d \<Longrightarrow> i < 256 \<and> live g d"
  using edges_matchD(1) [of "{}" g n] edges_matchD(2) [of "{}" g d] edges_matchD(3) [of "{}" g n i] edges_matchD(4) [of "{}" g n i d] live_node [of g n]
  by (fastforce simp: edge_at_def)

lemma edges_by_counts:
  assumes dom: "\<And>n. g_nodes g n \<noteq> None \<Longrightarrow> n \<noteq> 0 \<and> unat n < 2 ^ 22" and dead: "\<And>n. \<not> live g n \<Longrightarrow> outs g n = []"
    and small: "\<And>n i d. edge_at g n i d \<Longrightarrow> i < 256"
    and cnt: "\<And>n i d. n \<noteq> 0 \<Longrightarrow> count_list (outs g d) (n, i) = (if edge_at g n i d then 1 else 0)"
  shows "edges_match {} g"
  unfolding edges_match_def
proof (intro conjI allI impI)
  fix d u i assume "(u, i) \<in> set (outs g d)" "u \<noteq> 0"
  moreover from this have e: "edge_at g u i d" using cnt [of u d i] by (auto simp: in_set_count split: if_splits)
  ultimately show "live g u" "i < length (ins g u)" "i < 256" "ins g u ! i = d" "(u, i) \<notin> {}" "count_list (outs g d) (u, i) = 1"
    using small [OF e] cnt [of u d i] by (auto simp: edge_at_def)
next
  fix n i assume a: "live g n" "i < length (ins g n)" "ins g n ! i \<noteq> 0"
  then have "n \<noteq> 0" using dom [of n] live_node [of g n] by auto
  then show "(n, i) \<in> set (outs g (ins g n ! i))" using cnt [of n "ins g n ! i" i] a by (simp add: edge_at_def in_set_count)
qed (use dom dead in auto)

text \<open>The output \<open>(u, i)\<close> has moved from \<open>p\<close> to \<open>v\<close>; a nil node has no outputs.\<close>

lemma move_edge:
  assumes g: "edges_match {} g" and u: "live g u" "i < length (ins g u)" "i < 256" "ins g u ! i = p" and v: "v = 0 \<or> live g v" "p \<noteq> v"
    and g': "live g' = live g" "ins g' = (ins g)(u := (ins g u)[i := v])" "\<And>n. g_nodes g' n = None \<longleftrightarrow> g_nodes g n = None"
    and cnt: "\<And>x e. count_list (outs g' x) e =
      (if e \<noteq> (u, i) then count_list (outs g x) e else if x = v \<and> v \<noteq> 0 then 1 else 0)"
  shows "edges_match {} g'"
proof (rule edges_by_counts)
  have edge: "edge_at g' n j d \<longleftrightarrow> (if (n, j) \<noteq> (u, i) then edge_at g n j d else d = v \<and> v \<noteq> 0)" for n j d
    using u(1,2) by (auto simp: edge_at_def g'(1,2) nth_list_update)
  then show "j < 256" if "edge_at g' n j d" for n j d using that edge_bound [OF g, of n j d] u(3) by (auto split: if_splits)
  show "count_list (outs g' d) (n, j) = (if edge_at g' n j d then 1 else 0)" if "n \<noteq> 0" for n j d
    using cnt [of d "(n, j)"] edges_counted [OF g that] unfolding edge by auto
  fix n assume n: "\<not> live g' n"
  then have "outs g n = []" "n \<noteq> v \<or> v = 0" using edges_matchD(2) [OF g] v(1) g'(1) by auto
  then have "e \<notin> set (outs g' n)" for e using cnt [of n e] by (auto simp: in_set_count)
  then show "outs g' n = []" by (cases "outs g' n") auto
qed (use edges_matchD(1) [OF g] g'(3) in auto)

section \<open>Before the deletion\<close>

text \<open>The new output has been added; the nil node takes none.\<close>

definition added :: "u32 \<Rightarrow> u32 \<times> nat \<Rightarrow> graph \<Rightarrow> graph \<Rightarrow> bool" where
  "added v e g g1 \<longleftrightarrow> v = 0 \<and> g1 = g \<or> v \<noteq> 0 \<and> out_added v e g g1"

lemma added_facts:
  assumes "added v e g g1"
  shows "live g1 = live g" "ins g1 = ins g" "kind_of g1 = kind_of g" "value_of g1 = value_of g" "interned sp g1 = interned sp g"
    "outs g1 x = (if x = v \<and> v \<noteq> 0 then outs g x @ [e] else outs g x)" "g_nodes g1 n = None \<longleftrightarrow> g_nodes g n = None"
    "table_ok sp X Y g \<Longrightarrow> table_ok sp X Y g1" "nodes_ok sp g \<Longrightarrow> nodes_ok sp g1" "edge_count g1 \<le> Suc (edge_count g)"
    "g_hashes g1 = g_hashes g" "g_reserved g1 = g_reserved g" "g_dont_delete g1 = g_dont_delete g" "g_dont_intern g1 = g_dont_intern g"
    "g_pos g1 \<le> g_pos g + 2 ^ 16"
proof -
  have "edge_count g1 = Suc (edge_count g)" if "v \<noteq> 0"
    using edge_count_upd [OF out_added_views(6) [of v e g g1]] assms that by (simp add: added_def)
  then show "edge_count g1 \<le> Suc (edge_count g)" using assms by (auto simp: added_def)
  show "g_hashes g1 = g_hashes g" "g_reserved g1 = g_reserved g" "g_dont_delete g1 = g_dont_delete g" "g_dont_intern g1 = g_dont_intern g"
    "g_pos g1 \<le> g_pos g + 2 ^ 16" using assms by (auto simp: added_def out_added_def)
qed (use assms out_added_views [of v e g g1] out_added_ok [of v e g g1] in \<open>auto simp: added_def\<close>)

text \<open>The previous output has been taken away; the nil node has none.\<close>

definition removed :: "u32 \<Rightarrow> u32 \<times> nat \<Rightarrow> graph \<Rightarrow> graph \<Rightarrow> bool" where
  "removed p e g g' \<longleftrightarrow> p = 0 \<and> g' = g \<or>
     p \<noteq> 0 \<and> (\<exists>k. linear_search (outs g p) e = Some k \<and> g' = with_outs p (swap_remove (outs g p) k) g)"

lemma removed_facts:
  assumes "removed p e g g'"
  shows "live g' = live g" "ins g' = ins g" "kind_of g' = kind_of g" "value_of g' = value_of g" "interned sp g' = interned sp g"
    "count_list (outs g' x) y = count_list (outs g x) y - (if x = p \<and> p \<noteq> 0 \<and> y = e then 1 else 0)" "g_nodes g' n = None \<longleftrightarrow> g_nodes g n = None"
    "table_ok sp X Y g' = table_ok sp X Y g" "nodes_ok sp g \<Longrightarrow> nodes_ok sp g'" "edge_count g' \<le> edge_count g"
    "g_hashes g' = g_hashes g" "g_reserved g' = g_reserved g" "g_dont_delete g' = g_dont_delete g" "g_dont_intern g' = g_dont_intern g"
    "g_pos g' = g_pos g"
proof -
  show "count_list (outs g' x) y = count_list (outs g x) y - (if x = p \<and> p \<noteq> 0 \<and> y = e then 1 else 0)"
  proof (cases "p = 0")
    case False
    then obtain k where k: "linear_search (outs g p) e = Some k" "g' = with_outs p (swap_remove (outs g p) k) g"
      using assms by (auto simp: removed_def)
    have "outs g p \<noteq> []" using linear_search_Some [OF k(1)] by auto
    then have "g_nodes g p \<noteq> None" by (auto simp: outs_def split: option.splits)
    then show ?thesis using swap_remove_facts(1) [OF k(1), of y] k(2) False by (cases "x = p") auto
  qed (use assms in \<open>simp add: removed_def\<close>)
  have len: "length (outs g' x) \<le> length (outs g x)" for x using assms swap_remove_length [of "outs g p"] by (auto simp: removed_def)
  show "edge_count g' \<le> edge_count g" by (rule edge_count_less [OF len])
  show "nodes_ok sp g \<Longrightarrow> nodes_ok sp g'" using assms nodes_ok_with_outs [OF _ swap_remove_length] by (auto simp: removed_def)
qed (use assms in \<open>auto simp: removed_def\<close>)

lemma moved_inv:
  assumes g: "graph_ok sp g" and u: "live g u" "i < length (ins g u)" "i < 256" "ins g u ! i = p" "p \<noteq> v" and v: "v = 0 \<or> live g v"
    and g1: "added v (u, i) g g1" and g3: "removed p (u, i) (with_input u i v g1) g3"
  shows "graph_inv sp {} {} [u \<mapsto> value_of g u] g3"
    "count_list (outs g3 x) e = (if e \<noteq> (u, i) then count_list (outs g x) e else if x = v \<and> v \<noteq> 0 then 1 else 0)"
proof -
  note ok = graph_okD [OF g] and a = added_facts [OF g1] and r = removed_facts [OF g3]
  have m: "edges_match {} g" using ok(1) by (simp add: edges_agree_def)
  note ag = edges_matchD [OF m]
  have u0: "u \<noteq> 0" using graph_ok_domain [OF g u(1)] by simp
  have old: "count_list (outs g x) (u, i) = (if x = p \<and> p \<noteq> 0 then 1 else 0)" for x
    using edges_counted [OF m u0, of x i] u(1,2,4) by (auto simp: edge_at_def)
  have cnt: "count_list (outs g3 x) e = (if e \<noteq> (u, i) then count_list (outs g x) e else if x = v \<and> v \<noteq> 0 then 1 else 0)" for x e
    using old [of x] u(5) by (cases "e = (u, i)") (auto simp: r(6) a(6))
  then show "count_list (outs g3 x) e = (if e \<noteq> (u, i) then count_list (outs g x) e else if x = v \<and> v \<noteq> 0 then 1 else 0)" .
  have view: "live g3 = live g" "ins g3 = (ins g)(u := (ins g u)[i := v])" "kind_of g3 = kind_of g" "interned sp g3 = interned sp g"
    using r(1-3,5) a(1-3,5) by simp_all
  have "edges_match {} g3" by (rule move_edge [OF m u(1-4) v u(5) view(1,2) _ cnt]) (simp add: r(7) a(7))
  moreover have "table_ok sp {} [u \<mapsto> value_of g u] (with_input u i v g1)"
    by (rule table_ok_frame [OF a(8) [OF ok(2)]])
      (use a(8) [OF ok(2)] in \<open>auto simp: registered_def with_input_other a(4) table_ok_def rows_ok_def\<close>)
  moreover have "nodes_ok sp g3" by (rule r(9) [OF with_input_nodes_ok [OF a(9) [OF ok(3)]]])
  ultimately show "graph_inv sp {} {} [u \<mapsto> value_of g u] g3"
    using ok(4,5) r(8,13,14) a(13,14) by (simp add: graph_inv_def edges_agree_def)
qed

section \<open>After the deletion\<close>

text \<open>The node is alive and the previous input is put back: the table knows the node by its value again.\<close>

lemma restored_table:
  assumes g: "table_ok sp {} [u \<mapsto> old] g" and u: "value_of (with_input u i p g) u = old"
  shows "table_ok sp {} Map.empty (with_input u i p g)"
  by (rule table_ok_frame [OF g]) (use g u in \<open>auto simp: registered_def with_input_other table_ok_def rows_ok_def\<close>)

lemma dead_forgotten:
  assumes g: "graph_inv sp {} {} [u \<mapsto> old] g" and u: "\<not> live g u"
  shows "graph_ok sp (with_input u i p g)"
proof -
  let ?g = "with_input u i p g"
  note ok = graph_invD [OF g]
  have "table_ok sp {} Map.empty ?g"
    by (rule table_ok_frame [OF ok(2)]) (use ok(2) u in \<open>auto simp: registered_def with_input_other table_ok_def rows_ok_def\<close>)
  moreover have "edges_match {} ?g"
    unfolding edges_match_def
  proof (intro conjI allI impI)
    note ag = edges_agreeD [OF ok(1)]
    fix d n j assume a: "(n, j) \<in> set (outs ?g d)" "n \<noteq> 0"
    then have "n \<noteq> u" using ag(4) [of n j d] u by auto
    then show "live ?g n" "j < length (ins ?g n)" "j < 256" "ins ?g n ! j = d" "(n, j) \<notin> {}" "count_list (outs ?g d) (n, j) = 1"
      using ag(4) [of n j d] a by auto
  next
    fix n j assume a: "live ?g n" "j < length (ins ?g n)" "ins ?g n ! j \<noteq> 0"
    then have "n \<noteq> u" using u by auto
    then show "(n, j) \<in> set (outs ?g (ins ?g n ! j))" using edges_agreeD(3) [OF ok(1), of n j] a by auto
  qed (use edges_agreeD(1,2) [OF ok(1)] in auto)
  ultimately show ?thesis using ok with_input_nodes_ok by (simp add: graph_ok_def graph_inv_def edges_agree_def)
qed

text \<open>A node leaves the interner, has its inputs changed and enters again.\<close>

definition reenter :: "Node_Spec \<Rightarrow> u32 \<Rightarrow> (u32 list \<Rightarrow> u32 list) \<Rightarrow> u32 gact" where
  "reenter sp u f = bindM (unintern sp u 0) (\<lambda>_. bindM (g_put_node u (node_inps_update f)) (\<lambda>_. intern sp u))"

definition with_inps :: "u32 \<Rightarrow> (u32 list \<Rightarrow> u32 list) \<Rightarrow> graph \<Rightarrow> graph" where
  "with_inps u f g = g\<lparr>g_nodes := (g_nodes g)(u := map_option (node_inps_update f) (g_nodes g u))\<rparr>"

lemma with_inps_views [simp]:
  "live (with_inps u f g) = live g" "outs (with_inps u f g) = outs g" "kind_of (with_inps u f g) = kind_of g"
  "interned sp (with_inps u f g) = interned sp g" "g_nodes (with_inps u f g) n = None \<longleftrightarrow> g_nodes g n = None"
  "g_pos (with_inps u f g) = g_pos g" "g_reserved (with_inps u f g) = g_reserved g"
  "g_dont_delete (with_inps u f g) = g_dont_delete g" "g_dont_intern (with_inps u f g) = g_dont_intern g"
  "g_hashes (with_inps u f g) = g_hashes g" "g_ids (with_inps u f g) = g_ids g" "g_len (with_inps u f g) = g_len g"
  by (auto simp: with_inps_def live_def outs_def kind_of_def interned_def fun_eq_iff split: option.splits)

lemma ins_with_inps: "ins (with_inps u f g) n = (if n = u \<and> g_nodes g u \<noteq> None then f (ins g u) else ins g n)"
  by (auto simp: with_inps_def ins_def split: option.splits)

lemma with_inps_cong: "g_nodes g' = g_nodes g \<Longrightarrow> g_nodes (with_inps u f g') = g_nodes (with_inps u f g)"
  by (simp add: with_inps_def)

lemma with_inps_nodes_ok: "nodes_ok sp g \<Longrightarrow> (\<And>xs. length (f xs) \<le> length xs) \<Longrightarrow> nodes_ok sp (with_inps u f g)"
  unfolding nodes_ok_def with_inps_def node_ok_def by (auto split: option.splits dest: spec) (meson order_trans)

lemma put_inps: "g_put_node u (node_inps_update f) g = (Inr (), with_inps u f g)"
  by (simp add: g_put_node_def with_inps_def)

text \<open>A node that has left the table may change its inputs.\<close>

lemma table_ok_with_inps:
  assumes "table_ok sp X Map.empty g" "u \<in> X" "live g u"
  shows "table_ok sp X Map.empty (with_inps u f g)"
proof -
  have "table_ok sp (insert u X) Map.empty (with_inps u f g)"
    by (rule table_ok_other [OF assms(1) not_in_rows [OF assms(1)]]) (use assms in \<open>simp_all add: value_of_def ins_with_inps\<close>)
  then show ?thesis using assms(2) by (simp add: insert_absorb)
qed

lemma reenter_returns:
  assumes g: "table_ok sp X Map.empty g" "nodes_ok sp g" "\<not> g_dont_intern g" and u: "live g u" and zero: "g_nodes g 0 = None"
    and f: "\<And>xs. length (f xs) \<le> length xs"
  shows "(\<exists>g'. reenter sp u f g = (Inr u, g') \<and> same_graph (with_inps u f g) g' \<and> table_ok sp (X - {u}) Map.empty g' \<and> nodes_ok sp g') \<or>
    (\<exists>g' m. reenter sp u f g = (Inr m, g') \<and> same_graph (with_inps u f g) g' \<and> table_ok sp (insert u X) Map.empty g' \<and> nodes_ok sp g' \<and>
       m \<noteq> u \<and> interned sp g m \<and> m \<notin> X \<and> value_of g m = value_of (with_inps u f g) u) \<or>
    (\<exists>e g'. reenter sp u f g = (Inl e, g')) \<and> g_reserved g < g_pos g + intern_room g"
proof -
  obtain g1 where g1: "unintern sp u 0 g = (Inr (), g1)" "same_graph g g1" "g_pos g1 = g_pos g" "table_ok sp (insert u X) Map.empty g1"
    "length (g_hashes g1) = length (g_hashes g)"
    using unintern_returns [OF g u zero] by blast
  have n1: "g_nodes g1 = g_nodes g" using g1(2) by (simp add: same_graph_def)
  let ?g2 = "with_inps u f g1"
  have same: "same_graph (with_inps u f g) ?g2" using g1(2) with_inps_cong [OF n1] by (simp add: same_graph_def)
  then have n2: "g_nodes ?g2 = g_nodes (with_inps u f g)" by (simp add: same_graph_def)
  note v2 = same_nodes_views [OF n2]
  have t2: "table_ok sp (insert u X) Map.empty ?g2"
    using table_ok_with_inps [OF g1(4)] same_nodes_views(1) [OF n1] u by simp
  have ok2: "nodes_ok sp ?g2"
    using with_inps_nodes_ok [where f = f, OF nodes_ok_mono [OF g(2) n1] f] g1(3) g(2) by (simp add: nodes_ok_def)
  have f2: "\<not> g_dont_intern ?g2" "g_nodes ?g2 0 = None" "live ?g2 u" "g_reserved ?g2 = g_reserved g" "g_pos ?g2 = g_pos g" "intern_room ?g2 = intern_room g"
    using g(3) g1(2,3,5) zero u v2(1) by (simp_all add: same_graph_def intern_room_def n1)
  have run: "reenter sp u f g = intern sp u ?g2" using g1(1) by (simp add: reenter_def put_inps)
  have int: "interned sp g m \<and> m \<notin> X" if "m \<in> entries ?g2" "m \<noteq> u" for m
    using t2 that v2(6) by (simp add: table_ok_def rows_ok_def)
  have X: "insert u X - {u} = X - {u}" by blast
  consider m where "intern sp u ?g2 = (Inr m, ?g2)" "m \<noteq> u" "m \<in> entries ?g2" "value_of ?g2 m = value_of ?g2 u"
    | g3 where "intern sp u ?g2 = (Inr u, g3)" "same_graph ?g2 g3" "table_ok sp (X - {u}) Map.empty g3" "g_pos ?g2 \<le> g_pos g3" "4 dvd g_pos g3"
    | e g3 where "intern sp u ?g2 = (Inl e, g3)" "g_reserved g < g_pos g + intern_room g"
    using intern_returns [OF t2 ok2 f2(1,3,2)] unfolding X f2(4-6) by blast
  then show ?thesis
  proof cases
    case (1 m)
    have "value_of ?g2 m = value_of g m" using 1(2) unfolding v2(5) by (simp add: value_of_def ins_with_inps)
    then show ?thesis using 1 run same t2 ok2 int [OF 1(3,2)] v2(5) by auto
  next
    case (2 g3)
    have "same_graph (with_inps u f g) g3" using same 2(2) by (simp add: same_graph_def)
    moreover have "nodes_ok sp g3" using nodes_ok_mono [OF ok2 _ 2(4,5)] 2(2) by (simp add: same_graph_def)
    ultimately show ?thesis using 2(1,3) run by auto
  next
    case 3
    then show ?thesis using run by auto
  qed
qed

lemma with_input_inps: "with_input u i v = with_inps u (\<lambda>xs. xs[i := v])"
  by (simp add: with_input_def with_inps_def fun_eq_iff)

text \<open>The last steps of \<^verbatim>\<open>set_input\<close>.\<close>

lemma rename_returns:
  assumes g: "graph_inv sp {} {} [u \<mapsto> old] g" and u: "live g u" "ins g u ! i = v" "i < length (ins g u)" "value_of (with_input u i p g) u = old"
    and room: "g_pos g + intern_room g \<le> g_reserved g"
  shows "\<exists>g' m. reenter sp u (\<lambda>xs. xs[i := v]) (with_input u i p g) = (Inr m, g') \<and> g_nodes g' = g_nodes g \<and> g_reserved g' = g_reserved g \<and>
    (m = u \<and> graph_ok sp g' \<or> m \<noteq> u \<and> graph_inv sp {} {u} Map.empty g' \<and> interned sp g m \<and> value_of g m = value_of g u)"
proof -
  let ?g = "with_input u i p g"
  note ok = graph_invD [OF g] and zero = nil_no_node [OF graph_invD(1) [OF g]]
  have t: "table_ok sp {} Map.empty ?g" by (rule restored_table [OF ok(2) u(4)])
  have same: "g_nodes (with_inps u (\<lambda>xs. xs[i := v]) ?g) = g_nodes g"
  proof -
    have "g_nodes (with_inps u (\<lambda>xs. xs[i := v]) ?g) = g_nodes (with_input u i v g)"
      by (auto simp: with_input_def with_inps_def fun_eq_iff option.map_comp comp_def)
    then show ?thesis using with_input_same [OF u(2)] by simp
  qed
  have ed: "edges_agree {} g'" if "g_nodes g' = g_nodes g" for g' using ok(1) same_nodes_views(8) [OF that] by simp
  have inv: "graph_inv sp {} X Map.empty g'" "g_nodes g' = g_nodes g" "g_reserved g' = g_reserved g"
    if "same_graph (with_inps u (\<lambda>xs. xs[i := v]) ?g) g'" "table_ok sp X Map.empty g'" "nodes_ok sp g'" for g' X
    using that same ok(4,5) ed [of g'] by (simp_all add: same_graph_def graph_inv_def)
  have val: "value_of g m = value_of g u" if "m \<noteq> u" "value_of ?g m = value_of (with_inps u (\<lambda>xs. xs[i := v]) ?g) u" for m
    using that same_nodes_views(5) [OF same] with_input_other by simp
  have st: "\<not> g_dont_intern ?g" "live ?g u" "g_nodes ?g 0 = None" "\<not> g_reserved ?g < g_pos ?g + intern_room ?g"
    using ok(5) u(1) zero room by (simp_all add: intern_room_def)
  from reenter_returns [where f = "\<lambda>xs. xs[i := v]", OF t with_input_nodes_ok [OF ok(3)] st(1-3)] st(4)
  consider g' where "reenter sp u (\<lambda>xs. xs[i := v]) ?g = (Inr u, g')" "same_graph (with_inps u (\<lambda>xs. xs[i := v]) ?g) g'" "table_ok sp {} Map.empty g'" "nodes_ok sp g'"
    | g' m where "reenter sp u (\<lambda>xs. xs[i := v]) ?g = (Inr m, g')" "same_graph (with_inps u (\<lambda>xs. xs[i := v]) ?g) g'" "table_ok sp {u} Map.empty g'"
      "nodes_ok sp g'" "m \<noteq> u" "interned sp ?g m" "value_of ?g m = value_of (with_inps u (\<lambda>xs. xs[i := v]) ?g) u"
    by auto
  then show ?thesis
  proof cases
    case (1 g')
    then show ?thesis using inv [OF 1(2-4)] by (auto simp: graph_ok_def)
  next
    case (2 g' m)
    then show ?thesis using inv [OF 2(2-4)] val [OF 2(5,7)] by auto
  qed
qed

section \<open>The whole replacement\<close>

lemma set_input_eq:
  assumes "u \<noteq> 0" "g_nodes g u = Some x" "live g u" "i < length (ins g u)" "ins g u ! i = p"
  shows "set_input_by sp oof fuel settle u (int i) v g = (if p = v then (Inr u, g) else
     bindM (add_output sp v u i) (\<lambda>_.
     bindM (put_input u i v) (\<lambda>_.
     bindM (remove_output sp oof fuel p (mk_output u i) False) (\<lambda>_.
     bindM (put_input u i p) (\<lambda>_.
     bindM (g_get_node u) (\<lambda>n.
     if node_rtype n \<noteq> DEAD_NODE_KIND
     then bindM (reenter sp u (\<lambda>xs. xs[i := v])) (\<lambda>nid. bindM (settle nid) (\<lambda>_. ret nid)) else ret u))))) g)"
  unfolding reenter_def bindM_assoc put_input_def [symmetric]
  using assms by (simp add: set_input_by_def g_expand_node_def g_get_node_some [OF assms(1,2)] live_def ins_def Let_def ret_apply)

lemma added_returns:
  assumes g: "graph_ok sp g" and u: "live g u" and v: "v = 0 \<or> live g v \<and> length (outs g v) < 2 ^ 13 - 1 \<and> out_fits sp g v u i"
    and room: "g_pos g + 2 ^ 16 \<le> g_reserved g"
  shows "\<exists>g1. add_output sp v u i g = (Inr (), g1) \<and> added v (u, i) g g1"
proof (cases "v = 0")
  case True
  then show ?thesis by (simp add: add_output_def added_def ret_apply)
next
  case False
  note ok = graph_okD [OF g]
  have "mk_output u i = (u, i)" using mk_output_id [of u i] graph_ok_domain [OF g u] v False by (simp add: out_fits_def)
  moreover have "out_room g v" using v False out_room_enough [OF ok(3) _ _ room] by blast
  ultimately show ?thesis
    using add_output_cases(1) [OF ok(3) False, of u i] v False graph_ok_domain [OF g, of v] graph_ok_domain [OF g u] by (auto simp: added_def)
qed

text \<open>What has become of the rest when \<open>v\<close> has taken the place of \<open>p\<close> as the input \<open>i\<close> of \<open>u\<close>.\<close>

definition input_replaced :: "u32 \<Rightarrow> nat \<Rightarrow> u32 \<Rightarrow> u32 \<Rightarrow> graph \<Rightarrow> graph \<Rightarrow> bool" where
  "input_replaced u i p v g g' \<longleftrightarrow>
     (live g' u \<longrightarrow> value_of g' u = (kind_of g u, (ins g u)[i := v])) \<and>
     (\<forall>m. live g' m \<longrightarrow> live g m \<and> (m \<noteq> u \<longrightarrow> value_of g' m = value_of g m)) \<and>
     (\<forall>m w j. live g m \<longrightarrow> \<not> live g' m \<longrightarrow> (w, j) \<in> set (outs g m) \<longrightarrow> (w, j) = (u, i) \<or> w \<noteq> 0 \<and> live g w \<and> \<not> live g' w) \<and>
     (p \<noteq> v \<longrightarrow> live g p \<longrightarrow> (live g' p \<longleftrightarrow> outs g p \<noteq> [(u, i)])) \<and> g_reserved g' = g_reserved g \<and>
     (\<forall>m j. count_list (outs g' m) (0, j) = count_list (outs g m) (0, j)) \<and> edge_count g' \<le> Suc (edge_count g)"

lemma input_replaced_cong:
  assumes r: "input_replaced u i p v g g1" and same: "live g' = live g1" "\<forall>m. live g1 m \<longrightarrow> value_of g' m = value_of g1 m" "g_reserved g' = g_reserved g1" "outs g' = outs g1"
  shows "input_replaced u i p v g g'"
proof -
  have val: "value_of g' m = value_of g1 m" if "live g1 m" for m using same(2) that by blast
  note c = r [unfolded input_replaced_def]
  have "live g1 u \<longrightarrow> value_of g' u = (kind_of g u, (ins g u)[i := v])" using c val [of u] by presburger
  moreover have "\<forall>m. live g1 m \<longrightarrow> live g m \<and> (m \<noteq> u \<longrightarrow> value_of g' m = value_of g m)" using c val by presburger
  moreover have "edge_count g' = edge_count g1" using same(4) by (simp add: edge_count_def)
  ultimately show ?thesis unfolding input_replaced_def same(1,3,4) using c by presburger
qed

lemma deletion_returns:
  assumes g: "graph_inv sp {} X Y g" "p = 0 \<or> live g p" "edge_count g < fuel" and r: "removed p (mk_output u i) g0 g"
  shows "(\<exists>g'. remove_output sp oof fuel p (mk_output u i) False g0 = (Inr (), g') \<and> graph_inv sp {} X Y g' \<and> same_flags g g' \<and>
    (\<forall>m. g_nodes g' m = None \<longleftrightarrow> g_nodes g m = None) \<and> (\<forall>m. live g' m \<longrightarrow> live g m \<and> value_of g' m = value_of g m) \<and> (p \<noteq> 0 \<longrightarrow> (live g' p \<longleftrightarrow> outs g p \<noteq> [])) \<and>
    (\<forall>m w j. live g m \<longrightarrow> \<not> live g' m \<longrightarrow> (w, j) \<in> set (outs g m) \<longrightarrow> w \<noteq> 0 \<and> live g w \<and> \<not> live g' w) \<and>
    (\<forall>m j. count_list (outs g' m) (0, j) = count_list (outs g m) (0, j)) \<and> edge_count g' \<le> edge_count g) \<or>
    (\<exists>g'. remove_output sp oof fuel p (mk_output u i) False g0 = (Inl (Panic ''node.itype != .End''), g')) \<and> \<not> ends_pinned g"
proof (cases "p = 0")
  case True
  then show ?thesis using r g(1) by (auto simp: removed_def remove_output_eq ret_apply same_flags_def)
next
  case False
  then obtain k where k: "linear_search (outs g0 p) (mk_output u i) = Some k" "g = with_outs p (swap_remove (outs g0 p) k) g0"
    using r by (auto simp: removed_def)
  have l: "live g p" using g(2) False by blast
  then have n: "g_nodes g p \<noteq> None" "live g0 p" using live_node [OF l] k(2) by (blast, simp)
  then obtain x where x: "g_nodes g0 p = Some x" "outs g0 p = node_outs x" using live_node [of g0 p] by (auto simp: outs_def)
  have run: "remove_output sp oof fuel p (mk_output u i) False g0 = delete_node sp oof fuel p g"
    using False x k by (simp add: remove_output_eq g_get_node_some put_outs)
  from delete_stops [OF g(1) n(1) g(3), of oof] show ?thesis
  proof (elim disjE exE conjE)
    fix g' assume g': "delete_node sp oof fuel p g = (Inr (), g')" "graph_inv sp {} X Y g'" "deleted p g g'"
    have "same_flags g g'" using g'(3) by (auto simp: deleted_def same_flags_def split: if_splits)
    moreover have "g_nodes g' m = None \<longleftrightarrow> g_nodes g m = None" for m
      using g'(3) n(1) dies_toD(1) [of g _ m] by (auto simp: deleted_def split: if_splits)
    moreover note e = deleted_effect [OF g'(3) g(1) g'(2) l]
    moreover have "count_list (outs g' m) (0, j) = count_list (outs g m) (0, j)" for m j by (rule deleted_outs(1) [OF g'(3) l])
    moreover have "edge_count g' \<le> edge_count g" by (rule shrinksD [OF shrinks_delete(1) g'(1)])
    ultimately show ?thesis unfolding run using g'(1,2) e(1) e(2) e(3) by blast
  qed (simp add: run)
qed

lemma outs_gone:
  assumes "\<And>e. count_list os' e = (if e = x then 0 else count_list os e)" "count_list os x = 1"
  shows "os' = [] \<longleftrightarrow> os = [x]"
proof
  assume e: "os' = []"
  have "count_list os y = 0" if "y \<noteq> x" for y using assms(1) [of y] that by (simp add: e)
  then have "set os \<subseteq> {x}" by (auto simp: count_list_0_iff)
  then show "os = [x]" using assms(2) by (cases os; cases "tl os") (auto split: if_splits)
next
  assume "os = [x]"
  then have "count_list os' e = 0" for e using assms(1) [of e] by simp
  then have "e \<notin> set os'" for e using in_set_count [of e os'] by simp
  then show "os' = []" by (cases os') auto
qed

lemma replace_ends:
  assumes g: "graph_inv sp {} {} [u \<mapsto> old] g" and u: "g_nodes g u \<noteq> None" "live g u \<Longrightarrow> ins g u = inps[i := v] \<and> old = (kind_of g u, inps)"
    and i: "i < length inps" "inps ! i = p" and room: "g_pos g + intern_room g \<le> g_reserved g" and settle: "settle u = ret ()"
    and rest_def: "rest = bindM (put_input u i p) (\<lambda>_. bindM (g_get_node u) (\<lambda>n.
      if node_rtype n \<noteq> DEAD_NODE_KIND
      then bindM (reenter sp u (\<lambda>xs. xs[i := v])) (\<lambda>nid. bindM (settle nid) (\<lambda>_. ret nid)) else ret u))"
  shows "\<exists>g'. live g' = live g \<and> (\<forall>m. live g m \<longrightarrow> value_of g' m = value_of g m) \<and> g_reserved g' = g_reserved g \<and> outs g' = outs g \<and>
    (rest g = (Inr u, g') \<and> graph_ok sp g' \<or>
     (\<exists>m. rest g = bindM (settle m) (\<lambda>_. ret m) g' \<and> graph_inv sp {} {u} Map.empty g' \<and> live g u \<and> m \<noteq> u \<and> interned sp g m \<and>
        value_of g m = value_of g u))"
proof -
  let ?g = "with_input u i p g"
  have u0: "u \<noteq> 0" using edges_agreeD(1) [OF graph_invD(1) [OF g], of u] u(1) by blast
  obtain x where x: "g_nodes ?g u = Some x" "node_rtype x = DEAD_NODE_KIND \<longleftrightarrow> \<not> live g u"
    using u(1) with_input_views(1) [of u i p g] by (auto simp: with_input_def live_def)
  have run: "rest g = (if live g u then bindM (reenter sp u (\<lambda>xs. xs[i := v])) (\<lambda>nid. bindM (settle nid) (\<lambda>_. ret nid)) ?g else (Inr u, ?g))"
    unfolding rest_def using g_get_node_some [OF u0 x(1)] x(2) by (simp add: put_input_returns ret_apply)
  show ?thesis
  proof (cases "live g u")
    case True
    note w = u(2) [OF True]
    have "(inps[i := v])[i := p] = inps" using i by (metis list_update_id list_update_overwrite)
    then have "value_of ?g u = old" using w by (simp add: value_of_def)
    moreover have "ins g u ! i = v" "i < length (ins g u)" using w i(1) by auto
    ultimately obtain g' m where g': "reenter sp u (\<lambda>xs. xs[i := v]) ?g = (Inr m, g')" "g_nodes g' = g_nodes g" "g_reserved g' = g_reserved g"
      "m = u \<and> graph_ok sp g' \<or> m \<noteq> u \<and> graph_inv sp {} {u} Map.empty g' \<and> interned sp g m \<and> value_of g m = value_of g u"
      using rename_returns [OF g True _ _ _ room, of i v p] by blast
    have "rest g = bindM (settle m) (\<lambda>_. ret m) g'" using run True g'(1) by simp
    then show ?thesis using g'(3,4) same_nodes_views(1,3,5) [OF g'(2)] True settle by (intro exI [of _ g']) (auto simp: ret_apply)
  next
    case False
    then have "live g m \<Longrightarrow> value_of ?g m = value_of g m" for m using with_input_other by (cases "m = u") auto
    then show ?thesis using run False dead_forgotten [OF g False] by (auto intro!: exI [of _ ?g])
  qed
qed

text \<open>The state after the new output and the new input have been written, and the previous output removed.\<close>

lemma moved_views:
  assumes g: "graph_ok sp g" and u: "live g u" "i < length (ins g u)" "i < 256" "ins g u ! i = p" "p \<noteq> v" and v: "v = 0 \<or> live g v"
    and g1: "added v (u, i) g g1" and g3: "removed p (u, i) (with_input u i v g1) g3"
  shows "live g3 = live g" "kind_of g3 = kind_of g" "ins g3 = (ins g)(u := (ins g u)[i := v])"
    "ends_pinned g \<Longrightarrow> ends_pinned g3" "edge_count g3 \<le> Suc (edge_count g)"
    "live g p \<Longrightarrow> outs g3 p = [] \<longleftrightarrow> outs g p = [(u, i)]"
    "(w, j) \<in> set (outs g m) \<Longrightarrow> (w, j) \<noteq> (u, i) \<Longrightarrow> (w, j) \<in> set (outs g3 m)"
proof -
  note a = added_facts [OF g1] and r = removed_facts [OF g3] and cnt = moved_inv(2) [OF g u v g1 g3]
  show view: "live g3 = live g" "kind_of g3 = kind_of g" "ins g3 = (ins g)(u := (ins g u)[i := v])" using r(1-3) a(1-3) by simp_all
  show "edge_count g3 \<le> Suc (edge_count g)" using r(10) a(10) edge_count_less [of "with_input u i v g1" g1] by force
  show "(w, j) \<in> set (outs g m) \<Longrightarrow> (w, j) \<noteq> (u, i) \<Longrightarrow> (w, j) \<in> set (outs g3 m)" using cnt [of m "(w, j)"] by (simp add: in_set_count)
  show "ends_pinned g3" if "ends_pinned g"
    using that cnt [of _ "(0, 0)"] graph_ok_domain [OF g u(1)] unfolding ends_pinned_def in_set_count view by auto
  assume p: "live g p"
  then have "(u, i) \<in> set (outs g p)" "u \<noteq> 0" using edges_agreeD(3) [OF graph_okD(1) [OF g] u(1,2)] u(4) graph_ok_domain [OF g] u(1) by auto
  then have "count_list (outs g p) (u, i) = 1" using edges_agreeD(4) [OF graph_okD(1) [OF g]] by blast
  then show "outs g3 p = [] \<longleftrightarrow> outs g p = [(u, i)]" using cnt [of p] u(5) by (intro outs_gone) auto
qed

text \<open>Up to the deletion of the previous input.\<close>

lemma redirect_returns:
  assumes g: "graph_ok sp g" and u: "live g u" "i < length (ins g u)" "i < 256" "ins g u ! i = p" "p \<noteq> v"
    and v: "v = 0 \<or> live g v \<and> length (outs g v) < 2 ^ 13 - 1 \<and> out_fits sp g v u i"
    and stop: "Suc (edge_count g) < fuel" and room: "g_pos g + 2 ^ 16 + intern_room g \<le> g_reserved g"
  shows "\<exists>g1 g4. add_output sp v u i g = (Inr (), g1) \<and>
    (remove_output sp oof fuel p (mk_output u i) False (with_input u i v g1) = (Inr (), g4) \<and>
     graph_inv sp {} {} [u \<mapsto> value_of g u] g4 \<and> g_nodes g4 u \<noteq> None \<and> g_pos g4 + intern_room g4 \<le> g_reserved g4 \<and> input_replaced u i p v g g4 \<or>
     remove_output sp oof fuel p (mk_output u i) False (with_input u i v g1) = (Inl (Panic ''node.itype != .End''), g4) \<and> \<not> ends_pinned g)"
proof -
  note ok = graph_okD [OF g]
  have v': "v = 0 \<or> live g v" using v by blast
  have x: "g_nodes g u \<noteq> None" "unat u < 2 ^ 22" using graph_ok_domain [OF g u(1)] by auto
  obtain g1 where g1: "add_output sp v u i g = (Inr (), g1)" "added v (u, i) g g1" using added_returns [OF g u(1) v] room by auto
  note a = added_facts [OF g1(2)]
  let ?g2 = "with_input u i v g1"
  have p: "(u, i) \<in> set (outs g p) \<and> live g p" if "p \<noteq> 0"
    using edges_agreeD(2) [OF ok(1), of p] edges_agreeD(3) [OF ok(1) u(1,2)] u(4) that by fastforce
  have "\<exists>k. linear_search (outs ?g2 p) (u, i) = Some k" if "p \<noteq> 0"
    using p [OF that] a(6) [of p] u(5) linear_search_None [of "outs ?g2 p" "(u, i)"] by (cases "linear_search (outs ?g2 p) (u, i)") simp_all
  then obtain g3 where g3: "removed p (u, i) ?g2 g3" unfolding removed_def by blast
  note r = removed_facts [OF g3] and m = moved_views [OF g u v' g1(2) g3]
  have pre: "p = 0 \<or> live g3 p" "edge_count g3 < fuel" "removed p (mk_output u i) ?g2 g3"
    using m(1,5) stop p g3 mk_output_id [OF x(2) u(3)] by auto
  have np: "\<not> ends_pinned g3 \<Longrightarrow> \<not> ends_pinned g" using m(4) by blast
  consider g4 where "remove_output sp oof fuel p (mk_output u i) False ?g2 = (Inl (Panic ''node.itype != .End''), g4)" "\<not> ends_pinned g" |
    g4 where "remove_output sp oof fuel p (mk_output u i) False ?g2 = (Inr (), g4)"
    "graph_inv sp {} {} [u \<mapsto> value_of g u] g4" "same_flags g3 g4" "\<And>n. g_nodes g4 n = None \<longleftrightarrow> g_nodes g3 n = None"
    "\<And>n. live g4 n \<Longrightarrow> live g3 n \<and> value_of g4 n = value_of g3 n" "p \<noteq> 0 \<Longrightarrow> live g4 p \<longleftrightarrow> outs g3 p \<noteq> []"
    "\<And>n w j. live g3 n \<Longrightarrow> \<not> live g4 n \<Longrightarrow> (w, j) \<in> set (outs g3 n) \<Longrightarrow> w \<noteq> 0 \<and> live g3 w \<and> \<not> live g4 w"
    "\<And>n j. count_list (outs g4 n) (0, j) = count_list (outs g3 n) (0, j)" "edge_count g4 \<le> edge_count g3"
    using deletion_returns [OF moved_inv(1) [OF g u v' g1(2) g3] pre, of oof] np by (elim disjE exE conjE) blast+
  then show ?thesis
  proof cases
    case 1
    then show ?thesis using g1(1) by blast
  next
    case g4: (2 g4)
    have "g_nodes g4 u \<noteq> None" using g4(4) r(7) a(7) x(1) by simp
    moreover have "g_pos g4 + intern_room g4 \<le> g_reserved g4" "g_reserved g4 = g_reserved g"
      using g4(3) r(11,12,15) a(11,12,15) room by (simp_all add: same_flags_def intern_room_def)
    moreover have "live g4 n \<Longrightarrow> live g n \<and> value_of g4 n = (kind_of g n, if n = u then (ins g u)[i := v] else ins g n)" for n
      using g4(5) [of n] by (simp add: value_of_def m(1-3))
    moreover have "live g4 p \<longleftrightarrow> outs g p \<noteq> [(u, i)]" if "live g p" using g4(6) m(6) [OF that] graph_ok_domain [OF g that] by simp
    moreover have "(w, j) = (u, i) \<or> w \<noteq> 0 \<and> live g w \<and> \<not> live g4 w" if "live g n" "\<not> live g4 n" "(w, j) \<in> set (outs g n)" for n w j
      using g4(7) [of n w j] m(7) [OF that(3)] that(1,2) m(1) by metis
    moreover have "count_list (outs g4 n) (0, j) = count_list (outs g n) (0, j)" for n j
      using g4(8) [of n j] moved_inv(2) [OF g u v' g1(2) g3, of n "(0, j)"] graph_ok_domain [OF g u(1)] by auto
    moreover have "edge_count g4 \<le> Suc (edge_count g)" using g4(9) m(5) by linarith
    ultimately show ?thesis using g1(1) g4(1,2) unfolding input_replaced_def by (auto simp: value_of_def)
  qed
qed

lemma set_input_by_returns:
  assumes g: "graph_ok sp g" and u: "live g u" "i < length (ins g u)" "i < 256" "ins g u ! i = p"
    and v: "v = 0 \<or> live g v \<and> length (outs g v) < 2 ^ 13 - 1 \<and> out_fits sp g v u i"
    and stop: "Suc (edge_count g) < fuel" and room: "g_pos g + 2 ^ 16 + intern_room g \<le> g_reserved g"
    and settle: "settle u = ret ()"
  shows "(\<exists>g'. input_replaced u i p v g g' \<and>
    (set_input_by sp oof fuel settle u (int i) v g = (Inr u, g') \<and> graph_ok sp g' \<or>
     (\<exists>m. set_input_by sp oof fuel settle u (int i) v g = bindM (settle m) (\<lambda>_. ret m) g' \<and> graph_inv sp {} {u} Map.empty g' \<and>
        live g' u \<and> live g' m \<and> m \<noteq> u \<and> value_of g' m = value_of g' u \<and> interned sp g m \<and> value_of g m = (kind_of g u, (ins g u)[i := v])))) \<or>
    (\<exists>g'. set_input_by sp oof fuel settle u (int i) v g = (Inl (Panic ''node.itype != .End''), g')) \<and> \<not> ends_pinned g"
proof -
  obtain x where x: "g_nodes g u = Some x" "u \<noteq> 0" using live_node [OF u(1)] graph_ok_domain [OF g u(1)] by blast
  note eq = set_input_eq [OF x(2,1) u(1,2,4), where settle = settle]
  show ?thesis
  proof (cases "p = v")
    case True
    have "(ins g u)[i := v] = ins g u" using u(4) True by (metis list_update_id)
    then show ?thesis using eq True g by (auto simp: input_replaced_def value_of_def intro!: exI [of _ g])
  next
    case False
    consider g1 g4 where "add_output sp v u i g = (Inr (), g1)" "\<not> ends_pinned g"
        "remove_output sp oof fuel p (mk_output u i) False (with_input u i v g1) = (Inl (Panic ''node.itype != .End''), g4)"
      | g1 g4 where "add_output sp v u i g = (Inr (), g1)"
      "remove_output sp oof fuel p (mk_output u i) False (with_input u i v g1) = (Inr (), g4)"
      "graph_inv sp {} {} [u \<mapsto> value_of g u] g4" "g_nodes g4 u \<noteq> None" "g_pos g4 + intern_room g4 \<le> g_reserved g4" "input_replaced u i p v g g4"
      using redirect_returns [OF g u False v stop room] by blast
    then show ?thesis
    proof cases
      case (1 g1 g4)
      then show ?thesis unfolding eq using False by (simp add: put_input_returns)
    next
      case g4: (2 g1 g4)
      note rep = g4(6) [unfolded input_replaced_def]
      let ?rest = "bindM (put_input u i p) (\<lambda>_. bindM (g_get_node u) (\<lambda>n.
        if node_rtype n \<noteq> DEAD_NODE_KIND
        then bindM (reenter sp u (\<lambda>xs. xs[i := v])) (\<lambda>nid. bindM (settle nid) (\<lambda>_. ret nid)) else ret u))"
      have run: "set_input_by sp oof fuel settle u (int i) v g = ?rest g4" unfolding eq using False g4(1,2) by (simp add: put_input_returns)
      have val: "ins g4 u = (ins g u)[i := v] \<and> value_of g u = (kind_of g4 u, ins g u)" if "live g4 u"
        using rep that by (simp add: value_of_def)
      from replace_ends [where settle = settle, OF g4(3,4) val u(2,4) g4(5) settle refl, folded run] obtain g' where g':
        "live g' = live g4" "\<forall>m. live g4 m \<longrightarrow> value_of g' m = value_of g4 m" "g_reserved g' = g_reserved g4" "outs g' = outs g4"
        "set_input_by sp oof fuel settle u (int i) v g = (Inr u, g') \<and> graph_ok sp g' \<or>
         (\<exists>m. set_input_by sp oof fuel settle u (int i) v g = bindM (settle m) (\<lambda>_. ret m) g' \<and> graph_inv sp {} {u} Map.empty g' \<and> live g4 u \<and>
            m \<noteq> u \<and> interned sp g4 m \<and> value_of g4 m = value_of g4 u)" by blast
      have old: "interned sp g m \<and> value_of g m = (kind_of g u, (ins g u)[i := v])"
        if "live g4 u" "m \<noteq> u" "interned sp g4 m" "value_of g4 m = value_of g4 u" for m
        using rep that by (auto simp: interned_def value_of_def)
      have "interned sp g4 m \<Longrightarrow> live g4 m" for m by (simp add: interned_def)
      then show ?thesis using g' old input_replaced_cong [OF g4(6) g'(1-4)] by (intro disjI1 exI [of _ g']) metis
    qed
  qed
qed

lemma set_input_returns:
  assumes g: "graph_ok sp g" and u: "live g u" "i < length (ins g u)" "i < 256" "ins g u ! i = p"
    and v: "v = 0 \<or> live g v \<and> length (outs g v) < 2 ^ 13 - 1 \<and> out_fits sp g v u i"
    and stop: "Suc (edge_count g) < fuel" and room: "g_pos g + 2 ^ 16 + intern_room g \<le> g_reserved g"
  shows "(\<exists>g'. set_input sp oof fuel u (int i) v g = (Inr u, g') \<and> graph_ok sp g' \<and> input_replaced u i p v g g') \<or>
    (\<exists>g' m. set_input sp oof fuel u (int i) v g = (Inl (Panic ''nid == id''), g') \<and> m \<noteq> u \<and> interned sp g m \<and>
       value_of g m = (kind_of g u, (ins g u)[i := v])) \<or>
    (\<exists>g'. set_input sp oof fuel u (int i) v g = (Inl (Panic ''node.itype != .End''), g')) \<and> \<not> ends_pinned g"
  using set_input_by_returns [where settle = "\<lambda>nid. assertM (nid = u) ''nid == id''", OF assms, of oof]
  unfolding set_input_def by (auto simp: fail_apply)

end
