(* ===== verification/Graph_Edit.thy ===== *)
theory Graph_Edit
  imports Graph_Replace
begin

text \<open>
  Two edits of a graph: the exchange of two inputs of a node, \<^verbatim>\<open>swap_inputs\<close>, and the copy of a node that is not
  interned, \<^verbatim>\<open>clone\<close>. Both keep the graph well-formed; the exchange refuses when another interned node has the value it would give.
\<close>

section \<open>Exchange of inputs\<close>

text \<open>The first output \<open>e\<close> of a list becomes \<open>e'\<close>: a search that writes and leaves the loop.\<close>

primrec reindex :: "'a \<Rightarrow> 'a \<Rightarrow> 'a list \<Rightarrow> 'a list" where
  "reindex e e' [] = []"
| "reindex e e' (x # xs) = (if x = e then e' # xs else x # reindex e e' xs)"

definition exchange :: "nat \<Rightarrow> nat \<Rightarrow> 'a list \<Rightarrow> 'a list" where
  "exchange i j xs = xs[j := xs ! i, i := xs ! j]"

definition swap_inputs :: "Node_Spec \<Rightarrow> u32 \<Rightarrow> int \<Rightarrow> int \<Rightarrow> unit gact" where
  "swap_inputs sp id' i j =
     bindM (g_expand_node id') (\<lambda>n.
     bindM (assertM (0 \<le> i \<and> i < int (length (node_inps n))) ''index out of range'') (\<lambda>_.
     bindM (g_expand_node (node_inps n ! nat i)) (\<lambda>_.
     bindM (assertM (0 \<le> j \<and> j < int (length (node_inps n))) ''index out of range'') (\<lambda>_.
     bindM (g_expand_node (node_inps n ! nat j)) (\<lambda>_.
     bindM (g_put_node (node_inps n ! nat i) (node_outs_update (reindex (id', nat i) (mk_output id' (nat j))))) (\<lambda>_.
     bindM (g_put_node (node_inps n ! nat j) (node_outs_update (reindex (id', nat j) (mk_output id' (nat i))))) (\<lambda>_.
     bindM (unintern sp id' 0) (\<lambda>_.
     bindM (g_put_node id' (node_inps_update (exchange (nat i) (nat j)))) (\<lambda>_.
     bindM (intern sp id') (\<lambda>nid.
     assertM (nid = id') ''nid == id''))))))))))"

section \<open>Copies\<close>

definition type_Call :: u16 where
  "type_Call = 14"

text \<open>The copy of the memory of a node, its arrays shared with it.\<close>

definition shallow_clone :: "Node_Spec \<Rightarrow> u32 \<Rightarrow> u32 gact" where
  "shallow_clone sp id' =
     bindM (assertM (id' \<noteq> 0) ''node != &NIL_NODE'') (\<lambda>_.
     bindM (g_get_node id') (\<lambda>n.
     bindM (assertM (unat (node_rtype n) < type_count sp) ''index out of range'') (\<lambda>_.
     bindM (getM (\<lambda>g. of_nat (align_up (g_pos g) 4 div 4))) (\<lambda>new.
     bindM (getM (\<lambda>g. compute_node_size sp (node_rtype n) (node_extra_dwords n) (g_has_dbg g))) (\<lambda>size'.
     bindM (g_alloc size' 4) (\<lambda>_.
     bindM (modifyM (\<lambda>g. g\<lparr>g_nodes := (g_nodes g)(new \<mapsto> n)\<rparr>)) (\<lambda>_.
     ret new)))))))"

definition clone :: "Node_Spec \<Rightarrow> u32 \<Rightarrow> u32 gact" where
  "clone sp id' =
     bindM (g_expand_node id') (\<lambda>n.
     bindM (has_flag sp (flag_interned sp) n) (\<lambda>int.
     bindM (getM g_dont_intern) (\<lambda>dont.
     bindM (assertM (\<not> int \<or> dont) ''!has_flag(.Interned) || prc.dont_intern'') (\<lambda>_.
     bindM (assertM (node_rtype n \<noteq> type_Call) ''node.itype != .Call'') (\<lambda>_.
     bindM (shallow_clone sp id') (\<lambda>new.
     bindM (g_alloc (4 * length (node_inps n)) 4) (\<lambda>_.
     bindM (g_put_node new (\<lambda>x. x\<lparr>node_inps := node_inps n, node_input_cap := of_nat (length (node_inps n)),
       node_outs := [], node_output_cap := 0\<rparr>)) (\<lambda>_.
     bindM (init_counts new) (\<lambda>_.
     bindM (forM (enumerate 0 (node_inps n)) (\<lambda>(i, inp). add_output sp inp new i)) (\<lambda>_.
     ret new))))))))))"

section \<open>Lists\<close>

lemma reindex_length [simp]: "length (reindex e e' xs) = length xs"
  by (induction xs) auto

lemma reindex_count:
  "e \<in> set xs \<Longrightarrow> count_list (reindex e e' xs) y + (if y = e then 1 else 0) = count_list xs y + (if y = e' then 1 else 0)"
  by (induction xs) auto

lemma reindex_absent: "e \<notin> set xs \<Longrightarrow> reindex e e' xs = xs"
  by (induction xs) auto

lemma reindex_same: "reindex e e xs = xs"
  by (induction xs) auto

lemma exchange_length [simp]: "length (exchange i j xs) = length xs"
  by (simp add: exchange_def)

lemma exchange_nth:
  "i < length xs \<Longrightarrow> j < length xs \<Longrightarrow> k < length xs \<Longrightarrow>
   exchange i j xs ! k = xs ! (if k = i then j else if k = j then i else k)"
  by (auto simp: exchange_def nth_list_update)

section \<open>The exchange keeps the edges\<close>

text \<open>The outputs of the two inputs after the two loops.\<close>

definition reindexed :: "u32 \<Rightarrow> nat \<Rightarrow> nat \<Rightarrow> graph \<Rightarrow> graph" where
  "reindexed u i j g =
     (let a = ins g u ! i; b = ins g u ! j; g1 = with_outs a (reindex (u, i) (u, j) (outs g a)) g
      in with_outs b (reindex (u, j) (u, i) (outs g1 b)) g1)"

lemma reindexed_views [simp]:
  "live (reindexed u i j g) = live g" "ins (reindexed u i j g) = ins g" "kind_of (reindexed u i j g) = kind_of g"
  "g_nodes (reindexed u i j g) n = None \<longleftrightarrow> g_nodes g n = None"
  "value_of (reindexed u i j g) = value_of g" "interned sp (reindexed u i j g) = interned sp g"
  "g_pos (reindexed u i j g) = g_pos g" "g_reserved (reindexed u i j g) = g_reserved g"
  "g_dont_delete (reindexed u i j g) = g_dont_delete g" "g_dont_intern (reindexed u i j g) = g_dont_intern g"
  "g_hashes (reindexed u i j g) = g_hashes g" "table_ok sp X Y (reindexed u i j g) = table_ok sp X Y g"
  by (simp_all add: reindexed_def Let_def)

lemma reindexed_nodes_ok: "nodes_ok sp g \<Longrightarrow> nodes_ok sp (reindexed u i j g)"
  by (simp add: reindexed_def Let_def nodes_ok_with_outs)

lemma reindexed_counts:
  assumes g: "edges_match {} g" and u: "live g u" "u \<noteq> 0" "i < length (ins g u)" "j < length (ins g u)"
  shows "count_list (outs (reindexed u i j g) d) e =
    count_list (outs g d) (if e = (u, i) then (u, j) else if e = (u, j) then (u, i) else e)"
proof -
  let ?a = "ins g u ! i" and ?b = "ins g u ! j"
  define g1 where "g1 = with_outs ?a (reindex (u, i) (u, j) (outs g ?a)) g"
  have cnt: "count_list (outs g x) (u, k) = (if x \<noteq> 0 \<and> ins g u ! k = x then 1 else 0)" if "k = i \<or> k = j" for x k
    using edges_counted [OF g u(2), of x k] that u(1,3,4) by (auto simp: edge_at_def)
  have mem: "(u, k) \<in> set (outs g x) \<longleftrightarrow> x \<noteq> 0 \<and> ins g u ! k = x" if "k = i \<or> k = j" for x k
    using cnt [OF that, of x] by (simp add: in_set_count)
  have zero: "g_nodes g 0 = None" "outs g 0 = []" using edges_matchD(1) [OF g, of 0] by (blast, cases "g_nodes g 0") (auto simp: outs_def)
  have dom: "g_nodes g x \<noteq> None" if "e \<in> set (outs g x)" for e x using that by (cases "g_nodes g x") (auto simp: outs_def)
  have nodes: "?a \<noteq> 0 \<Longrightarrow> g_nodes g ?a \<noteq> None" "?b \<noteq> 0 \<Longrightarrow> g_nodes g ?b \<noteq> None" using mem dom by blast+
  have one: "outs g1 x = (if x = ?a then reindex (u, i) (u, j) (outs g x) else outs g x)" for x
    using nodes(1) zero by (cases "?a = 0") (auto simp: g1_def)
  have two: "outs (reindexed u i j g) x = (if x = ?b then reindex (u, j) (u, i) (outs g1 x) else outs g1 x)" for x
    using nodes(2) zero by (cases "?b = 0") (auto simp: reindexed_def Let_def g1_def)
  show ?thesis
  proof (cases "i = j")
    case True
    then have "outs (reindexed u i j g) d = outs g d" using two [of d] one [of d] by (auto simp: reindex_same split: if_splits)
    then show ?thesis using True by auto
  next
    case False
    have c1: "count_list (outs g1 x) y + (if x = ?a \<and> x \<noteq> 0 \<and> y = (u, i) then 1 else 0) =
        count_list (outs g x) y + (if x = ?a \<and> x \<noteq> 0 \<and> y = (u, j) then 1 else 0)" for x y
      using reindex_count [of "(u, i)" "outs g x" "(u, j)" y] mem [of i x] zero by (auto simp: one)
    have m1: "(u, j) \<in> set (outs g1 x)" if "x = ?b" "x \<noteq> 0" for x
      using c1 [of x "(u, j)"] cnt [of j x] that False by (auto simp: in_set_count)
    have c2: "count_list (outs (reindexed u i j g) x) y + (if x = ?b \<and> x \<noteq> 0 \<and> y = (u, j) then 1 else 0) =
        count_list (outs g1 x) y + (if x = ?b \<and> x \<noteq> 0 \<and> y = (u, i) then 1 else 0)" for x y
    proof (cases "x = ?b \<and> x \<noteq> 0")
      case True
      then have p: "x = ?b" "x \<noteq> 0" by blast+
      have "outs (reindexed u i j g) x = reindex (u, j) (u, i) (outs g1 x)" "(u, j) \<in> set (outs g1 x)"
        using two [of x] p(1) m1 [OF p] by simp_all
      then show ?thesis using reindex_count [of "(u, j)" "outs g1 x" "(u, i)" y] unfolding p(1) [symmetric] by (simp add: p(2))
    next
      case no: False
      have "outs g1 0 = []" using one [of 0] zero(2) by (simp split: if_splits)
      then have "outs (reindexed u i j g) x = outs g1 x" using no two [of x] by (cases "x = ?b") simp_all
      then show ?thesis using no by simp
    qed
    show ?thesis
      using c1 [of d e] c2 [of d e] cnt [of i d] cnt [of j d] False by (cases "e = (u, i)"; cases "e = (u, j)") (auto split: if_splits)
  qed
qed

lemma exchanged_edges:
  assumes g: "edges_match {} g" and u: "live g u" "u \<noteq> 0" "i < length (ins g u)" "j < length (ins g u)" "i < 256" "j < 256"
    and g': "g_nodes g' = g_nodes (with_inps u (exchange i j) (reindexed u i j g))"
  shows "edges_match {} g'"
proof (rule edges_by_counts)
  note v = same_nodes_views [OF g']
  have dom: "g_nodes g u \<noteq> None" using u(1) live_node by blast
  have edge: "edge_at g' n k d \<longleftrightarrow> edge_at g n (if (n, k) = (u, i) then j else if (n, k) = (u, j) then i else k) d" for n k d
    unfolding edge_at_def v(1,2) using u(3,4) dom by (auto simp: ins_with_inps exchange_nth)
  show "k < 256" if "edge_at g' n k d" for n k d
    using edge_bound [OF g] that u(5,6) unfolding edge by (auto split: if_splits)
  show "count_list (outs g' d) (n, k) = (if edge_at g' n k d then 1 else 0)" if n: "n \<noteq> 0" for n k d
    using reindexed_counts [OF g u(1-4), of d "(n, k)"] edges_counted [OF g n, of d] edges_counted [OF g u(2), of d]
    unfolding v(3) edge by auto
  show "outs g' n = []" if "\<not> live g' n" for n
  proof -
    have "outs g n = []" using edges_matchD(2) [OF g] that unfolding v(1) by simp
    then have "count_list (outs g' n) e = 0" for e using reindexed_counts [OF g u(1-4), of n e] unfolding v(3) by simp
    then have "e \<notin> set (outs g' n)" for e by (simp add: count_list_0_iff)
    then show ?thesis by (cases "outs g' n") auto
  qed
qed (use edges_matchD(1) [OF g] g' in auto)

section \<open>The whole exchange\<close>

lemma expand_live:
  "edges_match E g \<Longrightarrow> n = 0 \<or> live g n \<Longrightarrow> \<exists>x. g_expand_node n g = (Inr x, g) \<and> (n \<noteq> 0 \<longrightarrow> g_nodes g n = Some x)"
  using live_node [of g n]
  by (cases "n = 0") (auto simp: g_expand_node_def g_get_node_def NIL_NODE_def DEAD_NODE_KIND_def bindM_apply ret_apply)

lemma swap_inputs_returns:
  assumes g: "graph_ok sp g" and u: "live g u" "i < length (ins g u)" "j < length (ins g u)" "i < 256" "j < 256"
    and room: "g_pos g + intern_room g \<le> g_reserved g"
  shows "(\<exists>g'. swap_inputs sp u (int i) (int j) g = (Inr (), g') \<and> graph_ok sp g' \<and> live g' = live g \<and> kind_of g' = kind_of g \<and>
       ins g' = (ins g)(u := exchange i j (ins g u)) \<and> g_reserved g' = g_reserved g \<and>
       (\<forall>m k. count_list (outs g' m) (0, k) = count_list (outs g m) (0, k))) \<or>
    (\<exists>g' m. swap_inputs sp u (int i) (int j) g = (Inl (Panic ''nid == id''), g') \<and> m \<noteq> u \<and> interned sp g m \<and>
       value_of g m = (kind_of g u, exchange i j (ins g u)))"
proof -
  note ok = graph_okD [OF g]
  have m: "edges_match {} g" using ok(1) by (simp add: edges_agree_def)
  obtain x where x: "g_nodes g u = Some x" "u \<noteq> 0" "unat u < 2 ^ 22" using live_node [OF u(1)] graph_ok_domain [OF g u(1)] by blast
  let ?a = "ins g u ! i" and ?b = "ins g u ! j" and ?g = "reindexed u i j g"
  have inps: "node_inps x = ins g u" "node_rtype x \<noteq> DEAD_NODE_KIND" using x(1) u(1) by (simp_all add: ins_def live_def)
  have "?a = 0 \<or> live g ?a" "?b = 0 \<or> live g ?b" using edge_bound [OF m, of u] u(1-3) by (auto simp: edge_at_def)
  then obtain xa xb where ab: "g_expand_node ?a g = (Inr xa, g)" "g_expand_node ?b g = (Inr xb, g)" using expand_live [OF m] by blast
  have exp: "g_expand_node u g = (Inr x, g)" using g_get_node_some [OF x(2,1)] inps(2) by (simp add: g_expand_node_def ret_apply)
  have run: "swap_inputs sp u (int i) (int j) g =
      bindM (reenter sp u (exchange i j)) (\<lambda>nid. assertM (nid = u) ''nid == id'') ?g"
    using exp ab u(2,3) mk_output_id [OF x(3) u(4)] mk_output_id [OF x(3) u(5)]
    by (simp add: swap_inputs_def inps put_outs reenter_def bindM_assoc reindexed_def Let_def)
  have dom: "g_nodes ?g 0 = None" using nil_no_node [OF ok(1)] by simp
  have view: "live g' = live g" "kind_of g' = kind_of g" "ins g' = (ins g)(u := exchange i j (ins g u))" "g_reserved g' = g_reserved g" "edges_match {} g'"
    "\<forall>m k. count_list (outs g' m) (0, k) = count_list (outs g m) (0, k)"
    if "same_graph (with_inps u (exchange i j) ?g) g'" for g'
  proof -
    have n: "g_nodes g' = g_nodes (with_inps u (exchange i j) ?g)" "g_reserved g' = g_reserved g" using that by (simp_all add: same_graph_def)
    note v = same_nodes_views [OF n(1)]
    show "live g' = live g" "kind_of g' = kind_of g" "ins g' = (ins g)(u := exchange i j (ins g u))" "g_reserved g' = g_reserved g"
      using x(1) by (simp_all add: v n(2) ins_with_inps fun_eq_iff)
    show "edges_match {} g'" by (rule exchanged_edges [OF m u(1) x(2) u(2-5) n(1)])
    show "\<forall>m k. count_list (outs g' m) (0, k) = count_list (outs g m) (0, k)"
      using reindexed_counts [OF m u(1) x(2) u(2,3)] x(2) unfolding v by simp
  qed
  have val: "value_of (with_inps u (exchange i j) ?g) u = (kind_of g u, exchange i j (ins g u))" using x(1) by (simp add: value_of_def ins_with_inps)
  have st: "table_ok sp {} Map.empty ?g" "nodes_ok sp ?g" "\<not> g_dont_intern ?g" "live ?g u" "\<not> g_reserved ?g < g_pos ?g + intern_room ?g"
    using ok(2,5) reindexed_nodes_ok [OF ok(3)] u(1) room by (simp_all add: intern_room_def)
  from reenter_returns [where f = "exchange i j", OF st(1-4) dom] st(5)
  consider g' where "reenter sp u (exchange i j) ?g = (Inr u, g')" "same_graph (with_inps u (exchange i j) ?g) g'" "table_ok sp {} Map.empty g'" "nodes_ok sp g'"
    | g' n where "reenter sp u (exchange i j) ?g = (Inr n, g')" "n \<noteq> u" "interned sp g n" "value_of g n = (kind_of g u, exchange i j (ins g u))"
    unfolding val by auto
  then show ?thesis
  proof cases
    case (1 g')
    have "graph_ok sp g'" using 1(2-4) view(5) [OF 1(2)] ok(4,5) by (simp add: graph_ok_def graph_inv_def edges_agree_def same_graph_def)
    then show ?thesis using 1(1) view(1-4,6) [OF 1(2)] run by (auto simp: ret_apply)
  next
    case (2 g' n)
    then show ?thesis using run by (auto simp: fail_apply)
  qed
qed

section \<open>The copy\<close>

lemma table_ok_never: "table_ok sp X Y g \<Longrightarrow> \<not> interned sp g n \<Longrightarrow> table_ok sp (X - {n}) Y g"
  unfolding table_ok_def rows_ok_def by auto

text \<open>What a copy of \<open>u\<close> needs: not a call, room for the node and for the outputs of its inputs.\<close>

definition clone_can :: "Node_Spec \<Rightarrow> graph \<Rightarrow> u32 \<Rightarrow> bool" where
  "clone_can sp g u \<longleftrightarrow>
     fst (kind_of g u) \<noteq> type_Call \<and> \<not> flag_interned sp (fst (kind_of g u)) \<and>
     (\<forall>j < length (ins g u). ins g u ! j \<noteq> 0 \<longrightarrow> length (outs g (ins g u ! j)) + length (ins g u) < 2 ^ 13 \<and>
        (inherits_cfg sp (fst (kind_of g (ins g u ! j))) \<longrightarrow> fst (kind_of g u) = type_Phi \<longrightarrow> j = 0)) \<and>
     (\<forall>x. g_nodes g u = Some x \<longrightarrow> g_pos g + compute_node_size sp (node_rtype x) (node_extra_dwords x) (g_has_dbg g) +
        4 * length (ins g u) + length (ins g u) * 2 ^ 16 \<le> g_reserved g)"

definition copied :: "node \<Rightarrow> node" where
  "copied x = x\<lparr>node_input_cap := of_nat (length (node_inps x)), node_outs := [], node_output_cap := 0\<rparr>"

lemma clone_place:
  assumes g: "nodes_ok sp g" "\<not> g_dont_intern g" and u: "u \<noteq> 0" "g_nodes g u = Some x" "live g u" "clone_can sp g u"
    and p: "p = g_pos g + compute_node_size sp (node_rtype x) (node_extra_dwords x) (g_has_dbg g) + 4 * length (node_inps x)"
    and n: "n = of_nat (g_pos g div 4)" "g_nodes g n = None"
  shows "clone sp u g = bindM (init_counts n) (\<lambda>_.
     bindM (forM (enumerate 0 (node_inps x)) (\<lambda>(i, inp). add_output sp inp n i)) (\<lambda>_. ret n)) (node_placed (copied x) p g)"
proof -
  let ?s = "compute_node_size sp (node_rtype x) (node_extra_dwords x) (g_has_dbg g)"
  have four: "4 dvd g_pos g" "4 dvd g_pos g + ?s" using g(1) by (auto simp: nodes_ok_def compute_node_size_def NODE_SIZE_def)
  have fits: "g_pos g + ?s + 4 * length (node_inps x) \<le> g_reserved g" using u(2,4) by (auto simp: clone_can_def ins_def)
  have x: "node_rtype x \<noteq> DEAD_NODE_KIND" "unat (node_rtype x) < type_count sp" "node_rtype x \<noteq> type_Call" "\<not> flag_interned sp (node_rtype x)"
    using u(2-4) known_type [OF g(1) u(2)] by (auto simp: live_def clone_can_def kind_of_def)
  have get: "g_get_node u g = (Inr x, g)" by (rule g_get_node_some [OF u(1,2)])
  let ?g1 = "g\<lparr>g_pos := g_pos g + ?s, g_nodes := (g_nodes g)(n \<mapsto> x)\<rparr>"
  have one: "shallow_clone sp u g = (Inr n, ?g1)"
    using u(1) x get four fits by (simp add: shallow_clone_def g_alloc_4 align_up_4 n(1) [symmetric] ret_apply)
  have two: "g_alloc (4 * length (node_inps x)) 4 ?g1 = (Inr (), ?g1\<lparr>g_pos := p\<rparr>)" using four fits p by (simp add: g_alloc_4)
  have three: "g_put_node n (\<lambda>y. y\<lparr>node_inps := node_inps x, node_input_cap := of_nat (length (node_inps x)), node_outs := [], node_output_cap := 0\<rparr>)
      (?g1\<lparr>g_pos := p\<rparr>) = (Inr (), node_placed (copied x) p g)"
    by (cases x) (simp add: g_put_node_def node_placed_def copied_def n(1) [symmetric])
  show ?thesis
    unfolding clone_def using get x one two three g(2) by (simp add: g_expand_node_def has_flag_def)
qed

lemma clone_returns:
  assumes g: "graph_ok sp g" "g_reserved g \<le> 2 ^ 24" and u: "live g u" "clone_can sp g u" and n_def: "n = of_nat (g_pos g div 4)"
  shows "\<exists>g'. clone sp u g = (Inr n, g') \<and> g_nodes g n = None \<and> graph_ok sp g' \<and> live g' n \<and> value_of g' n = value_of g u \<and> rest_kept n g g'"
proof -
  note ok = graph_okD [OF g(1)]
  obtain x where x: "g_nodes g u = Some x" "u \<noteq> 0" using live_node [OF u(1)] graph_ok_domain [OF g(1) u(1)] by blast
  define p where "p = g_pos g + compute_node_size sp (node_rtype x) (node_extra_dwords x) (g_has_dbg g) + 4 * length (node_inps x)"
  let ?x = "copied x" and ?g1 = "node_placed (copied x) p g" and ?k = "length (ins g u)"
  have xs: "ins g u = node_inps x" "kind_of g u = (node_rtype x, node_meta x, node_extra x)" "node_inps ?x = node_inps x"
    "node_rtype ?x \<noteq> DEAD_NODE_KIND" "node_outs ?x = []" "node_ok sp x"
    using x(1) u(1) ok(3) by (auto simp: ins_def kind_of_def copied_def live_def nodes_ok_def)
  have fits: "p + ?k * 2 ^ 16 \<le> g_reserved g" using u(2) x(1) xs(1) by (auto simp: clone_can_def p_def)
  have p: "4 dvd p" "g_pos g < p" using ok(3) by (auto simp: p_def nodes_ok_def compute_node_size_def NODE_SIZE_def)
  then have small: "g_pos g < 2 ^ 24" using fits g(2) by linarith
  note f = fresh_id [OF ok(3) small, folded n_def]
  have len: "length (node_inps x) \<le> unat (node_input_cap x)" "unat (node_input_cap x) < 2 ^ 16" using xs(6) unsigned_less [of "node_input_cap x"] by (simp_all add: node_ok_def)
  then have "node_ok sp ?x" using xs(6) by (simp add: node_ok_def copied_def unat_of_nat)
  note pl = node_placed_ok [OF g(1) small this xs(4,5) p refl n_def] and v = node_placed_views [OF refl n_def f(2) xs(4,5), of p]
  have old: "value_of ?g1 y = value_of g y" if "y \<noteq> n" for y using that by (simp add: value_of_def v(2,4))
  have vn: "value_of ?g1 n = value_of g u" by (simp add: value_of_def v(2,4) xs(1,2)) (simp add: copied_def)
  have ni: "\<not> interned sp ?g1 n" using u(2) vn by (simp add: interned_def value_of_def clone_can_def)
  have t: "table_ok sp {} Map.empty ?g1" using table_ok_never [OF pl(2) ni] by simp
  obtain g2 where g2: "init_counts n ?g1 = (Inr (), g2)" "only_outs ?g1 g2" "outs g2 = outs ?g1"
    "edges_match {(n, j) | j. j < length (node_inps ?x)} g2" "nodes_ok sp g2" "table_ok sp {} Map.empty g2" "g_pos g2 = g_pos ?g1"
    using init_counts_returns [of ?g1 n] v(5) pl t by (auto simp: init_counts_def g_put_node_def)
  note o2 = g2(2) [unfolded only_outs_def]
  have n2: "live g2 n" "ins g2 n = [] @ node_inps x" using o2 v(1,2) xs(3) by auto
  have "{(n, j) | j. 0 \<le> j \<and> j < 0 + length (node_inps x)} = {(n, j) | j. j < length (node_inps ?x)}" using xs(3) by simp
  then have m2: "edges_match {(n, j) | j. 0 \<le> j \<and> j < 0 + length (node_inps x)} g2" using g2(4) by simp
  have kn: "kind_of g2 n = kind_of g u" "\<And>y. y \<noteq> n \<Longrightarrow> kind_of g2 y = kind_of g y" "\<And>y. y \<noteq> n \<Longrightarrow> live g2 y = live g y"
    using o2 v(1,4) xs(2) by (auto simp: copied_def)
  have can: "outs_can sp g2 n 0 (node_inps x)"
    unfolding outs_can_def
  proof (intro conjI allI impI)
    fix j assume j: "j < length (node_inps x)" "node_inps x ! j \<noteq> 0"
    let ?d = "node_inps x ! j"
    have e: "edge_at g u j ?d" using j u(1) xs(1) by (simp add: edge_at_def)
    have m: "edges_match {} g" using ok(1) by (simp add: edges_agree_def)
    note b = edge_bound [OF m e]
    have dn: "?d \<noteq> n" using b f(2) live_node [of g ?d] by auto
    have c: "length (outs g ?d) + length (node_inps x) < 2 ^ 13" "inherits_cfg sp (fst (kind_of g ?d)) \<longrightarrow> fst (kind_of g u) = type_Phi \<longrightarrow> j = 0"
      using u(2) j xs(1) by (auto simp: clone_can_def)
    show "live g2 ?d" using b kn(3) dn by simp
    show "out_fits sp g2 ?d n (0 + j)" using b c(2) kn(1,2) dn by (simp add: out_fits_def)
    show "length (outs g2 ?d) + length (node_inps x) < 2 ^ 13" using c(1) g2(3) v(3) by simp
  next
    show "g_pos g2 + length (node_inps x) * 2 ^ 16 \<le> g_reserved g2" using g2(7) o2 fits xs(1) by (simp add: node_placed_def)
  qed
  then obtain g3 where g3: "forM (enumerate 0 (node_inps x)) (\<lambda>(i, inp). add_output sp inp n i) g2 = (Inr (), g3)" "edges_match {} g3"
    "nodes_ok sp g3" "table_ok sp {} Map.empty g3" "only_outs g2 g3"
    using outputs_loop [OF m2 n2 _ g2(5,6)] by auto
  have "clone sp u g = (Inr n, g3)"
    using clone_place [OF ok(3,5) x(2,1) u p_def n_def f(2)] g2(1) g3(1) by (simp add: ret_apply)
  moreover have only: "only_outs ?g1 g3" by (rule only_outs_trans [OF g2(2) g3(5)])
  moreover have "graph_ok sp g3"
    using only g3(2-4) ok(4,5) by (simp add: graph_ok_def graph_inv_def edges_agree_def only_outs_def node_placed_def)
  moreover have "rest_kept n g g3"
    unfolding rest_kept_def using only only_outs_views [OF only] old v(1,3) by (auto simp: only_outs_def node_placed_def)
  ultimately show ?thesis using f(2) only_outs_views [OF only] vn v(1) by (auto simp: only_outs_def)
qed

end
