(* ===== verification/Subsume.thy ===== *)
theory Subsume
  imports Graph_Edit
begin

text \<open>
  \<^verbatim>\<open>subsume\<close> of \<^verbatim>\<open>graph.odin\<close>: a node takes the place of another in all of its uses. The users change their values by it
  and may become equal to other nodes; those are subsumed in turn. Here are the definitions and what each part of a round does; that the whole
  is the merge it is meant to be is shown in the next theory.
\<close>

section \<open>Operations\<close>

definition is_cfg :: "Node_Spec \<Rightarrow> u32 \<Rightarrow> bool gact" where
  "is_cfg sp id' =
     bindM (g_get_node id') (\<lambda>n.
     bindM (assertM (unat (node_rtype n) < type_count sp) ''node.rtype < len(inheritance_table)'') (\<lambda>_.
     ret (inherits_cfg sp (node_rtype n))))"

text \<open>What is asserted of a user of the target before it becomes one of the replacement.\<close>

definition check_use :: "Node_Spec \<Rightarrow> u32 \<Rightarrow> u32 \<times> nat \<Rightarrow> unit gact" where
  "check_use sp with' = (\<lambda>(u, i).
     bindM (g_get_node u) (\<lambda>n.
     bindM (is_cfg sp with') (\<lambda>cfg.
     bindM (assertM (node_rtype n \<noteq> type_Region \<or> cfg) ''get_node(prc, out.id).itype != .Region || is_cfg(prc, with)'') (\<lambda>_.
     assertM (\<not> cfg \<or> node_rtype n \<noteq> type_Phi \<or> i = 0) ''!is_cfg(prc, with) || get_node(prc, out.id).itype != .Phi || out.idx == 0''))))"

text \<open>
  The outputs of the target are appended to those of the replacement. The count of outputs is a 16-bit number: when it wraps around, the start
  of the slice that is copied to is negative.
\<close>

definition move_outputs :: "u32 \<Rightarrow> u32 \<Rightarrow> (u32 \<times> nat) list \<Rightarrow> unit gact" where
  "move_outputs with' target touts =
     bindM (g_get_node with') (\<lambda>n.
     bindM (g_put_node target (node_outs_update (\<lambda>_. []))) (\<lambda>_.
     bindM (assertM (length (node_outs n) + length touts < 2 ^ 16) ''index out of range'') (\<lambda>_.
     bindM (requireM (4 * (length (node_outs n) + length touts) \<le> ids_size (node_output_cap n)) ''write past the outputs'') (\<lambda>_.
     g_put_node with' (node_outs_update (\<lambda>outs. outs @ touts))))))"

definition redirect_use :: "Node_Spec \<Rightarrow> u32 \<Rightarrow> u32 \<times> nat \<Rightarrow> unit gact" where
  "redirect_use sp with' = (\<lambda>(u, i).
     if (u, i) = (0, 0) then ret ()
     else
       bindM (unintern sp u 0) (\<lambda>_.
       bindM (g_get_node u) (\<lambda>n.
       bindM (assertM (i < length (node_inps n)) ''index out of range'') (\<lambda>_.
       put_input u i with'))))"

text \<open>
  The outputs of the target that the replacement still has, moved to the front of the array in place: \<open>keep_in\<close> is the inner loop over the
  outputs of the replacement, \<open>keep_at\<close> the outer one over the positions of the array. None is an index out of range.
\<close>

primrec keep_in :: "u32 \<times> nat \<Rightarrow> (u32 \<times> nat) list \<Rightarrow> (u32 \<times> nat) list \<times> nat \<Rightarrow> ((u32 \<times> nat) list \<times> nat) option" where
  "keep_in out [] st = Some st"
| "keep_in out (oout # ws) st =
     (if oout \<noteq> (0, 0) \<and> out = oout
      then if snd st < length (fst st) then keep_in out ws ((fst st)[snd st := out], Suc (snd st)) else None
      else keep_in out ws st)"

primrec keep_at :: "(u32 \<times> nat) list \<Rightarrow> nat list \<Rightarrow> (u32 \<times> nat) list \<times> nat \<Rightarrow> ((u32 \<times> nat) list \<times> nat) option" where
  "keep_at ws [] st = Some st"
| "keep_at ws (k # ks) st =
     (if fst st ! k = (0, 0) then keep_at ws ks st
      else case keep_in (fst st ! k) ws st of None \<Rightarrow> None | Some st' \<Rightarrow> keep_at ws ks st')"

definition keep_outputs :: "(u32 \<times> nat) list \<Rightarrow> (u32 \<times> nat) list \<Rightarrow> (u32 \<times> nat) list option" where
  "keep_outputs wouts touts = map_option (\<lambda>(arr, keep). take keep arr) (keep_at wouts [0..<length touts] (touts, 0))"

text \<open>
  A nil replacement: the users lose the input, and are merged with what they have become equal to, in rounds over the array of the target until
  one changes nothing. The ids that the rounds write back are seen by the next one. \<open>sub\<close> is the merge of two nodes.
\<close>

definition clear_use :: "Node_Spec \<Rightarrow> u32 \<times> nat \<Rightarrow> unit gact" where
  "clear_use sp = (\<lambda>(u, i).
     bindM (unintern sp u 0) (\<lambda>_.
     bindM (g_get_node u) (\<lambda>n.
     bindM (assertM (i < length (node_inps n)) ''index out of range'') (\<lambda>_.
     put_input u i 0))))"

primrec clear_pass :: "Node_Spec \<Rightarrow> (u32 \<Rightarrow> u32 \<Rightarrow> unit gact) \<Rightarrow> u32 \<Rightarrow> nat list \<Rightarrow> (u32 \<times> nat) list \<times> bool \<Rightarrow> ((u32 \<times> nat) list \<times> bool) gact" where
  "clear_pass sp sub target [] st = ret st"
| "clear_pass sp sub target (k # ks) st =
     (let out = fst st ! k
      in bindM (intern sp (fst out)) (\<lambda>id'.
         if id' \<noteq> fst out
         then bindM (sub id' (fst out)) (\<lambda>_.
              bindM (g_put_node target (node_outs_update (\<lambda>outs. outs[k := mk_output id' (snd out)]))) (\<lambda>_.
              clear_pass sp sub target ks ((fst st)[k := mk_output id' (snd out)], True)))
         else clear_pass sp sub target ks st))"

primrec clear_rounds :: "Node_Spec \<Rightarrow> (u32 \<Rightarrow> u32 \<Rightarrow> unit gact) \<Rightarrow> fault \<Rightarrow> u32 \<Rightarrow> nat \<Rightarrow> (u32 \<times> nat) list \<Rightarrow> unit gact" where
  "clear_rounds sp sub oof target 0 = (\<lambda>touts. fail oof)"
| "clear_rounds sp sub oof target (Suc n) = (\<lambda>touts.
     bindM (clear_pass sp sub target [0..<length touts] (touts, False)) (\<lambda>(touts', changed).
     if changed then clear_rounds sp sub oof target n touts' else ret ()))"

text \<open>
  \<open>oof\<close> is what happens when the fuel runs out: \<open>dfuel\<close> is that of each deletion, and of the rounds for a nil replacement; the other one bounds
  how deep the merges nest. Each merge is made after the target of the one around it is dead, so that the number of nodes, and one more, is enough.
\<close>

primrec subsume :: "Node_Spec \<Rightarrow> fault \<Rightarrow> nat \<Rightarrow> nat \<Rightarrow> u32 \<Rightarrow> u32 \<Rightarrow> unit gact" where
  "subsume sp oof dfuel 0 = (\<lambda>with' target. fail oof)"
| "subsume sp oof dfuel (Suc fuel) = (\<lambda>with' target.
     bindM (assertM (target \<noteq> 0) ''target != 0'') (\<lambda>_.
     bindM (g_expand_node with') (\<lambda>wnode.
     bindM (g_expand_node target) (\<lambda>tnode.
     if with' = 0
     then bindM (forM (node_outs tnode) (clear_use sp)) (\<lambda>_.
          bindM (clear_rounds sp (subsume sp oof dfuel fuel) oof target dfuel (node_outs tnode)) (\<lambda>_.
          bindM (g_put_node target (node_outs_update (\<lambda>_. []))) (\<lambda>_.
          delete_node sp oof dfuel target)))
     else
     bindM (assertM (with' \<noteq> target) ''with != target'') (\<lambda>_.
     bindM (ensure_available_output_cap with' (of_nat (length (node_outs tnode)))) (\<lambda>_.
     bindM (forM (node_outs tnode) (check_use sp with')) (\<lambda>_.
     bindM (move_outputs with' target (node_outs tnode)) (\<lambda>_.
     bindM (forM (node_outs tnode) (redirect_use sp with')) (\<lambda>_.
     bindM (g_pin sp with') (\<lambda>_.
     bindM (delete_node sp oof dfuel target) (\<lambda>_.
     bindM (g_expand_node with') (\<lambda>wnode.
     bindM (expectM (keep_outputs (node_outs wnode) (node_outs tnode)) ''index out of range'') (\<lambda>kept.
     bindM (forM (rev kept) (\<lambda>(u, i).
       bindM (g_get_node u) (\<lambda>n.
       if node_rtype n = DEAD_NODE_KIND then ret ()
       else
         bindM (intern sp u) (\<lambda>id'.
         if id' \<noteq> u then subsume sp oof dfuel fuel id' u else ret ())))) (\<lambda>_.
     g_unpin sp oof dfuel with' False))))))))))))))"

definition set_input_subsuming :: "Node_Spec \<Rightarrow> fault \<Rightarrow> nat \<Rightarrow> nat \<Rightarrow> u32 \<Rightarrow> int \<Rightarrow> u32 \<Rightarrow> u32 gact" where
  "set_input_subsuming sp oof dfuel fuel id' =
     set_input_by sp oof dfuel (\<lambda>nid. if nid \<noteq> id' then subsume sp oof dfuel fuel nid id' else ret ()) id'"

declare subsume.simps [simp del]

section \<open>The compaction in place\<close>

lemma keep_in_absent: "out \<notin> set ws \<Longrightarrow> keep_in out ws st = Some st"
  by (induction ws) auto

lemma keep_in_once:
  "count_list ws out = 1 \<Longrightarrow> out \<noteq> (0, 0) \<Longrightarrow> keep < length arr \<Longrightarrow> keep_in out ws (arr, keep) = Some (arr[keep := out], Suc keep)"
proof (induction ws)
  case (Cons o' ws)
  show ?case
  proof (cases "o' = out")
    case True
    then have "out \<notin> set ws" using Cons.prems(1) by (simp add: count_list_0_iff)
    then show ?thesis using True Cons.prems keep_in_absent [of out ws] by simp
  next
    case False
    then show ?thesis using Cons by simp
  qed
qed simp

lemma keep_at_filter:
  assumes "\<forall>e \<in> set xs. e \<noteq> (0, 0) \<longrightarrow> count_list ws e \<le> 1"
  shows "k \<le> length xs \<Longrightarrow> length ys \<le> k \<Longrightarrow> length arr = length xs \<Longrightarrow> take (length ys) arr = ys \<Longrightarrow> drop k arr = drop k xs \<Longrightarrow>
    \<exists>arr'. keep_at ws [k..<length xs] (arr, length ys) = Some (arr', length ys + length (filter (\<lambda>e. e \<noteq> (0, 0) \<and> e \<in> set ws) (drop k xs))) \<and>
      length arr' = length xs \<and>
      take (length ys + length (filter (\<lambda>e. e \<noteq> (0, 0) \<and> e \<in> set ws) (drop k xs))) arr' = ys @ filter (\<lambda>e. e \<noteq> (0, 0) \<and> e \<in> set ws) (drop k xs)"
proof (induction "length xs - k" arbitrary: k ys arr)
  case 0
  then show ?case by simp
next
  case (Suc d)
  let ?P = "\<lambda>e. e \<noteq> (0, 0) \<and> e \<in> set ws"
  have k: "k < length xs" using Suc.hyps(2) by simp
  then have up: "[k..<length xs] = k # [Suc k..<length xs]" and dr: "drop k xs = xs ! k # drop (Suc k) xs" by (simp_all add: upt_conv_Cons Cons_nth_drop_Suc)
  have "drop k arr = arr ! k # drop (Suc k) arr" using k Suc.prems(3) by (simp add: Cons_nth_drop_Suc)
  then have at: "arr ! k = xs ! k" "drop (Suc k) arr = drop (Suc k) xs" using Suc.prems(5) dr by simp_all
  show ?case
  proof (cases "?P (xs ! k)")
    case True
    have "xs ! k \<in> set xs" using k by simp
    then have "count_list ws (xs ! k) = 1" using True assms in_set_count [of "xs ! k" ws] by force
    then have one: "keep_in (xs ! k) ws (arr, length ys) = Some (arr[length ys := xs ! k], Suc (length ys))"
      using True k Suc.prems(2,3) by (intro keep_in_once) auto
    have tk: "take (length (ys @ [xs ! k])) (arr[length ys := xs ! k]) = ys @ [xs ! k]"
      using Suc.prems(2-4) k by (simp add: take_Suc_conv_app_nth)
    have dk: "drop (Suc k) (arr[length ys := xs ! k]) = drop (Suc k) xs" using at(2) Suc.prems(2) by (simp add: drop_update_cancel)
    show ?thesis
      using Suc.hyps(1) [of "Suc k" "ys @ [xs ! k]" "arr[length ys := xs ! k]", OF _ _ _ _ tk dk] Suc.hyps(2) Suc.prems(2,3) k True one at(1)
      unfolding up dr by simp
  next
    case False
    have "keep_at ws [k..<length xs] (arr, length ys) = keep_at ws [Suc k..<length xs] (arr, length ys)"
      using False keep_in_absent [of "xs ! k" ws "(arr, length ys)"] at(1) unfolding up by auto
    then show ?thesis
      using Suc.hyps(1) [of "Suc k" ys arr, OF _ _ _ Suc.prems(3,4) at(2)] Suc.hyps(2) Suc.prems(2) k False unfolding dr by auto
  qed
qed

lemma keep_outputs_filter:
  assumes "\<And>e. e \<in> set xs \<Longrightarrow> e \<noteq> (0, 0) \<Longrightarrow> count_list ws e \<le> 1"
  shows "keep_outputs ws xs = Some (filter (\<lambda>e. e \<noteq> (0, 0) \<and> e \<in> set ws) xs)"
  using keep_at_filter [of xs ws 0 "[]" xs] assms by (auto simp: keep_outputs_def)

end
