(* ===== verification/Subsume_Laws.thy ===== *)
theory Subsume_Laws
  imports Subsume
begin

text \<open>
  What \<^verbatim>\<open>subsume\<close> does: it stops, it keeps the graph well-formed, and the graph it leaves is the one before with nodes merged: the target
  into the replacement, and then every two interned nodes that have become equal by it. Nothing that is pinned is lost.
\<close>

section \<open>Ways to end\<close>

text \<open>A computation ends with one of the faults in \<open>F\<close>, or returns and \<open>Q\<close> holds.\<close>

definition ends :: "fault set \<Rightarrow> ('a \<Rightarrow> graph \<Rightarrow> bool) \<Rightarrow> 'a res \<times> graph \<Rightarrow> bool" where
  "ends F Q rg = (case rg of (r, g') \<Rightarrow> (case r of Inl e \<Rightarrow> e \<in> F | Inr x \<Rightarrow> Q x g'))"

lemma ends_simps [simp]: "ends F Q (Inl e, g) \<longleftrightarrow> e \<in> F" "ends F Q (Inr x, g) \<longleftrightarrow> Q x g"
  by (simp_all add: ends_def)

lemma ends_bind:
  assumes "ends F Q (p g)" "\<And>x g'. Q x g' \<Longrightarrow> ends F R (q x g')"
  shows "ends F R (bindM p q g)"
proof (cases "p g")
  case (Pair r g')
  then show ?thesis using assms(1) assms(2) [of _ g'] by (cases r) simp_all
qed

lemma ends_mono: "ends F Q rg \<Longrightarrow> F \<subseteq> F' \<Longrightarrow> (\<And>x g'. Q x g' \<Longrightarrow> Q' x g') \<Longrightarrow> ends F' Q' rg"
  by (auto simp: ends_def split: prod.splits sum.splits)

definition arena_full :: fault where
  "arena_full = Ub ''the arena is full''"

definition outputs_full :: fault where
  "outputs_full = Ub ''write past the outputs''"

text \<open>
  The faults of \<^verbatim>\<open>subsume\<close>: no memory, the end of the graph without a user, a user that a replacement of its kind cannot have, and a replacement
  that has itself been merged into another node when its pin is taken back, which happens only if it uses the target. In a graph whose nodes
  and edges are 8191 or more, the outputs of a node may also outgrow an array whose size is computed in 16 bits.
\<close>

definition subsume_faults :: "nat \<Rightarrow> fault set" where
  "subsume_faults s = {arena_full, Panic ''node.itype != .End'', Panic ''get_node(prc, out.id).itype != .Region || is_cfg(prc, with)'',
     Panic ''!is_cfg(prc, with) || get_node(prc, out.id).itype != .Phi || out.idx == 0'', Panic ''output not found''} \<union>
     (if s < 2 ^ 13 - 1 then {} else {outputs_full})"

lemma outputs_full_fault: "2 ^ 13 - 1 \<le> n \<Longrightarrow> n \<le> s \<Longrightarrow> outputs_full \<in> subsume_faults s"
  by (simp add: subsume_faults_def)

section \<open>Room for the outputs\<close>

definition same_rest :: "graph \<Rightarrow> graph \<Rightarrow> bool" where
  "same_rest g g' \<longleftrightarrow> g_hashes g' = g_hashes g \<and> g_ids g' = g_ids g \<and> g_len g' = g_len g \<and> g_dont_delete g' = g_dont_delete g \<and>
     g_dont_intern g' = g_dont_intern g \<and> g_reserved g' = g_reserved g \<and> g_pos g \<le> g_pos g' \<and> 4 dvd g_pos g'"

text \<open>A new array is large enough, or its size has wrapped around and the outputs are written past it.\<close>

lemma cap_wraps:
  fixes c k l :: nat
  assumes "l \<le> c" "c < 2 ^ 14" "k < 2 ^ 14" "c < l + k" and n: "n = max (2 * c + 2) (c + k)"
  shows "4 * (l + k) \<le> n * 4 mod 2 ^ 16 \<Longrightarrow> n < 2 ^ 14" "l + k < 2 ^ 13 - 1 \<Longrightarrow> n < 2 ^ 14"
proof -
  show "n < 2 ^ 14" if "l + k < 2 ^ 13 - 1" using assms that by simp
  show "n < 2 ^ 14" if h: "4 * (l + k) \<le> n * 4 mod 2 ^ 16"
  proof (rule ccontr)
    assume w: "\<not> n < 2 ^ 14"
    show False
    proof (cases "n = 2 ^ 15")
      case True
      then show False using h assms(4) by simp
    next
      case False
      then have "n < 2 ^ 15" using assms by simp
      then have "n * 4 mod 2 ^ 16 = n * 4 - 2 ^ 16" using w by (simp add: mod_if)
      then have "l + k + 2 ^ 14 \<le> n" using h w by simp
      then show False using assms False by (cases "2 * c + 2 \<le> c + k") simp_all
    qed
  qed
qed

lemma ensure_cap_many:
  assumes x: "g_nodes g d = Some x" "d \<noteq> 0" "node_ok sp x" and p: "4 dvd g_pos g" and k: "k < 2 ^ 14"
  shows "ends {arena_full} (\<lambda>_ g'. same_rest g g' \<and> (\<exists>c. g_nodes g' = (g_nodes g)(d \<mapsto> x\<lparr>node_output_cap := c\<rparr>) \<and>
    (length (node_outs x) + k \<le> unat c \<and> unat c < 2 ^ 14 \<or>
     ids_size c < 4 * (length (node_outs x) + k) \<and> 2 ^ 13 - 1 \<le> length (node_outs x) + k))) (ensure_available_output_cap d (of_nat k) g)"
proof -
  let ?c = "node_output_cap x" and ?l = "length (node_outs x)" and ?n = "max (node_output_cap x * 2 + 2) (node_output_cap x + of_nat k)"
  have c: "?l \<le> unat ?c" "unat ?c < 2 ^ 14" using x(3) by (auto simp: node_ok_def)
  have l: "unat (of_nat ?l :: u16) = ?l" "unat (of_nat k :: u16) = k" using c k by (simp_all add: unat_of_nat)
  have "unat (?c - of_nat ?l) = unat ?c - ?l" using c(1) l(1) by (subst unat_sub) (simp_all add: word_le_nat_alt)
  then have less: "?c - of_nat ?l < of_nat k \<longleftrightarrow> unat ?c < ?l + k" using l(2) c(1) by (simp add: word_less_nat_alt) linarith
  note get = g_get_node_some [OF x(2,1)]
  show ?thesis
  proof (cases "unat ?c < ?l + k")
    case False
    have "(g_nodes g)(d \<mapsto> x\<lparr>node_output_cap := ?c\<rparr>) = g_nodes g" using x(1) by (auto simp: fun_eq_iff)
    then show ?thesis using False less get c p by (auto simp: ensure_available_output_cap_def ret_apply same_rest_def intro!: exI [of _ ?c])
  next
    case True
    have "unat (?c + of_nat k) = unat ?c + k" using c(2) l(2) k by (subst unat_add_lem [THEN iffD1]) auto
    then have n: "unat ?n = max (2 * unat ?c + 2) (unat ?c + k)" using new_cap_small [OF c(2)] by (simp add: max_def word_le_nat_alt)
    have sz: "ids_size ?n = unat ?n * 4 mod 2 ^ 16" unfolding ids_size_def unat_word_ariths(2) by simp
    have "?l + k \<le> unat ?n" using n True c(1) by simp
    then have small: "?l + k \<le> unat ?n \<and> unat ?n < 2 ^ 14 \<or> ids_size ?n < 4 * (?l + k) \<and> 2 ^ 13 - 1 \<le> ?l + k"
      using cap_wraps [OF c k True n] unfolding sz by linarith
    have "4 dvd ids_size ?n" unfolding sz by (simp add: dvd_mod)
    then have four: "4 dvd g_pos g + ids_size ?n" using p by simp
    let ?g = "g\<lparr>g_waste := g_waste g + int (ids_size ?c)\<rparr>"
    have "4 dvd g_pos ?g" using p by simp
    note alloc = g_alloc_4 [OF this, of "ids_size ?n"]
    have run: "ensure_available_output_cap d (of_nat k) g = bindM (g_alloc (ids_size ?n) 4) (\<lambda>_. g_put_node d (node_output_cap_update (\<lambda>_. ?n))) ?g"
      using True less get by (simp add: ensure_available_output_cap_def Let_def)
    show ?thesis
    proof (cases "g_pos g + ids_size ?n \<le> g_reserved g")
      case fits: True
      then have "ensure_available_output_cap d (of_nat k) g =
          (Inr (), ?g\<lparr>g_pos := g_pos g + ids_size ?n, g_nodes := (g_nodes g)(d \<mapsto> x\<lparr>node_output_cap := ?n\<rparr>)\<rparr>)"
        unfolding run using alloc by (simp add: g_put_node_def x(1))
      then show ?thesis using small four by (auto simp: same_rest_def)
    next
      case False
      then show ?thesis unfolding run using alloc by (simp add: arena_full_def)
    qed
  qed
qed

lemma pin_ends:
  assumes g: "nodes_ok sp g" and d: "d \<noteq> 0" "live g d"
  shows "ends ({arena_full} \<union> (if length (outs g d) < 2 ^ 13 - 1 then {} else {outputs_full})) (\<lambda>_ g'. out_added d (0, 0) g g') (g_pin sp d g)"
proof -
  obtain x where x: "g_nodes g d = Some x" using live_node [OF d(2)] by blast
  have ok: "node_ok sp x" "4 dvd g_pos g" using g x by (auto simp: nodes_ok_def)
  have o: "outs g d = node_outs x" using x by (simp add: outs_def)
  let ?c = "node_output_cap x"
  show ?thesis
  proof (cases "out_room g d")
    case True
    then show ?thesis
      using add_output_cases(1) [OF g d(1), of 0 0] x d(2) by (auto simp: g_pin_def out_fits_def mk_output_def)
  next
    case False
    then have f: "length (node_outs x) = unat ?c" "unat ?c < 2 ^ 13 - 1 \<Longrightarrow> \<not> g_pos g + ids_size (?c * 2 + 2) \<le> g_reserved g"
      using ok(1) x by (auto simp: out_room_def node_ok_def)
    show ?thesis
    proof (cases "g_pos g + ids_size (?c * 2 + 2) \<le> g_reserved g")
      case True
      then have big: "\<not> unat ?c < 2 ^ 13 - 1" using f(2) by blast
      then have "ids_size (?c * 2 + 2) \<le> 4 * length (node_outs x)" using grown_cap(1) [of ?c] ok(1) f(1) by (metis node_ok_def not_le)
      moreover have "out_fits sp g d 0 0" by (simp add: out_fits_def)
      ultimately have "fst (g_pin sp d g) = Inl outputs_full"
        using add_output_write(3) [OF x d(1,2) g, of 0, OF _ ensure_cap [OF x d(1) ok, THEN trans]] True f(1)
        by (simp add: g_pin_def outputs_full_def)
      then show ?thesis using big f(1) o by (cases "g_pin sp d g") auto
    next
      case no: False
      have "g_pin sp d g = (Inl arena_full, g\<lparr>g_waste := g_waste g + int (ids_size ?c)\<rparr>)"
        using ensure_cap [OF x d(1) ok] f(1) no d x by (simp add: g_pin_def add_output_def g_get_node_some [OF d(1) x] live_def arena_full_def)
      then show ?thesis by simp
    qed
  qed
qed

section \<open>The uses move\<close>

definition users :: "(u32 \<times> nat) list \<Rightarrow> u32 set" where
  "users es = {u. \<exists>i. (u, i) \<in> set es \<and> (u, i) \<noteq> (0, 0)}"

lemma users_Cons: "users ((u, i) # es) = (if (u, i) = (0, 0) then users es else insert u (users es))"
  by (auto simp: users_def)

text \<open>The inputs at the places \<open>es\<close> have been set to \<open>v\<close>.\<close>

definition inputs_set :: "(u32 \<times> nat) list \<Rightarrow> u32 \<Rightarrow> graph \<Rightarrow> graph \<Rightarrow> bool" where
  "inputs_set es v g g' \<longleftrightarrow> live g' = live g \<and> kind_of g' = kind_of g \<and> outs g' = outs g \<and> (\<forall>n. g_nodes g' n = None \<longleftrightarrow> g_nodes g n = None) \<and>
     (\<forall>n. length (ins g' n) = length (ins g n)) \<and>
     (\<forall>n. \<forall>j < length (ins g n). ins g' n ! j = (if (n, j) \<in> set es \<and> (n, j) \<noteq> (0, 0) then v else ins g n ! j)) \<and>
     g_dont_delete g' = g_dont_delete g \<and> g_dont_intern g' = g_dont_intern g \<and> g_reserved g' = g_reserved g"

lemma redirect_one:
  assumes g: "table_ok sp X Map.empty g" "nodes_ok sp g" "\<not> g_dont_intern g" "g_nodes g 0 = None"
    and e: "(u, i) = (0, 0) \<or> live g u \<and> i < length (ins g u)"
  shows "\<exists>g'. redirect_use sp v (u, i) g = (Inr (), g') \<and> inputs_set [(u, i)] v g g' \<and> table_ok sp (X \<union> users [(u, i)]) Map.empty g' \<and> nodes_ok sp g'"
proof (cases "(u, i) = (0, 0)")
  case True
  then show ?thesis using g by (auto simp: redirect_use_def ret_apply inputs_set_def users_def)
next
  case False
  then have u: "live g u" "i < length (ins g u)" using e by auto
  obtain x where x: "g_nodes g u = Some x" "u \<noteq> 0" using live_node [OF u(1)] g(4) by (cases "u = 0") auto
  obtain g1 where g1: "unintern sp u 0 g = (Inr (), g1)" "same_graph g g1" "g_pos g1 = g_pos g" "table_ok sp (insert u X) Map.empty g1"
    using unintern_returns [OF g(1-3) u(1) g(4)] by blast
  have n1: "g_nodes g1 = g_nodes g" using g1(2) by (simp add: same_graph_def)
  note v1 = same_nodes_views [OF n1]
  let ?g = "with_input u i v g1"
  have "redirect_use sp v (u, i) g = (Inr (), ?g)"
    using False g1(1) g_get_node_some [OF x(2), of g1 x] n1 x u(2) by (simp add: redirect_use_def put_input_returns ins_def)
  moreover have "inputs_set [(u, i)] v g ?g"
    using False g1(2) u(2) n1 unfolding inputs_set_def by (auto simp: v1 nth_list_update same_graph_def)
  moreover have "table_ok sp (X \<union> users [(u, i)]) Map.empty ?g"
  proof -
    have "X \<union> users [(u, i)] = insert u X" using False by (auto simp: users_def)
    then show ?thesis using table_ok_with_inps [OF g1(4), of u] u(1) by (simp add: v1 with_input_inps)
  qed
  moreover have "nodes_ok sp ?g" using with_input_nodes_ok [OF nodes_ok_mono [OF g(2) n1]] g1(3) g(2) by (simp add: nodes_ok_def)
  ultimately show ?thesis by blast
qed

lemma inputs_set_step:
  assumes "inputs_set [e] v g g1" "inputs_set es v g1 g'"
  shows "inputs_set (e # es) v g g'"
  using assms unfolding inputs_set_def by auto

lemma redirect_loop:
  assumes "table_ok sp X Map.empty g" "nodes_ok sp g" "\<not> g_dont_intern g" "g_nodes g 0 = None"
    "\<forall>(u, i) \<in> set es. (u, i) = (0, 0) \<or> live g u \<and> i < length (ins g u)"
  shows "\<exists>g'. forM es (redirect_use sp v) g = (Inr (), g') \<and> inputs_set es v g g' \<and> table_ok sp (X \<union> users es) Map.empty g' \<and> nodes_ok sp g'"
  using assms
proof (induction es arbitrary: g X)
  case Nil
  then show ?case by (auto simp: ret_apply inputs_set_def users_def)
next
  case (Cons e es)
  obtain u i where e: "e = (u, i)" by force
  obtain g1 where g1: "redirect_use sp v (u, i) g = (Inr (), g1)" "inputs_set [(u, i)] v g g1" "table_ok sp (X \<union> users [(u, i)]) Map.empty g1" "nodes_ok sp g1"
    using redirect_one [OF Cons.prems(1-4), of u i v] Cons.prems(5) e by auto
  note s = g1(2) [unfolded inputs_set_def]
  have pre: "\<not> g_dont_intern g1" "g_nodes g1 0 = None" "\<forall>(u, i) \<in> set es. (u, i) = (0, 0) \<or> live g1 u \<and> i < length (ins g1 u)"
    using Cons.prems(3-5) s by auto
  obtain g' where g': "forM es (redirect_use sp v) g1 = (Inr (), g')" "inputs_set es v g1 g'"
    "table_ok sp (X \<union> users [(u, i)] \<union> users es) Map.empty g'" "nodes_ok sp g'"
    using Cons.IH [OF g1(3,4) pre] by blast
  have "X \<union> users [(u, i)] \<union> users es = X \<union> users (e # es)" by (auto simp: users_Cons e users_def)
  then show ?case using g1(1) g' inputs_set_step [OF g1(2) g'(2)] e by auto
qed

text \<open>The outputs of \<open>t\<close> have been moved to \<open>w\<close>, and in the inputs of their users \<open>w\<close> stands for \<open>t\<close>.\<close>

lemma moved_edges:
  assumes g: "edges_match {} g" and w: "live g w" "w \<noteq> 0" "w \<noteq> t" "t \<noteq> 0"
    and g1: "live g1 = live g" "ins g1 = ins g" "outs g1 = (outs g)(w := outs g w @ outs g t, t := [])" "\<And>n. g_nodes g1 n = None \<longleftrightarrow> g_nodes g n = None"
    and s: "inputs_set (outs g t) w g1 g'"
  shows "edges_match {} g'" "live g n \<Longrightarrow> ins g' n = map (id(t := w)) (ins g n)"
proof -
  note s' = s [unfolded inputs_set_def]
  have n0: "n \<noteq> 0" if "live g n" for n using that edges_matchD(1) [OF g, of n] live_node by blast
  have use: "(n, j) \<in> set (outs g t) \<longleftrightarrow> edge_at g n j t" if "n \<noteq> 0" for n j
    using edges_counted [OF g that, of t j] by (auto simp: in_set_count split: if_splits)
  have t0: "edge_at g n j t" if "live g n" "j < length (ins g n)" "ins g n ! j = t" "t \<noteq> 0" for n j using that by (simp add: edge_at_def)
  have zero: "outs g 0 = []" using edges_matchD(1) [OF g, of 0] by (cases "g_nodes g 0") (auto simp: outs_def)
  have nth: "ins g' n ! j = (if edge_at g n j t then w else ins g n ! j)" if "live g n" "j < length (ins g n)" for n j
    using s' g1(2) n0 [OF that(1)] use that by simp
  show "edges_match {} g'"
  proof (rule edges_by_counts)
    have edge: "edge_at g' n j d \<longleftrightarrow> (if edge_at g n j t then d = w else edge_at g n j d)" for n j d
      using s' g1(1,2) nth w(2) by (auto simp: edge_at_def)
    show "j < 256" if "edge_at g' n j d" for n j d
      using that edge_bound [OF g, of n j d] edge_bound [OF g, of n j t] unfolding edge by (auto split: if_splits)
    show "count_list (outs g' d) (n, j) = (if edge_at g' n j d then 1 else 0)" if "n \<noteq> 0" for n j d
    proof -
      have "edge_at g n j t \<Longrightarrow> \<not> edge_at g n j w" using w(3) by (simp add: edge_at_def)
      moreover have "edge_at g n j t \<Longrightarrow> edge_at g n j d \<longleftrightarrow> d = t" for d by (auto simp: edge_at_def)
      ultimately show ?thesis using s' w(3) edges_counted [OF g that] unfolding edge g1(3) by auto
    qed
    show "outs g' n = []" if "\<not> live g' n" for n
      using that s' g1(1,3) w(1) edges_matchD(2) [OF g, of n] by auto
  qed (use edges_matchD(1) [OF g] s' g1(4) in auto)
  show "ins g' n = map (id(t := w)) (ins g n)" if n: "live g n"
    using nth [OF n] s' g1(2) w(4) by (intro nth_equalityI) (auto simp: edge_at_def n)
qed

section \<open>Merges\<close>

text \<open>
  The graph \<open>g'\<close> is \<open>g\<close> with each node \<open>n\<close> merged into \<open>r n\<close>. What is left has its inputs renamed; every node that has been merged, but for those
  in \<open>T\<close>, is equal to the one it has become when the inputs of both are renamed.
\<close>

definition merged :: "u32 set \<Rightarrow> (u32 \<Rightarrow> u32) \<Rightarrow> graph \<Rightarrow> graph \<Rightarrow> bool" where
  "merged T r g g' \<longleftrightarrow>
     (\<forall>n. live g' n \<longrightarrow> live g n \<and> r n = n \<and> kind_of g' n = kind_of g n \<and> ins g' n = map r (ins g n)) \<and>
     (\<forall>n. \<not> live g n \<longrightarrow> r n = n) \<and> (\<forall>n. live g n \<longrightarrow> live g (r n)) \<and>
     (\<forall>n. live g n \<longrightarrow> n \<notin> T \<longrightarrow> kind_of g (r n) = kind_of g n \<and> map r (ins g (r n)) = map r (ins g n)) \<and>
     (\<forall>n. g_nodes g' n = None \<longleftrightarrow> g_nodes g n = None)"

lemma mergedD:
  assumes "merged T r g g'"
  shows "live g' n \<Longrightarrow> live g n" "live g' n \<Longrightarrow> r n = n" "live g' n \<Longrightarrow> kind_of g' n = kind_of g n" "live g' n \<Longrightarrow> ins g' n = map r (ins g n)"
    "\<not> live g n \<Longrightarrow> r n = n" "live g n \<Longrightarrow> live g (r n)" "live g n \<Longrightarrow> n \<notin> T \<Longrightarrow> kind_of g (r n) = kind_of g n"
    "live g n \<Longrightarrow> n \<notin> T \<Longrightarrow> map r (ins g (r n)) = map r (ins g n)" "g_nodes g' n = None \<longleftrightarrow> g_nodes g n = None"
  using assms unfolding merged_def by blast+

lemma merged_trans:
  assumes 1: "merged T r1 g g1" and 2: "merged {} r2 g1 g2"
  shows "merged T (r2 \<circ> r1) g g2"
  unfolding merged_def
proof (intro conjI allI impI)
  let ?r = "r2 \<circ> r1"
  note a = mergedD [OF 1] and b = mergedD [OF 2]
  fix n
  show "g_nodes g2 n = None \<longleftrightarrow> g_nodes g n = None" using a(9) b(9) by simp
  {
    assume n: "live g2 n"
    have n1: "live g1 n" by (rule b(1) [OF n])
    show "live g n" by (rule a(1) [OF n1])
    show "?r n = n" using a(2) [OF n1] b(2) [OF n] by simp
    show "kind_of g2 n = kind_of g n" using a(3) [OF n1] b(3) [OF n] by simp
    show "ins g2 n = map ?r (ins g n)" using a(4) [OF n1] b(4) [OF n] by simp
  next
    assume n: "\<not> live g n"
    then have "\<not> live g1 n" using a(1) by blast
    then show "?r n = n" using a(5) [OF n] b(5) [of n] by simp
  next
    assume n: "live g n"
    show "live g (?r n)"
    proof (cases "live g1 (r1 n)")
      case True
      then show ?thesis using a(1) [OF b(6) [OF True]] by simp
    next
      case False
      then show ?thesis using b(5) [OF False] a(6) [OF n] by simp
    qed
    assume T: "n \<notin> T"
    have "kind_of g (r2 (r1 n)) = kind_of g n \<and> map ?r (ins g (r2 (r1 n))) = map ?r (ins g n)"
    proof (cases "live g1 (r1 n)")
      case True
      have l: "live g1 (r2 (r1 n))" by (rule b(6) [OF True])
      have "map r2 (ins g1 (r2 (r1 n))) = map r2 (ins g1 (r1 n))" "kind_of g1 (r2 (r1 n)) = kind_of g1 (r1 n)" using b(7,8) [OF True] by simp_all
      then have "map r2 (map r1 (ins g (r2 (r1 n)))) = map r2 (map r1 (ins g (r1 n)))" "kind_of g (r2 (r1 n)) = kind_of g (r1 n)"
        using a(3,4) [OF l] a(3,4) [OF True] by simp_all
      then show ?thesis using a(7,8) [OF n T] by (metis map_map)
    next
      case False
      then show ?thesis using b(5) [OF False] a(7,8) [OF n T] by (metis map_map)
    qed
    then show "kind_of g (?r n) = kind_of g n" "map ?r (ins g (?r n)) = map ?r (ins g n)" by auto
  }
qed

text \<open>Nothing is merged when nodes only die.\<close>

lemma merged_id:
  assumes "\<And>n. live g' n \<Longrightarrow> live g n \<and> value_of g' n = value_of g n" "\<And>n. g_nodes g' n = None \<longleftrightarrow> g_nodes g n = None"
  shows "merged {} id g g'"
  using assms unfolding merged_def by (simp add: value_of_def)

text \<open>A target that was equal to its replacement is no exception.\<close>

lemma merged_equal:
  assumes m: "merged {t} r g g'" and t: "r t = r w" "live g w" "w \<noteq> t" "value_of g w = value_of g t"
  shows "merged {} r g g'"
proof -
  have "kind_of g (r t) = kind_of g t \<and> map r (ins g (r t)) = map r (ins g t)"
    using mergedD(7,8) [OF m t(2)] t by (simp add: value_of_def)
  then show ?thesis using m unfolding merged_def by blast
qed

section \<open>Size and pins\<close>

definition size_of :: "graph \<Rightarrow> nat" where
  "size_of g = edge_count g + card {n. live g n}"

definition pins :: "graph \<Rightarrow> u32 \<Rightarrow> nat" where
  "pins g n = count_list (outs g n) (0, 0)"

definition pins_ok :: "graph \<Rightarrow> bool" where
  "pins_ok g \<longleftrightarrow> (\<forall>d i. (0, i) \<in> set (outs g d) \<longrightarrow> i = 0)"

lemma pins_ok_counts: "pins_ok g \<Longrightarrow> \<forall>m k. count_list (outs g' m) (0, k) \<le> count_list (outs g m) (0, k) \<Longrightarrow> pins_ok g'"
  unfolding pins_ok_def in_set_count by (meson less_le_trans)

lemma card_live_mono: "(\<And>n. live g' n \<Longrightarrow> live g n) \<Longrightarrow> card {n. live g' n} \<le> card {n. live g n}"
  by (intro card_mono) auto

lemma card_live_less: "(\<And>n. live g' n \<Longrightarrow> live g n) \<Longrightarrow> live g t \<Longrightarrow> \<not> live g' t \<Longrightarrow> card {n. live g' n} < card {n. live g n}"
  by (intro psubset_card_mono) auto

lemma pinned_live: "graph_inv sp E X Y g \<Longrightarrow> 0 < pins g n \<Longrightarrow> live g n"
  using edges_agreeD(2) [of E g n] by (cases "live g n") (auto simp: pins_def graph_inv_def)

lemma outs_le: "length (outs g n) \<le> edge_count g"
  unfolding edge_count_def by (rule member_le_sum) auto

lemma outs_le_two: "w \<noteq> t \<Longrightarrow> length (outs g w) + length (outs g t) \<le> edge_count g"
proof -
  assume "w \<noteq> t"
  then have "length (outs g w) + length (outs g t) = (\<Sum>n \<in> {w, t}. length (outs g n))" by simp
  also have "\<dots> \<le> edge_count g" unfolding edge_count_def by (rule sum_mono2) auto
  finally show ?thesis .
qed

text \<open>What a deletion does to size, pins and values.\<close>

lemma delete_ends:
  assumes g: "graph_inv sp {} X Y g" "live g n" "pins_ok g" "edge_count g < dfuel"
  shows "ends {Panic ''node.itype != .End''} (\<lambda>_ g'. graph_inv sp {} X Y g' \<and> merged {} id g g' \<and> pins g' = pins g \<and> pins_ok g' \<and>
    edge_count g' \<le> edge_count g \<and> (live g' n \<longleftrightarrow> outs g n \<noteq> []) \<and> g_reserved g' = g_reserved g) (delete_node sp oof dfuel n g)"
proof -
  have n: "g_nodes g n \<noteq> None" using live_node [OF g(2)] by blast
  from delete_stops [OF g(1) n g(4), of oof] show ?thesis
  proof (elim disjE exE conjE)
    fix g' assume d: "delete_node sp oof dfuel n g = (Inr (), g')" "graph_inv sp {} X Y g'" "deleted n g g'"
    note e = deleted_effect [OF d(3) g(1) d(2) g(2)] and o = deleted_outs [OF d(3) g(2)]
    have "g_nodes g' m = None \<longleftrightarrow> g_nodes g m = None" for m
      using d(3) n dies_toD(1) [of g _ m] by (auto simp: deleted_def split: if_splits)
    then have "merged {} id g g'" using e(2) by (intro merged_id) auto
    moreover have "pins g' = pins g" using o(1) by (simp add: pins_def fun_eq_iff)
    moreover have "pins_ok g'"
      unfolding pins_ok_def
    proof (intro allI impI)
      fix m i assume "(0, i) \<in> set (outs g' m)"
      then have "(0, i) \<in> set (outs g m)" using o(1) [of m i] by (simp add: in_set_count)
      then show "i = 0" using g(3) by (auto simp: pins_ok_def)
    qed
    moreover have "edge_count g' \<le> edge_count g" by (rule shrinksD [OF shrinks_delete(1) d(1)])
    moreover have "g_reserved g' = g_reserved g" using d(3) by (auto simp: deleted_def same_flags_def split: if_splits)
    ultimately show ?thesis using d(1,2) e(1) by simp
  qed simp
qed

text \<open>A pin less: the edges are what they were.\<close>

lemma unpinned_inv:
  assumes g: "graph_inv sp {} X Y g" and r: "removed d (0, 0) g g'"
  shows "graph_inv sp {} X Y g'"
proof -
  note ok = graph_invD [OF g] and v = removed_facts [OF r]
  have m: "edges_match {} g" using ok(1) by (simp add: edges_agree_def)
  have edge: "edge_at g' n i d \<longleftrightarrow> edge_at g n i d" for n i d by (simp add: edge_at_def v(1,2))
  have "edges_match {} g'"
  proof (rule edges_by_counts)
    show "i < 256" if "edge_at g' n i d" for n i d using that edge_bound [OF m] unfolding edge by blast
    show "count_list (outs g' d) (n, i) = (if edge_at g' n i d then 1 else 0)" if "n \<noteq> 0" for n i d
      using edges_counted [OF m that, of d i] that unfolding edge by (simp add: v(6))
    fix n assume "\<not> live g' n"
    then have "count_list (outs g' n) e = 0" for e using edges_matchD(2) [OF m, of n] by (simp add: v(1,6))
    then have "e \<notin> set (outs g' n)" for e by (simp add: in_set_count)
    then show "outs g' n = []" by (cases "outs g' n") auto
  qed (use edges_matchD(1) [OF m] v(7) in auto)
  then show ?thesis using ok v(8,9,13,14) by (simp add: graph_inv_def edges_agree_def)
qed

lemma unpin_ends:
  assumes g: "graph_inv sp {} X Y g" "pins_ok g" "g_nodes g d \<noteq> None" "edge_count g < dfuel"
  shows "ends {Panic ''node.itype != .End'', Panic ''output not found''}
    (\<lambda>_ g'. graph_inv sp {} X Y g' \<and> merged {} id g g' \<and> 0 < pins g d \<and> pins g' = (pins g)(d := pins g d - 1) \<and> pins_ok g' \<and>
      edge_count g' \<le> edge_count g \<and> g_reserved g' = g_reserved g) (g_unpin sp oof dfuel d False g)"
proof -
  obtain x where x: "g_nodes g d = Some x" using g(3) by auto
  have d0: "d \<noteq> 0" using edges_agreeD(1) [OF graph_invD(1) [OF g(1)], of d] g(3) by blast
  have nil: "mk_output 0 0 = (0, 0)" by (simp add: mk_output_def)
  have o: "outs g d = node_outs x" using x by (simp add: outs_def)
  show ?thesis
  proof (cases "linear_search (outs g d) (0, 0)")
    case None
    then show ?thesis using d0 o by (simp add: g_unpin_def remove_output_eq g_get_node_some [OF d0 x] nil fail_apply)
  next
    case (Some k)
    let ?g = "with_outs d (swap_remove (outs g d) k) g"
    have r: "removed d (0, 0) g ?g" using Some d0 by (auto simp: removed_def)
    note v = removed_facts [OF r]
    have p: "0 < pins g d" using linear_search_Some [OF Some] nth_mem [of k "outs g d"] by (auto simp: pins_def in_set_count)
    have run: "g_unpin sp oof dfuel d False g = delete_node sp oof dfuel d ?g"
      using d0 o Some by (simp add: g_unpin_def remove_output_eq g_get_node_some [OF d0 x] nil put_outs)
    have pok: "pins_ok ?g"
      unfolding pins_ok_def
    proof (intro allI impI)
      fix m i assume "(0, i) \<in> set (outs ?g m)"
      then have "(0, i) \<in> set (outs g m)" using v(6) [of m "(0, i)"] by (simp add: in_set_count)
      then show "i = 0" using g(2) by (auto simp: pins_ok_def)
    qed
    have pin: "pins ?g = (pins g)(d := pins g d - 1)" using v(6) [of _ "(0, 0)"] d0 by (auto simp: pins_def fun_eq_iff)
    have l: "live ?g d" using pinned_live [OF g(1) p] by simp
    have m: "merged {} id g g'" if "merged {} id ?g g'" for g' using that unfolding merged_def by simp
    have "edge_count ?g < dfuel" using v(10) g(4) by linarith
    from delete_ends [OF unpinned_inv [OF g(1) r] l pok this, of oof] show ?thesis
      unfolding run by (rule ends_mono) (use m p pin v(10,12) in auto)
  qed
qed

section \<open>The first part of a round\<close>

text \<open>Up to the pin of the replacement \<open>w\<close>.\<close>

definition redirected :: "Node_Spec \<Rightarrow> u32 set \<Rightarrow> u32 \<Rightarrow> u32 \<Rightarrow> graph \<Rightarrow> graph \<Rightarrow> bool" where
  "redirected sp X w t g g' \<longleftrightarrow> graph_inv sp {} (X \<union> users (outs g t)) Map.empty g' \<and> live g' = live g \<and> kind_of g' = kind_of g \<and>
     (\<forall>n. live g n \<longrightarrow> ins g' n = map (id(t := w)) (ins g n)) \<and> outs g' = (outs g)(w := outs g w @ outs g t @ [(0, 0)], t := []) \<and>
     (\<forall>n. g_nodes g' n = None \<longleftrightarrow> g_nodes g n = None) \<and> g_reserved g' = g_reserved g"

lemma check_ends:
  assumes w: "w \<noteq> 0" "live g w" "unat (fst (kind_of g w)) < type_count sp" and es: "\<forall>(u, i) \<in> set es. u = 0 \<or> g_nodes g u \<noteq> None"
  shows "ends (subsume_faults S) (\<lambda>_ g'. g' = g) (forM es (check_use sp w) g)"
  using es
proof (induction es)
  case Nil
  then show ?case by (simp add: ret_apply)
next
  case (Cons e es)
  obtain u i where e: "e = (u, i)" by force
  obtain x where x: "g_nodes g w = Some x" using live_node [OF w(2)] by blast
  have cfg: "is_cfg sp w g = (Inr (inherits_cfg sp (node_rtype x)), g)"
    using g_get_node_some [OF w(1) x] w(2,3) x by (simp add: is_cfg_def kind_of_def ret_apply)
  have "u = 0 \<or> g_nodes g u \<noteq> None" using Cons.prems e by auto
  then obtain y where "g_get_node u g = (Inr y, g)" by (cases "u = 0") (auto simp: g_get_node_def)
  then have "ends (subsume_faults S) (\<lambda>_ g'. g' = g) (check_use sp w e g)"
    using cfg by (simp add: check_use_def e prog_simps subsume_faults_def)
  then show ?case using Cons by (auto intro!: ends_bind [where Q = "\<lambda>_ g'. g' = g"])
qed

lemma move_returns:
  assumes g: "g_nodes g w = Some x" "g_nodes g t = Some y" "w \<noteq> 0" "w \<noteq> t" "live g w" "live g t" "nodes_ok sp g"
    and g1: "g_nodes g1 = (g_nodes g)(w \<mapsto> x\<lparr>node_output_cap := c\<rparr>)" "length (node_outs x) + length (node_outs y) \<le> unat c" "unat c < 2 ^ 14" "same_rest g g1"
  shows "\<exists>g2. move_outputs w t (node_outs y) g1 = (Inr (), g2) \<and> live g2 = live g \<and> ins g2 = ins g \<and> kind_of g2 = kind_of g \<and>
    outs g2 = (outs g)(w := outs g w @ outs g t, t := []) \<and> (\<forall>n. g_nodes g2 n = None \<longleftrightarrow> g_nodes g n = None) \<and> nodes_ok sp g2 \<and> same_rest g g2"
proof -
  let ?g = "with_outs w (outs g1 w @ node_outs y) (with_outs t [] g1)"
  have "live g1 n = live g n \<and> ins g1 n = ins g n \<and> kind_of g1 n = kind_of g n \<and> outs g1 n = outs g n" for n
    using g(1) g1(1) by (simp add: live_def ins_def kind_of_def outs_def)
  then have v: "live g1 = live g" "ins g1 = ins g" "kind_of g1 = kind_of g" "outs g1 = outs g" by (simp_all add: fun_eq_iff)
  have o: "outs g w = node_outs x" "outs g t = node_outs y" using g(1,2) by (simp_all add: outs_def)
  have dom: "g_nodes g1 n = None \<longleftrightarrow> g_nodes g n = None" for n using g(1) g1(1) by simp
  have get: "g_get_node w g1 = (Inr (x\<lparr>node_output_cap := c\<rparr>), g1)" using g_get_node_some [OF g(3), of g1] g1(1) by simp
  have "move_outputs w t (node_outs y) g1 = (Inr (), ?g)"
    using get g1(2,3) g(4) ids_size_small [OF g1(3)] by (simp add: move_outputs_def put_outs)
  moreover have "outs ?g = (outs g)(w := outs g w @ outs g t, t := [])" using g(1,2,4) dom v(4) o by (auto simp: fun_eq_iff)
  moreover have "nodes_ok sp ?g"
  proof -
    have ok: "node_ok sp x" "node_ok sp y" using g(1,2,7) by (auto simp: nodes_ok_def)
    have eq: "g_nodes ?g n = (if n = w then Some (x\<lparr>node_output_cap := c, node_outs := node_outs x @ node_outs y\<rparr>)
        else if n = t then Some (y\<lparr>node_outs := []\<rparr>) else g_nodes g n)" for n
      using g(1,2,4) v(4) o by (auto simp: with_outs_def g1(1))
    have pos: "g_pos g \<le> g_pos ?g" "4 dvd g_pos ?g" using g1(4) by (simp_all add: same_rest_def)
    show ?thesis
      unfolding nodes_ok_def
    proof (intro conjI allI impI)
      fix n z assume z: "g_nodes ?g n = Some z"
      show "node_ok sp z" using z ok g(7) g1(2,3) unfolding eq by (auto simp: node_ok_def nodes_ok_def split: if_splits)
      obtain z' where "g_nodes g n = Some z'" using z g(1,2) unfolding eq by (auto split: if_splits)
      then show "4 * unat n < g_pos ?g" using g(7) pos(1) unfolding nodes_ok_def by (meson less_le_trans)
    qed (use g(7) pos in \<open>auto simp: nodes_ok_def\<close>)
  qed
  moreover have "same_rest g ?g" using g1(4) by (simp add: same_rest_def)
  ultimately show ?thesis using v dom by (intro exI [of _ ?g]) simp
qed

text \<open>The rest of it, when there is room for the outputs.\<close>

lemma moved_rest:
  assumes g: "graph_inv sp {} X Map.empty g" "pins_ok g" and w: "live g w" "live g t" "w \<noteq> t" and x: "g_nodes g w = Some x" and y: "g_nodes g t = Some y"
    and g1: "g_nodes g1 = (g_nodes g)(w \<mapsto> x\<lparr>node_output_cap := c\<rparr>)" "length (node_outs x) + length (node_outs y) \<le> unat c" "unat c < 2 ^ 14" "same_rest g g1"
    and len: "length (node_outs x) + length (node_outs y) \<le> S"
  shows "ends (subsume_faults S) (\<lambda>_ g'. redirected sp X w t g g') (bindM (move_outputs w t (node_outs y)) (\<lambda>_.
    bindM (forM (node_outs y) (redirect_use sp w)) (\<lambda>_. g_pin sp w)) g1)"
proof -
  note ok = graph_invD [OF g(1)]
  have m: "edges_match {} g" using ok(1) by (simp add: edges_agree_def)
  have n0: "w \<noteq> 0" "t \<noteq> 0" using graph_inv_domain [OF g(1)] w(1,2) by blast+
  have o: "outs g w = node_outs x" "outs g t = node_outs y" using x y by (simp_all add: outs_def)
  have use: "(u, i) = (0, 0) \<or> live g u \<and> i < length (ins g u)" if "(u, i) \<in> set (node_outs y)" for u i
    using that o(2) edges_matchD(4) [OF m, of u i t] g(2) [unfolded pins_ok_def, rule_format, of i t] by (cases "u = 0") auto
  obtain g2 where g2: "move_outputs w t (node_outs y) g1 = (Inr (), g2)" "live g2 = live g" "ins g2 = ins g" "kind_of g2 = kind_of g"
    "outs g2 = (outs g)(w := outs g w @ outs g t, t := [])" "\<And>n. g_nodes g2 n = None \<longleftrightarrow> g_nodes g n = None" "nodes_ok sp g2" "same_rest g g2"
    using move_returns [OF x y n0(1) w(3,1,2) ok(3) g1] by blast
  have "value_of g2 = value_of g" "interned sp g2 = interned sp g" using g2(2-4) by (simp_all add: value_of_def interned_def fun_eq_iff)
  then have t2: "table_ok sp X Map.empty g2" using ok(2) table_views [OF g2(2) _ _ g2(6)] g2(8) by (simp add: same_rest_def)
  have es: "\<forall>(u, i) \<in> set (outs g t). (u, i) = (0, 0) \<or> live g2 u \<and> i < length (ins g2 u)" using use g2(2,3) o(2) by auto
  have fl: "\<not> g_dont_intern g2" "g_nodes g2 0 = None" using ok(5) g2(6,8) nil_no_node [OF ok(1)] by (simp_all add: same_rest_def)
  obtain g3 where g3: "forM (node_outs y) (redirect_use sp w) g2 = (Inr (), g3)" "inputs_set (outs g t) w g2 g3"
    "table_ok sp (X \<union> users (outs g t)) Map.empty g3" "nodes_ok sp g3"
    using redirect_loop [OF t2 g2(7) fl es, of w] unfolding o(2) by blast
  note s = g3(2) [unfolded inputs_set_def] and e3 = moved_edges [OF m w(1) n0(1) w(3) n0(2) g2(2,3,5,6) g3(2)]
  have l3: "live g3 w" "length (outs g3 w) \<le> S" using s g2(2,5) w(1,3) len o by simp_all
  have fin: "redirected sp X w t g g5" if "out_added w (0, 0) g3 g5" for g5
  proof -
    note v = out_added_views [OF that]
    have "edges_match {} g5" by (rule add_pin [OF e3(1) l3(1) v(1,2,6,7)])
    moreover have "g_dont_delete g5 = g_dont_delete g" "g_dont_intern g5 = g_dont_intern g" "g_reserved g5 = g_reserved g"
      using that s g2(8) by (simp_all add: out_added_def same_rest_def)
    ultimately show ?thesis
      using out_added_ok [OF that] g3(3,4) ok(4,5) v s g2(2-6) e3(2) w(3) by (auto simp: redirected_def graph_inv_def edges_agree_def fun_eq_iff)
  qed
  have "{arena_full} \<union> (if length (outs g3 w) < 2 ^ 13 - 1 then {} else {outputs_full}) \<subseteq> subsume_faults S"
    using outputs_full_fault [OF _ l3(2)] by (auto simp: subsume_faults_def)
  from ends_mono [OF pin_ends [OF g3(4) n0(1) l3(1)] this fin]
  have "ends (subsume_faults S) (\<lambda>_ g'. redirected sp X w t g g') (g_pin sp w g3)" .
  then show ?thesis using g2(1) g3(1) by simp
qed

lemma moved_ends:
  assumes g: "graph_inv sp {} X Map.empty g" "pins_ok g" and w: "live g w" "live g t" "w \<noteq> t" and small: "edge_count g \<le> S"
    and y: "g_nodes g t = Some y"
  shows "ends (subsume_faults S) (\<lambda>_ g'. redirected sp X w t g g')
    (bindM (ensure_available_output_cap w (of_nat (length (node_outs y)))) (\<lambda>_.
     bindM (forM (node_outs y) (check_use sp w)) (\<lambda>_.
     bindM (move_outputs w t (node_outs y)) (\<lambda>_.
     bindM (forM (node_outs y) (redirect_use sp w)) (\<lambda>_.
     g_pin sp w)))) g)"
proof -
  note ok = graph_invD [OF g(1)]
  have m: "edges_match {} g" using ok(1) by (simp add: edges_agree_def)
  obtain x where x: "g_nodes g w = Some x" using live_node [OF w(1)] by blast
  have n0: "w \<noteq> 0" "t \<noteq> 0" using graph_inv_domain [OF g(1)] w(1,2) by blast+
  have o: "outs g w = node_outs x" "outs g t = node_outs y" using x y by (simp_all add: outs_def)
  have xok: "node_ok sp x" "4 dvd g_pos g" "unat (node_rtype x) < type_count sp"
    using ok(3) x known_type [OF ok(3) x] w(1) by (auto simp: nodes_ok_def live_def)
  have yok: "node_ok sp y" using ok(3) y by (auto simp: nodes_ok_def)
  have len: "length (node_outs x) + length (node_outs y) \<le> S" "length (node_outs x) < 2 ^ 14" "length (node_outs y) < 2 ^ 14"
    using outs_le_two [OF w(3), of g] small o xok(1) yok by (auto simp: node_ok_def)
  have use: "(u, i) = (0, 0) \<or> live g u \<and> i < length (ins g u)" if "(u, i) \<in> set (node_outs y)" for u i
    using that o(2) edges_matchD(4) [OF m, of u i t] g(2) [unfolded pins_ok_def, rule_format, of i t] by (cases "u = 0") auto
  have known: "u = 0 \<or> g_nodes g u \<noteq> None" if "(u, i) \<in> set (node_outs y)" for u i using use [OF that] live_node [of g u] by auto
  show ?thesis
  proof (rule ends_bind)
    show "ends (subsume_faults S) (\<lambda>_ g1. same_rest g g1 \<and> (\<exists>c. g_nodes g1 = (g_nodes g)(w \<mapsto> x\<lparr>node_output_cap := c\<rparr>) \<and>
      (length (node_outs x) + length (node_outs y) \<le> unat c \<and> unat c < 2 ^ 14 \<or>
       ids_size c < 4 * (length (node_outs x) + length (node_outs y)) \<and> 2 ^ 13 - 1 \<le> length (node_outs x) + length (node_outs y))))
      (ensure_available_output_cap w (of_nat (length (node_outs y))) g)"
      by (rule ends_mono [OF ensure_cap_many [OF x n0(1) xok(1,2) len(3)]]) (simp_all add: subsume_faults_def)
  next
    fix e g1 assume "same_rest g g1 \<and> (\<exists>c. g_nodes g1 = (g_nodes g)(w \<mapsto> x\<lparr>node_output_cap := c\<rparr>) \<and>
      (length (node_outs x) + length (node_outs y) \<le> unat c \<and> unat c < 2 ^ 14 \<or>
       ids_size c < 4 * (length (node_outs x) + length (node_outs y)) \<and> 2 ^ 13 - 1 \<le> length (node_outs x) + length (node_outs y)))"
    then obtain c where c: "g_nodes g1 = (g_nodes g)(w \<mapsto> x\<lparr>node_output_cap := c\<rparr>)" "same_rest g g1"
      "length (node_outs x) + length (node_outs y) \<le> unat c \<and> unat c < 2 ^ 14 \<or>
       ids_size c < 4 * (length (node_outs x) + length (node_outs y)) \<and> 2 ^ 13 - 1 \<le> length (node_outs x) + length (node_outs y)" by blast
    have rest: "ends (subsume_faults S) (\<lambda>_ g'. redirected sp X w t g g') (bindM (move_outputs w t (node_outs y)) (\<lambda>_.
        bindM (forM (node_outs y) (redirect_use sp w)) (\<lambda>_. g_pin sp w)) g1)"
    proof (cases "length (node_outs x) + length (node_outs y) \<le> unat c \<and> unat c < 2 ^ 14")
      case True
      then show ?thesis using moved_rest [OF g w x y c(1) _ _ c(2) len(1)] by blast
    next
      case False
      then have f: "ids_size c < 4 * (length (node_outs x) + length (node_outs y))" "2 ^ 13 - 1 \<le> length (node_outs x) + length (node_outs y)"
        using c(3) by blast+
      have "g_get_node w g1 = (Inr (x\<lparr>node_output_cap := c\<rparr>), g1)" using g_get_node_some [OF n0(1), of g1] c(1) by simp
      then have "fst (move_outputs w t (node_outs y) g1) = Inl outputs_full"
        using f(1) len(2,3) by (simp add: move_outputs_def put_outs outputs_full_def requireM_def fail_apply)
      then show ?thesis using outputs_full_fault [OF f(2) len(1)] by (cases "move_outputs w t (node_outs y) g1") auto
    qed
    have "live g1 w" "kind_of g1 w = kind_of g w" "\<And>n. g_nodes g1 n = None \<longleftrightarrow> g_nodes g n = None"
      using c(1) x w(1) by (simp_all add: live_def kind_of_def)
    then have "ends (subsume_faults S) (\<lambda>_ g'. g' = g1) (forM (node_outs y) (check_use sp w) g1)"
      using n0(1) xok(3) x known by (intro check_ends) (auto simp: kind_of_def)
    then show "ends (subsume_faults S) (\<lambda>_ g'. redirected sp X w t g g')
      (bindM (forM (node_outs y) (check_use sp w)) (\<lambda>_. bindM (move_outputs w t (node_outs y)) (\<lambda>_.
        bindM (forM (node_outs y) (redirect_use sp w)) (\<lambda>_. g_pin sp w))) g1)"
      by (rule ends_bind) (use rest in simp)
  qed
qed

text \<open>Up to the loop over the users: the target is dead, the replacement is pinned.\<close>

definition subsume_front :: "Node_Spec \<Rightarrow> fault \<Rightarrow> nat \<Rightarrow> u32 \<Rightarrow> u32 \<Rightarrow> (u32 \<times> nat) list gact" where
  "subsume_front sp oof dfuel w t =
     bindM (assertM (t \<noteq> 0) ''target != 0'') (\<lambda>_.
     bindM (g_expand_node w) (\<lambda>wnode.
     bindM (g_expand_node t) (\<lambda>tnode.
     bindM (assertM (w \<noteq> t) ''with != target'') (\<lambda>_.
     bindM (bindM (ensure_available_output_cap w (of_nat (length (node_outs tnode)))) (\<lambda>_.
            bindM (forM (node_outs tnode) (check_use sp w)) (\<lambda>_.
            bindM (move_outputs w t (node_outs tnode)) (\<lambda>_.
            bindM (forM (node_outs tnode) (redirect_use sp w)) (\<lambda>_.
            g_pin sp w))))) (\<lambda>_.
     bindM (delete_node sp oof dfuel t) (\<lambda>_.
     bindM (g_expand_node w) (\<lambda>wnode.
     expectM (keep_outputs (node_outs wnode) (node_outs tnode)) ''index out of range'')))))))"

definition settle_use :: "Node_Spec \<Rightarrow> (u32 \<Rightarrow> u32 \<Rightarrow> unit gact) \<Rightarrow> u32 \<times> nat \<Rightarrow> unit gact" where
  "settle_use sp sub = (\<lambda>(u, i).
     bindM (g_get_node u) (\<lambda>n.
     if node_rtype n = DEAD_NODE_KIND then ret ()
     else bindM (intern sp u) (\<lambda>id'. if id' \<noteq> u then sub id' u else ret ())))"

lemma subsume_eq:
  assumes "w \<noteq> 0"
  shows "subsume sp oof dfuel (Suc fuel) w t =
     bindM (subsume_front sp oof dfuel w t) (\<lambda>kept.
     bindM (forM (rev kept) (settle_use sp (subsume sp oof dfuel fuel))) (\<lambda>_.
     g_unpin sp oof dfuel w False))"
  using assms by (simp add: subsume.simps subsume_front_def settle_use_def bindM_assoc)

definition front_done :: "Node_Spec \<Rightarrow> u32 set \<Rightarrow> u32 \<Rightarrow> u32 \<Rightarrow> graph \<Rightarrow> (u32 \<times> nat) list \<Rightarrow> graph \<Rightarrow> bool" where
  "front_done sp X w t g kept g' \<longleftrightarrow> graph_inv sp {} (X \<union> users (outs g t)) Map.empty g' \<and> live g' w \<and> \<not> live g' t \<and>
     merged {t} (id(t := w)) g g' \<and> pins g' = (pins g)(w := Suc (pins g w + pins g t), t := 0) \<and> pins_ok g' \<and> edge_count g' \<le> Suc (edge_count g) \<and>
     (\<forall>u \<in> users (outs g t). live g' u \<longrightarrow> u \<in> fst ` set kept) \<and> (\<forall>u \<in> fst ` set kept. u \<noteq> 0 \<and> g_nodes g' u \<noteq> None) \<and>
     g_reserved g' = g_reserved g"

lemma front_doneD:
  assumes "front_done sp X w t g kept g'"
  shows "graph_inv sp {} (X \<union> users (outs g t)) Map.empty g'" "live g' w" "\<not> live g' t" "merged {t} (id(t := w)) g g'"
    "pins g' = (pins g)(w := Suc (pins g w + pins g t), t := 0)" "pins_ok g'" "edge_count g' \<le> Suc (edge_count g)"
    "u \<in> users (outs g t) \<Longrightarrow> live g' u \<Longrightarrow> u \<in> fst ` set kept" "u \<in> fst ` set kept \<Longrightarrow> u \<noteq> 0 \<and> g_nodes g' u \<noteq> None" "g_reserved g' = g_reserved g"
  using assms unfolding front_done_def by blast+

lemma redirected_edges:
  assumes r: "redirected sp X w t g g1" and w: "live g w" "live g t" "w \<noteq> t"
  shows "edge_count g1 = Suc (edge_count g)"
proof -
  let ?h = "with_outs w (outs g w @ outs g t @ [(0, 0)]) g"
  have n: "g_nodes g w \<noteq> None" "g_nodes g t \<noteq> None" using w(1,2) live_node by blast+
  have "edge_count ?h = Suc (edge_count g + length (outs g t))" using edge_count_with_outs [OF n(1), of "outs g w @ outs g t @ [(0, 0)]"] by simp
  moreover have "edge_count (with_outs t [] ?h) + length (outs ?h t) = edge_count ?h" using edge_count_with_outs [of ?h t "[]"] n(2) by simp
  moreover have "outs g1 = outs (with_outs t [] ?h)" using r n w(3) by (auto simp: redirected_def fun_eq_iff)
  ultimately show ?thesis using w(3) by (simp add: edge_count_def)
qed

lemma front_deleted:
  assumes g: "graph_inv sp {} X Map.empty g" "pins_ok g" and w: "live g w" "live g t" "w \<noteq> t" and g1: "redirected sp X w t g g1"
    and g2: "graph_inv sp {} (X \<union> users (outs g t)) Map.empty g2" "merged {} id g1 g2" "pins g2 = pins g1" "pins_ok g2" "edge_count g2 \<le> edge_count g1"
      "live g2 t \<longleftrightarrow> outs g1 t \<noteq> []" "g_reserved g2 = g_reserved g1"
  shows "\<exists>kept. keep_outputs (outs g2 w) (outs g t) = Some kept \<and> front_done sp X w t g kept g2"
proof -
  note r = g1 [unfolded redirected_def] and a = mergedD [OF g2(2)] and m2 = graph_invD(1) [OF g2(1)]
  have m: "edges_match {} g" "edges_match {} g2" using graph_invD(1) [OF g(1)] m2 by (simp_all add: edges_agree_def)
  have out1: "outs g1 t = []" "outs g1 w = outs g w @ outs g t @ [(0, 0)]" "\<And>n. n \<noteq> w \<Longrightarrow> n \<noteq> t \<Longrightarrow> outs g1 n = outs g n" using r w(3) by auto
  have dead: "\<not> live g2 t" using g2(6) out1(1) by simp
  have pin1: "pins g1 = (pins g)(w := Suc (pins g w + pins g t), t := 0)" using r w(3) by (auto simp: pins_def fun_eq_iff)
  have lw: "live g2 w" using pinned_live [OF g2(1), of w] pin1 w(3) g2(3) by simp
  have ins2: "ins g2 n = map (id(t := w)) (ins g n) \<and> kind_of g2 n = kind_of g n \<and> live g n" if "live g2 n" for n
    using a(1,3,4) [OF that] r by simp
  have "merged {t} (id(t := w)) g g2"
    unfolding merged_def using ins2 dead w r a(9) by auto
  moreover have "edge_count g2 \<le> Suc (edge_count g)"
    using redirected_edges [OF g1 w] g2(5) by simp
  moreover have "pins g2 = (pins g)(w := Suc (pins g w + pins g t), t := 0)" using g2(3) pin1 by simp
  moreover have one: "e \<in> set (outs g t) \<Longrightarrow> e \<noteq> (0, 0) \<Longrightarrow> fst e \<noteq> 0 \<and> edge_at g (fst e) (snd e) t" for e
    using edges_matchD(4) [OF m(1), of "fst e" "snd e" t] g(2) [unfolded pins_ok_def, rule_format, of "snd e" t] graph_inv_domain [OF g(1) w(2)]
    by (cases e) (auto simp: edge_at_def)
  have keep: "keep_outputs (outs g2 w) (outs g t) = Some (filter (\<lambda>e. e \<noteq> (0, 0) \<and> e \<in> set (outs g2 w)) (outs g t))"
  proof (rule keep_outputs_filter)
    fix e assume "e \<in> set (outs g t)" "e \<noteq> (0, 0)"
    then show "count_list (outs g2 w) e \<le> 1" using one edges_counted [OF m(2), of "fst e" w "snd e"] by simp
  qed
  let ?kept = "filter (\<lambda>e. e \<noteq> (0, 0) \<and> e \<in> set (outs g2 w)) (outs g t)"
  have "u \<in> fst ` set ?kept" if u: "u \<in> users (outs g t)" "live g2 u" for u
  proof -
    obtain i where i: "(u, i) \<in> set (outs g t)" "(u, i) \<noteq> (0, 0)" using u(1) by (auto simp: users_def)
    note e = one [OF i, simplified]
    have "edge_at g2 u i w" using e ins2 [OF u(2)] u(2) graph_inv_domain [OF g(1) w(1)] by (auto simp: edge_at_def)
    then have "(u, i) \<in> set (outs g2 w)" using edges_counted [OF m(2), of u w i] e by (simp add: in_set_count)
    then show ?thesis using i by (force simp: image_iff)
  qed
  moreover have "u \<noteq> 0 \<and> g_nodes g2 u \<noteq> None" if k: "u \<in> fst ` set ?kept" for u
  proof -
    obtain e where e: "e \<in> set ?kept" "u = fst e" using k by blast
    then have "live g u" "u \<noteq> 0" using one [of e] by (simp_all add: edge_at_def)
    then show ?thesis using live_node [of g u] r a(9) [of u] by auto
  qed
  moreover have "g_reserved g2 = g_reserved g" using g2(7) r by simp
  ultimately show ?thesis using keep g2(1,4) lw dead unfolding front_done_def by blast
qed

lemma front_ends:
  assumes g: "graph_inv sp {} X Map.empty g" "pins_ok g" and w: "live g w" "live g t" "w \<noteq> t"
    and small: "edge_count g \<le> S" "Suc (edge_count g) < dfuel"
  shows "ends (subsume_faults S) (front_done sp X w t g) (subsume_front sp oof dfuel w t g)"
proof -
  obtain x y where xy: "g_nodes g w = Some x" "g_nodes g t = Some y" using live_node w(1,2) by blast
  have n0: "w \<noteq> 0" "t \<noteq> 0" using graph_inv_domain [OF g(1)] w(1,2) by blast+
  have exp: "g_expand_node w g = (Inr x, g)" "g_expand_node t g = (Inr y, g)"
    using g_get_node_some [OF n0(1) xy(1)] g_get_node_some [OF n0(2) xy(2)] w(1,2) xy by (simp_all add: g_expand_node_def live_def ret_apply)
  have oy: "outs g t = node_outs y" using xy(2) by (simp add: outs_def)
  have last: "ends (subsume_faults S) (front_done sp X w t g) (bindM (delete_node sp oof dfuel t) (\<lambda>_. bindM (g_expand_node w) (\<lambda>wnode.
      expectM (keep_outputs (node_outs wnode) (node_outs y)) ''index out of range'')) g1)" if g1: "redirected sp X w t g g1" for g1
  proof -
    note r = g1 [unfolded redirected_def]
    note e1 = redirected_edges [OF g1 w]
    have p1: "pins_ok g1" using g(2) r by (auto simp: pins_ok_def)
    have pre: "graph_inv sp {} (X \<union> users (outs g t)) Map.empty g1" "live g1 t" "edge_count g1 < dfuel" using r w(2) e1 small(2) by simp_all
    show ?thesis
    proof (rule ends_bind)
      show "ends (subsume_faults S) (\<lambda>_ g2. \<exists>kept. keep_outputs (outs g2 w) (outs g t) = Some kept \<and> front_done sp X w t g kept g2)
        (delete_node sp oof dfuel t g1)"
        by (rule ends_mono [OF delete_ends [OF pre(1,2) p1 pre(3)]]) (simp add: subsume_faults_def, intro front_deleted [OF g w g1], auto)
    next
      fix e g2 assume "\<exists>kept. keep_outputs (outs g2 w) (outs g t) = Some kept \<and> front_done sp X w t g kept g2"
      then obtain kept where kept: "keep_outputs (outs g2 w) (outs g t) = Some kept" "front_done sp X w t g kept g2" by blast
      then have l: "live g2 w" by (simp add: front_done_def)
      then obtain z where z: "g_nodes g2 w = Some z" "node_rtype z \<noteq> DEAD_NODE_KIND" using live_node by blast
      then have "g_expand_node w g2 = (Inr z, g2)" "outs g2 w = node_outs z"
        using g_get_node_some [OF n0(1) z(1)] by (simp_all add: g_expand_node_def outs_def ret_apply)
      then show "ends (subsume_faults S) (front_done sp X w t g) (bindM (g_expand_node w) (\<lambda>wnode.
          expectM (keep_outputs (node_outs wnode) (node_outs y)) ''index out of range'') g2)"
        using kept oy by (simp add: ret_apply)
    qed
  qed
  have "subsume_front sp oof dfuel w t g = bindM (bindM (ensure_available_output_cap w (of_nat (length (node_outs y)))) (\<lambda>_.
       bindM (forM (node_outs y) (check_use sp w)) (\<lambda>_.
       bindM (move_outputs w t (node_outs y)) (\<lambda>_.
       bindM (forM (node_outs y) (redirect_use sp w)) (\<lambda>_.
       g_pin sp w))))) (\<lambda>_. bindM (delete_node sp oof dfuel t) (\<lambda>_. bindM (g_expand_node w) (\<lambda>wnode.
       expectM (keep_outputs (node_outs wnode) (node_outs y)) ''index out of range''))) g"
    using exp n0 w(3) by (simp add: subsume_front_def)
  also have "ends (subsume_faults S) (front_done sp X w t g) \<dots>" by (rule ends_bind, rule moved_ends [OF g w small(1) xy(2)], rule last)
  finally show ?thesis .
qed

section \<open>Pins under merges\<close>

text \<open>A node has at least the pins of all that have been merged into it.\<close>

definition pins_kept :: "(u32 \<Rightarrow> u32) \<Rightarrow> graph \<Rightarrow> graph \<Rightarrow> bool" where
  "pins_kept r g g' \<longleftrightarrow> (\<forall>m. (\<Sum>n | r n = m. pins g n) \<le> pins g' m)"

lemma sum_fibres:
  fixes f :: "u32 \<Rightarrow> nat" and r1 r2 :: "u32 \<Rightarrow> u32"
  shows "(\<Sum>n | (r2 \<circ> r1) n = m. f n) = (\<Sum>k | r2 k = m. \<Sum>n | r1 n = k. f n)"
proof -
  have "{n. (r2 \<circ> r1) n = m} = (\<Union>k \<in> {k. r2 k = m}. {n. r1 n = k})" by auto
  then show ?thesis by (simp only:) (subst sum.UNION_disjoint, auto)
qed

lemma pins_kept_trans:
  assumes "pins_kept r1 g g1" "pins_kept r2 g1 g2"
  shows "pins_kept (r2 \<circ> r1) g g2"
  unfolding pins_kept_def sum_fibres
proof
  fix m
  have "(\<Sum>k | r2 k = m. \<Sum>n | r1 n = k. pins g n) \<le> (\<Sum>k | r2 k = m. pins g1 k)"
    using assms(1) by (intro sum_mono) (simp add: pins_kept_def)
  also have "\<dots> \<le> pins g2 m" using assms(2) by (simp add: pins_kept_def)
  finally show "(\<Sum>k | r2 k = m. \<Sum>n | r1 n = k. pins g n) \<le> pins g2 m" .
qed

lemma pins_kept_id: "pins g' = pins g \<Longrightarrow> pins_kept id g g'"
  by (simp add: pins_kept_def)

lemma pins_keptD: "pins_kept r g g' \<Longrightarrow> pins g n \<le> pins g' (r n)"
  using member_le_sum [of n "{k. r k = r n}" "pins g"] unfolding pins_kept_def by (metis (mono_tags) finite le0 mem_Collect_eq order_trans)

text \<open>The pin that a round takes and gives back.\<close>

lemma pins_kept_round:
  assumes w: "w \<noteq> t" "r w = w" and g1: "pins g1 = (pins g)(w := Suc (pins g w + pins g t), t := 0)"
    and g2: "pins_kept r g1 g2" "pins g3 = (pins g2)(w := pins g2 w - 1)"
  shows "pins_kept (r \<circ> id(t := w)) g g3"
  unfolding pins_kept_def sum_fibres
proof
  fix m
  have "{n. (id(t := w)) n = k} = (if k = w then {w, t} else if k = t then {} else {k})" for k using w(1) by (auto split: if_splits)
  then have fib: "(\<Sum>n | (id(t := w)) n = k. pins g n) + (if k = w then 1 else 0) = pins g1 k" for k using w(1) g1 by simp
  define A where "A = (\<Sum>k | r k = m. \<Sum>n | (id(t := w)) n = k. pins g n)"
  have "A + (\<Sum>k | r k = m. if k = w then 1 else 0) = (\<Sum>k | r k = m. pins g1 k)"
    unfolding A_def sum.distrib [symmetric] fib ..
  moreover have "(\<Sum>k | r k = m. if k = w then 1 else 0) = (if m = w then 1 else (0::nat))" using w(2) by (auto simp: sum.delta)
  moreover have "(\<Sum>k | r k = m. pins g1 k) \<le> pins g2 m" using g2(1) by (simp add: pins_kept_def)
  ultimately have "A + (if m = w then 1 else 0) \<le> pins g2 m" by linarith
  then have "A \<le> pins g3 m" unfolding g2(2) by (cases "m = w") simp_all
  then show "(\<Sum>k | r k = m. \<Sum>n | (id(t := w)) n = k. pins g n) \<le> pins g3 m" unfolding A_def .
qed

section \<open>The merges of the users\<close>

definition settled :: "Node_Spec \<Rightarrow> u32 set \<Rightarrow> u32 set \<Rightarrow> graph \<Rightarrow> graph \<Rightarrow> bool" where
  "settled sp X U g g' \<longleftrightarrow> (\<exists>X' r. X' \<subseteq> X \<and> graph_inv sp {} X' Map.empty g' \<and> merged {} r g g' \<and> pins_kept r g g' \<and> pins_ok g' \<and>
     size_of g' \<le> size_of g \<and> (\<forall>u \<in> U. live g' u \<longrightarrow> u \<notin> X') \<and> g_reserved g' = g_reserved g)"

definition subsumed :: "Node_Spec \<Rightarrow> u32 set \<Rightarrow> u32 \<Rightarrow> u32 \<Rightarrow> graph \<Rightarrow> graph \<Rightarrow> bool" where
  "subsumed sp X w t g g' \<longleftrightarrow> (\<exists>X' r. X' \<subseteq> X \<and> graph_inv sp {} X' Map.empty g' \<and> merged {t} r g g' \<and> r t = r w \<and> \<not> live g' t \<and>
     pins_kept r g g' \<and> pins_ok g' \<and> size_of g' \<le> size_of g \<and> g_reserved g' = g_reserved g)"

lemma settle_ends:
  assumes sub: "\<And>X m u g. graph_inv sp {} X Map.empty g \<Longrightarrow> pins_ok g \<Longrightarrow> live g m \<Longrightarrow> live g u \<Longrightarrow> m \<noteq> u \<Longrightarrow> size_of g \<le> S \<Longrightarrow>
      card {n. live g n} \<le> K \<Longrightarrow> ends (subsume_faults N) (\<lambda>_ g'. subsumed sp X m u g g') (sub m u g)"
    and g: "graph_inv sp {} X Map.empty g" "pins_ok g" "size_of g \<le> S" "card {n. live g n} \<le> K" and u: "u \<noteq> 0" "g_nodes g u \<noteq> None"
  shows "ends (subsume_faults N) (\<lambda>_ g'. settled sp X {u} g g') (settle_use sp sub (u, i) g)"
proof -
  note ok = graph_invD [OF g(1)]
  have same: "merged {} id g g" by (rule merged_id) auto
  obtain x where x: "g_nodes g u = Some x" using u(2) by auto
  note get = g_get_node_some [OF u(1) x]
  show ?thesis
  proof (cases "live g u")
    case False
    then have "settle_use sp sub (u, i) g = (Inr (), g)" using get x by (simp add: settle_use_def live_def ret_apply)
    moreover have "settled sp X {u} g g"
      unfolding settled_def using g same pins_kept_id [of g g] False by (intro exI [of _ X] exI [of _ id]) auto
    ultimately show ?thesis by simp
  next
    case True
    have run: "settle_use sp sub (u, i) g = bindM (intern sp u) (\<lambda>id'. if id' \<noteq> u then sub id' u else ret ()) g"
      using get x True by (simp add: settle_use_def live_def)
    from intern_returns [OF ok(2,3,5) True nil_no_node [OF ok(1)]] show ?thesis
    proof (elim disjE exE conjE)
      fix m assume m: "intern sp u g = (Inr m, g)" "m \<noteq> u" "m \<in> entries g" "value_of g m = value_of g u"
      have lm: "live g m" using m(3) by (simp add: entries_def)
      have "settled sp X {u} g g'" if "subsumed sp X m u g g'" for g'
        using that merged_equal [of u _ g g' m] lm m(2,4) unfolding subsumed_def settled_def by auto
      then show ?thesis
        using m(1,2) ends_mono [OF sub [OF g(1,2) lm True m(2) g(3,4)] subset_refl] unfolding run by simp
    next
      fix g1 assume g1: "intern sp u g = (Inr u, g1)" "same_graph g g1" "table_ok sp (X - {u}) Map.empty g1" "g_pos g \<le> g_pos g1" "4 dvd g_pos g1"
      have n: "g_nodes g1 = g_nodes g" using g1(2) by (simp add: same_graph_def)
      note v = same_nodes_views [OF n]
      have "graph_inv sp {} (X - {u}) Map.empty g1"
        using ok g1(2,3) v(8) nodes_ok_mono [OF ok(3) n g1(4,5)] by (simp add: graph_inv_def same_graph_def)
      moreover have "merged {} id g g1" using n v by (intro merged_id) simp_all
      moreover have "pins_kept id g g1" "pins_ok g1" "size_of g1 = size_of g"
        using g(2) v(1,3) by (simp_all add: pins_kept_id pins_def pins_ok_def size_of_def edge_count_def fun_eq_iff)
      ultimately have "settled sp X {u} g g1" using g1(2) unfolding settled_def same_graph_def by (intro exI [of _ "X - {u}"] exI [of _ id]) auto
      then show ?thesis unfolding run using g1(1) by (simp add: ret_apply)
    next
      fix g1 assume "intern sp u g = (Inl (Ub ''the arena is full''), g1)"
      then show ?thesis unfolding run by (simp add: subsume_faults_def arena_full_def)
    qed
  qed
qed

lemma settled_trans:
  assumes X: "X1 \<subseteq> X" "merged {} r g g1" "pins_kept r g g1" "size_of g1 \<le> size_of g" "\<forall>u \<in> U. live g1 u \<longrightarrow> u \<notin> X1" "g_reserved g1 = g_reserved g"
    and 2: "settled sp X1 V g1 g2"
  shows "settled sp X (U \<union> V) g g2"
proof -
  obtain X2 s where s: "X2 \<subseteq> X1" "graph_inv sp {} X2 Map.empty g2" "merged {} s g1 g2" "pins_kept s g1 g2" "pins_ok g2" "size_of g2 \<le> size_of g1"
    "\<forall>u \<in> V. live g2 u \<longrightarrow> u \<notin> X2" "g_reserved g2 = g_reserved g1" using 2 unfolding settled_def by blast
  have "\<forall>u \<in> U \<union> V. live g2 u \<longrightarrow> u \<notin> X2" using X(5) s(1,7) mergedD(1) [OF s(3)] by blast
  then show ?thesis
    unfolding settled_def using merged_trans [OF X(2) s(3)] pins_kept_trans [OF X(3) s(4)] X(1,4,6) s
    by (intro exI [of _ X2] exI [of _ "s \<circ> r"]) auto
qed

lemma settle_loop:
  assumes sub: "\<And>X m u g. graph_inv sp {} X Map.empty g \<Longrightarrow> pins_ok g \<Longrightarrow> live g m \<Longrightarrow> live g u \<Longrightarrow> m \<noteq> u \<Longrightarrow> size_of g \<le> S \<Longrightarrow>
      card {n. live g n} \<le> K \<Longrightarrow> ends (subsume_faults N) (\<lambda>_ g'. subsumed sp X m u g g') (sub m u g)"
  shows "graph_inv sp {} X Map.empty g \<Longrightarrow> pins_ok g \<Longrightarrow> size_of g \<le> S \<Longrightarrow> card {n. live g n} \<le> K \<Longrightarrow>
    \<forall>u \<in> fst ` set es. u \<noteq> 0 \<and> g_nodes g u \<noteq> None \<Longrightarrow>
    ends (subsume_faults N) (\<lambda>_ g'. settled sp X (fst ` set es) g g') (forM es (settle_use sp sub) g)"
proof (induction es arbitrary: X g)
  case Nil
  have "merged {} id g g" by (rule merged_id) auto
  then have "settled sp X {} g g" unfolding settled_def using Nil.prems pins_kept_id [of g g] by (intro exI [of _ X] exI [of _ id]) auto
  then show ?case by (simp add: ret_apply)
next
  case (Cons e es)
  obtain u i where e: "e = (u, i)" by force
  have "ends (subsume_faults N) (\<lambda>_ g'. settled sp X {u} g g') (settle_use sp sub e g)"
    unfolding e using Cons.prems e by (intro settle_ends [where S = S and K = K, OF sub]) auto
  then have "ends (subsume_faults N) (\<lambda>_ g'. settled sp X (fst ` set (e # es)) g g') (bindM (settle_use sp sub e) (\<lambda>_. forM es (settle_use sp sub)) g)"
  proof (rule ends_bind)
    fix y g1 assume "settled sp X {u} g g1"
    then obtain X1 r where r: "X1 \<subseteq> X" "graph_inv sp {} X1 Map.empty g1" "merged {} r g g1" "pins_kept r g g1" "pins_ok g1" "size_of g1 \<le> size_of g"
      "\<forall>u \<in> {u}. live g1 u \<longrightarrow> u \<notin> X1" "g_reserved g1 = g_reserved g" unfolding settled_def by blast
    have "card {n. live g1 n} \<le> K" using card_live_mono [of g1 g] mergedD(1) [OF r(3)] Cons.prems(4) by fastforce
    moreover have "\<forall>u \<in> fst ` set es. u \<noteq> 0 \<and> g_nodes g1 u \<noteq> None" using Cons.prems(5) mergedD(9) [OF r(3)] by simp
    ultimately have "ends (subsume_faults N) (\<lambda>_ g'. settled sp X1 (fst ` set es) g1 g') (forM es (settle_use sp sub) g1)"
      using r(2,5,6) Cons.prems(3) by (intro Cons.IH) auto
    then show "ends (subsume_faults N) (\<lambda>_ g'. settled sp X (fst ` set (e # es)) g g') (forM es (settle_use sp sub) g1)"
    proof (rule ends_mono [OF _ subset_refl])
      fix z g2 assume "settled sp X1 (fst ` set es) g1 g2"
      from settled_trans [OF r(1,3,4,6,7,8) this] show "settled sp X (fst ` set (e # es)) g g2" by (simp add: e)
    qed
  qed
  then show ?case by simp
qed

end
