(* ===== verification/Merges.thy ===== *)
theory Merges
  imports Subsume_Laws
begin

text \<open>
  The whole of \<^verbatim>\<open>subsume\<close>, by induction on its nesting, its branch for a nil replacement, and \<^verbatim>\<open>set_input\<close> with \<^verbatim>\<open>subsume_on_intern\<close>, which merges the node with the one it
  has become equal to.
\<close>

section \<open>One round\<close>

lemma table_ok_live: "table_ok sp X Y g \<Longrightarrow> table_ok sp {n \<in> X. live g n} Y g"
  unfolding table_ok_def rows_ok_def interned_def by auto

lemma round_done:
  assumes g: "graph_inv sp {} X Map.empty g" and w: "w \<noteq> t" "live g w" "live g t"
    and g1: "front_done sp X w t g kept g1" and g2: "settled sp (X \<union> users (outs g t)) (fst ` set kept) g1 g2"
    and g3: "\<And>X'. graph_inv sp {} X' Map.empty g2 \<Longrightarrow> graph_inv sp {} X' Map.empty g3" "merged {} id g2 g3" "0 < pins g2 w"
      "pins g3 = (pins g2)(w := pins g2 w - 1)" "pins_ok g3" "edge_count g3 \<le> edge_count g2" "g_reserved g3 = g_reserved g2"
  shows "subsumed sp X w t g g3"
proof -
  note f = front_doneD [OF g1]
  obtain X2 r where r: "X2 \<subseteq> X \<union> users (outs g t)" "graph_inv sp {} X2 Map.empty g2" "merged {} r g1 g2" "pins_kept r g1 g2" "size_of g2 \<le> size_of g1"
    "\<forall>u \<in> fst ` set kept. live g2 u \<longrightarrow> u \<notin> X2" "g_reserved g2 = g_reserved g1" using g2 unfolding settled_def by blast
  let ?r = "r \<circ> id(t := w)"
  have lw: "live g2 w" by (rule pinned_live [OF r(2) g3(3)])
  then have rw: "r w = w" by (rule mergedD(2) [OF r(3)])
  have m: "merged {t} ?r g g3" using merged_trans [OF merged_trans [OF f(4) r(3)] g3(2)] by simp
  have le: "live g3 n \<Longrightarrow> live g2 n" "live g2 n \<Longrightarrow> live g1 n" for n using mergedD(1) [OF g3(2)] mergedD(1) [OF r(3)] by blast+
  have inv: "graph_inv sp {} X2 Map.empty g3" by (rule g3(1) [OF r(2)])
  have "graph_inv sp {} {n \<in> X2. live g3 n} Map.empty g3" using inv table_ok_live [of sp X2 Map.empty g3] by (simp add: graph_inv_def)
  moreover have "{n \<in> X2. live g3 n} \<subseteq> X" using r(1,6) f(8) le by blast
  moreover have "\<not> live g3 t" using f(3) le by blast
  moreover have "?r t = ?r w" using w(1) by simp
  moreover have "pins_kept ?r g g3" by (rule pins_kept_round [OF w(1) rw f(5) r(4) g3(4)])
  moreover have "size_of g3 \<le> size_of g"
  proof -
    have "card {n. live g1 n} < card {n. live g n}" using card_live_less [of g1 g t] w(3) f(3) mergedD(1) [OF f(4)] by blast
    moreover have "card {n. live g3 n} \<le> card {n. live g2 n}" using card_live_mono [of g3 g2] le(1) by blast
    ultimately show ?thesis using r(5) g3(6) f(7) unfolding size_of_def by linarith
  qed
  moreover have "g_reserved g3 = g_reserved g" using f(10) r(7) g3(7) by simp
  ultimately show ?thesis using m g3(5) unfolding subsumed_def by (intro exI [of _ "{n \<in> X2. live g3 n}"] exI [of _ ?r]) simp
qed

section \<open>All rounds\<close>

lemma subsume_ends:
  "graph_inv sp {} X Map.empty g \<Longrightarrow> pins_ok g \<Longrightarrow> live g w \<Longrightarrow> live g t \<Longrightarrow> w \<noteq> t \<Longrightarrow> size_of g \<le> S \<Longrightarrow> size_of g < dfuel \<Longrightarrow>
   card {n. live g n} < fuel \<Longrightarrow> ends (subsume_faults S) (\<lambda>_ g'. subsumed sp X w t g g') (subsume sp oof dfuel fuel w t g)"
proof (induction fuel arbitrary: X w t g)
  case 0
  then show ?case by simp
next
  case (Suc fuel)
  note g = Suc.prems
  have "{w, t} \<subseteq> {n. live g n}" using g(3,4) by blast
  then have "card {w, t} \<le> card {n. live g n}" by (intro card_mono) auto
  then have ec: "edge_count g \<le> S" "Suc (edge_count g) < dfuel" using g(5-7) by (simp_all add: size_of_def)
  have w0: "w \<noteq> 0" using graph_inv_domain [OF g(1)] g(3) by blast
  show ?case
    unfolding subsume_eq [OF w0]
  proof (rule ends_bind, rule front_ends [OF g(1-5) ec])
    fix kept g1 assume g1: "front_done sp X w t g kept g1"
    note f = front_doneD [OF g1]
    have card: "card {n. live g1 n} < card {n. live g n}"
      using card_live_less [of g1 g t] g(4) f(3) mergedD(1) [OF f(4)] by blast
    then have s1: "size_of g1 \<le> size_of g" using f(7) by (simp add: size_of_def)
    have sub: "ends (subsume_faults S) (\<lambda>_ g'. subsumed sp X' m u h g') (subsume sp oof dfuel fuel m u h)"
      if "graph_inv sp {} X' Map.empty h" "pins_ok h" "live h m" "live h u" "m \<noteq> u" "size_of h \<le> size_of g1" "card {n. live h n} \<le> card {n. live g1 n}" for X' m u h
      using that g(6-8) s1 card by (intro Suc.IH) auto
    have "ends (subsume_faults S) (\<lambda>_ g'. settled sp (X \<union> users (outs g t)) (fst ` set (rev kept)) g1 g') (forM (rev kept) (settle_use sp (subsume sp oof dfuel fuel)) g1)"
      by (rule settle_loop [where S = "size_of g1" and N = S and K = "card {n. live g1 n}", OF sub]) (use f(1,6,9) in auto)
    then show "ends (subsume_faults S) (\<lambda>_ g'. subsumed sp X w t g g')
      (bindM (forM (rev kept) (settle_use sp (subsume sp oof dfuel fuel))) (\<lambda>_. g_unpin sp oof dfuel w False) g1)"
    proof (rule ends_bind)
      fix y g2 assume "settled sp (X \<union> users (outs g t)) (fst ` set (rev kept)) g1 g2"
      then have g2: "settled sp (X \<union> users (outs g t)) (fst ` set kept) g1 g2" by simp
      then obtain X2 r where r: "graph_inv sp {} X2 Map.empty g2" "merged {} r g1 g2" "pins_ok g2" "size_of g2 \<le> size_of g1"
        unfolding settled_def by blast
      have nw: "g_nodes g2 w \<noteq> None" using live_node [OF f(2)] mergedD(9) [OF r(2), of w] by auto
      have e2: "edge_count g2 < dfuel" using r(4) s1 g(7) by (simp add: size_of_def)
      show "ends (subsume_faults S) (\<lambda>_ g'. subsumed sp X w t g g') (g_unpin sp oof dfuel w False g2)"
      proof (cases "g_unpin sp oof dfuel w False g2")
        case (Pair res g3)
        note un = unpin_ends [where sp = sp and oof = oof and Y = Map.empty, OF _ r(3) nw e2, unfolded Pair]
        show ?thesis
        proof (cases res)
          case (Inl e)
          then show ?thesis using un [OF r(1)] unfolding Pair by (auto simp: subsume_faults_def)
        next
          case (Inr z)
          note un2 = un [unfolded Inr ends_simps]
          have "subsumed sp X w t g g3"
            by (rule round_done [OF g(1,5,3,4) g1 g2 conjunct1 [OF un2]]) (use un2 [OF r(1)] in blast)+
          then show ?thesis unfolding Pair Inr by simp
        qed
      qed
    qed
  qed
qed

text \<open>Whatever had left the interner has entered it again or is dead, but for the nodes in \<open>X\<close> other than the target.\<close>

lemma subsumed_ok:
  assumes "subsumed sp X w t g g'" "X \<subseteq> {t}"
  shows "graph_ok sp g' \<and> pins_ok g' \<and> g_reserved g' = g_reserved g"
proof -
  obtain X' where x: "X' \<subseteq> X" "graph_inv sp {} X' Map.empty g'" "\<not> live g' t" "g_reserved g' = g_reserved g" "pins_ok g'"
    using assms(1) unfolding subsumed_def by blast
  have e: "{n \<in> X'. live g' n} = {}" using x(1,3) assms(2) by blast
  have "table_ok sp {} Map.empty g'" using table_ok_live [OF graph_invD(2) [OF x(2)]] unfolding e .
  then show ?thesis using x(2,4,5) by (simp add: graph_ok_def graph_inv_def)
qed

section \<open>A nil replacement\<close>

text \<open>When no user gets the value of another node, the first round merges nothing and is the last one.\<close>

lemma clear_use_redirects: "u \<noteq> 0 \<Longrightarrow> clear_use sp (u, i) = redirect_use sp 0 (u, i)"
  by (simp add: clear_use_def redirect_use_def)

lemma clear_pass_ends:
  assumes new: "\<And>k m. k < length es \<Longrightarrow> live g0 (fst (es ! k)) \<and> (interned sp g0 m \<longrightarrow> m \<noteq> fst (es ! k) \<longrightarrow> value_of g0 m \<noteq> value_of g0 (fst (es ! k)))"
  shows "table_ok sp X Map.empty g \<Longrightarrow> nodes_ok sp g \<Longrightarrow> \<not> g_dont_intern g \<Longrightarrow> g_nodes g 0 = None \<Longrightarrow> same_graph g0 g \<Longrightarrow> \<forall>k \<in> set ks. k < length es \<Longrightarrow>
    ends (subsume_faults 0) (\<lambda>r g'. r = (es, False) \<and> same_graph g0 g' \<and> table_ok sp (X - (\<lambda>k. fst (es ! k)) ` set ks) Map.empty g' \<and> nodes_ok sp g')
      (clear_pass sp sub t ks (es, False) g)"
proof (induction ks arbitrary: g X)
  case Nil
  then show ?case by (simp add: ret_apply)
next
  case (Cons k ks)
  let ?u = "fst (es ! k)"
  have n0: "g_nodes g = g_nodes g0" using Cons.prems(5) by (simp add: same_graph_def)
  note v = same_nodes_views [OF n0]
  have u: "live g ?u" using new [of k] Cons.prems(6) v by simp
  from intern_returns [OF Cons.prems(1-3) u Cons.prems(4)] show ?case
  proof (elim disjE exE conjE)
    fix m assume m: "m \<noteq> ?u" "m \<in> entries g" "value_of g m = value_of g ?u"
    have "interned sp g m" using m(2) Cons.prems(1) by (simp add: table_ok_def rows_ok_def)
    then show ?thesis using new [of k m] m(1,3) Cons.prems(6) unfolding v by simp
  next
    fix g1 assume g1: "intern sp ?u g = (Inr ?u, g1)" "same_graph g g1" "table_ok sp (X - {?u}) Map.empty g1" "g_pos g \<le> g_pos g1" "4 dvd g_pos g1"
    have n: "g_nodes g1 = g_nodes g" using g1(2) by (simp add: same_graph_def)
    have "nodes_ok sp g1" by (rule nodes_ok_mono [OF Cons.prems(2) n g1(4,5)])
    moreover have "\<not> g_dont_intern g1" "g_nodes g1 0 = None" "same_graph g0 g1" using Cons.prems(3-5) g1(2) by (simp_all add: same_graph_def)
    moreover have "X - {?u} - (\<lambda>k. fst (es ! k)) ` set ks = X - (\<lambda>k. fst (es ! k)) ` set (k # ks)" by auto
    ultimately show ?thesis using Cons.IH [OF g1(3)] g1(1) Cons.prems(6) by (simp add: Let_def)
  next
    fix g1 assume "intern sp ?u g = (Inl (Ub ''the arena is full''), g1)"
    then show ?thesis by (simp add: Let_def subsume_faults_def arena_full_def)
  qed
qed

lemma cleared_edges:
  assumes g: "edges_match {} g" and t: "t \<noteq> 0"
    and s: "live g' = live g" "\<And>n. length (ins g' n) = length (ins g n)" "\<And>n. g_nodes g' n = None \<longleftrightarrow> g_nodes g n = None"
      "\<And>n j. j < length (ins g n) \<Longrightarrow> ins g' n ! j = (if (n, j) \<in> set (outs g t) \<and> (n, j) \<noteq> (0, 0) then 0 else ins g n ! j)" "outs g' = (outs g)(t := [])"
    and pin: "\<forall>i. (0, i) \<notin> set (outs g t)"
  shows "edges_match {} g'" "live g n \<Longrightarrow> ins g' n = map (id(t := 0)) (ins g n)"
proof -
  have n0: "n \<noteq> 0" if "live g n" for n using that edges_matchD(1) [OF g, of n] live_node by blast
  have use: "(n, j) \<in> set (outs g t) \<longleftrightarrow> edge_at g n j t" if "n \<noteq> 0" for n j
    using edges_counted [OF g that, of t j] by (auto simp: in_set_count split: if_splits)
  have nth: "ins g' n ! j = (if edge_at g n j t then 0 else ins g n ! j)" if "live g n" "j < length (ins g n)" for n j
    using s(4) n0 [OF that(1)] use that by simp
  show "edges_match {} g'"
  proof (rule edges_by_counts)
    have edge: "edge_at g' n j d \<longleftrightarrow> edge_at g n j d \<and> d \<noteq> t" for n j d
    proof (cases "live g n \<and> j < length (ins g n)")
      case True
      then show ?thesis using s(1,2) nth [of n j] t by (cases "ins g n ! j = t") (auto simp: edge_at_def)
    next
      case False
      then show ?thesis using s(1,2) by (auto simp: edge_at_def)
    qed
    show "j < 256" if "edge_at g' n j d" for n j d using that edge_bound [OF g, of n j d] unfolding edge by blast
    show "count_list (outs g' d) (n, j) = (if edge_at g' n j d then 1 else 0)" if "n \<noteq> 0" for n j d
      using edges_counted [OF g that] unfolding edge s(5) by simp
    show "outs g' n = []" if "\<not> live g' n" for n using that s(1,5) edges_matchD(2) [OF g, of n] by auto
  qed (use edges_matchD(1) [OF g] s(3) in auto)
  show "ins g' n = map (id(t := 0)) (ins g n)" if n: "live g n"
    using nth [OF n] s(2) t by (intro nth_equalityI) (auto simp: edge_at_def n)
qed

text \<open>What is left has nil for the target.\<close>

definition cleared :: "Node_Spec \<Rightarrow> u32 \<Rightarrow> graph \<Rightarrow> graph \<Rightarrow> bool" where
  "cleared sp t g g' \<longleftrightarrow> graph_ok sp g' \<and> \<not> live g' t \<and> pins g' = pins g \<and> pins_ok g' \<and> g_reserved g' = g_reserved g \<and>
     (\<forall>n. live g' n \<longrightarrow> live g n \<and> kind_of g' n = kind_of g n \<and> ins g' n = map (id(t := 0)) (ins g n))"

lemma clear_loop:
  assumes g: "graph_ok sp g" and use: "\<And>u i. (u, i) \<in> set es \<Longrightarrow> u \<noteq> 0 \<and> live g u \<and> i < length (ins g u)"
  shows "\<exists>g1. forM es (clear_use sp) g = (Inr (), g1) \<and> inputs_set es 0 g g1 \<and> table_ok sp (users es) Map.empty g1 \<and> nodes_ok sp g1"
proof -
  note ok = graph_invD [OF g [unfolded graph_ok_def]]
  have "forM es' (clear_use sp) = forM es' (redirect_use sp 0)" if "set es' \<subseteq> set es" for es'
    using that use by (induction es') (auto simp: clear_use_redirects)
  then have run: "forM es (clear_use sp) = forM es (redirect_use sp 0)" by simp
  have "\<forall>(u, i) \<in> set es. (u, i) = (0, 0) \<or> live g u \<and> i < length (ins g u)" using use by auto
  from redirect_loop [OF ok(2,3,5) nil_no_node [OF ok(1)] this, of 0] show ?thesis unfolding run by simp
qed

text \<open>The end of it: the outputs of the target are forgotten and it is deleted.\<close>

lemma cleared_deleted:
  assumes g: "graph_ok sp g" "pins_ok g" and t: "live g t" "\<forall>i. (0, i) \<notin> set (outs g t)" and fuel: "edge_count g < dfuel"
    and s: "inputs_set (outs g t) 0 g g2" and g2: "table_ok sp {} Map.empty g2" "nodes_ok sp g2"
  shows "ends (subsume_faults 0) (\<lambda>_ g'. cleared sp t g g') (bindM (g_put_node t (node_outs_update (\<lambda>_. []))) (\<lambda>_. delete_node sp oof dfuel t) g2)"
proof -
  note ok = graph_invD [OF g(1) [unfolded graph_ok_def]] and s' = s [unfolded inputs_set_def]
  have m: "edges_match {} g" using ok(1) by (simp add: edges_agree_def)
  have t0: "t \<noteq> 0" "g_nodes g t \<noteq> None" using graph_ok_domain [OF g(1) t(1)] by simp_all
  let ?h = "with_outs t [] g2"
  have views: "live ?h = live g" "\<And>n. length (ins ?h n) = length (ins g n)" "\<And>n. g_nodes ?h n = None \<longleftrightarrow> g_nodes g n = None"
    "\<And>n j. j < length (ins g n) \<Longrightarrow> ins ?h n ! j = (if (n, j) \<in> set (outs g t) \<and> (n, j) \<noteq> (0, 0) then 0 else ins g n ! j)" "outs ?h = (outs g)(t := [])"
    using s' t0(2) by (auto simp: fun_eq_iff)
  note cl = cleared_edges [OF m t0(1) views t(2)]
  have inv: "graph_inv sp {} {} Map.empty ?h"
    using cl(1) g2(1) nodes_ok_with_outs [OF g2(2), of "[]" t] ok(4,5) s' unfolding graph_inv_def edges_agree_def by simp
  have "edge_count ?h \<le> edge_count g" unfolding edge_count_def views(5) by (rule sum_mono) simp
  then have ec: "edge_count ?h < dfuel" using fuel by simp
  have p: "pins ?h = pins g" "pins_ok ?h" "live ?h t" "outs ?h t = []"
    using t g(2) unfolding pins_def pins_ok_def views by (auto simp: fun_eq_iff)
  have "ends (subsume_faults 0) (\<lambda>_ g'. cleared sp t g g') (delete_node sp oof dfuel t ?h)"
  proof (rule ends_mono [OF delete_ends [OF inv p(3,2) ec]])
    fix x g' assume d: "graph_inv sp {} {} Map.empty g' \<and> merged {} id ?h g' \<and> pins g' = pins ?h \<and> pins_ok g' \<and> edge_count g' \<le> edge_count ?h \<and>
      (live g' t \<longleftrightarrow> outs ?h t \<noteq> []) \<and> g_reserved g' = g_reserved ?h"
    then have "merged {} id ?h g'" by simp
    note a = mergedD(1,3,4) [OF this]
    have "live g n \<and> kind_of g' n = kind_of g n \<and> ins g' n = map (id(t := 0)) (ins g n)" if "live g' n" for n
      using a [OF that] cl(2) [of n] s' unfolding views(1) by simp
    then show "cleared sp t g g'" using d p(1,4) s' by (simp add: cleared_def graph_ok_def)
  qed (simp add: subsume_faults_def)
  then show ?thesis by (simp add: put_outs)
qed

lemma clear_rounds_ends:
  assumes new: "\<And>k m. k < length es \<Longrightarrow> live g (fst (es ! k)) \<and> (interned sp g m \<longrightarrow> m \<noteq> fst (es ! k) \<longrightarrow> value_of g m \<noteq> value_of g (fst (es ! k)))"
    and g: "table_ok sp (users es) Map.empty g" "nodes_ok sp g" "\<not> g_dont_intern g" "g_nodes g 0 = None" and n: "0 < rounds"
  shows "ends (subsume_faults 0) (\<lambda>_ g'. same_graph g g' \<and> table_ok sp {} Map.empty g' \<and> nodes_ok sp g') (clear_rounds sp sub oof t rounds es g)"
proof -
  obtain d where d: "rounds = Suc d" using n by (cases rounds) auto
  have "u \<in> (\<lambda>k. fst (es ! k)) ` set [0..<length es]" if u: "u \<in> users es" for u
  proof -
    obtain k where "k < length es" "fst (es ! k) = u" using u by (auto simp: users_def in_set_conv_nth)
    then show ?thesis by force
  qed
  then have all: "users es - (\<lambda>k. fst (es ! k)) ` set [0..<length es] = {}" by blast
  note pass = clear_pass_ends [OF new g, of "[0..<length es]" sub t, unfolded all]
  show ?thesis unfolding d clear_rounds.simps by (rule ends_bind, rule pass) (auto simp: same_graph_def ret_apply)
qed

lemma cleared_values:
  assumes g: "graph_ok sp g" and t: "t \<noteq> 0" and s: "inputs_set (outs g t) 0 g g1" and n: "live g n"
  shows "value_of g1 n = (kind_of g n, map (id(t := 0)) (ins g n))"
proof -
  have m: "edges_match {} g" using graph_okD(1) [OF g] by (simp add: edges_agree_def)
  have "(n, j) \<in> set (outs g t) \<and> (n, j) \<noteq> (0, 0) \<longleftrightarrow> ins g n ! j = t" if "j < length (ins g n)" for j
    using edges_matchD(3) [OF m n that] edges_matchD(4) [OF m, of n j t] graph_ok_domain [OF g n] t by auto
  then have "ins g1 n = map (id(t := 0)) (ins g n)" using s unfolding inputs_set_def by (intro nth_equalityI) auto
  then show ?thesis using s by (simp add: value_of_def inputs_set_def)
qed

lemma nil_subsume_ends:
  assumes g: "graph_ok sp g" "pins_ok g" and t: "live g t" "(0, 0) \<notin> set (outs g t)" and fuel: "edge_count g < dfuel"
    and new: "\<And>u m. u \<in> users (outs g t) \<Longrightarrow> interned sp g m \<Longrightarrow> m \<noteq> u \<Longrightarrow>
      (kind_of g m, map (id(t := 0)) (ins g m)) \<noteq> (kind_of g u, map (id(t := 0)) (ins g u))"
  shows "ends (subsume_faults 0) (\<lambda>_ g'. cleared sp t g g') (subsume sp oof dfuel (Suc fuel) 0 t g)"
proof -
  note ok = graph_invD [OF g(1) [unfolded graph_ok_def]]
  have m: "edges_match {} g" using ok(1) by (simp add: edges_agree_def)
  obtain y where y: "g_nodes g t = Some y" "node_rtype y \<noteq> DEAD_NODE_KIND" using live_node [OF t(1)] by blast
  have t0: "t \<noteq> 0" using graph_ok_domain [OF g(1) t(1)] by simp
  have o: "node_outs y = outs g t" using y by (simp add: outs_def)
  have pin: "\<forall>i. (0, i) \<notin> set (outs g t)" using t(2) g(2) unfolding pins_ok_def by metis
  have use: "u \<noteq> 0 \<and> live g u \<and> i < length (ins g u) \<and> ins g u ! i = t" if "(u, i) \<in> set (outs g t)" for u i
    using that pin edges_matchD(4) [OF m, of u i t] by (cases "u = 0") auto
  obtain g1 where g1: "forM (outs g t) (clear_use sp) g = (Inr (), g1)" "inputs_set (outs g t) 0 g g1"
    "table_ok sp (users (outs g t)) Map.empty g1" "nodes_ok sp g1" using clear_loop [OF g(1), of "outs g t"] use by blast
  note s = g1(2) [unfolded inputs_set_def]
  note val = cleared_values [OF g(1) t0 g1(2)]
  have iv: "interned sp g1 = interned sp g" using s by (simp add: interned_def fun_eq_iff)
  have fresh: "live g1 (fst (outs g t ! k)) \<and> (interned sp g1 n \<longrightarrow> n \<noteq> fst (outs g t ! k) \<longrightarrow> value_of g1 n \<noteq> value_of g1 (fst (outs g t ! k)))"
    if k: "k < length (outs g t)" for k n
  proof -
    obtain u i where u: "outs g t ! k = (u, i)" by force
    then have ui: "(u, i) \<in> set (outs g t)" using k by (metis nth_mem)
    then have "u \<in> users (outs g t)" using use by (auto simp: users_def)
    then show ?thesis using new [of u n] use [OF ui] val [of u] val [of n] s u unfolding iv by (auto simp: interned_def)
  qed
  have fl: "\<not> g_dont_intern g1" "g_nodes g1 0 = None" using ok(5) s nil_no_node [OF ok(1)] by simp_all
  have "0 < dfuel" using fuel by simp
  note rounds = clear_rounds_ends [OF fresh g1(3,4) fl this, of "subsume sp oof dfuel fuel" oof t]
  have last: "ends (subsume_faults 0) (\<lambda>_ g'. cleared sp t g g') (bindM (g_put_node t (node_outs_update (\<lambda>_. []))) (\<lambda>_. delete_node sp oof dfuel t) g2)"
    if g2: "same_graph g1 g2 \<and> table_ok sp {} Map.empty g2 \<and> nodes_ok sp g2" for g2
  proof -
    have n2: "g_nodes g2 = g_nodes g1" using g2 by (simp add: same_graph_def)
    have "inputs_set (outs g t) 0 g g2" using s g2 same_nodes_views [OF n2] n2 by (simp add: inputs_set_def same_graph_def)
    then show ?thesis using g2 by (intro cleared_deleted [OF g t(1) pin fuel]) simp_all
  qed
  have exp: "g_expand_node t g = (Inr y, g)" "\<exists>z. g_expand_node 0 g = (Inr z, g)"
    using g_get_node_some [OF t0 y(1)] y by (simp_all add: g_expand_node_def g_get_node_def NIL_NODE_def DEAD_NODE_KIND_def ret_apply)
  have "subsume sp oof dfuel (Suc fuel) 0 t g = bindM (clear_rounds sp (subsume sp oof dfuel fuel) oof t dfuel (outs g t)) (\<lambda>_.
      bindM (g_put_node t (node_outs_update (\<lambda>_. []))) (\<lambda>_. delete_node sp oof dfuel t)) g1"
    using exp t0 g1(1) o by (auto simp: subsume.simps)
  then show ?thesis using last by (simp only:) (rule ends_bind, rule rounds)
qed

section \<open>Replacement of an input, with merges\<close>

lemma set_input_subsuming_ends:
  assumes g: "graph_ok sp g" "pins_ok g" and u: "live g u" "i < length (ins g u)" "i < 256" "ins g u ! i = p"
    and v: "v = 0 \<or> live g v \<and> length (outs g v) < 2 ^ 13 - 1 \<and> out_fits sp g v u i"
    and stop: "Suc (size_of g) < dfuel" "card {n. live g n} < fuel"
    and room: "g_pos g + 2 ^ 16 + intern_room g \<le> g_reserved g"
  shows "(\<exists>g'. input_replaced u i p v g g' \<and>
    (set_input_subsuming sp oof dfuel fuel u (int i) v g = (Inr u, g') \<and> graph_ok sp g' \<or>
     (\<exists>m. live g' m \<and> live g' u \<and> m \<noteq> u \<and> value_of g' m = value_of g' u \<and> interned sp g m \<and> value_of g m = (kind_of g u, (ins g u)[i := v]) \<and>
        ends (subsume_faults (Suc (size_of g))) (\<lambda>n g''. n = m \<and> subsumed sp {u} m u g' g'') (set_input_subsuming sp oof dfuel fuel u (int i) v g)))) \<or>
    (\<exists>g'. set_input_subsuming sp oof dfuel fuel u (int i) v g = (Inl (Panic ''node.itype != .End''), g')) \<and> \<not> ends_pinned g"
proof -
  let ?settle = "\<lambda>nid. if nid \<noteq> u then subsume sp oof dfuel fuel nid u else ret ()"
  have ec: "Suc (edge_count g) < dfuel" using stop(1) by (simp add: size_of_def)
  show ?thesis
  proof (cases "\<exists>g'. set_input_by sp oof dfuel ?settle u (int i) v g = (Inl (Panic ''node.itype != .End''), g') \<and> \<not> ends_pinned g")
    case True
    then show ?thesis by (auto simp: set_input_subsuming_def)
  next
    case False
    then obtain g' where g': "input_replaced u i p v g g'"
      "set_input_by sp oof dfuel ?settle u (int i) v g = (Inr u, g') \<and> graph_ok sp g' \<or>
       (\<exists>m. set_input_by sp oof dfuel ?settle u (int i) v g = bindM (?settle m) (\<lambda>_. ret m) g' \<and> graph_inv sp {} {u} Map.empty g' \<and>
          live g' u \<and> live g' m \<and> m \<noteq> u \<and> value_of g' m = value_of g' u \<and> interned sp g m \<and> value_of g m = (kind_of g u, (ins g u)[i := v]))"
      using set_input_by_returns [where settle = ?settle and oof = oof, OF g(1) u v ec room] by auto
    have rep: "\<And>m. live g' m \<Longrightarrow> live g m" "\<And>m j. count_list (outs g' m) (0, j) = count_list (outs g m) (0, j)" "edge_count g' \<le> Suc (edge_count g)"
      using g'(1) by (simp_all add: input_replaced_def)
    have p: "pins_ok g'" using g(2) unfolding pins_ok_def in_set_count rep(2) .
    have "card {n. live g' n} \<le> card {n. live g n}" using card_live_mono [of g' g] rep(1) by blast
    then have s: "size_of g' \<le> Suc (size_of g)" "size_of g' < dfuel" "card {n. live g' n} < fuel" using rep(3) stop unfolding size_of_def by linarith+
    from g'(2) show ?thesis
    proof (elim disjE exE conjE)
      fix m assume m: "set_input_by sp oof dfuel ?settle u (int i) v g = bindM (?settle m) (\<lambda>_. ret m) g'" "graph_inv sp {} {u} Map.empty g'"
        "live g' u" "live g' m" "m \<noteq> u" "value_of g' m = value_of g' u" "interned sp g m" "value_of g m = (kind_of g u, (ins g u)[i := v])"
      have "ends (subsume_faults (Suc (size_of g))) (\<lambda>n g''. n = m \<and> subsumed sp {u} m u g' g'') (bindM (subsume sp oof dfuel fuel m u) (\<lambda>_. ret m) g')"
        by (rule ends_bind, rule subsume_ends [OF m(2) p m(4,3,5) s]) (simp add: ret_apply)
      then show ?thesis using m g'(1) unfolding set_input_subsuming_def by (intro disjI1 exI [of _ g'] conjI disjI2 exI [of _ m]) simp_all
    qed (use g'(1) in \<open>auto simp: set_input_subsuming_def\<close>)
  qed
qed

end
