(* ===== verification/Graph_Steps.thy ===== *)
theory Graph_Steps
  imports Merges
begin

text \<open>
  The operations on a graph as steps: whatever a client does, one operation after the other and within the limits of the
  representation, every graph it reaches is well-formed.
\<close>

section \<open>Pins taken back\<close>

lemma unpin_effect:
  assumes g: "graph_ok sp g" and d: "live g d" "(0, 0) \<in> set (outs g d)" and fuel: "edge_count g < fuel"
    and run: "g_unpin sp oof fuel d False g = (Inr (), g')"
  shows "graph_ok sp g' \<and> g_reserved g' = g_reserved g \<and> (\<forall>m j. count_list (outs g' m) (0, j) \<le> count_list (outs g m) (0, j))"
proof -
  have d0: "d \<noteq> 0" using graph_ok_domain [OF g d(1)] by simp
  have e: "mk_output 0 0 = (0, 0)" by (simp add: mk_output_def)
  obtain k where k: "linear_search (outs g d) (0, 0) = Some k" using d(2) linear_search_None by fastforce
  let ?g = "with_outs d (swap_remove (outs g d) k) g"
  have r: "removed d (0, 0) g ?g" using k d0 by (auto simp: removed_def)
  note v = removed_facts [OF r]
  have inv: "graph_inv sp {} {} Map.empty ?g" by (rule unpinned_inv [OF g [unfolded graph_ok_def] r])
  have pre: "d = 0 \<or> live ?g d" "edge_count ?g < fuel" "removed d (mk_output 0 0) g ?g" using v(10) fuel d(1) r e by auto
  have run': "remove_output sp oof fuel d (mk_output 0 0) False g = (Inr (), g')" using run by (simp add: g_unpin_def)
  have "graph_inv sp {} {} Map.empty g' \<and> same_flags ?g g' \<and> (\<forall>m j. count_list (outs g' m) (0, j) = count_list (outs ?g m) (0, j))"
    using deletion_returns [OF inv pre, of oof] unfolding run' by blast
  then show ?thesis using v(6,12) by (auto simp: graph_ok_def same_flags_def)
qed

section \<open>Steps\<close>

text \<open>
  What each operation may be asked. The premises are the limits of the representation: 256 inputs of a node, an output array that can grow,
  and room in the arena; and that a connected node does not become equal to an interned one, as the users of a removed node do not
  to each other, for which the code has no check. An operation that stops at an assertion makes no step.
\<close>

inductive graph_step :: "Node_Spec \<Rightarrow> graph \<Rightarrow> graph \<Rightarrow> bool" for sp where
  create: "raw_in_range inps m \<Longrightarrow> add_raw_2 sp inps extra m g = (Inr n, g') \<Longrightarrow> graph_step sp g g'"
| connect: "live g u \<Longrightarrow> length (ins g u) < 256 \<Longrightarrow> live g d \<Longrightarrow> length (outs g d) < 2 ^ 13 - 1 \<Longrightarrow>
    \<forall>m. interned sp g m \<longrightarrow> value_of g m \<noteq> (kind_of g u, ins g u @ [d]) \<Longrightarrow>
    inherits_cfg sp (fst (kind_of g d)) \<longrightarrow> fst (kind_of g u) = type_Phi \<longrightarrow> ins g u = [] \<Longrightarrow>
    g_pos g + 2056 + intern_room g + 2 ^ 16 \<le> g_reserved g \<Longrightarrow> g_connect sp u d g = (Inr k, g') \<Longrightarrow> graph_step sp g g'"
| pin: "live g d \<Longrightarrow> length (outs g d) < 2 ^ 13 - 1 \<Longrightarrow> g_pos g + 2 ^ 16 \<le> g_reserved g \<Longrightarrow> g_pin sp d g = (Inr (), g') \<Longrightarrow> graph_step sp g g'"
| unpin: "live g d \<Longrightarrow> (0, 0) \<in> set (outs g d) \<Longrightarrow> edge_count g < fuel \<Longrightarrow> g_unpin sp oof fuel d False g = (Inr (), g') \<Longrightarrow> graph_step sp g g'"
| delete: "live g n \<Longrightarrow> edge_count g < fuel \<Longrightarrow> delete_node sp oof fuel n g = (Inr (), g') \<Longrightarrow> graph_step sp g g'"
| replace: "live g u \<Longrightarrow> i < length (ins g u) \<Longrightarrow> i < 256 \<Longrightarrow>
    v = 0 \<or> live g v \<and> length (outs g v) < 2 ^ 13 - 1 \<and> out_fits sp g v u i \<Longrightarrow>
    Suc (edge_count g) < fuel \<Longrightarrow> g_pos g + 2 ^ 16 + intern_room g \<le> g_reserved g \<Longrightarrow>
    set_input sp oof fuel u (int i) v g = (Inr n, g') \<Longrightarrow> graph_step sp g g'"
| swap: "live g u \<Longrightarrow> i < length (ins g u) \<Longrightarrow> j < length (ins g u) \<Longrightarrow> i < 256 \<Longrightarrow> j < 256 \<Longrightarrow> g_pos g + intern_room g \<le> g_reserved g \<Longrightarrow>
    swap_inputs sp u (int i) (int j) g = (Inr (), g') \<Longrightarrow> graph_step sp g g'"
| copy: "live g u \<Longrightarrow> clone_can sp g u \<Longrightarrow> clone sp u g = (Inr n, g') \<Longrightarrow> graph_step sp g g'"
| merge: "live g w \<Longrightarrow> live g t \<Longrightarrow> w \<noteq> t \<Longrightarrow> size_of g < dfuel \<Longrightarrow> card {n. live g n} < fuel \<Longrightarrow>
    subsume sp oof dfuel fuel w t g = (Inr (), g') \<Longrightarrow> graph_step sp g g'"
| clear: "live g t \<Longrightarrow> (0, 0) \<notin> set (outs g t) \<Longrightarrow> edge_count g < dfuel \<Longrightarrow>
    \<forall>u \<in> users (outs g t). \<forall>m. interned sp g m \<longrightarrow> m \<noteq> u \<longrightarrow>
      (kind_of g m, map (id(t := 0)) (ins g m)) \<noteq> (kind_of g u, map (id(t := 0)) (ins g u)) \<Longrightarrow>
    subsume sp oof dfuel (Suc fuel) 0 t g = (Inr (), g') \<Longrightarrow> graph_step sp g g'"
| replace_merge: "live g u \<Longrightarrow> i < length (ins g u) \<Longrightarrow> i < 256 \<Longrightarrow>
    v = 0 \<or> live g v \<and> length (outs g v) < 2 ^ 13 - 1 \<and> out_fits sp g v u i \<Longrightarrow>
    Suc (size_of g) < dfuel \<Longrightarrow> card {n. live g n} < fuel \<Longrightarrow> g_pos g + 2 ^ 16 + intern_room g \<le> g_reserved g \<Longrightarrow>
    set_input_subsuming sp oof dfuel fuel u (int i) v g = (Inr n, g') \<Longrightarrow> graph_step sp g g'"

lemma pins_ok_added:
  assumes "pins_ok g" "\<forall>x. \<exists>es. outs g' x = outs g x @ es \<and> (\<forall>i. (0, i) \<notin> set es)"
  shows "pins_ok g'"
  unfolding pins_ok_def
proof (intro allI impI)
  fix d i assume i: "(0, i) \<in> set (outs g' d)"
  obtain es where "outs g' d = outs g d @ es" "\<forall>i. (0, i) \<notin> set es" using assms(2) by blast
  then show "i = 0" using i assms(1) by (auto simp: pins_ok_def)
qed

lemma step_ok:
  assumes "graph_step sp g g'" "graph_ok sp g" "pins_ok g" "g_reserved g \<le> 2 ^ 24"
  shows "graph_ok sp g' \<and> pins_ok g' \<and> g_reserved g' = g_reserved g"
  using assms(1)
proof cases
  case (create inps m extra n)
  then show ?thesis using add_raw_returns [OF assms(2,4) create(1) refl, of extra] assms(2,3) pins_ok_added [OF assms(3)] by (auto simp: rest_kept_def)
next
  case (connect u d k)
  have "u \<noteq> 0" using graph_ok_domain [OF assms(2) connect(1)] by simp
  then show ?thesis using connect_returns [OF assms(2) connect(1-7)] connect(8) assms(3) by (auto simp: pins_ok_def split: if_splits)
next
  case (pin d)
  then show ?thesis using pin_returns [OF assms(2) pin(1-3)] assms(3) by (auto simp: pins_ok_def split: if_splits)
next
  case (unpin d fuel oof)
  then show ?thesis using unpin_effect [OF assms(2) unpin(1-4)] pins_ok_counts [OF assms(3)] by blast
next
  case (delete n fuel oof)
  have "g_nodes g n \<noteq> None" using graph_ok_domain [OF assms(2) delete(1)] by simp
  then have ok: "graph_ok sp g'" "deleted n g g'"
    using delete_stops [OF assms(2) [unfolded graph_ok_def] _ delete(2), of n oof] delete(3) unfolding graph_ok_def by auto
  have "pins_ok g'" using deleted_outs(1) [OF ok(2) delete(1)] by (intro pins_ok_counts [OF assms(3)]) simp
  then show ?thesis using ok by (auto simp: deleted_def same_flags_def split: if_splits)
next
  case (replace u i v fuel oof n)
  have "graph_ok sp g'" "input_replaced u i (ins g u ! i) v g g'"
    using set_input_returns [OF assms(2) replace(1-3) refl replace(4-6), of oof] replace(7) by auto
  then show ?thesis using pins_ok_counts [OF assms(3), of g'] by (auto simp: input_replaced_def)
next
  case (swap u i j)
  then show ?thesis using swap_inputs_returns [OF assms(2) swap(1-6)] pins_ok_counts [OF assms(3), of g'] by auto
next
  case (copy u n)
  then show ?thesis using clone_returns [OF assms(2,4) copy(1,2) refl] pins_ok_added [OF assms(3)] by (auto simp: rest_kept_def)
next
  case (merge w t dfuel fuel oof)
  have "subsumed sp {} w t g g'" using subsume_ends [OF assms(2) [unfolded graph_ok_def] assms(3) merge(1-3) order_refl merge(4,5), of oof] merge(6) by simp
  then show ?thesis by (rule subsumed_ok) simp
next
  case (clear t dfuel oof fuel)
  have "cleared sp t g g'" using nil_subsume_ends [OF assms(2,3) clear(1-3), of oof fuel] clear(4,5) by auto
  then show ?thesis by (simp add: cleared_def)
next
  case (replace_merge u i v dfuel fuel oof n)
  obtain g1 where g1: "input_replaced u i (ins g u ! i) v g g1" "g' = g1 \<and> graph_ok sp g1 \<or> (\<exists>m. subsumed sp {u} m u g1 g')"
    using set_input_subsuming_ends [OF assms(2,3) replace_merge(1-3) refl replace_merge(4-7), of oof] replace_merge(8) by auto
  have "pins_ok g1" "g_reserved g1 = g_reserved g" using pins_ok_counts [OF assms(3), of g1] g1(1) by (auto simp: input_replaced_def)
  then show ?thesis using g1(2) subsumed_ok [of sp "{u}" _ u g1 g'] by auto
qed

lemma steps_ok:
  "(graph_step sp)\<^sup>*\<^sup>* g g' \<Longrightarrow> graph_ok sp g \<Longrightarrow> pins_ok g \<Longrightarrow> g_reserved g \<le> 2 ^ 24 \<Longrightarrow>
   graph_ok sp g' \<and> pins_ok g' \<and> g_reserved g' \<le> 2 ^ 24"
  by (induction rule: rtranclp_induct) (auto dest: step_ok)

text \<open>A graph without nodes, in an arena where id 0 is taken.\<close>

definition blank_graph :: "nat \<Rightarrow> bool \<Rightarrow> graph" where
  "blank_graph reserved dbg = \<lparr>g_nodes = Map.empty, g_pos = 4, g_reserved = reserved, g_hashes = [], g_ids = [], g_len = 0, g_gvn = 1, g_waste = 0,
     g_has_dbg = dbg, g_dont_intern = False, g_dont_delete = False\<rparr>"

lemma blank_pins: "pins_ok (blank_graph reserved dbg)"
  by (simp add: pins_ok_def outs_def blank_graph_def)

lemma blank_ok: "type_count sp < 2 ^ 16 \<Longrightarrow> graph_ok sp (blank_graph reserved dbg)"
  by (auto simp: graph_ok_def graph_inv_def edges_agree_def edges_match_def table_ok_def shape_ok_def rows_ok_def nodes_ok_def blank_graph_def
      live_def ins_def outs_def interned_def rows_def entries_def)

end
