(* ===== verification/Graph_Laws.thy ===== *)
theory Graph_Laws
  imports Graph_Steps
begin

text \<open>
  The properties of the graph: every graph that can be built is well-formed, what deletion takes, that it stops, one node per
  value, what creation, replacement, connection, exchange and copies do, and when an output array cannot grow.
\<close>

section \<open>A graph\<close>

text \<open>A constant at 16 and a node at 32 that uses it; types 27 and 31 are interned.\<close>

definition tiny_spec :: Node_Spec where
  "tiny_spec = \<lparr>type_count = 60, node_extra_sizes = (\<lambda>ty. if ty = 27 then 2 else 0), flag_interned = (\<lambda>ty. ty = 27 \<or> ty = 31),
     flag_store = (\<lambda>_. False), flag_load = (\<lambda>_. False), inherits_cfg = (\<lambda>ty. ty < 7), inherits_cint = (\<lambda>ty. ty = 27)\<rparr>"

definition tiny_const :: node where
  "tiny_const = \<lparr>node_rtype = 27, node_meta = 4, node_gvn = 1, node_extra_dwords = 0, node_inps = [], node_input_cap = 0,
     node_outs = [(32, 0)], node_output_cap = 2, node_extra = [5, 0]\<rparr>"

definition tiny_user :: node where
  "tiny_user = \<lparr>node_rtype = 31, node_meta = 4, node_gvn = 2, node_extra_dwords = 0, node_inps = [16], node_input_cap = 1,
     node_outs = [], node_output_cap = 0, node_extra = []\<rparr>"

definition tiny_graph :: graph where
  "tiny_graph = \<lparr>g_nodes = [16 \<mapsto> tiny_const, 32 \<mapsto> tiny_user], g_pos = 256, g_reserved = 1048576,
     g_hashes = [node_hash tiny_spec tiny_const, node_hash tiny_spec tiny_user] @ replicate 14 0,
     g_ids = [16, 32] @ replicate 14 0, g_len = 2, g_gvn = 3, g_waste = 0, g_has_dbg = False, g_dont_intern = False, g_dont_delete = False\<rparr>"

lemma tiny_views:
  "live tiny_graph n \<longleftrightarrow> n = 16 \<or> n = 32"
  "ins tiny_graph n = (if n = 32 then [16] else [])"
  "outs tiny_graph n = (if n = 16 then [(32, 0)] else [])"
  "kind_of tiny_graph n = (if n = 16 then (27, 4, [5, 0]) else if n = 32 then (31, 4, []) else (0, 0, []))"
  "g_nodes tiny_graph n = None \<longleftrightarrow> n \<noteq> 16 \<and> n \<noteq> 32"
  by (auto simp: live_def ins_def outs_def kind_of_def tiny_graph_def tiny_const_def tiny_user_def DEAD_NODE_KIND_def)

lemma tiny_rows: "rows tiny_graph = [(node_hash tiny_spec tiny_const, 16), (node_hash tiny_spec tiny_user, 32)]"
  by (simp add: rows_def tiny_graph_def)

lemma tiny_interned: "{n. interned tiny_spec tiny_graph n} = {16, 32}"
  by (auto simp: interned_def tiny_views tiny_spec_def)

lemma tiny_edges: "edges_agree {} tiny_graph"
  unfolding edges_agree_def edges_match_def tiny_views by (auto split: if_splits)

lemma tiny_table_ok: "table_ok tiny_spec {} Map.empty tiny_graph"
proof -
  have "g_nodes tiny_graph 16 = Some tiny_const" "g_nodes tiny_graph 32 = Some tiny_user" by (simp_all add: tiny_graph_def)
  note h = this [THEN value_hash_node, of tiny_spec]
  have ent: "entries tiny_graph = {16, 32}" by (auto simp: entries_def tiny_rows tiny_views)
  have "shape_ok tiny_graph" by (auto simp: shape_ok_def tiny_graph_def nth_Cons split: nat.splits)
  moreover have "\<forall>(h, n) \<in> set (rows tiny_graph). g_nodes tiny_graph n \<noteq> None \<and>
      (live tiny_graph n \<longrightarrow> interned tiny_spec tiny_graph n \<and> h = value_hash tiny_spec (registered Map.empty tiny_graph n))"
    using tiny_interned h by (auto simp: tiny_rows tiny_views)
  moreover have "distinct (filter (live tiny_graph) (map snd (rows tiny_graph)))" by (simp add: tiny_rows tiny_views)
  moreover have "inj_on (registered Map.empty tiny_graph) (entries tiny_graph)" by (simp add: ent value_of_def tiny_views)
  ultimately show ?thesis using tiny_interned ent by (simp add: table_ok_def rows_ok_def)
qed

lemma tiny_ok: "graph_ok tiny_spec tiny_graph"
proof -
  have "nodes_ok tiny_spec tiny_graph"
    unfolding nodes_ok_def node_ok_def
    by (auto simp: tiny_graph_def tiny_const_def tiny_user_def tiny_spec_def split: if_splits)
  then show ?thesis using tiny_edges tiny_table_ok by (simp add: graph_ok_def graph_inv_def) (simp add: tiny_graph_def)
qed

text \<open>An End at 8 and a node at 32, both pinned. That one uses a node at 24, and another at 40, which nobody uses, the one at 16 and, as its second input, none.\<close>

definition pair_node :: "u16 \<Rightarrow> u32 list \<Rightarrow> (u32 \<times> nat) list \<Rightarrow> node" where
  "pair_node ty inps outs' = \<lparr>node_rtype = ty, node_meta = 4, node_gvn = 1, node_extra_dwords = 0, node_inps = inps,
     node_input_cap = of_nat (length inps), node_outs = outs', node_output_cap = 4, node_extra = []\<rparr>"

definition pair_graph :: graph where
  "pair_graph = \<lparr>g_nodes = [8 \<mapsto> pair_node type_End [] [(0, 0)], 16 \<mapsto> pair_node 50 [] [(40, 0)], 24 \<mapsto> pair_node 51 [] [(32, 0)],
       32 \<mapsto> pair_node 52 [24] [(0, 0)], 40 \<mapsto> pair_node 53 [16, 0] []],
     g_pos = 256, g_reserved = 1048576, g_hashes = [], g_ids = [], g_len = 0, g_gvn = 4, g_waste = 0, g_has_dbg = False,
     g_dont_intern = False, g_dont_delete = False\<rparr>"

lemma pair_views:
  "live pair_graph n \<longleftrightarrow> n = 8 \<or> n = 16 \<or> n = 24 \<or> n = 32 \<or> n = 40"
  "ins pair_graph n = (if n = 32 then [24] else if n = 40 then [16, 0] else [])"
  "outs pair_graph n = (if n = 8 then [(0, 0)] else if n = 16 then [(40, 0)] else if n = 24 then [(32, 0)] else if n = 32 then [(0, 0)] else [])"
  "kind_of pair_graph n = (if n = 8 then (type_End, 4, []) else if n = 16 then (50, 4, []) else if n = 24 then (51, 4, [])
     else if n = 32 then (52, 4, []) else if n = 40 then (53, 4, []) else (0, 0, []))"
  "g_nodes pair_graph n = None \<longleftrightarrow> n \<noteq> 8 \<and> n \<noteq> 16 \<and> n \<noteq> 24 \<and> n \<noteq> 32 \<and> n \<noteq> 40"
  by (auto simp: live_def ins_def outs_def kind_of_def pair_graph_def pair_node_def DEAD_NODE_KIND_def type_End_def)

lemma pair_edges: "edges_agree {} pair_graph"
  unfolding edges_agree_def edges_match_def pair_views by (auto simp: less_Suc_eq nth_Cons split: if_splits nat.splits)

lemma pair_interned: "\<not> interned tiny_spec pair_graph n"
  by (auto simp: interned_def pair_views tiny_spec_def type_End_def)

lemma pair_ok: "graph_ok tiny_spec pair_graph"
proof -
  have "nodes_ok tiny_spec pair_graph"
    unfolding nodes_ok_def node_ok_def by (auto simp: pair_graph_def pair_node_def tiny_spec_def type_End_def split: if_splits)
  moreover have "table_ok tiny_spec {} Map.empty pair_graph"
  proof -
    have "rows pair_graph = []" by (simp add: rows_def pair_graph_def)
    moreover have "shape_ok pair_graph" by (simp add: shape_ok_def pair_graph_def)
    ultimately show ?thesis using pair_interned by (simp add: table_ok_def rows_ok_def entries_def)
  qed
  ultimately show ?thesis using pair_edges by (simp add: graph_ok_def graph_inv_def) (simp add: pair_graph_def)
qed

lemma pair_end: "ends_pinned pair_graph"
  by (auto simp: ends_pinned_def pair_views type_End_def split: if_splits)

lemma pair_edge_count: "edge_count pair_graph = 4"
proof -
  have "edge_count pair_graph = (\<Sum>n \<in> UNIV. (if n = (8 :: u32) then 1 else 0) + (if n = 16 then 1 else 0) + (if n = 24 then 1 else 0) + (if n = 32 then 1 else 0))"
    unfolding edge_count_def pair_views by (rule sum.cong) simp_all
  then show ?thesis by (simp add: sum.distrib)
qed

lemma pair_room: "g_pos pair_graph + 2 ^ 16 + intern_room pair_graph \<le> g_reserved pair_graph"
  by (simp add: pair_graph_def intern_room_def)

section \<open>Deletion\<close>

text \<open>
  C7: \<^verbatim>\<open>delete_node\<close> on a well-formed graph returns, with as much fuel as the graph has edges and one more, and
  leaves a well-formed graph. The node is gone exactly when nothing used it. What is left has its value,
  and has users if it had some; a node that is gone was pinned by nobody and all its users are gone. As the proc has it from its
  start, the End is pinned; the deletion of an End is what the code asserts never to happen.
\<close>

theorem delete_takes_unused:
  assumes "graph_ok sp g" "live g n" "ends_pinned g" "edge_count g < fuel"
  shows "\<exists>g'. delete_node sp oof fuel n g = (Inr (), g') \<and> graph_ok sp g' \<and> (live g' n \<longleftrightarrow> outs g n \<noteq> []) \<and>
    (\<forall>m. live g' m \<longrightarrow> live g m \<and> value_of g' m = value_of g m \<and> (outs g m \<noteq> [] \<longrightarrow> outs g' m \<noteq> [])) \<and>
    (\<forall>m u i. live g m \<longrightarrow> \<not> live g' m \<longrightarrow> (u, i) \<in> set (outs g m) \<longrightarrow> u \<noteq> 0 \<and> live g u \<and> \<not> live g' u)"
proof -
  have "g_nodes g n \<noteq> None" using graph_ok_domain assms(1,2) by blast
  then obtain g' where g': "delete_node sp oof fuel n g = (Inr (), g')" "graph_ok sp g'" "deleted n g g'"
    using delete_done [OF assms(1) [unfolded graph_ok_def] _ assms(3,4)] unfolding graph_ok_def by blast
  note e = deleted_effect [OF g'(3) assms(1) [unfolded graph_ok_def] g'(2) [unfolded graph_ok_def] assms(2)]
  show ?thesis using g'(1,2) e by blast
qed

theorem delete_takes_unused_witness:
  "\<exists>g'. delete_node tiny_spec (Ub ''fuel'') 5 40 pair_graph = (Inr (), g') \<and> graph_ok tiny_spec g' \<and> \<not> live g' 40 \<and>
     (live g' 32 \<longrightarrow> ins g' 32 = [24])"
  using delete_takes_unused [OF pair_ok, of 40 5 "Ub ''fuel''"] pair_end pair_edge_count
  by (fastforce simp: pair_views value_of_def)

text \<open>
  C25: Deletion stops on every graph, whatever is wrong with it: with more fuel than the graph has edges, neither the amount nor
  what happens without fuel makes a difference.
\<close>

theorem delete_terminates:
  assumes "edge_count g < fuel" "edge_count g < fuel'"
  shows "delete_node sp oof fuel n g = delete_node sp oof' fuel' n g"
  using delete_fuel [of "edge_count g" fuel fuel' sp oof n oof'] assms by (simp add: same_upto_def)

theorem delete_terminates_witness:
  "delete_node tiny_spec (Ub ''fuel'') (Suc (edge_count tiny_graph)) 32 tiny_graph =
   delete_node tiny_spec (Panic ''fuel'') (Suc (Suc (edge_count tiny_graph))) 32 tiny_graph"
  by (rule delete_terminates) simp_all

section \<open>Creation\<close>

text \<open>
  C9: Nodes of interned types have one id per value: however many are asked for in whatever order, two answers are
  the same exactly when the values asked for are, and the graph stays well-formed.
\<close>

theorem one_node_per_value:
  assumes "graph_ok sp g" "g_reserved g \<le> 2 ^ 24"
    and "\<forall>(inps, extra, m) \<in> set reqs. raw_in_range inps m \<and> flag_interned sp (raw_type m)"
    and "mapM (\<lambda>(inps, extra, m). add_raw_2 sp inps extra m) reqs g = (Inr ids, g')" "i < length reqs" "j < length reqs"
  shows "graph_ok sp g' \<and> length ids = length reqs \<and>
    (ids ! i = ids ! j \<longleftrightarrow> (case reqs ! i of (inps, extra, m) \<Rightarrow> raw_value sp inps extra m) = (case reqs ! j of (inps, extra, m) \<Rightarrow> raw_value sp inps extra m))"
proof -
  have "requests (\<lambda>r g n g'. add_request sp r g = (Inr n, g')) reqs g ids g'"
    using requests_mapM [OF assms(4)] unfolding add_request_def .
  moreover have "naming_ok sp g" "\<forall>r \<in> set reqs. request_ok sp r" using assms(1-3) by (auto simp: naming_ok_def request_ok_def)
  note r = gvn.requests_named [OF calculation this] gvn.names_are_keys [OF calculation this assms(5,6)]
  show ?thesis using r by (simp add: naming_ok_def request_value_def)
qed

definition tiny_meta :: "u16 \<Rightarrow> Add_Raw_Meta" where
  "tiny_meta ty = \<lparr>raw_type = ty, raw_dt = 4, raw_lane = 0, raw_extra_capacity = 0, raw_extra_dwords = 0\<rparr>"

lemma tiny_can:
  "raw_can tiny_spec tiny_graph [] (Some [5, 0]) (tiny_meta 27)" "n = 16 \<or> n = 32 \<Longrightarrow> raw_can tiny_spec tiny_graph [n] None (tiny_meta 31)"
  unfolding raw_can_def raw_accepted_def raw_extra_len_def intern_room_def tiny_views tiny_meta_def
  by (simp_all add: tiny_spec_def tiny_graph_def compute_node_size_def NODE_SIZE_def type_Phi_def)

lemma tiny_values:
  "value_of tiny_graph 16 = raw_value tiny_spec [] (Some [5, 0]) (tiny_meta 27)" "value_of tiny_graph 32 = raw_value tiny_spec [16] None (tiny_meta 31)"
  by (simp_all add: value_of_def tiny_views raw_value_def raw_node_def raw_meta_def raw_extra_len_def tiny_meta_def tiny_spec_def)

lemma tiny_found:
  assumes "interned tiny_spec tiny_graph n" "value_of tiny_graph n = raw_value tiny_spec inps extra m" "raw_can tiny_spec tiny_graph inps extra m"
    "raw_in_range inps m"
  shows "add_raw_2 tiny_spec inps extra m tiny_graph = (Inr n, tiny_graph)"
proof -
  have "g_reserved tiny_graph \<le> 2 ^ 24" by (simp add: tiny_graph_def)
  then obtain x where "add_raw_2 tiny_spec inps extra m tiny_graph = (Inr x, tiny_graph)" "interned tiny_spec tiny_graph x"
    "value_of tiny_graph x = raw_value tiny_spec inps extra m"
    using add_raw_returns [OF tiny_ok _ assms(4) refl, of extra] assms(1-3) by blast
  then show ?thesis using interned_unique [OF tiny_ok assms(1), of x] assms(2) by simp
qed

theorem one_node_per_value_witness:
  "\<exists>ids g'. mapM (\<lambda>(inps, extra, m). add_raw_2 tiny_spec inps extra m)
       [([], Some [5, 0], tiny_meta 27), ([16], None, tiny_meta 31), ([], Some [5, 0], tiny_meta 27)] tiny_graph = (Inr ids, g') \<and>
     graph_ok tiny_spec g' \<and> ids ! 0 = ids ! 2"
proof -
  let ?rs = "[([], Some [5, 0], tiny_meta 27), ([16], None, tiny_meta 31), ([], Some [5, 0], tiny_meta 27)]"
  have i: "interned tiny_spec tiny_graph 16" "interned tiny_spec tiny_graph 32" using tiny_interned by auto
  have r: "raw_in_range [] (tiny_meta 27)" "raw_in_range [16] (tiny_meta 31)" by (simp_all add: raw_in_range_def tiny_meta_def)
  have m: "mapM (\<lambda>(inps, extra, m). add_raw_2 tiny_spec inps extra m) ?rs tiny_graph = (Inr [16, 32, 16], tiny_graph)"
    using tiny_found [OF i(1) tiny_values(1) tiny_can(1) r(1)] tiny_found [OF i(2) tiny_values(2) tiny_can(2) r(2)] by (simp add: ret_apply)
  have "g_reserved tiny_graph \<le> 2 ^ 24" by (simp add: tiny_graph_def)
  moreover have "\<forall>(inps, extra, m) \<in> set ?rs. raw_in_range inps m \<and> flag_interned tiny_spec (raw_type m)"
    using r by (simp add: tiny_meta_def tiny_spec_def)
  ultimately show ?thesis using one_node_per_value [OF tiny_ok _ _ m, of 0 2] m by auto
qed

text \<open>
  C24: Creation returns when there is room and the inputs are alive: with the node that has the value already, and nothing
  has changed, or with a new one in a well-formed graph where all others are what they were.
\<close>

theorem creation_returns:
  assumes "graph_ok sp g" "g_reserved g \<le> 2 ^ 24" "raw_in_range inps m" "raw_can sp g inps extra m"
  shows "\<exists>n g'. add_raw_2 sp inps extra m g = (Inr n, g') \<and> graph_ok sp g' \<and> live g' n \<and> value_of g' n = raw_value sp inps extra m \<and>
    (if \<exists>x. interned sp g x \<and> value_of g x = raw_value sp inps extra m then g' = g else g_nodes g n = None \<and> rest_kept n g g')"
  using add_raw_returns [OF assms(1-3) refl, of extra] assms(1,4) by (auto simp: interned_def)

theorem creation_returns_witness:
  "\<exists>n g'. add_raw_2 tiny_spec [32] None (tiny_meta 31) tiny_graph = (Inr n, g') \<and> graph_ok tiny_spec g' \<and> ins g' n = [32]"
proof -
  have "g_reserved tiny_graph \<le> 2 ^ 24" "raw_in_range [32] (tiny_meta 31)" by (simp_all add: tiny_graph_def raw_in_range_def tiny_meta_def)
  then show ?thesis using creation_returns [OF tiny_ok _ _ tiny_can(2)] by (fastforce simp: value_of_def raw_value_def)
qed

section \<open>Replacement\<close>

text \<open>
  C10: \<^verbatim>\<open>set_input\<close> returns, when there is room, with the graph well-formed and the new input in its place, unless the node
  is gone because only the previous input used it. The previous input is gone exactly when nothing else used it, and with it
  what has lost its last user; all others keep their values. That is when the End is pinned, as it is in every proc, and no other
  interned node has the value that the node would get; for then the assertion fails.
\<close>

theorem replacement_returns:
  assumes "graph_ok sp g" "live g u" "i < length (ins g u)" "i < 256"
    and "v = 0 \<or> live g v \<and> length (outs g v) < 2 ^ 13 - 1 \<and> out_fits sp g v u i" "ends_pinned g"
    and "Suc (edge_count g) < fuel" "g_pos g + 2 ^ 16 + intern_room g \<le> g_reserved g"
    and new: "\<forall>m. interned sp g m \<longrightarrow> m \<noteq> u \<longrightarrow> value_of g m \<noteq> (kind_of g u, (ins g u)[i := v])"
  shows "\<exists>g'. set_input sp oof fuel u (int i) v g = (Inr u, g') \<and> graph_ok sp g' \<and>
    (live g' u \<longrightarrow> value_of g' u = (kind_of g u, (ins g u)[i := v])) \<and>
    (\<forall>m. live g' m \<longrightarrow> live g m \<and> (m \<noteq> u \<longrightarrow> value_of g' m = value_of g m)) \<and>
    (ins g u ! i \<noteq> v \<longrightarrow> live g (ins g u ! i) \<longrightarrow> (live g' (ins g u ! i) \<longleftrightarrow> outs g (ins g u ! i) \<noteq> [(u, i)])) \<and>
    (\<forall>m w j. live g m \<longrightarrow> \<not> live g' m \<longrightarrow> (w, j) \<in> set (outs g m) \<longrightarrow> (w, j) = (u, i) \<or> w \<noteq> 0 \<and> live g w \<and> \<not> live g' w)"
proof -
  obtain g' where "set_input sp oof fuel u (int i) v g = (Inr u, g')" "graph_ok sp g'" "input_replaced u i (ins g u ! i) v g g'"
    using set_input_returns [OF assms(1-4) refl assms(5,7,8), of oof] new assms(6) by blast
  then show ?thesis unfolding input_replaced_def by blast
qed

theorem replacement_returns_witness:
  "\<exists>g'. set_input tiny_spec (Ub ''fuel'') 6 32 (int 0) 16 pair_graph = (Inr 32, g') \<and> graph_ok tiny_spec g' \<and> \<not> live g' 24 \<and> live g' 32 \<and> ins g' 32 = [16]"
proof -
  have fits: "out_fits tiny_spec pair_graph 16 32 0" by (simp add: out_fits_def)
  have none: "\<forall>m. interned tiny_spec pair_graph m \<longrightarrow> m \<noteq> 32 \<longrightarrow> value_of pair_graph m \<noteq> (kind_of pair_graph 32, (ins pair_graph 32)[0 := 16])"
    using pair_interned by blast
  obtain g' where g': "set_input tiny_spec (Ub ''fuel'') 6 32 (int 0) 16 pair_graph = (Inr 32, g')" "graph_ok tiny_spec g'"
    "live g' 32 \<longrightarrow> value_of g' 32 = (kind_of pair_graph 32, (ins pair_graph 32)[0 := 16])"
    "live g' 24 \<longleftrightarrow> outs pair_graph 24 \<noteq> [(32, 0)]"
    "\<forall>m w j. live pair_graph m \<longrightarrow> \<not> live g' m \<longrightarrow> (w, j) \<in> set (outs pair_graph m) \<longrightarrow> (w, j) = (32, 0) \<or> w \<noteq> 0 \<and> live pair_graph w \<and> \<not> live g' w"
    using replacement_returns [OF pair_ok, of 32 0 16 6 "Ub ''fuel''"] none fits pair_end pair_room pair_edge_count by (auto simp: pair_views(1,2,3))
  have "live g' 32" using g'(5) [rule_format, of 32 0 0] by (auto simp: pair_views)
  then show ?thesis using g' by (simp add: pair_views value_of_def)
qed

section \<open>Connection, exchange and copies\<close>

text \<open>
  C26: \<^verbatim>\<open>connect\<close> returns the place of the new input: the graph is well-formed, the user has the node as its last input, the node has
  this place of the user as its last output, and nothing else has changed. That is for a user of fewer than 256 inputs and a node of fewer than 8191 outputs,
  when there is room in the arena, when no interned node has the value that the user gets, and when a node of the control flow becomes an input of a phi only as the first one.
\<close>

theorem connect_adds_edge:
  assumes "graph_ok sp g" "live g u" "length (ins g u) < 256" "live g d" "length (outs g d) < 2 ^ 13 - 1"
    and "\<forall>m. interned sp g m \<longrightarrow> value_of g m \<noteq> (kind_of g u, ins g u @ [d])"
    and "inherits_cfg sp (fst (kind_of g d)) \<longrightarrow> fst (kind_of g u) = type_Phi \<longrightarrow> ins g u = []"
    and "g_pos g + 2056 + intern_room g + 2 ^ 16 \<le> g_reserved g"
  shows "\<exists>g'. g_connect sp u d g = (Inr (length (ins g u)), g') \<and> graph_ok sp g' \<and> live g' = live g \<and> kind_of g' = kind_of g \<and>
    ins g' = (ins g)(u := ins g u @ [d]) \<and> outs g' = (outs g)(d := outs g d @ [(u, length (ins g u))])"
  using connect_returns [OF assms] by blast

theorem connect_adds_edge_witness:
  "\<exists>g'. g_connect tiny_spec 32 16 pair_graph = (Inr 1, g') \<and> graph_ok tiny_spec g' \<and> ins g' 32 = [24, 16] \<and> outs g' 16 = [(40, 0), (32, 1)]"
proof -
  have "g_pos pair_graph + 2056 + intern_room pair_graph + 2 ^ 16 \<le> g_reserved pair_graph" by (simp add: pair_graph_def intern_room_def)
  then show ?thesis
    using connect_adds_edge [OF pair_ok, of 32 16] pair_interned by (auto simp: pair_views(1-3) pair_views(4) [of 16] tiny_spec_def)
qed

text \<open>
  C28: \<^verbatim>\<open>swap_inputs\<close> exchanges two inputs of a node and nothing else: the graph is well-formed, so that the two inputs know their new places,
  and all pins are what they were. It stops at its assertion only if another interned node has the value the node would get.
\<close>

theorem swap_exchanges_inputs:
  assumes "graph_ok sp g" "live g u" "i < length (ins g u)" "j < length (ins g u)" "i < 256" "j < 256" "g_pos g + intern_room g \<le> g_reserved g"
  shows "(\<exists>g'. swap_inputs sp u (int i) (int j) g = (Inr (), g') \<and> graph_ok sp g' \<and> live g' = live g \<and> kind_of g' = kind_of g \<and>
       ins g' = (ins g)(u := (ins g u)[j := ins g u ! i, i := ins g u ! j]) \<and> (\<forall>m. pins g' m = pins g m)) \<or>
    (\<exists>g' m. swap_inputs sp u (int i) (int j) g = (Inl (Panic ''nid == id''), g') \<and> m \<noteq> u \<and> interned sp g m \<and>
       value_of g m = (kind_of g u, (ins g u)[j := ins g u ! i, i := ins g u ! j]))"
  using swap_inputs_returns [OF assms] unfolding exchange_def pins_def by blast

theorem swap_exchanges_inputs_witness:
  "\<exists>g'. swap_inputs tiny_spec 40 (int 0) (int 1) pair_graph = (Inr (), g') \<and> graph_ok tiny_spec g' \<and> ins g' 40 = [0, 16] \<and> pins g' 32 = 1"
proof -
  have "g_pos pair_graph + intern_room pair_graph \<le> g_reserved pair_graph" by (simp add: pair_graph_def intern_room_def)
  moreover have "pins pair_graph 32 = 1" by (simp add: pins_def pair_views)
  ultimately show ?thesis using swap_exchanges_inputs [OF pair_ok, of 40 0 1] pair_interned by (auto simp: pair_views(1,2))
qed

text \<open>
  C29: \<^verbatim>\<open>clone\<close> of a node that is neither interned nor a call returns a new node of the same kind with the same inputs, in a well-formed graph where all others
  are what they were but for the outputs to the new one; there must be room for it.
\<close>

theorem clone_copies_node:
  assumes "graph_ok sp g" "g_reserved g \<le> 2 ^ 24" "live g u" "clone_can sp g u"
  shows "\<exists>n g'. clone sp u g = (Inr n, g') \<and> g_nodes g n = None \<and> graph_ok sp g' \<and> live g' n \<and> value_of g' n = value_of g u \<and> rest_kept n g g'"
  using clone_returns [OF assms refl] by blast

theorem clone_copies_node_witness:
  "\<exists>n g'. clone tiny_spec 40 pair_graph = (Inr n, g') \<and> graph_ok tiny_spec g' \<and> n \<noteq> 40 \<and> ins g' n = [16, 0]"
proof -
  have "clone_can tiny_spec pair_graph 40"
    unfolding clone_can_def by (auto simp: pair_views type_Call_def type_Phi_def tiny_spec_def less_Suc_eq nth_Cons split: nat.splits)
      (simp_all add: pair_graph_def pair_node_def compute_node_size_def NODE_SIZE_def)
  moreover have "g_reserved pair_graph \<le> 2 ^ 24" by (simp add: pair_graph_def)
  ultimately obtain n g' where "clone tiny_spec 40 pair_graph = (Inr n, g')" "g_nodes pair_graph n = None" "graph_ok tiny_spec g'" "value_of g' n = value_of pair_graph 40"
    using clone_copies_node [OF pair_ok, of 40] by (fastforce simp: pair_views(1))
  moreover have "n \<noteq> 40" using calculation(2) pair_views(5) by blast
  ultimately show ?thesis by (auto simp: value_of_def pair_views)
qed

section \<open>Everything that can be built\<close>

text \<open>
  C6: Every graph that a client reaches from an empty one, by creating nodes, copying and connecting them, pinning and unpinning,
  deleting, merging, exchanging and replacing inputs in any order, is well-formed, and its pins are pins. So inputs are alive and
  know their users, users are alive and have them as inputs, and no two interned nodes have the same value. The arena has at most 16 MiB, as ids
  need; of the rest of what the steps ask, a node takes at most 256 inputs, one that gets an output by a connection, a pin, a copy or a
  replacement has fewer than 8191 outputs, and there is room in the arena. A connection does not make a node equal to an
  interned one, and the removal of a node does not make a user of it equal to an interned one.
\<close>

theorem built_graphs_ok:
  assumes "(graph_step sp)\<^sup>*\<^sup>* (blank_graph reserved dbg) g" "type_count sp < 2 ^ 16" "reserved \<le> 2 ^ 24"
  shows "graph_ok sp g \<and> pins_ok g \<and>
    (\<forall>n i. live g n \<longrightarrow> i < length (ins g n) \<longrightarrow> ins g n ! i \<noteq> 0 \<longrightarrow> live g (ins g n ! i) \<and> (n, i) \<in> set (outs g (ins g n ! i))) \<and>
    (\<forall>n u i. (u, i) \<in> set (outs g n) \<longrightarrow> u \<noteq> 0 \<longrightarrow> live g u \<and> i < length (ins g u) \<and> ins g u ! i = n) \<and>
    (\<forall>m n. interned sp g m \<longrightarrow> interned sp g n \<longrightarrow> value_of g m = value_of g n \<longrightarrow> m = n)"
proof -
  have "g_reserved (blank_graph reserved dbg) \<le> 2 ^ 24" using assms(3) by (simp add: blank_graph_def)
  then have ok: "graph_ok sp g" "pins_ok g" using steps_ok [OF assms(1) blank_ok [OF assms(2)] blank_pins] by blast+
  note ag = edges_agreeD [OF graph_okD(1) [OF ok(1)]]
  have "live g (ins g n ! i) \<and> (n, i) \<in> set (outs g (ins g n ! i))" if "live g n" "i < length (ins g n)" "ins g n ! i \<noteq> 0" for n i
  proof -
    have o: "(n, i) \<in> set (outs g (ins g n ! i))" using ag(3) [OF that] by simp
    then have "outs g (ins g n ! i) \<noteq> []" by auto
    then show ?thesis using ag(2) o by blast
  qed
  then show ?thesis using ok ag(4) interned_unique [OF ok(1)] by blast
qed

lemma end_created:
  "\<exists>g. add_raw_2 tiny_spec [] None (tiny_meta type_End) (blank_graph 1048576 False) = (Inr 1, g) \<and> live g 1 \<and> fst (kind_of g 1) = type_End \<and> outs g 1 = [] \<and>
     g_pos g + 2 ^ 16 \<le> g_reserved g"
proof -
  let ?g = "blank_graph 1048576 False" and ?m = "tiny_meta type_End"
  have "add_raw_2 tiny_spec [] None ?m ?g = settle_node tiny_spec [] (of_nat (g_pos ?g div 4)) (placed tiny_spec [] None ?m ?g)"
    by (rule add_raw_place(1) [OF _ refl])
      (simp_all add: blank_graph_def raw_accepted_def raw_extra_len_def tiny_meta_def tiny_spec_def type_End_def placed_def node_placed_def compute_node_size_def NODE_SIZE_def)
  also have "\<dots> = (Inr 1, (placed tiny_spec [] None ?m ?g)\<lparr>g_nodes := [1 \<mapsto> raw_node tiny_spec [] None ?m\<lparr>node_gvn := 1\<rparr>], g_gvn := 2\<rparr>)"
    by (simp add: settle_node_def intern_def has_flag_def g_get_node_def init_counts_def g_put_node_def placed_def node_placed_def blank_graph_def tiny_meta_def
        tiny_spec_def type_End_def raw_node_def ret_apply bindM_apply getM_def modifyM_def)
  finally show ?thesis
    by (simp add: live_def kind_of_def outs_def raw_node_def tiny_meta_def placed_def node_placed_def blank_graph_def type_End_def DEAD_NODE_KIND_def
        compute_node_size_def NODE_SIZE_def tiny_spec_def)
qed

theorem built_graphs_ok_witness:
  "\<exists>g. (graph_step tiny_spec)\<^sup>*\<^sup>* (blank_graph 1048576 False) g \<and> graph_ok tiny_spec g \<and> live g 1 \<and> fst (kind_of g 1) = type_End \<and> outs g 1 = [(0, 0)]"
proof -
  let ?g = "blank_graph 1048576 False"
  have t: "type_count tiny_spec < 2 ^ 16" "(1048576 :: nat) \<le> 2 ^ 24" by (simp_all add: tiny_spec_def)
  have r: "raw_in_range [] (tiny_meta type_End)" by (simp add: raw_in_range_def tiny_meta_def)
  obtain g where g: "add_raw_2 tiny_spec [] None (tiny_meta type_End) ?g = (Inr 1, g)" "live g 1" "fst (kind_of g 1) = type_End" "outs g 1 = []"
    "g_pos g + 2 ^ 16 \<le> g_reserved g" using end_created by blast
  have s1: "(graph_step tiny_spec)\<^sup>*\<^sup>* ?g g" using graph_step.create [OF r g(1)] by blast
  have few: "length (outs g 1) < 2 ^ 13 - 1" using g(4) by simp
  obtain h where h: "g_pin tiny_spec 1 g = (Inr (), h)" "live h = live g" "value_of h = value_of g" "outs h = (outs g)(1 := outs g 1 @ [(0, 0)])"
    using pin_returns [OF conjunct1 [OF built_graphs_ok [OF s1 t]] g(2) few g(5)] by blast
  have s2: "(graph_step tiny_spec)\<^sup>*\<^sup>* ?g h" using s1 graph_step.pin [OF g(2) few g(5) h(1)] by (rule rtranclp.rtrancl_into_rtrancl)
  have "kind_of h 1 = kind_of g 1" using fun_cong [OF h(3), of 1] by (simp add: value_of_def)
  then show ?thesis using built_graphs_ok [OF s2 t] s2 g(2-4) h(2,4) by auto
qed

section \<open>The limit of outputs\<close>

text \<open>
  C39: When the output array of a node is full and has 8191 places or more, the size of the next one is computed in 16
  bits, an array that is no longer than the full one is taken, and the output is written past it, however much room the arena has.
\<close>

theorem outputs_are_limited:
  assumes "nodes_ok sp g" "live g d" "d \<noteq> 0" "g_nodes g d = Some x" "u = 0 \<or> g_nodes g u \<noteq> None" "out_fits sp g d u i"
    and "length (node_outs x) = unat (node_output_cap x)" "2 ^ 13 - 1 \<le> unat (node_output_cap x)" "g_pos g + 2 ^ 16 \<le> g_reserved g"
  shows "fst (add_output sp d u i g) = Inl (Ub ''write past the outputs'')"
proof -
  let ?c = "node_output_cap x"
  have ok: "node_ok sp x" "4 dvd g_pos g" using assms(1,4) by (auto simp: nodes_ok_def)
  then have c: "unat ?c < 2 ^ 14" by (simp add: node_ok_def)
  have "ids_size (?c * 2 + 2) < 2 ^ 16" unfolding ids_size_def using unsigned_less [of "(?c * 2 + 2) * 4"] by simp
  then have e: "ensure_available_output_cap d 1 g = (Inr (), g\<lparr>g_waste := g_waste g + int (ids_size ?c), g_pos := g_pos g + ids_size (?c * 2 + 2),
       g_nodes := (g_nodes g)(d \<mapsto> x\<lparr>node_output_cap := ?c * 2 + 2\<rparr>)\<rparr>)"
    using ensure_cap [OF assms(4,3) ok] assms(7,9) by simp
  have small: "ids_size (?c * 2 + 2) \<le> 4 * length (node_outs x)" using grown_cap(1) [OF c] assms(7,8) by (metis not_le)
  have "add_output sp d u i g = (Inl (Ub ''write past the outputs''), g\<lparr>g_waste := g_waste g + int (ids_size ?c), g_pos := g_pos g + ids_size (?c * 2 + 2),
       g_nodes := (g_nodes g)(d \<mapsto> x\<lparr>node_output_cap := ?c * 2 + 2\<rparr>)\<rparr>)"
    by (rule add_output_write(3) [OF assms(4,3,2,1,5) e _ assms(6) small]) simp
  then show ?thesis by simp
qed

definition full_node :: node where
  "full_node = tiny_const\<lparr>node_outs := replicate 16382 (0, 0), node_output_cap := 16382\<rparr>"

theorem outputs_are_limited_witness:
  "fst (add_output tiny_spec 16 0 0 (tiny_graph\<lparr>g_nodes := [16 \<mapsto> full_node]\<rparr>)) = Inl (Ub ''write past the outputs'')"
proof -
  let ?g = "tiny_graph\<lparr>g_nodes := [16 \<mapsto> full_node]\<rparr>"
  have n: "node_output_cap full_node = 16382" "length (node_outs full_node) = 16382" "node_rtype full_node = 27" "node_inps full_node = []"
    by (simp_all add: full_node_def tiny_const_def)
  have "nodes_ok tiny_spec ?g" unfolding nodes_ok_def node_ok_def by (auto simp: n tiny_spec_def) (simp_all add: tiny_graph_def)
  moreover have "live ?g 16" "out_fits tiny_spec ?g 16 0 0" "g_pos ?g + 2 ^ 16 \<le> g_reserved ?g"
    by (simp_all add: live_def n DEAD_NODE_KIND_def out_fits_def) (simp add: tiny_graph_def)
  ultimately show ?thesis using outputs_are_limited [of tiny_spec ?g 16 full_node 0 0] n by simp
qed

end
