(* ===== verification/Worklist_Laws.thy ===== *)
theory Worklist_Laws
  imports Worklist Graph_Laws
begin

text \<open>
  The laws of the worklist: what is queued comes back, and the collection finds the nodes that are connected to the ends of
  the graph, each once.
\<close>

section \<open>Numbers\<close>

definition gvn_of :: "graph \<Rightarrow> u32 \<Rightarrow> nat" where
  "gvn_of g n = (if n = 0 then 0 else case g_nodes g n of None \<Rightarrow> 0 | Some x \<Rightarrow> unat (node_gvn x))"

text \<open>What a worklist may hold: the nil node and nodes of the graph.\<close>

definition known :: "graph \<Rightarrow> u32 \<Rightarrow> bool" where
  "known g n \<longleftrightarrow> n = 0 \<or> g_nodes g n \<noteq> None"

definition queued :: "graph \<Rightarrow> u32 \<Rightarrow> bool" where
  "queued g n \<longleftrightarrow> n = 0 \<or> live g n"

lemma wl_node_returns:
  assumes "known g n"
  shows "\<exists>x. wl_node g n w = (Inr x, w) \<and> (node_rtype x = DEAD_NODE_KIND \<longleftrightarrow> \<not> queued g n) \<and> unat (node_gvn x) = gvn_of g n \<and>
    (n \<noteq> 0 \<longrightarrow> g_nodes g n = Some x)"
  using assms
  by (auto simp: known_def wl_node_def g_get_node_def liftM_apply queued_def live_def gvn_of_def NIL_NODE_def DEAD_NODE_KIND_def
      split: option.splits)

lemma get_known: "known g n \<Longrightarrow> \<exists>x. g_get_node n g = (Inr x, g) \<and> unat (node_gvn x) = gvn_of g n"
  by (auto simp: known_def g_get_node_def gvn_of_def NIL_NODE_def split: option.splits)

lemma on_bits_returns: "p (in_queue w) = (r, b) \<Longrightarrow> on_bits p w = (r, w\<lparr>in_queue := b\<rparr>)"
  by (simp add: on_bits_def)

section \<open>Additions\<close>

lemma double_gvn: "unat (k :: u32) < 2 ^ 26 \<Longrightarrow> unat ((k + 1) * 2) = (unat k + 1) * 2"
  by (subst unat_mult_lem [THEN iffD1] | subst unat_add_lem [THEN iffD1] | simp)+

lemma add_returns:
  assumes n: "known g n" "queued g n \<Longrightarrow> gvn_of g n < 2 ^ 26" and w: "bits_ok (in_queue w)"
  shows "\<exists>w'. worklist_add g n w = (Inr (), w') \<and> bits_ok (in_queue w') \<and> bit_length (in_queue w) \<le> bit_length (in_queue w') \<and>
    (if queued g n
     then gvn_of g n < bit_length (in_queue w') \<and> bits (in_queue w') = insert (gvn_of g n) (bits (in_queue w)) \<and>
       wl_queue w' = wl_queue w @ (if gvn_of g n \<in> bits (in_queue w) then [] else [n])
     else w' = w)"
proof -
  obtain x where x: "wl_node g n w = (Inr x, w)" "node_rtype x = DEAD_NODE_KIND \<longleftrightarrow> \<not> queued g n" "unat (node_gvn x) = gvn_of g n"
    using wl_node_returns [OF n(1)] by blast
  show ?thesis
  proof (cases "queued g n")
    case False
    then show ?thesis using x w by (auto simp: worklist_add_def ret_apply)
  next
    case True
    let ?k = "gvn_of g n"
    have k: "unat ((node_gvn x + 1) * 2) = (?k + 1) * 2" using double_gvn [of "node_gvn x"] n(2) [OF True] x(3) by simp
    obtain b where b: "(if bit_length (in_queue w) \<le> ?k then on_bits (bit_resize ((?k + 1) * 2)) else ret ()) w = (Inr (), w\<lparr>in_queue := b\<rparr>)"
      "bits b = bits (in_queue w)" "bits_ok b" "?k < bit_length b" "bit_length (in_queue w) \<le> bit_length b"
    proof (cases "bit_length (in_queue w) \<le> ?k")
      case long: True
      then obtain b where "bit_resize ((?k + 1) * 2) (in_queue w) = (Inr (), b)" "bits b = bits (in_queue w)" "bit_length b = (?k + 1) * 2" "bits_ok b"
        using bit_resize_returns [OF w, of "(?k + 1) * 2"] by auto
      then show ?thesis using that [of b] long by (simp add: on_bits_returns)
    next
      case False
      then show ?thesis using that [of "in_queue w"] w by (simp add: ret_apply)
    qed
    obtain b' where b': "bit_set ?k True b = (Inr ((?k \<in> bits b) \<noteq> True), b')" "bits b' = insert ?k (bits b)"
      "bit_length b' = bit_length b" "bits_ok b'"
      using bit_set_returns [OF b(3,4), of True] by auto
    have set_bit: "on_bits (bit_set ?k True) (w\<lparr>in_queue := b\<rparr>) = (Inr ((?k \<in> bits b) \<noteq> True), w\<lparr>in_queue := b'\<rparr>)"
      using on_bits_returns [of "bit_set ?k True" "w\<lparr>in_queue := b\<rparr>"] b'(1) by simp
    let ?w = "w\<lparr>in_queue := b', wl_queue := wl_queue w @ (if ?k \<in> bits (in_queue w) then [] else [n])\<rparr>"
    have "worklist_add g n w = bindM (if bit_length (in_queue w) \<le> ?k then on_bits (bit_resize ((?k + 1) * 2)) else ret ()) (\<lambda>_.
        bindM (on_bits (bit_set ?k True)) (\<lambda>changed. if \<not> changed then ret () else modifyM (\<lambda>w. w\<lparr>wl_queue := wl_queue w @ [n]\<rparr>))) w"
      using True x by (simp add: worklist_add_def k del: distrib_right_numeral)
    then have "worklist_add g n w = (Inr (), ?w)" unfolding bindM_Inr [where m = "if _ then _ else _", OF b(1)]
      using b(2) set_bit by (simp add: ret_apply)
    then show ?thesis using True b b' by (intro exI [of _ ?w]) simp
  qed
qed

section \<open>What is queued comes back\<close>

text \<open>Work on a graph that changes meanwhile: each operation sees the graph of its time.\<close>

datatype wl_op = Add graph u32 | Next graph

primrec seen_graph :: "wl_op \<Rightarrow> graph" where
  "seen_graph (Add g n) = g"
| "seen_graph (Next g) = g"

primrec wl_step :: "wl_op \<Rightarrow> (Worklist, u32 option) prog" where
  "wl_step (Add g n) = bindM (worklist_add g n) (\<lambda>_. ret None)"
| "wl_step (Next g) = worklist_next g"

text \<open>Nodes keep their numbers and do not vanish, and only nodes are added.\<close>

definition steady :: "(u32 \<Rightarrow> nat) \<Rightarrow> u32 set \<Rightarrow> wl_op \<Rightarrow> bool" where
  "steady gv D op \<longleftrightarrow> (\<forall>n \<in> D. known (seen_graph op) n \<and> (queued (seen_graph op) n \<longrightarrow> gvn_of (seen_graph op) n = gv n)) \<and>
     (\<forall>n \<in> D. gv n < 2 ^ 26) \<and> (\<forall>g n. op = Add g n \<longrightarrow> n \<in> D)"

definition wl_bounded :: "(u32 \<Rightarrow> nat) \<Rightarrow> u32 set \<Rightarrow> Worklist \<Rightarrow> bool" where
  "wl_bounded gv D w \<longleftrightarrow> bits_ok (in_queue w) \<and> set (wl_queue w) \<subseteq> D \<and> (\<forall>n \<in> set (wl_queue w). gv n < bit_length (in_queue w))"

lemma pop_returns:
  assumes "wl_bounded gv D w" "steady gv D (Next g)" "wl_queue w = q"
  shows "\<exists>r w'. worklist_pop g q w = (Inr r, w') \<and> wl_bounded gv D w' \<and>
    (case r of None \<Rightarrow> \<forall>n \<in> set q. \<not> queued g n
     | Some n \<Rightarrow> \<exists>dead. q = dead @ n # wl_queue w' \<and> queued g n \<and> (\<forall>m \<in> set dead. \<not> queued g m))"
  using assms
proof (induction q arbitrary: w)
  case Nil
  then show ?case by (simp add: ret_apply)
next
  case (Cons n q)
  let ?w = "w\<lparr>wl_queue := q\<rparr>"
  have n: "known g n" "queued g n \<Longrightarrow> gvn_of g n = gv n" "n \<in> D" "gv n < bit_length (in_queue w)"
    using Cons.prems by (auto simp: wl_bounded_def steady_def)
  have w: "wl_bounded gv D ?w" using Cons.prems(1,3) by (auto simp: wl_bounded_def)
  obtain x where x: "wl_node g n ?w = (Inr x, ?w)" "node_rtype x = DEAD_NODE_KIND \<longleftrightarrow> \<not> queued g n" "unat (node_gvn x) = gvn_of g n"
    using wl_node_returns [OF n(1)] by blast
  show ?case
  proof (cases "queued g n")
    case False
    have run: "worklist_pop g (n # q) w = worklist_pop g q ?w" using False x by simp
    obtain r w' where r: "worklist_pop g q ?w = (Inr r, w')" "wl_bounded gv D w'"
      "case r of None \<Rightarrow> \<forall>n \<in> set q. \<not> queued g n
       | Some m \<Rightarrow> \<exists>dead. q = dead @ m # wl_queue w' \<and> queued g m \<and> (\<forall>m \<in> set dead. \<not> queued g m)"
      using Cons.IH [OF w Cons.prems(2)] by auto
    have "\<exists>dead. n # q = dead @ m # wl_queue w' \<and> queued g m \<and> (\<forall>m \<in> set dead. \<not> queued g m)" if "r = Some m" for m
      using r(3) that False by (auto intro: exI [of _ "n # _"])
    then show ?thesis unfolding run using r False by (cases r) auto
  next
    case True
    have ok: "bits_ok (in_queue ?w)" "gv n < bit_length (in_queue ?w)" using w n(4) by (auto simp: wl_bounded_def)
    obtain b where b: "bit_set (gv n) False (in_queue ?w) = (Inr ((gv n \<in> bits (in_queue ?w)) \<noteq> False), b)"
      "bit_length b = bit_length (in_queue ?w)" "bits_ok b"
      using bit_set_returns [OF ok, of False] by auto
    have "on_bits (bit_set (gv n) False) ?w = (Inr ((gv n \<in> bits (in_queue ?w)) \<noteq> False), ?w\<lparr>in_queue := b\<rparr>)"
      by (rule on_bits_returns [where p = "bit_set (gv n) False"]) (rule b(1))
    then have "worklist_pop g (n # q) w = (Inr (Some n), ?w\<lparr>in_queue := b\<rparr>)" using True x n(2) by (simp add: ret_apply)
    moreover have "wl_bounded gv D (?w\<lparr>in_queue := b\<rparr>)" using w b by (auto simp: wl_bounded_def)
    ultimately show ?thesis using True by auto
  qed
qed

lemma step_returns:
  assumes w: "wl_bounded gv D w" "steady gv D op"
  shows "\<exists>r w'. wl_step op w = (Inr r, w') \<and> wl_bounded gv D w' \<and>
    (case op of Add g n \<Rightarrow> r = None \<and> (\<exists>q. wl_queue w' = wl_queue w @ q)
     | Next g \<Rightarrow> (case r of None \<Rightarrow> \<forall>n \<in> set (wl_queue w). \<not> queued g n
         | Some n \<Rightarrow> \<exists>dead. wl_queue w = dead @ n # wl_queue w' \<and> queued g n \<and> (\<forall>m \<in> set dead. \<not> queued g m)))"
proof (cases op)
  case (Add g n)
  have n: "known g n" "queued g n \<Longrightarrow> gvn_of g n = gv n" "n \<in> D" "gv n < 2 ^ 26" using w(2) by (auto simp: Add steady_def)
  obtain w' where w': "worklist_add g n w = (Inr (), w')" "bits_ok (in_queue w')" "bit_length (in_queue w) \<le> bit_length (in_queue w')"
    "if queued g n
     then gvn_of g n < bit_length (in_queue w') \<and> bits (in_queue w') = insert (gvn_of g n) (bits (in_queue w)) \<and>
       wl_queue w' = wl_queue w @ (if gvn_of g n \<in> bits (in_queue w) then [] else [n])
     else w' = w"
    using add_returns [OF n(1), of w] n(2,4) w(1) by (auto simp: wl_bounded_def)
  have "wl_bounded gv D w'"
  proof (cases "queued g n")
    case True
    then show ?thesis using w(1) w' n(2,3) by (auto simp: wl_bounded_def intro: less_le_trans split: if_splits)
  qed (use w(1) w'(4) in simp)
  moreover have "\<exists>q. wl_queue w' = wl_queue w @ q" using w'(4) by (auto split: if_splits)
  ultimately show ?thesis using w'(1) by (simp add: Add ret_apply)
next
  case (Next g)
  then show ?thesis using pop_returns [OF w(1) w(2) [unfolded Next] refl] by (simp add: worklist_next_def)
qed

lemma steps_return:
  assumes "wl_bounded gv D w" "\<forall>op \<in> set ops. steady gv D op"
  shows "\<exists>rs w'. mapM wl_step ops w = (Inr rs, w') \<and> wl_bounded gv D w'"
  using assms
proof (induction ops arbitrary: w)
  case (Cons op ops)
  obtain r w1 where "wl_step op w = (Inr r, w1)" "wl_bounded gv D w1" using step_returns [of gv D w op] Cons.prems by auto
  moreover obtain rs w' where "mapM wl_step ops w1 = (Inr rs, w')" "wl_bounded gv D w'" using Cons.IH [OF calculation(2)] Cons.prems(2) by auto
  ultimately show ?case by (simp add: ret_apply)
qed (simp add: ret_apply)

lemma before_or_at:
  assumes "dead @ m # rest = q" "p < length q" "q ! p \<notin> set dead"
  shows "m = q ! p \<or> (\<exists>k < p. k < length rest \<and> rest ! k = q ! p)"
proof -
  have le: "length dead \<le> p"
  proof (rule ccontr)
    assume "\<not> length dead \<le> p"
    then have "q ! p = dead ! p" "p < length dead" using assms(1) by (auto simp: nth_append)
    then show False using assms(3) nth_mem by metis
  qed
  then obtain d where d: "p = length dead + d" using le_Suc_ex by blast
  then have "q ! p = (m # rest) ! d" "d < length (m # rest)" using assms(1,2) by (auto simp: nth_append)
  then show ?thesis
  proof (cases d)
    case (Suc k)
    have "k < p" "k < length rest" "rest ! k = q ! p" using Suc d \<open>q ! p = (m # rest) ! d\<close> \<open>d < length (m # rest)\<close> by auto
    then show ?thesis by blast
  qed simp
qed

lemma comes_back:
  assumes "wl_bounded gv D w" "\<forall>op \<in> set ops. steady gv D op \<and> queued (seen_graph op) n"
    and "p < length (wl_queue w)" "wl_queue w ! p = n" "p < length (filter (\<lambda>op. \<exists>g. op = Next g) ops)"
  shows "\<exists>rs w'. mapM wl_step ops w = (Inr rs, w') \<and> Some n \<in> set rs"
  using assms
proof (induction ops arbitrary: w p)
  case (Cons op ops)
  obtain r w1 where r: "wl_step op w = (Inr r, w1)" "wl_bounded gv D w1"
    "case op of Add g n \<Rightarrow> r = None \<and> (\<exists>q. wl_queue w1 = wl_queue w @ q)
     | Next g \<Rightarrow> (case r of None \<Rightarrow> \<forall>n \<in> set (wl_queue w). \<not> queued g n
         | Some n \<Rightarrow> \<exists>dead. wl_queue w = dead @ n # wl_queue w1 \<and> queued g n \<and> (\<forall>m \<in> set dead. \<not> queued g m))"
    using step_returns [of gv D w op] Cons.prems(1,2) by auto
  have ops: "\<forall>op \<in> set ops. steady gv D op \<and> queued (seen_graph op) n" using Cons.prems(2) by simp
  have rest: ?case if "mapM wl_step ops w1 = (Inr rs, w')" "r = Some n \<or> Some n \<in> set rs" for rs w'
    using that r(1) by (auto simp: ret_apply)
  have found: ?case if "r = Some n" using steps_return [OF r(2), of ops] ops rest that by blast
  have go_on: ?case if "k < length (wl_queue w1)" "wl_queue w1 ! k = n" "k < length (filter (\<lambda>op. \<exists>g. op = Next g) ops)" for k
    using Cons.IH [OF r(2) ops that] rest by blast
  show ?case
  proof (cases op)
    case (Add g m)
    then obtain q where "wl_queue w1 = wl_queue w @ q" using r(3) by auto
    then show ?thesis using Cons.prems(3-5) Add by (intro go_on [of p]) (auto simp: nth_append)
  next
    case (Next g)
    have n: "queued g n" "n \<in> set (wl_queue w)" using Cons.prems(2-4) Next by auto
    then obtain m dead where m: "r = Some m" "dead @ m # wl_queue w1 = wl_queue w" "\<forall>m \<in> set dead. \<not> queued g m"
      using r(3) Next by (cases r) auto
    then consider "m = n" | k where "k < p" "k < length (wl_queue w1)" "wl_queue w1 ! k = n"
      using before_or_at [OF m(2) Cons.prems(3)] Cons.prems(4) n(1) by blast
    then show ?thesis
    proof cases
      case 1
      then show ?thesis using m(1) found by simp
    next
      case 2
      then show ?thesis using Cons.prems(5) Next by (intro go_on [of k]) simp_all
    qed
  qed
qed simp

section \<open>Collection\<close>

text \<open>The numbers of live nodes are distinct and positive, as \<^verbatim>\<open>init_counts\<close> makes them.\<close>

definition gvns_ok :: "graph \<Rightarrow> bool" where
  "gvns_ok g \<longleftrightarrow> (\<forall>n. live g n \<longrightarrow> 0 < gvn_of g n \<and> gvn_of g n < 2 ^ 26) \<and> inj_on (gvn_of g) {n. live g n}"

definition wl_ok :: "graph \<Rightarrow> Worklist \<Rightarrow> bool" where
  "wl_ok g w \<longleftrightarrow> bits_ok (in_queue w) \<and> bits (in_queue w) = gvn_of g ` set (wl_queue w) \<and> distinct (wl_queue w) \<and>
     (\<forall>n \<in> set (wl_queue w). queued g n)"

lemma gvns_queued:
  assumes "gvns_ok g" "queued g m" "queued g n" "g_nodes g 0 = None"
  shows "gvn_of g m = gvn_of g n \<longleftrightarrow> m = n" "gvn_of g n < 2 ^ 26"
proof -
  have "gvn_of g 0 = 0" "\<not> live g 0" using assms(4) by (simp_all add: gvn_of_def live_def)
  then show "gvn_of g m = gvn_of g n \<longleftrightarrow> m = n" "gvn_of g n < 2 ^ 26"
    using assms(1-3) by (auto simp: gvns_ok_def queued_def inj_on_def)
qed

lemma queued_known: "queued g n \<Longrightarrow> known g n"
  using live_node [of g n] by (auto simp: queued_def known_def)

text \<open>An addition under these conditions: the node is at the end of the queue, if it was not there.\<close>

lemma add_new:
  assumes g: "gvns_ok g" "g_nodes g 0 = None" and n: "queued g n" and w: "wl_ok g w"
  shows "\<exists>w'. worklist_add g n w = (Inr (), w') \<and> wl_ok g w' \<and> wl_queue w' = wl_queue w @ (if n \<in> set (wl_queue w) then [] else [n])"
proof -
  note small = gvns_queued(2) [OF g(1) n n g(2)]
  have inq: "gvn_of g n \<in> bits (in_queue w) \<longleftrightarrow> n \<in> set (wl_queue w)"
  proof -
    have b: "bits (in_queue w) = gvn_of g ` set (wl_queue w)" and q: "\<forall>m \<in> set (wl_queue w). queued g m" using w by (auto simp: wl_ok_def)
    show ?thesis unfolding b image_iff using q gvns_queued(1) [OF g(1) _ n g(2)] by metis
  qed
  obtain w' where w': "worklist_add g n w = (Inr (), w')" "bits_ok (in_queue w')" "bits (in_queue w') = insert (gvn_of g n) (bits (in_queue w))"
    "wl_queue w' = wl_queue w @ (if n \<in> set (wl_queue w) then [] else [n])"
    using add_returns [OF queued_known [OF n], of w] small w n inq by (auto simp: wl_ok_def)
  moreover have "wl_ok g w'" using w w' n by (auto simp: wl_ok_def)
  ultimately show ?thesis by blast
qed

lemma add_all:
  assumes g: "gvns_ok g" "g_nodes g 0 = None" and "\<forall>n \<in> set ns. queued g n" "wl_ok g w"
  shows "\<exists>w' q. forM ns (worklist_add g) w = (Inr (), w') \<and> wl_ok g w' \<and> wl_queue w' = wl_queue w @ q \<and> set q \<subseteq> set ns \<and>
    set ns \<subseteq> set (wl_queue w')"
  using assms(3,4)
proof (induction ns arbitrary: w)
  case (Cons n ns)
  obtain w1 where w1: "worklist_add g n w = (Inr (), w1)" "wl_ok g w1" "wl_queue w1 = wl_queue w @ (if n \<in> set (wl_queue w) then [] else [n])"
    using add_new [OF g _ Cons.prems(2), of n] Cons.prems(1) by auto
  obtain w' q where w': "forM ns (worklist_add g) w1 = (Inr (), w')" "wl_ok g w'" "wl_queue w' = wl_queue w1 @ q" "set q \<subseteq> set ns"
    "set ns \<subseteq> set (wl_queue w')"
    using Cons.IH [OF _ w1(2)] Cons.prems(1) by auto
  have "wl_queue w' = wl_queue w @ ((if n \<in> set (wl_queue w) then [] else [n]) @ q)" using w1(3) w'(3) by simp
  moreover have "n \<in> set (wl_queue w')" using w1(3) w'(3) by auto
  ultimately show ?case using w1(1) w'(1,2,4,5) by auto
qed (simp add: ret_apply)

text \<open>The nodes next to a node: its inputs and its users.\<close>

definition next_to :: "graph \<Rightarrow> u32 \<Rightarrow> u32 \<Rightarrow> bool" where
  "next_to g n m \<longleftrightarrow> live g n \<and> m \<noteq> 0 \<and> (m \<in> set (ins g n) \<or> m \<in> fst ` set (outs g n))"

lemma next_to_live:
  assumes "edges_agree {} g" "next_to g n m"
  shows "live g m"
proof -
  note ag = edges_agreeD [OF assms(1)]
  have "m \<noteq> 0" "live g n" using assms(2) by (auto simp: next_to_def)
  show ?thesis
  proof (cases "m \<in> set (ins g n)")
    case True
    then obtain i where "i < length (ins g n)" "ins g n ! i = m" by (auto simp: in_set_conv_nth)
    then have "outs g m \<noteq> []" using ag(3) [of n i] \<open>live g n\<close> \<open>m \<noteq> 0\<close> by auto
    then show ?thesis using ag(2) by blast
  next
    case False
    then obtain i where "(m, i) \<in> set (outs g n)" using assms(2) by (auto simp: next_to_def)
    then show ?thesis using ag(4) \<open>m \<noteq> 0\<close> by blast
  qed
qed

lemma forM_map: "forM (map h xs) f = forM xs (\<lambda>x. f (h x))"
  by (induction xs) simp_all

lemma queue_length: "wl_ok g w \<Longrightarrow> length (wl_queue w) \<le> card {n. queued g n}"
  using distinct_card [of "wl_queue w"] card_mono [of "{n. queued g n}" "set (wl_queue w)"] by (auto simp: wl_ok_def)

text \<open>One round of the loop.\<close>

lemma collect_round:
  assumes g: "gvns_ok g" "edges_agree {} g" and w: "wl_ok g w" "0 \<in> set (wl_queue w)" and n: "live g n" "g_nodes g n = Some x"
  shows "\<exists>w' q. bindM (forM (node_inps x) (worklist_add g)) (\<lambda>_. forM (node_outs x) (\<lambda>out. worklist_add g (fst out))) w = (Inr (), w') \<and>
    wl_ok g w' \<and> wl_queue w' = wl_queue w @ q \<and> (\<forall>m \<in> set q. next_to g n m) \<and> (\<forall>m. next_to g n m \<longrightarrow> m \<in> set (wl_queue w'))"
proof -
  have zero: "g_nodes g 0 = None" by (rule nil_no_node [OF g(2)])
  have x: "ins g n = node_inps x" "outs g n = node_outs x" using n(2) by (simp_all add: ins_def outs_def)
  have near: "m = 0 \<or> next_to g n m" if "m \<in> set (node_inps x) \<union> set (map fst (node_outs x))" for m
    using that n(1) x by (auto simp: next_to_def)
  then have q: "\<forall>m \<in> set (node_inps x). queued g m" "\<forall>m \<in> set (map fst (node_outs x)). queued g m"
    using next_to_live [OF g(2)] by (auto simp: queued_def)
  obtain w1 q1 where w1: "forM (node_inps x) (worklist_add g) w = (Inr (), w1)" "wl_ok g w1" "wl_queue w1 = wl_queue w @ q1"
    "set q1 \<subseteq> set (node_inps x)" "set (node_inps x) \<subseteq> set (wl_queue w1)"
    using add_all [OF g(1) zero q(1) w(1)] by blast
  obtain w2 q2 where w2: "forM (map fst (node_outs x)) (worklist_add g) w1 = (Inr (), w2)" "wl_ok g w2" "wl_queue w2 = wl_queue w1 @ q2"
    "set q2 \<subseteq> set (map fst (node_outs x))" "set (map fst (node_outs x)) \<subseteq> set (wl_queue w2)"
    using add_all [OF g(1) zero q(2) w1(2)] by blast
  have queue: "wl_queue w2 = wl_queue w @ q1 @ q2" using w1(3) w2(3) by simp
  then have "0 \<notin> set (q1 @ q2)" using w(2) w2(2) by (auto simp: wl_ok_def)
  then have "\<forall>m \<in> set (q1 @ q2). next_to g n m" using near w1(4) w2(4) by fastforce
  moreover have "m \<in> set (wl_queue w2)" if "next_to g n m" for m
    using that w1(5) w2(3,5) x by (auto simp: next_to_def)
  moreover have "bindM (forM (node_inps x) (worklist_add g)) (\<lambda>_. forM (node_outs x) (\<lambda>out. worklist_add g (fst out))) w = (Inr (), w2)"
    using w1(1) w2(1) by (simp add: forM_map)
  ultimately show ?thesis using w2(2) queue by blast
qed

lemma collect_loop_returns:
  assumes g: "gvns_ok g" "edges_agree {} g"
  shows "wl_ok g w \<Longrightarrow> wl_queue w = 0 # ids \<Longrightarrow> 0 < i \<Longrightarrow> i \<le> length (wl_queue w) \<Longrightarrow> card {n. queued g n} < fuel + i \<Longrightarrow>
    \<exists>w' q. collect_loop g oof fuel i w = (Inr (), w') \<and> wl_ok g w' \<and> wl_queue w' = wl_queue w @ q \<and>
      (\<forall>m \<in> set q. \<exists>n \<in> set ids. (next_to g)\<^sup>*\<^sup>* n m) \<and>
      (\<forall>n \<in> set (drop i (wl_queue w')). \<forall>m. next_to g n m \<longrightarrow> m \<in> set (wl_queue w'))"
proof (induction fuel arbitrary: w ids i)
  case 0
  then show ?case using queue_length [OF 0(1)] by simp
next
  case (Suc fuel)
  show ?case
  proof (cases "i < length (wl_queue w)")
    case False
    then show ?thesis using Suc.prems by (simp add: ret_apply)
  next
    case True
    let ?n = "wl_queue w ! i"
    obtain k where k: "i = Suc k" "k < length ids" "?n = ids ! k" using Suc.prems(2,3) True by (cases i) auto
    then have n: "?n \<in> set ids" by simp
    then have live: "live g ?n" "?n \<noteq> 0" using Suc.prems(1,2) by (auto simp: wl_ok_def queued_def)
    then obtain x where x: "g_nodes g ?n = Some x" "node_rtype x \<noteq> DEAD_NODE_KIND" using live_node by blast
    have get: "wl_node g ?n w = (Inr x, w)" using x(1) live(2) by (simp add: wl_node_def g_get_node_def liftM_apply)
    obtain w1 q1 where w1: "bindM (forM (node_inps x) (worklist_add g)) (\<lambda>_. forM (node_outs x) (\<lambda>out. worklist_add g (fst out))) w = (Inr (), w1)"
      "wl_ok g w1" "wl_queue w1 = wl_queue w @ q1" "\<forall>m \<in> set q1. next_to g ?n m" "\<forall>m. next_to g ?n m \<longrightarrow> m \<in> set (wl_queue w1)"
      using collect_round [OF g Suc.prems(1) _ live(1) x(1)] Suc.prems(2) by auto
    have run: "collect_loop g oof (Suc fuel) i w = collect_loop g oof fuel (Suc i) w1"
      using True get x(2) w1(1) bindM_assoc [symmetric] by (simp add: bindM_assoc [symmetric])
    have q0: "wl_queue w1 = 0 # (ids @ q1)" using w1(3) Suc.prems(2) by simp
    obtain w' q where w': "collect_loop g oof fuel (Suc i) w1 = (Inr (), w')" "wl_ok g w'" "wl_queue w' = wl_queue w1 @ q"
      "\<forall>m \<in> set q. \<exists>n \<in> set (ids @ q1). (next_to g)\<^sup>*\<^sup>* n m"
      "\<forall>n \<in> set (drop (Suc i) (wl_queue w')). \<forall>m. next_to g n m \<longrightarrow> m \<in> set (wl_queue w')"
      using Suc.IH [OF w1(2) q0, of "Suc i"] Suc.prems(5) True w1(3) by auto
    have near: "\<exists>n \<in> set ids. (next_to g)\<^sup>*\<^sup>* n m" if "m \<in> set q1" for m using w1(4) that n by blast
    have "\<exists>n \<in> set ids. (next_to g)\<^sup>*\<^sup>* n m" if m: "m \<in> set (q1 @ q)" for m
    proof (cases "m \<in> set q1")
      case False
      then obtain n' where n': "n' \<in> set ids \<or> n' \<in> set q1" "(next_to g)\<^sup>*\<^sup>* n' m" using w'(4) m by auto
      then show ?thesis using near [of n'] by (meson rtranclp_trans)
    qed (rule near)
    moreover have "drop i (wl_queue w') = ?n # drop (Suc i) (wl_queue w')"
      using True w'(3) w1(3) by (simp add: Cons_nth_drop_Suc [symmetric] nth_append)
    ultimately show ?thesis
      unfolding run using w' w1(3,5) by (intro exI [of _ w'] exI [of _ "q1 @ q"]) auto
  qed
qed

section \<open>New numbers\<close>

text \<open>Only the numbers of some nodes have changed.\<close>

definition only_gvns :: "graph \<Rightarrow> graph \<Rightarrow> bool" where
  "only_gvns g g' \<longleftrightarrow> (\<forall>n. \<exists>f. g_nodes g' n = map_option (node_gvn_update f) (g_nodes g n)) \<and> g_pos g' = g_pos g \<and> g_reserved g' = g_reserved g \<and>
     g_hashes g' = g_hashes g \<and> g_ids g' = g_ids g \<and> g_len g' = g_len g \<and> g_dont_delete g' = g_dont_delete g \<and> g_dont_intern g' = g_dont_intern g"

lemma only_gvns_views:
  assumes "only_gvns g g'"
  shows "live g' = live g" "ins g' = ins g" "outs g' = outs g" "kind_of g' = kind_of g" "g_nodes g' n = None \<longleftrightarrow> g_nodes g n = None"
    "value_of g' = value_of g" "interned sp g' = interned sp g"
proof -
  have "live g' n = live g n \<and> ins g' n = ins g n \<and> outs g' n = outs g n \<and> kind_of g' n = kind_of g n \<and> (g_nodes g' n = None \<longleftrightarrow> g_nodes g n = None)" for n
  proof -
    obtain f where "g_nodes g' n = map_option (node_gvn_update f) (g_nodes g n)" using assms by (auto simp: only_gvns_def)
    then show ?thesis by (simp add: live_def ins_def outs_def kind_of_def split: option.split)
  qed
  then show v: "live g' = live g" "ins g' = ins g" "outs g' = outs g" "kind_of g' = kind_of g" "g_nodes g' n = None \<longleftrightarrow> g_nodes g n = None"
    by (simp_all add: fun_eq_iff)
  then show "value_of g' = value_of g" "interned sp g' = interned sp g" by (simp_all add: value_of_def interned_def fun_eq_iff)
qed

lemma only_gvns_ok:
  assumes g: "graph_ok sp g" and r: "only_gvns g g'"
  shows "graph_ok sp g'"
proof -
  note ok = graph_okD [OF g] and v = only_gvns_views [OF r]
  have t: "g_hashes g' = g_hashes g" "g_ids g' = g_ids g" "g_len g' = g_len g" using r by (simp_all add: only_gvns_def)
  have "table_ok sp {} Map.empty g'" using ok(2) table_views [OF v(1,6,7,5) t] by blast
  moreover have "edges_agree {} g'" using ok(1) unfolding edges_agree_def edges_match_def v by simp
  moreover have "nodes_ok sp g'"
  proof -
    have "node_ok sp x \<and> 4 * unat n < g_pos g" if x: "g_nodes g' n = Some x" for n x
    proof -
      obtain f where "g_nodes g' n = map_option (node_gvn_update f) (g_nodes g n)" using r unfolding only_gvns_def by blast
      then obtain y where "g_nodes g n = Some y" "x = node_gvn_update f y" using x by (cases "g_nodes g n") auto
      then show ?thesis using ok(3) by (auto simp: nodes_ok_def node_ok_def)
    qed
    then show ?thesis using ok(3) r by (auto simp: nodes_ok_def only_gvns_def)
  qed
  ultimately show ?thesis using ok(4,5) r by (simp add: graph_ok_def graph_inv_def only_gvns_def)
qed

lemma only_gvns_trans: "only_gvns g g1 \<Longrightarrow> only_gvns g1 g2 \<Longrightarrow> only_gvns g g2"
proof -
  assume a: "only_gvns g g1" "only_gvns g1 g2"
  have "\<exists>f. g_nodes g2 n = map_option (node_gvn_update f) (g_nodes g n)" for n
  proof -
    obtain f1 f2 where "g_nodes g1 n = map_option (node_gvn_update f1) (g_nodes g n)" "g_nodes g2 n = map_option (node_gvn_update f2) (g_nodes g1 n)"
      using a unfolding only_gvns_def by blast
    then have "g_nodes g2 n = map_option (node_gvn_update (f2 \<circ> f1)) (g_nodes g n)" by (simp add: option.map_comp comp_def)
    then show ?thesis by blast
  qed
  then show ?thesis using a by (simp add: only_gvns_def)
qed

lemma renumber_loop:
  assumes "distinct ns" "0 \<notin> set ns" "\<forall>n \<in> set ns. g_nodes g n \<noteq> None" "k + length ns \<le> 2 ^ 26"
  shows "\<exists>g'. forM (enumerate k ns) (\<lambda>(i, n). on_graph (g_put_node n (node_gvn_update (\<lambda>_. take_bit 26 (of_nat i))))) (g, w) = (Inr (), (g', w)) \<and>
    only_gvns g g' \<and> (\<forall>j < length ns. gvn_of g' (ns ! j) = k + j) \<and> (\<forall>n. n \<notin> set ns \<longrightarrow> gvn_of g' n = gvn_of g n) \<and> g_gvn g' = g_gvn g"
  using assms
proof (induction ns arbitrary: k g)
  case Nil
  have "g_nodes g n = map_option (node_gvn_update (\<lambda>x. x)) (g_nodes g n)" for n by (cases "g_nodes g n") simp_all
  then have "only_gvns g g" unfolding only_gvns_def by blast
  then show ?case by (simp add: ret_apply)
next
  case (Cons n ns)
  let ?g = "g\<lparr>g_nodes := (g_nodes g)(n := map_option (node_gvn_update (\<lambda>_. take_bit 26 (of_nat k))) (g_nodes g n))\<rparr>"
  have step: "on_graph (g_put_node n (node_gvn_update (\<lambda>_. take_bit 26 (of_nat k)))) (g, w) = (Inr (), (?g, w))"
    by (simp add: on_graph_def g_put_node_def)
  have one: "only_gvns g ?g"
  proof -
    have "g_nodes g m = map_option (node_gvn_update (\<lambda>x. x)) (g_nodes g m)" for m by (cases "g_nodes g m") simp_all
    then show ?thesis unfolding only_gvns_def by auto
  qed
  have k: "unat (take_bit 26 (of_nat k) :: u32) = k"
    using Cons.prems(4) by (simp add: unsigned_take_bit_eq unat_of_nat take_bit_nat_eq_self)
  have num: "gvn_of ?g m = (if m = n then k else gvn_of g m)" for m using Cons.prems(2,3) k by (auto simp: gvn_of_def)
  obtain g' where g': "forM (enumerate (Suc k) ns) (\<lambda>(i, n). on_graph (g_put_node n (node_gvn_update (\<lambda>_. take_bit 26 (of_nat i))))) (?g, w) = (Inr (), (g', w))"
    "only_gvns ?g g'" "\<forall>j < length ns. gvn_of g' (ns ! j) = Suc k + j" "\<forall>n. n \<notin> set ns \<longrightarrow> gvn_of g' n = gvn_of ?g n" "g_gvn g' = g_gvn ?g"
  proof -
    have "distinct ns" "0 \<notin> set ns" "\<forall>m \<in> set ns. g_nodes ?g m \<noteq> None" "Suc k + length ns \<le> 2 ^ 26" using Cons.prems by auto
    from Cons.IH [OF this] show ?thesis using that by blast
  qed
  have "\<forall>j < length (n # ns). gvn_of g' ((n # ns) ! j) = k + j"
    using g'(3,4) num Cons.prems(1) by (auto simp: nth_Cons split: nat.split)
  moreover have "\<forall>m. m \<notin> set (n # ns) \<longrightarrow> gvn_of g' m = gvn_of g m" using g'(4) num by simp
  ultimately show ?case using step g'(1,5) only_gvns_trans [OF one g'(2)] by auto
qed

lemma check_numbers_returns:
  assumes "\<forall>n \<in> set queue. known g n \<and> gvn_of g n < bit_length b \<and> gvn_of g n \<notin> bits b" "distinct (map (gvn_of g) queue)" "bits_ok b"
  shows "\<exists>b'. check_numbers g queue b = (Inr (), b')"
  using assms
proof (induction queue arbitrary: b)
  case Nil
  then show ?case by (simp add: check_numbers_def ret_apply)
next
  case (Cons n queue)
  have n: "known g n" "gvn_of g n < bit_length b" "gvn_of g n \<notin> bits b" using Cons.prems(1) by auto
  obtain x where x: "g_get_node n g = (Inr x, g)" "unat (node_gvn x) = gvn_of g n" using get_known [OF n(1)] by blast
  obtain b1 where b1: "bit_set (gvn_of g n) True b = (Inr True, b1)" "bits b1 = insert (gvn_of g n) (bits b)" "bit_length b1 = bit_length b" "bits_ok b1"
    using bit_set_returns [OF Cons.prems(3) n(2), of True] n(3) by auto
  obtain b' where "check_numbers g queue b1 = (Inr (), b')"
  proof -
    have "\<forall>m \<in> set queue. known g m \<and> gvn_of g m < bit_length b1 \<and> gvn_of g m \<notin> bits b1"
      using Cons.prems(1,2) unfolding b1(2,3) by (auto simp: image_iff)
    then show ?thesis using Cons.IH [of b1] Cons.prems(2) b1(4) that by auto
  qed
  then show ?case using x b1(1) by (auto simp: check_numbers_def liftM_apply)
qed

lemma contains_loop:
  assumes "bits_ok (in_queue w)" "\<forall>n \<in> set ns. known g n \<and> gvn_of g n \<in> bits (in_queue w)"
  shows "forM ns (\<lambda>n. bindM (on_graph (g_get_node n)) (\<lambda>x.
      bindM (on_worklist (\<lambda>_. on_bits (bit_contains (unat (node_gvn x))))) (\<lambda>c. assertM c msg))) (g, w) = (Inr (), (g, w))"
  using assms(2)
proof (induction ns)
  case (Cons n ns)
  have n: "known g n" "gvn_of g n \<in> bits (in_queue w)" using Cons.prems by auto
  obtain x where x: "g_get_node n g = (Inr x, g)" "unat (node_gvn x) = gvn_of g n"
    using get_known [OF n(1)] by blast
  have "gvn_of g n < bit_length (in_queue w)" using assms(1) n(2) by (auto simp: bits_ok_def)
  then have "bit_contains (gvn_of g n) (in_queue w) = (Inr True, in_queue w)" using bit_contains_returns [OF assms(1)] n(2) by simp
  then have "on_worklist (\<lambda>_. on_bits (bit_contains (gvn_of g n))) (g, w) = (Inr True, (g, w))"
    by (simp add: on_worklist_def on_bits_def)
  moreover have "on_graph (g_get_node n) (g, w) = (Inr x, (g, w))" using x(1) by (simp add: on_graph_def)
  ultimately show ?case using Cons x(2) by simp
qed (simp add: ret_apply)

lemma renumber_returns:
  assumes g: "g_nodes g 0 = None" and w: "wl_ok g w" "wl_queue w = 0 # ids" and len: "length ids < 2 ^ 26" and gv: "gvns_ok g"
  shows "\<exists>g' w'. renumber_nodes (g, w) = (Inr (), (g', w')) \<and> only_gvns g g' \<and> (\<forall>j < length ids. gvn_of g' (ids ! j) = Suc j) \<and>
    wl_queue w' = wl_queue w \<and> bits (in_queue w') = {..length ids} \<and> bits_ok (in_queue w') \<and> g_gvn g' = of_nat (Suc (length ids))"
proof -
  let ?n = "Suc (length ids)"
  have "card (bits (in_queue w)) = ?n"
  proof -
    have "inj_on (gvn_of g) (set (wl_queue w))" using w(1) gvns_queued(1) [OF gv _ _ g] by (auto simp: wl_ok_def inj_on_def)
    then show ?thesis using w distinct_card [of "wl_queue w"] by (simp add: wl_ok_def card_image)
  qed
  moreover have "card (bits (in_queue w)) \<le> bit_length (in_queue w)"
    using w(1) card_mono [of "{..<bit_length (in_queue w)}"] by (auto simp: wl_ok_def bits_ok_def)
  ultimately have fits: "?n \<le> bit_length (in_queue w)" by simp
  let ?g = "g\<lparr>g_gvn := of_nat ?n\<rparr>"
  have un: "unat (of_nat ?n :: u32) = ?n" using len by (simp add: unat_of_nat del: of_nat_Suc)
  obtain b1 where b1: "bit_set_all False (in_queue w) = (Inr (), b1)" "bits b1 = {}" "bit_length b1 = bit_length (in_queue w)" "bits_ok b1"
    using bit_set_all_returns [of "in_queue w"] w(1) unfolding wl_ok_def by blast
  obtain b2 where b2: "bit_set_range 0 ?n b1 = (Inr (), b2)" "bits b2 = {0..<?n}" "bit_length b2 = bit_length b1" "bits_ok b2"
    using bit_set_range_returns [OF b1(4), of 0 ?n] b1(2,3) fits by auto
  let ?w = "w\<lparr>in_queue := b2\<rparr>"
  have ids: "distinct ids" "0 \<notin> set ids" "\<forall>n \<in> set ids. live g n" using w by (auto simp: wl_ok_def queued_def)
  then have nodes: "\<forall>n \<in> set ids. g_nodes ?g n \<noteq> None" using live_node [of g] by fastforce
  obtain g' where g': "forM (enumerate 1 ids) (\<lambda>(i, n). on_graph (g_put_node n (node_gvn_update (\<lambda>_. take_bit 26 (of_nat i))))) (?g, ?w) = (Inr (), (g', ?w))"
    "only_gvns ?g g'" "\<forall>j < length ids. gvn_of g' (ids ! j) = 1 + j" "g_gvn g' = g_gvn ?g"
    using renumber_loop [OF ids(1,2) nodes, of 1 ?w] len by auto
  have "known g' n \<and> gvn_of g' n \<in> bits (in_queue ?w)" if n: "n \<in> set ids" for n
  proof -
    obtain j where "j < length ids" "n = ids ! j" using n by (auto simp: in_set_conv_nth)
    then show ?thesis using g'(3) b2(2) nodes n only_gvns_views(5) [OF g'(2), of n] by (auto simp: known_def)
  qed
  then have chk: "forM ids (\<lambda>n. bindM (on_graph (g_get_node n)) (\<lambda>x.
      bindM (on_worklist (\<lambda>_. on_bits (bit_contains (unat (node_gvn x))))) (\<lambda>c. assertM c ''contains(worklist.in_queue, gvn)''))) (g', ?w) = (Inr (), (g', ?w))"
    using contains_loop [of ?w ids g'] b2(4) by simp
  have "renumber_nodes (g, w) = (Inr (), (g', ?w))"
    unfolding renumber_nodes_def
    using w(2) b1(1) b2(1) un g'(1) chk by (simp add: on_graph_def on_worklist_def on_bits_def)
  moreover have "only_gvns g g'" using g'(2) by (simp add: only_gvns_def)
  ultimately show ?thesis using g'(3,4) b2(2,4) by (intro exI [of _ g'] exI [of _ ?w]) auto
qed

section \<open>The properties\<close>

lemma pins_hold:
  assumes "g_nodes g 0 = None" "live g e" "fst (kind_of g e) = type_Entry" "live g f" "fst (kind_of g f) = type_End"
  shows "assert_live_pins e f g = (Inr (), g)"
proof -
  obtain x y where "g_nodes g e = Some x" "g_nodes g f = Some y" using live_node [OF assms(2)] live_node [OF assms(4)] by blast
  moreover have "e \<noteq> 0" "f \<noteq> 0" using assms(1,2,4) by (auto simp: live_def)
  ultimately show ?thesis using assms by (simp add: assert_live_pins_def g_get_node_some live_def kind_of_def ret_apply)
qed

text \<open>The collection before the numbers change.\<close>

lemma collected:
  assumes g: "gvns_ok g" "edges_agree {} g" and e: "live g e" "live g f" "e \<noteq> f"
    and w: "wl_queue w = []" "bits_ok (in_queue w)" "bits (in_queue w) = {}" and fuel: "card {n. live g n} < fuel"
  shows "\<exists>w1 w2 w3 w4 ids. worklist_add g 0 w = (Inr (), w1) \<and> worklist_add g e w1 = (Inr (), w2) \<and> worklist_add g f w2 = (Inr (), w3) \<and>
    wl_queue w3 \<noteq> [] \<and> collect_loop g oof fuel 1 w3 = (Inr (), w4) \<and> wl_ok g w4 \<and> wl_queue w4 = 0 # ids \<and>
    set ids = {n. (next_to g)\<^sup>*\<^sup>* e n \<or> (next_to g)\<^sup>*\<^sup>* f n}"
proof -
  have zero: "g_nodes g 0 = None" by (rule nil_no_node [OF g(2)])
  have q: "queued g 0" "queued g e" "queued g f" "e \<noteq> 0" "f \<noteq> 0" using e zero by (auto simp: queued_def live_def)
  have w0: "wl_ok g w" using w by (simp add: wl_ok_def)
  obtain w1 where w1: "worklist_add g 0 w = (Inr (), w1)" "wl_ok g w1" "wl_queue w1 = [0]" using add_new [OF g(1) zero q(1) w0] w(1) by auto
  obtain w2 where w2: "worklist_add g e w1 = (Inr (), w2)" "wl_ok g w2" "wl_queue w2 = [0, e]" using add_new [OF g(1) zero q(2) w1(2)] w1(3) q(4) by auto
  obtain w3 where w3: "worklist_add g f w2 = (Inr (), w3)" "wl_ok g w3" "wl_queue w3 = 0 # [e, f]"
    using add_new [OF g(1) zero q(3) w2(2)] w2(3) q(5) e(3) by auto
  have "{n. queued g n} = insert 0 {n. live g n}" by (auto simp: queued_def)
  then have "card {n. queued g n} < fuel + 1" using fuel card_insert_le_m1 [of "Suc (card {n. live g n})" "{n. live g n}" 0] by simp
  then obtain w4 r where w4: "collect_loop g oof fuel 1 w3 = (Inr (), w4)" "wl_ok g w4" "wl_queue w4 = wl_queue w3 @ r"
    "\<forall>m \<in> set r. \<exists>n \<in> set [e, f]. (next_to g)\<^sup>*\<^sup>* n m" "\<forall>n \<in> set (drop 1 (wl_queue w4)). \<forall>m. next_to g n m \<longrightarrow> m \<in> set (wl_queue w4)"
    using collect_loop_returns [OF g w3(2,3), of 1 fuel oof] w3(3) by auto
  let ?ids = "e # f # r"
  have queue: "wl_queue w4 = 0 # ?ids" using w4(3) w3(3) by simp
  have closed: "m \<in> set ?ids" if "next_to g n m" "n \<in> set ?ids" for n m
  proof -
    have "m \<in> set (wl_queue w4)" using w4(5) that by (auto simp: queue)
    moreover have "m \<noteq> 0" using that(1) by (simp add: next_to_def)
    ultimately show ?thesis by (simp add: queue)
  qed
  have "m \<in> set ?ids" if "(next_to g)\<^sup>*\<^sup>* n m" "n \<in> set ?ids" for n m
    using that by (induction rule: rtranclp_induct) (use closed in blast)+
  then have "{n. (next_to g)\<^sup>*\<^sup>* e n \<or> (next_to g)\<^sup>*\<^sup>* f n} \<subseteq> set ?ids" by auto
  moreover have "set ?ids \<subseteq> {n. (next_to g)\<^sup>*\<^sup>* e n \<or> (next_to g)\<^sup>*\<^sup>* f n}" using w4(4) by auto
  ultimately have "set ?ids = {n. (next_to g)\<^sup>*\<^sup>* e n \<or> (next_to g)\<^sup>*\<^sup>* f n}" by (rule equalityI [rotated])
  moreover have "wl_queue w3 \<noteq> []" using w3(3) by simp
  ultimately show ?thesis using w1(1) w2(1) w3(1) w4(1,2) queue by blast
qed

lemma collect_returns:
  assumes g: "graph_ok sp g" "gvns_ok g" and e: "live g e" "fst (kind_of g e) = type_Entry" "live g f" "fst (kind_of g f) = type_End"
    and w: "wl_queue w = []" "bits_ok (in_queue w)" "bits (in_queue w) = {}" and fuel: "card {n. live g n} < fuel"
  shows "\<exists>ids g' w'. collect_nodes oof fuel e f True (g, w) = (Inr (), (g', w')) \<and> wl_queue w' = 0 # ids \<and> distinct ids \<and>
    set ids = {n. (next_to g)\<^sup>*\<^sup>* e n \<or> (next_to g)\<^sup>*\<^sup>* f n} \<and> (\<forall>k < length ids. gvn_of g' (ids ! k) = Suc k) \<and>
    only_gvns g g' \<and> (\<forall>n \<in> set ids. live g n) \<and> bits_ok (in_queue w') \<and> bits (in_queue w') = {..length ids} \<and> length ids < 2 ^ 26"
proof -
  note ok = graph_okD [OF g(1)]
  have zero: "g_nodes g 0 = None" by (rule nil_no_node [OF ok(1)])
  have ne: "e \<noteq> f" using e(2,4) by (auto simp: type_Entry_def type_End_def)
  obtain w1 w2 w3 w4 ids where c: "worklist_add g 0 w = (Inr (), w1)" "worklist_add g e w1 = (Inr (), w2)" "worklist_add g f w2 = (Inr (), w3)"
    "wl_queue w3 \<noteq> []" "collect_loop g oof fuel 1 w3 = (Inr (), w4)" "wl_ok g w4" "wl_queue w4 = 0 # ids"
    "set ids = {n. (next_to g)\<^sup>*\<^sup>* e n \<or> (next_to g)\<^sup>*\<^sup>* f n}"
    using collected [OF g(2) ok(1) e(1,3) ne w fuel] by blast
  have ids: "distinct ids" "0 \<notin> set ids" "\<forall>n \<in> set ids. live g n" using c(6,7) by (auto simp: wl_ok_def queued_def)
  have len: "length ids < 2 ^ 26"
  proof -
    have "inj_on (gvn_of g) (set ids)" using g(2) ids(3) by (auto simp: gvns_ok_def inj_on_def)
    moreover have "gvn_of g ` set ids \<subseteq> {1..<2 ^ 26}" using g(2) ids(3) by (auto simp: gvns_ok_def Suc_le_eq)
    ultimately have "card (set ids) \<le> card {1..<2 ^ 26 :: nat}" by (intro card_inj_on_le) auto
    then show ?thesis using distinct_card [OF ids(1)] by simp
  qed
  obtain g' w' where r: "renumber_nodes (g, w4) = (Inr (), (g', w'))" "only_gvns g g'" "\<forall>j < length ids. gvn_of g' (ids ! j) = Suc j"
    "wl_queue w' = wl_queue w4" "g_gvn g' = of_nat (Suc (length ids))" "bits (in_queue w') = {..length ids}" "bits_ok (in_queue w')"
    using renumber_returns [OF zero c(6,7) len g(2)] by blast
  note v = only_gvns_views [OF r(2)]
  have map: "map (gvn_of g') (0 # ids) = [0..<Suc (length ids)]"
  proof -
    have "map (gvn_of g') ids = [1..<Suc (length ids)]" by (rule nth_equalityI) (use r(3) in \<open>simp_all del: upt_Suc\<close>)
    then show ?thesis by (simp add: gvn_of_def upt_rec del: upt_Suc)
  qed
  have "\<forall>n \<in> set (0 # ids). known g' n \<and> gvn_of g' n < bit_length (bit_init (Suc (length ids))) \<and> gvn_of g' n \<notin> bits (bit_init (Suc (length ids)))"
  proof
    fix n assume n: "n \<in> set (0 # ids)"
    then have "gvn_of g' n \<in> set (map (gvn_of g') (0 # ids))" by auto
    then have "gvn_of g' n < Suc (length ids)" unfolding map by auto
    then show "known g' n \<and> gvn_of g' n < bit_length (bit_init (Suc (length ids))) \<and> gvn_of g' n \<notin> bits (bit_init (Suc (length ids)))"
      using n ids(3) live_node [of g n] v(5) [of n] bit_init_facts [of "Suc (length ids)"] by (auto simp: known_def)
  qed
  then obtain b where chk: "check_numbers g' (0 # ids) (bit_init (Suc (length ids))) = (Inr (), b)"
    using check_numbers_returns [of "0 # ids" g'] bit_init_facts(3) map by (metis distinct_upt)
  have "unat (g_gvn g') = Suc (length ids)" using len unfolding r(5) by (simp add: unat_of_nat del: of_nat_Suc)
  moreover have "assert_live_pins e f g' = (Inr (), g')" using e v zero by (intro pins_hold) simp_all
  ultimately have "collect_nodes oof fuel e f True (g, w) = (Inr (), (g', w'))"
    using w(1) c(1-5,7) r(1,4) chk by (simp add: collect_nodes_def on_worklist_def on_graph_def liftM_apply)
  then show ?thesis using r(2-4,6,7) c(7,8) ids len by auto
qed

text \<open>
  C22: \<^verbatim>\<open>collect_nodes\<close> on a well-formed graph whose nodes have distinct numbers returns; it has then queued the nil node and
  after it, once each, the nodes that are connected to the entry or the end by inputs and users, and has given them the numbers
  1, 2 and so on in the order of the queue. Nothing else of the graph has changed and it is well-formed.
\<close>

theorem collect_finds_nodes:
  assumes g: "graph_ok sp g" "gvns_ok g" and e: "live g e" "fst (kind_of g e) = type_Entry" "live g f" "fst (kind_of g f) = type_End"
    and w: "wl_queue w = []" "bits_ok (in_queue w)" "bits (in_queue w) = {}" and fuel: "card {n. live g n} < fuel"
  shows "\<exists>ids g' w'. collect_nodes oof fuel e f True (g, w) = (Inr (), (g', w')) \<and> wl_queue w' = 0 # ids \<and> distinct ids \<and>
    set ids = {n. (next_to g)\<^sup>*\<^sup>* e n \<or> (next_to g)\<^sup>*\<^sup>* f n} \<and> (\<forall>k < length ids. gvn_of g' (ids ! k) = Suc k) \<and>
    graph_ok sp g' \<and> value_of g' = value_of g \<and> outs g' = outs g \<and> live g' = live g"
proof -
  obtain ids g' w' where r: "collect_nodes oof fuel e f True (g, w) = (Inr (), (g', w'))" "wl_queue w' = 0 # ids" "distinct ids"
    "set ids = {n. (next_to g)\<^sup>*\<^sup>* e n \<or> (next_to g)\<^sup>*\<^sup>* f n}" "\<forall>k < length ids. gvn_of g' (ids ! k) = Suc k" "only_gvns g g'"
    using collect_returns [OF assms] by blast
  then show ?thesis using only_gvns_views(1,3,6) [OF r(6)] only_gvns_ok [OF g(1) r(6)] by blast
qed

text \<open>The entry at 16 and the end at 32, which is pinned.\<close>

definition short_graph :: graph where
  "short_graph = (blank_graph 1048576 False)\<lparr>g_nodes :=
     [16 \<mapsto> NIL_NODE\<lparr>node_rtype := 1, node_gvn := 1, node_outs := [(32, 0)], node_output_cap := 2\<rparr>,
      32 \<mapsto> NIL_NODE\<lparr>node_rtype := 7, node_gvn := 2, node_inps := [16], node_input_cap := 1, node_outs := [(0, 0)], node_output_cap := 2\<rparr>],
     g_pos := 256\<rparr>"

lemma short_views:
  "live short_graph n \<longleftrightarrow> n = 16 \<or> n = 32" "ins short_graph n = (if n = 32 then [16] else [])"
  "outs short_graph n = (if n = 16 then [(32, 0)] else if n = 32 then [(0, 0)] else [])"
  "kind_of short_graph n = (if n = 16 then (1, 0, []) else if n = 32 then (7, 0, []) else (0, 0, []))"
  "g_nodes short_graph n = None \<longleftrightarrow> n \<noteq> 16 \<and> n \<noteq> 32" "gvn_of short_graph n = (if n = 16 then 1 else if n = 32 then 2 else 0)"
  by (auto simp: live_def ins_def outs_def kind_of_def gvn_of_def short_graph_def NIL_NODE_def DEAD_NODE_KIND_def)

lemma short_ok: "graph_ok tiny_spec short_graph" "gvns_ok short_graph"
proof -
  have "edges_agree {} short_graph" unfolding edges_agree_def edges_match_def short_views by (auto split: if_splits)
  moreover have "table_ok tiny_spec {} Map.empty short_graph"
    by (auto simp: table_ok_def shape_ok_def rows_ok_def rows_def entries_def interned_def short_views tiny_spec_def) (simp_all add: short_graph_def blank_graph_def)
  moreover have "nodes_ok tiny_spec short_graph"
    unfolding nodes_ok_def node_ok_def by (auto simp: short_graph_def NIL_NODE_def tiny_spec_def split: if_splits)
  ultimately show "graph_ok tiny_spec short_graph" by (simp add: graph_ok_def graph_inv_def) (simp add: short_graph_def blank_graph_def)
  show "gvns_ok short_graph" by (auto simp: gvns_ok_def short_views inj_on_def)
qed

theorem collect_finds_nodes_witness:
  "\<exists>ids g' w'. collect_nodes (Ub ''fuel'') 3 16 32 True (short_graph, worklist_init 0) = (Inr (), (g', w')) \<and> wl_queue w' = 0 # ids \<and> {16, 32} \<subseteq> set ids"
proof -
  have "{n. live short_graph n} = {16, 32}" by (auto simp: short_views)
  then have "card {n. live short_graph n} < 3" by simp
  moreover have "wl_queue (worklist_init 0) = []" "bits_ok (in_queue (worklist_init 0))" "bits (in_queue (worklist_init 0)) = {}"
    using bit_init_facts [of 0] by (simp_all add: worklist_init_def)
  ultimately show ?thesis
    using collect_finds_nodes [OF short_ok, of 16 32 "worklist_init 0" 3 "Ub ''fuel''"] by (fastforce simp: short_views type_Entry_def type_End_def)
qed

text \<open>
  C23: A node that is among the first \<open>k\<close> in the queue is returned by one of the next \<open>k\<close> calls of \<^verbatim>\<open>worklist_next\<close> at the
  latest, whatever is added meanwhile and however the graph changes between the calls, as long as the node is alive and
  nodes keep their numbers; and none of the calls fails.
\<close>

theorem queued_comes_back:
  assumes "wl_bounded gv D w" "\<forall>op \<in> set ops. steady gv D op \<and> queued (seen_graph op) n"
    and "n \<in> set (take k (wl_queue w))" "k \<le> length (filter (\<lambda>op. \<exists>g. op = Next g) ops)"
  shows "\<exists>rs w'. mapM wl_step ops w = (Inr rs, w') \<and> Some n \<in> set rs"
proof -
  obtain p where "p < k" "p < length (wl_queue w)" "wl_queue w ! p = n" using assms(3) by (auto simp: in_set_conv_nth)
  then show ?thesis using comes_back [OF assms(1,2), of p] assms(4) by simp
qed

theorem queued_comes_back_witness:
  "\<exists>rs w'. mapM wl_step [Next tiny_graph, Add tiny_graph 16, Next tiny_graph] \<lparr>wl_queue = [16, 32], in_queue = bit_init 64\<rparr> = (Inr rs, w') \<and> Some 32 \<in> set rs"
proof -
  let ?w = "\<lparr>wl_queue = [16, 32], in_queue = bit_init 64\<rparr>" and ?ops = "[Next tiny_graph, Add tiny_graph 16, Next tiny_graph]"
  have gv: "gvn_of tiny_graph 16 = 1" "gvn_of tiny_graph 32 = 2" by (simp_all add: gvn_of_def tiny_graph_def tiny_const_def tiny_user_def)
  have "wl_bounded (gvn_of tiny_graph) {16, 32} ?w" using bit_init_facts [of 64] gv by (simp add: wl_bounded_def)
  moreover have "\<forall>op \<in> set ?ops. steady (gvn_of tiny_graph) {16, 32} op \<and> queued (seen_graph op) 32"
    using gv tiny_views(5) [of 16] tiny_views(5) [of 32] by (auto simp: steady_def known_def queued_def tiny_views(1))
  ultimately show ?thesis using queued_comes_back [where k = 2 and n = 32 and ops = ?ops and w = ?w] by auto
qed

end
