(* ===== verification/Bit_Iter.thy ===== *)
theory Bit_Iter
  imports Bit_Arr Masks
begin

text \<open>
  The rest of \<^verbatim>\<open>bit_arr.odin\<close> on bit sets: views of whole masks, counting, access with any index, and iteration, and that they agree
  with the set of numbers the masks stand for.
\<close>

section \<open>Operations\<close>

definition init_from_masks :: "u64 list \<Rightarrow> Bit_Set" where
  "init_from_masks ms = \<lparr>bs_masks = ms, bit_length = length ms * MASK_SIZE\<rparr>"

text \<open>The slice of the masks that belong to the set; a pointer is cut without a check.\<close>

definition bit_masks :: "(Bit_Set, u64 list) prog" where
  "bit_masks =
     bindM (getM (\<lambda>b. (mask_len (bit_length b), bs_masks b))) (\<lambda>(len, ms).
     bindM (requireM (len \<le> length ms) ''masks out of range'') (\<lambda>_.
     ret (take len ms)))"

definition is_empty :: "(Bit_Set, bool) prog" where
  "is_empty = bindM bit_masks (\<lambda>ms. ret (list_all (\<lambda>m. m = 0) ms))"

definition count_ones :: "u64 \<Rightarrow> nat" where
  "count_ones m = length (filter (bit m) [0..<64])"

definition bit_pop_count :: "(Bit_Set, nat) prog" where
  "bit_pop_count = bindM bit_masks (\<lambda>ms. ret (fold (\<lambda>m count. count + count_ones m) ms 0))"

definition set_unbounded :: "int \<Rightarrow> bool \<Rightarrow> (Bit_Set, unit) prog" where
  "set_unbounded i v =
     bindM (getM bit_length) (\<lambda>len.
     if i < 0 \<or> int len \<le> i then ret ()
     else bindM (bit_set (nat i) v) (\<lambda>_. ret ()))"

definition contains_unbounded :: "int \<Rightarrow> (Bit_Set, bool) prog" where
  "contains_unbounded i =
     bindM (getM bit_length) (\<lambda>len.
     if i < 0 \<or> int len \<le> i then ret False
     else bit_contains (nat i))"

record Iter =
  it_i :: nat
  current_mask :: u64
  inversion :: u64
  it_set :: Bit_Set

definition bit_iter :: "Bit_Set \<Rightarrow> bool \<Rightarrow> Iter" where
  "bit_iter b inverted = \<lparr>it_i = 0, current_mask = 0, inversion = of_bool (\<not> inverted) - 1, it_set = b\<rparr>"

text \<open>The loop of \<^verbatim>\<open>iter_next\<close> over masks without a bit; it says whether there is one with a bit.\<close>

function next_mask :: "Iter \<Rightarrow> bool res \<times> Iter" where
  "next_mask it =
     (if current_mask it \<noteq> 0 then (Inr True, it)
      else if mask_len (bit_length (it_set it)) \<le> it_i it then (Inr False, it)
      else if length (bs_masks (it_set it)) \<le> it_i it then (Inl (Ub ''mask out of range''), it)
      else next_mask (it\<lparr>current_mask := bs_masks (it_set it) ! it_i it XOR inversion it, it_i := it_i it + 1\<rparr>))"
  by auto
termination by (relation "measure (\<lambda>it. length (bs_masks (it_set it)) - it_i it)") auto

declare next_mask.simps [simp del]

definition iter_next :: "(Iter, nat option) prog" where
  "iter_next =
     bindM next_mask (\<lambda>found.
     if \<not> found then ret None
     else
       bindM (getM (\<lambda>it. (it_i it - 1) * MASK_SIZE + count_trailing_zeros (current_mask it))) (\<lambda>pos.
       bindM (modifyM (\<lambda>it. it\<lparr>current_mask := current_mask it AND (current_mask it - 1)\<rparr>)) (\<lambda>_.
       ret (Some pos))))"

text \<open>A round of a loop over the members of a set.\<close>

definition iter_round :: "Iter \<Rightarrow> (nat \<times> Iter) option" where
  "iter_round it = (case iter_next it of (Inr (Some pos), it') \<Rightarrow> Some (pos, it') | _ \<Rightarrow> None)"

section \<open>Counting\<close>

lemma blocks:
  "concat (map (\<lambda>i. map (\<lambda>k. i * 64 + k) (filter (\<lambda>k. P (i * 64 + k)) [0..<64])) [l..<n]) = filter P [64 * l..<64 * n]"
proof (induction n)
  case (Suc n)
  show ?case
  proof (cases "l \<le> n")
    case True
    then have "[64 * l..<64 * Suc n] = [64 * l..<64 * n] @ map (\<lambda>k. n * 64 + k) [0..<64]"
      using upt_add_eq_append [of "64 * l" "64 * n" 64] map_add_upt [of "n * 64" 64] by (simp add: algebra_simps)
    then show ?thesis using Suc True by (simp add: filter_map comp_def)
  qed simp
qed simp

text \<open>The members of a set in order, and those of its complement, which is filled up to whole masks.\<close>

definition members :: "Bit_Set \<Rightarrow> bool \<Rightarrow> nat list" where
  "members b inverted = filter (\<lambda>i. (i \<in> bits b) \<noteq> inverted) [0..<64 * mask_len (bit_length b)]"

lemma bit_masks_returns: "bits_ok b \<Longrightarrow> bit_masks b = (Inr (bs_masks b), b)"
  by (simp add: bit_masks_def bits_ok_def ret_apply)

lemma bits_bound: "bits_ok b \<Longrightarrow> i \<in> bits b \<Longrightarrow> i < bit_length b \<and> i < 64 * mask_len (bit_length b)"
  using mask_len_range(3) [of "bit_length b"] by (fastforce simp: bits_ok_def)

lemma members_sorted: "bits_ok b \<Longrightarrow> members b False = sorted_list_of_set (bits b)"
proof -
  assume b: "bits_ok b"
  have "set (members b False) = bits b" using bits_bound [OF b] by (auto simp: members_def)
  moreover have "sorted (members b False)" "distinct (members b False)" by (simp_all add: members_def sorted_wrt_filter)
  ultimately show ?thesis by (metis sorted_list_of_set.idem_if_sorted_distinct)
qed

lemma members_blocks:
  assumes "bits_ok b"
  shows "members b v = concat (map (\<lambda>i. map (\<lambda>k. i * 64 + k) (filter (\<lambda>k. bit (bs_masks b ! i) k \<noteq> v) [0..<64])) [0..<length (bs_masks b)])"
proof -
  have len: "mask_len (bit_length b) = length (bs_masks b)" using assms by (simp add: bits_ok_def)
  have "concat (map (\<lambda>i. map (\<lambda>k. i * 64 + k) (filter (\<lambda>k. bit (bs_masks b ! i) k \<noteq> v) [0..<64])) [0..<length (bs_masks b)]) =
    concat (map (\<lambda>i. map (\<lambda>k. i * 64 + k) (filter (\<lambda>k. (i * 64 + k \<in> bits b) \<noteq> v) [0..<64])) [0..<length (bs_masks b)])"
    by (intro arg_cong [of _ _ concat] map_cong [OF refl] arg_cong [of _ _ "map _"] filter_cong) (auto simp: bits_def)
  also have "\<dots> = members b v" using blocks [of "\<lambda>i. (i \<in> bits b) \<noteq> v" 0] by (simp add: members_def len)
  finally show ?thesis ..
qed

lemma fold_count: "fold (\<lambda>m count. count + count_ones m) ms c = c + sum_list (map count_ones ms)"
  by (induction ms arbitrary: c) simp_all

lemma pop_count_returns:
  assumes b: "bits_ok b"
  shows "bit_pop_count b = (Inr (card (bits b)), b)"
proof -
  have "card (bits b) = length (members b False)"
    unfolding members_sorted [OF b] by (rule length_sorted_list_of_set [symmetric])
  also have "\<dots> = sum_list (map (\<lambda>i. count_ones (bs_masks b ! i)) [0..<length (bs_masks b)])"
    unfolding members_blocks [OF b] length_concat map_map comp_def length_map count_ones_def by simp
  also have "\<dots> = sum_list (map count_ones (bs_masks b))"
    by (rule arg_cong [of _ _ sum_list], rule nth_equalityI) simp_all
  finally show ?thesis by (simp add: bit_pop_count_def bit_masks_returns [OF b] fold_count ret_apply)
qed

lemma is_empty_returns:
  assumes b: "bits_ok b"
  shows "is_empty b = (Inr (bits b = {}), b)"
proof -
  have "bits b = {} \<longleftrightarrow> (\<forall>m \<in> set (bs_masks b). m = 0)"
  proof
    assume e: "bits b = {}"
    show "\<forall>m \<in> set (bs_masks b). m = 0"
    proof
      fix m assume "m \<in> set (bs_masks b)"
      then obtain i where i: "i < length (bs_masks b)" "m = bs_masks b ! i" by (metis in_set_conv_nth)
      have "\<not> bit m k" for k
      proof
        assume k: "bit m k"
        then have "k < 64" using bit_imp_le_length [of m k] by simp
        then have "i * 64 + k \<in> bits b" using i k by (simp add: bits_def)
        then show False using e by simp
      qed
      then show "m = 0" by (simp add: bit_eq_iff)
    qed
  next
    assume "\<forall>m \<in> set (bs_masks b). m = 0"
    then have "bs_masks b ! k = 0" if "k < length (bs_masks b)" for k using that by simp
    then show "bits b = {}" by (auto simp: bits_def)
  qed
  then show ?thesis by (simp add: is_empty_def bit_masks_returns [OF b] list_all_iff ret_apply)
qed

lemma from_masks_facts: "bits_ok (init_from_masks ms)" "bit_length (init_from_masks ms) = 64 * length ms"
proof -
  have "mask_len (64 * length ms) = length ms" by (simp add: mask_len_def MASK_SIZE_def)
  moreover have "i < 64 * n" if "i div 64 < n" for i n :: nat using that by (simp add: div_less_iff_less_mult mult.commute)
  ultimately show "bits_ok (init_from_masks ms)" by (auto simp: bits_ok_def init_from_masks_def MASK_SIZE_def bits_def mult.commute)
qed (simp add: init_from_masks_def MASK_SIZE_def)

lemma unbounded_returns:
  assumes b: "bits_ok b"
  shows "contains_unbounded i b = (Inr (0 \<le> i \<and> nat i \<in> bits b), b)"
    "\<exists>b'. set_unbounded i v b = (Inr (), b') \<and> bits_ok b' \<and> bit_length b' = bit_length b \<and>
       bits b' = (if 0 \<le> i \<and> i < int (bit_length b) then (if v then insert (nat i) (bits b) else bits b - {nat i}) else bits b)"
proof -
  show "contains_unbounded i b = (Inr (0 \<le> i \<and> nat i \<in> bits b), b)"
  proof (cases "i < 0 \<or> int (bit_length b) \<le> i")
    case True
    then have "\<not> (0 \<le> i \<and> nat i \<in> bits b)" using bits_bound [OF b, of "nat i"] by auto
    then show ?thesis using True by (simp add: contains_unbounded_def ret_apply)
  next
    case False
    then have "nat i < bit_length b" by linarith
    then show ?thesis using bit_contains_returns [OF b, of "nat i"] False by (simp add: contains_unbounded_def)
  qed
  show "\<exists>b'. set_unbounded i v b = (Inr (), b') \<and> bits_ok b' \<and> bit_length b' = bit_length b \<and>
       bits b' = (if 0 \<le> i \<and> i < int (bit_length b) then (if v then insert (nat i) (bits b) else bits b - {nat i}) else bits b)"
  proof (cases "i < 0 \<or> int (bit_length b) \<le> i")
    case False
    then have "nat i < bit_length b" by linarith
    then obtain b' where "bit_set (nat i) v b = (Inr ((nat i \<in> bits b) \<noteq> v), b')" "bits b' = (if v then insert (nat i) (bits b) else bits b - {nat i})"
      "bit_length b' = bit_length b" "bits_ok b'" using bit_set_returns [OF b, of "nat i" v] by auto
    then show ?thesis using False by (simp add: set_unbounded_def ret_apply)
  qed (use b in \<open>auto simp: set_unbounded_def ret_apply\<close>)
qed

section \<open>Iteration\<close>

text \<open>What an iterator has yet to visit: the rest of its mask, then the other masks.\<close>

definition bit_rest :: "Iter \<Rightarrow> nat list" where
  "bit_rest it =
     map (\<lambda>k. (it_i it - 1) * 64 + k) (mask_members (current_mask it)) @
     concat (map (\<lambda>i. map (\<lambda>k. i * 64 + k) (mask_members (bs_masks (it_set it) ! i XOR inversion it))) [it_i it..<length (bs_masks (it_set it))])"

definition iter_ok :: "Iter \<Rightarrow> bool" where
  "iter_ok it \<longleftrightarrow> bits_ok (it_set it)"

lemma iter_next_rest:
  assumes "iter_ok it"
  shows "case bit_rest it of
      [] \<Rightarrow> \<exists>it'. iter_next it = (Inr None, it')
    | j # js \<Rightarrow> \<exists>it'. iter_next it = (Inr (Some j), it') \<and> bit_rest it' = js \<and> iter_ok it'"
  using assms
proof (induction it rule: next_mask.induct)
  case (1 it)
  have len: "mask_len (bit_length (it_set it)) = length (bs_masks (it_set it))" using "1.prems" by (simp add: iter_ok_def bits_ok_def)
  show ?case
  proof (cases "current_mask it = 0")
    case False
    let ?it = "it\<lparr>current_mask := current_mask it AND (current_mask it - 1)\<rparr>"
    have "next_mask it = (Inr True, it)" using False by (subst next_mask.simps) simp
    then have "iter_next it = (Inr (Some ((it_i it - 1) * 64 + count_trailing_zeros (current_mask it))), ?it)"
      by (simp add: iter_next_def MASK_SIZE_def ret_apply)
    moreover have "bit_rest it = ((it_i it - 1) * 64 + count_trailing_zeros (current_mask it)) # bit_rest ?it"
      by (simp add: bit_rest_def mask_members_Cons [OF False])
    ultimately show ?thesis using "1.prems" by (simp add: iter_ok_def)
  next
    case mask: True
    show ?thesis
    proof (cases "it_i it < length (bs_masks (it_set it))")
      case True
      let ?it = "it\<lparr>current_mask := bs_masks (it_set it) ! it_i it XOR inversion it, it_i := it_i it + 1\<rparr>"
      have "next_mask it = next_mask ?it" using mask True len by (subst next_mask.simps) simp
      then have run: "iter_next it = iter_next ?it" by (simp add: iter_next_def bindM_def)
      have "[it_i it..<length (bs_masks (it_set it))] = it_i it # [Suc (it_i it)..<length (bs_masks (it_set it))]"
        using True by (simp add: upt_conv_Cons)
      then have rest: "bit_rest it = bit_rest ?it" by (simp add: bit_rest_def mask mask_members_0)
      show ?thesis using "1.IH" mask True len "1.prems" unfolding run rest by (simp add: iter_ok_def)
    next
      case False
      then have "next_mask it = (Inr False, it)" using mask len by (subst next_mask.simps) simp
      then show ?thesis using mask False by (simp add: bit_rest_def mask_members_0 iter_next_def ret_apply)
    qed
  qed
qed

lemma next_mask_set: "it_set (snd (next_mask it)) = it_set it"
  by (induction it rule: next_mask.induct) (subst next_mask.simps, simp)

lemma iter_next_set: "it_set (snd (iter_next it)) = it_set it"
  using next_mask_set [of it] by (auto simp: iter_next_def bindM_def ret_def getM_def modifyM_def split: prod.splits sum.splits)

interpretation bit: iterator iter_round "\<lambda>it js. iter_ok it \<and> bit_rest it = js"
proof
  fix it js
  show "iter_round it = None" if "iter_ok it \<and> bit_rest it = []" using iter_next_rest [of it] that by (auto simp: iter_round_def)
  show "\<exists>it'. iter_round it = Some (j, it') \<and> iter_ok it' \<and> bit_rest it' = js" if "iter_ok it \<and> bit_rest it = j # js" for j
    using iter_next_rest [of it] that by (auto simp: iter_round_def)
qed

lemma bit_iter_rest:
  assumes b: "bits_ok b"
  shows "iter_ok (bit_iter b v)" "bit_rest (bit_iter b v) = members b v"
proof -
  show "iter_ok (bit_iter b v)" using b by (simp add: iter_ok_def bit_iter_def)
  have "mask_members (m XOR inversion (bit_iter b v)) = filter (\<lambda>k. bit m k \<noteq> v) [0..<64]" for m
    unfolding mask_members_def by (rule filter_cong) (auto simp: bit_iter_def bit_xor_iff)
  then show "bit_rest (bit_iter b v) = members b v"
    unfolding members_blocks [OF b] bit_rest_def by (simp add: bit_iter_def mask_members_0)
qed

lemma members_absent:
  assumes b: "bits_ok b"
  shows "members b True = sorted_list_of_set ({..<64 * mask_len (bit_length b)} - bits b)"
proof -
  let ?xs = "members b True"
  have "set ?xs = {..<64 * mask_len (bit_length b)} - bits b" by (auto simp: members_def)
  moreover have "sorted ?xs" "distinct ?xs" by (simp_all add: members_def sorted_wrt_filter)
  ultimately show ?thesis by (metis sorted_list_of_set.idem_if_sorted_distinct)
qed

text \<open>
  C31: A loop over a bit set visits exactly its members, in increasing order, and \<^verbatim>\<open>pop_count\<close> and \<^verbatim>\<open>is_empty\<close> count the members. A loop over the
  complement visits exactly the numbers that are no members, in increasing order, up to the end of the last mask of 64 bits: also those between the length
  of the set and this end.
\<close>

theorem bit_iteration_visits_members:
  assumes b: "bits_ok b"
  shows "(\<forall>fuel \<ge> card (bits b). iterate iter_round fuel (bit_iter b False) = sorted_list_of_set (bits b)) \<and>
    (\<forall>fuel \<ge> 64 * mask_len (bit_length b). iterate iter_round fuel (bit_iter b True) =
       sorted_list_of_set ({..<64 * mask_len (bit_length b)} - bits b)) \<and>
    bit_pop_count b = (Inr (card (bits b)), b) \<and> is_empty b = (Inr (bits b = {}), b)"
proof -
  note rest = bit_iter_rest [OF b]
  have visits: "iterate iter_round fuel (bit_iter b v) = take fuel (members b v)" for fuel v using bit.visits rest by blast
  have "length (members b True) \<le> 64 * mask_len (bit_length b)" unfolding members_def by (metis length_filter_le length_upt diff_zero)
  then have "iterate iter_round fuel (bit_iter b True) = sorted_list_of_set ({..<64 * mask_len (bit_length b)} - bits b)"
    if "64 * mask_len (bit_length b) \<le> fuel" for fuel
    using that visits [of fuel True] members_absent [OF b] by simp
  then show ?thesis using visits [of _ False] members_sorted [OF b] pop_count_returns [OF b] is_empty_returns [OF b] by simp
qed

text \<open>The set of 0, 2 and 65.\<close>

theorem bit_iteration_visits_members_witness:
  "iterate iter_round 3 (bit_iter (init_from_masks [5, 2]) False) = [0, 2, 65] \<and>
   bit_pop_count (init_from_masks [5, 2]) = (Inr 3, init_from_masks [5, 2])"
proof -
  let ?b = "init_from_masks [5, 2]"
  have masks: "bs_masks ?b = [5, 2]" by (simp add: init_from_masks_def)
  have "concat (map (\<lambda>i. map (\<lambda>k. i * 64 + k) (filter (\<lambda>k. bit ([5, 2 :: u64] ! i) k \<noteq> False) [0..<64])) [0..<length [5, 2 :: u64]]) = [0, 2, 65]" by code_simp
  then have m: "sorted_list_of_set (bits ?b) = [0, 2, 65]"
    using members_sorted [OF from_masks_facts(1), of "[5, 2]"] members_blocks [OF from_masks_facts(1), of "[5, 2]" False] unfolding masks by metis
  then have "card (bits ?b) = 3" by (metis length_sorted_list_of_set length_Cons list.size(3) numeral_3_eq_3)
  then show ?thesis using bit_iteration_visits_members [OF from_masks_facts(1), of "[5, 2]"] m by simp
qed

end
