(* ===== verification/Verify.thy ===== *)
theory Verify
  imports Worklist_Laws Bit_Iter
begin

text \<open>
  \<^verbatim>\<open>verify\<close> of \<^verbatim>\<open>graph.odin\<close>, the check of a graph that the optimizer runs between its passes when assertions are on, and that it accepts
  every well-formed graph in which nothing is left over. It walks the interner's table, collects the nodes with a worklist, marks in a bit set the
  rows of the table that belong to a node, and looks at the rows that are left with an inverted iterator.
\<close>

section \<open>Operations\<close>

definition type_Loop :: u16 where
  "type_Loop = 5"

text \<open>The rows of the table; it is walked up to its capacity.\<close>

definition verify_rows :: "Node_Spec \<Rightarrow> unit gact" where
  "verify_rows sp =
     bindM (getM (\<lambda>g. zip (g_hashes g) (g_ids g))) (\<lambda>entries'.
     forM entries' (\<lambda>(hash, id').
       if hash = 0 then assertM (id' = 0) ''entry.id == 0''
       else
         bindM (g_expand_node id') (\<lambda>node'.
         bindM (has_flag sp (flag_interned sp) node') (\<lambda>flag.
         bindM (assertM flag ''has_flag(prc, node, .Interned)'') (\<lambda>_.
         assertM (hash = node_hash sp node') ''entry.hash == node_hash(prc, node)'')))))"

text \<open>What is checked of a node; \<open>seen\<close> are the rows of the table of the nodes before. The graph does not change.\<close>

definition verify_node :: "Node_Spec \<Rightarrow> graph \<Rightarrow> u32 \<Rightarrow> (Bit_Set, unit) prog" where
  "verify_node sp g n =
     bindM (liftM (fst (g_expand_node n g))) (\<lambda>node'.
     bindM (assertM (\<not> (node_outs node' = [] \<and> node_rtype node' \<noteq> 0)) ''a node without outputs'') (\<lambda>_.
     bindM (if node_rtype node' = type_Phi
            then
              bindM (assertM (node_inps node' \<noteq> []) ''index out of range'') (\<lambda>_.
              bindM (liftM (fst (g_get_node (node_inps node' ! 0) g))) (\<lambda>c.
              assertM (node_rtype c = type_Region \<or> node_rtype c = type_Loop) ''a phi without a region''))
            else ret ()) (\<lambda>_.
     bindM (liftM (fst (has_flag sp (flag_interned sp) node' g))) (\<lambda>flag.
     if flag \<and> \<not> g_dont_intern g
     then
       bindM (liftM (fst (interner_find sp n 0 g))) (\<lambda>(idx, _).
       bindM (expectM idx ''not in the interner'') (\<lambda>idx.
       bindM (bit_set idx True) (\<lambda>changed.
       assertM changed ''bit_arr.set(seen_intern_slots, idx)'')))
     else ret ()))))"

text \<open>The loop over the worklist; one round more than it has elements is enough.\<close>

primrec verify_loop :: "Node_Spec \<Rightarrow> graph \<Rightarrow> fault \<Rightarrow> nat \<Rightarrow> (Worklist \<times> Bit_Set, unit) prog" where
  "verify_loop sp g oof 0 = fail oof"
| "verify_loop sp g oof (Suc fuel) =
     bindM (\<lambda>(w, b). case worklist_next g w of (r, w') \<Rightarrow> (r, (w', b))) (\<lambda>n.
     case n of
       None \<Rightarrow> ret ()
     | Some n \<Rightarrow>
         bindM (\<lambda>(w, b). case verify_node sp g n b of (r, b') \<Rightarrow> (r, (w, b'))) (\<lambda>_.
         verify_loop sp g oof fuel))"

text \<open>
  The loop over the rows that no node was found for. The iterator has the masks of the set that it changes. A row
  whose node has no edges is tolerated; the two counts are 16-bit numbers.
\<close>

primrec verify_spare :: "graph \<Rightarrow> fault \<Rightarrow> nat \<Rightarrow> (Iter, unit) prog" where
  "verify_spare g oof 0 = fail oof"
| "verify_spare g oof (Suc fuel) =
     bindM iter_next (\<lambda>idx.
     case idx of
       None \<Rightarrow> ret ()
     | Some idx \<Rightarrow>
         bindM (getM (\<lambda>it. bit_length (it_set it))) (\<lambda>len.
         bindM (if idx < len
                then
                  bindM (assertM (idx < length (g_ids g)) ''index out of range'') (\<lambda>_.
                  bindM (liftM (fst (g_get_node (g_ids g ! idx) g))) (\<lambda>grub.
                  if of_nat (length (node_outs grub)) + of_nat (length (node_inps grub)) = (0 :: u16)
                  then (\<lambda>it. case bit_set idx True (it_set it) of (r, b) \<Rightarrow> (map_sum id (\<lambda>_. ()) r, it\<lparr>it_set := b\<rparr>))
                  else ret ()))
                else ret ()) (\<lambda>_.
         verify_spare g oof fuel)))"

definition verify_slots :: "graph \<Rightarrow> fault \<Rightarrow> (Bit_Set, unit) prog" where
  "verify_slots g oof = (\<lambda>b.
     case verify_spare g oof (64 * mask_len (bit_length b) + 1) (bit_iter b True) of
       (Inl e, it) \<Rightarrow> (Inl e, it_set it)
     | (Inr _, it) \<Rightarrow> bindM bit_pop_count (\<lambda>count. assertM (count = g_len g) ''pop_count(seen_intern_slots) == prc.interner.len'') (it_set it))"

definition collect_for_verify :: "fault \<Rightarrow> nat \<Rightarrow> u32 \<Rightarrow> u32 \<Rightarrow> Worklist gact" where
  "collect_for_verify oof fuel entry' end' = (\<lambda>g.
     case collect_nodes oof fuel entry' end' True (g, worklist_init 0) of (r, (g', w)) \<Rightarrow> (map_sum id (\<lambda>_. w) r, g'))"

definition verify :: "Node_Spec \<Rightarrow> fault \<Rightarrow> nat \<Rightarrow> u32 \<Rightarrow> u32 \<Rightarrow> unit gact" where
  "verify sp oof fuel entry' end' =
     bindM (getM g_dont_intern) (\<lambda>dont_intern.
     bindM (if \<not> dont_intern then verify_rows sp else ret ()) (\<lambda>_.
     bindM (getM (\<lambda>g. bit_init (g_len g))) (\<lambda>seen.
     bindM (collect_for_verify oof fuel entry' end') (\<lambda>wl.
     bindM (getM (\<lambda>g. verify_loop sp g oof (length (wl_queue wl) + 1) (wl, seen))) (\<lambda>(r, (_, seen)).
     bindM (liftM r) (\<lambda>_.
     if \<not> dont_intern
     then bindM (getM (\<lambda>g. fst (verify_slots g oof seen))) liftM
     else ret ()))))))"

section \<open>The table\<close>

text \<open>No row belongs to a dead node.\<close>

definition rows_live :: "graph \<Rightarrow> bool" where
  "rows_live g \<longleftrightarrow> (\<forall>(h, n) \<in> set (rows g). live g n)"

lemma forM_unit: "(\<And>x. x \<in> set xs \<Longrightarrow> f x s = (Inr (), s)) \<Longrightarrow> forM xs f s = (Inr (), s)"
  by (induction xs) (simp_all add: ret_apply)

lemma verify_rows_returns:
  assumes g: "graph_ok sp g" and live: "rows_live g"
  shows "verify_rows sp g = (Inr (), g)"
proof -
  note ok = graph_okD [OF g]
  have shape: "shape_ok g" and r: "rows_ok sp {} Map.empty g" using ok(2) by (simp_all add: table_ok_def)
  have zero: "g_nodes g 0 = None" by (rule nil_no_node [OF ok(1)])
  have step: "(if h = 0 then assertM (n = 0) ''entry.id == 0''
       else bindM (g_expand_node n) (\<lambda>x. bindM (has_flag sp (flag_interned sp) x) (\<lambda>flag.
         bindM (assertM flag ''has_flag(prc, node, .Interned)'') (\<lambda>_. assertM (h = node_hash sp x) ''entry.hash == node_hash(prc, node)'')))) g = (Inr (), g)"
    if hn: "(h, n) \<in> set (zip (g_hashes g) (g_ids g))" for h n
  proof -
    obtain j where j: "j < length (g_hashes g)" "h = g_hashes g ! j" "n = g_ids g ! j" using hn by (auto simp: set_zip)
    show ?thesis
    proof (cases "j < g_len g")
      case True
      note row = row_nth(3) [OF shape True, folded j(2,3)]
      have l: "live g n" using live row by (auto simp: rows_live_def)
      then obtain x where x: "g_nodes g n = Some x" "node_rtype x \<noteq> DEAD_NODE_KIND" using live_node by blast
      have i: "interned sp g n" "h = value_hash sp (value_of g n)" using rows_okD(2,3) [OF r row l] by simp_all
      have h: "h = node_hash sp x" "h \<noteq> 0" using i value_hash_node [OF x(1)] interned_hash [OF i(1)] by simp_all
      have "n \<noteq> 0" "flag_interned sp (node_rtype x)" using x zero i(1) by (auto simp: interned_def kind_of_def)
      then show ?thesis
        using h x known_type [OF ok(3) x(1)] by (simp add: g_expand_node_def g_get_node_some has_flag_def ret_apply)
    next
      case False
      then have "h = 0" "n = 0" using shape j by (auto simp: shape_ok_def)
      then show ?thesis by (simp add: ret_apply)
    qed
  qed
  then show ?thesis unfolding verify_rows_def by (auto intro!: forM_unit)
qed

text \<open>The row of a node.\<close>

lemma row_found:
  assumes g: "graph_ok sp g" and n: "interned sp g n"
  shows "\<exists>j. find_pos g n (value_hash sp (value_of g n)) = Some j \<and> j < g_len g \<and> g_ids g ! j = n"
proof -
  note ok = graph_okD [OF g]
  have r: "rows_ok sp {} Map.empty g" using ok(2) by (simp add: table_ok_def)
  have ent: "n \<in> entries g" using rows_okD(6) [OF r] n by simp
  then obtain j where j: "find_pos g n (value_hash sp (value_of g n)) = Some j" using find_pos_None [OF ok(2) _ ent] by fastforce
  note s = find_pos_Some [OF ok(2) n j]
  have "g_ids g ! j = n" using inj_onD [OF rows_okD(5) [OF r], of "g_ids g ! j" n] s(2,3) ent by simp
  then show ?thesis using j s(1) by blast
qed

definition slot_of :: "Node_Spec \<Rightarrow> graph \<Rightarrow> u32 \<Rightarrow> nat" where
  "slot_of sp g n = the (find_pos g n (value_hash sp (value_of g n)))"

lemma slot_of_row:
  assumes "graph_ok sp g" "interned sp g n"
  shows "find_pos g n (value_hash sp (value_of g n)) = Some (slot_of sp g n)" "slot_of sp g n < g_len g" "g_ids g ! slot_of sp g n = n"
  using row_found [OF assms] by (auto simp: slot_of_def)

section \<open>The nodes\<close>

text \<open>A node as \<^verbatim>\<open>verify\<close> wants it: it is used, and a phi belongs to a region.\<close>

definition tidy :: "graph \<Rightarrow> u32 \<Rightarrow> bool" where
  "tidy g n \<longleftrightarrow> live g n \<and> outs g n \<noteq> [] \<and>
     (fst (kind_of g n) = type_Phi \<longrightarrow> ins g n \<noteq> [] \<and> live g (ins g n ! 0) \<and> fst (kind_of g (ins g n ! 0)) \<in> {type_Region, type_Loop})"

lemma g_get_live:
  assumes "live g n" "g_nodes g 0 = None"
  shows "\<exists>x. g_nodes g n = Some x \<and> g_get_node n g = (Inr x, g) \<and> g_expand_node n g = (Inr x, g) \<and> node_rtype x = fst (kind_of g n) \<and>
    node_outs x = outs g n \<and> node_inps x = ins g n"
proof -
  obtain x where x: "g_nodes g n = Some x" "node_rtype x \<noteq> DEAD_NODE_KIND" using live_node [OF assms(1)] by blast
  moreover have "n \<noteq> 0" using x assms(2) by auto
  ultimately show ?thesis by (simp add: g_expand_node_def g_get_node_some kind_of_def outs_def ins_def ret_apply)
qed

lemma verify_node_returns:
  assumes g: "graph_ok sp g" and n: "tidy g n" and b: "bits_ok b" "bit_length b = g_len g" "interned sp g n \<Longrightarrow> slot_of sp g n \<notin> bits b"
  shows "\<exists>b'. verify_node sp g n b = (Inr (), b') \<and> bits_ok b' \<and> bit_length b' = g_len g \<and>
    bits b' = bits b \<union> (if interned sp g n then {slot_of sp g n} else {})"
proof -
  note ok = graph_okD [OF g]
  have zero: "g_nodes g 0 = None" by (rule nil_no_node [OF ok(1)])
  have l: "live g n" using n by (simp add: tidy_def)
  obtain x where x: "g_nodes g n = Some x" "g_expand_node n g = (Inr x, g)" "node_rtype x = fst (kind_of g n)" "node_outs x = outs g n" "node_inps x = ins g n"
    using g_get_live [OF l zero] by blast
  have flag: "has_flag sp (flag_interned sp) x g = (Inr (interned sp g n), g)"
    using known_type [OF ok(3) x(1)] l x(1,3) by (auto simp: has_flag_def interned_def live_def ret_apply)
  have phi: "(if node_rtype x = type_Phi
      then bindM (assertM (node_inps x \<noteq> []) ''index out of range'') (\<lambda>_. bindM (liftM (fst (g_get_node (node_inps x ! 0) g))) (\<lambda>c.
        assertM (node_rtype c = type_Region \<or> node_rtype c = type_Loop) ''a phi without a region'')) else ret ()) b = (Inr (), b)"
  proof (cases "node_rtype x = type_Phi")
    case True
    then have p: "ins g n \<noteq> []" "live g (ins g n ! 0)" "fst (kind_of g (ins g n ! 0)) \<in> {type_Region, type_Loop}" using n x(3) by (auto simp: tidy_def)
    then show ?thesis using True x(5) g_get_live [OF p(2) zero] by (auto simp: liftM_apply ret_apply)
  qed (simp add: ret_apply)
  let ?rest = "\<lambda>flag :: bool. if flag \<and> \<not> g_dont_intern g
      then bindM (liftM (fst (interner_find sp n 0 g))) (\<lambda>(idx, _). bindM (expectM idx ''not in the interner'') (\<lambda>idx.
        bindM (bit_set idx True) (\<lambda>changed. assertM changed ''bit_arr.set(seen_intern_slots, idx)'')))
      else ret ()"
  have run: "verify_node sp g n b = ?rest (interned sp g n) b"
    using x(2,4) n flag phi by (simp add: verify_node_def tidy_def liftM_apply)
  show ?thesis
  proof (cases "interned sp g n")
    case True
    note slot = slot_of_row [OF g True]
    obtain b' where b': "bit_set (slot_of sp g n) True b = (Inr True, b')" "bits b' = insert (slot_of sp g n) (bits b)" "bit_length b' = bit_length b" "bits_ok b'"
      using bit_set_returns [OF b(1), of "slot_of sp g n" True] slot(2) b(2,3) True by auto
    have "?rest True b = (Inr (), b')"
      using ok(5) interner_find_returns [OF ok(2) True zero] slot(1) b'(1) by (simp add: liftM_apply ret_apply)
    then show ?thesis using run True b' b(2) by auto
  next
    case False
    then show ?thesis using run b by (simp add: ret_apply)
  qed
qed

lemma verify_nil:
  assumes "\<not> flag_interned sp 0" "0 < type_count sp"
  shows "verify_node sp g 0 b = (Inr (), b)"
  using assms
  by (simp add: verify_node_def g_expand_node_def g_get_node_def NIL_NODE_def DEAD_NODE_KIND_def type_Phi_def has_flag_def liftM_apply ret_apply)

lemma verify_loop_returns:
  assumes g: "graph_ok sp g" "\<not> flag_interned sp 0" "0 < type_count sp"
    and q: "\<forall>n \<in> set q. n = 0 \<or> tidy g n" "distinct q" "\<forall>n \<in> set q. interned sp g n \<longrightarrow> slot_of sp g n \<notin> bits b"
    and w: "wl_bounded (gvn_of g) D w" "steady (gvn_of g) D (Next g)" "wl_queue w = q"
    and b: "bits_ok b" "bit_length b = g_len g"
  shows "\<exists>w' b'. verify_loop sp g oof (Suc (length q)) (w, b) = (Inr (), (w', b')) \<and> bits_ok b' \<and> bit_length b' = g_len g \<and>
    bits b' = bits b \<union> slot_of sp g ` {n \<in> set q. interned sp g n}"
  using q w b
proof (induction q arbitrary: w b)
  case Nil
  then show ?case by (simp add: worklist_next_def ret_apply)
next
  case (Cons n q)
  have n: "n = 0 \<or> tidy g n" "queued g n" using Cons.prems(1) by (auto simp: queued_def tidy_def)
  obtain r w1 where r: "worklist_pop g (n # q) w = (Inr r, w1)" "wl_bounded (gvn_of g) D w1"
    "case r of None \<Rightarrow> \<forall>m \<in> set (n # q). \<not> queued g m
     | Some m \<Rightarrow> \<exists>dead. n # q = dead @ m # wl_queue w1 \<and> queued g m \<and> (\<forall>m \<in> set dead. \<not> queued g m)"
    using pop_returns [OF Cons.prems(4,5,6)] by blast
  have "r = Some n \<and> wl_queue w1 = q" using r(3) n(2) by (cases r) (auto simp: Cons_eq_append_conv)
  then have nxt: "worklist_next g w = (Inr (Some n), w1)" "wl_queue w1 = q" using r(1) Cons.prems(6) by (auto simp: worklist_next_def)
  obtain b1 where b1: "verify_node sp g n b = (Inr (), b1)" "bits_ok b1" "bit_length b1 = g_len g" "bits b1 = bits b \<union> (if interned sp g n then {slot_of sp g n} else {})"
  proof (cases "n = 0")
    case True
    have "\<not> interned sp g 0" using nil_no_node [OF graph_okD(1) [OF g(1)]] by (simp add: interned_def live_def)
    then show ?thesis using that [of b] verify_nil [OF g(2,3)] True Cons.prems(7,8) by simp
  next
    case False
    then have "tidy g n" "interned sp g n \<Longrightarrow> slot_of sp g n \<notin> bits b" using n(1) Cons.prems(3) by simp_all
    then show ?thesis using that verify_node_returns [OF g(1) _ Cons.prems(7,8)] by blast
  qed
  have fresh: "slot_of sp g m \<notin> bits b1" if m: "m \<in> set q" "interned sp g m" for m
  proof -
    have "slot_of sp g m \<noteq> slot_of sp g n" if "interned sp g n"
    proof
      assume "slot_of sp g m = slot_of sp g n"
      then have "m = n" using slot_of_row(3) [OF g(1) m(2)] slot_of_row(3) [OF g(1) that] by metis
      then show False using m(1) Cons.prems(2) by simp
    qed
    then show ?thesis using b1(4) Cons.prems(3) m by simp
  qed
  obtain w' b' where e: "verify_loop sp g oof (Suc (length q)) (w1, b1) = (Inr (), (w', b'))" "bits_ok b'" "bit_length b' = g_len g"
    "bits b' = bits b1 \<union> slot_of sp g ` {n \<in> set q. interned sp g n}"
    using Cons.IH [of b1 w1] Cons.prems(1,2,5) fresh r(2) nxt(2) b1(2,3) by auto
  have "verify_loop sp g oof (Suc (length (n # q))) (w, b) = (Inr (), (w', b'))"
    using nxt(1) b1(1) e(1) by (subst verify_loop.simps) (simp del: verify_loop.simps)
  then show ?case using e b1(4) by (intro exI [of _ w'] exI [of _ b']) auto
qed

section \<open>The slots\<close>

lemma verify_spare_returns:
  assumes "iter_ok it" "\<forall>j \<in> set (bit_rest it). bit_length (it_set it) \<le> j" "length (bit_rest it) < fuel"
  shows "\<exists>it'. verify_spare g oof fuel it = (Inr (), it') \<and> it_set it' = it_set it"
  using assms
proof (induction fuel arbitrary: it)
  case (Suc fuel)
  show ?case
  proof (cases "bit_rest it")
    case Nil
    then obtain it' where "iter_next it = (Inr None, it')" "it_set it' = it_set it" using iter_next_rest [OF Suc.prems(1)] iter_next_set [of it] by (auto split: prod.splits)
    then show ?thesis by (simp add: ret_apply)
  next
    case (Cons j js)
    then obtain it' where it': "iter_next it = (Inr (Some j), it')" "bit_rest it' = js" "iter_ok it'" "it_set it' = it_set it"
      using iter_next_rest [OF Suc.prems(1)] iter_next_set [of it] by (auto split: prod.splits)
    moreover have "\<not> j < bit_length (it_set it')" using Suc.prems(2) Cons it'(4) by auto
    ultimately show ?thesis using Suc.IH [of it'] Suc.prems(2,3) Cons by (auto simp: ret_apply)
  qed
qed simp

lemma verify_slots_returns:
  assumes b: "bits_ok b" "bits b = {..<bit_length b}" "bit_length b = g_len g"
  shows "verify_slots g oof b = (Inr (), b)"
proof -
  have "length (members b True) \<le> 64 * mask_len (bit_length b)" unfolding members_def by (metis length_filter_le length_upt diff_zero)
  moreover have "\<forall>j \<in> set (members b True). bit_length b \<le> j" using b(2) by (auto simp: members_def)
  moreover have "it_set (bit_iter b True) = b" by (simp add: bit_iter_def)
  ultimately obtain it where "verify_spare g oof (64 * mask_len (bit_length b) + 1) (bit_iter b True) = (Inr (), it)" "it_set it = b"
    using verify_spare_returns [OF bit_iter_rest(1) [OF b(1)], of True "64 * mask_len (bit_length b) + 1" g oof] bit_iter_rest(2) [OF b(1), of True] by auto
  then show ?thesis using pop_count_returns [OF b(1)] b(2,3) by (simp add: verify_slots_def ret_apply)
qed

text \<open>When no row is left over, the rows are those of the interned nodes.\<close>

lemma slots_filled:
  assumes g: "graph_ok sp g" and live: "rows_live g"
  shows "slot_of sp g ` {n. interned sp g n} = {..<g_len g}"
proof -
  note ok = graph_okD [OF g]
  have shape: "shape_ok g" and r: "rows_ok sp {} Map.empty g" using ok(2) by (simp_all add: table_ok_def)
  have "filter (live g) (map snd (rows g)) = map snd (rows g)" using live by (auto simp: rows_live_def filter_id_conv)
  then have d: "distinct (map snd (rows g))" using rows_okD(4) [OF r] by simp
  have "entries g = set (map snd (rows g))" using live by (auto simp: entries_def rows_live_def)
  then have "card {n. interned sp g n} = g_len g"
    using rows_okD(6) [OF r] distinct_card [OF d] length_rows [OF shape] by simp
  moreover have "inj_on (slot_of sp g) {n. interned sp g n}"
    by (rule inj_on_inverseI [of _ "\<lambda>j. g_ids g ! j"]) (use slot_of_row(3) [OF g] in simp)
  ultimately have "card (slot_of sp g ` {n. interned sp g n}) = card {..<g_len g}" by (simp add: card_image)
  moreover have "slot_of sp g ` {n. interned sp g n} \<subseteq> {..<g_len g}" using slot_of_row(2) [OF g] by auto
  ultimately show ?thesis by (intro card_subset_eq) simp_all
qed

section \<open>The property\<close>

text \<open>A graph in which everything hangs together: every node that can be reached is tidy, and no other is interned.\<close>

definition all_tidy :: "Node_Spec \<Rightarrow> graph \<Rightarrow> u32 \<Rightarrow> u32 \<Rightarrow> bool" where
  "all_tidy sp g e f \<longleftrightarrow> (\<forall>n. (next_to g)\<^sup>*\<^sup>* e n \<or> (next_to g)\<^sup>*\<^sup>* f n \<longrightarrow> tidy g n) \<and>
     (\<forall>n. interned sp g n \<longrightarrow> (next_to g)\<^sup>*\<^sup>* e n \<or> (next_to g)\<^sup>*\<^sup>* f n)"

lemma verify_walk:
  assumes g: "graph_ok sp g" "\<not> flag_interned sp 0" "0 < type_count sp" "rows_live g"
    and ids: "distinct ids" "0 \<notin> set ids" "\<forall>n \<in> set ids. tidy g n" "{n. interned sp g n} \<subseteq> set ids" "length ids < 2 ^ 26"
    and gv: "\<forall>k < length ids. gvn_of g (ids ! k) = Suc k"
    and w: "wl_queue w = 0 # ids" "bits_ok (in_queue w)" "bits (in_queue w) = {..length ids}"
  shows "\<exists>w' b. verify_loop sp g oof (length (wl_queue w) + 1) (w, bit_init (g_len g)) = (Inr (), (w', b)) \<and> verify_slots g oof b = (Inr (), b)"
proof -
  have num: "gvn_of g n \<le> length ids" if n: "n \<in> set (0 # ids)" for n
  proof (cases "n = 0")
    case False
    then obtain k where "k < length ids" "n = ids ! k" using n by (auto simp: in_set_conv_nth)
    then show ?thesis using gv by simp
  qed (simp add: gvn_of_def)
  have len: "length ids < bit_length (in_queue w)" using w(2,3) by (auto simp: bits_ok_def)
  have "\<forall>n \<in> set (0 # ids). known g n" using ids(3) live_node [of g] by (fastforce simp: known_def tidy_def)
  then have st: "steady (gvn_of g) (set (0 # ids)) (Next g)" using num ids(5) by (auto simp: steady_def dest: le_less_trans)
  have wb: "wl_bounded (gvn_of g) (set (0 # ids)) w" using w num len by (auto simp: wl_bounded_def dest: le_less_trans)
  note init = bit_init_facts [of "g_len g"]
  have q: "\<forall>n \<in> set (0 # ids). n = 0 \<or> tidy g n" "distinct (0 # ids)" "\<forall>n \<in> set (0 # ids). interned sp g n \<longrightarrow> slot_of sp g n \<notin> bits (bit_init (g_len g))"
    using ids init by auto
  obtain w' b where r: "verify_loop sp g oof (Suc (length (0 # ids))) (w, bit_init (g_len g)) = (Inr (), (w', b))" "bits_ok b" "bit_length b = g_len g"
    "bits b = bits (bit_init (g_len g)) \<union> slot_of sp g ` {n \<in> set (0 # ids). interned sp g n}"
    using verify_loop_returns [OF g(1-3) q wb st w(1) init(3,2)] by blast
  have "{n \<in> set (0 # ids). interned sp g n} = {n. interned sp g n}" using ids(4) by auto
  then have "bits b = {..<bit_length b}" using r(3,4) init(1) slots_filled [OF g(1,4)] by simp
  then show ?thesis using r(1-3) w(1) verify_slots_returns by auto
qed

text \<open>
  C12: \<^verbatim>\<open>verify\<close>, the optimizer's own check, returns on every well-formed graph in which the nodes have distinct numbers, every node
  connected to the entry or the end is used, phis belong to regions, and the interner holds live, connected nodes only. Nothing
  changes but the numbers of nodes.
\<close>

theorem verify_accepts_tidy_graphs:
  assumes g: "graph_ok sp g" "gvns_ok g" and e: "live g e" "fst (kind_of g e) = type_Entry" "live g f" "fst (kind_of g f) = type_End"
    and tidy: "all_tidy sp g e f" "rows_live g" "\<not> flag_interned sp 0" and fuel: "card {n. live g n} < fuel"
  shows "\<exists>g'. verify sp oof fuel e f g = (Inr (), g') \<and> only_gvns g g' \<and> graph_ok sp g'"
proof -
  note ok = graph_okD [OF g(1)] and init = bit_init_facts [of 0]
  obtain x where x: "g_nodes g e = Some x" "node_rtype x \<noteq> DEAD_NODE_KIND" using live_node [OF e(1)] by blast
  have types: "0 < type_count sp" using known_type [OF ok(3) x] by simp
  have w0: "wl_queue (worklist_init 0) = []" "bits_ok (in_queue (worklist_init 0))" "bits (in_queue (worklist_init 0)) = {}"
    using init by (simp_all add: worklist_init_def)
  obtain ids g' w where c: "collect_nodes oof fuel e f True (g, worklist_init 0) = (Inr (), (g', w))" "wl_queue w = 0 # ids" "distinct ids"
    "set ids = {n. (next_to g)\<^sup>*\<^sup>* e n \<or> (next_to g)\<^sup>*\<^sup>* f n}" "\<forall>k < length ids. gvn_of g' (ids ! k) = Suc k" "only_gvns g g'"
    "\<forall>n \<in> set ids. live g n" "bits_ok (in_queue w)" "bits (in_queue w) = {..length ids}" "length ids < 2 ^ 26"
    using collect_returns [OF g e w0 fuel] by blast
  note v = only_gvns_views [OF c(6)] and ok' = only_gvns_ok [OF g(1) c(6)]
  have tab: "g_len g' = g_len g" "rows g' = rows g" "g_dont_intern g' = g_dont_intern g" using c(6) by (simp_all add: only_gvns_def rows_def)
  have "rows_live g'" using tidy(2) v(1) tab(2) by (simp add: rows_live_def)
  moreover have "0 \<notin> set ids" using c(7) nil_no_node [OF ok(1)] by (auto simp: live_def)
  moreover have "\<forall>n \<in> set ids. tidy g' n" using tidy(1) c(4) unfolding all_tidy_def tidy_def v by blast
  moreover have "{n. interned sp g' n} \<subseteq> set ids" using tidy(1) c(4) unfolding all_tidy_def v by blast
  ultimately obtain w' b where walk: "verify_loop sp g' oof (length (wl_queue w) + 1) (w, bit_init (g_len g')) = (Inr (), (w', b))" "verify_slots g' oof b = (Inr (), b)"
    using verify_walk [OF ok' tidy(3) types _ c(3) _ _ _ c(10,5,2,8,9)] by blast
  have "collect_for_verify oof fuel e f g = (Inr w, g')" using c(1) by (simp add: collect_for_verify_def)
  then have "verify sp oof fuel e f g = (Inr (), g')"
    using verify_rows_returns [OF g(1) tidy(2)] walk tab ok(5) by (simp add: verify_def liftM_apply)
  then show ?thesis using c(6) ok' by blast
qed

text \<open>The entry, an interned constant and the end, which uses both and is pinned.\<close>

definition small_const :: node where
  "small_const = \<lparr>node_rtype = 27, node_meta = 5, node_gvn = 3, node_extra_dwords = 0, node_inps = [], node_input_cap = 0,
     node_outs = [(32, 1)], node_output_cap = 2, node_extra = [5, 0]\<rparr>"

definition small_graph :: graph where
  "small_graph = (blank_graph 1048576 False)\<lparr>g_nodes :=
     [16 \<mapsto> NIL_NODE\<lparr>node_rtype := 1, node_gvn := 1, node_outs := [(32, 0)], node_output_cap := 2\<rparr>,
      32 \<mapsto> NIL_NODE\<lparr>node_rtype := 7, node_gvn := 2, node_inps := [16, 64], node_input_cap := 2, node_outs := [(0, 0)], node_output_cap := 2\<rparr>,
      64 \<mapsto> small_const],
     g_pos := 512, g_hashes := node_hash tiny_spec small_const # replicate 15 0, g_ids := 64 # replicate 15 0, g_len := 1\<rparr>"

lemma small_views:
  "live small_graph n \<longleftrightarrow> n = 16 \<or> n = 32 \<or> n = 64" "ins small_graph n = (if n = 32 then [16, 64] else [])"
  "outs small_graph n = (if n = 16 then [(32, 0)] else if n = 32 then [(0, 0)] else if n = 64 then [(32, 1)] else [])"
  "kind_of small_graph n = (if n = 16 then (1, 0, []) else if n = 32 then (7, 0, []) else if n = 64 then (27, 5, [5, 0]) else (0, 0, []))"
  "g_nodes small_graph n = None \<longleftrightarrow> n \<noteq> 16 \<and> n \<noteq> 32 \<and> n \<noteq> 64"
  "gvn_of small_graph n = (if n = 16 then 1 else if n = 32 then 2 else if n = 64 then 3 else 0)"
  by (auto simp: live_def ins_def outs_def kind_of_def gvn_of_def small_graph_def small_const_def NIL_NODE_def DEAD_NODE_KIND_def)

lemma small_interned: "interned tiny_spec small_graph n \<longleftrightarrow> n = 64"
  by (auto simp: interned_def small_views tiny_spec_def)

lemma small_rows: "rows small_graph = [(node_hash tiny_spec small_const, 64)]"
  by (simp add: rows_def small_graph_def)

lemma small_ok: "graph_ok tiny_spec small_graph" "gvns_ok small_graph"
proof -
  have h: "node_hash tiny_spec small_const = value_hash tiny_spec (value_of small_graph 64)" by (rule value_hash_node) (simp add: small_graph_def)
  have ent: "entries small_graph = {64}" by (auto simp: entries_def small_rows small_views)
  have "shape_ok small_graph" by (auto simp: shape_ok_def small_graph_def nth_Cons split: nat.splits)
  moreover have "rows_ok tiny_spec {} Map.empty small_graph" unfolding rows_ok_def ent using h by (auto simp: small_rows small_interned small_views)
  moreover have "edges_agree {} small_graph" unfolding edges_agree_def edges_match_def small_views by (auto simp: less_Suc_eq nth_Cons split: if_splits nat.splits)
  moreover have "nodes_ok tiny_spec small_graph"
    unfolding nodes_ok_def node_ok_def by (auto simp: small_graph_def small_const_def NIL_NODE_def tiny_spec_def split: if_splits)
  ultimately show "graph_ok tiny_spec small_graph" by (simp add: graph_ok_def graph_inv_def table_ok_def) (simp add: small_graph_def blank_graph_def)
  show "gvns_ok small_graph" by (auto simp: gvns_ok_def small_views inj_on_def)
qed

theorem verify_accepts_tidy_graphs_witness:
  "\<exists>g'. verify tiny_spec (Ub ''fuel'') 4 16 32 small_graph = (Inr (), g')"
proof -
  have "{n. live small_graph n} = {16, 32, 64}" by (auto simp: small_views)
  then have fuel: "card {n. live small_graph n} < 4" by simp
  have reach: "n = 16 \<or> n = 32 \<or> n = 64" if "(next_to small_graph)\<^sup>*\<^sup>* m n" "m = 16 \<or> m = 32" for m n
    using that by (induction rule: rtranclp_induct) (auto simp: next_to_def small_views split: if_splits)
  have "next_to small_graph 32 64" by (simp add: next_to_def small_views)
  then have "(next_to small_graph)\<^sup>*\<^sup>* 32 64" by blast
  moreover have "tidy small_graph 16" "tidy small_graph 32" "tidy small_graph 64" by (simp_all add: tidy_def small_views type_Phi_def)
  ultimately have "all_tidy tiny_spec small_graph 16 32" using reach unfolding all_tidy_def small_interned by blast
  moreover have "rows_live small_graph" by (simp add: rows_live_def small_rows small_views)
  moreover have "\<not> flag_interned tiny_spec 0" by (simp add: tiny_spec_def)
  ultimately show ?thesis
    using verify_accepts_tidy_graphs [OF small_ok, of 16 32 4 "Ub ''fuel''"] fuel by (fastforce simp: small_views type_Entry_def type_End_def)
qed

end
