(* ===== verification/Alias.thy ===== *)
theory Alias
  imports Graph_Laws
begin

text \<open>
  The analysis of addresses in \<^verbatim>\<open>graph.odin\<close>: which base and which offset a pointer has, and whether two pointers
  or two operations on memory are apart. The optimizer moves and drops loads and stores on its word.
  It is proved against what the values of the nodes are when the program runs: 64-bit words that
  wrap around. Offsets and sizes are Odin's \<^verbatim>\<open>int\<close>, 64-bit words read as signed numbers.
\<close>

section \<open>Operations\<close>

definition type_Add :: u16 where
  "type_Add = 28"

definition type_Local_Addr :: u16 where
  "type_Local_Addr = 53"

definition type_Global_Addr :: u16 where
  "type_Global_Addr = 54"

definition type_Copy :: u16 where
  "type_Copy = 56"

definition type_Set :: u16 where
  "type_Set = 57"

definition type_Store :: u16 where
  "type_Store = 58"

definition type_Load :: u16 where
  "type_Load = 59"

text \<open>\<^verbatim>\<open>Node_Datatype\<close>, the low four bits of the metadata.\<close>

definition node_dt :: "node \<Rightarrow> u16" where
  "node_dt n = take_bit 4 (node_meta n)"

definition dt_I64 :: u16 where
  "dt_I64 = 5"

definition in_INT_DTS :: "u16 \<Rightarrow> bool" where
  "in_INT_DTS dt \<longleftrightarrow> 2 \<le> dt \<and> dt \<le> 5"

definition DT_SIZE :: "nat list" where
  "DT_SIZE = [0, 0, 1, 2, 4, 8, 4, 8, 16, 32, 64]"

definition dt_size :: "u16 \<Rightarrow> u64 gact" where
  "dt_size dt =
     bindM (assertM (unat dt < length DT_SIZE) ''index out of range'') (\<lambda>_.
     ret (of_nat (DT_SIZE ! unat dt)))"

text \<open>The \<open>i\<close>-th of a node's inputs; a slice checks its index.\<close>

definition input_at :: "node \<Rightarrow> nat \<Rightarrow> u32 gact" where
  "input_at n i =
     bindM (assertM (i < length (node_inps n)) ''index out of range'') (\<lambda>_.
     ret (node_inps n ! i))"

text \<open>\<^verbatim>\<open>get_extra(prc, id, CInt)\<close> and its field \<^verbatim>\<open>value\<close>: nothing for a node that is no constant.\<close>

definition cint_value :: "node \<Rightarrow> u64" where
  "cint_value n = ucast (node_extra n ! 0) OR push_bit 32 (ucast (node_extra n ! 1))"

definition get_cint :: "Node_Spec \<Rightarrow> u32 \<Rightarrow> u64 option gact" where
  "get_cint sp id' =
     bindM (g_get_node id') (\<lambda>n.
     bindM (assertM (unat (node_rtype n) < type_count sp) ''node.rtype < len(inheritance_table)'') (\<lambda>_.
     if \<not> inherits_cint sp (node_rtype n) then ret None
     else
       bindM (requireM (2 \<le> length (node_extra n)) ''read past the node'') (\<lambda>_.
       ret (Some (cint_value n)))))"

text \<open>
  \<^verbatim>\<open>base_and_offset\<close>: from an addition of a constant to its other operand, as long as there is one. The loop has
  fuel, and \<open>oof\<close> is what happens without: a graph may have additions in a circle.
\<close>

primrec base_and_offset_loop :: "Node_Spec \<Rightarrow> fault \<Rightarrow> nat \<Rightarrow> u32 \<Rightarrow> u64 \<Rightarrow> (u32 \<times> u64) gact" where
  "base_and_offset_loop sp oof 0 base off = fail oof"
| "base_and_offset_loop sp oof (Suc fuel) base off =
     bindM (g_expand_node base) (\<lambda>bnode.
     if node_rtype bnode = type_Add \<and> in_INT_DTS (node_dt bnode)
     then
       bindM (input_at bnode 1) (\<lambda>rhs.
       bindM (get_cint sp rhs) (\<lambda>lhs_const.
       case lhs_const of
         None \<Rightarrow> ret (base, off)
       | Some c \<Rightarrow>
           bindM (input_at bnode 0) (\<lambda>lhs.
           base_and_offset_loop sp oof fuel lhs (off + c))))
     else ret (base, off))"

definition base_and_offset :: "Node_Spec \<Rightarrow> fault \<Rightarrow> nat \<Rightarrow> u32 \<Rightarrow> (u32 \<times> u64) gact" where
  "base_and_offset sp oof fuel id' = base_and_offset_loop sp oof fuel id' 0"

definition is_noalias_ptrs :: "Node_Spec \<Rightarrow> fault \<Rightarrow> nat \<Rightarrow> u32 \<Rightarrow> u32 \<Rightarrow> u64 \<Rightarrow> u64 \<Rightarrow> bool gact" where
  "is_noalias_ptrs sp oof fuel a b as bs =
     bindM (base_and_offset sp oof fuel a) (\<lambda>(abase, aoffset).
     bindM (base_and_offset sp oof fuel b) (\<lambda>(bbase, boffset).
     if abase = bbase
     then
       let aend = aoffset + as; bend = boffset + bs
       in ret (sint bend \<le> sint aoffset \<or> sint aend \<le> sint boffset)
     else ret False))"

text \<open>The size of the memory that an operation touches; a copy or fill of unknown size is taken to be at most \<open>2 ^ 30\<close> bytes long.\<close>

definition mem_op_size :: "Node_Spec \<Rightarrow> u32 \<Rightarrow> u64 option gact" where
  "mem_op_size sp n =
     bindM (g_expand_node n) (\<lambda>node.
     if node_rtype node = type_Store
     then
       bindM (input_at node 3) (\<lambda>v.
       bindM (g_get_node v) (\<lambda>vnode.
       bindM (dt_size (node_dt vnode)) (\<lambda>s.
       ret (Some s))))
     else if node_rtype node = type_Load
     then
       bindM (dt_size (node_dt node)) (\<lambda>s.
       ret (Some s))
     else if node_rtype node = type_Set \<or> node_rtype node = type_Copy
     then
       bindM (input_at node 4) (\<lambda>c.
       bindM (get_cint sp c) (\<lambda>size_cnst.
       ret (Some (case size_cnst of None \<Rightarrow> 2 ^ 30 | Some v \<Rightarrow> v))))
     else ret None)"

text \<open>One round of the loop in \<^verbatim>\<open>is_noalias_ops\<close>: the size of an operation and the address it works on.\<close>

definition op_span :: "Node_Spec \<Rightarrow> u32 \<Rightarrow> (u64 \<times> u32) option gact" where
  "op_span sp n =
     bindM (g_expand_node n) (\<lambda>node.
     bindM (mem_op_size sp n) (\<lambda>size'.
     case size' of
       None \<Rightarrow> ret None
     | Some s \<Rightarrow>
         bindM (input_at node 2) (\<lambda>p.
         ret (Some (s, p)))))"

definition is_noalias_ops :: "Node_Spec \<Rightarrow> fault \<Rightarrow> nat \<Rightarrow> u32 \<Rightarrow> u32 \<Rightarrow> bool gact" where
  "is_noalias_ops sp oof fuel a b =
     bindM (g_get_node a) (\<lambda>anode.
     let (a, b) = (if node_rtype anode = type_Copy then (b, a) else (a, b))
     in bindM (op_span sp a) (\<lambda>sa.
        case sa of
          None \<Rightarrow> ret False
        | Some (asize, aptr) \<Rightarrow>
            bindM (op_span sp b) (\<lambda>sb.
            case sb of
              None \<Rightarrow> ret False
            | Some (bsize, bptr) \<Rightarrow>
                bindM (g_expand_node b) (\<lambda>bn.
                bindM (if node_rtype bn = type_Copy
                       then
                         bindM (input_at bn 3) (\<lambda>src.
                         is_noalias_ptrs sp oof fuel aptr src asize bsize)
                       else ret True) (\<lambda>apart.
                if \<not> apart then ret False
                else is_noalias_ptrs sp oof fuel aptr bptr asize bsize)))))"

definition is_always_valid_ptr :: "Node_Spec \<Rightarrow> fault \<Rightarrow> nat \<Rightarrow> u32 \<Rightarrow> bool gact" where
  "is_always_valid_ptr sp oof fuel ptr =
     bindM (base_and_offset sp oof fuel ptr) (\<lambda>(bptr, _).
     bindM (g_expand_node bptr) (\<lambda>node.
     ret (node_rtype node = type_Global_Addr \<or> node_rtype node = type_Local_Addr)))"

section \<open>Values\<close>

text \<open>What a constant stands for, and the addition of a constant that a node may be: its other operand and the constant.\<close>

definition constant_of :: "Node_Spec \<Rightarrow> graph \<Rightarrow> u32 \<Rightarrow> u64 option" where
  "constant_of sp g n = (case g_nodes g n of
     Some x \<Rightarrow> if inherits_cint sp (node_rtype x) then Some (cint_value x) else None
   | None \<Rightarrow> if inherits_cint sp 0 then Some 0 else None)"

definition data_type :: "graph \<Rightarrow> u32 \<Rightarrow> u16" where
  "data_type g n = take_bit 4 (fst (snd (kind_of g n)))"

definition node_type :: "graph \<Rightarrow> u32 \<Rightarrow> u16" where
  "node_type g n = fst (kind_of g n)"

definition is_sum :: "graph \<Rightarrow> u32 \<Rightarrow> bool" where
  "is_sum g n \<longleftrightarrow> live g n \<and> node_type g n = type_Add \<and> in_INT_DTS (data_type g n)"

text \<open>
  The values of the nodes in one execution: constants have their value, and sums are reduced to their width.
\<close>

definition values_ok :: "Node_Spec \<Rightarrow> graph \<Rightarrow> (u32 \<Rightarrow> u64) \<Rightarrow> bool" where
  "values_ok sp g val \<longleftrightarrow>
     (\<forall>n c. live g n \<longrightarrow> constant_of sp g n = Some c \<longrightarrow> val n = c) \<and>
     (\<forall>n. is_sum g n \<longrightarrow>
        val n = take_bit (8 * DT_SIZE ! unat (data_type g n)) (val (ins g n ! 0) + val (ins g n ! 1)))"

text \<open>
  Sums are well-formed: they have two operands of their own type that are nodes, constants are whole, and the
  operand that is followed lies below, so that no sums are in a circle.
\<close>

definition sums_ok :: "Node_Spec \<Rightarrow> (u32 \<Rightarrow> nat) \<Rightarrow> graph \<Rightarrow> bool" where
  "sums_ok sp rank g \<longleftrightarrow>
     g_nodes g 0 = None \<and>
     (\<forall>n x. g_nodes g n = Some x \<longrightarrow> live g n \<longrightarrow> unat (node_rtype x) < type_count sp \<and>
        (inherits_cint sp (node_rtype x) \<longrightarrow> 2 \<le> length (node_extra x))) \<and>
     (\<forall>n. is_sum g n \<longrightarrow> length (ins g n) = 2 \<and> live g (ins g n ! 0) \<and> live g (ins g n ! 1) \<and>
        data_type g (ins g n ! 0) = data_type g n \<and> rank (ins g n ! 0) < rank n)"

lemma sums_okD:
  assumes "sums_ok sp rank g"
  shows "g_nodes g 0 = None" "g_nodes g n = Some x \<Longrightarrow> live g n \<Longrightarrow> unat (node_rtype x) < type_count sp"
    "g_nodes g n = Some x \<Longrightarrow> live g n \<Longrightarrow> inherits_cint sp (node_rtype x) \<Longrightarrow> 2 \<le> length (node_extra x)"
    "is_sum g n \<Longrightarrow> length (ins g n) = 2 \<and> live g (ins g n ! 0) \<and> live g (ins g n ! 1) \<and>
       data_type g (ins g n ! 0) = data_type g n \<and> rank (ins g n ! 0) < rank n"
  using assms unfolding sums_ok_def by blast+

lemma g_expand_live:
  assumes "live g n" "g_nodes g 0 = None"
  shows "\<exists>x. g_nodes g n = Some x \<and> g_expand_node n g = (Inr x, g) \<and> g_get_node n g = (Inr x, g) \<and>
    node_rtype x = node_type g n \<and> node_dt x = data_type g n \<and> node_inps x = ins g n"
proof -
  obtain x where x: "g_nodes g n = Some x" "node_rtype x \<noteq> DEAD_NODE_KIND" using live_node [OF assms(1)] by blast
  then have "n \<noteq> 0" using assms(2) by auto
  then show ?thesis
    using x g_get_node_some [of n g x]
    by (simp add: g_expand_node_def node_type_def data_type_def kind_of_def ins_def node_dt_def ret_apply)
qed

lemma get_cint_returns:
  assumes "sums_ok sp rank g" "live g n"
  shows "get_cint sp n g = (Inr (constant_of sp g n), g)"
proof -
  obtain x where x: "g_nodes g n = Some x" "g_get_node n g = (Inr x, g)" using g_expand_live [OF assms(2) sums_okD(1) [OF assms(1)]] by blast
  then show ?thesis
    using sums_okD(2,3) [OF assms(1) x(1) assms(2)] by (simp add: get_cint_def constant_of_def ret_apply)
qed

section \<open>Bases and offsets\<close>

text \<open>The loop returns, changes nothing, and what it returns stands for the same address.\<close>

lemma base_and_offset_loop_returns:
  assumes g: "sums_ok sp rank g" and "live g n" "data_type g n = dt_I64" "rank n < fuel"
  shows "\<exists>b off'. base_and_offset_loop sp oof fuel n off g = (Inr (b, off'), g) \<and> live g b \<and> rank b \<le> rank n \<and>
    (\<forall>val. values_ok sp g val \<longrightarrow> val n + off = val b + off')"
  using assms(2-)
proof (induction fuel arbitrary: n off)
  case (Suc fuel)
  obtain x where x: "g_expand_node n g = (Inr x, g)" "node_rtype x = node_type g n" "node_dt x = data_type g n" "node_inps x = ins g n"
    using g_expand_live [OF Suc.prems(1) sums_okD(1) [OF g]] by blast
  show ?case
  proof (cases "is_sum g n")
    case True
    note s = sums_okD(4) [OF g True]
    have c: "get_cint sp (ins g n ! 1) g = (Inr (constant_of sp g (ins g n ! 1)), g)" using s by (intro get_cint_returns [OF g]) simp
    have t: "node_rtype x = type_Add" "in_INT_DTS (node_dt x)" using True x by (simp_all add: is_sum_def)
    show ?thesis
    proof (cases "constant_of sp g (ins g n ! 1)")
      case None
      then show ?thesis using x t c s Suc.prems by (simp add: input_at_def ret_apply)
    next
      case (Some v)
      obtain b off' where b: "base_and_offset_loop sp oof fuel (ins g n ! 0) (off + v) g = (Inr (b, off'), g)" "live g b" "rank b \<le> rank (ins g n ! 0)"
        "\<forall>val. values_ok sp g val \<longrightarrow> val (ins g n ! 0) + (off + v) = val b + off'"
        using Suc.IH [of "ins g n ! 0" "off + v"] s Suc.prems by auto
      have "val n = val (ins g n ! 0) + v" if "values_ok sp g val" for val
        using that True Some s Suc.prems(2) unfolding values_ok_def by (simp add: dt_I64_def DT_SIZE_def take_bit_word_eq_self)
      then have "val n + off = val b + off'" if "values_ok sp g val" for val
        using b(4) [rule_format, OF that] that by (simp add: algebra_simps)
      moreover have "base_and_offset_loop sp oof (Suc fuel) n off g = (Inr (b, off'), g)"
        using x t c s Some b(1) by (simp add: input_at_def ret_apply)
      ultimately show ?thesis using b(2,3) s by (intro exI [of _ b] exI [of _ off']) auto
    qed
  next
    case False
    then have "\<not> (node_rtype x = type_Add \<and> in_INT_DTS (node_dt x))" using x Suc.prems(1) by (simp add: is_sum_def)
    then show ?thesis using x(1) Suc.prems by (auto simp: ret_apply)
  qed
qed simp

lemma base_and_offset_returns:
  assumes "sums_ok sp rank g" "live g n" "data_type g n = dt_I64" "rank n < fuel"
  obtains b off where "base_and_offset sp oof fuel n g = (Inr (b, off), g)" "live g b" "\<And>val. values_ok sp g val \<Longrightarrow> val n = val b + off"
  using base_and_offset_loop_returns [OF assms, of oof 0] unfolding base_and_offset_def by auto

section \<open>Spans of bytes\<close>

text \<open>The bytes at \<open>p\<close> and the \<open>m - 1\<close> addresses after it, in an address space that wraps around.\<close>

definition span :: "u64 \<Rightarrow> u64 \<Rightarrow> u64 set" where
  "span p m = (\<lambda>i. p + of_nat i) ` {..<unat m}"

lemma span_empty [simp]: "span p 0 = {}"
  by (simp add: span_def)

lemma sint_add_small:
  fixes a b :: u64
  assumes "0 \<le> sint b" "sint a + sint b < 2 ^ 63"
  shows "sint (a + b) = sint a + sint b"
proof -
  have "- (2 ^ 63) \<le> sint a" using sint_greater_eq [of a] by simp
  then show ?thesis using assms by (simp add: sint_word_ariths signed_take_bit_int_eq_self)
qed

lemma sum_eq_iff:
  fixes a b :: u64
  assumes "sint a + int i < 2 ^ 63" "sint b + int j < 2 ^ 63"
  shows "a + of_nat i = b + of_nat j \<longleftrightarrow> sint a + int i = sint b + int j"
proof
  assume "sint a + int i = sint b + int j"
  then have "(word_of_int (sint a + int i) :: u64) = word_of_int (sint b + int j)" by simp
  then show "a + of_nat i = b + of_nat j" by simp
next
  have le: "- (2 ^ 63) \<le> sint a" "- (2 ^ 63) \<le> sint b" using sint_greater_eq [of a] sint_greater_eq [of b] by simp_all
  assume "a + of_nat i = b + of_nat j"
  then have "(word_of_int (sint a + int i) :: u64) = word_of_int (sint b + int j)" by simp
  then have "sint (word_of_int (sint a + int i) :: u64) = sint (word_of_int (sint b + int j) :: u64)" by simp
  then show "sint a + int i = sint b + int j" using assms le by (simp add: signed_of_int signed_take_bit_int_eq_self del: of_int_add)
qed

lemma sint_size: "0 \<le> sint (m :: u64) \<Longrightarrow> sint m = int (unat m)"
  using unat_usize_lt_num [of m] unfolding sint_u64_cases by (simp split: if_splits del: of_nat_unat unat_usize_lt unat_usize_lt_num)

text \<open>On one base: two spans are apart when one ends before the other begins.\<close>

lemma spans_apart:
  fixes p a b m n :: u64
  assumes "0 \<le> sint m" "0 \<le> sint n" "sint a + sint m < 2 ^ 63" "sint b + sint n < 2 ^ 63"
  shows "sint (b + n) \<le> sint a \<or> sint (a + m) \<le> sint b \<Longrightarrow> span (p + a) m \<inter> span (p + b) n = {}"
    "0 < sint m \<Longrightarrow> 0 < sint n \<Longrightarrow> span (p + a) m \<inter> span (p + b) n = {} \<Longrightarrow> sint (b + n) \<le> sint a \<or> sint (a + m) \<le> sint b"
proof -
  note e = sint_add_small [OF assms(1,3)] sint_add_small [OF assms(2,4)]
  note m = sint_size [OF assms(1)] and n = sint_size [OF assms(2)]
  have same: "p + a + of_nat i = p + b + of_nat j \<longleftrightarrow> sint a + int i = sint b + int j" if "i < unat m" "j < unat n" for i j
  proof -
    have "sint a + int i < 2 ^ 63" "sint b + int j < 2 ^ 63" using assms(3,4) that m n by linarith+
    then show ?thesis using sum_eq_iff [of a i b j] by (simp add: add.assoc)
  qed
  show "span (p + a) m \<inter> span (p + b) n = {}" if "sint (b + n) \<le> sint a \<or> sint (a + m) \<le> sint b"
    using that same unfolding e span_def m n by fastforce
  assume pos: "0 < sint m" "0 < sint n" and dis: "span (p + a) m \<inter> span (p + b) n = {}"
  show "sint (b + n) \<le> sint a \<or> sint (a + m) \<le> sint b"
  proof (rule ccontr)
    assume "\<not> ?thesis"
    then have less: "sint a < sint b + int (unat n)" "sint b < sint a + int (unat m)" unfolding e m n by auto
    let ?i = "nat (sint b - sint a)" and ?j = "nat (sint a - sint b)"
    have "?i < unat m" "?j < unat n" using less pos m n by (simp_all add: nat_less_iff del: of_nat_unat)
    moreover have "sint a + int ?i = sint b + int ?j" by auto
    ultimately have "p + a + of_nat ?i \<in> span (p + a) m" "p + a + of_nat ?i \<in> span (p + b) n"
      using same [of ?i ?j] by (auto simp: span_def)
    then show False using dis by blast
  qed
qed

section \<open>Pointers\<close>

text \<open>A pointer that the analysis can follow with the given fuel, and a size: the end of what they span is no overflow.\<close>

definition pointer_ok :: "(u32 \<Rightarrow> nat) \<Rightarrow> nat \<Rightarrow> graph \<Rightarrow> u32 \<Rightarrow> bool" where
  "pointer_ok rank fuel g p \<longleftrightarrow> live g p \<and> data_type g p = dt_I64 \<and> rank p < fuel"

definition end_fits :: "Node_Spec \<Rightarrow> fault \<Rightarrow> nat \<Rightarrow> graph \<Rightarrow> u32 \<Rightarrow> u64 \<Rightarrow> bool" where
  "end_fits sp oof fuel g p m \<longleftrightarrow> 0 \<le> sint m \<and>
     (\<forall>b off. base_and_offset sp oof fuel p g = (Inr (b, off), g) \<longrightarrow> sint off + sint m < 2 ^ 63)"

text \<open>The base a pointer is followed to.\<close>

definition base_of :: "Node_Spec \<Rightarrow> fault \<Rightarrow> nat \<Rightarrow> graph \<Rightarrow> u32 \<Rightarrow> u32 option" where
  "base_of sp oof fuel g p = (case base_and_offset sp oof fuel p g of (Inr (b, _), _) \<Rightarrow> Some b | _ \<Rightarrow> None)"

lemma noalias_ptrs_returns:
  assumes g: "sums_ok sp rank g" and a: "pointer_ok rank fuel g a" and b: "pointer_ok rank fuel g b"
    and fit: "end_fits sp oof fuel g a m" "end_fits sp oof fuel g b n"
  obtains r where "is_noalias_ptrs sp oof fuel a b m n g = (Inr r, g)"
    "r \<Longrightarrow> base_of sp oof fuel g a = base_of sp oof fuel g b"
    "\<And>val. r \<Longrightarrow> values_ok sp g val \<Longrightarrow> span (val a) m \<inter> span (val b) n = {}"
    "\<And>val. values_ok sp g val \<Longrightarrow> base_of sp oof fuel g a = base_of sp oof fuel g b \<Longrightarrow> 0 < sint m \<Longrightarrow> 0 < sint n \<Longrightarrow>
       span (val a) m \<inter> span (val b) n = {} \<Longrightarrow> r"
proof -
  obtain ab ao where ra: "base_and_offset sp oof fuel a g = (Inr (ab, ao), g)" "\<And>val. values_ok sp g val \<Longrightarrow> val a = val ab + ao"
    using base_and_offset_returns [OF g] a unfolding pointer_ok_def by metis
  obtain bb bo where rb: "base_and_offset sp oof fuel b g = (Inr (bb, bo), g)" "\<And>val. values_ok sp g val \<Longrightarrow> val b = val bb + bo"
    using base_and_offset_returns [OF g] b unfolding pointer_ok_def by metis
  let ?r = "ab = bb \<and> (sint (bo + n) \<le> sint ao \<or> sint (ao + m) \<le> sint bo)"
  have base: "base_of sp oof fuel g a = Some ab" "base_of sp oof fuel g b = Some bb" using ra(1) rb(1) by (simp_all add: base_of_def)
  have s: "0 \<le> sint m" "0 \<le> sint n" "sint ao + sint m < 2 ^ 63" "sint bo + sint n < 2 ^ 63" using fit ra(1) rb(1) by (auto simp: end_fits_def)
  have run: "is_noalias_ptrs sp oof fuel a b m n g = (Inr ?r, g)" using ra(1) rb(1) by (simp add: is_noalias_ptrs_def ret_apply)
  show thesis
  proof (rule that [OF run])
    fix val assume v: "values_ok sp g val"
    note e = ra(2) [OF v] rb(2) [OF v]
    show "span (val a) m \<inter> span (val b) n = {}" if "?r" using spans_apart(1) [OF s, of "val ab"] that unfolding e by simp
    show "?r" if "base_of sp oof fuel g a = base_of sp oof fuel g b" "0 < sint m" "0 < sint n" "span (val a) m \<inter> span (val b) n = {}"
      using spans_apart(2) [OF s that(2,3), of "val ab"] that(1,4) base unfolding e by simp
  qed (use base in simp)
qed

lemma noalias_ptrs_apart:
  assumes "sums_ok sp rank g" "pointer_ok rank fuel g a" "pointer_ok rank fuel g b" "end_fits sp oof fuel g a m" "end_fits sp oof fuel g b n"
  shows "\<exists>r. is_noalias_ptrs sp oof fuel a b m n g = (Inr r, g) \<and> (\<forall>val. r \<longrightarrow> values_ok sp g val \<longrightarrow> span (val a) m \<inter> span (val b) n = {})"
  by (rule noalias_ptrs_returns [OF assms]) auto

section \<open>Operations on memory\<close>

definition is_mem_op :: "graph \<Rightarrow> u32 \<Rightarrow> bool" where
  "is_mem_op g n \<longleftrightarrow> live g n \<and> node_type g n \<in> {type_Store, type_Load, type_Set, type_Copy}"

text \<open>The size that the analysis takes an operation to have, and the size that it has in an execution.\<close>

definition op_bound :: "Node_Spec \<Rightarrow> graph \<Rightarrow> u32 \<Rightarrow> u64" where
  "op_bound sp g n =
     (if node_type g n = type_Store then of_nat (DT_SIZE ! unat (data_type g (ins g n ! 3)))
      else if node_type g n = type_Load then of_nat (DT_SIZE ! unat (data_type g n))
      else case constant_of sp g (ins g n ! 4) of None \<Rightarrow> 2 ^ 30 | Some v \<Rightarrow> v)"

definition op_size :: "Node_Spec \<Rightarrow> graph \<Rightarrow> (u32 \<Rightarrow> u64) \<Rightarrow> u32 \<Rightarrow> u64" where
  "op_size sp g val n = (if node_type g n = type_Store \<or> node_type g n = type_Load then op_bound sp g n else val (ins g n ! 4))"

text \<open>The addresses that an operation writes and reads, and that two operations can be exchanged.\<close>

definition writes :: "Node_Spec \<Rightarrow> graph \<Rightarrow> (u32 \<Rightarrow> u64) \<Rightarrow> u32 \<Rightarrow> u64 set" where
  "writes sp g val n = (if node_type g n = type_Load then {} else span (val (ins g n ! 2)) (op_size sp g val n))"

definition reads :: "Node_Spec \<Rightarrow> graph \<Rightarrow> (u32 \<Rightarrow> u64) \<Rightarrow> u32 \<Rightarrow> u64 set" where
  "reads sp g val n =
     (if node_type g n = type_Load then span (val (ins g n ! 2)) (op_size sp g val n)
      else if node_type g n = type_Copy then span (val (ins g n ! 3)) (op_size sp g val n)
      else {})"

definition independent :: "Node_Spec \<Rightarrow> graph \<Rightarrow> (u32 \<Rightarrow> u64) \<Rightarrow> u32 \<Rightarrow> u32 \<Rightarrow> bool" where
  "independent sp g val a b \<longleftrightarrow>
     writes sp g val a \<inter> (writes sp g val b \<union> reads sp g val b) = {} \<and> writes sp g val b \<inter> reads sp g val a = {}"

text \<open>A well-formed operation, and executions in which no size is more than the analysis takes it to be.\<close>

definition mem_op_ok :: "Node_Spec \<Rightarrow> fault \<Rightarrow> (u32 \<Rightarrow> nat) \<Rightarrow> nat \<Rightarrow> graph \<Rightarrow> u32 \<Rightarrow> bool" where
  "mem_op_ok sp oof rank fuel g n \<longleftrightarrow> is_mem_op g n \<and> 3 \<le> length (ins g n) \<and>
     pointer_ok rank fuel g (ins g n ! 2) \<and> end_fits sp oof fuel g (ins g n ! 2) (op_bound sp g n) \<and>
     (node_type g n = type_Store \<longrightarrow> 4 \<le> length (ins g n) \<and> live g (ins g n ! 3) \<and> unat (data_type g (ins g n ! 3)) < 11) \<and>
     (node_type g n = type_Load \<longrightarrow> unat (data_type g n) < 11) \<and>
     (node_type g n \<in> {type_Set, type_Copy} \<longrightarrow> 5 \<le> length (ins g n) \<and> live g (ins g n ! 4)) \<and>
     (node_type g n = type_Copy \<longrightarrow> pointer_ok rank fuel g (ins g n ! 3) \<and> end_fits sp oof fuel g (ins g n ! 3) (op_bound sp g n))"

definition sizes_bounded :: "Node_Spec \<Rightarrow> graph \<Rightarrow> (u32 \<Rightarrow> u64) \<Rightarrow> u32 \<Rightarrow> bool" where
  "sizes_bounded sp g val n \<longleftrightarrow> op_size sp g val n \<le> op_bound sp g n"

lemma span_mono: "m \<le> n \<Longrightarrow> span p m \<subseteq> span p n"
  by (auto simp: span_def word_le_nat_alt)

lemma op_span_returns:
  assumes g: "sums_ok sp rank g" and n: "mem_op_ok sp oof rank fuel g n"
  shows "op_span sp n g = (Inr (Some (op_bound sp g n, ins g n ! 2)), g)"
proof -
  note n' = n [unfolded mem_op_ok_def is_mem_op_def]
  note types = type_Store_def type_Load_def type_Set_def type_Copy_def
  obtain x where x: "g_expand_node n g = (Inr x, g)" "node_rtype x = node_type g n" "node_dt x = data_type g n" "node_inps x = ins g n"
    using g_expand_live [of g n] sums_okD(1) [OF g] n' by blast
  have size: "mem_op_size sp n g = (Inr (Some (op_bound sp g n)), g)"
  proof (cases "node_type g n = type_Store")
    case True
    then obtain v where "g_get_node (ins g n ! 3) g = (Inr v, g)" "node_dt v = data_type g (ins g n ! 3)"
      using g_expand_live [of g "ins g n ! 3"] sums_okD(1) [OF g] n' by blast
    then show ?thesis using x True n' by (simp add: mem_op_size_def input_at_def dt_size_def op_bound_def DT_SIZE_def ret_apply)
  next
    case ns: False
    show ?thesis
    proof (cases "node_type g n = type_Load")
      case True
      then show ?thesis using x ns n' by (simp add: mem_op_size_def dt_size_def op_bound_def DT_SIZE_def ret_apply types)
    next
      case False
      then have t: "node_type g n \<in> {type_Set, type_Copy}" using ns n' by auto
      then have "get_cint sp (ins g n ! 4) g = (Inr (constant_of sp g (ins g n ! 4)), g)" using n' by (intro get_cint_returns [OF g]) blast
      then show ?thesis using x ns False t n' by (auto simp: mem_op_size_def input_at_def op_bound_def ret_apply)
    qed
  qed
  then show ?thesis using x n' by (simp add: op_span_def input_at_def ret_apply)
qed

text \<open>What an operation touches: where it points, and a copy where it copies from.\<close>

lemma touched:
  assumes "mem_op_ok sp oof rank fuel g n" "sizes_bounded sp g val n"
  shows "writes sp g val n \<subseteq> span (val (ins g n ! 2)) (op_bound sp g n)"
    "reads sp g val n \<subseteq> span (val (ins g n ! 2)) (op_bound sp g n) \<union>
       (if node_type g n = type_Copy then span (val (ins g n ! 3)) (op_bound sp g n) else {})"
  using span_mono [of "op_size sp g val n" "op_bound sp g n"] assms by (auto simp: writes_def reads_def sizes_bounded_def)

lemma independent_sym: "independent sp g val a b = independent sp g val b a"
  unfolding independent_def by blast

text \<open>The test once its operands are in order: the first is no copy.\<close>

lemma noalias_ordered:
  assumes g: "sums_ok sp rank g" and a: "mem_op_ok sp oof rank fuel g a" and b: "mem_op_ok sp oof rank fuel g b"
    and copy: "node_type g a \<noteq> type_Copy"
  shows "\<exists>r. (\<forall>x y. (x, y) = (a, b) \<or> (x, y) = (b, a) \<and> node_type g b = type_Copy \<longrightarrow> is_noalias_ops sp oof fuel x y g = (Inr r, g)) \<and>
    (\<forall>val. r \<longrightarrow> values_ok sp g val \<longrightarrow> sizes_bounded sp g val a \<longrightarrow> sizes_bounded sp g val b \<longrightarrow> independent sp g val a b)"
proof -
  note a' = a [unfolded mem_op_ok_def] and b' = b [unfolded mem_op_ok_def]
  note zero = sums_okD(1) [OF g]
  obtain x where x: "g_get_node a g = (Inr x, g)" "node_rtype x = node_type g a"
    using g_expand_live [of g a] zero a' unfolding is_mem_op_def by blast
  obtain y where y: "g_get_node b g = (Inr y, g)" "g_expand_node b g = (Inr y, g)" "node_rtype y = node_type g b" "node_inps y = ins g b"
    using g_expand_live [of g b] zero b' unfolding is_mem_op_def by blast
  let ?p = "ins g a ! 2" and ?q = "ins g b ! 2" and ?s = "ins g b ! 3" and ?m = "op_bound sp g a" and ?n = "op_bound sp g b"
  have pq: "pointer_ok rank fuel g ?p" "pointer_ok rank fuel g ?q" "end_fits sp oof fuel g ?p ?m" "end_fits sp oof fuel g ?q ?n" using a' b' by simp_all
  obtain r where r: "is_noalias_ptrs sp oof fuel ?p ?q ?m ?n g = (Inr r, g)"
    "\<And>val. r \<Longrightarrow> values_ok sp g val \<Longrightarrow> span (val ?p) ?m \<inter> span (val ?q) ?n = {}"
    using noalias_ptrs_apart [OF g pq] by blast
  obtain r' where r': "node_type g b = type_Copy \<Longrightarrow> is_noalias_ptrs sp oof fuel ?p ?s ?m ?n g = (Inr r', g)"
    "\<And>val. r' \<Longrightarrow> node_type g b = type_Copy \<Longrightarrow> values_ok sp g val \<Longrightarrow> span (val ?p) ?m \<inter> span (val ?s) ?n = {}" "node_type g b \<noteq> type_Copy \<Longrightarrow> r'"
  proof (cases "node_type g b = type_Copy")
    case True
    then have "\<exists>r. is_noalias_ptrs sp oof fuel ?p ?s ?m ?n g = (Inr r, g) \<and> (\<forall>val. r \<longrightarrow> values_ok sp g val \<longrightarrow> span (val ?p) ?m \<inter> span (val ?s) ?n = {})"
      using b' by (intro noalias_ptrs_apart [OF g pq(1) _ pq(3)]) simp_all
    then show ?thesis using that True by blast
  qed (use that in blast)
  note run = op_span_returns [OF g a] op_span_returns [OF g b]
  have "is_noalias_ops sp oof fuel a b g = (Inr (r' \<and> r), g)"
    using x y run r(1) r'(1,3) copy b' by (cases "node_type g b = type_Copy") (auto simp: is_noalias_ops_def input_at_def ret_apply)
  moreover have "is_noalias_ops sp oof fuel b a g = (Inr (r' \<and> r), g)" if "node_type g b = type_Copy"
    using x y run r(1) r'(1,3) b' that by (auto simp: is_noalias_ops_def input_at_def ret_apply)
  moreover have "independent sp g val a b" if "r' \<and> r" "values_ok sp g val" "sizes_bounded sp g val a" "sizes_bounded sp g val b" for val
    using touched [OF a that(3)] touched [OF b that(4)] r(2) [OF _ that(2)] r'(2) [OF _ _ that(2)] that(1) copy
    unfolding independent_def by (cases "node_type g b = type_Copy") (simp_all, blast+)
  ultimately show ?thesis by (intro exI [of _ "r' \<and> r"]) auto
qed

end
