(* ===== verification/Alias_Laws.thy ===== *)
theory Alias_Laws
  imports Alias
begin

text \<open>
  The properties of the analysis of addresses: on pointers it is exact as far as their bases are the same, on operations
  it is sound, except for two copies.
\<close>

section \<open>A graph\<close>

text \<open>
  A local at 16, constants 8, 16 and 32, sums of the local and the last two at 112 and 128, a store to the local at 144, a load
  from the first sum at 160, and two copies of eight bytes: from the first sum to the local, and from the second sum to the first.
\<close>

definition plain_node :: "u16 \<Rightarrow> u16 \<Rightarrow> u32 list \<Rightarrow> u32 list \<Rightarrow> node" where
  "plain_node ty m inps extra = \<lparr>node_rtype = ty, node_meta = m, node_gvn = 0, node_extra_dwords = 0, node_inps = inps,
     node_input_cap = of_nat (length inps), node_outs = [], node_output_cap = 0, node_extra = extra\<rparr>"

definition alias_nodes :: "(u32 \<times> node) list" where
  "alias_nodes =
     [(16, plain_node type_Local_Addr 5 [] []), (48, plain_node 27 5 [] [8, 0]), (64, plain_node 27 5 [] [16, 0]),
      (80, plain_node 27 5 [] [32, 0]), (112, plain_node type_Add 5 [16, 64] []), (128, plain_node type_Add 5 [16, 80] []),
      (144, plain_node type_Store 0 [0, 0, 16, 48] []), (160, plain_node type_Load 5 [0, 0, 112] []),
      (176, plain_node type_Copy 0 [0, 0, 16, 112, 48] []), (192, plain_node type_Copy 0 [0, 0, 112, 128, 48] [])]"

definition alias_graph :: graph where
  "alias_graph = tiny_graph\<lparr>g_nodes := map_of alias_nodes\<rparr>"

definition alias_rank :: "u32 \<Rightarrow> nat" where
  "alias_rank n = (if n = 112 \<or> n = 128 then 1 else 0)"

definition alias_values :: "u32 \<Rightarrow> u64" where
  "alias_values n = (if n = 16 then 4096 else if n = 48 then 8 else if n = 64 then 16 else if n = 80 then 32
     else if n = 112 then 4112 else if n = 128 then 4128 else 0)"

lemmas alias_defs = alias_graph_def alias_nodes_def plain_node_def type_Local_Addr_def type_Add_def type_Store_def type_Load_def
  type_Copy_def type_Set_def

lemma alias_node: "g_nodes alias_graph n = map_of alias_nodes n"
  by (simp add: alias_graph_def)

lemma alias_cases:
  "g_nodes alias_graph n \<noteq> None \<Longrightarrow> n = 16 \<or> n = 48 \<or> n = 64 \<or> n = 80 \<or> n = 112 \<or> n = 128 \<or> n = 144 \<or> n = 160 \<or> n = 176 \<or> n = 192"
  by (auto simp: alias_defs split: if_splits)

lemma alias_view:
  "live alias_graph n \<longleftrightarrow> n \<in> fst ` set alias_nodes"
  "ins alias_graph n = (if n = 112 then [16, 64] else if n = 128 then [16, 80] else if n = 144 then [0, 0, 16, 48]
     else if n = 160 then [0, 0, 112] else if n = 176 then [0, 0, 16, 112, 48] else if n = 192 then [0, 0, 112, 128, 48] else [])"
  "node_type alias_graph n = (if n = 16 then 53 else if n = 48 \<or> n = 64 \<or> n = 80 then 27 else if n = 112 \<or> n = 128 then 28
     else if n = 144 then 58 else if n = 160 then 59 else if n = 176 \<or> n = 192 then 56 else 0)"
  "data_type alias_graph n = (if n \<in> {16, 48, 64, 80, 112, 128, 160} then 5 else 0)"
  by (auto simp: live_def ins_def node_type_def data_type_def kind_of_def alias_defs DEAD_NODE_KIND_def split: option.splits if_splits)

lemma alias_live: "live alias_graph n \<longleftrightarrow> n \<in> {16, 48, 64, 80, 112, 128, 144, 160, 176, 192}"
  unfolding alias_view by (auto simp: alias_nodes_def)

lemma alias_constant: "constant_of tiny_spec alias_graph n = (if n = 48 then Some 8 else if n = 64 then Some 16 else if n = 80 then Some 32 else None)"
  by (simp add: constant_of_def tiny_spec_def cint_value_def alias_defs)

lemma alias_sum: "is_sum alias_graph n \<longleftrightarrow> n = 112 \<or> n = 128"
  by (auto simp: is_sum_def alias_live alias_view in_INT_DTS_def type_Add_def)

lemma alias_sums_ok: "sums_ok tiny_spec alias_rank alias_graph"
proof -
  have "g_nodes alias_graph 0 = None" by (simp add: alias_defs)
  moreover have "unat (node_rtype x) < type_count tiny_spec \<and> (inherits_cint tiny_spec (node_rtype x) \<longrightarrow> 2 \<le> length (node_extra x))"
    if "g_nodes alias_graph n = Some x" for n x
    using that alias_cases [of n] by (auto simp: tiny_spec_def alias_defs split: if_splits)
  ultimately show ?thesis unfolding sums_ok_def alias_sum by (auto simp: alias_view(2,4) alias_live alias_rank_def)
qed

lemma alias_values_ok: "values_ok tiny_spec alias_graph alias_values"
  unfolding values_ok_def alias_sum alias_constant by (auto simp: alias_view(2,4) alias_values_def DT_SIZE_def take_bit_word_eq_self)

lemma alias_get:
  "g_get_node 16 alias_graph = (Inr (plain_node type_Local_Addr 5 [] []), alias_graph)"
  "g_get_node 48 alias_graph = (Inr (plain_node 27 5 [] [8, 0]), alias_graph)"
  "g_get_node 64 alias_graph = (Inr (plain_node 27 5 [] [16, 0]), alias_graph)"
  "g_get_node 80 alias_graph = (Inr (plain_node 27 5 [] [32, 0]), alias_graph)"
  "g_get_node 112 alias_graph = (Inr (plain_node type_Add 5 [16, 64] []), alias_graph)"
  "g_get_node 128 alias_graph = (Inr (plain_node type_Add 5 [16, 80] []), alias_graph)"
  "g_get_node 176 alias_graph = (Inr (plain_node type_Copy 0 [0, 0, 16, 112, 48] []), alias_graph)"
  "g_get_node 192 alias_graph = (Inr (plain_node type_Copy 0 [0, 0, 112, 128, 48] []), alias_graph)"
  by (simp_all add: g_get_node_def alias_graph_def alias_nodes_def)

lemma alias_expand:
  "g_expand_node 16 alias_graph = (Inr (plain_node type_Local_Addr 5 [] []), alias_graph)"
  "g_expand_node 112 alias_graph = (Inr (plain_node type_Add 5 [16, 64] []), alias_graph)"
  "g_expand_node 128 alias_graph = (Inr (plain_node type_Add 5 [16, 80] []), alias_graph)"
  "g_expand_node 176 alias_graph = (Inr (plain_node type_Copy 0 [0, 0, 16, 112, 48] []), alias_graph)"
  "g_expand_node 192 alias_graph = (Inr (plain_node type_Copy 0 [0, 0, 112, 128, 48] []), alias_graph)"
  by (simp_all add: g_expand_node_def alias_get plain_node_def type_Local_Addr_def type_Add_def type_Copy_def DEAD_NODE_KIND_def ret_apply)

lemma alias_cint:
  "get_cint tiny_spec 64 alias_graph = (Inr (Some 16), alias_graph)" "get_cint tiny_spec 80 alias_graph = (Inr (Some 32), alias_graph)"
  using get_cint_returns [OF alias_sums_ok, of 64] get_cint_returns [OF alias_sums_ok, of 80] by (simp_all add: alias_live alias_constant)

lemma alias_bases:
  "base_and_offset tiny_spec oof 2 16 alias_graph = (Inr (16, 0), alias_graph)"
  "base_and_offset tiny_spec oof 2 112 alias_graph = (Inr (16, 16), alias_graph)"
  "base_and_offset tiny_spec oof 2 128 alias_graph = (Inr (16, 32), alias_graph)"
  unfolding base_and_offset_def Suc_1 [symmetric] One_nat_def by (simp_all add: alias_expand alias_cint input_at_def plain_node_def
    type_Local_Addr_def type_Add_def node_dt_def in_INT_DTS_def take_bit_word_eq_self ret_apply)

lemma alias_pointer: "p \<in> {16, 112, 128} \<Longrightarrow> pointer_ok alias_rank 2 alias_graph p"
  by (auto simp: pointer_ok_def alias_live alias_view(4) dt_I64_def alias_rank_def)

lemma alias_end: "p \<in> {16, 112, 128} \<Longrightarrow> end_fits tiny_spec oof 2 alias_graph p 8"
  by (auto simp: end_fits_def alias_bases)

lemma alias_bound: "n \<in> {144, 160, 176, 192} \<Longrightarrow> op_bound tiny_spec alias_graph n = 8"
  by (auto simp: op_bound_def alias_view alias_constant type_Store_def type_Load_def DT_SIZE_def)

lemma alias_op: "n \<in> {144, 160, 176, 192} \<Longrightarrow> mem_op_ok tiny_spec oof alias_rank 2 alias_graph n"
  using alias_bound [of n] alias_pointer alias_end
  by (auto simp: mem_op_ok_def is_mem_op_def alias_live alias_view type_Store_def type_Load_def type_Set_def type_Copy_def)

lemma alias_size: "n \<in> {144, 160, 176, 192} \<Longrightarrow> sizes_bounded tiny_spec alias_graph alias_values n"
  using alias_bound [of n] by (auto simp: sizes_bounded_def op_size_def alias_view type_Store_def type_Load_def alias_values_def)

section \<open>Properties\<close>

text \<open>
  C13: On pointers to 64-bit addresses whose sums are well-formed, \<^verbatim>\<open>is_noalias_ptrs\<close> returns, and as long as no end of a span is an overflow,
  its answer is exact: true only when in every execution the two spans have no byte in common, and for two pointers on the same base
  always when they have none; of pointers on different bases it never says that they are apart.
\<close>

theorem noalias_ptrs_exact:
  assumes "sums_ok sp rank g" "pointer_ok rank fuel g a" "pointer_ok rank fuel g b"
    and "end_fits sp oof fuel g a m" "end_fits sp oof fuel g b n"
  shows "\<exists>r. is_noalias_ptrs sp oof fuel a b m n g = (Inr r, g) \<and>
    (r \<longrightarrow> base_of sp oof fuel g a = base_of sp oof fuel g b) \<and>
    (\<forall>val. values_ok sp g val \<longrightarrow> r \<longrightarrow> span (val a) m \<inter> span (val b) n = {}) \<and>
    (\<forall>val. values_ok sp g val \<longrightarrow> base_of sp oof fuel g a = base_of sp oof fuel g b \<longrightarrow> 0 < sint m \<longrightarrow> 0 < sint n \<longrightarrow>
       span (val a) m \<inter> span (val b) n = {} \<longrightarrow> r)"
proof (rule noalias_ptrs_returns [OF assms])
  fix r assume "is_noalias_ptrs sp oof fuel a b m n g = (Inr r, g)" "r \<Longrightarrow> base_of sp oof fuel g a = base_of sp oof fuel g b"
    "\<And>val. r \<Longrightarrow> values_ok sp g val \<Longrightarrow> span (val a) m \<inter> span (val b) n = {}"
    "\<And>val. values_ok sp g val \<Longrightarrow> base_of sp oof fuel g a = base_of sp oof fuel g b \<Longrightarrow> 0 < sint m \<Longrightarrow> 0 < sint n \<Longrightarrow>
       span (val a) m \<inter> span (val b) n = {} \<Longrightarrow> r"
  then show ?thesis by blast
qed

text \<open>The local and the sum 16 bytes after it: eight bytes each are apart.\<close>

theorem noalias_ptrs_exact_witness:
  "\<exists>r. is_noalias_ptrs tiny_spec (Ub ''fuel'') 2 16 112 8 8 alias_graph = (Inr r, alias_graph) \<and> r \<and>
     span 4096 8 \<inter> span 4112 8 = {}"
proof -
  have v: "alias_values 16 = 4096" "alias_values 112 = 4112" by (simp_all add: alias_values_def)
  have run: "is_noalias_ptrs tiny_spec (Ub ''fuel'') 2 16 112 8 8 alias_graph = (Inr True, alias_graph)"
    by (simp add: is_noalias_ptrs_def alias_bases ret_apply)
  have "pointer_ok alias_rank 2 alias_graph 16" "pointer_ok alias_rank 2 alias_graph 112" "end_fits tiny_spec (Ub ''fuel'') 2 alias_graph 16 8"
    "end_fits tiny_spec (Ub ''fuel'') 2 alias_graph 112 8" by (simp_all add: alias_pointer alias_end)
  from noalias_ptrs_exact [OF alias_sums_ok this] show ?thesis using run alias_values_ok v by fastforce
qed

text \<open>
  C14: Two well-formed operations on memory, not both of them copies: \<^verbatim>\<open>is_noalias_ops\<close> returns, and if its answer is true, then neither
  writes what the other reads or writes, in every execution in which an operation whose size is not a constant has at most \<open>2 ^ 30\<close> bytes,
  which is the size the analysis assumes for it. Well-formed includes that no end of a span that the analysis computes overflows.
\<close>

theorem noalias_ops_sound:
  assumes g: "sums_ok sp rank g" and a: "mem_op_ok sp oof rank fuel g a" and b: "mem_op_ok sp oof rank fuel g b"
    and copy: "\<not> (node_type g a = type_Copy \<and> node_type g b = type_Copy)"
  shows "\<exists>r. is_noalias_ops sp oof fuel a b g = (Inr r, g) \<and>
    (\<forall>val. r \<longrightarrow> values_ok sp g val \<longrightarrow> sizes_bounded sp g val a \<longrightarrow> sizes_bounded sp g val b \<longrightarrow> independent sp g val a b)"
proof (cases "node_type g a = type_Copy")
  case True
  then have "node_type g b \<noteq> type_Copy" using copy by simp
  from noalias_ordered [OF g b a this] obtain r where
    "\<forall>x y. (x, y) = (b, a) \<or> (x, y) = (a, b) \<and> node_type g a = type_Copy \<longrightarrow> is_noalias_ops sp oof fuel x y g = (Inr r, g)"
    "\<forall>val. r \<longrightarrow> values_ok sp g val \<longrightarrow> sizes_bounded sp g val b \<longrightarrow> sizes_bounded sp g val a \<longrightarrow> independent sp g val a b"
    unfolding independent_sym [of sp g _ b a] by (elim exE conjE)
  then show ?thesis using True by (intro exI [of _ r]) simp
next
  case False
  from noalias_ordered [OF g a b False] show ?thesis by blast
qed

theorem noalias_ops_sound_witness:
  "\<exists>r. is_noalias_ops tiny_spec (Ub ''fuel'') 2 144 160 alias_graph = (Inr r, alias_graph) \<and>
     (r \<longrightarrow> independent tiny_spec alias_graph alias_values 144 160)"
proof -
  have "\<not> (node_type alias_graph 144 = type_Copy \<and> node_type alias_graph 160 = type_Copy)" by (simp add: alias_view type_Copy_def)
  note w = noalias_ops_sound [OF alias_sums_ok _ _ this, of "Ub ''fuel''" 2]
  have "mem_op_ok tiny_spec (Ub ''fuel'') alias_rank 2 alias_graph 144" "mem_op_ok tiny_spec (Ub ''fuel'') alias_rank 2 alias_graph 160"
    by (simp_all add: alias_op)
  note w = w [OF this]
  moreover have "sizes_bounded tiny_spec alias_graph alias_values 144" "sizes_bounded tiny_spec alias_graph alias_values 160"
    by (simp_all add: alias_size)
  ultimately show ?thesis using alias_values_ok by blast
qed

text \<open>
  Of two copies \<^verbatim>\<open>is_noalias_ops\<close> does not compare the source of one with the destination of the other: it calls the copy
  from a place and the copy to that place apart in one order and not in the other, although the second writes what the first reads.
\<close>

lemma noalias_ops_two_copies:
  "is_noalias_ops tiny_spec (Ub ''fuel'') 2 192 176 alias_graph = (Inr True, alias_graph) \<and>
   is_noalias_ops tiny_spec (Ub ''fuel'') 2 176 192 alias_graph = (Inr False, alias_graph) \<and>
   \<not> independent tiny_spec alias_graph alias_values 192 176"
proof -
  have ptrs: "is_noalias_ptrs tiny_spec (Ub ''fuel'') 2 16 128 8 8 alias_graph = (Inr True, alias_graph)"
    "is_noalias_ptrs tiny_spec (Ub ''fuel'') 2 16 112 8 8 alias_graph = (Inr True, alias_graph)"
    "is_noalias_ptrs tiny_spec (Ub ''fuel'') 2 112 112 8 8 alias_graph = (Inr False, alias_graph)"
    by (simp_all add: is_noalias_ptrs_def alias_bases ret_apply)
  have spans: "op_span tiny_spec 176 alias_graph = (Inr (Some (8, 16)), alias_graph)" "op_span tiny_spec 192 alias_graph = (Inr (Some (8, 112)), alias_graph)"
    using op_span_returns [OF alias_sums_ok alias_op [of 176]] op_span_returns [OF alias_sums_ok alias_op [of 192]] alias_bound
    by (simp_all add: alias_view(2))
  have run: "is_noalias_ops tiny_spec (Ub ''fuel'') 2 192 176 alias_graph = (Inr True, alias_graph)"
    "is_noalias_ops tiny_spec (Ub ''fuel'') 2 176 192 alias_graph = (Inr False, alias_graph)"
    by (simp_all add: is_noalias_ops_def spans ptrs alias_get alias_expand input_at_def plain_node_def bindM_apply ret_apply)
  have "4112 \<in> span 4112 8" unfolding span_def by (rule image_eqI [of _ _ 0]) simp_all
  then have "4112 \<in> writes tiny_spec alias_graph alias_values 192 \<inter> reads tiny_spec alias_graph alias_values 176"
    by (simp add: writes_def reads_def op_size_def alias_view alias_values_def type_Store_def type_Load_def type_Copy_def)
  then show ?thesis using run unfolding independent_def by blast
qed

end
