(* ===== verification/Dl_List.thy ===== *)
theory Dl_List
  imports Masks
begin

text \<open>
  The intrusive doubly linked list of \<^verbatim>\<open>bit_arr.odin\<close>: a ring of cells in memory, closed by the list itself,
  whose two fields lie where those of a cell do. An unused list and an unused cell are all zero. The list
  is proved to be the list of the cells that were pushed and not removed, and a loop over it visits them.
\<close>

section \<open>Memory\<close>

text \<open>
  \<^verbatim>\<open>DL_Node\<close>, and \<^verbatim>\<open>DL_List\<close> with \<^verbatim>\<open>first\<close> in the place of \<^verbatim>\<open>next\<close> and \<^verbatim>\<open>last\<close> in that of \<^verbatim>\<open>prev\<close>.
\<close>

record DL_Node =
  dl_next :: u64
  dl_prev :: u64

type_synonym dl_store = "u64 \<rightharpoonup> DL_Node"

definition ZERO_NODE :: DL_Node where
  "ZERO_NODE = \<lparr>dl_next = 0, dl_prev = 0\<rparr>"

definition dl_load :: "u64 \<Rightarrow> (dl_store, DL_Node) prog" where
  "dl_load p = (\<lambda>s. case s p of None \<Rightarrow> (Inl (Ub ''no such cell''), s) | Some c \<Rightarrow> (Inr c, s))"

definition dl_write :: "u64 \<Rightarrow> (DL_Node \<Rightarrow> DL_Node) \<Rightarrow> (dl_store, unit) prog" where
  "dl_write p f = (\<lambda>s. case s p of None \<Rightarrow> (Inl (Ub ''no such cell''), s) | Some c \<Rightarrow> (Inr (), s(p \<mapsto> f c)))"

section \<open>Operations\<close>

definition dl_push :: "u64 \<Rightarrow> u64 \<Rightarrow> (dl_store, unit) prog" where
  "dl_push list' node' =
     bindM (dl_load list') (\<lambda>l.
     bindM (if l = ZERO_NODE
            then
              bindM (dl_write list' (dl_next_update (\<lambda>_. list'))) (\<lambda>_.
              dl_write list' (dl_prev_update (\<lambda>_. list')))
            else ret ()) (\<lambda>_.
     bindM (dl_write node' (dl_prev_update (\<lambda>_. list'))) (\<lambda>_.
     bindM (dl_load list') (\<lambda>l.
     bindM (dl_write node' (dl_next_update (\<lambda>_. dl_next l))) (\<lambda>_.
     bindM (dl_load list') (\<lambda>l.
     bindM (dl_write (dl_next l) (dl_prev_update (\<lambda>_. node'))) (\<lambda>_.
     dl_write list' (dl_next_update (\<lambda>_. node')))))))))"

definition dl_remove :: "u64 \<Rightarrow> (dl_store, unit) prog" where
  "dl_remove node' =
     bindM (dl_load node') (\<lambda>n.
     if n = ZERO_NODE then ret ()
     else
       bindM (dl_write (dl_next n) (dl_prev_update (\<lambda>_. dl_prev n))) (\<lambda>_.
       bindM (dl_load node') (\<lambda>n.
       bindM (dl_write (dl_prev n) (dl_next_update (\<lambda>_. dl_next n))) (\<lambda>_.
       bindM (dl_load node') (\<lambda>n.
       bindM (if dl_prev n = dl_next n then dl_write (dl_prev n) (\<lambda>_. ZERO_NODE) else ret ()) (\<lambda>_.
       dl_write node' (\<lambda>_. ZERO_NODE)))))))"

record DL_Iter =
  dl_cursor :: u64
  dl_last :: u64

definition dl_iter :: "u64 \<Rightarrow> (dl_store, DL_Iter) prog" where
  "dl_iter list' =
     bindM (dl_load list') (\<lambda>l.
     if dl_next l = 0 then ret \<lparr>dl_cursor = 0, dl_last = 0\<rparr>
     else ret \<lparr>dl_cursor = dl_next l, dl_last = list'\<rparr>)"

text \<open>The cell is a field of a bigger struct, \<open>node_offset\<close> bytes after its start.\<close>

definition dl_iter_next :: "u64 \<Rightarrow> DL_Iter \<Rightarrow> (dl_store, (u64 \<times> DL_Iter) option) prog" where
  "dl_iter_next node_offset it =
     (if dl_cursor it = dl_last it then ret None
      else
        bindM (dl_load (dl_cursor it)) (\<lambda>c.
        ret (Some (dl_cursor it - node_offset, it\<lparr>dl_cursor := dl_next c\<rparr>))))"

definition dl_round :: "u64 \<Rightarrow> dl_store \<times> DL_Iter \<Rightarrow> (u64 \<times> dl_store \<times> DL_Iter) option" where
  "dl_round node_offset = (\<lambda>(s, it). case dl_iter_next node_offset it s of (Inr (Some (p, it')), s') \<Rightarrow> Some (p, s', it') | _ \<Rightarrow> None)"

section \<open>Rings\<close>

definition nxt_of :: "dl_store \<Rightarrow> u64 \<Rightarrow> u64" where
  "nxt_of s p = dl_next (the (s p))"

definition prv_of :: "dl_store \<Rightarrow> u64 \<Rightarrow> u64" where
  "prv_of s p = dl_prev (the (s p))"

text \<open>The cells of a list are linked, each with the one after it.\<close>

fun chain :: "dl_store \<Rightarrow> u64 list \<Rightarrow> bool" where
  "chain s (a # b # ps) \<longleftrightarrow> nxt_of s a = b \<and> prv_of s b = a \<and> chain s (b # ps)"
| "chain s ps \<longleftrightarrow> True"

definition dl_list :: "dl_store \<Rightarrow> u64 \<Rightarrow> u64 list \<Rightarrow> bool" where
  "dl_list s l xs \<longleftrightarrow> distinct (l # xs) \<and> 0 \<notin> set (l # xs) \<and> (\<forall>p \<in> set (l # xs). s p \<noteq> None) \<and>
     (if xs = [] then s l = Some ZERO_NODE else chain s (l # xs @ [l]))"

lemma chain_append: "chain s (as @ x # bs) \<longleftrightarrow> chain s (as @ [x]) \<and> chain s (x # bs)"
proof (induction as rule: induct_list012)
  case (2 a)
  then show ?case by (cases bs) simp_all
qed auto

text \<open>Other cells may change: what counts is the next cell of all but the last and the previous one of all but the first.\<close>

lemma chain_cong:
  "chain s ps \<Longrightarrow> (\<And>p. p \<in> set (butlast ps) \<Longrightarrow> nxt_of s' p = nxt_of s p) \<Longrightarrow> (\<And>p. p \<in> set (tl ps) \<Longrightarrow> prv_of s' p = prv_of s p) \<Longrightarrow> chain s' ps"
  by (induction s ps rule: chain.induct) auto

lemma dl_load_some: "s p = Some c \<Longrightarrow> dl_load p s = (Inr c, s)"
  by (simp add: dl_load_def)

lemma dl_write_some: "s p = Some c \<Longrightarrow> dl_write p f s = (Inr (), s(p \<mapsto> f c))"
  by (simp add: dl_write_def)

lemma view_upd:
  "nxt_of (s(p \<mapsto> c)) q = (if q = p then dl_next c else nxt_of s q)" "prv_of (s(p \<mapsto> c)) q = (if q = p then dl_prev c else prv_of s q)"
  by (simp_all add: nxt_of_def prv_of_def)

text \<open>A cell goes between the list and its first cell.\<close>

lemma push_ring:
  assumes c: "chain s (l # xs @ [l])" and d: "distinct (n # l # xs)" and m: "\<forall>p \<in> set (n # l # xs). s p \<noteq> None" and z: "s l \<noteq> Some ZERO_NODE"
  shows "\<exists>s'. dl_push l n s = (Inr (), s') \<and> chain s' (l # n # xs @ [l]) \<and> (\<forall>p. s' p = None \<longleftrightarrow> s p = None) \<and>
    (\<forall>p. p \<notin> set (n # l # xs) \<longrightarrow> s' p = s p)"
proof -
  define f where "f = hd (xs @ [l])"
  obtain rest where f: "xs @ [l] = f # rest" by (cases "xs @ [l]") (auto simp: f_def)
  have fin: "f \<in> set (l # xs)" "f \<noteq> n" using f d by (cases xs; auto)+
  obtain cl cn cf where cells: "s l = Some cl" "s n = Some cn" "s f = Some cf" using m fin by (metis list.set_intros not_Some_eq)
  have nl: "dl_next cl = f" using c f cells(1) by (simp add: nxt_of_def)
  let ?s1 = "s(n \<mapsto> cn\<lparr>dl_prev := l, dl_next := f\<rparr>)"
  let ?s2 = "?s1(f \<mapsto> (the (?s1 f))\<lparr>dl_prev := n\<rparr>)"
  let ?s3 = "?s2(l \<mapsto> (the (?s2 l))\<lparr>dl_next := n\<rparr>)"
  have nl': "n \<noteq> l" "l \<noteq> n" using d by auto
  have "dl_push l n s = (Inr (), ?s3)"
    using cells z nl fin nl' by (cases "f = l") (auto simp: dl_push_def dl_load_def dl_write_def ret_apply)
  moreover have "chain ?s3 (l # n # f # rest)"
  proof -
    have "chain s (f # rest)" using c f by simp
    then have "chain ?s3 (f # rest)"
    proof (rule chain_cong)
      fix p assume "p \<in> set (butlast (f # rest))"
      then have "p \<in> set xs" using f by (metis butlast_snoc)
      then show "nxt_of ?s3 p = nxt_of s p" using d cells by (auto simp: view_upd nxt_of_def)
    next
      fix p assume p: "p \<in> set (tl (f # rest))"
      have "p \<noteq> f \<or> xs = []" using p f d by (cases xs) auto
      moreover have "p \<noteq> n" using p f d by (cases xs) auto
      ultimately show "prv_of ?s3 p = prv_of s p" using p f cells fin by (auto simp: view_upd prv_of_def)
    qed
    moreover have "nxt_of ?s3 l = n" "prv_of ?s3 n = l" "nxt_of ?s3 n = f" "prv_of ?s3 f = n"
      using nl' fin cells by (auto simp: view_upd)
    ultimately show ?thesis by simp
  qed
  moreover have "\<forall>p. ?s3 p = None \<longleftrightarrow> s p = None" using cells by auto
  moreover have "\<forall>p. p \<notin> set (n # l # xs) \<longrightarrow> ?s3 p = s p" using fin by auto
  ultimately show ?thesis using f by auto
qed

lemma ring_not_zero: "chain s (l # xs @ [l]) \<Longrightarrow> 0 \<notin> set (l # xs) \<Longrightarrow> p \<in> set (l # xs) \<Longrightarrow> s p \<noteq> Some ZERO_NODE"
proof
  assume c: "chain s (l # xs @ [l])" and z: "0 \<notin> set (l # xs)" and p: "p \<in> set (l # xs)" "s p = Some ZERO_NODE"
  obtain as bs where "l # xs = as @ p # bs" using p(1) by (metis in_set_conv_decomp)
  then have ring: "l # xs @ [l] = as @ p # bs @ [l]" by (metis append_Cons append_assoc)
  then have "chain s (p # bs @ [l])" using c chain_append by metis
  then have "nxt_of s p = hd (bs @ [l])" by (cases bs) simp_all
  moreover have "set (bs @ [l]) \<subseteq> set (l # xs)" unfolding \<open>l # xs = as @ p # bs\<close> using \<open>l # xs = as @ p # bs\<close> by (cases as) auto
  then have "hd (bs @ [l]) \<in> set (l # xs)" by (cases bs) auto
  ultimately show False using z p(2) by (simp add: nxt_of_def ZERO_NODE_def)
qed

lemma push_list:
  assumes l: "dl_list s l xs" and n: "n \<notin> set (l # xs)" "n \<noteq> 0" "s n \<noteq> None"
  shows "\<exists>s'. dl_push l n s = (Inr (), s') \<and> dl_list s' l (n # xs) \<and> (\<forall>p. s' p = None \<longleftrightarrow> s p = None) \<and> (\<forall>p. p \<notin> set (n # l # xs) \<longrightarrow> s' p = s p)"
proof -
  have d: "distinct (n # l # xs)" "\<forall>p \<in> set (n # l # xs). s p \<noteq> None" "0 \<notin> set (n # l # xs)" using l n by (auto simp: dl_list_def)
  define s0 where "s0 = (if xs = [] then s(l \<mapsto> \<lparr>dl_next = l, dl_prev = l\<rparr>) else s)"
  have ring: "chain s0 (l # xs @ [l])" using l by (auto simp: s0_def dl_list_def nxt_of_def prv_of_def)
  have m: "\<forall>p \<in> set (n # l # xs). s0 p \<noteq> None" using d(2) by (auto simp: s0_def)
  have z: "s0 l \<noteq> Some ZERO_NODE" by (rule ring_not_zero [OF ring]) (use d(3) in auto)
  have run: "dl_push l n s = dl_push l n s0"
  proof (cases "xs = []")
    case True
    then have "s l = Some ZERO_NODE" using l by (simp add: dl_list_def)
    then show ?thesis using True z by (simp add: dl_push_def dl_load_def dl_write_def s0_def ZERO_NODE_def ret_apply)
  qed (simp add: s0_def)
  obtain s' where s': "dl_push l n s0 = (Inr (), s')" "chain s' (l # n # xs @ [l])" "\<forall>p. s' p = None \<longleftrightarrow> s0 p = None" "\<forall>p. p \<notin> set (n # l # xs) \<longrightarrow> s' p = s0 p"
    using push_ring [OF ring d(1) m z] by blast
  have dom: "s' p = None \<longleftrightarrow> s p = None" for p using s'(3) d(2) by (auto simp: s0_def)
  have "dl_list s' l (n # xs)" using s'(2) d dom by (auto simp: dl_list_def)
  moreover have "\<forall>p. p \<notin> set (n # l # xs) \<longrightarrow> s' p = s p" using s'(4) by (auto simp: s0_def)
  ultimately show ?thesis using run s'(1) dom by auto
qed

text \<open>Two chains are joined by a link from the end of one to the beginning of the other.\<close>

lemma chain_join:
  assumes c: "chain s (as @ [p])" "chain s (q # bs)" and link: "nxt_of s' p = q" "prv_of s' q = p"
    and same: "\<And>x. x \<in> set as \<union> set (butlast (q # bs)) \<Longrightarrow> nxt_of s' x = nxt_of s x" "\<And>x. x \<in> set (tl (as @ [p])) \<union> set bs \<Longrightarrow> prv_of s' x = prv_of s x"
  shows "chain s' (as @ p # q # bs)"
proof -
  have "chain s' (as @ [p])" by (rule chain_cong [OF c(1)]) (use same in auto)
  moreover have "chain s' (q # bs)" by (rule chain_cong [OF c(2)]) (use same in auto)
  ultimately show ?thesis using chain_append [of s' as p "q # bs"] link by simp
qed

text \<open>A cell leaves the ring, and the last one leaves an unused list.\<close>

lemma remove_list:
  assumes l: "dl_list s l (ys @ n # zs)"
  shows "\<exists>s'. dl_remove n s = (Inr (), s') \<and> dl_list s' l (ys @ zs) \<and> s' n = Some ZERO_NODE \<and> (\<forall>p. s' p = None \<longleftrightarrow> s p = None) \<and>
    (\<forall>p. p \<notin> set (l # ys @ n # zs) \<longrightarrow> s' p = s p)"
proof -
  define p where "p = last (l # ys)"
  define q where "q = hd (zs @ [l])"
  obtain as where p: "l # ys = as @ [p]" by (metis append_butlast_last_id list.discI p_def)
  obtain bs where q: "zs @ [l] = q # bs" by (cases "zs @ [l]") (auto simp: q_def)
  have d: "distinct (l # ys @ n # zs)" "0 \<notin> set (l # ys @ n # zs)" "\<forall>x \<in> set (l # ys @ n # zs). s x \<noteq> None"
    and ring: "chain s (l # (ys @ n # zs) @ [l])" using l by (auto simp: dl_list_def)
  have eq: "l # (ys @ n # zs) @ [l] = as @ p # n # q # bs" using p q by (metis append.assoc append_Cons append_Nil)
  then have links: "chain s (as @ [p])" "nxt_of s p = n" "prv_of s n = p" "nxt_of s n = q" "prv_of s q = n" "chain s (q # bs)"
    using ring chain_append [of s as p "n # q # bs"] by simp_all
  have pin: "p \<in> set (l # ys)" and qin: "q \<in> set (zs @ [l])" using p q by (metis in_set_conv_decomp, simp)
  have ne: "p \<noteq> n" "q \<noteq> n" using pin qin d(1) by auto
  have pq: "p = q \<longleftrightarrow> ys = [] \<and> zs = []"
  proof
    assume "p = q"
    then have "p = l" using pin qin d(1) by auto
    then show "ys = [] \<and> zs = []" using \<open>p = q\<close> d(1) p_def q_def by (metis distinct.simps(2) distinct_append hd_append2 hd_in_set last_ConsR last_in_set list.set_intros(1) in_set_conv_decomp append_Cons UnCI set_append set_ConsD)
  qed (simp add: p_def q_def)
  obtain cn cp cq where cells: "s n = Some cn" "s p = Some cp" "s q = Some cq" using d(3) pin qin by (metis Un_iff list.set_intros(1) set_append not_Some_eq in_set_conv_decomp append_Cons set_ConsD list.set_intros(2) empty_iff list.set(1))
  have cn: "dl_next cn = q" "dl_prev cn = p" using links(3,4) cells(1) by (simp_all add: nxt_of_def prv_of_def)
  have nz: "cn \<noteq> ZERO_NODE" using ring_not_zero [OF ring _ _, of n] d(2) cells(1) by auto
  let ?s1 = "s(q \<mapsto> cq\<lparr>dl_prev := p\<rparr>)"
  let ?s2 = "?s1(p \<mapsto> (the (?s1 p))\<lparr>dl_next := q\<rparr>)"
  let ?s3 = "(if p = q then ?s2(p \<mapsto> ZERO_NODE) else ?s2)"
  let ?s4 = "?s3(n \<mapsto> ZERO_NODE)"
  have run: "dl_remove n s = (Inr (), ?s4)"
    using cells cn nz ne by (cases "p = q") (auto simp: dl_remove_def dl_load_def dl_write_def ret_apply)
  have "dl_list ?s4 l (ys @ zs)"
  proof (cases "p = q")
    case True
    then show ?thesis using pq d cells ne by (auto simp: dl_list_def p_def)
  next
    case False
    have das: "distinct (as @ [p])" "set as \<subseteq> set (l # ys)" "set (tl (as @ [p])) \<subseteq> set ys" using d(1) p by (metis distinct_append append_Cons, metis set_append UnI1 subsetI, metis list.sel(3) order_refl)
    have dbs: "set (butlast (q # bs)) \<subseteq> set zs" "q \<notin> set bs" using q d(1) by (metis butlast_snoc order_refl, cases zs, auto)
    have "set bs \<subseteq> set (zs @ [l])" unfolding q by auto
    have "chain ?s4 (as @ p # q # bs)"
    proof (rule chain_join [OF links(1,6)])
      fix x assume "x \<in> set as \<union> set (butlast (q # bs))"
      then have "x \<noteq> p" "x \<noteq> n" using das dbs(1) pin d(1) by auto
      then show "nxt_of ?s4 x = nxt_of s x" using False cells by (simp add: view_upd nxt_of_def)
    next
      fix x assume "x \<in> set (tl (as @ [p])) \<union> set bs"
      then have "x \<noteq> q" "x \<noteq> n" using das(3) dbs(2) \<open>set bs \<subseteq> set (zs @ [l])\<close> qin d(1) by auto
      then show "prv_of ?s4 x = prv_of s x" using False cells by (simp add: view_upd prv_of_def)
    qed (use False cells ne in \<open>simp_all add: view_upd\<close>)
    then have "chain ?s4 (l # (ys @ zs) @ [l])" using p q by (metis append.assoc append_Cons append_Nil)
    then show ?thesis using d pq False cells by (auto simp: dl_list_def)
  qed
  moreover have "\<forall>x. ?s4 x = None \<longleftrightarrow> s x = None" using cells by auto
  moreover have "\<forall>x. x \<notin> set (l # ys @ n # zs) \<longrightarrow> ?s4 x = s x" using pin qin by auto
  ultimately show ?thesis using run by auto
qed

section \<open>Loops\<close>

text \<open>A loop that has yet to visit the cells \<open>xs\<close>, up to the list.\<close>

definition dl_todo :: "u64 \<Rightarrow> dl_store \<times> DL_Iter \<Rightarrow> u64 list \<Rightarrow> bool" where
  "dl_todo off = (\<lambda>(s, it) ys. \<exists>xs. ys = map (\<lambda>p. p - off) xs \<and> dl_last it \<notin> set xs \<and> (\<forall>p \<in> set xs. s p \<noteq> None) \<and>
     dl_cursor it = hd (xs @ [dl_last it]) \<and> chain s (xs @ [dl_last it]))"

interpretation dl: iterator "dl_round off" "dl_todo off" for off
proof
  fix st :: "dl_store \<times> DL_Iter" and y ys
  obtain s it where st: "st = (s, it)" by (cases st)
  show "dl_round off st = None" if "dl_todo off st []"
    using that by (simp add: st dl_todo_def dl_round_def dl_iter_next_def ret_apply)
  assume "dl_todo off st (y # ys)"
  then obtain x xs where x: "y = x - off" "ys = map (\<lambda>p. p - off) xs" "dl_last it \<notin> set (x # xs)" "\<forall>p \<in> set (x # xs). s p \<noteq> None"
    "dl_cursor it = x" "chain s (x # xs @ [dl_last it])"
    by (auto simp: st dl_todo_def Cons_eq_map_conv)
  then obtain c where c: "s x = Some c" by auto
  have "dl_next c = hd (xs @ [dl_last it])" "chain s (xs @ [dl_last it])" using x(6) c by (cases xs; simp add: nxt_of_def)+
  then have "dl_todo off (s, it\<lparr>dl_cursor := dl_next c\<rparr>) ys" using x(2-4) by (auto simp: dl_todo_def)
  moreover have "dl_round off st = Some (y, s, it\<lparr>dl_cursor := dl_next c\<rparr>)"
    using x(1,3,5) c by (auto simp: st dl_round_def dl_iter_next_def dl_load_def ret_apply)
  ultimately show "\<exists>st'. dl_round off st = Some (y, st') \<and> dl_todo off st' ys" by blast
qed

lemma dl_iter_starts:
  assumes "dl_list s l xs"
  shows "\<exists>it. dl_iter l s = (Inr it, s) \<and> dl_todo off (s, it) (map (\<lambda>p. p - off) xs)"
proof (cases "xs = []")
  case True
  then show ?thesis using assms by (simp add: dl_list_def dl_iter_def dl_load_def ZERO_NODE_def ret_apply dl_todo_def)
next
  case False
  then have c: "chain s (l # xs @ [l])" "l \<notin> set xs" "0 \<notin> set (l # xs)" "\<forall>p \<in> set (l # xs). s p \<noteq> None" using assms by (auto simp: dl_list_def)
  obtain cl where cl: "s l = Some cl" using c(4) by auto
  have n: "dl_next cl = hd (xs @ [l])" "chain s (xs @ [l])" using c(1) cl False by (cases xs; simp add: nxt_of_def)+
  moreover have "hd (xs @ [l]) \<noteq> 0" using c(3) False by (cases xs) auto
  ultimately have "dl_iter l s = (Inr \<lparr>dl_cursor = hd (xs @ [l]), dl_last = l\<rparr>, s)" using cl by (simp add: dl_iter_def dl_load_def ret_apply)
  then show ?thesis using n(2) c(2,4) by (auto simp: dl_todo_def)
qed

section \<open>Histories\<close>

datatype dl_cmd = Dl_Push u64 | Dl_Remove u64

fun dl_run :: "u64 \<Rightarrow> dl_cmd list \<Rightarrow> (dl_store, unit) prog" where
  "dl_run l [] = ret ()"
| "dl_run l (Dl_Push p # cs) = bindM (dl_push l p) (\<lambda>_. dl_run l cs)"
| "dl_run l (Dl_Remove p # cs) = bindM (dl_remove p) (\<lambda>_. dl_run l cs)"

text \<open>What the list should be, and histories in which no cell is pushed that is in the list.\<close>

fun dl_spec :: "dl_cmd list \<Rightarrow> u64 list \<Rightarrow> u64 list" where
  "dl_spec [] xs = xs"
| "dl_spec (Dl_Push p # cs) xs = dl_spec cs (p # xs)"
| "dl_spec (Dl_Remove p # cs) xs = dl_spec cs (remove1 p xs)"

fun dl_legal :: "u64 set \<Rightarrow> dl_cmd list \<Rightarrow> u64 list \<Rightarrow> bool" where
  "dl_legal C [] xs \<longleftrightarrow> True"
| "dl_legal C (Dl_Push p # cs) xs \<longleftrightarrow> p \<in> C \<and> p \<notin> set xs \<and> dl_legal C cs (p # xs)"
| "dl_legal C (Dl_Remove p # cs) xs \<longleftrightarrow> p \<in> C \<and> dl_legal C cs (remove1 p xs)"

text \<open>The cells that are not in the list are unused.\<close>

definition dl_state :: "u64 \<Rightarrow> u64 set \<Rightarrow> dl_store \<Rightarrow> u64 list \<Rightarrow> bool" where
  "dl_state l C s xs \<longleftrightarrow> dl_list s l xs \<and> l \<notin> C \<and> 0 \<notin> C \<and> set xs \<subseteq> C \<and> (\<forall>p \<in> C - set xs. s p = Some ZERO_NODE)"

lemma dl_push_step:
  assumes "dl_state l C s xs" "p \<in> C" "p \<notin> set xs"
  shows "\<exists>s'. dl_push l p s = (Inr (), s') \<and> dl_state l C s' (p # xs)"
proof -
  have p: "p \<notin> set (l # xs)" "p \<noteq> 0" "s p \<noteq> None" using assms by (auto simp: dl_state_def)
  obtain s' where s': "dl_push l p s = (Inr (), s')" "dl_list s' l (p # xs)" "\<forall>q. q \<notin> set (p # l # xs) \<longrightarrow> s' q = s q"
    using push_list [of s l xs p] p assms(1) by (auto simp: dl_state_def)
  then show ?thesis using assms by (auto simp: dl_state_def)
qed

lemma dl_remove_step:
  assumes st: "dl_state l C s xs" and p: "p \<in> C"
  shows "\<exists>s'. dl_remove p s = (Inr (), s') \<and> dl_state l C s' (remove1 p xs)"
proof (cases "p \<in> set xs")
  case True
  then obtain ys zs where xs: "xs = ys @ p # zs" "p \<notin> set ys" by (metis split_list_first)
  then obtain s' where s': "dl_remove p s = (Inr (), s')" "dl_list s' l (ys @ zs)" "s' p = Some ZERO_NODE" "\<forall>q. q \<notin> set (l # xs) \<longrightarrow> s' q = s q"
    using remove_list [of s l ys p zs] st unfolding dl_state_def by auto
  moreover have "remove1 p xs = ys @ zs" using xs by (simp add: remove1_append)
  moreover have "s' q = Some ZERO_NODE" if "q \<in> C - set (ys @ zs)" for q
    using that s'(3,4) st xs(1) by (cases "q = p") (auto simp: dl_state_def)
  ultimately show ?thesis using st xs(1) by (auto simp: dl_state_def)
next
  case False
  then have "s p = Some ZERO_NODE" using st p by (simp add: dl_state_def)
  then have "dl_remove p s = (Inr (), s)" by (simp add: dl_remove_def dl_load_def ret_apply)
  then show ?thesis using st False by (simp add: remove1_idem)
qed

lemma dl_run_state:
  "dl_state l C s xs \<Longrightarrow> dl_legal C cs xs \<Longrightarrow> \<exists>s'. dl_run l cs s = (Inr (), s') \<and> dl_state l C s' (dl_spec cs xs)"
proof (induction cs arbitrary: s xs)
  case (Cons c cs)
  show ?case
  proof (cases c)
    case (Dl_Push p)
    then obtain s1 where "dl_push l p s = (Inr (), s1)" "dl_state l C s1 (p # xs)" using dl_push_step [OF Cons.prems(1), of p] Cons.prems(2) by auto
    then show ?thesis using Cons.IH [of s1 "p # xs"] Cons.prems(2) Dl_Push by simp
  next
    case (Dl_Remove p)
    then obtain s1 where "dl_remove p s = (Inr (), s1)" "dl_state l C s1 (remove1 p xs)" using dl_remove_step [OF Cons.prems(1), of p] Cons.prems(2) by auto
    then show ?thesis using Cons.IH [of s1 "remove1 p xs"] Cons.prems(2) Dl_Remove by simp
  qed
qed (simp add: ret_apply)

text \<open>
  C32: Every history of pushes and removals on an unused list and unused cells runs without touching foreign memory, and a loop over
  the list then visits exactly the cells that were pushed and not removed since, the last one pushed first, and stops.
\<close>

theorem dl_list_refines_list:
  assumes "l \<notin> C" "0 \<notin> insert l C" "\<forall>p \<in> insert l C. s p = Some ZERO_NODE" "dl_legal C cs []"
  shows "\<exists>s' it. dl_run l cs s = (Inr (), s') \<and> dl_iter l s' = (Inr it, s') \<and>
    (\<forall>fuel. iterate (dl_round off) fuel (s', it) = take fuel (map (\<lambda>p. p - off) (dl_spec cs [])))"
proof -
  have "dl_state l C s []" using assms(1-3) by (auto simp: dl_state_def dl_list_def)
  then obtain s' where s': "dl_run l cs s = (Inr (), s')" "dl_list s' l (dl_spec cs [])"
    using dl_run_state [OF _ assms(4)] unfolding dl_state_def by blast
  then obtain it where "dl_iter l s' = (Inr it, s')" "dl_todo off (s', it) (map (\<lambda>p. p - off) (dl_spec cs []))"
    using dl_iter_starts by blast
  then show ?thesis using s'(1) dl.visits by blast
qed

text \<open>Three cells in a list at 100; the second is removed.\<close>

theorem dl_list_refines_list_witness:
  "\<exists>s' it. dl_run 100 [Dl_Push 8, Dl_Push 24, Dl_Push 40, Dl_Remove 24] ((\<lambda>_. Some ZERO_NODE)(0 := None)) = (Inr (), s') \<and>
     dl_iter 100 s' = (Inr it, s') \<and> iterate (dl_round 8) 5 (s', it) = [32, 0]"
proof -
  have "\<exists>s' it. dl_run 100 [Dl_Push 8, Dl_Push 24, Dl_Push 40, Dl_Remove 24] ((\<lambda>_. Some ZERO_NODE)(0 := None)) = (Inr (), s') \<and>
     dl_iter 100 s' = (Inr it, s') \<and>
     (\<forall>fuel. iterate (dl_round 8) fuel (s', it) = take fuel (map (\<lambda>p. p - 8) (dl_spec [Dl_Push 8, Dl_Push 24, Dl_Push 40, Dl_Remove 24] [])))"
    by (rule dl_list_refines_list [of 100 "{8, 24, 40}"]) simp_all
  then show ?thesis by (elim ex_forward conj_forward) simp_all
qed

end
