(* ===== verification/Merge_Laws.thy ===== *)
theory Merge_Laws
  imports Graph_Laws
begin

text \<open>
  The properties of \<^verbatim>\<open>subsume\<close> and of \<^verbatim>\<open>set_input\<close> with \<^verbatim>\<open>subsume_on_intern\<close>.
\<close>

section \<open>Runs\<close>

lemma pair_pins: "pins_ok pair_graph" "pins pair_graph 32 = 1" "pins pair_graph 8 = 1"
  unfolding pins_ok_def pins_def pair_views by (auto split: if_splits)

lemma pair_size: "size_of pair_graph = 9"
proof -
  have "{n. live pair_graph n} = {8, 16, 24, 32, 40}" by (auto simp: pair_views)
  then show ?thesis using pair_edge_count by (simp add: size_of_def)
qed

lemma pair_runs: "fst (subsume tiny_spec oof (Suc dfuel) (Suc fuel) 16 24 pair_graph) = Inr ()"
  by (simp add: subsume.simps pair_graph_def pair_node_def tiny_spec_def g_expand_node_def g_get_node_def ensure_available_output_cap_def
      check_use_def is_cfg_def move_outputs_def g_put_node_def ids_size_def redirect_use_def unintern_def has_flag_def put_input_def
      g_pin_def g_unpin_def add_output_def mk_output_def remove_output_eq delete_node_eqs retire_node_def keep_outputs_def intern_def
      DEAD_NODE_KIND_def type_Region_def type_Phi_def type_End_def ret_apply bindM_apply assertM_apply requireM_apply getM_def modifyM_def
      linear_search_def swap_remove_def Let_def)


section \<open>Merges\<close>

text \<open>
  C8: \<^verbatim>\<open>subsume\<close> ends, with fuel for the nesting as there are nodes and for the deletions as there are nodes and edges. It either stops
  at an assertion of the code or a full arena, or in a graph of 8191 nodes and edges or more at an output array that cannot grow, or it leaves a well-formed graph without the target. Every node then has a representative, the
  same for the target and its replacement; what is alive represents itself and has the representatives of its inputs as inputs; a node
  is merged only into one of its kind with the same representatives as inputs; and a pin keeps the representative of its node alive.
\<close>

theorem subsume_merges:
  assumes "graph_ok sp g" "pins_ok g" "live g w" "live g t" "w \<noteq> t" "size_of g < dfuel" "card {n. live g n} < fuel"
  shows "case subsume sp oof dfuel fuel w t g of (Inl e, g') \<Rightarrow> e \<in> subsume_faults (size_of g)
    | (Inr _, g') \<Rightarrow> graph_ok sp g' \<and> \<not> live g' t \<and> (\<exists>r. r t = r w \<and>
        (\<forall>n. live g' n \<longrightarrow> live g n \<and> r n = n \<and> kind_of g' n = kind_of g n \<and> ins g' n = map r (ins g n)) \<and>
        (\<forall>n. live g n \<longrightarrow> n \<noteq> t \<longrightarrow> live g (r n) \<and> kind_of g (r n) = kind_of g n \<and> map r (ins g (r n)) = map r (ins g n)) \<and>
        (\<forall>n. pins g n \<le> pins g' (r n)) \<and> (\<forall>n. 0 < pins g n \<longrightarrow> live g' (r n)))"
proof (cases "subsume sp oof dfuel fuel w t g")
  case (Pair res g')
  note s = subsume_ends [OF assms(1) [unfolded graph_ok_def] assms(2-5) order_refl assms(6,7), of oof, unfolded Pair]
  show ?thesis
  proof (cases res)
    case (Inl e)
    then show ?thesis using s unfolding Pair by simp
  next
    case (Inr z)
    then have sub: "subsumed sp {} w t g g'" using s by simp
    then obtain r where r: "merged {t} r g g'" "r t = r w" "\<not> live g' t" "pins_kept r g g'" unfolding subsumed_def by blast
    have ok: "graph_ok sp g'" using subsumed_ok [OF sub] by simp
    have pin: "pins g n \<le> pins g' (r n)" for n by (rule pins_keptD [OF r(4)])
    have "live g' (r n)" if "0 < pins g n" for n
      using pinned_live [OF ok [unfolded graph_ok_def]] pin [of n] that by (metis less_le_trans)
    then show ?thesis using ok r(2,3) pin mergedD [OF r(1)] unfolding Pair Inr by (auto intro!: exI [of _ r])
  qed
qed

theorem subsume_merges_witness:
  "\<exists>g'. subsume tiny_spec (Ub ''fuel'') 10 10 16 24 pair_graph = (Inr (), g') \<and> graph_ok tiny_spec g' \<and> \<not> live g' 24 \<and> live g' 32 \<and> ins g' 32 = [16]"
proof -
  have run: "fst (subsume tiny_spec (Ub ''fuel'') 10 10 16 24 pair_graph) = Inr ()" using pair_runs [of "Ub ''fuel''" 9 9] by (simp add: eval_nat_numeral)
  have card: "card {n. live pair_graph n} < 10" using pair_size unfolding size_of_def by linarith
  obtain g' where g': "subsume tiny_spec (Ub ''fuel'') 10 10 16 24 pair_graph = (Inr (), g')" using run by (metis prod.collapse)
  obtain r where r: "graph_ok tiny_spec g'" "\<not> live g' 24" "r 24 = r 16"
    "\<forall>n. live g' n \<longrightarrow> live pair_graph n \<and> r n = n \<and> kind_of g' n = kind_of pair_graph n \<and> ins g' n = map r (ins pair_graph n)"
    "\<forall>n. live pair_graph n \<longrightarrow> n \<noteq> 24 \<longrightarrow> kind_of pair_graph (r n) = kind_of pair_graph n" "\<forall>n. 0 < pins pair_graph n \<longrightarrow> live g' (r n)"
    using subsume_merges [OF pair_ok pair_pins(1), of 16 24 10 10 "Ub ''fuel''"] card pair_size unfolding g' by (auto simp: pair_views(1))
  have k: "r 16 = 16" "r 32 = 32" using r(5) [rule_format, of 16] r(5) [rule_format, of 32] by (auto simp: pair_views type_End_def split: if_splits)
  then have "live g' 32" using r(6) [rule_format, of 32] pair_pins(2) by simp
  then show ?thesis using g' r(1-4) k(1) by (auto simp: pair_views)
qed



text \<open>
  C11: \<^verbatim>\<open>set_input\<close> with \<^verbatim>\<open>subsume_on_intern\<close> replaces the input, and what loses its last user by it is gone. It returns the node itself, in a
  well-formed graph, or another node was interned with the value the node gets; that one has then taken the place of the node in
  the well-formed graph it returns it with, unless an assertion of the code, the arena or an output array that cannot grow stops it. That is when the End is
  pinned, as it is in every proc, the new input has fewer than 8191 outputs and there is room in the arena.
\<close>

theorem replacement_merges:
  assumes "graph_ok sp g" "pins_ok g" "live g u" "i < length (ins g u)" "i < 256"
    and "v = 0 \<or> live g v \<and> length (outs g v) < 2 ^ 13 - 1 \<and> out_fits sp g v u i"
    and "ends_pinned g" "Suc (size_of g) < dfuel" "card {n. live g n} < fuel"
    and "g_pos g + 2 ^ 16 + intern_room g \<le> g_reserved g"
  shows "\<exists>g1. input_replaced u i (ins g u ! i) v g g1 \<and>
    (set_input_subsuming sp oof dfuel fuel u (int i) v g = (Inr u, g1) \<and> graph_ok sp g1 \<or>
     (\<exists>m. m \<noteq> u \<and> interned sp g m \<and> value_of g m = (kind_of g u, (ins g u)[i := v]) \<and>
       (case set_input_subsuming sp oof dfuel fuel u (int i) v g of (Inl e, g') \<Rightarrow> e \<in> subsume_faults (Suc (size_of g))
        | (Inr n, g') \<Rightarrow> n = m \<and> graph_ok sp g' \<and> \<not> live g' u \<and> (\<exists>r. r u = r m \<and>
            (\<forall>n. live g' n \<longrightarrow> live g1 n \<and> r n = n \<and> kind_of g' n = kind_of g1 n \<and> ins g' n = map r (ins g1 n))))))"
proof -
  obtain g1 where g1: "input_replaced u i (ins g u ! i) v g g1"
    "set_input_subsuming sp oof dfuel fuel u (int i) v g = (Inr u, g1) \<and> graph_ok sp g1 \<or>
     (\<exists>m. m \<noteq> u \<and> interned sp g m \<and> value_of g m = (kind_of g u, (ins g u)[i := v]) \<and>
        ends (subsume_faults (Suc (size_of g))) (\<lambda>n g''. n = m \<and> subsumed sp {u} m u g1 g'') (set_input_subsuming sp oof dfuel fuel u (int i) v g))"
    using set_input_subsuming_ends [OF assms(1-4,5) refl assms(6,8-10), of oof] assms(7) by blast
  have eff: "graph_ok sp g' \<and> \<not> live g' u \<and> (\<exists>r. r u = r m \<and>
      (\<forall>n. live g' n \<longrightarrow> live g1 n \<and> r n = n \<and> kind_of g' n = kind_of g1 n \<and> ins g' n = map r (ins g1 n)))"
    if sub: "subsumed sp {u} m u g1 g'" for m g'
  proof -
    obtain r where r: "merged {u} r g1 g'" "r u = r m" "\<not> live g' u" using sub unfolding subsumed_def by blast
    then show ?thesis using subsumed_ok [OF sub] mergedD(1-4) [OF r(1)] by auto
  qed
  from g1(2) show ?thesis
  proof (elim disjE exE conjE)
    fix m
    assume m: "m \<noteq> u" "interned sp g m" "value_of g m = (kind_of g u, (ins g u)[i := v])"
      "ends (subsume_faults (Suc (size_of g))) (\<lambda>n g''. n = m \<and> subsumed sp {u} m u g1 g'') (set_input_subsuming sp oof dfuel fuel u (int i) v g)"
    show ?thesis
      using m g1(1) eff unfolding ends_def
      by (intro exI [of _ g1] conjI disjI2 exI [of _ m]) (simp_all split: prod.splits sum.splits)
  qed (use g1(1) in blast)
qed

theorem replacement_merges_witness:
  "\<exists>g'. set_input_subsuming tiny_spec (Ub ''fuel'') 11 11 32 (int 0) 16 pair_graph = (Inr 32, g') \<and> graph_ok tiny_spec g' \<and> \<not> live g' 24"
proof -
  have fits: "out_fits tiny_spec pair_graph 16 32 0" by (simp add: out_fits_def)
  have card: "card {n. live pair_graph n} < 11" using pair_size unfolding size_of_def by linarith
  obtain g1 where g1: "input_replaced 32 0 (ins pair_graph 32 ! 0) 16 pair_graph g1"
    "set_input_subsuming tiny_spec (Ub ''fuel'') 11 11 32 (int 0) 16 pair_graph = (Inr 32, g1)" "graph_ok tiny_spec g1"
    using replacement_merges [OF pair_ok pair_pins(1), of 32 0 16 11 11 "Ub ''fuel''"] pair_interned fits pair_end pair_room card pair_size
    by (auto simp: pair_views(1-3))
  have "\<not> live g1 24" using g1(1) unfolding input_replaced_def by (simp add: pair_views)
  then show ?thesis using g1(2,3) by blast
qed

end
