(* ===== verification/Spec2Isabelle.thy ===== *)
theory Spec2Isabelle
  imports Layout Arna_Life Sessions Examples Build Verify Alias_Laws Dl_List Merge_Laws
begin

text \<open>
  A verification library for the Rust crate \<^verbatim>\<open>bac\<close> (\<^verbatim>\<open>src/bac/bindgen/rust\<close>), the safe interface to BAC, a
  compiler backend written in Odin (\<^verbatim>\<open>src/bac\<close>). A client builds the graph of a function through the
  crate, and the library optimizes and compiles it. The graph lives in an arena that the client owns;
  a node is a reference into that arena on the Rust side and an index of 4-byte words on the Odin side.
  The crate stands between the two: it checks every reference, turns it into an index, calls the
  library, and turns the answer into references again.

  \<^bold>\<open>The parts and their theories\<close>

    \<^item> \<^verbatim>\<open>Prelude\<close>: machine integers with Rust's checked operations, and computations that return, panic or are
      undefined (\<open>prog\<close>, with \<open>bindM\<close>, \<open>assertM\<close> for a panic, \<open>requireM\<close> for the safety condition of unsafe code,
      \<open>with_guard\<close> for a value that is dropped on the way out). A panic is an outcome; undefined behaviour is
      another, and the safety theorems say that it is not reached.
    \<^item> \<^verbatim>\<open>Fixed_Cap\<close>: \<^verbatim>\<open>fixed_cap_dyn_array.rs\<close>, an array of slots that may be uninitialised. The interface of a
      bounded stack is the locale \<open>bounded_stack\<close>, which the array interprets.
    \<^item> \<^verbatim>\<open>Bitfields\<close>, \<^verbatim>\<open>Layout\<close>, \<^verbatim>\<open>Structs\<close>, \<^verbatim>\<open>Enums\<close>, \<^verbatim>\<open>Externs\<close>: the declarations of \<^verbatim>\<open>sys.rs\<close>. Bit field accessors on the
      bytes they pack (locale \<open>bitfield_struct\<close>, one interpretation per struct); the layout of every
      struct, computed by the rules of \<^verbatim>\<open>repr(C)\<close> and compared with every assertion of the file; the structs
      that cross the boundary as records; the enumerations in their three places; the signatures of the
      library's functions.
    \<^item> \<^verbatim>\<open>Memory\<close>, \<^verbatim>\<open>Machine\<close>, \<^verbatim>\<open>Ffi\<close>: bytes by address, slices and strings (\<^verbatim>\<open>sys_ext.rs\<close>), the state that both sides act on,
      and a call of the library. The library is a parameter: what each function does to the machine.
    \<^item> \<^verbatim>\<open>Arna\<close>, \<^verbatim>\<open>Arna_Life\<close>: the Odin arena allocator (\<^verbatim>\<open>src/utils/arna/arna.odin\<close>), with the locale \<open>region_allocator\<close>
      for what its clients rely on, and every sequence of requests a client may make.
    \<^item> \<^verbatim>\<open>Arena\<close>, \<^verbatim>\<open>Proc\<close>, \<^verbatim>\<open>Proc_Laws\<close>, \<^verbatim>\<open>Stencil\<close>, \<^verbatim>\<open>Codegen\<close>: \<^verbatim>\<open>lib.rs\<close>, with the Odin functions of \<^verbatim>\<open>graph.odin\<close> that only read a
      graph or copy it.
    \<^item> \<^verbatim>\<open>Wrappers\<close>, \<^verbatim>\<open>Builder_Calls\<close>, \<^verbatim>\<open>Builder_Laws\<close>, \<^verbatim>\<open>Sessions\<close>: \<^verbatim>\<open>generated.rs\<close>. Every method of \<^verbatim>\<open>Proc\<close> and \<^verbatim>\<open>Builder\<close> and of the
      states of an \<^verbatim>\<open>if\<close>, a loop and a block is one definition; \<open>method_call\<close> is a call of any of the safe ones, its
      specification is one row of a table (function, operands, result), and the methods are proved to
      perform their rows. \<open>session\<close> is the step relation of a client that calls them in any order.
    \<^item> \<^verbatim>\<open>Masks\<close>, \<^verbatim>\<open>Simd_Scan\<close>, \<^verbatim>\<open>Graph\<close>: loops over the bits of a mask and the locale \<open>iterator\<close>, which the vector scan, the bit sets and the
      intrusive list interpret; the graph of \<^verbatim>\<open>graph.odin\<close> as the library keeps it: nodes with inputs and outputs, the interner
      and its search by vectors of 16 hashes, creation, connection, pins, deletion, replacement of an input (\<open>set_input_by\<close>, with a parameter for what is done when another
      node has the new value). A node is a record in a map from ids; how much of the arena it takes is counted, where it lies is not.
    \<^item> \<^verbatim>\<open>Graph_Views\<close>, \<^verbatim>\<open>Graph_Interner\<close>, \<^verbatim>\<open>Graph_Delete\<close>, \<^verbatim>\<open>Graph_Build\<close>, \<^verbatim>\<open>Graph_Make\<close>, \<^verbatim>\<open>Graph_Connect\<close>, \<^verbatim>\<open>Graph_Replace\<close>, \<^verbatim>\<open>Graph_Steps\<close>,
      \<^verbatim>\<open>Graph_Laws\<close>: the invariants of a graph (\<open>graph_ok\<close>), what each operation does to them, the contract of a table with one
      name per key (locale \<open>naming\<close>, which creation interprets), and the operations as a step relation (\<open>graph_step\<close>).
    \<^item> \<^verbatim>\<open>Graph_Edit\<close>: \<^verbatim>\<open>swap_inputs\<close> and \<^verbatim>\<open>clone\<close>. \<^verbatim>\<open>Subsume\<close>, \<^verbatim>\<open>Subsume_Laws\<close>, \<^verbatim>\<open>Merges\<close>, \<^verbatim>\<open>Merge_Laws\<close>: \<^verbatim>\<open>subsume\<close>, which puts a node in the place of
      another and merges the users that become equal by it, and \<^verbatim>\<open>set_input\<close> with \<^verbatim>\<open>subsume_on_intern\<close>. What the merges do
      together is a map of nodes to representatives (\<open>merged\<close>).
    \<^item> \<^verbatim>\<open>Bit_Arr\<close>, \<^verbatim>\<open>Bit_Iter\<close>, \<^verbatim>\<open>Dl_List\<close>: \<^verbatim>\<open>bit_arr.odin\<close>, the bit sets as sets of numbers, with their iterator, and the intrusive list as a
      ring of cells in memory.
    \<^item> \<^verbatim>\<open>Worklist\<close>, \<^verbatim>\<open>Worklist_Laws\<close>, \<^verbatim>\<open>Verify\<close>: the worklist of the optimizer, the collection of all nodes of a graph, and \<^verbatim>\<open>verify\<close>, the
      check of a graph that the optimizer runs between its passes.
    \<^item> \<^verbatim>\<open>Alias\<close>, \<^verbatim>\<open>Alias_Laws\<close>: the analysis of addresses that the optimizer relies on to move loads and stores, and the values and
      footprints (\<open>values_ok\<close>, \<open>writes\<close>, \<open>reads\<close>) that it is proved against.
    \<^item> \<^verbatim>\<open>Compiler\<close>, \<^verbatim>\<open>Compiler_Laws\<close>, \<^verbatim>\<open>Compiler_Text\<close>, \<^verbatim>\<open>Compiler_Trees\<close>, \<^verbatim>\<open>Examples\<close>: the programs under \<^verbatim>\<open>examples/\<close>, clients
      of the crate; the largest of them is a compiler for a small language.
    \<^item> \<^verbatim>\<open>Build\<close>: \<^verbatim>\<open>build.rs\<close>, and the names of the objects that \<^verbatim>\<open>script.odin\<close> builds.

  \<^bold>\<open>What the theorems show\<close>

    \<^item> Memory safety of the safe interface, relative to the answers of the library: in a session in which its answers were \<open>served\<close>, a
      reference that a client holds stays a reference to a node, the library is called only with live nodes on arenas that are in order,
      and a method is undefined only if the answer to its own call is not served. \<^verbatim>\<open>check\<close> accepts exactly
      the live nodes; a method refuses the first bad node, alone or in a list, before it calls anything, and otherwise calls
      its function once, with the ids in their places and with the declared types. Ids and references
      correspond, and a list of nodes is handed over in the scratch arena, whose position is restored
      however the call ends.
    \<^item> The arena allocator keeps the blocks of its clients apart and inside the buffer, and their contents, and fails exactly when there is no room;
      an \<^verbatim>\<open>Arena\<close> frees exactly what it allocated; a stencil that is mounted elsewhere is the same graph.
    \<^item> Every graph that can be built from an empty one is well-formed: inputs and outputs are two views of the same edges, and
      nodes of an interned type have one id per value. Deletion stops, takes a node exactly when nothing uses it, and with it
      what has lost its last user; replacement of an input does the same with the input it replaces. Creation
      returns when there is room and changes nothing else; connection, exchange of inputs and copies do exactly what they say. That deletion and replacement return
      is for graphs whose End is pinned (\<open>ends_pinned\<close>): \<^verbatim>\<open>ssa.odin\<close> pins the End when it makes a proc, and the deletion of an End is what the code asserts never to happen.
    \<^item> A merge ends in a well-formed graph without the target, or at one of the faults \<open>subsume_faults\<close>; every node has a representative of
      the same kind with equal inputs, survivors use the representatives of what they used, and pins survive. The graph stays well-formed
      however merges, exchanges of inputs and copies are mixed with the other operations.
    \<^item> The collection of nodes finds exactly those connected to the ends of the graph and numbers them; a node in the
      worklist is returned after those before it, whatever happens meanwhile. \<^verbatim>\<open>verify\<close> accepts every well-formed graph in which
      nothing is left over, so that the invariant \<open>graph_ok\<close> covers what the authors check.
    \<^item> The analysis of addresses is exact for pointers on the same base, and operations that it calls apart can be exchanged as long as no operation of a size that is not constant has more than \<open>2 ^ 30\<close> bytes (\<open>sizes_bounded\<close>). A loop
      over a bit set visits its members in order, one over the complement the others up to the end of the last mask, a loop over an intrusive list the cells that are in it.
    \<^item> Data means the same on both sides: bit fields, slices and strings, and, as lemmas that compare the tables of both sides, layouts
      (\<open>layout_asserts_hold\<close>, \<open>layout_fields_apart\<close>) and enumerations (\<open>newtypes_are_odin_members\<close>, \<open>sys_constants_are_odin_members\<close>); the
      fixed-capacity array is a bounded list.
    \<^item> The example compiler terminates on every text and builds, for the text of a syntax tree, what the
      tree says; the code that is run is the code that was compiled. The build script links the object
      of the target.
    \<^item> Places where the code falls short are theorems or lemmas too: a stencil mounted without room, the object's name on macOS (\<open>build_names_match_prebuilt\<close>),
      the output array that cannot grow from 8191 places on, two copies of which one reads what the other writes (\<open>noalias_ops_two_copies\<close>), users whose ids differ by \<open>2 ^ 22\<close> (\<open>outputs_alias\<close>), an allocation size that wraps around
      (\<open>alloc_size_wraps\<close>), the bounds assertion of \<^verbatim>\<open>get_node\<close> (\<open>get_node_assertion_incomplete\<close>).

  \<^bold>\<open>Bounds and fuel\<close>

  Addresses and sizes are 64-bit words and wrap around; node ids are 32-bit words. The recursion of the
  example compiler is bounded by fuel: twice the number of tokens and two more are always enough, because
  every statement and every expression consumes a token, and the outcome does not depend on what
  running out would mean. Deletion has as much fuel as the graph has edges and one more, because each round of it takes an
  edge away (\<open>delete_terminates\<close> for any graph); the collection of nodes as much as there are live nodes and one more, because
  each round handles another node. The merges of \<^verbatim>\<open>subsume\<close> nest no deeper than there are nodes, because each begins after the target
  of the one around it is dead; its deletions have as much fuel as there are nodes and edges. A pointer is followed to its base with as much fuel as the sums below it are deep. The theorems about graphs hold for arenas of at most 16 MiB, the range of the ids in an
  output, for at most 256 inputs and, where an operation adds an output to a node, at most \<open>2 ^ 13 - 2\<close> outputs of it; merges have no such bound, for them the array that cannot
  grow is one of the faults (\<open>outputs_full\<close>). The iterator over inputs is bounded by the 16-bit count that a node holds.

  \<^bold>\<open>Not modelled\<close>

  Of the Odin side: truncation of inputs, compaction, scopes and the
  states of control flow, source locations, the triggers of the optimizer, its passes, scheduling, register allocation and
  the targets. The branch of \<^verbatim>\<open>subsume\<close> for a nil replacement has the fuel of the deletions for its rounds; what is proved of it
  is limited to targets whose users do not become equal to other nodes (\<open>nil_subsume_ends\<close>). For the theorems about the crate the library is a parameter, of which nothing is assumed; \<open>served\<close> says of one answer
  that the arenas stay where they are, no node is given back, and the values have the
  declared types and hold ids of nodes. The rewrite rules \<^verbatim>\<open>rewrites.rs\<close> are input of a generator and not
  compiled as Rust. The virtual memory of the arena allocator is switched off in the objects the crate
  links. The operating system and the processor in the examples are parameters. Formatting
  traits, lifetimes and \<^verbatim>\<open>PhantomData\<close> have no counterpart at run time.
\<close>

end
